(* ===== verification/Prelude.thy ===== *)
theory Prelude
  imports Main "HOL-Library.Word"
begin

text \<open>
  Shared vocabulary of the development: Go's machine integers as words, the errors of the
  modelled packages as one datatype (Go's \<open>error\<close> interface is open, so one function can
  return the errors of several packages), byte strings as lists of 8-bit words, and the view
  of a byte string as its list of bits, most significant bit of each byte first, which is
  the order in which AV1 writes syntax elements.

  The generic lemmas below are about lists, words and this bit view only.
\<close>

unbundle bit_operations_syntax

named_theorems reads_intro \<open>composition rules of the codec predicate\<close>
named_theorems rd_post \<open>composition rules of the postcondition predicate\<close>
named_theorems rd_safe \<open>readers that only ever move forward inside their source\<close>

type_synonym u8 = "8 word"
type_synonym u16 = "16 word"
type_synonym u32 = "32 word"
type_synonym u64 = "64 word"
type_synonym bytes = "u8 list"
type_synonym bits = "bool list"

section \<open>Errors\<close>

text \<open>
  The error values of the packages, with the package in front of the name where two share it.
  \<open>GoPanic\<close> is a run-time panic (an index out of range, a division by zero), where the code does not exclude it.
\<close>

datatype go_err =
    ErrShortBuffer | ErrLEB128Overflow | ErrShortLEB128
  | ErrNotEnoughBits | ErrInvalidBitCount | ErrInvalidTrailingBits | ErrUVLCOverflow
  | ObuErrShortHeader | ObuErrForbiddenBit | ObuErrReservedBit | ObuErrInvalidType
  | ObuErrInvalidAnnexB | ObuErrMissingSizeField | ObuErrMissingTemporalDelimiter
  | ObuErrSizeMismatch | ObuErrShortPayload
  | IvfErrShortHeader | IvfErrInvalidSignature | IvfErrUnsupportedCodec
  | IvfErrUnsupportedHeader | IvfErrShortFrameHeader | IvfErrShortFramePayload
  | ErrInvalidSequenceHeader | ErrInvalidFrameHeader | ErrInvalidTileGroup
  | ErrReferenceFrameNeeded
  | ErrInvalidFrame | ErrInvalidConfig
  | ErrTileListShortHeader | ErrTileListShortEntry | ErrTileListShortTileData
  | ErrTileListTrailingBytes | ErrTileListTooManyTiles | ErrTileListInvalidTileCount
  | ErrTileListInvalidAnchorIndex | ErrTileListInvalidAnchorTile | ErrTileListNonUniformTileSize
  | ErrMetadataShortPayload | ErrMetadataMissingTrailing | ErrMetadataInvalidTrailing
  | ErrMetadataMissingCountry | ErrMetadataMissingCountryEx | ErrMetadataInvalidReserved
  | RtpErrShortPayload | RtpErrReservedBit | RtpErrInvalidAggregationHeader | RtpErrInvalidElementCount
  | RtpErrShortBuffer | RtpErrZeroLengthElement | RtpErrUnexpectedContinuation | RtpErrFragmentInterrupted
  | RtpErrMTUTooSmall | RtpErrInvalidPayloadLimits | RtpErrOBUBufferTooSmall | RtpErrPacketPlanTooSmall
  | ErrMissingSequenceHeader | ErrMissingFrameHeader | ErrEventBufferTooSmall | ErrTileListMissingFrameContext
  | EntropyErrInvalidBitCount | EntropyErrInvalidCDF | EntropyErrInvalidProbability | EntropyErrInvalidRange
  | EntropyErrInvalidSymbol
  | RtpErrEmptyFrame | RtpErrInvalidDependencyDescriptor
  | GoPanic

section \<open>The bits of a byte string\<close>

definition byte_bits :: "u8 \<Rightarrow> bits" where
  "byte_bits b = map (\<lambda>i. bit b (7 - i)) [0..<8]"

definition stream_bits :: "bytes \<Rightarrow> bits" where
  "stream_bits bs = concat (map byte_bits bs)"

text \<open>The unsigned value of a bit string, first bit most significant, truncated to the word.\<close>

definition bits_word :: "bits \<Rightarrow> 'a::len word" where
  "bits_word bs = horner_sum of_bool 2 (rev bs)"

text \<open>The \<open>n\<close> low bits of a word, most significant first.\<close>

definition word_bits :: "nat \<Rightarrow> 'a::len word \<Rightarrow> bits" where
  "word_bits n w = map (\<lambda>i. bit w (n - 1 - i)) [0..<n]"

lemma length_byte_bits [simp]: "length (byte_bits b) = 8"
  by (simp add: byte_bits_def)

lemma length_word_bits [simp]: "length (word_bits n w) = n"
  by (simp add: word_bits_def)

lemma word_bits_0 [simp]: "word_bits 0 w = []"
  by (simp add: word_bits_def)

lemma nth_byte_bits: "i < 8 \<Longrightarrow> byte_bits b ! i = bit b (7 - i)"
  by (simp add: byte_bits_def)

lemma stream_bits_simps [simp]:
  "stream_bits [] = []"
  "stream_bits (b # bs) = byte_bits b @ stream_bits bs"
  by (simp_all add: stream_bits_def)

lemma stream_bits_append [simp]: "stream_bits (xs @ ys) = stream_bits xs @ stream_bits ys"
  by (simp add: stream_bits_def)

lemma length_stream_bits [simp]: "length (stream_bits bs) = 8 * length bs"
  by (induction bs) auto

lemma nth_stream_bits:
  "i < 8 * length bs \<Longrightarrow> stream_bits bs ! i = bit (bs ! (i div 8)) (7 - i mod 8)"
proof (induction bs arbitrary: i)
  case Nil
  then show ?case by simp
next
  case (Cons b bs)
  show ?case
  proof (cases "i < 8")
    case True
    then show ?thesis by (simp add: nth_append nth_byte_bits)
  next
    case False
    then have "i - 8 < 8 * length bs" using Cons.prems by simp
    moreover have "i div 8 = Suc ((i - 8) div 8)" using False by (simp add: le_div_geq)
    moreover have "i mod 8 = (i - 8) mod 8" using False by (simp add: le_mod_geq)
    ultimately show ?thesis using False Cons.IH [of "i - 8"] by (simp add: nth_append)
  qed
qed

lemma bit_bits_word:
  "bit (bits_word bs :: 'a::len word) n \<longleftrightarrow>
     n < LENGTH('a) \<and> n < length bs \<and> bs ! (length bs - 1 - n)"
  by (auto simp add: bits_word_def bit_horner_sum_bit_word_iff rev_nth)

lemma bits_word_append:
  "(bits_word (xs @ ys) :: 'a::len word) = push_bit (length ys) (bits_word xs) OR bits_word ys"
  by (rule bit_word_eqI)
    (auto simp add: bit_bits_word bit_simps nth_append not_less less_diff_conv2)

lemma bits_word_Nil [simp]: "bits_word [] = 0"
  by (simp add: bits_word_def)

lemma bits_word_word_bits: "(bits_word (word_bits n w) :: 'a::len word) = take_bit n (w :: 'a word)"
  by (rule bit_word_eqI) (auto simp add: bit_bits_word word_bits_def bit_simps)

lemma ucast_bits_word:
  "length xs \<le> LENGTH('a) \<Longrightarrow> (ucast (bits_word xs :: 'a::len word) :: 'b::len word) = bits_word xs"
  by (rule bit_word_eqI) (auto simp: bit_simps bit_bits_word)

lemma byte_bits_word: "bits_word (byte_bits b) = b"
  by (rule bit_word_eqI) (auto simp: bit_bits_word nth_byte_bits)

lemma ucast_byte_bits: "(ucast (b :: u8) :: 'b::len word) = bits_word (byte_bits b)"
  using ucast_bits_word [of "byte_bits b", where 'a = 8 and 'b = 'b] by (simp add: byte_bits_word)

lemma bits_word_snoc_byte:
  "push_bit 8 (bits_word xs) OR ucast (b :: u8) = (bits_word (xs @ byte_bits b) :: 'a::len word)"
  by (simp add: bits_word_append ucast_byte_bits)

lemma push_bit_bits_word_full:
  "length xs = LENGTH('a) \<Longrightarrow> length ys = k \<Longrightarrow> k \<le> LENGTH('a) \<Longrightarrow>
     push_bit k (bits_word xs :: 'a::len word) OR bits_word ys = bits_word (drop k xs @ ys)"
  by (rule bit_word_eqI) (auto simp: bit_simps bit_bits_word nth_append add.commute)

lemma drop_bit_bits_word:
  "length xs \<le> LENGTH('a) \<Longrightarrow> k \<le> length xs \<Longrightarrow>
     drop_bit k (bits_word xs :: 'a::len word) = bits_word (take (length xs - k) xs)"
  by (rule bit_word_eqI) (auto simp: bit_simps bit_bits_word)

lemma ucast_drop_bit_byte:
  "k \<le> 8 \<Longrightarrow> (ucast (drop_bit (8 - k) (b :: u8)) :: 'b::len word) = bits_word (take k (byte_bits b))"
  using drop_bit_bits_word [of "byte_bits b" "8 - k", where 'a = 8]
    ucast_bits_word [of "take k (byte_bits b)", where 'a = 8 and 'b = 'b]
  by (simp add: byte_bits_word)

lemma stream_bits_take: "stream_bits (take k bs) = take (8 * k) (stream_bits bs)"
  by (induction bs arbitrary: k) (auto simp: take_Cons split: nat.splits)

lemma stream_bits_drop: "stream_bits (drop k bs) = drop (8 * k) (stream_bits bs)"
  by (induction bs arbitrary: k) (auto simp: drop_Cons split: nat.splits)

lemma byte_bits_stream:
  "i < length bs \<Longrightarrow> byte_bits (bs ! i) = take 8 (drop (8 * i) (stream_bits bs))"
  using stream_bits_take [of 1 "drop i bs"] stream_bits_drop [of i bs]
  by (simp add: take_Suc_conv_app_nth [of 0 "drop i bs", simplified] hd_drop_conv_nth take_Suc)

lemma unat_bits_word_less: "length bs < LENGTH('a) \<Longrightarrow> unat (bits_word bs :: 'a::len word) < 2 ^ length bs"
proof -
  assume a: "length bs < LENGTH('a)"
  have "take_bit (length bs) (bits_word bs :: 'a word) = bits_word bs"
    by (rule bit_word_eqI) (auto simp: bit_simps bit_bits_word)
  then show ?thesis
    by (metis take_bit_nat_less_exp unsigned_take_bit_eq)
qed

lemma bits_word_replicate_False [simp]: "bits_word (replicate k False) = 0"
  by (rule bit_word_eqI) (simp add: bit_bits_word)

lemma bits_word_slice:
  assumes "length xs = LENGTH('a)" and "n + k \<le> LENGTH('a)"
  shows "drop_bit (LENGTH('a) - n) (push_bit k (bits_word xs :: 'a::len word)) = bits_word (take n (drop k xs))"
proof -
  have "push_bit k (bits_word xs) = (bits_word (drop k xs @ replicate k False) :: 'a word)"
    using push_bit_bits_word_full [of xs "replicate k False" k, where 'a = 'a] assms by simp
  also have "drop_bit (LENGTH('a) - n) \<dots> = bits_word (take n (drop k xs @ replicate k False))"
    using assms by (subst drop_bit_bits_word) simp_all
  finally show ?thesis using assms by simp
qed

lemma word_bits_bits_word: "length xs = n \<Longrightarrow> n \<le> LENGTH('a) \<Longrightarrow> word_bits n (bits_word xs :: 'a::len word) = xs"
  by (rule nth_equalityI) (auto simp: word_bits_def bit_bits_word)

lemma bits_word_eq_0_iff:
  assumes "length xs \<le> LENGTH('a)"
  shows "(bits_word xs :: 'a::len word) = 0 \<longleftrightarrow> (\<forall>b \<in> set xs. \<not> b)"
proof
  assume z: "(bits_word xs :: 'a word) = 0"
  show "\<forall>b \<in> set xs. \<not> b"
  proof
    fix b
    assume "b \<in> set xs"
    then obtain i where i: "i < length xs" "xs ! i = b" by (auto simp: in_set_conv_nth)
    have "\<not> bit (bits_word xs :: 'a word) (length xs - 1 - i)" by (simp only: z bit_0_eq bot_apply) simp
    moreover have "length xs - 1 - (length xs - 1 - i) = i" using i by simp
    moreover have "length xs - 1 - i < LENGTH('a)" "length xs - 1 - i < length xs"
      using i assms by linarith+
    ultimately show "\<not> b" using i unfolding bit_bits_word by simp
  qed
next
  assume "\<forall>b \<in> set xs. \<not> b"
  then have "\<not> xs ! i" if "i < length xs" for i using that by (meson nth_mem)
  then show "(bits_word xs :: 'a word) = 0" by (intro bit_word_eqI) (simp add: bit_bits_word)
qed

lemma takeWhile_take: "takeWhile P (take n xs) = take n (takeWhile P xs)"
  by (induction xs arbitrary: n) (auto simp: take_Cons split: nat.splits)

lemma next_byte_boundary: "(n::nat) + (8 - n mod 8) = 8 * (n div 8 + 1)"
proof -
  define q k where "q = n div 8" and "k = n mod 8"
  have "n = 8 * q + k" "k < 8" by (simp_all add: q_def k_def)
  then have "n + (8 - k) = 8 * (q + 1)" by simp
  then show ?thesis by (simp only: q_def k_def)
qed

lemma take_bit_word_unat: "unat (w :: 'a::len word) < 2 ^ n \<Longrightarrow> take_bit n w = w"
  by (simp add: word_unat_eq_iff unsigned_take_bit_eq take_bit_nat_eq_self)

lemma unat_ucast_up: "LENGTH('a) \<le> LENGTH('b) \<Longrightarrow> unat (ucast (w :: 'a::len word) :: 'b::len word) = unat w"
  by (metis order_less_le_trans power_increasing_iff one_less_numeral_iff semiring_norm(76)
      take_bit_nat_eq_self unsigned_less unsigned_ucast_eq)

lemma ucast_ucast_up: "LENGTH('a) \<le> LENGTH('b) \<Longrightarrow> (ucast (ucast (w :: 'a::len word) :: 'b::len word) :: 'a word) = w"
  by (rule bit_word_eqI) (auto simp: bit_simps)

lemma pad_decreases:
  assumes "(n::nat) mod 8 \<noteq> 0"
  shows "(8 - (n + 1) mod 8) mod 8 < (8 - n mod 8) mod 8"
proof -
  have "n mod 8 < 8" by simp
  with assms show ?thesis by (cases "n mod 8 = 7") (simp_all add: mod_Suc)
qed

lemma stream_bits_update:
  "i < length bs \<Longrightarrow>
     stream_bits (bs[i := b]) = take (8 * i) (stream_bits bs) @ byte_bits b @ drop (8 * i + 8) (stream_bits bs)"
  by (simp add: upd_conv_take_nth_drop stream_bits_take stream_bits_drop add.commute)

lemma word_bits_split:
  "t \<le> n \<Longrightarrow> word_bits n v = word_bits t (drop_bit (n - t) v) @ word_bits (n - t) v"
  by (rule nth_equalityI) (auto simp: word_bits_def nth_append bit_drop_bit_eq)

lemma length_le_concat: "x \<in> set xs \<Longrightarrow> length x \<le> length (concat xs)"
  by (induction xs) auto

lemma ucast_add_down:
  "LENGTH('b) \<le> LENGTH('a) \<Longrightarrow> (ucast (a + b :: 'a::len word) :: 'b::len word) = ucast a + ucast b"
proof (transfer, goal_cases)
  case (1 a b)
  then have d: "(2 :: int) ^ LENGTH('b) dvd 2 ^ LENGTH('a)" by (rule le_imp_power_dvd)
  have "(a mod 2 ^ LENGTH('a) + b mod 2 ^ LENGTH('a)) mod 2 ^ LENGTH('b) = (a + b) mod 2 ^ LENGTH('b)"
    using mod_add_eq [of "a mod 2 ^ LENGTH('a)" "2 ^ LENGTH('b)" "b mod 2 ^ LENGTH('a)"]
    by (simp only: mod_mod_cancel [OF d] mod_add_eq)
  then show ?case by (simp only: take_bit_eq_mod mod_mod_cancel [OF d])
qed

lemma unat_pred: "1 \<le> (x :: 'a::len word) \<Longrightarrow> unat (x - 1) = unat x - 1"
  by (simp add: unat_sub)

lemma unat_pow2_u32: "n < 32 \<Longrightarrow> unat (2 ^ n :: u32) = 2 ^ n"
proof -
  assume "n < 32"
  then have "(2 :: nat) ^ n < 2 ^ 32" by (rule power_strict_increasing) simp
  then show ?thesis using unat_of_nat [of "2 ^ n", where 'a = 32] by (simp add: take_bit_nat_eq_self)
qed

lemma word_one_le_iff: "1 \<le> (x :: 'a::len word) \<longleftrightarrow> x \<noteq> 0"
  by (auto simp: word_le_nat_alt unat_gt_0 Suc_le_eq)

lemma foldl_invariant:
  assumes "\<And>s x. x \<in> set xs \<Longrightarrow> P s \<Longrightarrow> P (f s x)" "P s"
  shows "P (foldl f s xs)"
  using assms by (induction xs arbitrary: s) auto

section \<open>Multi-byte fields\<close>

text \<open>\<open>binary.LittleEndian.PutUint16\<close>, \<open>PutUint32\<close> and \<open>PutUint64\<close>: the bytes they store.\<close>

definition le_bytes :: "nat \<Rightarrow> 'a::len word \<Rightarrow> bytes" where
  "le_bytes n v = map (\<lambda>i. ucast (drop_bit (8 * i) v)) [0..<n]"

lemma length_le_bytes [simp]: "length (le_bytes n v) = n"
  by (simp add: le_bytes_def)

lemma nth_le_bytes [simp]: "i < n \<Longrightarrow> le_bytes n v ! i = ucast (drop_bit (8 * i) v)"
  by (simp add: le_bytes_def)

text \<open>A big-endian field of two bytes, read as \<open>uint16(b[i])<<8 | uint16(b[i+1])\<close>.\<close>

definition be16_at :: "bytes \<Rightarrow> nat \<Rightarrow> u16" where
  "be16_at src i = push_bit 8 (ucast (src ! i)) OR ucast (src ! (i + 1))"

definition be16_bytes :: "u16 \<Rightarrow> bytes" where
  "be16_bytes v = [ucast (drop_bit 8 v), ucast v]"

lemma be16_at_bytes: "take 2 (drop i src) = be16_bytes v \<Longrightarrow> be16_at src i = v"
proof -
  assume t: "take 2 (drop i src) = be16_bytes v"
  then have "length (take 2 (drop i src)) = 2" by (simp add: be16_bytes_def)
  then have l: "i + 1 < length src" by simp
  have "src ! i = ucast (drop_bit 8 v)" "src ! (i + 1) = ucast v"
    using arg_cong [OF t, of "\<lambda>xs. xs ! 0"] arg_cong [OF t, of "\<lambda>xs. xs ! 1"] l by (auto simp: be16_bytes_def)
  then show ?thesis by (auto simp: be16_at_def bit_simps intro!: bit_word_eqI)
qed

lemma be16_bytes_at: "i + 1 < length src \<Longrightarrow> be16_bytes (be16_at src i) = take 2 (drop i src)"
proof -
  assume l: "i + 1 < length src"
  have nb: "\<not> bit (x :: u8) (8 + n)" for x n using bit_imp_le_length [of x "8 + n"] by auto
  have "ucast (drop_bit 8 (be16_at src i)) = src ! i" "ucast (be16_at src i) = src ! (i + 1)"
    by (auto simp: be16_at_def bit_simps nb intro!: bit_word_eqI)
  moreover have "drop i src = src ! i # src ! (i + 1) # drop (i + 2) src" using l by (metis Cons_nth_drop_Suc Suc_eq_plus1 add_2_eq_Suc' add_lessD1)
  ultimately show ?thesis by (simp add: be16_bytes_def)
qed

end
