(* ===== verification/Leb128.thy ===== *)
theory Leb128
  imports Prelude
begin

text \<open>
  \<open>internal/av1/bitstream/leb128.go\<close>: the little-endian base-128 integers that carry OBU,
  Annex B and RTP element sizes. Values are \<open>uint32\<close>, the accumulator of the reader is
  \<open>uint64\<close>, an encoding has at most eight bytes. A function that fills a caller's slice returns
  the slice as it leaves it.
\<close>

definition MaxLEB128Bytes :: nat where
  "MaxLEB128Bytes = 8"

definition MaxLEB128Value :: u64 where
  "MaxLEB128Value = push_bit 32 1 - 1"

function ReadLEB128_loop :: "bytes \<Rightarrow> nat \<Rightarrow> u64 \<Rightarrow> go_err + u32 \<times> nat" where
  "ReadLEB128_loop src i v =
     (if i \<ge> MaxLEB128Bytes then Inl ErrLEB128Overflow
      else if i \<ge> length src then Inl ErrShortLEB128
      else let b = src ! i;
               v = v OR push_bit (i * 7) (ucast (b AND 0x7f))
           in if b AND 0x80 = 0
              then if v > MaxLEB128Value then Inl ErrLEB128Overflow else Inr (ucast v, i + 1)
              else ReadLEB128_loop src (i + 1) v)"
  by pat_completeness auto
termination
  by (relation "measure (\<lambda>(src, i, v). MaxLEB128Bytes - i)") auto

declare ReadLEB128_loop.simps [simp del]

definition ReadLEB128 :: "bytes \<Rightarrow> go_err + u32 \<times> nat" where
  "ReadLEB128 src = ReadLEB128_loop src 0 0"

lemma unat_drop_bit_7: "unat (drop_bit 7 (v::u32)) = unat v div 128"
  by (subst unat_drop_bit_eq) (simp add: drop_bit_eq_div)

lemma drop_bit_7_less: "(0x80::u32) \<le> v \<Longrightarrow> unat (drop_bit 7 v) < unat v"
  by (simp only: word_le_nat_alt unat_drop_bit_7) simp

function LEB128Len_loop :: "u32 \<Rightarrow> nat \<Rightarrow> nat" where
  "LEB128Len_loop value n = (if value \<ge> 0x80 then LEB128Len_loop (drop_bit 7 value) (n + 1) else n)"
  by pat_completeness auto
termination
  by (relation "measure (\<lambda>(v, n). unat v)") (auto simp: drop_bit_7_less)

declare LEB128Len_loop.simps [simp del]

definition LEB128Len :: "u32 \<Rightarrow> nat" where
  "LEB128Len value = LEB128Len_loop value 1"

function AppendLEB128 :: "bytes \<Rightarrow> u32 \<Rightarrow> bytes" where
  "AppendLEB128 dst value =
     (if value \<ge> 0x80 then AppendLEB128 (dst @ [ucast value OR 0x80]) (drop_bit 7 value)
      else dst @ [ucast value])"
  by pat_completeness auto
termination
  by (relation "measure (\<lambda>(dst, v). unat v)") (auto simp: drop_bit_7_less)

declare AppendLEB128.simps [simp del]

function PutLEB128_loop :: "bytes \<Rightarrow> nat \<Rightarrow> u32 \<Rightarrow> bytes" where
  "PutLEB128_loop dst i value =
     (if value \<ge> 0x80 then PutLEB128_loop (dst[i := ucast value OR 0x80]) (i + 1) (drop_bit 7 value)
      else dst[i := ucast value])"
  by pat_completeness auto
termination
  by (relation "measure (\<lambda>(dst, i, v). unat v)") (auto simp: drop_bit_7_less)

declare PutLEB128_loop.simps [simp del]

definition PutLEB128 :: "bytes \<Rightarrow> u32 \<Rightarrow> (go_err + nat) \<times> bytes" where
  "PutLEB128 dst value =
     (let need = LEB128Len value
      in if length dst < need then (Inl ErrShortBuffer, dst)
         else (Inr need, PutLEB128_loop dst 0 value))"

section \<open>The encoding of a value\<close>

abbreviation leb128 :: "u32 \<Rightarrow> bytes" where
  "leb128 v \<equiv> AppendLEB128 [] v"

lemma AppendLEB128_append: "AppendLEB128 dst v = dst @ leb128 v"
proof (induction v arbitrary: dst rule: measure_induct_rule [of unat])
  case (less v)
  show ?case
  proof (cases "v \<ge> 0x80")
    case True
    then show ?thesis
      using less [OF drop_bit_7_less [OF True], of "dst @ [ucast v OR 0x80]"]
        less [OF drop_bit_7_less [OF True], of "[ucast v OR 0x80]"]
      by (simp add: AppendLEB128.simps [of _ v])
  next
    case False
    then show ?thesis by (simp add: AppendLEB128.simps [of _ v])
  qed
qed

lemma leb128_rec:
  "leb128 v = (if v \<ge> 0x80 then (ucast v OR 0x80) # leb128 (drop_bit 7 v) else [ucast v])"
  by (subst AppendLEB128.simps) (simp add: AppendLEB128_append [of "[_]"])

lemma leb128_induct [case_names big small]:
  assumes "\<And>v. 0x80 \<le> v \<Longrightarrow> P (drop_bit 7 v) \<Longrightarrow> P v" and "\<And>v. \<not> 0x80 \<le> v \<Longrightarrow> P v"
  shows "P (v :: u32)"
  by (induction v rule: measure_induct_rule [of unat]) (metis assms drop_bit_7_less)

lemma LEB128Len_length: "LEB128Len v = length (leb128 v)"
proof -
  have "LEB128Len_loop v n + 1 = n + length (leb128 v)" for n
    by (induction v arbitrary: n rule: leb128_induct)
      (simp_all add: LEB128Len_loop.simps leb128_rec)
  from this [of 1] show ?thesis by (simp add: LEB128Len_def)
qed

lemma length_leb128_pos: "0 < length (leb128 v)"
  by (simp add: leb128_rec)

lemma length_leb128_bound: "unat v < 2 ^ (7 * n) \<Longrightarrow> 0 < n \<Longrightarrow> length (leb128 v) \<le> n"
proof (induction v arbitrary: n rule: leb128_induct)
  case (big v)
  then have "n \<noteq> 1" by (auto simp: word_le_nat_alt)
  then obtain m where m: "n = Suc m" "0 < m" using big.prems by (cases n) auto
  have "unat v < 2 ^ (7 * m) * 2 ^ 7" using big.prems(1) m by (simp add: power_add mult.commute)
  then have "unat (drop_bit 7 v) < 2 ^ (7 * m)"
    by (simp only: unat_drop_bit_7) (simp add: less_mult_imp_div_less)
  then show ?case using big m by (simp add: leb128_rec)
next
  case (small v)
  then show ?case by (simp add: leb128_rec)
qed

lemma length_leb128_le_5: "length (leb128 v) \<le> 5"
  using unsigned_less [of v, where 'a = nat] by (intro length_leb128_bound) simp_all

lemma leb128_low_high:
  "push_bit k (ucast (take_bit 7 (ucast v :: u8)) :: u64) OR push_bit (k + 7) (ucast (drop_bit 7 v)) =
     push_bit k (ucast (v :: u32))"
proof (rule bit_word_eqI)
  fix n
  have "7 + (n - (k + 7)) = n - k" if "\<not> n - k < 7" using that by simp
  then show "bit (push_bit k (ucast (take_bit 7 (ucast v :: u8)) :: u64) OR push_bit (k + 7) (ucast (drop_bit 7 v))) n =
      bit (push_bit k (ucast v :: u64)) n"
    by (cases "n - k < 7") (auto simp: bit_simps)
qed

lemma and_0x7f: "(w :: u8) AND 0x7f = take_bit 7 w"
  by (simp add: take_bit_eq_mask mask_eq_exp_minus_1)

lemma and_0x80: "(w :: u8) AND 0x80 = 0 \<longleftrightarrow> \<not> bit w 7"
  using and_exp_eq_0_iff_not_bit [of w 7] by simp

lemma continuation_byte:
  "(ucast (v :: u32) OR 0x80 :: u8) AND 0x7f = take_bit 7 (ucast v)"
  "(ucast (v :: u32) OR 0x80 :: u8) AND 0x80 \<noteq> 0"
proof -
  have b: "(0x80 :: u8) = push_bit 7 1" by simp
  show "(ucast v OR 0x80 :: u8) AND 0x7f = take_bit 7 (ucast v)"
    unfolding and_0x7f b by (rule bit_word_eqI) (auto simp: bit_simps)
  show "(ucast v OR 0x80 :: u8) AND 0x80 \<noteq> 0"
    unfolding and_0x80 b by (simp add: bit_or_iff bit_push_bit_iff)
qed

lemma final_byte:
  "\<not> 0x80 \<le> (v :: u32) \<Longrightarrow> (ucast v :: u8) AND 0x80 = 0"
  "\<not> 0x80 \<le> (v :: u32) \<Longrightarrow> drop_bit 7 v = 0"
proof -
  assume "\<not> 0x80 \<le> v"
  then have t: "take_bit 7 v = v" by (intro take_bit_word_unat) (simp add: word_le_nat_alt)
  show "(ucast v :: u8) AND 0x80 = 0"
    unfolding and_0x80 by (subst t [symmetric]) (simp add: bit_simps)
  show "drop_bit 7 v = 0"
    by (subst t [symmetric], rule bit_word_eqI) (simp add: bit_simps)
qed

section \<open>Decoding what was encoded\<close>

lemma ReadLEB128_loop_leb128:
  assumes "drop i src = leb128 w @ rest" and "i + length (leb128 w) \<le> 8"
    and "acc OR push_bit (i * 7) (ucast w) \<le> MaxLEB128Value"
  shows "ReadLEB128_loop src i acc =
    Inr (ucast (acc OR push_bit (i * 7) (ucast w)), i + length (leb128 w))"
  using assms
proof (induction w arbitrary: i acc rule: leb128_induct)
  case (big w)
  have src: "drop i src = (ucast w OR 0x80) # leb128 (drop_bit 7 w) @ rest"
    using big by (simp add: leb128_rec [of w])
  then have i: "i < length src" "src ! i = ucast w OR 0x80" "drop (i + 1) src = leb128 (drop_bit 7 w) @ rest"
    by (metis drop_all list.distinct(1) not_le, metis nth_via_drop, simp add: drop_Suc flip: tl_drop)
  let ?acc = "acc OR push_bit (i * 7) (ucast (take_bit 7 (ucast w :: u8)))"
  have acc: "?acc OR push_bit ((i + 1) * 7) (ucast (drop_bit 7 w)) = acc OR push_bit (i * 7) (ucast w)"
    using leb128_low_high [of "i * 7" w] by (simp add: algebra_simps or.assoc)
  have len: "length (leb128 w) = Suc (length (leb128 (drop_bit 7 w)))"
    using big by (simp add: leb128_rec [of w])
  have "ReadLEB128_loop src i acc = ReadLEB128_loop src (i + 1) ?acc"
    using i big.prems(2) len
    by (subst ReadLEB128_loop.simps) (simp only: continuation_byte Let_def MaxLEB128Bytes_def, simp)
  also have "\<dots> = Inr (ucast (?acc OR push_bit ((i + 1) * 7) (ucast (drop_bit 7 w))), i + 1 + length (leb128 (drop_bit 7 w)))"
    using big.prems len by (intro big.IH i(3)) (simp_all only: acc)
  finally show ?case by (simp only: acc len) simp
next
  case (small w)
  have enc: "leb128 w = [ucast w]" using small.hyps by (simp add: leb128_rec [of w])
  have src: "drop i src = ucast w # rest" using small by (simp add: enc)
  then have i: "i < length src" "src ! i = ucast w"
    by (metis drop_all list.distinct(1) not_le, metis nth_via_drop)
  have b: "(ucast w :: u8) AND 0x80 = 0" using final_byte(1) [OF small.hyps] .
  have "push_bit (i * 7) (ucast (take_bit 7 (ucast w :: u8)) :: u64) = push_bit (i * 7) (ucast w)"
    using leb128_low_high [of "i * 7" w] final_byte(2) [OF small.hyps] by simp
  then show ?case
    using i b enc small.prems by (subst ReadLEB128_loop.simps)
      (simp add: Let_def MaxLEB128Bytes_def and_0x7f)
qed

lemma ucast_le_MaxLEB128Value: "(ucast (v :: u32) :: u64) \<le> MaxLEB128Value"
  using unsigned_less [of v, where 'a = nat]
  by (simp add: MaxLEB128Value_def word_le_nat_alt unat_ucast_up)

lemma ReadLEB128_leb128: "ReadLEB128 (leb128 v @ rest) = Inr (v, length (leb128 v))"
  using ReadLEB128_loop_leb128 [of 0 "leb128 v @ rest" v rest 0] length_leb128_le_5 [of v]
    ucast_le_MaxLEB128Value [of v]
  by (simp add: ReadLEB128_def ucast_ucast_up)

lemma PutLEB128_loop_leb128:
  "i + length (leb128 v) \<le> length dst \<Longrightarrow>
     PutLEB128_loop dst i v = take i dst @ leb128 v @ drop (i + length (leb128 v)) dst"
proof (induction v arbitrary: dst i rule: leb128_induct)
  case (big v)
  then have "PutLEB128_loop dst i v = PutLEB128_loop (dst[i := ucast v OR 0x80]) (i + 1) (drop_bit 7 v)"
    by (subst PutLEB128_loop.simps) simp
  also have "\<dots> = take (i + 1) (dst[i := ucast v OR 0x80]) @ leb128 (drop_bit 7 v) @
      drop (i + 1 + length (leb128 (drop_bit 7 v))) (dst[i := ucast v OR 0x80])"
    using big by (intro big.IH) (simp add: leb128_rec [of v])
  finally show ?case using big by (simp add: leb128_rec [of v] take_Suc_conv_app_nth)
next
  case (small v)
  then show ?case
    by (subst PutLEB128_loop.simps) (simp add: leb128_rec [of v] upd_conv_take_nth_drop)
qed

lemma PutLEB128_eq:
  "PutLEB128 dst v =
     (if length dst < length (leb128 v) then (Inl ErrShortBuffer, dst)
      else (Inr (length (leb128 v)), leb128 v @ drop (length (leb128 v)) dst))"
  by (simp add: PutLEB128_def LEB128Len_length PutLEB128_loop_leb128 Let_def)

section \<open>What the decoder accepts\<close>

text \<open>The number a run of leb128 bytes stands for.\<close>

fun leb128_value :: "bytes \<Rightarrow> nat" where
  "leb128_value [] = 0"
| "leb128_value (b # bs) = unat (take_bit 7 b) + 128 * leb128_value bs"

text \<open>A well-formed run: every byte but the last has its continuation bit set.\<close>

fun leb128_run :: "bytes \<Rightarrow> bool" where
  "leb128_run [] = False"
| "leb128_run [b] = (\<not> bit b 7)"
| "leb128_run (b # bs) = (bit b 7 \<and> leb128_run bs)"

lemma unat_or_shifted:
  assumes "unat (a :: u64) < 2 ^ k" and "k + 7 \<le> 64"
  shows "unat (a OR push_bit k (ucast (take_bit 7 (b :: u8)))) = unat a + unat (take_bit 7 b) * 2 ^ k"
    and "unat a + unat (take_bit 7 b) * 2 ^ k < 2 ^ (k + 7)"
proof -
  let ?x = "unat (take_bit 7 b)" and ?c = "push_bit k (ucast (take_bit 7 b)) :: u64"
  have b7: "?x < 2 ^ 7" by (metis take_bit_nat_less_exp unsigned_take_bit_eq)
  have "unat a + ?x * 2 ^ k < (?x + 1) * 2 ^ k" using assms(1) by (simp add: add_mult_distrib)
  also have "\<dots> \<le> 2 ^ 7 * 2 ^ k" using b7 by (intro mult_le_mono1) simp
  also have "\<dots> = 2 ^ (k + 7)" by (simp add: power_add mult.commute)
  finally show bound: "unat a + ?x * 2 ^ k < 2 ^ (k + 7)" .
  also have "\<dots> \<le> (2 ^ 64 :: nat)" using assms(2) by (intro power_increasing) simp_all
  finally have bound64: "unat a + ?x * 2 ^ k < 2 ^ 64" .
  have "unat ?c = take_bit 64 (push_bit k ?x)" by (simp add: unsigned_push_bit_eq unat_ucast_up)
  then have c: "unat ?c = ?x * 2 ^ k" using bound64 by (simp add: push_bit_eq_mult take_bit_nat_eq_self)
  have a: "take_bit k a = a" using assms by (simp add: take_bit_word_unat)
  have "a OR ?c = a + ?c"
    by (rule disjunctive_add [symmetric]) (subst a [symmetric], auto simp: bit_simps)
  then show "unat (a OR ?c) = unat a + ?x * 2 ^ k" using c bound64 by (simp add: unat_plus_if')
qed

lemma ReadLEB128_loop_ok:
  assumes "ReadLEB128_loop src i acc = Inr (v, n)" and "unat acc < 2 ^ (7 * i)"
  shows "i < n \<and> n \<le> 8 \<and> n \<le> length src \<and> leb128_run (take (n - i) (drop i src)) \<and>
    unat v = unat acc + 2 ^ (7 * i) * leb128_value (take (n - i) (drop i src))"
  using assms
proof (induction src i acc rule: ReadLEB128_loop.induct)
  case (1 src i acc)
  let ?b = "src ! i" and ?acc = "acc OR push_bit (i * 7) (ucast (src ! i AND 0x7f))"
  have i: "i < 8" "i < length src"
    using "1.prems"(1) by (auto simp: ReadLEB128_loop.simps [of src i acc] MaxLEB128Bytes_def split: if_splits)
  then have d: "drop i src = ?b # drop (i + 1) src" by (simp add: Cons_nth_drop_Suc)
  have acc: "unat ?acc = unat acc + unat (take_bit 7 ?b) * 2 ^ (7 * i)" "unat ?acc < 2 ^ (7 * (i + 1))"
    using unat_or_shifted [of acc "i * 7" ?b] "1.prems"(2) i by (simp_all add: and_0x7f mult.commute add.commute)
  show ?case
  proof (cases "bit ?b 7")
    case False
    then have "v = ucast ?acc" "n = i + 1" "?acc \<le> MaxLEB128Value"
      using "1.prems"(1) i
      by (auto simp: ReadLEB128_loop.simps [of src i acc] MaxLEB128Bytes_def Let_def and_0x80 not_less split: if_splits)
    moreover have "unat (ucast ?acc :: u32) = unat ?acc"
      using \<open>?acc \<le> MaxLEB128Value\<close>
      by (simp add: unsigned_ucast_eq take_bit_nat_eq_self_iff word_le_nat_alt MaxLEB128Value_def)
    ultimately show ?thesis using d False i acc by (simp add: mult.commute)
  next
    case True
    then have rec: "ReadLEB128_loop src (i + 1) ?acc = Inr (v, n)"
      using "1.prems"(1) i
      by (simp add: ReadLEB128_loop.simps [of src i acc] MaxLEB128Bytes_def Let_def and_0x80)
    have IH: "i + 1 < n \<and> n \<le> 8 \<and> n \<le> length src \<and> leb128_run (take (n - (i + 1)) (drop (i + 1) src)) \<and>
      unat v = unat ?acc + 2 ^ (7 * (i + 1)) * leb128_value (take (n - (i + 1)) (drop (i + 1) src))"
      using i True rec acc(2) by (intro "1.IH") (auto simp: MaxLEB128Bytes_def and_0x80)
    obtain m where m: "n - i = Suc m" "m = n - (i + 1)" "0 < m" using IH by (cases "n - i") auto
    have "leb128_run (?b # take m (drop (i + 1) src))"
      using IH True m by (cases "take m (drop (i + 1) src)") auto
    then show ?thesis using IH acc d m by (simp add: algebra_simps power_add)
  qed
qed

lemma ReadLEB128_loop_progress: "ReadLEB128_loop src i acc = Inr (v, n) \<Longrightarrow> i < n"
proof (induction src i acc rule: ReadLEB128_loop.induct)
  case (1 src i acc)
  then show ?case
    by (subst (asm) (2) ReadLEB128_loop.simps) (fastforce simp: Let_def split: if_splits)
qed

lemma ReadLEB128_loop_prefix:
  "ReadLEB128_loop src i acc = Inr (v, n) \<Longrightarrow> ReadLEB128_loop (take n src) i acc = Inr (v, n)"
proof (induction src i acc rule: ReadLEB128_loop.induct)
  case (1 src i acc)
  have "i < n" using 1(2) by (rule ReadLEB128_loop_progress)
  then show ?case
    using 1 by (subst ReadLEB128_loop.simps, subst (asm) (2) ReadLEB128_loop.simps)
      (auto simp: Let_def min_def split: if_splits)
qed

lemma ReadLEB128_prefix: "ReadLEB128 src = Inr (v, n) \<Longrightarrow> ReadLEB128 (take n src) = Inr (v, n)"
  by (simp add: ReadLEB128_def ReadLEB128_loop_prefix)

lemma ReadLEB128_loop_append:
  "ReadLEB128_loop src i acc = Inr (v, n) \<Longrightarrow> ReadLEB128_loop (src @ rest) i acc = Inr (v, n)"
proof (induction src i acc rule: ReadLEB128_loop.induct)
  case (1 src i acc)
  then show ?case
    by (subst ReadLEB128_loop.simps, subst (asm) (2) ReadLEB128_loop.simps)
      (auto simp: Let_def nth_append split: if_splits)
qed

lemma ReadLEB128_append: "ReadLEB128 src = Inr (v, n) \<Longrightarrow> ReadLEB128 (src @ rest) = Inr (v, n)"
  by (simp add: ReadLEB128_def ReadLEB128_loop_append)

section \<open>Properties\<close>

text \<open>
  Every \<open>uint32\<close> that \<open>PutLEB128\<close> writes is read back by \<open>ReadLEB128\<close> with the same number of
  bytes, \<open>LEB128Len\<close> is that number, at most five, and the rest of the slice is untouched.
\<close>

theorem PutLEB128_ReadLEB128:
  assumes "LEB128Len v \<le> length dst"
  shows "\<exists>out. PutLEB128 dst v = (Inr (LEB128Len v), out) \<and> length out = length dst \<and> LEB128Len v \<le> 5 \<and>
    drop (LEB128Len v) out = drop (LEB128Len v) dst \<and> ReadLEB128 out = Inr (v, LEB128Len v)"
  using assms length_leb128_le_5 [of v] ReadLEB128_leb128 [of v] by (simp add: PutLEB128_eq LEB128Len_length)

theorem PutLEB128_ReadLEB128_witness:
  "\<exists>out. PutLEB128 [9, 9, 9] 300 = (Inr 2, out) \<and> ReadLEB128 out = Inr (300, 2)"
proof -
  have n: "LEB128Len 300 = 2" by code_simp
  show ?thesis using PutLEB128_ReadLEB128 [of 300 "[9, 9, 9]", unfolded n] by auto
qed

text \<open>
  Whatever \<open>ReadLEB128\<close> accepts is a run of at most eight bytes inside the source that ends at
  the first byte without a continuation bit, and the value is the base-128 number of the run
  with nothing lost in the 64-bit accumulator, although the encoding may carry padding.
\<close>

theorem ReadLEB128_sound:
  assumes "ReadLEB128 src = Inr (v, n)"
  shows "0 < n \<and> n \<le> 8 \<and> n \<le> length src \<and> leb128_run (take n src) \<and> unat v = leb128_value (take n src)"
  using ReadLEB128_loop_ok [of src 0 0 v n] assms by (simp add: ReadLEB128_def)

theorem ReadLEB128_sound_witness: "leb128_run [0xac, 0x82, 0x00] \<and> (300 :: nat) = leb128_value [0xac, 0x82, 0x00]"
proof -
  have "ReadLEB128 [0xac, 0x82, 0x00, 7] = Inr (300, 3)" by code_simp
  from ReadLEB128_sound [OF this] show ?thesis by simp
qed

end
