(* ===== verification/Stream_Iterator.thy ===== *)
theory Stream_Iterator
  imports Prelude
begin

text \<open>
  The contract of the package iterators (\<open>LowOverheadIterator\<close>, \<open>TemporalUnitIterator\<close>, the
  Annex B iterators and the IVF reader): \<open>Next\<close> returns an error, the end of the stream
  (\<open>ok == false\<close>), or an item and an iterator with less input left. \<open>drain\<close> is the loop every
  client writes around \<open>Next\<close>; fuel bounds its rounds, and the locale shows that one round more
  than there are bytes left is always enough.
\<close>

fun drain :: "('it \<Rightarrow> (go_err + 'u option) \<times> 'it) \<Rightarrow> nat \<Rightarrow> 'it \<Rightarrow> ('u list \<times> go_err option) option" where
  "drain nxt 0 it = None"
| "drain nxt (Suc fuel) it =
     (case nxt it of
        (Inl e, it') \<Rightarrow> Some ([], Some e)
      | (Inr None, it') \<Rightarrow> Some ([], None)
      | (Inr (Some u), it') \<Rightarrow>
          (case drain nxt fuel it' of None \<Rightarrow> None | Some (us, e) \<Rightarrow> Some (u # us, e)))"

lemma drain_items:
  assumes "\<And>it u it'. nxt it = (Inr (Some u), it') \<Longrightarrow> Q u" and "drain nxt fuel it = Some (us, e)"
  shows "\<forall>u \<in> set us. Q u"
  using assms(2)
proof (induction fuel arbitrary: it us)
  case (Suc fuel)
  then show ?case using assms(1)
    by (fastforce split: prod.splits sum.splits option.splits)
qed simp

locale stream_iterator =
  fixes nxt :: "'it \<Rightarrow> (go_err + 'u option) \<times> 'it"
    and left :: "'it \<Rightarrow> bytes" and ok :: "'it \<Rightarrow> bool"
  assumes item: "ok it \<Longrightarrow> nxt it = (Inr (Some u), it') \<Longrightarrow> ok it' \<and> length (left it') < length (left it)"
    and finished: "ok it \<Longrightarrow> nxt it = (Inr None, it') \<Longrightarrow> left it = []"
begin

lemma drain_returns: "ok it \<Longrightarrow> length (left it) < fuel \<Longrightarrow> \<exists>us e. drain nxt fuel it = Some (us, e)"
proof (induction fuel arbitrary: it)
  case (Suc fuel)
  obtain x it' where n: "nxt it = (x, it')" by (cases "nxt it")
  show ?case
  proof (cases x)
    case (Inr r)
    show ?thesis
    proof (cases r)
      case (Some u)
      with item [OF Suc.prems(1)] n Inr have "ok it'" "length (left it') < fuel" using Suc.prems(2) by fastforce+
      from Suc.IH [OF this] show ?thesis by (auto simp: n Inr Some)
    qed (simp add: n Inr)
  qed (simp add: n)
qed simp

lemma drain_length: "ok it \<Longrightarrow> drain nxt fuel it = Some (us, e) \<Longrightarrow> length us \<le> length (left it)"
proof (induction fuel arbitrary: it us)
  case (Suc fuel)
  then show ?case
    by (fastforce split: prod.splits sum.splits option.splits dest: item)
qed simp

end

text \<open>An iterator whose items are the consecutive pieces of its input.\<close>

locale contiguous_iterator = stream_iterator nxt left ok
  for nxt :: "'it \<Rightarrow> (go_err + 'u option) \<times> 'it" and left :: "'it \<Rightarrow> bytes" and ok :: "'it \<Rightarrow> bool" +
  fixes raw :: "'u \<Rightarrow> bytes" and piece :: "bytes \<Rightarrow> bool" and starts :: "bytes \<Rightarrow> bool"
  assumes contiguous: "ok it \<Longrightarrow> nxt it = (Inr (Some u), it') \<Longrightarrow> left it = raw u @ left it'"
    and ends: "ok it \<Longrightarrow> left it = [] \<Longrightarrow> nxt it = (Inr None, it)"
    and complete: "ok it \<Longrightarrow> left it = b @ rest \<Longrightarrow> piece b \<Longrightarrow> starts rest \<Longrightarrow>
      \<exists>u it'. nxt it = (Inr (Some u), it') \<and> raw u = b"
    and starts_pieces: "\<forall>b \<in> set bs. piece b \<Longrightarrow> starts (concat bs)"
begin

text \<open>When the loop ends without an error, nothing of the input is lost, repeated or reordered.\<close>

lemma drain_concat: "ok it \<Longrightarrow> drain nxt fuel it = Some (us, None) \<Longrightarrow> left it = concat (map raw us)"
proof (induction fuel arbitrary: it us)
  case (Suc fuel)
  obtain x it' where n: "nxt it = (x, it')" by (cases "nxt it")
  with Suc.prems obtain r where x: "x = Inr r" by (cases x) auto
  show ?case
  proof (cases r)
    case None
    then show ?thesis using Suc.prems n x finished [OF Suc.prems(1)] by auto
  next
    case (Some u)
    with Suc.prems n x obtain us' where "drain nxt fuel it' = Some (us', None)" "us = u # us'"
      by (auto split: option.splits)
    then show ?thesis
      using Suc.IH [of it' us'] item [OF Suc.prems(1)] contiguous [OF Suc.prems(1)] n x Some by auto
  qed
qed simp

text \<open>A stream made of well-formed pieces is returned piece by piece.\<close>

lemma drain_complete:
  "ok it \<Longrightarrow> left it = concat bs \<Longrightarrow> \<forall>b \<in> set bs. piece b \<Longrightarrow> length (left it) < fuel \<Longrightarrow>
     \<exists>us. drain nxt fuel it = Some (us, None) \<and> map raw us = bs"
proof (induction bs arbitrary: it fuel)
  case Nil
  then show ?case using ends [of it] by (cases fuel) auto
next
  case (Cons b bs)
  from Cons.prems(4) obtain k where fuel: "fuel = Suc k" by (cases fuel) auto
  from Cons.prems starts_pieces [of bs] obtain u it' where n: "nxt it = (Inr (Some u), it')" "raw u = b"
    using complete [OF Cons.prems(1), of b "concat bs"] by auto
  with item [OF Cons.prems(1)] contiguous [OF Cons.prems(1)] Cons.prems
  have "ok it'" "left it' = concat bs" "length (left it') < k" unfolding fuel by fastforce+
  from Cons.IH [OF this(1,2) _ this(3)] Cons.prems n show ?case by (auto simp: fuel)
qed

end

end
