(* ===== verification/Obu.thy ===== *)
theory Obu
  imports Leb128 Stream_Iterator
begin

text \<open>
  \<open>internal/av1/obu\<close>: OBU headers, units, the low-overhead iterator, the temporal-unit iterator
  and the normalisation of an RTP OBU element. Slices of the caller's input are modelled by
  their contents; \<open>int\<close> is a natural number, since every length and offset here is one.
\<close>

section \<open>Types\<close>

definition TypeReserved :: u8 where "TypeReserved = 0"
definition TypeSequenceHeader :: u8 where "TypeSequenceHeader = 1"
definition TypeTemporalDelimiter :: u8 where "TypeTemporalDelimiter = 2"
definition TypeFrameHeader :: u8 where "TypeFrameHeader = 3"
definition TypeTileGroup :: u8 where "TypeTileGroup = 4"
definition TypeMetadata :: u8 where "TypeMetadata = 5"
definition TypeFrame :: u8 where "TypeFrame = 6"
definition TypeRedundantFrameHeader :: u8 where "TypeRedundantFrameHeader = 7"
definition TypeTileList :: u8 where "TypeTileList = 8"
definition TypePadding :: u8 where "TypePadding = 15"

lemmas obu_type_defs =
  TypeReserved_def TypeSequenceHeader_def TypeTemporalDelimiter_def TypeFrameHeader_def
  TypeTileGroup_def TypeMetadata_def TypeFrame_def TypeRedundantFrameHeader_def
  TypeTileList_def TypePadding_def

definition Type_String :: "u8 \<Rightarrow> string" where
  "Type_String t =
     (if t = TypeSequenceHeader then ''OBU_SEQUENCE_HEADER''
      else if t = TypeTemporalDelimiter then ''OBU_TEMPORAL_DELIMITER''
      else if t = TypeFrameHeader then ''OBU_FRAME_HEADER''
      else if t = TypeTileGroup then ''OBU_TILE_GROUP''
      else if t = TypeMetadata then ''OBU_METADATA''
      else if t = TypeFrame then ''OBU_FRAME''
      else if t = TypeRedundantFrameHeader then ''OBU_REDUNDANT_FRAME_HEADER''
      else if t = TypeTileList then ''OBU_TILE_LIST''
      else if t = TypePadding then ''OBU_PADDING''
      else ''OBU_RESERVED'')"

definition Type_Reserved :: "u8 \<Rightarrow> bool" where
  "Type_Reserved t \<longleftrightarrow> t = TypeReserved \<or> (t \<ge> 9 \<and> t \<le> 14)"

section \<open>Headers\<close>

record Header =
  hd_Type :: u8
  hd_Extension :: bool
  hd_HasSizeField :: bool
  hd_TemporalID :: u8
  hd_SpatialID :: u8

definition HeaderLen :: "Header \<Rightarrow> nat" where
  "HeaderLen h = (if hd_Extension h then 2 else 1)"

definition ParseHeader :: "bytes \<Rightarrow> go_err + Header \<times> nat" where
  "ParseHeader src =
     (if length src < 1 then Inl ObuErrShortHeader
      else
        let b = src ! 0
        in if b AND 0x80 \<noteq> 0 then Inl ObuErrForbiddenBit
           else if b AND 0x01 \<noteq> 0 then Inl ObuErrReservedBit
           else
             let h = \<lparr>hd_Type = drop_bit 3 b AND 0x0f, hd_Extension = (b AND 0x04 \<noteq> 0),
                      hd_HasSizeField = (b AND 0x02 \<noteq> 0), hd_TemporalID = 0, hd_SpatialID = 0\<rparr>
             in if hd_Extension h then
                  if length src < 2 then Inl ObuErrShortHeader
                  else
                    let ext = src ! 1
                    in if ext AND 0x07 \<noteq> 0 then Inl ObuErrReservedBit
                       else Inr (h\<lparr>hd_TemporalID := drop_bit 5 ext AND 0x07,
                                   hd_SpatialID := drop_bit 3 ext AND 0x03\<rparr>, 2)
                else Inr (h, 1))"

definition PutHeader :: "bytes \<Rightarrow> Header \<Rightarrow> (go_err + nat) \<times> bytes" where
  "PutHeader dst h =
     (if length dst < HeaderLen h then (Inl ObuErrShortHeader, dst)
      else if hd_Type h > 15 \<or> hd_TemporalID h > 7 \<or> hd_SpatialID h > 3 then (Inl ObuErrInvalidType, dst)
      else
        let b = push_bit 3 (hd_Type h);
            b = (if hd_Extension h then b OR 0x04 else b);
            b = (if hd_HasSizeField h then b OR 0x02 else b);
            dst = dst[0 := b]
        in if \<not> hd_Extension h then (Inr 1, dst)
           else (Inr 2, dst[1 := push_bit 5 (hd_TemporalID h) OR push_bit 3 (hd_SpatialID h)]))"

section \<open>Units\<close>

record Unit =
  un_Header :: Header
  un_HeaderLen :: u8
  un_SizeLen :: u8
  un_Size :: u32
  un_Payload :: bytes
  un_Raw :: bytes

definition ParseElement :: "bytes \<Rightarrow> go_err + Unit" where
  "ParseElement element =
     (case ParseHeader element of
        Inl e \<Rightarrow> Inl e
      | Inr (h, headerLen) \<Rightarrow>
          if \<not> hd_HasSizeField h then
            let payload = drop headerLen element
            in Inr \<lparr>un_Header = h, un_HeaderLen = word_of_nat headerLen, un_SizeLen = 0,
                    un_Size = word_of_nat (length payload), un_Payload = payload, un_Raw = element\<rparr>
          else
            (case ReadLEB128 (drop headerLen element) of
              Inl e \<Rightarrow> Inl e
            | Inr (sz, sizeLen) \<Rightarrow>
                let start = headerLen + sizeLen;
                    end' = start + unat sz
                in if end' < start \<or> end' > length element then Inl ObuErrShortPayload
                   else Inr \<lparr>un_Header = h, un_HeaderLen = word_of_nat headerLen,
                             un_SizeLen = word_of_nat sizeLen, un_Size = sz,
                             un_Payload = drop start (take end' element),
                             un_Raw = take end' element\<rparr>))"

definition ParseLowOverhead :: "bytes \<Rightarrow> go_err + Unit \<times> nat" where
  "ParseLowOverhead src =
     (case ParseHeader src of
        Inl e \<Rightarrow> Inl e
      | Inr (h, headerLen) \<Rightarrow>
          if \<not> hd_HasSizeField h then Inl ObuErrMissingSizeField
          else
            (case ReadLEB128 (drop headerLen src) of
              Inl e \<Rightarrow> Inl e
            | Inr (sz, sizeLen) \<Rightarrow>
                let start = headerLen + sizeLen;
                    end' = start + unat sz
                in if end' < start \<or> end' > length src then Inl ObuErrShortPayload
                   else Inr (\<lparr>un_Header = h, un_HeaderLen = word_of_nat headerLen,
                              un_SizeLen = word_of_nat sizeLen, un_Size = sz,
                              un_Payload = drop start (take end' src),
                              un_Raw = take end' src\<rparr>, end')))"

record LowOverheadIterator =
  lo_src :: bytes
  lo_off :: u32

definition NewLowOverheadIterator :: "bytes \<Rightarrow> LowOverheadIterator" where
  "NewLowOverheadIterator src = \<lparr>lo_src = src, lo_off = 0\<rparr>"

text \<open>\<open>Inr None\<close> is the end of the stream: \<open>return Unit{}, false, nil\<close>.\<close>

definition LowOverheadIterator_Next ::
  "LowOverheadIterator \<Rightarrow> (go_err + Unit option) \<times> LowOverheadIterator" where
  "LowOverheadIterator_Next it =
     (let srcLen = length (lo_src it)
      in if int srcLen > uint (NOT (0::u32)) then (Inl ObuErrShortPayload, it)
         else
           let off = unat (lo_off it)
           in if off = srcLen then (Inr None, it)
              else if off > srcLen then (Inl ObuErrShortPayload, it)
              else
                case ParseLowOverhead (drop off (lo_src it)) of
                  Inl e \<Rightarrow> (Inl e, it)
                | Inr (unit, consumed) \<Rightarrow>
                    (Inr (Some unit), it\<lparr>lo_off := word_of_nat (off + consumed)\<rparr>))"

section \<open>Temporal units\<close>

record TemporalUnit =
  tu_Raw :: bytes
  tu_Index :: u32

record TemporalUnitIterator =
  ti_src :: bytes
  ti_off :: u32
  ti_index :: u32

definition NewTemporalUnitIterator :: "bytes \<Rightarrow> TemporalUnitIterator" where
  "NewTemporalUnitIterator src = \<lparr>ti_src = src, ti_off = 0, ti_index = 0\<rparr>"

lemma ReadLEB128_ok_bounds:
  "ReadLEB128 src = Inr (v, n) \<Longrightarrow> 0 < n \<and> n \<le> 8 \<and> n \<le> length src"
  using ReadLEB128_loop_ok [of src 0 0 v n] by (simp add: ReadLEB128_def)

lemma ParseLowOverhead_consumed:
  assumes "ParseLowOverhead src = Inr (u, n)"
  shows "2 \<le> n" "n \<le> length src" "un_Raw u = take n src"
  using assms
  by (auto simp: ParseLowOverhead_def ParseHeader_def Let_def split: sum.splits if_splits prod.splits
      dest!: ReadLEB128_ok_bounds)

text \<open>
  The loop of \<open>TemporalUnitIterator.Next\<close>. The iterator's offset follows the loop, so that an
  error in the middle of a unit leaves it behind the units already read.
\<close>

function TemporalUnit_loop ::
  "nat \<Rightarrow> bool \<Rightarrow> nat \<Rightarrow> TemporalUnitIterator \<Rightarrow> (go_err + TemporalUnit option) \<times> TemporalUnitIterator" where
  "TemporalUnit_loop start first off it =
     (if off < length (ti_src it) then
        case ParseLowOverhead (drop off (ti_src it)) of
          Inl e \<Rightarrow> (Inl e, it)
        | Inr (unit, consumed) \<Rightarrow>
            if first then
              if hd_Type (un_Header unit) \<noteq> TypeTemporalDelimiter
              then (Inl ObuErrMissingTemporalDelimiter, it)
              else TemporalUnit_loop start False (off + consumed) (it\<lparr>ti_off := word_of_nat (off + consumed)\<rparr>)
            else if hd_Type (un_Header unit) = TypeTemporalDelimiter then
              (Inr (Some \<lparr>tu_Raw = drop start (take off (ti_src it)), tu_Index = ti_index it\<rparr>),
               it\<lparr>ti_index := ti_index it + 1\<rparr>)
            else TemporalUnit_loop start False (off + consumed) (it\<lparr>ti_off := word_of_nat (off + consumed)\<rparr>)
      else
        (Inr (Some \<lparr>tu_Raw = drop start (take off (ti_src it)), tu_Index = ti_index it\<rparr>),
         it\<lparr>ti_index := ti_index it + 1\<rparr>))"
  by pat_completeness auto
termination
  by (relation "measure (\<lambda>(start, first, off, it). length (ti_src it) - off)")
    (auto dest!: ParseLowOverhead_consumed(1))

declare TemporalUnit_loop.simps [simp del]

definition TemporalUnitIterator_Next ::
  "TemporalUnitIterator \<Rightarrow> (go_err + TemporalUnit option) \<times> TemporalUnitIterator" where
  "TemporalUnitIterator_Next it =
     (let srcLen = length (ti_src it)
      in if int srcLen > uint (NOT (0::u32)) then (Inl ObuErrShortPayload, it)
         else
           let off = unat (ti_off it)
           in if off = srcLen then (Inr None, it)
              else if off > srcLen then (Inl ObuErrShortPayload, it)
              else TemporalUnit_loop off True off it)"

section \<open>Normalisation\<close>

text \<open>A call that fills \<open>dst[off:]\<close>, and Go's \<open>copy\<close> into it.\<close>

definition in_tail :: "nat \<Rightarrow> (bytes \<Rightarrow> 'a \<times> bytes) \<Rightarrow> bytes \<Rightarrow> 'a \<times> bytes" where
  "in_tail off f dst = (let (r, d) = f (drop off dst) in (r, take off dst @ d))"

definition go_copy :: "bytes \<Rightarrow> bytes \<Rightarrow> nat \<times> bytes" where
  "go_copy src dst = (let n = min (length dst) (length src) in (n, take n src @ drop n dst))"

definition NormalizeLowOverhead :: "bytes \<Rightarrow> bytes \<Rightarrow> (go_err + nat) \<times> bytes" where
  "NormalizeLowOverhead dst raw =
     (case ParseElement raw of
        Inl e \<Rightarrow> (Inl e, dst)
      | Inr unit \<Rightarrow>
          if length (un_Raw unit) \<noteq> length raw then (Inl ObuErrSizeMismatch, dst)
          else
            let header = (un_Header unit)\<lparr>hd_HasSizeField := True\<rparr>
            in case PutHeader dst header of
                 (Inl e, dst) \<Rightarrow> (Inl e, dst)
               | (Inr off, dst) \<Rightarrow>
                   (case in_tail off (\<lambda>d. PutLEB128 d (word_of_nat (length (un_Payload unit)))) dst of
                      (Inl e, dst) \<Rightarrow> (Inl e, dst)
                    | (Inr n, dst) \<Rightarrow>
                        let off = off + n
                        in if length dst - off < length (un_Payload unit) then (Inl ErrShortBuffer, dst)
                           else let (c, dst) = in_tail off (go_copy (un_Payload unit)) dst
                                in (Inr (off + c), dst)))"

section \<open>Headers: what is written is what is read\<close>

definition header_bytes :: "Header \<Rightarrow> bytes" where
  "header_bytes h =
     (push_bit 3 (hd_Type h) OR (if hd_Extension h then 4 else 0) OR (if hd_HasSizeField h then 2 else 0)) #
     (if hd_Extension h then [push_bit 5 (hd_TemporalID h) OR push_bit 3 (hd_SpatialID h)] else [])"

definition header_ok :: "Header \<Rightarrow> bool" where
  "header_ok h \<longleftrightarrow> hd_Type h \<le> 15 \<and> hd_TemporalID h \<le> 7 \<and> hd_SpatialID h \<le> 3 \<and>
     (\<not> hd_Extension h \<longrightarrow> hd_TemporalID h = 0 \<and> hd_SpatialID h = 0)"

lemma length_header_bytes [simp]: "length (header_bytes h) = HeaderLen h"
  by (simp add: header_bytes_def HeaderLen_def)

lemma PutHeader_eq:
  "PutHeader dst h =
     (if length dst < HeaderLen h then (Inl ObuErrShortHeader, dst)
      else if hd_Type h > 15 \<or> hd_TemporalID h > 7 \<or> hd_SpatialID h > 3 then (Inl ObuErrInvalidType, dst)
      else (Inr (HeaderLen h), header_bytes h @ drop (HeaderLen h) dst))"
  by (cases dst; cases "tl dst") (auto simp: PutHeader_def header_bytes_def HeaderLen_def Let_def or.assoc)

lemma u8_bit_tests:
  "(w :: u8) AND 0x80 = 0 \<longleftrightarrow> \<not> bit w 7" "w AND 4 = 0 \<longleftrightarrow> \<not> bit w 2"
  "w AND 2 = 0 \<longleftrightarrow> \<not> bit w 1" "w AND 1 = 0 \<longleftrightarrow> \<not> bit w 0"
  using and_exp_eq_0_iff_not_bit [of w 7] and_exp_eq_0_iff_not_bit [of w 2]
    and_exp_eq_0_iff_not_bit [of w 1] and_exp_eq_0_iff_not_bit [of w 0] by simp_all

lemma u8_masks:
  "(w :: u8) AND 0xf = take_bit 4 w" "w AND 7 = take_bit 3 w" "w AND 3 = take_bit 2 w"
  by (simp_all add: take_bit_eq_mask mask_eq_exp_minus_1)

lemma u8_le_masks:
  "(w :: u8) \<le> 15 \<longleftrightarrow> take_bit 4 w = w" "w \<le> 7 \<longleftrightarrow> take_bit 3 w = w" "w \<le> 3 \<longleftrightarrow> take_bit 2 w = w"
proof -
  have *: "unat w < 2 ^ n \<longleftrightarrow> take_bit n w = w" for n
    by (metis take_bit_nat_less_exp take_bit_word_unat unsigned_take_bit_eq)
  show "w \<le> 15 \<longleftrightarrow> take_bit 4 w = w" "w \<le> 7 \<longleftrightarrow> take_bit 3 w = w" "w \<le> 3 \<longleftrightarrow> take_bit 2 w = w"
    using * [of 4] * [of 3] * [of 2] by (auto simp: word_le_nat_alt)
qed

lemma bit_numerals_u8:
  "bit (4 :: u8) i \<longleftrightarrow> i = 2" "bit (2 :: u8) i \<longleftrightarrow> i = 1"
  using bit_push_bit_iff [of 2 "1 :: u8" i] bit_push_bit_iff [of 1 "1 :: u8" i]
  by (auto simp: bit_1_iff)

lemma u8_bits_lt: "i < LENGTH(8) \<Longrightarrow> i = 0 \<or> i = 1 \<or> i = 2 \<or> i = 3 \<or> i = 4 \<or> i = 5 \<or> i = 6 \<or> i = 7"
  by simp linarith

lemma ParseHeader_header_bytes:
  assumes "header_ok h" shows "ParseHeader (header_bytes h @ rest) = Inr (h, HeaderLen h)"
proof -
  let ?b = "hd (header_bytes h)"
  have t: "take_bit 4 (hd_Type h) = hd_Type h" "take_bit 3 (hd_TemporalID h) = hd_TemporalID h"
    "take_bit 2 (hd_SpatialID h) = hd_SpatialID h"
    using assms by (simp_all add: header_ok_def u8_le_masks)
  have bt: "bit (hd_Type h) i \<Longrightarrow> i < 4" "bit (hd_TemporalID h) i \<Longrightarrow> i < 3" "bit (hd_SpatialID h) i \<Longrightarrow> i < 2" for i
    using t by (metis bit_take_bit_iff)+
  have bb: "bit ?b i \<longleftrightarrow> 3 \<le> i \<and> i < 8 \<and> bit (hd_Type h) (i - 3) \<or> i = 2 \<and> hd_Extension h \<or> i = 1 \<and> hd_HasSizeField h" for i
    using u8_bits_lt [of i] bit_imp_le_length [of ?b i]
    by (cases "i < 8") (auto simp: header_bytes_def bit_or_iff bit_push_bit_iff)
  have "take_bit 4 (drop_bit 3 ?b) = hd_Type h"
    by (rule bit_word_eqI) (auto simp: bit_simps bb dest: bt)
  moreover have "\<not> bit ?b 7" "\<not> bit ?b 0" "bit ?b 2 = hd_Extension h" "bit ?b 1 = hd_HasSizeField h"
    by (auto simp: bb dest: bt)
  moreover have "take_bit 3 (push_bit 5 (hd_TemporalID h) OR push_bit 3 (hd_SpatialID h)) = 0"
    by (rule bit_word_eqI) (auto simp: bit_simps)
  moreover have "take_bit 3 (drop_bit 5 (push_bit 5 (hd_TemporalID h) OR push_bit 3 (hd_SpatialID h))) = hd_TemporalID h"
    by (rule bit_word_eqI) (auto simp: bit_simps dest: bt)
  moreover have "take_bit 2 (drop_bit 3 (push_bit 5 (hd_TemporalID h) OR push_bit 3 (hd_SpatialID h))) = hd_SpatialID h"
    by (rule bit_word_eqI) (auto simp: bit_simps dest: bt)
  ultimately show ?thesis
    using assms
    by (auto simp: ParseHeader_def Let_def HeaderLen_def u8_bit_tests u8_masks header_bytes_def header_ok_def)
qed

lemma ParseHeader_ok:
  assumes "ParseHeader src = Inr (h, n)"
  shows "header_ok h \<and> n = HeaderLen h \<and> src = header_bytes h @ drop n src"
proof -
  from assms obtain b bs where src: "src = b # bs" by (cases src) (auto simp: ParseHeader_def)
  have b: "\<not> bit b 7" "\<not> bit b 0" and h: "hd_Type h = take_bit 4 (drop_bit 3 b)"
      "hd_Extension h = bit b 2" "hd_HasSizeField h = bit b 1"
    using assms by (auto simp: ParseHeader_def src Let_def u8_bit_tests u8_masks split: if_splits)
  have b0: "push_bit 3 (hd_Type h) OR (if hd_Extension h then 4 else 0) OR (if hd_HasSizeField h then 2 else 0) = b"
  proof (rule bit_word_eqI)
    fix i assume "i < LENGTH(8)"
    then show "bit (push_bit 3 (hd_Type h) OR (if hd_Extension h then 4 else 0) OR (if hd_HasSizeField h then 2 else 0)) i = bit b i"
      using u8_bits_lt [of i] b by (auto simp: h bit_or_iff bit_push_bit_iff bit_take_bit_iff bit_drop_bit_eq bit_numerals_u8)
  qed
  have t: "hd_Type h \<le> 15" by (simp add: h u8_le_masks)
  show ?thesis
  proof (cases "bit b 2")
    case False
    then have "n = 1" "hd_TemporalID h = 0" "hd_SpatialID h = 0"
      using assms by (auto simp: ParseHeader_def src Let_def u8_bit_tests split: if_splits)
    then show ?thesis using False t b0 by (simp add: header_ok_def header_bytes_def HeaderLen_def h src)
  next
    case True
    then obtain e es where bs: "bs = e # es"
      using assms by (cases bs) (auto simp: ParseHeader_def src Let_def u8_bit_tests split: if_splits)
    have e: "n = 2" "take_bit 3 e = 0" "hd_TemporalID h = take_bit 3 (drop_bit 5 e)" "hd_SpatialID h = take_bit 2 (drop_bit 3 e)"
      using assms True by (auto simp: ParseHeader_def src bs Let_def u8_bit_tests u8_masks split: if_splits)
    have "\<not> bit (take_bit 3 e) i" for i using e(2) by simp
    then have e': "i < 3 \<Longrightarrow> \<not> bit e i" for i by (auto simp: bit_take_bit_iff)
    have "push_bit 5 (hd_TemporalID h) OR push_bit 3 (hd_SpatialID h) = e"
    proof (rule bit_word_eqI)
      fix i assume "i < LENGTH(8)"
      then show "bit (push_bit 5 (hd_TemporalID h) OR push_bit 3 (hd_SpatialID h)) i = bit e i"
        using u8_bits_lt [of i] e' by (auto simp: e bit_or_iff bit_push_bit_iff bit_take_bit_iff bit_drop_bit_eq)
    qed
    moreover have "hd_TemporalID h \<le> 7" "hd_SpatialID h \<le> 3" by (simp_all add: e u8_le_masks)
    ultimately show ?thesis using True t b0 e(1) by (simp add: header_ok_def header_bytes_def HeaderLen_def h src bs)
  qed
qed

section \<open>Units and iterators\<close>

definition obu_bytes :: "Header \<Rightarrow> bytes \<Rightarrow> bytes" where
  "obu_bytes h p = header_bytes h @ leb128 (word_of_nat (length p)) @ p"

text \<open>The unit that parsing \<open>obu_bytes h p\<close> returns.\<close>

definition sized_unit :: "Header \<Rightarrow> bytes \<Rightarrow> Unit" where
  "sized_unit h p =
     \<lparr>un_Header = h, un_HeaderLen = word_of_nat (HeaderLen h),
      un_SizeLen = word_of_nat (length (leb128 (word_of_nat (length p)))),
      un_Size = word_of_nat (length p), un_Payload = p, un_Raw = obu_bytes h p\<rparr>"

lemma unat_of_nat_u32: "n < 2 ^ 32 \<Longrightarrow> unat (word_of_nat n :: u32) = n"
  by (simp add: unat_of_nat)

lemma ParseLowOverhead_obu_bytes:
  assumes "header_ok h" "hd_HasSizeField h" "length p < 2 ^ 32"
  shows "ParseLowOverhead (obu_bytes h p @ rest) = Inr (sized_unit h p, length (obu_bytes h p))"
  using assms ParseHeader_header_bytes [OF assms(1), of "leb128 (word_of_nat (length p)) @ p @ rest"]
    ReadLEB128_leb128 [of "word_of_nat (length p)" "p @ rest"]
  by (simp add: ParseLowOverhead_def obu_bytes_def sized_unit_def unat_of_nat_u32 Let_def)

lemma ParseElement_obu_bytes:
  assumes "header_ok h" "hd_HasSizeField h" "length p < 2 ^ 32"
  shows "ParseElement (obu_bytes h p @ rest) = Inr (sized_unit h p)"
  using assms ParseHeader_header_bytes [OF assms(1), of "leb128 (word_of_nat (length p)) @ p @ rest"]
    ReadLEB128_leb128 [of "word_of_nat (length p)" "p @ rest"]
  by (simp add: ParseElement_def obu_bytes_def sized_unit_def unat_of_nat_u32 Let_def)

text \<open>What an accepted unit is: a header, a size that may use padding bytes, and the payload.\<close>

lemma ParseLowOverhead_ok:
  assumes "ParseLowOverhead src = Inr (u, n)"
  shows "header_ok (un_Header u) \<and> hd_HasSizeField (un_Header u) \<and> n \<le> length src \<and>
    un_Raw u = take n src \<and> unat (un_Size u) = length (un_Payload u) \<and>
    un_HeaderLen u = word_of_nat (HeaderLen (un_Header u)) \<and>
    (\<exists>sz. un_Raw u = header_bytes (un_Header u) @ sz @ un_Payload u \<and>
       length sz = unat (un_SizeLen u) \<and> ReadLEB128 sz = Inr (un_Size u, length sz))"
proof -
  from assms obtain h hl where h: "ParseHeader src = Inr (h, hl)" and sf: "hd_HasSizeField h"
    by (auto simp: ParseLowOverhead_def split: sum.splits if_splits)
  with assms obtain sz sl where l: "ReadLEB128 (drop hl src) = Inr (sz, sl)"
    by (auto simp: ParseLowOverhead_def split: sum.splits if_splits)
  let ?s = "hl + sl"
  have n: "n = ?s + unat sz" "n \<le> length src" and u: "u = \<lparr>un_Header = h, un_HeaderLen = word_of_nat hl,
      un_SizeLen = word_of_nat sl, un_Size = sz, un_Payload = drop ?s (take n src), un_Raw = take n src\<rparr>"
    using assms by (auto simp: ParseLowOverhead_def h sf l Let_def split: if_splits)
  note hd = ParseHeader_ok [OF h]
  note lb = ReadLEB128_ok_bounds [OF l]
  have hb: "take hl src = header_bytes h" using hd by (metis append_eq_conv_conj length_header_bytes)
  have "take n src = take hl src @ take sl (drop hl src) @ drop ?s (take n src)"
    using n by (simp add: drop_take) (metis append_assoc take_add)
  moreover have "ReadLEB128 (take sl (drop hl src)) = Inr (sz, length (take sl (drop hl src)))"
    using ReadLEB128_prefix [OF l] lb by (simp add: min_def)
  moreover have "unat (word_of_nat sl :: u8) = sl" using lb by (simp add: unat_of_nat)
  ultimately show ?thesis using hd sf n lb hb by (auto simp: u min_def intro!: exI [of _ "take sl (drop hl src)"])
qed

lemma ParseHeader_len_le: "ParseHeader src = Inr (h, n) \<Longrightarrow> n \<le> length src"
  using ParseHeader_ok [of src h n] by (metis le_add1 length_append length_header_bytes)

lemma ParseHeader_append: "ParseHeader src = Inr (h, n) \<Longrightarrow> ParseHeader (src @ rest) = Inr (h, n)"
  using ParseHeader_ok [of src h n] ParseHeader_header_bytes [of h "drop n src @ rest"]
  by (metis append_assoc)

lemma ParseLowOverhead_append:
  assumes "ParseLowOverhead src = Inr (u, n)"
  shows "ParseLowOverhead (src @ rest) = Inr (u, n)"
proof -
  from assms obtain h hl where h: "ParseHeader src = Inr (h, hl)" and sf: "hd_HasSizeField h"
    by (auto simp: ParseLowOverhead_def split: sum.splits if_splits)
  with assms obtain sz sl where l: "ReadLEB128 (drop hl src) = Inr (sz, sl)"
    by (auto simp: ParseLowOverhead_def split: sum.splits if_splits)
  have "hl \<le> length src" using h by (rule ParseHeader_len_le)
  then have "ReadLEB128 (drop hl (src @ rest)) = Inr (sz, sl)" using ReadLEB128_append [OF l] by simp
  then show ?thesis
    using assms by (auto simp: ParseLowOverhead_def h ParseHeader_append [OF h] sf l Let_def split: if_splits)
qed

lemma ParseLowOverhead_Raw:
  assumes "ParseLowOverhead src = Inr (u, n)"
  shows "ParseLowOverhead (un_Raw u) = Inr (u, length (un_Raw u))"
proof -
  from ParseLowOverhead_ok [OF assms] obtain sz where
    u: "header_ok (un_Header u)" "hd_HasSizeField (un_Header u)" "unat (un_Size u) = length (un_Payload u)"
      "un_HeaderLen u = word_of_nat (HeaderLen (un_Header u))"
      "un_Raw u = header_bytes (un_Header u) @ sz @ un_Payload u"
    and sz: "length sz = unat (un_SizeLen u)" "ReadLEB128 sz = Inr (un_Size u, length sz)"
    by metis
  have "un_SizeLen u = word_of_nat (length sz)" by (simp add: sz(1))
  then show ?thesis
    using u sz(2) ParseHeader_header_bytes [OF u(1), of "sz @ un_Payload u"] ReadLEB128_append [OF sz(2), of "un_Payload u"]
    by (simp add: ParseLowOverhead_def Let_def)
qed

definition lo_ok :: "LowOverheadIterator \<Rightarrow> bool" where
  "lo_ok it \<longleftrightarrow> length (lo_src it) < 2 ^ 32 \<and> unat (lo_off it) \<le> length (lo_src it)"

definition lo_left :: "LowOverheadIterator \<Rightarrow> bytes" where
  "lo_left it = drop (unat (lo_off it)) (lo_src it)"

text \<open>A byte string that is one whole unit.\<close>

definition obu_piece :: "bytes \<Rightarrow> bool" where
  "obu_piece b \<longleftrightarrow> (\<exists>u. ParseLowOverhead b = Inr (u, length b))"

lemma uint_not_0_u32: "uint (- 1 :: u32) = 4294967295"
  by (simp add: unsigned_minus_1_eq_mask mask_eq_exp_minus_1)

lemma LowOverheadIterator_Next_ok:
  assumes "lo_ok it"
  shows "LowOverheadIterator_Next it =
    (if lo_left it = [] then (Inr None, it)
     else case ParseLowOverhead (lo_left it) of
       Inl e \<Rightarrow> (Inl e, it)
     | Inr (u, n) \<Rightarrow> (Inr (Some u), it\<lparr>lo_off := word_of_nat (unat (lo_off it) + n)\<rparr>))"
  using assms by (auto simp: LowOverheadIterator_Next_def lo_ok_def lo_left_def Let_def uint_not_0_u32)

interpretation low_overhead: contiguous_iterator LowOverheadIterator_Next lo_left lo_ok un_Raw obu_piece "\<lambda>_. True"
proof unfold_locales
  fix it it' u
  assume ok: "lo_ok it" and n: "LowOverheadIterator_Next it = (Inr (Some u), it')"
  then obtain k where k: "ParseLowOverhead (lo_left it) = Inr (u, k)"
      and it': "it' = it\<lparr>lo_off := word_of_nat (unat (lo_off it) + k)\<rparr>"
    by (auto simp: LowOverheadIterator_Next_ok split: if_splits sum.splits)
  note c = ParseLowOverhead_consumed [OF k]
  have off: "unat (word_of_nat (unat (lo_off it) + k) :: u32) = unat (lo_off it) + k"
    using ok c(2) by (intro unat_of_nat_u32) (auto simp: lo_ok_def lo_left_def)
  show "lo_ok it' \<and> length (lo_left it') < length (lo_left it)"
    using ok c off by (auto simp: lo_ok_def lo_left_def it')
  show "lo_left it = un_Raw u @ lo_left it'"
    using c(3) off by (simp add: lo_left_def it' add.commute) (metis append_take_drop_id drop_drop add.commute)
next
  fix it it' assume "lo_ok it" "LowOverheadIterator_Next it = (Inr None, it')"
  then show "lo_left it = []" by (auto simp: LowOverheadIterator_Next_ok split: if_splits sum.splits)
next
  fix it assume "lo_ok it" "lo_left it = []"
  then show "LowOverheadIterator_Next it = (Inr None, it)" by (simp add: LowOverheadIterator_Next_ok)
next
  fix it b rest
  assume ok: "lo_ok it" and b: "lo_left it = b @ rest" "obu_piece b"
  then obtain u where u: "ParseLowOverhead b = Inr (u, length b)" by (auto simp: obu_piece_def)
  from ParseLowOverhead_append [OF u, of rest] ParseLowOverhead_consumed [OF u] b ok
  show "\<exists>u it'. LowOverheadIterator_Next it = (Inr (Some u), it') \<and> un_Raw u = b"
    by (auto simp: LowOverheadIterator_Next_ok)
qed simp

definition tu_ok :: "TemporalUnitIterator \<Rightarrow> bool" where
  "tu_ok it \<longleftrightarrow> length (ti_src it) < 2 ^ 32 \<and> unat (ti_off it) \<le> length (ti_src it)"

definition tu_left :: "TemporalUnitIterator \<Rightarrow> bytes" where
  "tu_left it = drop (unat (ti_off it)) (ti_src it)"

text \<open>A unit of a given kind: a temporal delimiter, or anything else.\<close>

definition obu_piece_td :: "bool \<Rightarrow> bytes \<Rightarrow> bool" where
  "obu_piece_td td b \<longleftrightarrow> (\<exists>u. ParseLowOverhead b = Inr (u, length b) \<and>
     (hd_Type (un_Header u) = TypeTemporalDelimiter \<longleftrightarrow> td))"

definition temporal_unit_piece :: "bytes \<Rightarrow> bool" where
  "temporal_unit_piece b \<longleftrightarrow> (\<exists>d bs. b = d @ concat bs \<and> obu_piece_td True d \<and> (\<forall>x \<in> set bs. obu_piece_td False x))"

definition td_starts :: "bytes \<Rightarrow> bool" where
  "td_starts rest \<longleftrightarrow> rest = [] \<or>
     (\<exists>u n. ParseLowOverhead rest = Inr (u, n) \<and> hd_Type (un_Header u) = TypeTemporalDelimiter)"

lemma TemporalUnit_loop_item:
  assumes "TemporalUnit_loop start first off it = (Inr (Some u), it')"
    and "length (ti_src it) < 2 ^ 32" "unat (ti_off it) = off" "off \<le> length (ti_src it)"
  shows "\<exists>e. off \<le> e \<and> e \<le> length (ti_src it) \<and> (first \<longrightarrow> off < length (ti_src it) \<longrightarrow> off < e) \<and>
    ti_src it' = ti_src it \<and> unat (ti_off it') = e \<and> tu_Raw u = drop start (take e (ti_src it))"
  using assms
proof (induction start first off it rule: TemporalUnit_loop.induct)
  case (1 start first off it)
  show ?case
  proof (cases "off < length (ti_src it)")
    case False
    then show ?thesis using "1.prems" by (subst (asm) TemporalUnit_loop.simps) auto
  next
    case True
    with "1.prems"(1) obtain v k where p: "ParseLowOverhead (drop off (ti_src it)) = Inr (v, k)"
      by (subst (asm) TemporalUnit_loop.simps) (auto split: sum.splits)
    note c = ParseLowOverhead_consumed [OF p]
    let ?it = "it\<lparr>ti_off := word_of_nat (off + k)\<rparr>"
    have le: "off < off + k" "off + k \<le> length (ti_src it)" using c True by auto
    then have "unat (word_of_nat (off + k) :: u32) = off + k"
      using "1.prems"(2) by (intro unat_of_nat_u32) simp
    note off' = this le
    show ?thesis
    proof (cases "\<not> first \<and> hd_Type (un_Header v) = TypeTemporalDelimiter")
      case td: True
      then show ?thesis using "1.prems" True p by (subst (asm) TemporalUnit_loop.simps) auto
    next
      case more: False
      with "1.prems"(1) True p have td: "first \<longrightarrow> hd_Type (un_Header v) = TypeTemporalDelimiter"
        by (subst (asm) TemporalUnit_loop.simps) (auto split: if_splits)
      have step: "TemporalUnit_loop start first off it = TemporalUnit_loop start False (off + k) ?it"
        using more td True p by (subst TemporalUnit_loop.simps) auto
      have IH: "\<exists>e. off + k \<le> e \<and> e \<le> length (ti_src ?it) \<and> (False \<longrightarrow> off + k < length (ti_src ?it) \<longrightarrow> off + k < e) \<and>
          ti_src it' = ti_src ?it \<and> unat (ti_off it') = e \<and> tu_Raw u = drop start (take e (ti_src ?it))"
        by (cases first; rule "1.IH" [OF True p refl])
          (use more td step "1.prems" off' in auto)
      then show ?thesis using off' by fastforce
    qed
  qed
qed

lemma TemporalUnit_loop_complete:
  assumes "drop off (ti_src it) = concat bs @ rest" "\<forall>x \<in> set bs. obu_piece_td False x" "td_starts rest"
    and "length (ti_src it) < 2 ^ 32" "off \<le> length (ti_src it)"
  shows "\<exists>u it'. TemporalUnit_loop start False off it = (Inr (Some u), it') \<and>
    tu_Raw u = drop start (take (off + length (concat bs)) (ti_src it))"
  using assms
proof (induction bs arbitrary: off it)
  case Nil
  show ?case
  proof (cases "rest = []")
    case True
    then show ?thesis using Nil by (subst TemporalUnit_loop.simps) simp
  next
    case False
    then obtain u n where "ParseLowOverhead (drop off (ti_src it)) = Inr (u, n)"
        "hd_Type (un_Header u) = TypeTemporalDelimiter"
      using Nil by (auto simp: td_starts_def)
    moreover have "off < length (ti_src it)" using Nil.prems(1) False by (cases "off < length (ti_src it)") auto
    ultimately show ?thesis by (subst TemporalUnit_loop.simps) simp
  qed
next
  case (Cons b bs)
  from Cons.prems(2) obtain u where u: "ParseLowOverhead b = Inr (u, length b)"
      "hd_Type (un_Header u) \<noteq> TypeTemporalDelimiter" by (auto simp: obu_piece_td_def)
  have p: "ParseLowOverhead (drop off (ti_src it)) = Inr (u, length b)"
    using ParseLowOverhead_append [OF u(1)] Cons.prems(1) by simp
  have b: "2 \<le> length b" using ParseLowOverhead_consumed [OF u(1)] by simp
  have len: "length (ti_src it) - off = length b + length (concat bs @ rest)"
    using arg_cong [OF Cons.prems(1), of length] by simp
  then have lt: "off < length (ti_src it)" using b by linarith
  let ?it = "it\<lparr>ti_off := word_of_nat (off + length b)\<rparr>"
  have step: "TemporalUnit_loop start False off it = TemporalUnit_loop start False (off + length b) ?it"
    using p u(2) lt by (subst TemporalUnit_loop.simps) simp
  have "drop (off + length b) (ti_src ?it) = concat bs @ rest"
    using Cons.prems(1) by (metis TemporalUnitIterator.ext_inject TemporalUnitIterator.surjective
        TemporalUnitIterator.update_convs(2) add.commute append_assoc append_eq_conv_conj concat.simps(2) drop_drop)
  from Cons.IH [OF this] Cons.prems(2-5) b len step show ?case by (simp add: add.assoc)
qed

lemma TemporalUnitIterator_Next_ok:
  assumes "tu_ok it"
  shows "TemporalUnitIterator_Next it =
    (if tu_left it = [] then (Inr None, it) else TemporalUnit_loop (unat (ti_off it)) True (unat (ti_off it)) it)"
  using assms by (auto simp: TemporalUnitIterator_Next_def tu_ok_def tu_left_def Let_def uint_not_0_u32)

lemma TemporalUnit_loop_not_None: "TemporalUnit_loop start first off it \<noteq> (Inr None, it')"
proof (induction start first off it rule: TemporalUnit_loop.induct)
  case (1 start first off it)
  then show ?case
    by (subst TemporalUnit_loop.simps) (auto split: sum.splits)
qed

interpretation temporal_units: contiguous_iterator TemporalUnitIterator_Next tu_left tu_ok tu_Raw
  temporal_unit_piece td_starts
proof unfold_locales
  fix it it' u
  assume ok: "tu_ok it" and n: "TemporalUnitIterator_Next it = (Inr (Some u), it')"
  then have ne: "tu_left it \<noteq> []" by (auto simp: TemporalUnitIterator_Next_ok)
  let ?o = "unat (ti_off it)"
  from TemporalUnit_loop_item [of ?o True ?o it u it'] ok n ne obtain e where
    e: "?o < e" "e \<le> length (ti_src it)" "ti_src it' = ti_src it" "unat (ti_off it') = e"
      "tu_Raw u = drop ?o (take e (ti_src it))"
    by (auto simp: TemporalUnitIterator_Next_ok tu_ok_def tu_left_def)
  then show "tu_ok it' \<and> length (tu_left it') < length (tu_left it)"
    using ok by (auto simp: tu_ok_def tu_left_def)
  have "drop ?o (ti_src it) = drop ?o (take e (ti_src it)) @ drop e (ti_src it)"
    using e(1) by (metis append_take_drop_id drop_drop drop_take le_add_diff_inverse2 less_imp_le)
  then show "tu_left it = tu_Raw u @ tu_left it'" using e by (simp add: tu_left_def)
next
  fix it it' assume "tu_ok it" "TemporalUnitIterator_Next it = (Inr None, it')"
  then show "tu_left it = []"
    by (auto simp: TemporalUnitIterator_Next_ok TemporalUnit_loop_not_None split: if_splits)
next
  fix it assume "tu_ok it" "tu_left it = []"
  then show "TemporalUnitIterator_Next it = (Inr None, it)" by (simp add: TemporalUnitIterator_Next_ok)
next
  fix it b rest
  assume ok: "tu_ok it" and b: "tu_left it = b @ rest" "temporal_unit_piece b" "td_starts rest"
  then obtain d bs where d: "b = d @ concat bs" "obu_piece_td True d" "\<forall>x \<in> set bs. obu_piece_td False x"
    by (auto simp: temporal_unit_piece_def)
  then obtain u where u: "ParseLowOverhead d = Inr (u, length d)" "hd_Type (un_Header u) = TypeTemporalDelimiter"
    by (auto simp: obu_piece_td_def)
  let ?o = "unat (ti_off it)" and ?it = "it\<lparr>ti_off := word_of_nat (unat (ti_off it) + length d)\<rparr>"
  have p: "ParseLowOverhead (drop ?o (ti_src it)) = Inr (u, length d)"
    using ParseLowOverhead_append [OF u(1)] b(1) d(1) by (simp add: tu_left_def)
  have len: "length (ti_src it) - ?o = length d + length (concat bs @ rest)" "2 \<le> length d"
    using arg_cong [OF b(1), of length] d(1) ParseLowOverhead_consumed [OF u(1)] by (simp_all add: tu_left_def)
  then have lt: "?o < length (ti_src it)" "?o + length d \<le> length (ti_src it)" by linarith+
  have dr: "drop (?o + length d) (ti_src it) = concat bs @ rest"
    using b(1) d(1) by (simp add: tu_left_def) (metis add.commute append_eq_conv_conj drop_drop)
  have step: "TemporalUnit_loop ?o True ?o it = TemporalUnit_loop ?o False (?o + length d) ?it"
    using p u(2) lt by (subst TemporalUnit_loop.simps) simp
  from TemporalUnit_loop_complete [of "?o + length d" ?it bs rest ?o] dr d(3) b(3) ok lt(2)
  obtain w it' where "TemporalUnit_loop ?o True ?o it = (Inr (Some w), it')"
      "tu_Raw w = drop ?o (take (?o + length d + length (concat bs)) (ti_src it))"
    unfolding step by (auto simp: tu_ok_def)
  moreover have "drop ?o (take (?o + length d + length (concat bs)) (ti_src it)) = b"
    using b(1) d(1) by (simp add: tu_left_def drop_take add.assoc)
  ultimately show "\<exists>u it'. TemporalUnitIterator_Next it = (Inr (Some u), it') \<and> tu_Raw u = b"
    using ok len by (auto simp: TemporalUnitIterator_Next_ok tu_left_def)
next
  fix bs assume bs: "\<forall>b \<in> set bs. temporal_unit_piece b"
  show "td_starts (concat bs)"
  proof (cases bs)
    case (Cons b cs)
    with bs obtain d xs u where "b = d @ xs" "ParseLowOverhead d = Inr (u, length d)"
        "hd_Type (un_Header u) = TypeTemporalDelimiter"
      by (auto simp: temporal_unit_piece_def obu_piece_td_def)
    then show ?thesis using ParseLowOverhead_append [of d u "length d" "xs @ concat cs"]
      by (auto simp: td_starts_def Cons)
  qed (simp add: td_starts_def)
qed

section \<open>Properties\<close>

lemma header_ok_size [simp]: "header_ok (h\<lparr>hd_HasSizeField := b\<rparr>) = header_ok h"
  "HeaderLen (h\<lparr>hd_HasSizeField := b\<rparr>) = HeaderLen h"
  by (simp_all add: header_ok_def HeaderLen_def)

lemma ParseElement_ok: "ParseElement raw = Inr u \<Longrightarrow> header_ok (un_Header u)"
  by (auto simp: ParseElement_def Let_def split: sum.splits if_splits dest!: ParseHeader_ok)

lemma NormalizeLowOverhead_eq:
  assumes "ParseElement raw = Inr u" "length (un_Raw u) = length raw"
  defines "b \<equiv> obu_bytes ((un_Header u)\<lparr>hd_HasSizeField := True\<rparr>) (un_Payload u)"
  shows "length b \<le> length dst \<Longrightarrow> NormalizeLowOverhead dst raw = (Inr (length b), b @ drop (length b) dst)"
    and "length dst < length b \<Longrightarrow> \<exists>e d. NormalizeLowOverhead dst raw = (Inl e, d)"
proof -
  let ?h = "(un_Header u)\<lparr>hd_HasSizeField := True\<rparr>" and ?p = "un_Payload u"
  let ?l = "leb128 (word_of_nat (length ?p))"
  have ok: "\<not> (hd_Type ?h > 15 \<or> hd_TemporalID ?h > 7 \<or> hd_SpatialID ?h > 3)"
    using ParseElement_ok [OF assms(1)] by (auto simp: header_ok_def not_less)
  note eqs = NormalizeLowOverhead_def assms(1,2) PutHeader_eq in_tail_def PutLEB128_eq go_copy_def
  show "NormalizeLowOverhead dst raw = (Inr (length b), b @ drop (length b) dst)" if "length b \<le> length dst"
    using that ok by (auto simp: eqs b_def obu_bytes_def Let_def min_def ac_simps)
  show "\<exists>e d. NormalizeLowOverhead dst raw = (Inl e, d)" if "length dst < length b"
    using that ok by (auto simp: eqs b_def obu_bytes_def Let_def)
qed

text \<open>
  An OBU header written by \<open>PutHeader\<close> is parsed back by \<open>ParseHeader\<close>, whatever follows it,
  and the bytes behind the header are left alone.
\<close>

theorem PutHeader_ParseHeader:
  assumes "header_ok h" and "HeaderLen h \<le> length dst"
  shows "\<exists>out. PutHeader dst h = (Inr (HeaderLen h), out) \<and> length out = length dst \<and>
    drop (HeaderLen h) out = drop (HeaderLen h) dst \<and> ParseHeader out = Inr (h, HeaderLen h)"
  using assms ParseHeader_header_bytes [OF assms(1), of "drop (HeaderLen h) dst"]
  by (auto simp: PutHeader_eq header_ok_def not_less)

theorem PutHeader_ParseHeader_witness:
  "\<exists>out. PutHeader [0, 0, 7] \<lparr>hd_Type = TypeFrame, hd_Extension = True, hd_HasSizeField = True,
       hd_TemporalID = 2, hd_SpatialID = 1\<rparr> = (Inr 2, out) \<and>
     ParseHeader out = Inr (\<lparr>hd_Type = TypeFrame, hd_Extension = True, hd_HasSizeField = True,
       hd_TemporalID = 2, hd_SpatialID = 1\<rparr>, 2)"
  using PutHeader_ParseHeader [of "\<lparr>hd_Type = TypeFrame, hd_Extension = True, hd_HasSizeField = True,
       hd_TemporalID = 2, hd_SpatialID = 1\<rparr>" "[0, 0, 7]"]
  by (auto simp: header_ok_def HeaderLen_def TypeFrame_def)

text \<open>
  \<open>ParseHeader\<close> accepts only what \<open>PutHeader\<close> writes: an accepted header is in range, and
  writing it again gives the very bytes it was read from.
\<close>

theorem ParseHeader_canonical:
  assumes "ParseHeader src = Inr (h, n)"
  shows "header_ok h \<and> n = HeaderLen h \<and> PutHeader src h = (Inr n, src)"
  using ParseHeader_ok [OF assms] ParseHeader_len_le [OF assms]
  by (auto simp: PutHeader_eq header_ok_def not_less)

theorem ParseHeader_canonical_witness:
  "PutHeader [0x36, 0x48, 1] \<lparr>hd_Type = 6, hd_Extension = True, hd_HasSizeField = True,
     hd_TemporalID = 2, hd_SpatialID = 1\<rparr> = (Inr 2, [0x36, 0x48, 1])"
  using ParseHeader_canonical [of "[0x36, 0x48, 1]" "\<lparr>hd_Type = 6, hd_Extension = True, hd_HasSizeField = True,
     hd_TemporalID = 2, hd_SpatialID = 1\<rparr>" 2] by (simp add: ParseHeader_def)

text \<open>
  Normalising an OBU element that is one whole unit writes the unit with a size field: the
  result parses as a low-overhead OBU with the same header (size flag set) and payload, is
  exactly as long as the returned count, and normalising it again changes nothing.
\<close>

theorem NormalizeLowOverhead_sound:
  assumes "ParseElement raw = Inr u" "un_Raw u = raw" "length (un_Payload u) < 2 ^ 32"
    and "NormalizeLowOverhead dst raw = (Inr n, out)"
  shows "ParseLowOverhead (take n out) =
      Inr (sized_unit ((un_Header u)\<lparr>hd_HasSizeField := True\<rparr>) (un_Payload u), n) \<and>
    length out = length dst \<and> drop n out = drop n dst \<and>
    NormalizeLowOverhead dst (take n out) = (Inr n, out)"
proof -
  let ?h = "(un_Header u)\<lparr>hd_HasSizeField := True\<rparr>" and ?p = "un_Payload u"
  let ?b = "obu_bytes ?h ?p"
  have h: "header_ok ?h" using ParseElement_ok [OF assms(1)] by simp
  note nf = NormalizeLowOverhead_eq [OF assms(1), of dst, unfolded assms(2), OF refl]
  have fits: "length ?b \<le> length dst" using nf(2) assms(4) by (cases "length dst < length ?b") auto
  then have out: "n = length ?b" "out = ?b @ drop n dst" using nf(1) assms(4) by auto
  have p: "ParseElement ?b = Inr (sized_unit ?h ?p)" "ParseLowOverhead ?b = Inr (sized_unit ?h ?p, length ?b)"
    using ParseElement_obu_bytes [OF h _ assms(3), of "[]"] ParseLowOverhead_obu_bytes [OF h _ assms(3), of "[]"] by simp_all
  have "NormalizeLowOverhead dst ?b = (Inr n, out)"
    using NormalizeLowOverhead_eq(1) [OF p(1), of dst] fits out by (simp add: sized_unit_def)
  then show ?thesis using out fits p(2) by simp
qed

theorem NormalizeLowOverhead_sound_witness:
  "ParseLowOverhead [0x32, 3, 9, 8, 7] = Inr (sized_unit \<lparr>hd_Type = 6, hd_Extension = False,
     hd_HasSizeField = True, hd_TemporalID = 0, hd_SpatialID = 0\<rparr> [9, 8, 7], 5)"
proof -
  have "NormalizeLowOverhead (replicate 6 0) [0x30, 9, 8, 7] = (Inr 5, [0x32, 3, 9, 8, 7, 0])"
    by code_simp
  then show ?thesis
    using NormalizeLowOverhead_sound [of "[0x30, 9, 8, 7]" _ "replicate 6 0" 5 "[0x32, 3, 9, 8, 7, 0]"]
    by (simp add: ParseElement_def ParseHeader_def)
qed

end
