(* ===== verification/Annexb.thy ===== *)
theory Annexb
  imports Obu
begin

text \<open>
  \<open>internal/av1/obu/annexb.go\<close> and \<open>annexb_encode.go\<close>: the nested length-delimited stream format
  of Annex B (temporal units of frame units of OBUs), its iterator, its writers, and the two
  conversions between it and the low-overhead format.
\<close>

section \<open>Iterator\<close>

record AnnexBUnit =
  au_Raw :: bytes
  au_OBU :: Unit
  au_TemporalUnitIndex :: u32
  au_FrameUnitIndex :: u32
  au_OBUIndex :: u32
  au_Offset :: u32

record AnnexBIterator =
  ab_src :: bytes
  ab_off :: u32
  ab_temporalRemain :: u32
  ab_frameRemain :: u32
  ab_temporalIndex :: u32
  ab_frameIndex :: u32
  ab_obuIndex :: u32
  ab_currentTemporal :: u32
  ab_currentFrame :: u32

definition NewAnnexBIterator :: "bytes \<Rightarrow> AnnexBIterator" where
  "NewAnnexBIterator src =
     \<lparr>ab_src = src, ab_off = 0, ab_temporalRemain = 0, ab_frameRemain = 0, ab_temporalIndex = 0,
      ab_frameIndex = 0, ab_obuIndex = 0, ab_currentTemporal = 0, ab_currentFrame = 0\<rparr>"

definition readAnnexBSize :: "bytes \<Rightarrow> go_err + u32 \<times> nat" where
  "readAnnexBSize src = (case ReadLEB128 src of Inl e \<Rightarrow> Inl e | Inr (value, n) \<Rightarrow> Inr (value, n))"

definition ParseAnnexBElement :: "bytes \<Rightarrow> go_err + Unit \<times> nat" where
  "ParseAnnexBElement src =
     (case readAnnexBSize src of
        Inl e \<Rightarrow> Inl e
      | Inr (sz, n) \<Rightarrow>
          if sz = 0 then Inl ObuErrInvalidAnnexB
          else
            let start = n;
                end64 = start + unat sz
            in if end64 > length src then Inl ObuErrShortPayload
               else
                 let raw = drop start (take end64 src)
                 in (case ParseElement raw of
                       Inl e \<Rightarrow> Inl e
                     | Inr unit \<Rightarrow>
                         if length (un_Raw unit) \<noteq> length raw then Inl ObuErrSizeMismatch
                         else Inr (unit, end64)))"

text \<open>The three parts of \<open>Next\<close>: enter a temporal unit, enter a frame unit, read one OBU.\<close>

definition AnnexB_enterTemporal :: "AnnexBIterator \<Rightarrow> (go_err + unit) \<times> AnnexBIterator" where
  "AnnexB_enterTemporal it =
     (if ab_temporalRemain it = 0 then
        case readAnnexBSize (drop (unat (ab_off it)) (ab_src it)) of
          Inl e \<Rightarrow> (Inl e, it)
        | Inr (sz, n) \<Rightarrow>
            if sz = 0 then (Inl ObuErrInvalidAnnexB, it)
            else (Inr (), it\<lparr>ab_off := ab_off it + word_of_nat n, ab_temporalRemain := sz,
                             ab_currentTemporal := ab_temporalIndex it,
                             ab_temporalIndex := ab_temporalIndex it + 1,
                             ab_frameIndex := 0, ab_frameRemain := 0\<rparr>)
      else (Inr (), it))"

definition AnnexB_enterFrame :: "AnnexBIterator \<Rightarrow> (go_err + unit) \<times> AnnexBIterator" where
  "AnnexB_enterFrame it =
     (if ab_frameRemain it = 0 then
        case readAnnexBSize (drop (unat (ab_off it)) (ab_src it)) of
          Inl e \<Rightarrow> (Inl e, it)
        | Inr (sz, n) \<Rightarrow>
            if sz = 0 \<or> n + unat sz > unat (ab_temporalRemain it) then (Inl ObuErrInvalidAnnexB, it)
            else (Inr (), it\<lparr>ab_off := ab_off it + word_of_nat n,
                             ab_temporalRemain := ab_temporalRemain it - word_of_nat n,
                             ab_frameRemain := sz, ab_currentFrame := ab_frameIndex it,
                             ab_frameIndex := ab_frameIndex it + 1, ab_obuIndex := 0\<rparr>)
      else (Inr (), it))"

definition AnnexB_readOBU :: "AnnexBIterator \<Rightarrow> (go_err + AnnexBUnit option) \<times> AnnexBIterator" where
  "AnnexB_readOBU it =
     (case readAnnexBSize (drop (unat (ab_off it)) (ab_src it)) of
        Inl e \<Rightarrow> (Inl e, it)
      | Inr (sz, n) \<Rightarrow>
          if sz = 0 \<or> n + unat sz > unat (ab_frameRemain it) then (Inl ObuErrInvalidAnnexB, it)
          else
            let start = unat (ab_off it) + n;
                it = it\<lparr>ab_off := ab_off it + word_of_nat n,
                        ab_temporalRemain := ab_temporalRemain it - word_of_nat n,
                        ab_frameRemain := ab_frameRemain it - word_of_nat n\<rparr>;
                end64 = start + unat sz
            in if end64 > length (ab_src it) then (Inl ObuErrShortPayload, it)
               else
                 let raw = drop start (take end64 (ab_src it))
                 in (case ParseElement raw of
                       Inl e \<Rightarrow> (Inl e, it)
                     | Inr unit \<Rightarrow>
                         if length (un_Raw unit) \<noteq> length raw then (Inl ObuErrSizeMismatch, it)
                         else (Inr (Some \<lparr>au_Raw = raw, au_OBU = unit,
                                          au_TemporalUnitIndex = ab_currentTemporal it,
                                          au_FrameUnitIndex = ab_currentFrame it,
                                          au_OBUIndex = ab_obuIndex it,
                                          au_Offset = word_of_nat start\<rparr>),
                               it\<lparr>ab_off := word_of_nat end64,
                                  ab_temporalRemain := ab_temporalRemain it - sz,
                                  ab_frameRemain := ab_frameRemain it - sz,
                                  ab_obuIndex := ab_obuIndex it + 1\<rparr>)))"

definition AnnexBIterator_Next :: "AnnexBIterator \<Rightarrow> (go_err + AnnexBUnit option) \<times> AnnexBIterator" where
  "AnnexBIterator_Next it =
     (let srcLen = length (ab_src it)
      in if int srcLen > uint (NOT (0::u32)) then (Inl ObuErrInvalidAnnexB, it)
         else
           let off = unat (ab_off it)
           in if off = srcLen then
                if ab_temporalRemain it \<noteq> 0 \<or> ab_frameRemain it \<noteq> 0 then (Inl ObuErrShortPayload, it)
                else (Inr None, it)
              else if off > srcLen then (Inl ObuErrShortPayload, it)
              else
                case AnnexB_enterTemporal it of
                  (Inl e, it) \<Rightarrow> (Inl e, it)
                | (Inr u, it) \<Rightarrow>
                    (case AnnexB_enterFrame it of
                       (Inl e, it) \<Rightarrow> (Inl e, it)
                     | (Inr u, it) \<Rightarrow> AnnexB_readOBU it))"

section \<open>Writers\<close>

definition AppendAnnexBOBU :: "bytes \<Rightarrow> bytes \<Rightarrow> bytes" where
  "AppendAnnexBOBU dst raw = AppendLEB128 dst (word_of_nat (length raw)) @ raw"

definition annexb_obus_size :: "bytes list \<Rightarrow> nat" where
  "annexb_obus_size obus = foldl (\<lambda>sz ob. sz + (LEB128Len (word_of_nat (length ob)) + length ob)) 0 obus"

definition AppendAnnexBFrameUnit :: "bytes \<Rightarrow> bytes list \<Rightarrow> bytes" where
  "AppendAnnexBFrameUnit dst obus =
     foldl AppendAnnexBOBU (AppendLEB128 dst (word_of_nat (annexb_obus_size obus))) obus"

definition AppendAnnexBTemporalUnit :: "bytes \<Rightarrow> bytes list list \<Rightarrow> bytes" where
  "AppendAnnexBTemporalUnit dst frameUnits =
     (let tuSize = foldl (\<lambda>sz fu. let fuSize = annexb_obus_size fu
                                  in sz + (LEB128Len (word_of_nat fuSize) + fuSize)) 0 frameUnits
      in foldl AppendAnnexBFrameUnit (AppendLEB128 dst (word_of_nat tuSize)) frameUnits)"

section \<open>Conversions\<close>

text \<open>The closure \<open>frameUnitEmitSize\<close> of \<open>LowOverheadToAnnexB\<close>: its walk of \<open>src[subOff:end]\<close>.\<close>

lemma ParseHeader_ok_pos: "ParseHeader src = Inr (h, n) \<Longrightarrow> 0 < n"
  by (auto simp: ParseHeader_def Let_def split: if_splits)

function frameUnitEmitSize_loop :: "bytes \<Rightarrow> nat \<Rightarrow> nat \<Rightarrow> nat \<Rightarrow> go_err + nat" where
  "frameUnitEmitSize_loop src end' emit subOff =
     (if subOff < end' then
        case ParseHeader (drop subOff (take end' src)) of
          Inl e \<Rightarrow> Inl e
        | Inr (h, hLen) \<Rightarrow>
            if \<not> hd_HasSizeField h then Inl ObuErrMissingSizeField
            else
              (case ReadLEB128 (drop (subOff + hLen) (take end' src)) of
                 Inl e \<Rightarrow> Inl e
               | Inr (sz, sLen) \<Rightarrow>
                   let obuLen = hLen + sLen + unat sz
                   in if obuLen \<le> 0 \<or> subOff + obuLen > end' then Inl ObuErrShortPayload
                      else frameUnitEmitSize_loop src end'
                             (emit + (LEB128Len (word_of_nat obuLen) + obuLen)) (subOff + obuLen))
      else if subOff \<noteq> end' then Inl ObuErrSizeMismatch
      else Inr emit)"
  by pat_completeness auto
termination
  by (relation "measure (\<lambda>(src, end', emit, subOff). end' - subOff)") (auto dest!: ParseHeader_ok_pos)

declare frameUnitEmitSize_loop.simps [simp del]

definition frameUnitEmitSize :: "bytes \<Rightarrow> nat \<times> nat \<Rightarrow> go_err + nat" where
  "frameUnitEmitSize src fr = frameUnitEmitSize_loop src (snd fr) 0 (fst fr)"

text \<open>
  The emission walk of the closure \<open>emitTU\<close>, which drops the errors of its two calls: the zero
  values they return are what a failing call would leave. A walk that does not move would not
  end; \<open>None\<close> stands for it.
\<close>

function emitFrame_loop :: "bytes \<Rightarrow> nat \<Rightarrow> bytes \<Rightarrow> nat \<Rightarrow> bytes option" where
  "emitFrame_loop src end' dst subOff =
     (if subOff < end' then
        let hLen = (case ParseHeader (drop subOff (take end' src)) of Inl e \<Rightarrow> 0 | Inr (h, hLen) \<Rightarrow> hLen);
            (sz, sLen) = (case ReadLEB128 (drop (subOff + hLen) (take end' src)) of Inl e \<Rightarrow> (0, 0) | Inr p \<Rightarrow> p);
            obuLen = hLen + sLen + unat sz
        in if obuLen = 0 then None
           else emitFrame_loop src end' (AppendAnnexBOBU dst (drop subOff (take (subOff + obuLen) src))) (subOff + obuLen)
      else Some dst)"
  by pat_completeness auto
termination
  by (relation "measure (\<lambda>(src, end', dst, subOff). end' - subOff)") auto

declare emitFrame_loop.simps [simp del]

fun emitTU_size :: "bytes \<Rightarrow> (nat \<times> nat) list \<Rightarrow> nat \<Rightarrow> go_err + nat" where
  "emitTU_size src [] tuSize = Inr tuSize"
| "emitTU_size src (fr # frs) tuSize =
     (case frameUnitEmitSize src fr of
        Inl e \<Rightarrow> Inl e
      | Inr emit \<Rightarrow> emitTU_size src frs (tuSize + (LEB128Len (word_of_nat emit) + emit)))"

fun emitTU_frames :: "bytes \<Rightarrow> (nat \<times> nat) list \<Rightarrow> bytes \<Rightarrow> bytes option" where
  "emitTU_frames src [] dst = Some dst"
| "emitTU_frames src (fr # frs) dst =
     (let emit = (case frameUnitEmitSize src fr of Inl e \<Rightarrow> 0 | Inr n \<Rightarrow> n)
      in case emitFrame_loop src (snd fr) (AppendLEB128 dst (word_of_nat emit)) (fst fr) of
           None \<Rightarrow> None
         | Some dst \<Rightarrow> emitTU_frames src frs dst)"

text \<open>
  The variables that \<open>LowOverheadToAnnexB\<close> shares with its closures. \<open>tuFrameStart\<close> is an index
  into \<open>scratch\<close>; \<open>curFrameStart\<close> is \<open>-1\<close> between frame units. The \<open>Start\<close> and \<open>End\<close> of an
  \<open>AnnexBFrameSpan\<close> are a pair.
\<close>

record AnnexBConv =
  cv_dst :: bytes
  cv_scratch :: "(nat \<times> nat) list"
  cv_off :: nat
  cv_curFrameStart :: int
  cv_tuFrameStart :: nat

definition emitTU :: "bytes \<Rightarrow> AnnexBConv \<Rightarrow> (go_err option \<times> AnnexBConv) option" where
  "emitTU src c =
     (if cv_tuFrameStart c = length (cv_scratch c) then Some (None, c)
      else
        let frs = drop (cv_tuFrameStart c) (cv_scratch c)
        in case emitTU_size src frs 0 of
             Inl e \<Rightarrow> Some (Some e, c)
           | Inr tuSize \<Rightarrow>
               (case emitTU_frames src frs (AppendLEB128 (cv_dst c) (word_of_nat tuSize)) of
                  None \<Rightarrow> None
                | Some dst \<Rightarrow> Some (None, c\<lparr>cv_dst := dst,
                                            cv_scratch := take (cv_tuFrameStart c) (cv_scratch c)\<rparr>)))"

definition closeFrame :: "nat \<Rightarrow> AnnexBConv \<Rightarrow> AnnexBConv" where
  "closeFrame end' c =
     (if cv_curFrameStart c < 0 then c
      else c\<lparr>cv_scratch := cv_scratch c @ [(nat (cv_curFrameStart c), end')], cv_curFrameStart := -1\<rparr>)"

text \<open>One round of the main loop for a unit that starts at \<open>start\<close>.\<close>

definition LowOverheadToAnnexB_unit :: "bytes \<Rightarrow> nat \<Rightarrow> Unit \<Rightarrow> AnnexBConv \<Rightarrow> (go_err option \<times> AnnexBConv) option" where
  "LowOverheadToAnnexB_unit src start unit c =
     (let t = hd_Type (un_Header unit)
      in if t = TypeTemporalDelimiter then
           (case emitTU src (closeFrame start c) of
              None \<Rightarrow> None
            | Some (Some e, c) \<Rightarrow> Some (Some e, c)
            | Some (None, c) \<Rightarrow> Some (None, c\<lparr>cv_tuFrameStart := length (cv_scratch c), cv_curFrameStart := int start\<rparr>))
         else if t = TypeFrameHeader \<or> t = TypeFrame \<or> t = TypeRedundantFrameHeader then
           if cv_curFrameStart c < 0 then Some (None, c\<lparr>cv_curFrameStart := int start\<rparr>)
           else Some (None, (closeFrame start c)\<lparr>cv_curFrameStart := int start\<rparr>)
         else if cv_curFrameStart c < 0 then Some (None, c\<lparr>cv_curFrameStart := int start\<rparr>)
         else Some (None, c))"

text \<open>
  The main loop; fuel bounds its rounds, one per OBU. \<open>None\<close> is out of fuel (or a walk that does
  not end), the pair is the extended \<open>dst\<close> with the error.
\<close>

fun LowOverheadToAnnexB_loop ::
  "nat \<Rightarrow> bytes \<Rightarrow> LowOverheadIterator \<Rightarrow> AnnexBConv \<Rightarrow> (bytes \<times> go_err option) option" where
  "LowOverheadToAnnexB_loop 0 src it c = None"
| "LowOverheadToAnnexB_loop (Suc fuel) src it c =
     (case LowOverheadIterator_Next it of
        (Inl e, it) \<Rightarrow> Some (cv_dst c, Some e)
      | (Inr None, it) \<Rightarrow>
          (case emitTU src (closeFrame (cv_off c) c) of
             None \<Rightarrow> None
           | Some (e, c) \<Rightarrow> Some (cv_dst c, e))
      | (Inr (Some unit), it) \<Rightarrow>
          (case LowOverheadToAnnexB_unit src (cv_off c) unit (c\<lparr>cv_off := cv_off c + length (un_Raw unit)\<rparr>) of
             None \<Rightarrow> None
           | Some (Some e, c) \<Rightarrow> Some (cv_dst c, Some e)
           | Some (None, c) \<Rightarrow> LowOverheadToAnnexB_loop fuel src it c))"

definition LowOverheadToAnnexB :: "bytes \<Rightarrow> bytes \<Rightarrow> (bytes \<times> go_err option) option" where
  "LowOverheadToAnnexB dst src =
     LowOverheadToAnnexB_loop (length src + 1) src (NewLowOverheadIterator src)
       \<lparr>cv_dst = dst, cv_scratch = [], cv_off = 0, cv_curFrameStart = -1, cv_tuFrameStart = 0\<rparr>"

text \<open>One unit of \<open>AnnexBToLowOverhead\<close>, and its loop.\<close>

definition AnnexBToLowOverhead_unit :: "bytes \<Rightarrow> AnnexBUnit \<Rightarrow> bytes \<times> go_err option" where
  "AnnexBToLowOverhead_unit dst unit =
     (let header = un_Header (au_OBU unit)
      in if hd_HasSizeField header then (dst @ au_Raw unit, None)
         else
           let header = header\<lparr>hd_HasSizeField := True\<rparr>
           in (case PutHeader (replicate 2 0) header of
                 (Inl e, hdrBuf) \<Rightarrow> (dst, Some e)
               | (Inr hLen, hdrBuf) \<Rightarrow>
                   let payload = un_Payload (au_OBU unit)
                   in (AppendLEB128 (dst @ take hLen hdrBuf) (word_of_nat (length payload)) @ payload, None)))"

fun AnnexBToLowOverhead_loop :: "nat \<Rightarrow> bytes \<Rightarrow> AnnexBIterator \<Rightarrow> (bytes \<times> go_err option) option" where
  "AnnexBToLowOverhead_loop 0 dst it = None"
| "AnnexBToLowOverhead_loop (Suc fuel) dst it =
     (case AnnexBIterator_Next it of
        (Inl e, it) \<Rightarrow> Some (dst, Some e)
      | (Inr None, it) \<Rightarrow> Some (dst, None)
      | (Inr (Some unit), it) \<Rightarrow>
          (case AnnexBToLowOverhead_unit dst unit of
             (dst, Some e) \<Rightarrow> Some (dst, Some e)
           | (dst, None) \<Rightarrow> AnnexBToLowOverhead_loop fuel dst it))"

definition AnnexBToLowOverhead :: "bytes \<Rightarrow> bytes \<Rightarrow> (bytes \<times> go_err option) option" where
  "AnnexBToLowOverhead dst src = AnnexBToLowOverhead_loop (length src + 1) dst (NewAnnexBIterator src)"

section \<open>The iterator stays inside its source\<close>

definition ab_ok :: "AnnexBIterator \<Rightarrow> bool" where
  "ab_ok it \<longleftrightarrow> length (ab_src it) < 2 ^ 32 \<and> unat (ab_off it) \<le> length (ab_src it) \<and>
     ab_frameRemain it \<le> ab_temporalRemain it"

definition ab_left :: "AnnexBIterator \<Rightarrow> bytes" where
  "ab_left it = drop (unat (ab_off it)) (ab_src it)"

lemma unat_add_of_nat: "unat (a :: u32) + n < 2 ^ 32 \<Longrightarrow> unat (a + word_of_nat n) = unat a + n"
  by (simp add: unat_word_ariths unat_of_nat)

lemma unat_diff_of_nat: "n \<le> unat (a :: u32) \<Longrightarrow> unat (a - word_of_nat n) = unat a - n"
proof -
  assume n: "n \<le> unat a"
  then have "n < 2 ^ 32" using unsigned_less [of a, where 'a = nat] by simp
  then have "unat (word_of_nat n :: u32) = n" by (rule unat_of_nat_u32)
  then show ?thesis using n by (simp add: unat_sub word_le_nat_alt)
qed

lemma drop_prefix: "drop n xs = a @ b \<Longrightarrow> drop (n + length a) xs = b"
proof -
  assume "drop n xs = a @ b"
  then have "drop (length a) (drop n xs) = b" by simp
  then show ?thesis by (simp add: add.commute)
qed

lemma readAnnexBSize_eq [simp]: "readAnnexBSize = ReadLEB128"
  by (rule ext) (simp add: readAnnexBSize_def split: sum.splits prod.splits)

lemma AnnexB_enterTemporal_ok:
  assumes "ab_ok it" "AnnexB_enterTemporal it = (Inr u, it')"
  shows "ab_ok it' \<and> length (ab_left it') \<le> length (ab_left it)"
proof (cases "ab_temporalRemain it = 0")
  case True
  with assms(2) obtain sz n where r: "ReadLEB128 (ab_left it) = Inr (sz, n)" and
    it': "it' = it\<lparr>ab_off := ab_off it + word_of_nat n, ab_temporalRemain := sz, ab_currentTemporal := ab_temporalIndex it,
        ab_temporalIndex := ab_temporalIndex it + 1, ab_frameIndex := 0, ab_frameRemain := 0\<rparr>"
    by (auto simp: AnnexB_enterTemporal_def ab_left_def split: sum.splits if_splits)
  have "n \<le> length (ab_left it)" using ReadLEB128_ok_bounds [OF r] by simp
  then have "unat (ab_off it + word_of_nat n) = unat (ab_off it) + n" "unat (ab_off it) + n \<le> length (ab_src it)"
    using assms(1) by (auto simp: ab_ok_def ab_left_def intro!: unat_add_of_nat)
  then show ?thesis using assms(1) by (simp add: ab_ok_def ab_left_def it')
qed (use assms in \<open>simp add: AnnexB_enterTemporal_def\<close>)

lemma AnnexB_enterFrame_ok:
  assumes "ab_ok it" "AnnexB_enterFrame it = (Inr u, it')"
  shows "ab_ok it' \<and> length (ab_left it') \<le> length (ab_left it)"
proof (cases "ab_frameRemain it = 0")
  case True
  with assms(2) obtain sz n where r: "ReadLEB128 (ab_left it) = Inr (sz, n)" and
    le: "n + unat sz \<le> unat (ab_temporalRemain it)" and
    it': "it' = it\<lparr>ab_off := ab_off it + word_of_nat n, ab_temporalRemain := ab_temporalRemain it - word_of_nat n,
        ab_frameRemain := sz, ab_currentFrame := ab_frameIndex it,
        ab_frameIndex := ab_frameIndex it + 1, ab_obuIndex := 0\<rparr>"
    by (auto simp: AnnexB_enterFrame_def ab_left_def split: sum.splits if_splits)
  have "n \<le> length (ab_left it)" using ReadLEB128_ok_bounds [OF r] by simp
  then have "unat (ab_off it + word_of_nat n) = unat (ab_off it) + n" "unat (ab_off it) + n \<le> length (ab_src it)"
    using assms(1) by (auto simp: ab_ok_def ab_left_def intro!: unat_add_of_nat)
  moreover have "sz \<le> ab_temporalRemain it - word_of_nat n"
    using le by (simp add: word_le_nat_alt unat_diff_of_nat)
  ultimately show ?thesis using assms(1) by (simp add: ab_ok_def ab_left_def it')
qed (use assms in \<open>simp add: AnnexB_enterFrame_def\<close>)

lemma AnnexB_readOBU_ok:
  assumes "ab_ok it" "AnnexB_readOBU it = (Inr (Some u), it')"
  shows "ab_ok it' \<and> length (ab_left it') < length (ab_left it) \<and> ParseElement (au_Raw u) = Inr (au_OBU u) \<and>
    length (un_Raw (au_OBU u)) = length (au_Raw u)"
proof -
  from assms(2) obtain sz n where r: "ReadLEB128 (ab_left it) = Inr (sz, n)" and
    le: "n + unat sz \<le> unat (ab_frameRemain it)" and e: "unat (ab_off it) + n + unat sz \<le> length (ab_src it)" and
    it': "it' = it\<lparr>ab_off := word_of_nat (unat (ab_off it) + n + unat sz),
        ab_temporalRemain := ab_temporalRemain it - word_of_nat n - sz,
        ab_frameRemain := ab_frameRemain it - word_of_nat n - sz, ab_obuIndex := ab_obuIndex it + 1\<rparr>" and
    u: "ParseElement (au_Raw u) = Inr (au_OBU u)" "length (un_Raw (au_OBU u)) = length (au_Raw u)"
    by (auto simp: AnnexB_readOBU_def ab_left_def Let_def split: sum.splits if_splits)
  have "0 < n" using ReadLEB128_ok_bounds [OF r] by simp
  moreover have "unat (word_of_nat (unat (ab_off it) + n + unat sz) :: u32) = unat (ab_off it) + n + unat sz"
    using e assms(1) by (intro unat_of_nat_u32) (simp add: ab_ok_def)
  moreover have "ab_frameRemain it - word_of_nat n - sz \<le> ab_temporalRemain it - word_of_nat n - sz"
  proof -
    have *: "unat (a - word_of_nat n - sz) = unat a - n - unat sz" if "n + unat sz \<le> unat a" for a :: u32
    proof -
      have "unat (a - word_of_nat n) = unat a - n" using that by (simp add: unat_diff_of_nat)
      then show ?thesis using that by (simp add: unat_sub word_le_nat_alt)
    qed
    have "unat (ab_frameRemain it) \<le> unat (ab_temporalRemain it)"
      using assms(1) by (simp add: ab_ok_def word_le_nat_alt)
    then show ?thesis using le by (simp add: word_le_nat_alt *)
  qed
  ultimately show ?thesis using assms(1) e u by (simp add: ab_ok_def ab_left_def it')
qed

lemma AnnexBIterator_Next_item:
  assumes "ab_ok it" "AnnexBIterator_Next it = (Inr (Some u), it')"
  shows "ab_ok it' \<and> length (ab_left it') < length (ab_left it)"
proof -
  from assms obtain x it1 y it2 where "AnnexB_enterTemporal it = (Inr x, it1)"
      "AnnexB_enterFrame it1 = (Inr y, it2)" "AnnexB_readOBU it2 = (Inr (Some u), it')"
    by (auto simp: AnnexBIterator_Next_def Let_def split: if_splits prod.splits sum.splits)
  then show ?thesis
    using assms(1) AnnexB_enterTemporal_ok AnnexB_enterFrame_ok AnnexB_readOBU_ok by (meson order_less_le_trans)
qed

lemma AnnexB_readOBU_not_None: "AnnexB_readOBU it \<noteq> (Inr None, it')"
  by (auto simp: AnnexB_readOBU_def Let_def split: sum.splits if_splits)

interpretation annexb: stream_iterator AnnexBIterator_Next ab_left ab_ok
proof unfold_locales
  fix it it' assume "ab_ok it" "AnnexBIterator_Next it = (Inr None, it')"
  then show "ab_left it = []"
    by (auto simp: AnnexBIterator_Next_def ab_left_def Let_def AnnexB_readOBU_not_None
        split: if_splits prod.splits sum.splits)
qed (use AnnexBIterator_Next_item in blast)

section \<open>The stream that the writers produce\<close>

definition ab_obu :: "bytes \<Rightarrow> bytes" where
  "ab_obu raw = leb128 (word_of_nat (length raw)) @ raw"

definition ab_obus :: "bytes list \<Rightarrow> bytes" where
  "ab_obus rs = concat (map ab_obu rs)"

definition ab_frame :: "bytes list \<Rightarrow> bytes" where
  "ab_frame rs = leb128 (word_of_nat (length (ab_obus rs))) @ ab_obus rs"

definition ab_frames :: "bytes list list \<Rightarrow> bytes" where
  "ab_frames fs = concat (map ab_frame fs)"

definition ab_tu :: "bytes list list \<Rightarrow> bytes" where
  "ab_tu fs = leb128 (word_of_nat (length (ab_frames fs))) @ ab_frames fs"

lemma ab_simps [simp]:
  "ab_obus [] = []" "ab_obus (r # rs) = ab_obu r @ ab_obus rs" "ab_obus (rs @ rs') = ab_obus rs @ ab_obus rs'"
  "ab_frames [] = []" "ab_frames (f # fs) = ab_frame f @ ab_frames fs" "ab_frames (fs @ fs') = ab_frames fs @ ab_frames fs'"
  by (simp_all add: ab_obus_def ab_frames_def)

lemma AppendAnnexBOBU_eq: "AppendAnnexBOBU dst raw = dst @ ab_obu raw"
  by (simp add: AppendAnnexBOBU_def ab_obu_def AppendLEB128_append [of dst])

lemma length_ab_obu: "length (ab_obu raw) = LEB128Len (word_of_nat (length raw)) + length raw"
  by (simp add: ab_obu_def LEB128Len_length)

lemma annexb_obus_size_eq: "annexb_obus_size obus = length (ab_obus obus)"
proof -
  have "foldl (\<lambda>sz ob. sz + (LEB128Len (word_of_nat (length ob)) + length ob)) n obus = n + length (ab_obus obus)" for n
    by (induction obus arbitrary: n) (auto simp: length_ab_obu)
  then show ?thesis by (simp add: annexb_obus_size_def)
qed

lemma AppendAnnexBFrameUnit_eq: "AppendAnnexBFrameUnit dst obus = dst @ ab_frame obus"
proof -
  have "foldl AppendAnnexBOBU d obus = d @ ab_obus obus" for d
    by (induction obus arbitrary: d) (auto simp: AppendAnnexBOBU_eq)
  then show ?thesis by (simp add: AppendAnnexBFrameUnit_def annexb_obus_size_eq ab_frame_def AppendLEB128_append [of dst])
qed

lemma AppendAnnexBTemporalUnit_eq: "AppendAnnexBTemporalUnit dst fus = dst @ ab_tu fus"
proof -
  have "foldl AppendAnnexBFrameUnit d fus = d @ ab_frames fus" for d
    by (induction fus arbitrary: d) (auto simp: AppendAnnexBFrameUnit_eq)
  moreover have "foldl (\<lambda>sz fu. let fuSize = annexb_obus_size fu in sz + (LEB128Len (word_of_nat fuSize) + fuSize)) n fus =
      n + length (ab_frames fus)" for n
    by (induction fus arbitrary: n) (auto simp: annexb_obus_size_eq ab_frame_def LEB128Len_length Let_def)
  ultimately show ?thesis by (simp add: AppendAnnexBTemporalUnit_def ab_tu_def AppendLEB128_append [of dst])
qed

text \<open>
  An iterator inside such a stream: \<open>rs\<close> are the OBUs left in the open frame unit, \<open>fs\<close> the frame
  units left in the open temporal unit, \<open>ts\<close> the temporal units left.
\<close>

definition ab_at :: "AnnexBIterator \<Rightarrow> bytes list \<Rightarrow> bytes list list \<Rightarrow> bytes list list list \<Rightarrow> bool" where
  "ab_at it rs fs ts \<longleftrightarrow> length (ab_src it) < 2 ^ 32 \<and> unat (ab_off it) \<le> length (ab_src it) \<and>
     ab_left it = ab_obus rs @ ab_frames fs @ concat (map ab_tu ts) \<and>
     unat (ab_frameRemain it) = length (ab_obus rs) \<and>
     unat (ab_temporalRemain it) = length (ab_obus rs @ ab_frames fs)"

definition raw_ok :: "bytes \<Rightarrow> bool" where
  "raw_ok r \<longleftrightarrow> (\<exists>u. ParseElement r = Inr u \<and> length (un_Raw u) = length r)"

definition tu_ok_parts :: "bytes list list \<Rightarrow> bool" where
  "tu_ok_parts fs \<longleftrightarrow> fs \<noteq> [] \<and> (\<forall>f \<in> set fs. f \<noteq> [] \<and> (\<forall>r \<in> set f. raw_ok r))"

lemma raw_ok_ne: "raw_ok r \<Longrightarrow> r \<noteq> []"
  by (auto simp: raw_ok_def ParseElement_def ParseHeader_def)

lemma ab_obu_ne [simp]: "ab_obu r \<noteq> []"
  unfolding ab_obu_def by (subst leb128_rec) simp

lemma ab_frame_ne: "f \<noteq> [] \<Longrightarrow> ab_obus f \<noteq> []"
  by (cases f) auto

text \<open>Reading a length prefix that stands in front of as many bytes.\<close>

lemma ReadLEB128_length:
  assumes "length b < 2 ^ 32"
  shows "ReadLEB128 (leb128 (word_of_nat (length b)) @ b @ rest) =
      Inr (word_of_nat (length b), length (leb128 (word_of_nat (length b))))"
    and "unat (word_of_nat (length b) :: u32) = length b"
    and "b \<noteq> [] \<Longrightarrow> (word_of_nat (length b) :: u32) \<noteq> 0"
proof -
  show u: "unat (word_of_nat (length b) :: u32) = length b" using assms by (rule unat_of_nat_u32)
  show "(word_of_nat (length b) :: u32) \<noteq> 0" if "b \<noteq> []" using u that by (metis length_0_conv unat_0)
qed (rule ReadLEB128_leb128)

lemma ab_at_enterTemporal:
  assumes "ab_at it [] [] (fs # ts)" "ab_frames fs \<noteq> []"
  shows "\<exists>it'. AnnexB_enterTemporal it = (Inr (), it') \<and> ab_at it' [] fs ts"
proof -
  let ?b = "ab_frames fs" and ?n = "length (leb128 (word_of_nat (length (ab_frames fs))))"
  have left: "ab_left it = leb128 (word_of_nat (length ?b)) @ ?b @ concat (map ab_tu ts)"
    using assms(1) by (simp add: ab_at_def ab_tu_def)
  have len: "unat (ab_off it) + ?n + length ?b \<le> length (ab_src it)" "length (ab_src it) < 2 ^ 32"
    using arg_cong [OF left, of length] assms(1) by (auto simp: ab_left_def ab_at_def)
  then have b: "length ?b < 2 ^ 32" by simp
  have off: "unat (ab_off it + word_of_nat ?n) = unat (ab_off it) + ?n" using len by (intro unat_add_of_nat) simp
  have "ab_temporalRemain it = 0" using assms(1) by (simp add: ab_at_def unat_eq_0)
  moreover have "drop (unat (ab_off it) + ?n) (ab_src it) = ?b @ concat (map ab_tu ts)"
    using left unfolding ab_left_def by (rule drop_prefix)
  ultimately show ?thesis
    using left ReadLEB128_length(1) [OF b, of "concat (map ab_tu ts)"] ReadLEB128_length(2,3) [OF b] assms off len
    by (auto simp: AnnexB_enterTemporal_def ab_left_def [symmetric]) (simp add: ab_at_def ab_left_def)
qed

lemma ab_at_enterFrame:
  assumes "ab_at it [] (f # fs) ts" "f \<noteq> []"
  shows "\<exists>it'. AnnexB_enterFrame it = (Inr (), it') \<and> ab_at it' f fs ts"
proof -
  let ?b = "ab_obus f" and ?n = "length (leb128 (word_of_nat (length (ab_obus f))))"
  let ?rest = "ab_frames fs @ concat (map ab_tu ts)"
  have left: "ab_left it = leb128 (word_of_nat (length ?b)) @ ?b @ ?rest"
    using assms(1) by (simp add: ab_at_def ab_frame_def)
  have len: "unat (ab_off it) + ?n + length ?b \<le> length (ab_src it)" "length (ab_src it) < 2 ^ 32"
    using arg_cong [OF left, of length] assms(1) by (auto simp: ab_left_def ab_at_def)
  then have b: "length ?b < 2 ^ 32" by simp
  have off: "unat (ab_off it + word_of_nat ?n) = unat (ab_off it) + ?n" using len by (intro unat_add_of_nat) simp
  have tr: "unat (ab_temporalRemain it) = ?n + length ?b + length (ab_frames fs)"
    using assms(1) by (simp add: ab_at_def ab_frame_def)
  then have tr': "unat (ab_temporalRemain it - word_of_nat ?n) = length ?b + length (ab_frames fs)"
    by (subst unat_diff_of_nat) auto
  have "ab_frameRemain it = 0" using assms(1) by (simp add: ab_at_def unat_eq_0)
  moreover have "drop (unat (ab_off it) + ?n) (ab_src it) = ?b @ ?rest"
    using left unfolding ab_left_def by (rule drop_prefix)
  ultimately show ?thesis
    using left ReadLEB128_length(1) [OF b, of ?rest] ReadLEB128_length(2,3) [OF b] ab_frame_ne [OF assms(2)] off len tr tr'
    by (auto simp: AnnexB_enterFrame_def ab_left_def [symmetric]) (simp add: ab_at_def ab_left_def)
qed

lemma ab_at_readOBU:
  assumes "ab_at it (r # rs) fs ts" "raw_ok r"
  shows "\<exists>u it'. AnnexB_readOBU it = (Inr (Some u), it') \<and> au_Raw u = r \<and> ab_at it' rs fs ts"
proof -
  let ?n = "length (leb128 (word_of_nat (length r)))" and ?rest = "ab_obus rs @ ab_frames fs @ concat (map ab_tu ts)"
  have left: "ab_left it = leb128 (word_of_nat (length r)) @ r @ ?rest"
    using assms(1) by (simp add: ab_at_def ab_obu_def)
  have len: "unat (ab_off it) + ?n + length r \<le> length (ab_src it)" "length (ab_src it) < 2 ^ 32"
    using arg_cong [OF left, of length] assms(1) by (auto simp: ab_left_def ab_at_def)
  then have r: "length r < 2 ^ 32" by simp
  let ?e = "unat (ab_off it) + ?n + length r"
  have off: "unat (word_of_nat ?e :: u32) = ?e" using len by (intro unat_of_nat_u32) simp
  have fr: "unat (ab_frameRemain it) = ?n + length r + length (ab_obus rs)"
    "unat (ab_temporalRemain it) = ?n + length r + length (ab_obus rs @ ab_frames fs)"
    using assms(1) by (simp_all add: ab_at_def ab_obu_def)
  have sub: "unat (a - word_of_nat ?n - word_of_nat (length r)) = unat a - ?n - length r" if "?n + length r \<le> unat a" for a :: u32
    using that by (subst unat_diff_of_nat; subst unat_diff_of_nat) auto
  have dr: "drop (unat (ab_off it) + ?n) (ab_src it) = r @ ?rest"
    using left unfolding ab_left_def by (rule drop_prefix)
  then have raw: "drop (unat (ab_off it) + ?n) (take ?e (ab_src it)) = r" by (simp add: drop_take)
  have dr': "drop ?e (ab_src it) = ?rest"
    using dr by (rule drop_prefix)
  from assms(2) obtain u where "ParseElement r = Inr u" "length (un_Raw u) = length r" by (auto simp: raw_ok_def)
  then show ?thesis
    using left ReadLEB128_length(1) [OF r, of ?rest] ReadLEB128_length(2,3) [OF r] raw_ok_ne [OF assms(2)] off len fr raw dr' sub
    by (auto simp: AnnexB_readOBU_def ab_left_def [symmetric] Let_def) (simp add: ab_at_def ab_left_def)
qed

lemma ab_at_Next:
  assumes "ab_at it rs fs ts" "\<forall>r \<in> set rs. raw_ok r" "fs \<noteq> [] \<longrightarrow> tu_ok_parts fs" "\<forall>t \<in> set ts. tu_ok_parts t"
  shows "(rs @ concat fs @ concat (concat ts) = [] \<and> AnnexBIterator_Next it = (Inr None, it)) \<or>
    (\<exists>r u it' rs' fs' ts'. rs @ concat fs @ concat (concat ts) = r # rs' @ concat fs' @ concat (concat ts') \<and>
       AnnexBIterator_Next it = (Inr (Some u), it') \<and> au_Raw u = r \<and> ab_at it' rs' fs' ts' \<and>
       (\<forall>r \<in> set rs'. raw_ok r) \<and> (fs' \<noteq> [] \<longrightarrow> tu_ok_parts fs') \<and> (\<forall>t \<in> set ts'. tu_ok_parts t))"
proof -
  have src: "\<not> int (length (ab_src it)) > uint (- 1 :: u32)" and off: "unat (ab_off it) \<le> length (ab_src it)"
    and left: "ab_left it = ab_obus rs @ ab_frames fs @ concat (map ab_tu ts)"
    using assms(1) by (auto simp: ab_at_def uint_not_0_u32)
  have ne: "unat (ab_off it) \<noteq> length (ab_src it)" if "ab_left it \<noteq> []" using that by (auto simp: ab_left_def)
  show ?thesis
  proof (cases rs)
    case (Cons r rs')
    have "ab_left it \<noteq> []" "unat (ab_frameRemain it) \<noteq> 0" "unat (ab_temporalRemain it) \<noteq> 0"
      using assms(1) Cons by (auto simp: ab_at_def)
    then have "AnnexBIterator_Next it = AnnexB_readOBU it"
      using src off ne by (simp add: AnnexBIterator_Next_def Let_def AnnexB_enterTemporal_def AnnexB_enterFrame_def unat_eq_0)
    moreover from ab_at_readOBU [of it r rs' fs ts] assms Cons obtain u it'
      where "AnnexB_readOBU it = (Inr (Some u), it')" "au_Raw u = r" "ab_at it' rs' fs ts" by auto
    ultimately show ?thesis using assms Cons by fastforce
  next
    case rs: Nil
    show ?thesis
    proof (cases fs)
      case (Cons f fs')
      with assms obtain r rs' where f: "f = r # rs'" "raw_ok r" "\<forall>r \<in> set rs'. raw_ok r"
        by (cases f) (auto simp: tu_ok_parts_def)
      have "ab_left it \<noteq> []" "unat (ab_temporalRemain it) \<noteq> 0"
        using assms(1) Cons f rs by (auto simp: ab_at_def ab_frame_def)
      moreover from ab_at_enterFrame [of it f fs' ts] assms(1) rs Cons f obtain it1
        where it1: "AnnexB_enterFrame it = (Inr (), it1)" "ab_at it1 f fs' ts" by auto
      ultimately have "AnnexBIterator_Next it = AnnexB_readOBU it1"
        using src off ne by (simp add: AnnexBIterator_Next_def Let_def AnnexB_enterTemporal_def unat_eq_0)
      moreover from ab_at_readOBU [of it1 r rs' fs' ts] it1 f obtain u it'
        where "AnnexB_readOBU it1 = (Inr (Some u), it')" "au_Raw u = r" "ab_at it' rs' fs' ts" by auto
      moreover have "fs' \<noteq> [] \<longrightarrow> tu_ok_parts fs'" using assms(3) Cons by (auto simp: tu_ok_parts_def)
      ultimately show ?thesis using assms(4) Cons f rs by fastforce
    next
      case fs: Nil
      show ?thesis
      proof (cases ts)
        case Nil
        then have "unat (ab_off it) = length (ab_src it)" "ab_temporalRemain it = 0" "ab_frameRemain it = 0"
          using assms(1) off left rs fs by (auto simp: ab_at_def ab_left_def unat_eq_0)
        then show ?thesis using src rs fs Nil by (simp add: AnnexBIterator_Next_def Let_def)
      next
        case (Cons t ts')
        with assms(4) obtain f fs' r rs' where f: "t = f # fs'" "f = r # rs'" "raw_ok r" "\<forall>r \<in> set rs'. raw_ok r"
            "fs' \<noteq> [] \<longrightarrow> tu_ok_parts fs'"
          by (cases t; cases "hd t") (auto simp: tu_ok_parts_def)
        have tne: "ab_frames t \<noteq> []" using f by (simp add: ab_frame_def)
        then have "ab_left it \<noteq> []" using left rs fs Cons by (simp add: ab_tu_def)
        from ab_at_enterTemporal [of it t ts'] assms(1) rs fs Cons tne obtain it0
          where it0: "AnnexB_enterTemporal it = (Inr (), it0)" "ab_at it0 [] t ts'" by auto
        from ab_at_enterFrame [of it0 f fs' ts'] it0 f obtain it1
          where it1: "AnnexB_enterFrame it0 = (Inr (), it1)" "ab_at it1 f fs' ts'" by auto
        from ab_at_readOBU [of it1 r rs' fs' ts'] it1 f obtain u it'
          where it': "AnnexB_readOBU it1 = (Inr (Some u), it')" "au_Raw u = r" "ab_at it' rs' fs' ts'" by auto
        have "AnnexBIterator_Next it = (Inr (Some u), it')"
          using src off ne \<open>ab_left it \<noteq> []\<close> it0 it1 it' by (simp add: AnnexBIterator_Next_def Let_def)
        then show ?thesis using it' assms(4) Cons f rs fs by fastforce
      qed
    qed
  qed
qed

lemma drain_ab_at:
  assumes "ab_at it rs fs ts" "\<forall>r \<in> set rs. raw_ok r" "fs \<noteq> [] \<longrightarrow> tu_ok_parts fs" "\<forall>t \<in> set ts. tu_ok_parts t"
    and "length (rs @ concat fs @ concat (concat ts)) < fuel"
  shows "\<exists>us. drain AnnexBIterator_Next fuel it = Some (us, None) \<and> map au_Raw us = rs @ concat fs @ concat (concat ts)"
  using assms
proof (induction fuel arbitrary: it rs fs ts)
  case (Suc fuel)
  from ab_at_Next [OF Suc.prems(1-4)] show ?case
  proof (elim disjE exE conjE)
    assume "rs @ concat fs @ concat (concat ts) = []" "AnnexBIterator_Next it = (Inr None, it)"
    then show ?thesis by (simp only: drain.simps) simp
  next
    fix r u it' rs' fs' ts'
    assume e: "rs @ concat fs @ concat (concat ts) = r # rs' @ concat fs' @ concat (concat ts')"
      and n: "AnnexBIterator_Next it = (Inr (Some u), it')" "au_Raw u = r"
      and at: "ab_at it' rs' fs' ts'" "\<forall>r \<in> set rs'. raw_ok r" "fs' \<noteq> [] \<longrightarrow> tu_ok_parts fs'" "\<forall>t \<in> set ts'. tu_ok_parts t"
    from Suc.IH [OF at] Suc.prems(5) obtain us
      where "drain AnnexBIterator_Next fuel it' = Some (us, None)" "map au_Raw us = rs' @ concat fs' @ concat (concat ts')"
      unfolding e by auto
    then show ?thesis using n unfolding e by auto
  qed
qed simp

lemma drain_ab_stream:
  assumes "\<forall>t \<in> set ts. tu_ok_parts t" "length (concat (map ab_tu ts)) < 2 ^ 32"
    and "length (concat (concat ts)) < fuel"
  shows "\<exists>us. drain AnnexBIterator_Next fuel (NewAnnexBIterator (concat (map ab_tu ts))) = Some (us, None) \<and>
    map au_Raw us = concat (concat ts)"
  using drain_ab_at [of "NewAnnexBIterator (concat (map ab_tu ts))" "[]" "[]" ts fuel] assms
  by (simp add: ab_at_def ab_left_def NewAnnexBIterator_def)

lemma AnnexBIterator_item:
  "AnnexBIterator_Next it = (Inr (Some u), it') \<Longrightarrow>
     ParseElement (au_Raw u) = Inr (au_OBU u) \<and> length (un_Raw (au_OBU u)) = length (au_Raw u)"
  by (auto simp: AnnexBIterator_Next_def AnnexB_readOBU_def Let_def split: if_splits prod.splits sum.splits)

text \<open>The low-overhead form of one unit, and the conversion as a map over what the iterator yields.\<close>

definition lo_form :: "Unit \<Rightarrow> bytes \<Rightarrow> bytes" where
  "lo_form u raw =
     (if hd_HasSizeField (un_Header u) then raw
      else obu_bytes ((un_Header u)\<lparr>hd_HasSizeField := True\<rparr>) (un_Payload u))"

lemma AnnexBToLowOverhead_unit_eq:
  assumes "ParseElement (au_Raw u) = Inr (au_OBU u)"
  shows "AnnexBToLowOverhead_unit dst u = (dst @ lo_form (au_OBU u) (au_Raw u), None)"
proof -
  let ?h = "(un_Header (au_OBU u))\<lparr>hd_HasSizeField := True\<rparr>"
  have "\<not> (hd_Type ?h > 15 \<or> hd_TemporalID ?h > 7 \<or> hd_SpatialID ?h > 3)"
    using ParseElement_ok [OF assms] by (auto simp: header_ok_def not_less)
  moreover have "\<not> 2 < HeaderLen ?h" by (simp add: HeaderLen_def)
  ultimately show ?thesis
    by (simp add: AnnexBToLowOverhead_unit_def Let_def PutHeader_eq lo_form_def obu_bytes_def
        AppendLEB128_append [of "dst @ header_bytes ?h"] del: header_ok_size)
qed

lemma AnnexBToLowOverhead_loop_eq:
  "AnnexBToLowOverhead_loop fuel dst it =
     map_option (\<lambda>(us, e). (dst @ concat (map (\<lambda>u. lo_form (au_OBU u) (au_Raw u)) us), e))
       (drain AnnexBIterator_Next fuel it)"
proof (induction fuel arbitrary: dst it)
  case (Suc fuel)
  show ?case
  proof (cases "AnnexBIterator_Next it")
    case (Pair x it')
    then show ?thesis
      using Suc.IH [of _ it'] AnnexBToLowOverhead_unit_eq AnnexBIterator_item [of it _ it']
      by (cases x) (auto split: option.splits)
  qed
qed simp

section \<open>From the low-overhead format to Annex B\<close>

text \<open>A span of the source that is a sequence of whole units.\<close>

definition is_span :: "bytes \<Rightarrow> nat \<times> nat \<Rightarrow> bytes list \<Rightarrow> bool" where
  "is_span src fr f \<longleftrightarrow> fst fr \<le> snd fr \<and> snd fr \<le> length src \<and> drop (fst fr) (take (snd fr) src) = concat f \<and>
     (\<forall>x \<in> set f. obu_piece x)"

lemma obu_piece_parts:
  assumes "obu_piece x"
  obtains h hl sz sl where "\<forall>rest. ParseHeader (x @ rest) = Inr (h, hl)" "hd_HasSizeField h" "hl \<le> length x" "0 < hl"
    "\<forall>rest. ReadLEB128 (drop hl x @ rest) = Inr (sz, sl)" "length x = hl + sl + unat sz"
proof -
  from assms obtain u where u: "ParseLowOverhead x = Inr (u, length x)" by (auto simp: obu_piece_def)
  then obtain h hl where h: "ParseHeader x = Inr (h, hl)" "hd_HasSizeField h"
    by (auto simp: ParseLowOverhead_def split: sum.splits if_splits)
  with u obtain sz sl where l: "ReadLEB128 (drop hl x) = Inr (sz, sl)"
    by (auto simp: ParseLowOverhead_def split: sum.splits if_splits)
  have "length x = hl + sl + unat sz"
    using u h l by (auto simp: ParseLowOverhead_def Let_def split: if_splits)
  with that show ?thesis
    using h l ParseHeader_append [OF h(1)] ReadLEB128_append [OF l] ParseHeader_len_le [OF h(1)] ParseHeader_ok_pos [OF h(1)]
    by blast
qed

lemma span_step:
  assumes "drop a (take b src) = x @ rest" "obu_piece x" "b \<le> length src"
  obtains h hl sz sl where "ParseHeader (drop a (take b src)) = Inr (h, hl)" "hd_HasSizeField h"
    "ReadLEB128 (drop (a + hl) (take b src)) = Inr (sz, sl)" "hl + sl + unat sz = length x" "0 < hl"
    "a < b" "a + length x \<le> b" "drop (a + length x) (take b src) = rest" "drop a (take (a + length x) src) = x"
proof -
  from obu_piece_parts [OF assms(2)] obtain h hl sz sl where p: "\<forall>rest. ParseHeader (x @ rest) = Inr (h, hl)"
      "hd_HasSizeField h" "hl \<le> length x" "0 < hl" "\<forall>rest. ReadLEB128 (drop hl x @ rest) = Inr (sz, sl)"
      "length x = hl + sl + unat sz" .
  have len: "b - a = length x + length rest" using arg_cong [OF assms(1), of length] assms(3) by simp
  have "drop (a + hl) (take b src) = drop hl (x @ rest)" using assms(1) by (metis add.commute drop_drop)
  then have r: "ReadLEB128 (drop (a + hl) (take b src)) = Inr (sz, sl)" using p(3,5) by simp
  have "drop a (take (a + length x) src) = take (length x) (drop a (take b src))"
    using len p(4,6) by (simp add: drop_take min_def)
  then have "drop a (take (a + length x) src) = x" using assms(1) by simp
  moreover have "a < b" "a + length x \<le> b" using len p(4,6) by linarith+
  ultimately show ?thesis
    using that [of h hl sz sl] p r assms(1) drop_prefix [OF assms(1)] by auto
qed

lemma frameUnitEmitSize_loop_span:
  assumes "drop a (take b src) = concat f" "\<forall>x \<in> set f. obu_piece x" "b \<le> length src" "a \<le> b"
  shows "frameUnitEmitSize_loop src b n a = Inr (n + length (ab_obus f))"
  using assms
proof (induction f arbitrary: a n)
  case Nil
  then have "a = b" by simp
  then show ?case by (simp add: frameUnitEmitSize_loop.simps)
next
  case (Cons x f)
  then have dx: "drop a (take b src) = x @ concat f" "obu_piece x" by simp_all
  from span_step [OF dx Cons.prems(3)] obtain h hl sz sl where
    s: "ParseHeader (drop a (take b src)) = Inr (h, hl)" "hd_HasSizeField h"
      "ReadLEB128 (drop (a + hl) (take b src)) = Inr (sz, sl)" "hl + sl + unat sz = length x" "0 < hl"
      "a < b" "a + length x \<le> b" "drop (a + length x) (take b src) = concat f" .
  have "frameUnitEmitSize_loop src b n a = frameUnitEmitSize_loop src b (n + length (ab_obu x)) (a + length x)"
    using s by (subst frameUnitEmitSize_loop.simps) (simp add: Let_def length_ab_obu)
  then show ?case using Cons.IH [OF s(8)] Cons.prems s(7) by simp
qed

lemma emitFrame_loop_span:
  assumes "drop a (take b src) = concat f" "\<forall>x \<in> set f. obu_piece x" "b \<le> length src" "a \<le> b"
  shows "emitFrame_loop src b dst a = Some (dst @ ab_obus f)"
  using assms
proof (induction f arbitrary: a dst)
  case Nil
  then have "a = b" by simp
  then show ?case by (simp add: emitFrame_loop.simps)
next
  case (Cons x f)
  then have dx: "drop a (take b src) = x @ concat f" "obu_piece x" by simp_all
  from span_step [OF dx Cons.prems(3)] obtain h hl sz sl where
    s: "ParseHeader (drop a (take b src)) = Inr (h, hl)" "hd_HasSizeField h"
      "ReadLEB128 (drop (a + hl) (take b src)) = Inr (sz, sl)" "hl + sl + unat sz = length x" "0 < hl"
      "a < b" "a + length x \<le> b" "drop (a + length x) (take b src) = concat f" "drop a (take (a + length x) src) = x" .
  have "emitFrame_loop src b dst a = emitFrame_loop src b (dst @ ab_obu x) (a + length x)"
    using s by (subst emitFrame_loop.simps) (simp add: Let_def AppendAnnexBOBU_eq)
  then show ?case using Cons.IH [OF s(8)] Cons.prems s(7) by simp
qed

lemma frameUnitEmitSize_span: "is_span src fr f \<Longrightarrow> frameUnitEmitSize src fr = Inr (length (ab_obus f))"
  by (auto simp: frameUnitEmitSize_def is_span_def frameUnitEmitSize_loop_span)

lemma emitTU_size_spans:
  "list_all2 (is_span src) frs fs \<Longrightarrow> emitTU_size src frs n = Inr (n + length (ab_frames fs))"
  by (induction frs fs arbitrary: n rule: list_all2_induct)
    (auto simp: frameUnitEmitSize_span ab_frame_def LEB128Len_length)

lemma emitTU_frames_spans:
  "list_all2 (is_span src) frs fs \<Longrightarrow> emitTU_frames src frs dst = Some (dst @ ab_frames fs)"
proof (induction frs fs arbitrary: dst rule: list_all2_induct)
  case (Cons fr frs f fs)
  then have "emitFrame_loop src (snd fr) (AppendLEB128 dst (word_of_nat (length (ab_obus f)))) (fst fr) =
      Some (dst @ ab_frame f)"
    by (subst emitFrame_loop_span [of _ _ _ f]) (auto simp: is_span_def ab_frame_def AppendLEB128_append [of dst])
  then show ?case using Cons by (simp add: frameUnitEmitSize_span Let_def)
qed simp

text \<open>
  The state of the conversion between two units, when the units \<open>done\<close> have been read: \<open>ts\<close> are the
  temporal units written out, \<open>fs\<close> the closed frame units, \<open>g\<close> the units of the open one.
\<close>

definition conv_inv :: "bytes \<Rightarrow> bytes \<Rightarrow> bytes list \<Rightarrow> bytes list list list \<Rightarrow> bytes list list \<Rightarrow> bytes list \<Rightarrow> AnnexBConv \<Rightarrow> bool" where
  "conv_inv dst src done ts fs g c \<longleftrightarrow>
     cv_dst c = dst @ concat (map ab_tu ts) \<and> cv_tuFrameStart c = 0 \<and> list_all2 (is_span src) (cv_scratch c) fs \<and>
     cv_off c \<le> length src \<and> take (cv_off c) src = concat done \<and> done = concat (concat ts) @ concat fs @ g \<and>
     (if cv_curFrameStart c < 0 then g = [] else g \<noteq> [] \<and> is_span src (nat (cv_curFrameStart c), cv_off c) g) \<and>
     (\<forall>t \<in> set ts. t \<noteq> [] \<and> (\<forall>f \<in> set t. f \<noteq> [])) \<and> (\<forall>f \<in> set fs. f \<noteq> []) \<and> (\<forall>x \<in> set done. obu_piece x)"

lemma conv_inv_closeFrame:
  "conv_inv dst src done ts fs g c \<Longrightarrow> \<exists>fs'. conv_inv dst src done ts fs' [] (closeFrame (cv_off c) c)"
  by (cases "cv_curFrameStart c < 0")
    (rule exI [of _ fs], simp add: conv_inv_def closeFrame_def,
      rule exI [of _ "fs @ [g]"], auto simp: conv_inv_def closeFrame_def intro!: list_all2_appendI)

lemma conv_inv_emitTU:
  assumes "conv_inv dst src done ts fs [] c"
  shows "\<exists>ts' c'. emitTU src c = Some (None, c') \<and> conv_inv dst src done ts' [] [] c' \<and> cv_off c' = cv_off c \<and>
    cv_scratch c' = [] \<and> cv_curFrameStart c' = cv_curFrameStart c"
proof (cases "fs = []")
  case True
  then show ?thesis using assms by (intro exI [of _ ts] exI [of _ c]) (simp add: conv_inv_def emitTU_def split: if_splits)
next
  case False
  have sp: "list_all2 (is_span src) (cv_scratch c) fs" and t0: "cv_tuFrameStart c = 0" using assms by (auto simp: conv_inv_def)
  let ?c = "c\<lparr>cv_dst := cv_dst c @ ab_tu fs, cv_scratch := []\<rparr>"
  have "emitTU src c = Some (None, ?c)"
    using sp t0 False by (auto simp: emitTU_def emitTU_size_spans [OF sp] emitTU_frames_spans [OF sp] ab_tu_def
        AppendLEB128_append [of "cv_dst c"] list_all2_lengthD)
  moreover have "conv_inv dst src done (ts @ [fs]) [] [] ?c"
    using assms False by (auto simp: conv_inv_def split: if_splits)
  ultimately show ?thesis by auto
qed

lemma closeFrame_off [simp]:
  "closeFrame n (c\<lparr>cv_off := m\<rparr>) = (closeFrame n c)\<lparr>cv_off := m\<rparr>" "cv_off (closeFrame n c) = cv_off c"
  "cv_curFrameStart (closeFrame n c) < 0"
  by (auto simp: closeFrame_def)

lemma emitTU_off: "emitTU src c = Some (e, c') \<Longrightarrow> emitTU src (c\<lparr>cv_off := m\<rparr>) = Some (e, c'\<lparr>cv_off := m\<rparr>)"
  by (auto simp: emitTU_def Let_def split: if_splits sum.splits option.splits)

lemma next_piece:
  assumes "take n src = concat done" "n \<le> length src" "drop n src = x @ rest" "obu_piece x"
  shows "take (n + length x) src = concat (done @ [x])" "n + length x \<le> length src" "is_span src (n, n + length x) [x]"
proof -
  have "take (n + length x) src = take n src @ take (length x) (drop n src)" by (rule take_add)
  then show t: "take (n + length x) src = concat (done @ [x])" using assms(1,3) by simp
  show le: "n + length x \<le> length src" using arg_cong [OF assms(3), of length] assms(2) by simp
  show "is_span src (n, n + length x) [x]"
    using assms(3,4) le by (simp add: is_span_def drop_take)
qed

lemma conv_inv_open:
  assumes "conv_inv dst src done ts fs [] c" "cv_curFrameStart c < 0" "drop (cv_off c) src = x @ rest" "obu_piece x"
  shows "conv_inv dst src (done @ [x]) ts fs [x] (c\<lparr>cv_off := cv_off c + length x, cv_curFrameStart := int (cv_off c)\<rparr>)"
  using next_piece [of "cv_off c" src "done" x rest] assms by (auto simp: conv_inv_def)

lemma conv_inv_extend:
  assumes "conv_inv dst src done ts fs g c" "\<not> cv_curFrameStart c < 0" "drop (cv_off c) src = x @ rest" "obu_piece x"
  shows "conv_inv dst src (done @ [x]) ts fs (g @ [x]) (c\<lparr>cv_off := cv_off c + length x\<rparr>)"
proof -
  note n = next_piece [of "cv_off c" src "done" x rest, OF _ _ assms(3,4)]
  have "drop a (take (cv_off c + length x) src) = drop a (take (cv_off c) src) @ x" if "a \<le> cv_off c" "cv_off c \<le> length src" for a
    using assms(3) that by (simp add: take_add)
  then show ?thesis using assms(1,2,4) n by (auto simp: conv_inv_def is_span_def)
qed

lemma LowOverheadToAnnexB_unit_inv:
  assumes inv: "conv_inv dst src done ts fs g c" and u: "drop (cv_off c) src = un_Raw u @ rest" "obu_piece (un_Raw u)"
  shows "\<exists>ts' fs' g' c'. LowOverheadToAnnexB_unit src (cv_off c) u (c\<lparr>cv_off := cv_off c + length (un_Raw u)\<rparr>) = Some (None, c') \<and>
    conv_inv dst src (done @ [un_Raw u]) ts' fs' g' c' \<and> cv_off c' = cv_off c + length (un_Raw u)"
proof -
  let ?n = "cv_off c" and ?x = "un_Raw u" and ?t = "hd_Type (un_Header u)"
  let ?c = "c\<lparr>cv_off := ?n + length ?x\<rparr>"
  from conv_inv_closeFrame [OF inv] obtain fs1 where cl: "conv_inv dst src done ts fs1 [] (closeFrame ?n c)" by auto
  have g0: "g = []" if "cv_curFrameStart c < 0" using inv that by (simp add: conv_inv_def)
  consider (td) "?t = TypeTemporalDelimiter"
    | (fresh) "?t \<noteq> TypeTemporalDelimiter" "cv_curFrameStart c < 0"
    | (frame) "?t = TypeFrameHeader \<or> ?t = TypeFrame \<or> ?t = TypeRedundantFrameHeader" "?t \<noteq> TypeTemporalDelimiter"
        "\<not> cv_curFrameStart c < 0"
    | (other) "\<not> (?t = TypeFrameHeader \<or> ?t = TypeFrame \<or> ?t = TypeRedundantFrameHeader)" "?t \<noteq> TypeTemporalDelimiter"
        "\<not> cv_curFrameStart c < 0" by blast
  then show ?thesis
  proof cases
    case td
    from conv_inv_emitTU [OF cl] obtain ts' c' where e: "emitTU src (closeFrame ?n c) = Some (None, c')"
        "conv_inv dst src done ts' [] [] c'" "cv_off c' = ?n" "cv_scratch c' = []" "cv_curFrameStart c' < 0"
      by auto
    have "LowOverheadToAnnexB_unit src ?n u ?c =
        Some (None, c'\<lparr>cv_off := ?n + length ?x, cv_tuFrameStart := 0, cv_curFrameStart := int ?n\<rparr>)"
      using td emitTU_off [OF e(1)] e(4) by (simp add: LowOverheadToAnnexB_unit_def Let_def)
    moreover have "conv_inv dst src (done @ [?x]) ts' [] [?x] (c'\<lparr>cv_off := ?n + length ?x, cv_curFrameStart := int ?n\<rparr>)"
      using conv_inv_open [OF e(2,5) _ u(2)] u(1) e(3) by simp
    then have "conv_inv dst src (done @ [?x]) ts' [] [?x]
        (c'\<lparr>cv_off := ?n + length ?x, cv_tuFrameStart := 0, cv_curFrameStart := int ?n\<rparr>)"
      by (simp add: conv_inv_def)
    ultimately show ?thesis by fastforce
  next
    case fresh
    then have "LowOverheadToAnnexB_unit src ?n u ?c = Some (None, ?c\<lparr>cv_curFrameStart := int ?n\<rparr>)"
      by (simp add: LowOverheadToAnnexB_unit_def Let_def)
    then show ?thesis using conv_inv_open [OF inv [unfolded g0 [OF fresh(2)]] fresh(2) u] by fastforce
  next
    case frame
    then have "LowOverheadToAnnexB_unit src ?n u ?c = Some (None, (closeFrame ?n c)\<lparr>cv_off := ?n + length ?x, cv_curFrameStart := int ?n\<rparr>)"
      by (simp add: LowOverheadToAnnexB_unit_def Let_def)
    then show ?thesis using conv_inv_open [OF cl _ _ u(2)] u(1) by fastforce
  next
    case other
    then have "LowOverheadToAnnexB_unit src ?n u ?c = Some (None, ?c)"
      by (simp add: LowOverheadToAnnexB_unit_def Let_def)
    then show ?thesis using conv_inv_extend [OF inv other(3) u] by fastforce
  qed
qed

lemma LowOverheadIterator_step:
  assumes "lo_ok it" "LowOverheadIterator_Next it = (Inr (Some u), it')"
  shows "lo_src it' = lo_src it \<and> unat (lo_off it') = unat (lo_off it) + length (un_Raw u) \<and> obu_piece (un_Raw u)"
proof -
  from assms obtain k where k: "ParseLowOverhead (lo_left it) = Inr (u, k)"
      and it': "it' = it\<lparr>lo_off := word_of_nat (unat (lo_off it) + k)\<rparr>"
    by (auto simp: LowOverheadIterator_Next_ok split: if_splits sum.splits)
  note c = ParseLowOverhead_consumed [OF k]
  have "unat (word_of_nat (unat (lo_off it) + k) :: u32) = unat (lo_off it) + k"
    using assms(1) c(2) by (intro unat_of_nat_u32) (auto simp: lo_ok_def lo_left_def)
  then show ?thesis using c ParseLowOverhead_Raw [OF k] by (auto simp: it' obu_piece_def)
qed

lemma LowOverheadToAnnexB_loop_inv:
  assumes "conv_inv dst src done ts fs g c" "lo_ok it" "lo_src it = src" "unat (lo_off it) = cv_off c"
    and "length (lo_left it) < fuel"
  shows "\<exists>out e us. LowOverheadToAnnexB_loop fuel src it c = Some (out, e) \<and>
    drain LowOverheadIterator_Next fuel it = Some (us, e) \<and>
    (e = None \<longrightarrow> (\<exists>ts. out = dst @ concat (map ab_tu ts) \<and> concat (concat (concat ts)) = src \<and>
       (\<forall>t \<in> set ts. t \<noteq> [] \<and> (\<forall>f \<in> set t. f \<noteq> [] \<and> (\<forall>x \<in> set f. obu_piece x)))))"
  using assms
proof (induction fuel arbitrary: "done" ts fs g c it)
  case (Suc fuel)
  obtain x it' where n: "LowOverheadIterator_Next it = (x, it')" by (cases "LowOverheadIterator_Next it")
  consider (err) e where "x = Inl e" | (fin) "x = Inr None" | (unit) u where "x = Inr (Some u)"
    by (cases x; cases "projr x") auto
  then show ?case
  proof cases
    case err
    then show ?thesis by (simp add: n)
  next
    case fin
    from conv_inv_closeFrame [OF Suc.prems(1)] conv_inv_emitTU obtain ts' c' where
      e: "emitTU src (closeFrame (cv_off c) c) = Some (None, c')" "conv_inv dst src done ts' [] [] c'" "cv_off c' = cv_off c"
      by fastforce
    have "cv_off c = length src"
      using low_overhead.finished [OF Suc.prems(2)] n fin Suc.prems(2-4) by (auto simp: lo_left_def lo_ok_def)
    then have "src = concat (concat (concat ts'))" using e(2,3) by (simp add: conv_inv_def)
    moreover have "(\<forall>t \<in> set ts'. t \<noteq> [] \<and> (\<forall>f \<in> set t. f \<noteq> [] \<and> (\<forall>x \<in> set f. obu_piece x)))" "cv_dst c' = dst @ concat (map ab_tu ts')"
      using e(2) by (auto simp: conv_inv_def)
    ultimately show ?thesis using e(1) n fin by auto
  next
    case unit
    note st = LowOverheadIterator_step [OF Suc.prems(2) n [unfolded unit]]
    have left: "lo_left it = un_Raw u @ lo_left it'"
      using low_overhead.contiguous [OF Suc.prems(2) n [unfolded unit]] .
    have dr: "drop (cv_off c) src = un_Raw u @ lo_left it'" using left Suc.prems(3,4) by (simp add: lo_left_def)
    from LowOverheadToAnnexB_unit_inv [OF Suc.prems(1) dr] st obtain ts' fs' g' c' where
      c': "LowOverheadToAnnexB_unit src (cv_off c) u (c\<lparr>cv_off := cv_off c + length (un_Raw u)\<rparr>) = Some (None, c')"
        "conv_inv dst src (done @ [un_Raw u]) ts' fs' g' c'" "cv_off c' = cv_off c + length (un_Raw u)"
      by auto
    have "lo_ok it'" "length (lo_left it') < fuel"
      using low_overhead.item [OF Suc.prems(2) n [unfolded unit]] Suc.prems(5) by auto
    from Suc.IH [OF c'(2) this(1) _ _ this(2)] st c' Suc.prems(3,4) show ?thesis
      by (simp add: n unit) (elim exE conjE, simp)
  qed
qed simp

lemma LowOverheadToAnnexB_cases:
  assumes "length src < 2 ^ 32"
  obtains (ok) ts us where "LowOverheadToAnnexB dst src = Some (dst @ concat (map ab_tu ts), None)"
      "drain LowOverheadIterator_Next (length src + 1) (NewLowOverheadIterator src) = Some (us, None)"
      "concat (concat (concat ts)) = src" "\<forall>t \<in> set ts. t \<noteq> [] \<and> (\<forall>f \<in> set t. f \<noteq> [] \<and> (\<forall>x \<in> set f. obu_piece x))"
  | (err) out e us where "LowOverheadToAnnexB dst src = Some (out, Some e)"
      "drain LowOverheadIterator_Next (length src + 1) (NewLowOverheadIterator src) = Some (us, Some e)"
proof -
  let ?c = "\<lparr>cv_dst = dst, cv_scratch = [], cv_off = 0, cv_curFrameStart = -1, cv_tuFrameStart = 0\<rparr>"
  have "conv_inv dst src [] [] [] [] ?c" by (simp add: conv_inv_def)
  from LowOverheadToAnnexB_loop_inv [OF this, of "NewLowOverheadIterator src" "length src + 1"] assms
  obtain out e us where o: "LowOverheadToAnnexB dst src = Some (out, e)"
      "drain LowOverheadIterator_Next (length src + 1) (NewLowOverheadIterator src) = Some (us, e)" and
    r: "e = None \<longrightarrow> (\<exists>ts. out = dst @ concat (map ab_tu ts) \<and> concat (concat (concat ts)) = src \<and>
       (\<forall>t \<in> set ts. t \<noteq> [] \<and> (\<forall>f \<in> set t. f \<noteq> [] \<and> (\<forall>x \<in> set f. obu_piece x))))"
    unfolding LowOverheadToAnnexB_def
    by (auto simp: NewLowOverheadIterator_def lo_ok_def lo_left_def simp del: drain.simps LowOverheadToAnnexB_loop.simps)
  show ?thesis
  proof (cases e)
    case None
    with r o that(1) show ?thesis by blast
  next
    case (Some x)
    with o that(2) show ?thesis by blast
  qed
qed

lemma obu_piece_raw_ok:
  assumes "obu_piece x" obtains u where "ParseElement x = Inr u" "un_Raw u = x" "hd_HasSizeField (un_Header u)"
proof -
  from obu_piece_parts [OF assms] obtain h hl sz sl where p: "\<forall>rest. ParseHeader (x @ rest) = Inr (h, hl)"
      "hd_HasSizeField h" "hl \<le> length x" "0 < hl" "\<forall>rest. ReadLEB128 (drop hl x @ rest) = Inr (sz, sl)"
      "length x = hl + sl + unat sz" .
  then have "ParseHeader x = Inr (h, hl)" "ReadLEB128 (drop hl x) = Inr (sz, sl)" by (metis append_Nil2)+
  with p that show ?thesis by (auto simp: ParseElement_def Let_def)
qed

lemma length_raws_le: "length (concat (concat ts)) \<le> length (concat (map ab_tu ts))"
proof -
  have o: "length rs \<le> length (ab_obus rs)" for rs
  proof (induction rs)
    case (Cons r rs)
    have "0 < length (ab_obu r)" by simp
    with Cons show ?case by (simp del: ab_obu_ne length_greater_0_conv)
  qed simp
  have f: "length (concat fs) \<le> length (ab_frames fs)" for fs
  proof (induction fs)
    case (Cons f fs)
    then show ?case using o [of f] by (simp add: ab_frame_def)
  qed simp
  show ?thesis
  proof (induction ts)
    case (Cons t ts)
    then show ?case using f [of t] by (simp add: ab_tu_def)
  qed simp
qed

section \<open>Properties\<close>

text \<open>
  The Annex B iterator reads back what the Annex B writers nest: for every stream of temporal
  units of frame units of OBUs it returns every OBU, in order, without an error.
\<close>

theorem annexb_write_iterate:
  assumes "\<forall>t \<in> set ts. tu_ok_parts t" "out = foldl AppendAnnexBTemporalUnit [] ts" "length out < 2 ^ 32"
  shows "\<exists>us. drain AnnexBIterator_Next (length out + 1) (NewAnnexBIterator out) = Some (us, None) \<and>
    map au_Raw us = concat (concat ts)"
proof -
  have "foldl AppendAnnexBTemporalUnit d ts = d @ concat (map ab_tu ts)" for d
    by (induction ts arbitrary: d) (auto simp: AppendAnnexBTemporalUnit_eq)
  then have out: "out = concat (map ab_tu ts)" using assms(2) by simp
  have "length (concat (concat ts)) \<le> length out" unfolding out by (rule length_raws_le)
  then show ?thesis using drain_ab_stream [OF assms(1), of "length out + 1"] assms(3) out by auto
qed

theorem annexb_write_iterate_witness:
  "\<exists>us. drain AnnexBIterator_Next 9 (NewAnnexBIterator [7, 3, 2, 0x12, 0, 2, 1, 0x30]) = Some (us, None) \<and>
     map au_Raw us = [[0x12, 0], [0x30]]"
proof -
  let ?ts = "[[[[0x12, 0]], [[0x30]]]] :: bytes list list list" and ?out = "[7, 3, 2, 0x12, 0, 2, 1, 0x30] :: bytes"
  have ok: "ParseElement [0x12, 0] = Inr (sized_unit \<lparr>hd_Type = 2, hd_Extension = False, hd_HasSizeField = True,
      hd_TemporalID = 0, hd_SpatialID = 0\<rparr> [])"
    "ParseElement [0x30] = Inr \<lparr>un_Header = \<lparr>hd_Type = 6, hd_Extension = False, hd_HasSizeField = False,
      hd_TemporalID = 0, hd_SpatialID = 0\<rparr>, un_HeaderLen = 1, un_SizeLen = 0, un_Size = 0, un_Payload = [], un_Raw = [0x30]\<rparr>"
    by code_simp+
  have l: "length (un_Raw (sized_unit \<lparr>hd_Type = 2, hd_Extension = False, hd_HasSizeField = True,
      hd_TemporalID = 0, hd_SpatialID = 0\<rparr> [])) = 2" by code_simp
  have p: "\<forall>t \<in> set ?ts. tu_ok_parts t" using ok l by (simp add: tu_ok_parts_def raw_ok_def)
  have o: "?out = foldl AppendAnnexBTemporalUnit [] ?ts" by code_simp
  have n: "length ?out + 1 = 9" by simp
  from annexb_write_iterate [OF p o, unfolded n] show ?thesis by (simp del: drain.simps)
qed

text \<open>
  C6: a low-overhead stream converted to Annex B and back is the same stream, byte for byte.
\<close>

theorem annexb_conversion_roundtrip:
  assumes "LowOverheadToAnnexB [] src = Some (out, None)" "length src < 2 ^ 32" "length out < 2 ^ 32"
  shows "AnnexBToLowOverhead [] out = Some (src, None)"
proof -
  from assms(1) obtain ts where out: "out = concat (map ab_tu ts)" and src: "concat (concat (concat ts)) = src"
    and ne: "\<forall>t \<in> set ts. t \<noteq> [] \<and> (\<forall>f \<in> set t. f \<noteq> [] \<and> (\<forall>x \<in> set f. obu_piece x))"
    by (cases rule: LowOverheadToAnnexB_cases [OF assms(2), of "[]"]) auto
  have "\<forall>t \<in> set ts. tu_ok_parts t"
    using ne unfolding tu_ok_parts_def raw_ok_def by (metis obu_piece_raw_ok)
  from drain_ab_stream [OF this, of "length out + 1"] assms(3) length_raws_le [of ts] obtain us where
    us: "drain AnnexBIterator_Next (length out + 1) (NewAnnexBIterator out) = Some (us, None)"
      "map au_Raw us = concat (concat ts)" unfolding out by auto
  have "\<forall>u \<in> set us. ParseElement (au_Raw u) = Inr (au_OBU u) \<and> length (un_Raw (au_OBU u)) = length (au_Raw u)"
    by (rule drain_items [OF AnnexBIterator_item us(1)])
  moreover have "\<forall>u \<in> set us. obu_piece (au_Raw u)"
    using us(2) ne by (metis (no_types, lifting) UN_E image_eqI list.set_map set_concat)
  ultimately have "\<forall>u \<in> set us. lo_form (au_OBU u) (au_Raw u) = au_Raw u"
    by (auto simp: lo_form_def elim!: obu_piece_raw_ok)
  then have "map (\<lambda>u. lo_form (au_OBU u) (au_Raw u)) us = concat (concat ts)"
    unfolding us(2) [symmetric] by (intro map_cong refl) simp
  then show ?thesis using us(1) src by (simp add: AnnexBToLowOverhead_def AnnexBToLowOverhead_loop_eq del: drain.simps AnnexBToLowOverhead_loop.simps)
qed

theorem annexb_conversion_roundtrip_witness:
  "AnnexBToLowOverhead [] [9, 3, 2, 0x12, 0, 4, 3, 0x32, 1, 7] = Some ([0x12, 0, 0x32, 1, 7], None)"
proof -
  have "LowOverheadToAnnexB [] [0x12, 0, 0x32, 1, 7] = Some ([9, 3, 2, 0x12, 0, 4, 3, 0x32, 1, 7], None)"
    by code_simp
  from annexb_conversion_roundtrip [OF this] show ?thesis by simp
qed

text \<open>
  C29: the conversion to Annex B always ends: on any source of less than \<open>2 ^ 32\<close> bytes it returns,
  and it fails exactly when the low-overhead iterator finds the source malformed, with its error.
\<close>

theorem LowOverheadToAnnexB_total:
  assumes "length src < 2 ^ 32"
  shows "\<exists>out e us. LowOverheadToAnnexB dst src = Some (out, e) \<and>
    drain LowOverheadIterator_Next (length src + 1) (NewLowOverheadIterator src) = Some (us, e)"
  using LowOverheadToAnnexB_cases [OF assms, of dst] by metis

theorem LowOverheadToAnnexB_total_witness:
  "\<exists>out e us. LowOverheadToAnnexB [] [0x12, 0, 0x32, 9] = Some (out, e) \<and>
     drain LowOverheadIterator_Next 5 (NewLowOverheadIterator [0x12, 0, 0x32, 9]) = Some (us, e)"
proof -
  have n: "length [0x12, 0, 0x32, 9 :: u8] + 1 = 5" by simp
  show ?thesis using LowOverheadToAnnexB_total [of "[0x12, 0, 0x32, 9]" "[]", unfolded n] by (simp del: drain.simps)
qed

end
