(* ===== verification/Ivf.thy ===== *)
theory Ivf
  imports Stream_Iterator
begin

text \<open>
  \<open>internal/av1/ivf\<close>: the IVF container, reader and writer.
\<close>

section \<open>Little-endian integers\<close>

definition le16 :: "bytes \<Rightarrow> u16" where
  "le16 src = ucast (src ! 0) OR push_bit 8 (ucast (src ! 1))"

definition le32 :: "bytes \<Rightarrow> u32" where
  "le32 src = ucast (src ! 0) OR push_bit 8 (ucast (src ! 1)) OR push_bit 16 (ucast (src ! 2)) OR push_bit 24 (ucast (src ! 3))"

definition le64 :: "bytes \<Rightarrow> u64" where
  "le64 src = ucast (le32 src) OR push_bit 32 (ucast (le32 (drop 4 src)))"

section \<open>Reader\<close>

definition FileHeaderSize :: nat where "FileHeaderSize = 32"
definition FrameHeaderSize :: nat where "FrameHeaderSize = 12"

record IvfHeader =
  ih_Version :: u16
  ih_HeaderSize :: u16
  ih_FourCC :: bytes
  ih_Width :: u16
  ih_Height :: u16
  ih_TimebaseNum :: u32
  ih_TimebaseDen :: u32
  ih_FrameCount :: u32
  ih_Unused :: u32

record IvfFrame =
  if_Payload :: bytes
  if_Index :: u32
  if_Offset :: u32
  if_Timestamp :: u64

record IvfIterator =
  ii_src :: bytes
  ii_header :: IvfHeader
  ii_off :: nat
  ii_index :: u32

text \<open>\<open>'D', 'K', 'I', 'F'\<close> and \<open>'A', 'V', '0', '1'\<close>.\<close>

definition ivf_signature :: bytes where "ivf_signature = [0x44, 0x4b, 0x49, 0x46]"
definition ivf_fourcc_av01 :: bytes where "ivf_fourcc_av01 = [0x41, 0x56, 0x30, 0x31]"

definition ivf_ParseHeader :: "bytes \<Rightarrow> go_err + IvfHeader \<times> nat" where
  "ivf_ParseHeader src =
     (if length src < FileHeaderSize then Inl IvfErrShortHeader
      else if src ! 0 \<noteq> ivf_signature ! 0 \<or> src ! 1 \<noteq> ivf_signature ! 1 \<or>
              src ! 2 \<noteq> ivf_signature ! 2 \<or> src ! 3 \<noteq> ivf_signature ! 3 then Inl IvfErrInvalidSignature
      else
        let header = \<lparr>ih_Version = le16 (drop 4 src), ih_HeaderSize = le16 (drop 6 src),
                      ih_FourCC = [src ! 8, src ! 9, src ! 10, src ! 11],
                      ih_Width = le16 (drop 12 src), ih_Height = le16 (drop 14 src),
                      ih_TimebaseNum = le32 (drop 16 src), ih_TimebaseDen = le32 (drop 20 src),
                      ih_FrameCount = le32 (drop 24 src), ih_Unused = le32 (drop 28 src)\<rparr>
        in if ih_HeaderSize header \<noteq> word_of_nat FileHeaderSize \<or> ih_Version header \<noteq> 0 then Inl IvfErrUnsupportedHeader
           else if ih_FourCC header \<noteq> ivf_fourcc_av01 then Inl IvfErrUnsupportedCodec
           else Inr (header, FileHeaderSize))"

definition ivf_NewIterator :: "bytes \<Rightarrow> go_err + IvfIterator" where
  "ivf_NewIterator src =
     (case ivf_ParseHeader src of
        Inl e \<Rightarrow> Inl e
      | Inr (header, n) \<Rightarrow> Inr \<lparr>ii_src = src, ii_header = header, ii_off = n, ii_index = 0\<rparr>)"

definition ivf_Next :: "IvfIterator \<Rightarrow> (go_err + IvfFrame option) \<times> IvfIterator" where
  "ivf_Next it =
     (if ii_off it = length (ii_src it) then (Inr None, it)
      else if length (ii_src it) - ii_off it < FrameHeaderSize then (Inl IvfErrShortFrameHeader, it)
      else
        let offset = ii_off it;
            sz = unat (le32 (drop (ii_off it) (ii_src it)));
            timestamp = le64 (drop (ii_off it + 4) (ii_src it));
            start = ii_off it + FrameHeaderSize;
            end' = start + sz
        in if end' < start \<or> end' > length (ii_src it) then (Inl IvfErrShortFramePayload, it)
           else (Inr (Some \<lparr>if_Payload = drop start (take end' (ii_src it)), if_Index = ii_index it,
                            if_Offset = word_of_nat offset, if_Timestamp = timestamp\<rparr>),
                 it\<lparr>ii_off := end', ii_index := ii_index it + 1\<rparr>))"

section \<open>Writer\<close>

text \<open>The parameters come in the order of the source: denominator before numerator.\<close>

definition AppendFileHeader :: "bytes \<Rightarrow> u16 \<Rightarrow> u16 \<Rightarrow> u32 \<Rightarrow> u32 \<Rightarrow> u32 \<Rightarrow> bytes" where
  "AppendFileHeader dst width height timebaseDen timebaseNum frameCount =
     dst @ ivf_signature @ le_bytes 2 (0 :: u16) @ le_bytes 2 (32 :: u16) @ ivf_fourcc_av01 @
     le_bytes 2 width @ le_bytes 2 height @ le_bytes 4 timebaseDen @ le_bytes 4 timebaseNum @
     le_bytes 4 frameCount @ replicate 4 0"

definition AppendFrame :: "bytes \<Rightarrow> bytes \<Rightarrow> u64 \<Rightarrow> bytes" where
  "AppendFrame dst payload pts = dst @ (le_bytes 4 (word_of_nat (length payload) :: u32) @ le_bytes 8 pts) @ payload"

section \<open>Round trip\<close>

lemma le16_le_bytes: "le16 (le_bytes 2 v @ rest) = v"
  by (rule bit_word_eqI) (auto simp: le16_def nth_append bit_simps)

lemma le32_le_bytes: "le32 (le_bytes 4 v @ rest) = v"
proof (rule bit_word_eqI)
  fix n assume "n < LENGTH(32)"
  then consider "n < 8" | "8 \<le> n" "n < 16" | "16 \<le> n" "n < 24" | "24 \<le> n" "n < 32" by force
  then show "bit (le32 (le_bytes 4 v @ rest)) n = bit v n"
    by cases (auto simp: le32_def nth_append bit_simps)
qed

lemma le_bytes_8: "le_bytes 8 (v :: u64) = le_bytes 4 (ucast v :: u32) @ le_bytes 4 (ucast (drop_bit 32 v) :: u32)"
proof (rule nth_equalityI)
  fix i assume "i < length (le_bytes 8 v)"
  then show "le_bytes 8 v ! i = (le_bytes 4 (ucast v :: u32) @ le_bytes 4 (ucast (drop_bit 32 v) :: u32)) ! i"
  proof (cases "i < 4")
    case False
    with \<open>i < length (le_bytes 8 v)\<close> obtain j where "i = 4 + j" "j < 4" by (auto simp: le_iff_add not_less)
    then show ?thesis by (auto simp: nth_append bit_simps add.assoc intro!: bit_word_eqI)
  qed (auto simp: nth_append bit_simps intro!: bit_word_eqI)
qed simp

lemma le64_le_bytes: "le64 (le_bytes 8 v @ rest) = v"
proof -
  have "le64 (le_bytes 8 v @ rest) = ucast (ucast v :: u32) OR push_bit 32 (ucast (ucast (drop_bit 32 v) :: u32))"
    by (simp add: le64_def le_bytes_8 le32_le_bytes)
  also have "\<dots> = v" by (rule bit_word_eqI) (auto simp: bit_simps)
  finally show ?thesis .
qed

lemma ivf_ParseHeader_AppendFileHeader:
  "ivf_ParseHeader (AppendFileHeader [] w h den num cnt @ rest) =
     Inr (\<lparr>ih_Version = 0, ih_HeaderSize = 32, ih_FourCC = ivf_fourcc_av01, ih_Width = w, ih_Height = h,
           ih_TimebaseNum = den, ih_TimebaseDen = num, ih_FrameCount = cnt, ih_Unused = 0\<rparr>, 32)"
proof -
  let ?s = "AppendFileHeader [] w h den num cnt @ rest"
  have split: "?s = ivf_signature @ le_bytes 2 (0 :: u16) @ le_bytes 2 (32 :: u16) @ ivf_fourcc_av01 @
      le_bytes 2 w @ le_bytes 2 h @ le_bytes 4 den @ le_bytes 4 num @ le_bytes 4 cnt @ le_bytes 4 (0 :: u32) @ rest"
    by (simp add: AppendFileHeader_def le_bytes_def numeral_eq_Suc)
  have n: "length ivf_signature = 4" "length ivf_fourcc_av01 = 4" by (simp_all add: ivf_signature_def ivf_fourcc_av01_def)
  have d: "le16 (drop 4 ?s) = 0" "le16 (drop 6 ?s) = 32" "le16 (drop 12 ?s) = w" "le16 (drop 14 ?s) = h"
      "le32 (drop 16 ?s) = den" "le32 (drop 20 ?s) = num" "le32 (drop 24 ?s) = cnt" "le32 (drop 28 ?s) = 0"
    unfolding split by (simp_all add: n le16_le_bytes le32_le_bytes)
  have i: "?s ! 0 = ivf_signature ! 0" "?s ! 1 = ivf_signature ! 1" "?s ! 2 = ivf_signature ! 2" "?s ! 3 = ivf_signature ! 3"
      "?s ! 8 = ivf_fourcc_av01 ! 0" "?s ! 9 = ivf_fourcc_av01 ! 1" "?s ! 10 = ivf_fourcc_av01 ! 2" "?s ! 11 = ivf_fourcc_av01 ! 3"
    unfolding split by (simp_all add: nth_append n)
  have cc: "[ivf_fourcc_av01 ! 0, ivf_fourcc_av01 ! 1, ivf_fourcc_av01 ! 2, ivf_fourcc_av01 ! 3] = ivf_fourcc_av01"
    by (simp add: ivf_fourcc_av01_def)
  have len: "\<not> length ?s < FileHeaderSize" unfolding split by (simp add: n FileHeaderSize_def)
  show ?thesis unfolding ivf_ParseHeader_def using len by (simp only: d i cc Let_def) (simp add: FileHeaderSize_def)
qed

section \<open>The iterator\<close>

definition ivf_ok :: "IvfIterator \<Rightarrow> bool" where
  "ivf_ok it \<longleftrightarrow> ii_off it \<le> length (ii_src it)"

definition ivf_left :: "IvfIterator \<Rightarrow> bytes" where
  "ivf_left it = drop (ii_off it) (ii_src it)"

text \<open>The frame record that a frame was read from.\<close>

definition ivf_raw :: "IvfFrame \<Rightarrow> bytes" where
  "ivf_raw f = AppendFrame [] (if_Payload f) (if_Timestamp f)"

definition ivf_piece :: "bytes \<Rightarrow> bool" where
  "ivf_piece b \<longleftrightarrow> (\<exists>p t. length p < 2 ^ 32 \<and> b = AppendFrame [] p t)"

lemma le_bytes_le32: "4 \<le> length bs \<Longrightarrow> le_bytes 4 (le32 bs) = take 4 bs"
proof (rule nth_equalityI)
  fix i assume "4 \<le> length bs" "i < length (le_bytes 4 (le32 bs))"
  then have i: "i = 0 \<or> i = 1 \<or> i = 2 \<or> i = 3" "i < 4" by auto
  then show "le_bytes 4 (le32 bs) ! i = take 4 bs ! i"
    by (elim disjE; intro bit_word_eqI) (auto simp: le32_def bit_simps dest: bit_imp_le_length)
qed auto

lemma le_bytes_le64: "8 \<le> length bs \<Longrightarrow> le_bytes 8 (le64 bs) = take 8 bs"
proof -
  assume l: "8 \<le> length bs"
  have "(ucast (le64 bs) :: u32) = le32 bs" "(ucast (drop_bit 32 (le64 bs)) :: u32) = le32 (drop 4 bs)"
    by (rule bit_word_eqI, auto simp: le64_def bit_simps dest: bit_imp_le_length)+
  then show ?thesis using l by (simp add: le_bytes_8 le_bytes_le32 take_add [of 4 4, simplified])
qed

lemma ivf_Next_item:
  assumes "ivf_ok it" "ivf_Next it = (Inr (Some f), it')"
  shows "ivf_ok it' \<and> ivf_left it = ivf_raw f @ ivf_left it'"
proof -
  let ?o = "ii_off it" and ?src = "ii_src it"
  let ?sz = "unat (le32 (drop ?o ?src))"
  from assms have n: "?o + 12 + ?sz \<le> length ?src" "it' = it\<lparr>ii_off := ?o + 12 + ?sz, ii_index := ii_index it + 1\<rparr>"
    and f: "if_Payload f = drop (?o + 12) (take (?o + 12 + ?sz) ?src)" "if_Timestamp f = le64 (drop (?o + 4) ?src)"
    by (auto simp: ivf_Next_def FrameHeaderSize_def Let_def split: if_splits)
  have "length (if_Payload f) = ?sz" using n(1) by (simp add: f)
  then have "ivf_raw f = take 4 (drop ?o ?src) @ take 8 (drop (?o + 4) ?src) @ take ?sz (drop (?o + 12) ?src)"
    using n(1) by (simp add: ivf_raw_def AppendFrame_def f le_bytes_le32 le_bytes_le64 drop_take)
  moreover have "drop ?o ?src = take 4 (drop ?o ?src) @ take 8 (drop (?o + 4) ?src) @ take ?sz (drop (?o + 12) ?src) @ drop (?o + 12 + ?sz) ?src"
  proof -
    have split: "drop n ?src = take a (drop n ?src) @ drop (n + a) ?src" for n a
      by (metis add.commute append_take_drop_id drop_drop)
    have "?o + 4 + 8 = ?o + 12" by simp
    then show ?thesis using split [of ?o 4] split [of "?o + 4" 8] split [of "?o + 12" ?sz] by metis
  qed
  ultimately show ?thesis using n by (simp add: ivf_ok_def ivf_left_def)
qed

interpretation ivf: contiguous_iterator ivf_Next ivf_left ivf_ok ivf_raw ivf_piece "\<lambda>_. True"
proof unfold_locales
  fix it f it' assume a: "ivf_ok it" "ivf_Next it = (Inr (Some f), it')"
  note i = ivf_Next_item [OF a]
  have "ivf_raw f \<noteq> []" by (simp add: ivf_raw_def AppendFrame_def) (metis length_0_conv length_le_bytes zero_neq_numeral)
  then show "ivf_ok it' \<and> length (ivf_left it') < length (ivf_left it)" using i by auto
  show "ivf_left it = ivf_raw f @ ivf_left it'" using i by simp
next
  fix it it' assume "ivf_ok it" "ivf_Next it = (Inr None, it')"
  then show "ivf_left it = []" by (auto simp: ivf_Next_def ivf_left_def Let_def split: if_splits)
next
  fix it assume "ivf_ok it" "ivf_left it = []"
  then show "ivf_Next it = (Inr None, it)" by (simp add: ivf_Next_def ivf_left_def ivf_ok_def)
next
  fix it b rest assume a: "ivf_ok it" "ivf_left it = b @ rest" "ivf_piece b"
  then obtain p t where b: "length p < 2 ^ 32" "b = AppendFrame [] p t" by (auto simp: ivf_piece_def)
  let ?o = "ii_off it" and ?src = "ii_src it"
  have left: "drop ?o ?src = le_bytes 4 (word_of_nat (length p) :: u32) @ le_bytes 8 t @ p @ rest"
    using a(2) b by (simp add: ivf_left_def AppendFrame_def)
  have sz: "le32 (drop ?o ?src) = word_of_nat (length p)" "unat (word_of_nat (length p) :: u32) = length p"
    using left b(1) by (simp_all add: le32_le_bytes unat_of_nat)
  have "drop (?o + 4) ?src = le_bytes 8 t @ p @ rest" "drop (?o + 12) ?src = p @ rest"
    using arg_cong [OF left, of "drop 4"] arg_cong [OF left, of "drop 12"] by (simp_all add: add.commute)
  moreover have "length ?src - ?o = 12 + length p + length rest" using arg_cong [OF left, of length] by simp
  ultimately show "\<exists>u it'. ivf_Next it = (Inr (Some u), it') \<and> ivf_raw u = b"
    using sz b a(1)
    by (simp add: ivf_Next_def FrameHeaderSize_def Let_def ivf_ok_def drop_take ivf_raw_def le64_le_bytes)
qed simp

section \<open>Properties\<close>

text \<open>
  C30: a file written as a header and frames is read back by the iterator: every frame comes out,
  in order, with its payload and timestamp, and no error is reported.
\<close>

theorem ivf_write_read:
  assumes "out = foldl (\<lambda>d (p, t). AppendFrame d p t) (AppendFileHeader [] w h den num cnt) frames"
    and "\<forall>(p, t) \<in> set frames. length p < 2 ^ 32"
  shows "\<exists>it us. ivf_NewIterator out = Inr it \<and> drain ivf_Next (length out + 1) it = Some (us, None) \<and>
    map (\<lambda>f. (if_Payload f, if_Timestamp f)) us = frames"
proof -
  let ?h = "AppendFileHeader [] w h den num cnt" and ?b = "\<lambda>(p, t). AppendFrame [] p t"
  have "foldl (\<lambda>d (p, t). AppendFrame d p t) d frames = d @ concat (map ?b frames)" for d
    by (induction frames arbitrary: d) (auto simp: AppendFrame_def)
  then have out: "out = ?h @ concat (map ?b frames)" using assms(1) by simp
  have len: "length ?h = 32" by (simp add: AppendFileHeader_def ivf_signature_def ivf_fourcc_av01_def)
  from ivf_ParseHeader_AppendFileHeader [of w h den num cnt "concat (map ?b frames)"] out obtain it where
    it: "ivf_NewIterator out = Inr it" "ii_src it = out" "ii_off it = 32"
    by (simp add: ivf_NewIterator_def)
  then have "ivf_ok it" "ivf_left it = concat (map ?b frames)" "length (ivf_left it) < length out + 1"
    using len by (simp_all add: ivf_ok_def ivf_left_def out)
  moreover have "\<forall>b \<in> set (map ?b frames). ivf_piece b" using assms(2) by (auto simp: ivf_piece_def)
  ultimately obtain us where us: "drain ivf_Next (length out + 1) it = Some (us, None)" "map ivf_raw us = map ?b frames"
    using ivf.drain_complete by blast
  have inj: "p = p' \<and> t = t'" if "AppendFrame [] p t = AppendFrame [] p' t'" for p t p' t'
    using that le64_le_bytes [of t "[]"] le64_le_bytes [of t' "[]"] by (auto simp: AppendFrame_def)
  have "map (\<lambda>f. (if_Payload f, if_Timestamp f)) us = frames"
    using us(2)
  proof (induction us arbitrary: frames)
    case (Cons u us)
    then show ?case by (cases frames) (auto simp: ivf_raw_def dest: inj)
  qed simp
  then show ?thesis using it us(1) by blast
qed

theorem ivf_write_read_witness:
  "\<exists>it us. ivf_NewIterator (AppendFrame (AppendFileHeader [] 320 180 30 1 1) [1, 2, 3] 7) = Inr it \<and>
     drain ivf_Next 48 it = Some (us, None) \<and> map (\<lambda>f. (if_Payload f, if_Timestamp f)) us = [([1, 2, 3], 7)]"
proof -
  let ?out = "AppendFrame (AppendFileHeader [] 320 180 30 1 1) [1, 2, 3] 7"
  have n: "length ?out + 1 = 48" by code_simp
  from ivf_write_read [of ?out 320 180 30 1 1 "[([1, 2, 3], 7)]", unfolded n] show ?thesis by (simp del: drain.simps)
qed

text \<open>
  The header that \<open>AppendFileHeader\<close> writes comes back from \<open>ParseHeader\<close> with the dimensions
  and the frame count, but with the numerator and the denominator of the time base exchanged:
  the writer stores the denominator where the reader takes the numerator from.
\<close>

theorem ivf_header_timebase_swapped:
  "\<exists>hdr. ivf_ParseHeader (AppendFileHeader [] w h den num cnt @ rest) = Inr (hdr, FileHeaderSize) \<and>
     ih_Width hdr = w \<and> ih_Height hdr = h \<and> ih_FrameCount hdr = cnt \<and>
     ih_TimebaseNum hdr = den \<and> ih_TimebaseDen hdr = num"
  by (simp add: ivf_ParseHeader_AppendFileHeader FileHeaderSize_def)

end
