(* ===== verification/Bit_Reader.thy ===== *)
theory Bit_Reader
  imports Prelude
begin

text \<open>
  \<open>internal/av1/bitstream/reader.go\<close>: the allocation-free, most-significant-bit-first bit
  reader every header parser runs on. A reader is the byte slice and the number of bits already
  consumed; each method returns its Go result (an error or a value) and the reader as the method
  leaves it, because some methods consume bits before they fail.

  The word-at-a-time fast paths are kept as they are written and shown equal to reading bit by
  bit. \<open>encoding/binary.BigEndian.Uint64\<close> and \<open>math/bits.LeadingZeros\<close> are Go's standard
  library and are written out.
\<close>

section \<open>State\<close>

record reader =
  rd_src :: bytes
  rd_bit :: nat

type_synonym 'a rd = "reader \<Rightarrow> (go_err + 'a) \<times> reader"

definition NewReader :: "bytes \<Rightarrow> reader" where
  "NewReader src = \<lparr>rd_src = src, rd_bit = 0\<rparr>"

definition BitsRead :: "reader \<Rightarrow> nat" where
  "BitsRead r = rd_bit r"

definition BitsRemaining :: "reader \<Rightarrow> int" where
  "BitsRemaining r = int (length (rd_src r)) * 8 - int (rd_bit r)"

definition ByteAligned :: "reader \<Rightarrow> bool" where
  "ByteAligned r \<longleftrightarrow> rd_bit r mod 8 = 0"

text \<open>Sequencing of calls whose error is returned at once: \<open>if err != nil { return err }\<close>.\<close>

definition rret :: "'a \<Rightarrow> 'a rd" where
  "rret v r = (Inr v, r)"

definition rfail :: "go_err \<Rightarrow> 'a rd" where
  "rfail e r = (Inl e, r)"

definition rbind :: "'a rd \<Rightarrow> ('a \<Rightarrow> 'b rd) \<Rightarrow> 'b rd" where
  "rbind m f r = (case m r of (Inl e, r') \<Rightarrow> (Inl e, r') | (Inr v, r') \<Rightarrow> f v r')"

section \<open>Operations\<close>

definition ReadBit :: "u8 rd" where
  "ReadBit r =
     (if rd_bit r \<ge> length (rd_src r) * 8 then (Inl ErrNotEnoughBits, r)
      else let byteIndex = rd_bit r div 8;
               shift = 7 - rd_bit r mod 8
           in (Inr (drop_bit shift (rd_src r ! byteIndex) AND 1),
               r\<lparr>rd_bit := rd_bit r + 1\<rparr>))"

definition ReadBool :: "bool rd" where
  "ReadBool = rbind ReadBit (\<lambda>b. rret (b \<noteq> 0))"

text \<open>\<open>binary.BigEndian.Uint64\<close> on the eight bytes from index \<open>i\<close>.\<close>

definition be64 :: "bytes \<Rightarrow> nat \<Rightarrow> u64" where
  "be64 src i = foldl (\<lambda>v b. push_bit 8 v OR ucast b) 0 (take 8 (drop i src))"

text \<open>The byte loop \<open>for bits >= 8\<close> of \<open>ReadBits\<close>: value, bits left, byte index.\<close>

fun read_bytes_loop :: "bytes \<Rightarrow> nat \<Rightarrow> u64 \<Rightarrow> nat \<Rightarrow> u64 \<times> nat \<times> nat" where
  "read_bytes_loop src byteIndex v bits =
     (if bits \<ge> 8
      then read_bytes_loop src (byteIndex + 1) (push_bit 8 v OR ucast (src ! byteIndex)) (bits - 8)
      else (v, bits, byteIndex))"

declare read_bytes_loop.simps [simp del]

text \<open>The path of \<open>ReadBits\<close> near the end of the source: partial byte, bytes, partial byte.\<close>

definition ReadBits_bytewise :: "bytes \<Rightarrow> nat \<Rightarrow> nat \<Rightarrow> nat \<Rightarrow> u64" where
  "ReadBits_bytewise src byteIndex bitInByte bits =
     (let (v, bits, byteIndex) =
            (if bitInByte \<noteq> 0 then
               let take' = min (8 - bitInByte) bits;
                   shift = 8 - bitInByte - take';
                   msk = push_bit take' 1 - 1
               in (ucast (drop_bit shift (src ! byteIndex) AND msk), bits - take', byteIndex + 1)
             else (0, bits, byteIndex));
          (v, bits, byteIndex) = read_bytes_loop src byteIndex v bits
      in if bits > 0
         then push_bit bits v OR ucast (drop_bit (8 - bits) (src ! byteIndex))
         else v)"

definition ReadBits :: "u8 \<Rightarrow> u64 rd" where
  "ReadBits n r =
     (if n > 64 then (Inl ErrInvalidBitCount, r)
      else if n = 0 then (Inr 0, r)
      else if BitsRemaining r < int (unat n) then (Inl ErrNotEnoughBits, r)
      else
        let bits = unat n;
            byteIndex = rd_bit r div 8;
            bitInByte = rd_bit r mod 8;
            src = rd_src r;
            r' = r\<lparr>rd_bit := rd_bit r + bits\<rparr>
        in
        if bitInByte = 0 \<and> length src - byteIndex \<ge> 8 \<and> n > 56 then
          let v = be64 src byteIndex;
              v = (if n < 64 then drop_bit (64 - unat n) v else v)
          in (Inr v, r')
        else if n \<le> 56 \<and> length src - byteIndex \<ge> 8 then
          let word = push_bit bitInByte (be64 src byteIndex)
          in (Inr (drop_bit (64 - unat n) word), r')
        else if length src - byteIndex \<ge> 9 then
          let word = push_bit bitInByte (be64 src byteIndex)
                       OR ucast (drop_bit (8 - bitInByte) (src ! (byteIndex + 8)))
          in (Inr (drop_bit (64 - unat n) word), r')
        else
          (Inr (ReadBits_bytewise src byteIndex bitInByte bits), r'))"

definition SkipBits :: "int \<Rightarrow> unit rd" where
  "SkipBits n r =
     (if n < 0 then (Inl ErrInvalidBitCount, r)
      else if BitsRemaining r < n then (Inl ErrNotEnoughBits, r)
      else (Inr (), r\<lparr>rd_bit := rd_bit r + nat n\<rparr>))"

text \<open>\<open>bits.LeadingZeros64\<close> and \<open>bits.LeadingZeros8\<close>.\<close>

definition leading_zeros :: "'a::len word \<Rightarrow> nat" where
  "leading_zeros w = length (takeWhile Not (word_bits LENGTH('a) w))"

text \<open>
  \<open>ReadUVLC\<close>: the \<open>for\<close> loop either returns from the function or leaves by \<open>break\<close> with
  \<open>leadingZeros\<close> set. In the fast path the inner \<open>leadingZeros\<close> shadows the outer one.
\<close>

datatype uvlc_exit = UReturn "go_err + u32" | UBreak u8

lemma unat_window_zeros [simp]: "unat (8 - word_of_nat (k mod 8) :: u8) = 8 - k mod 8"
proof -
  have "k mod 8 \<le> 8" by simp
  then have "unat (8 - word_of_nat (k mod 8) :: u8) = unat (word_of_nat (8 - k mod 8) :: u8)"
    by (simp only: of_nat_diff of_nat_numeral)
  then show ?thesis by (simp add: unat_of_nat del: of_nat_diff)
qed

function ReadUVLC_loop :: "u8 \<Rightarrow> reader \<Rightarrow> uvlc_exit \<times> reader" where
  "ReadUVLC_loop leadingZeros r =
     (if rd_bit r \<ge> length (rd_src r) * 8 then (UReturn (Inl ErrNotEnoughBits), r)
      else
        let src = rd_src r;
            byteIndex = rd_bit r div 8;
            bitInByte = rd_bit r mod 8
        in
        if length src - byteIndex \<ge> 8 \<and> (bitInByte = 0 \<or> length src - byteIndex \<ge> 9) then
          let word = be64 src byteIndex;
              word = (if bitInByte \<noteq> 0
                      then push_bit bitInByte word
                             OR ucast (drop_bit (8 - bitInByte) (src ! (byteIndex + 8)))
                      else word);
              zeros = leading_zeros word
          in
          if zeros \<ge> 32 then (UReturn (Inl ErrUVLCOverflow), r\<lparr>rd_bit := rd_bit r + 32\<rparr>)
          else if zeros = 0 then (UReturn (Inr 0), r\<lparr>rd_bit := rd_bit r + 1\<rparr>)
          else
            let suffix = drop_bit (64 - zeros) (push_bit (zeros + 1) word)
            in (UReturn (Inr (ucast (push_bit zeros (1::u64) - 1 + suffix))),
                r\<lparr>rd_bit := rd_bit r + (zeros * 2 + 1)\<rparr>)
        else
          let window = push_bit bitInByte (src ! byteIndex)
          in
          if window = 0 then
            let zeros = word_of_nat (8 - bitInByte)
            in
            if leadingZeros + zeros \<ge> 32
            then (UReturn (Inl ErrUVLCOverflow), r\<lparr>rd_bit := rd_bit r + unat (32 - leadingZeros)\<rparr>)
            else ReadUVLC_loop (leadingZeros + zeros) (r\<lparr>rd_bit := rd_bit r + unat zeros\<rparr>)
          else
            let zeros = word_of_nat (leading_zeros window)
            in
            if leadingZeros + zeros \<ge> 32
            then (UReturn (Inl ErrUVLCOverflow), r\<lparr>rd_bit := rd_bit r + unat (32 - leadingZeros)\<rparr>)
            else (UBreak (leadingZeros + zeros), r\<lparr>rd_bit := rd_bit r + (unat zeros + 1)\<rparr>))"
  by pat_completeness auto
termination
  by (relation "measure (\<lambda>(lz, r). 8 * length (rd_src r) - rd_bit r)") auto

declare ReadUVLC_loop.simps [simp del]

definition ReadUVLC :: "u32 rd" where
  "ReadUVLC r =
     (case ReadUVLC_loop 0 r of
        (UReturn x, r') \<Rightarrow> (x, r')
      | (UBreak leadingZeros, r') \<Rightarrow>
          if leadingZeros = 0 then (Inr 0, r')
          else rbind (ReadBits leadingZeros)
                 (\<lambda>value. rret (ucast (push_bit (unat leadingZeros) (1::u64) - 1 + value))) r')"

text \<open>\<open>ReadTrailingBits\<close>: a one bit, zero bits up to the byte boundary, zero bytes to the end.\<close>

function ReadTrailingBits_align :: "unit rd" where
  "ReadTrailingBits_align r =
     (if ByteAligned r then (Inr (), r)
      else case ReadBit r of
             (Inl e, r') \<Rightarrow> (Inl e, r')
           | (Inr b, r') \<Rightarrow> if b \<noteq> 0 then (Inl ErrInvalidTrailingBits, r')
                          else ReadTrailingBits_align r')"
  by pat_completeness auto
termination
  by (relation "measure (\<lambda>r. 8 * length (rd_src r) - rd_bit r)")
    (auto simp: ReadBit_def Let_def split: if_splits)

declare ReadTrailingBits_align.simps [simp del]

lemma ReadBits_advances:
  "ReadBits n r = (Inr v, r') \<Longrightarrow> r' = r\<lparr>rd_bit := rd_bit r + unat n\<rparr>"
  by (auto simp: ReadBits_def Let_def split: if_splits prod.splits)

function ReadTrailingBits_padding :: "unit rd" where
  "ReadTrailingBits_padding r =
     (if \<not> BitsRemaining r > 0 then (Inr (), r)
      else case ReadBits 8 r of
             (Inl e, r') \<Rightarrow> (Inl e, r')
           | (Inr b, r') \<Rightarrow> if b \<noteq> 0 then (Inl ErrInvalidTrailingBits, r')
                          else ReadTrailingBits_padding r')"
  by pat_completeness auto
termination
  by (relation "measure (\<lambda>r. 8 * length (rd_src r) - rd_bit r)")
    (auto simp: BitsRemaining_def dest!: ReadBits_advances [OF sym])

declare ReadTrailingBits_padding.simps [simp del]

definition ReadTrailingBits :: "unit rd" where
  "ReadTrailingBits =
     rbind ReadBit (\<lambda>one.
       if one \<noteq> 1 then rfail ErrInvalidTrailingBits
       else rbind ReadTrailingBits_align (\<lambda>_. ReadTrailingBits_padding))"

section \<open>The abstract view: the bits that are left\<close>

definition rd_wf :: "reader \<Rightarrow> bool" where
  "rd_wf r \<longleftrightarrow> rd_bit r \<le> 8 * length (rd_src r)"

definition rd_bits :: "reader \<Rightarrow> bits" where
  "rd_bits r = drop (rd_bit r) (stream_bits (rd_src r))"

definition advance :: "nat \<Rightarrow> reader \<Rightarrow> reader" where
  "advance n r = r\<lparr>rd_bit := rd_bit r + n\<rparr>"

lemma length_rd_bits: "length (rd_bits r) = 8 * length (rd_src r) - rd_bit r"
  by (simp add: rd_bits_def)

lemma rd_bits_advance [simp]: "rd_bits (advance n r) = drop n (rd_bits r)"
  by (simp add: rd_bits_def advance_def add.commute)

lemma advance_simps [simp]:
  "rd_src (advance n r) = rd_src r"
  "rd_bit (advance n r) = rd_bit r + n"
  "advance m (advance n r) = advance (n + m) r"
  "advance 0 r = r"
  by (simp_all add: advance_def add.assoc)

lemma rd_wf_advance: "rd_wf r \<Longrightarrow> n \<le> length (rd_bits r) \<Longrightarrow> rd_wf (advance n r)"
  by (simp add: rd_wf_def length_rd_bits)

lemma rd_wf_NewReader [simp]: "rd_wf (NewReader src)"
  by (simp add: rd_wf_def NewReader_def)

lemma rd_bits_NewReader [simp]: "rd_bits (NewReader src) = stream_bits src"
  by (simp add: rd_bits_def NewReader_def)

lemma BitsRemaining_rd_bits: "rd_wf r \<Longrightarrow> BitsRemaining r = int (length (rd_bits r))"
  by (simp add: BitsRemaining_def length_rd_bits rd_wf_def of_nat_diff)

section \<open>Reading single bits\<close>

lemma ReadBit_Nil: "rd_bits r = [] \<Longrightarrow> ReadBit r = (Inl ErrNotEnoughBits, r)"
  using length_rd_bits [of r] by (simp add: ReadBit_def mult.commute)

lemma ReadBit_Cons: "rd_bits r = b # bs \<Longrightarrow> ReadBit r = (Inr (of_bool b), advance 1 r)"
proof -
  assume a: "rd_bits r = b # bs"
  then have l: "rd_bit r < 8 * length (rd_src r)"
    using length_rd_bits [of r] by simp
  have "b = stream_bits (rd_src r) ! rd_bit r"
    using a l by (metis Cons_nth_drop_Suc list.inject length_stream_bits rd_bits_def)
  then have "b = bit (rd_src r ! (rd_bit r div 8)) (7 - rd_bit r mod 8)"
    using l by (simp add: nth_stream_bits)
  moreover have "drop_bit k w AND 1 = (of_bool (bit w k) :: u8)" for k and w :: u8
    by (simp add: and_one_eq bit_iff_odd_drop_bit mod_2_eq_odd)
  ultimately show ?thesis
    using l by (simp add: ReadBit_def Let_def advance_def)
qed

lemma ReadBool_Nil: "rd_bits r = [] \<Longrightarrow> ReadBool r = (Inl ErrNotEnoughBits, r)"
  by (simp add: ReadBool_def rbind_def ReadBit_Nil)

lemma ReadBool_Cons: "rd_bits r = b # bs \<Longrightarrow> ReadBool r = (Inr b, advance 1 r)"
  by (cases b) (simp_all add: ReadBool_def rbind_def ReadBit_Cons rret_def)

section \<open>Reading several bits\<close>

lemma be64_bits: "be64 src i = bits_word (take 64 (drop (8 * i) (stream_bits src)))"
proof -
  have "foldl (\<lambda>v b. push_bit 8 v OR ucast b) (bits_word xs) bs = (bits_word (xs @ stream_bits bs) :: u64)"
    for xs bs
    by (induction bs arbitrary: xs) (simp_all add: bits_word_snoc_byte)
  from this [of "[]" "take 8 (drop i src)"] show ?thesis
    by (simp add: be64_def stream_bits_take stream_bits_drop)
qed

lemma read_bytes_loop_bits:
  "i + bits div 8 \<le> length src \<Longrightarrow>
     read_bytes_loop src i (bits_word xs) bits =
       (bits_word (xs @ take (8 * (bits div 8)) (drop (8 * i) (stream_bits src))), bits mod 8, i + bits div 8)"
proof (induction "bits div 8" arbitrary: i bits xs)
  case 0
  then have "bits < 8" by (simp add: div_eq_0_iff)
  then show ?case by (simp add: read_bytes_loop.simps)
next
  case (Suc k)
  then have b8: "bits \<ge> 8" by (metis div_less nat.distinct(1) not_le)
  have k: "k = (bits - 8) div 8" using Suc.hyps(2) b8 by (simp add: le_div_geq)
  have m: "(bits - 8) mod 8 = bits mod 8" using b8 by (simp add: le_mod_geq)
  have d: "bits div 8 = Suc ((bits - 8) div 8)" using b8 by (simp add: le_div_geq)
  have i: "i < length src" using Suc.prems d by simp
  have t: "byte_bits (src ! i) @ take (8 * ((bits - 8) div 8)) (drop (8 * (i + 1)) (stream_bits src)) =
      take (8 * (bits div 8)) (drop (8 * i) (stream_bits src))"
    using i by (simp add: byte_bits_stream d take_add [of 8 _, symmetric] add.commute flip: drop_drop)
  have "read_bytes_loop src i (bits_word xs) bits =
      read_bytes_loop src (i + 1) (bits_word (xs @ byte_bits (src ! i))) (bits - 8)"
    using b8 by (subst read_bytes_loop.simps) (simp add: bits_word_snoc_byte)
  also have "\<dots> = (bits_word ((xs @ byte_bits (src ! i)) @
      take (8 * ((bits - 8) div 8)) (drop (8 * (i + 1)) (stream_bits src))), (bits - 8) mod 8, i + 1 + (bits - 8) div 8)"
    using Suc.hyps(1) [OF k] Suc.prems d by simp
  finally show ?case using m d t by simp
qed

lemma be64_shifted:
  assumes "i + 8 \<le> length src" and "n + k \<le> 64"
  shows "drop_bit (64 - n) (push_bit k (be64 src i)) = bits_word (take n (drop (8 * i + k) (stream_bits src)))"
proof -
  let ?X = "take 64 (drop (8 * i) (stream_bits src))"
  have "push_bit k (be64 src i) = bits_word (drop k ?X @ replicate k False)"
    using push_bit_bits_word_full [of ?X "replicate k False" k, where 'a = 64] assms
    by (simp add: be64_bits)
  also have "drop_bit (64 - n) \<dots> = bits_word (take n (drop k ?X @ replicate k False))"
    using assms by (subst drop_bit_bits_word) simp_all
  also have "take n (drop k ?X @ replicate k False) = take n (drop (8 * i + k) (stream_bits src))"
    using assms by (simp add: drop_take add.commute)
  finally show ?thesis .
qed

lemma be64_window:
  assumes "i + 9 \<le> length src" and "k < 8"
  shows "push_bit k (be64 src i) OR ucast (drop_bit (8 - k) (src ! (i + 8))) =
    bits_word (take 64 (drop (8 * i + k) (stream_bits src)))"
proof -
  let ?X = "take 64 (drop (8 * i) (stream_bits src))"
  let ?Y = "take k (byte_bits (src ! (i + 8)))"
  have "push_bit k (be64 src i) OR ucast (drop_bit (8 - k) (src ! (i + 8))) = bits_word (drop k ?X @ ?Y)"
    using push_bit_bits_word_full [of ?X ?Y k, where 'a = 64] assms
    by (simp add: be64_bits ucast_drop_bit_byte)
  also have "?Y = take k (drop (64 - k) (drop (8 * i + k) (stream_bits src)))"
    using assms by (simp add: byte_bits_stream add.commute)
  also have "drop k ?X = take (64 - k) (drop (8 * i + k) (stream_bits src))"
    by (simp add: drop_take add.commute)
  also have "take (64 - k) (drop (8 * i + k) (stream_bits src)) @
      take k (drop (64 - k) (drop (8 * i + k) (stream_bits src))) = take 64 (drop (8 * i + k) (stream_bits src))"
    using assms by (subst take_add [symmetric]) simp
  finally show ?thesis .
qed

lemma first_chunk_bits:
  assumes "i < length src" and "k < 8" and "t \<le> 8 - k"
  shows "(ucast (drop_bit (8 - k - t) (src ! i) AND (push_bit t 1 - 1 :: u8)) :: u64) =
    bits_word (take t (drop (8 * i + k) (stream_bits src)))"
proof -
  have m: "2 ^ t - 1 = (mask t :: u8)" by (simp add: mask_eq_exp_minus_1)
  have "(ucast (drop_bit (8 - k - t) (src ! i) AND mask t) :: u64) = bits_word (take t (drop k (byte_bits (src ! i))))"
    using assms by (intro bit_word_eqI) (auto simp: bit_simps bit_bits_word nth_byte_bits)
  then show ?thesis
    using assms by (simp add: m byte_bits_stream drop_take min_def add.commute)
qed

lemma read_tail_bits:
  assumes "8 * j + m \<le> 8 * length src"
  shows "(case read_bytes_loop src j (bits_word xs) m of (v, b, idx) \<Rightarrow>
      if 0 < b then push_bit b v OR ucast (drop_bit (8 - b) (src ! idx)) else v) =
    bits_word (xs @ take m (drop (8 * j) (stream_bits src)))"
proof -
  let ?S = "stream_bits src" and ?b = "m mod 8" and ?idx = "j + m div 8"
  have m: "m = 8 * (m div 8) + ?b" by simp
  have split: "take m (drop (8 * j) ?S) =
      take (8 * (m div 8)) (drop (8 * j) ?S) @ take ?b (drop (8 * ?idx) ?S)"
    by (subst m, subst take_add) (simp add: algebra_simps)
  have loop: "read_bytes_loop src j (bits_word xs) m =
      (bits_word (xs @ take (8 * (m div 8)) (drop (8 * j) ?S)), ?b, ?idx)"
    using assms m by (intro read_bytes_loop_bits) linarith
  show ?thesis
  proof (cases "?b = 0")
    case True
    then show ?thesis using loop split by simp
  next
    case False
    have idx: "?idx < length src" using assms m False by linarith
    have "(ucast (drop_bit (8 - ?b) (src ! ?idx)) :: u64) = bits_word (take ?b (drop (8 * ?idx) ?S))"
      using idx by (simp add: ucast_drop_bit_byte byte_bits_stream)
    moreover have "length (take ?b (drop (8 * ?idx) ?S)) = ?b"
      using idx False by simp
    ultimately show ?thesis
      using loop split False bits_word_append [of "xs @ take (8 * (m div 8)) (drop (8 * j) ?S)"
          "take ?b (drop (8 * ?idx) ?S)", where 'a = 64]
      by simp
  qed
qed

lemma ReadBits_bytewise_bits:
  assumes k8: "k < 8" and N: "0 < N" and fit: "8 * i + k + N \<le> 8 * length src"
  shows "ReadBits_bytewise src i k N = bits_word (take N (drop (8 * i + k) (stream_bits src)))"
proof (cases "k = 0")
  case True
  then show ?thesis using read_tail_bits [of i N src "[]"] fit by (simp add: ReadBits_bytewise_def)
next
  case k0: False
  let ?t = "min (8 - k) N"
  have i: "i < length src" using fit N by simp
  have c: "(ucast (drop_bit (8 - k - ?t) (src ! i) AND (push_bit ?t 1 - 1 :: u8)) :: u64) =
      bits_word (take ?t (drop (8 * i + k) (stream_bits src)))"
    using first_chunk_bits [OF i k8, of ?t] by simp
  have "take N (drop (8 * i + k) (stream_bits src)) =
      take ?t (drop (8 * i + k) (stream_bits src)) @ take (N - ?t) (drop (8 * (i + 1)) (stream_bits src))"
  proof (cases "N \<le> 8 - k")
    case True
    then show ?thesis by (simp add: min_def)
  next
    case False
    then have "8 * (i + 1) = 8 * i + k + ?t" "N = ?t + (N - ?t)" using k8 by (simp_all add: min_def)
    then show ?thesis by (metis (no_types, lifting) add.commute drop_drop take_add)
  qed
  moreover have "8 * (i + 1) + (N - ?t) \<le> 8 * length src"
    using fit i k8 by (auto simp: min_def)
  ultimately show ?thesis
    using read_tail_bits [of "i + 1" "N - ?t" src "take ?t (drop (8 * i + k) (stream_bits src))"] k0 c
    by (simp only: ReadBits_bytewise_def Let_def prod.case if_True simp_thms)
qed

text \<open>
  Every path of \<open>ReadBits\<close> (the aligned and the shifted eight-byte window, the nine-byte window
  and the byte loop) returns the value of the next \<open>n\<close> bits, and it fails without consuming
  anything exactly when \<open>n\<close> is too large or the bits are not there.
\<close>

lemma ReadBits_eq:
  "ReadBits n r =
     (if n > 64 then (Inl ErrInvalidBitCount, r)
      else if length (rd_bits r) < unat n then (Inl ErrNotEnoughBits, r)
      else (Inr (bits_word (take (unat n) (rd_bits r))), advance (unat n) r))"
proof (cases "n = 0 \<or> n > 64 \<or> length (rd_bits r) < unat n")
  case True
  moreover have "BitsRemaining r < int (unat n) \<longleftrightarrow> length (rd_bits r) < unat n" if "n \<noteq> 0"
  proof -
    have "0 < unat n" using that by (simp add: unat_gt_0)
    then show ?thesis unfolding BitsRemaining_def length_rd_bits by linarith
  qed
  ultimately show ?thesis by (auto simp: ReadBits_def)
next
  case False
  define i k N where "i = rd_bit r div 8" and "k = rd_bit r mod 8" and "N = unat n"
  let ?src = "rd_src r" and ?S = "stream_bits (rd_src r)"
  have bit: "rd_bit r = 8 * i + k" and k8: "k < 8" by (simp_all add: i_def k_def)
  have N: "0 < N" "N \<le> 64" using False by (auto simp: N_def word_less_nat_alt unat_gt_0)
  have "\<not> length (rd_bits r) < N" using False by (simp add: N_def)
  then have fit: "8 * i + k + N \<le> 8 * length ?src"
    using N bit unfolding length_rd_bits by linarith
  have n56: "n > 56 \<longleftrightarrow> N > 56" "n \<le> 56 \<longleftrightarrow> N \<le> 56" "n < 64 \<longleftrightarrow> N < 64"
    by (simp_all add: N_def word_less_nat_alt word_le_nat_alt)
  have rem: "\<not> BitsRemaining r < int N" "\<not> n > 64" "n \<noteq> 0"
    using False fit bit by (auto simp: BitsRemaining_def)
  have goal: "bits_word (take N (drop (8 * i + k) ?S)) = bits_word (take (unat n) (rd_bits r))"
    by (simp add: rd_bits_def bit N_def)
  have fast1: "(if n < 64 then drop_bit (64 - N) (be64 ?src i) else be64 ?src i) =
      bits_word (take N (drop (8 * i) ?S))" if "8 \<le> length ?src - i"
    using be64_shifted [of i ?src N 0] that N n56 by (cases "N = 64") auto
  have fast2: "drop_bit (64 - N) (push_bit k (be64 ?src i)) = bits_word (take N (drop (8 * i + k) ?S))"
    if "8 \<le> length ?src - i" "N \<le> 56"
    using be64_shifted [of i ?src N k] that k8 by simp
  have fast3: "drop_bit (64 - N) (push_bit k (be64 ?src i) OR ucast (drop_bit (8 - k) (?src ! (i + 8)))) =
      (bits_word (take N (drop (8 * i + k) ?S)) :: u64)" if "9 \<le> length ?src - i"
    using that k8 N be64_window [of i ?src k] drop_bit_bits_word [of "take 64 (drop (8 * i + k) ?S)" "64 - N", where 'a = 64]
    by (simp add: min_def)
  let ?V = "bits_word (take N (drop (8 * i + k) ?S)) :: u64"
  note unfolded = ReadBits_def Let_def i_def [symmetric] k_def [symmetric] N_def [symmetric] n56
  consider (aligned) "k = 0 \<and> 8 \<le> length ?src - i \<and> 56 < N"
    | (short) "N \<le> 56 \<and> 8 \<le> length ?src - i"
    | (nine) "9 \<le> length ?src - i" "\<not> (N \<le> 56 \<and> 8 \<le> length ?src - i)" "\<not> (k = 0 \<and> 8 \<le> length ?src - i \<and> 56 < N)"
    | (slow) "\<not> (k = 0 \<and> 8 \<le> length ?src - i \<and> 56 < N)" "\<not> (N \<le> 56 \<and> 8 \<le> length ?src - i)"
        "\<not> 9 \<le> length ?src - i"
    by blast
  then have "ReadBits n r = (Inr ?V, r\<lparr>rd_bit := rd_bit r + N\<rparr>)"
  proof cases
    case aligned
    then show ?thesis using rem fast1 by (simp add: unfolded split: if_splits)
  next
    case short
    then show ?thesis using rem fast2 by (simp add: unfolded)
  next
    case nine
    then show ?thesis using rem fast3 by (simp add: unfolded)
  next
    case slow
    then show ?thesis using rem ReadBits_bytewise_bits [OF k8 N(1) fit] by (auto simp add: unfolded)
  qed
  then show ?thesis using False goal by (simp add: advance_def N_def)
qed

section \<open>Exp-Golomb codes\<close>

text \<open>
  What \<open>uvlc()\<close> means on the bits that are left: \<open>z\<close> zero bits, a one bit, and \<open>z\<close> more bits.
\<close>

definition leading_zero_bits :: "bits \<Rightarrow> nat" where
  "leading_zero_bits bs = length (takeWhile Not bs)"

definition uvlc_spec :: "u32 rd" where
  "uvlc_spec r =
     (let bs = rd_bits r; z = leading_zero_bits bs
      in if z \<ge> 32 then (Inl ErrUVLCOverflow, advance 32 r)
         else if z = length bs then (Inl ErrNotEnoughBits, advance z r)
         else if length bs < 2 * z + 1 then (Inl ErrNotEnoughBits, advance (z + 1) r)
         else (Inr (ucast (push_bit z (1::u64) - 1 + bits_word (take z (drop (z + 1) bs)))),
               advance (2 * z + 1) r))"

lemma leading_zero_bits_le: "leading_zero_bits bs \<le> length bs"
  by (simp add: leading_zero_bits_def length_takeWhile_le)

lemma leading_zero_bits_take: "leading_zero_bits (take n bs) = min n (leading_zero_bits bs)"
  by (simp add: leading_zero_bits_def takeWhile_take min_def)

lemma leading_zero_bits_all:
  "(\<forall>b \<in> set bs. \<not> b) \<Longrightarrow> leading_zero_bits (bs @ cs) = length bs + leading_zero_bits cs"
  by (induction bs) (auto simp: leading_zero_bits_def)

lemma leading_zero_bits_some:
  "\<not> (\<forall>b \<in> set bs. \<not> b) \<Longrightarrow> leading_zero_bits (bs @ cs) = leading_zero_bits bs"
  by (induction bs) (auto simp: leading_zero_bits_def)

lemma leading_zero_bits_less: "\<not> (\<forall>b \<in> set bs. \<not> b) \<Longrightarrow> leading_zero_bits bs < length bs"
  by (induction bs) (auto simp: leading_zero_bits_def)

lemma leading_zeros_bits_word:
  "length xs = LENGTH('a) \<Longrightarrow> leading_zeros (bits_word xs :: 'a::len word) = leading_zero_bits xs"
  by (simp add: leading_zeros_def leading_zero_bits_def word_bits_bits_word)

text \<open>Where \<open>ReadUVLC\<close> takes its eight-byte fast path.\<close>

definition uvlc_fast :: "reader \<Rightarrow> bool" where
  "uvlc_fast r \<longleftrightarrow> length (rd_src r) - rd_bit r div 8 \<ge> 8 \<and>
     (rd_bit r mod 8 = 0 \<or> length (rd_src r) - rd_bit r div 8 \<ge> 9)"

lemma uvlc_fast_window:
  assumes "uvlc_fast r"
  shows "(if rd_bit r mod 8 \<noteq> 0
          then push_bit (rd_bit r mod 8) (be64 (rd_src r) (rd_bit r div 8))
                 OR ucast (drop_bit (8 - rd_bit r mod 8) (rd_src r ! (rd_bit r div 8 + 8)))
          else be64 (rd_src r) (rd_bit r div 8)) = bits_word (take 64 (rd_bits r))"
proof -
  have "rd_bit r = 8 * (rd_bit r div 8) + rd_bit r mod 8" by simp
  then show ?thesis
    using assms be64_window [of "rd_bit r div 8" "rd_src r" "rd_bit r mod 8"]
    by (auto simp: uvlc_fast_def rd_bits_def be64_bits)
qed

lemma ReadUVLC_fast:
  assumes fast: "uvlc_fast r"
  shows "ReadUVLC_loop lz r = (UReturn (fst (uvlc_spec r)), snd (uvlc_spec r))"
proof -
  let ?bs = "rd_bits r" and ?z = "leading_zero_bits (rd_bits r)"
  have len: "64 \<le> length ?bs" "\<not> rd_bit r \<ge> length (rd_src r) * 8"
    using fast by (auto simp: uvlc_fast_def length_rd_bits)
  then have zeros: "leading_zeros (bits_word (take 64 ?bs) :: u64) = min 64 ?z"
    by (simp add: leading_zeros_bits_word leading_zero_bits_take)
  have suffix: "drop_bit (64 - ?z) (push_bit (?z + 1) (bits_word (take 64 ?bs) :: u64)) =
      bits_word (take ?z (drop (?z + 1) ?bs))" if "?z < 32"
    using bits_word_slice [of "take 64 ?bs" ?z "?z + 1", where 'a = 64] that len
    by (simp add: drop_take min_def)
  have cond: "length (rd_src r) - rd_bit r div 8 \<ge> 8 \<and>
     (rd_bit r mod 8 = 0 \<or> length (rd_src r) - rd_bit r div 8 \<ge> 9)"
    using fast by (simp add: uvlc_fast_def)
  show ?thesis
    unfolding ReadUVLC_loop.simps [of lz r] Let_def uvlc_fast_window [OF fast] zeros
    using len cond suffix by (auto simp: uvlc_spec_def Let_def advance_def mult.commute)
qed

lemma uvlc_window:
  assumes "rd_bit r < 8 * length (rd_src r)"
  defines "k \<equiv> rd_bit r mod 8"
  shows "push_bit k (rd_src r ! (rd_bit r div 8)) =
      bits_word (take (8 - k) (rd_bits r) @ replicate k False)" (is "_ = bits_word ?w")
    and "length (take (8 - k) (rd_bits r)) = 8 - k"
proof -
  let ?i = "rd_bit r div 8"
  have i: "?i < length (rd_src r)" using assms by (simp add: less_mult_imp_div_less mult.commute)
  have b: "rd_bit r = 8 * ?i + k" "k < 8" by (simp_all add: k_def)
  have t: "drop k (byte_bits (rd_src r ! ?i)) = take (8 - k) (rd_bits r)"
    using i b by (simp add: byte_bits_stream rd_bits_def drop_take add.commute)
  show "push_bit k (rd_src r ! ?i) = bits_word ?w"
    using push_bit_bits_word_full [of "byte_bits (rd_src r ! ?i)" "replicate k False" k, where 'a = 8] b t
    by (simp add: byte_bits_word)
  show "length (take (8 - k) (rd_bits r)) = 8 - k"
    using t [symmetric] by simp
qed

lemma u8_add_small: "(lz::u8) < 32 \<Longrightarrow> q \<le> 8 \<Longrightarrow> unat (lz + word_of_nat q) = unat lz + q"
  by (subst unat_add_lem [THEN iffD1]) (simp_all add: unat_of_nat word_less_nat_alt)

lemma ReadUVLC_loop_slow_step:
  assumes slow: "\<not> uvlc_fast r" and inside: "rd_bit r < 8 * length (rd_src r)" and L: "lz < 32"
  defines "m \<equiv> 8 - rd_bit r mod 8"
    and "win \<equiv> push_bit (rd_bit r mod 8) (rd_src r ! (rd_bit r div 8))"
  shows "ReadUVLC_loop lz r =
    (let zeros = if win = 0 then m else leading_zeros win
     in if unat lz + zeros \<ge> 32 then (UReturn (Inl ErrUVLCOverflow), advance (32 - unat lz) r)
        else if win = 0 then ReadUVLC_loop (lz + word_of_nat m) (advance m r)
        else (UBreak (lz + word_of_nat zeros), advance (zeros + 1) r))"
proof -
  have m: "m \<le> 8" "unat (word_of_nat m :: u8) = m" by (simp_all add: m_def)
  have lzw: "leading_zeros win \<le> 8"
    using length_takeWhile_le [of Not "word_bits 8 win"] by (simp add: leading_zeros_def)
  have un: "unat (word_of_nat (leading_zeros win) :: u8) = leading_zeros win"
    using lzw by (simp add: unat_of_nat)
  have sub: "unat (32 - lz) = 32 - unat lz"
    using L by (simp add: unat_sub word_less_nat_alt word_le_nat_alt)
  have ge32: "32 \<le> lz + word_of_nat q \<longleftrightarrow> 32 \<le> unat lz + q" if "q \<le> 8" for q
    using u8_add_small [OF L that] by (simp add: word_le_nat_alt)
  have cond: "\<not> (length (rd_src r) - rd_bit r div 8 \<ge> 8 \<and>
     (rd_bit r mod 8 = 0 \<or> length (rd_src r) - rd_bit r div 8 \<ge> 9))" "\<not> rd_bit r \<ge> length (rd_src r) * 8"
    using slow inside by (simp_all add: uvlc_fast_def)
  show ?thesis
    unfolding ReadUVLC_loop.simps [of lz r] Let_def win_def [symmetric] m_def [symmetric]
    using cond ge32 [OF m(1)] ge32 [OF lzw]
    by (simp only: if_False simp_thms m(2) un sub advance_def) auto
qed

lemma uvlc_slow_stays_slow:
  assumes "\<not> uvlc_fast r" and "rd_bit r < 8 * length (rd_src r)"
  shows "\<not> uvlc_fast (advance (8 - rd_bit r mod 8) r)"
proof -
  have "(rd_bit r + (8 - rd_bit r mod 8)) div 8 = rd_bit r div 8 + 1"
    by (simp only: next_byte_boundary nonzero_mult_div_cancel_left)
  then show ?thesis using assms by (auto simp: uvlc_fast_def)
qed

lemma ReadUVLC_slow:
  "\<not> uvlc_fast r \<Longrightarrow> lz < 32 \<Longrightarrow>
     ReadUVLC_loop lz r =
       (let z = leading_zero_bits (rd_bits r)
        in if unat lz + z \<ge> 32 then (UReturn (Inl ErrUVLCOverflow), advance (32 - unat lz) r)
           else if z = length (rd_bits r) then (UReturn (Inl ErrNotEnoughBits), advance z r)
           else (UBreak (lz + word_of_nat z), advance (z + 1) r))"
proof (induction "8 * length (rd_src r) - rd_bit r" arbitrary: lz r rule: less_induct)
  case less
  define k where "k = rd_bit r mod 8"
  define m where "m = 8 - k"
  have k8: "k < 8" "m + k = 8" "0 < m" "m \<le> 8" by (simp_all add: k_def m_def)
  have L: "unat lz < 32" using less.prems(2) by (simp add: word_less_nat_alt)
  show ?case
  proof (cases "rd_bit r < 8 * length (rd_src r)")
    case False
    then have "rd_bits r = []" by (simp add: rd_bits_def)
    then show ?thesis using False L
      by (subst ReadUVLC_loop.simps) (simp add: leading_zero_bits_def)
  next
    case inside: True
    note win = uvlc_window [OF inside, folded k_def, folded m_def]
    note body = ReadUVLC_loop_slow_step [OF less.prems(1) inside less.prems(2), folded k_def, folded m_def]
    let ?w = "take m (rd_bits r)" and ?r' = "advance m r"
    let ?win = "push_bit k (rd_src r ! (rd_bit r div 8))"
    have split: "rd_bits r = ?w @ rd_bits ?r'" by simp
    have zero_iff: "?win = 0 \<longleftrightarrow> (\<forall>b \<in> set ?w. \<not> b)"
      using win k8 by (subst win(1), subst bits_word_eq_0_iff) auto
    show ?thesis
    proof (cases "\<forall>b \<in> set ?w. \<not> b")
      case zero: True
      then have w0: "?win = 0" using zero_iff by simp
      have z: "leading_zero_bits (rd_bits r) = m + leading_zero_bits (rd_bits ?r')"
        by (subst split, subst leading_zero_bits_all [OF zero]) (simp only: win(2))
      have len: "length (rd_bits r) = m + length (rd_bits ?r')" using win(2) by simp
      show ?thesis
      proof (cases "unat lz + m \<ge> 32")
        case True
        then show ?thesis using body w0 z by simp
      next
        case small: False
        have u: "unat (lz + word_of_nat m) = unat lz + m" using less.prems(2) k8 by (simp add: u8_add_small)
        have "\<not> uvlc_fast ?r'"
          using uvlc_slow_stays_slow [OF less.prems(1) inside] by (simp add: m_def k_def)
        moreover have "lz + word_of_nat m < 32" using u small by (simp add: word_less_nat_alt)
        moreover have "8 * length (rd_src ?r') - rd_bit ?r' < 8 * length (rd_src r) - rd_bit r"
          using inside k8 by simp
        ultimately have "ReadUVLC_loop lz r = (let z = leading_zero_bits (rd_bits ?r')
           in if unat lz + m + z \<ge> 32 then (UReturn (Inl ErrUVLCOverflow), advance (32 - (unat lz + m)) ?r')
              else if z = length (rd_bits ?r') then (UReturn (Inl ErrNotEnoughBits), advance z ?r')
              else (UBreak (lz + word_of_nat m + word_of_nat z), advance (z + 1) ?r'))"
          using less.hyps [of ?r' "lz + word_of_nat m"] body w0 small unfolding u by simp
        moreover have "advance (32 - (unat lz + m)) ?r' = advance (32 - unat lz) r" using small by simp
        ultimately show ?thesis unfolding Let_def z len by (simp add: ac_simps del: rd_bits_advance)
      qed
    next
      case some: False
      then have w0: "?win \<noteq> 0" using zero_iff by simp
      have z: "leading_zero_bits (rd_bits r) = leading_zero_bits ?w"
        using leading_zero_bits_some [OF some, of "rd_bits ?r'"] split by simp
      have "leading_zeros ?win = leading_zero_bits ?w"
        using win leading_zero_bits_some [OF some, of "replicate k False"] k8
        by (simp add: leading_zeros_bits_word)
      moreover have "leading_zero_bits ?w < m" "leading_zero_bits ?w < length (rd_bits r)"
        using leading_zero_bits_less [OF some] win(2) by simp_all
      ultimately show ?thesis using body w0 z by (simp add: Let_def)
    qed
  qed
qed

lemma ReadUVLC_eq: "ReadUVLC r = uvlc_spec r"
proof (cases "uvlc_fast r")
  case True
  then show ?thesis by (simp add: ReadUVLC_def ReadUVLC_fast)
next
  case False
  let ?bs = "rd_bits r" and ?z = "leading_zero_bits (rd_bits r)"
  have loop: "ReadUVLC_loop 0 r =
      (if ?z \<ge> 32 then (UReturn (Inl ErrUVLCOverflow), advance 32 r)
       else if ?z = length ?bs then (UReturn (Inl ErrNotEnoughBits), advance ?z r)
       else (UBreak (word_of_nat ?z), advance (?z + 1) r))"
    using ReadUVLC_slow [OF False, of 0] by (simp add: Let_def)
  show ?thesis
  proof (cases "?z \<ge> 32 \<or> ?z = length ?bs")
    case True
    then show ?thesis using loop by (auto simp: ReadUVLC_def uvlc_spec_def Let_def)
  next
    case rest: False
    then have u: "unat (word_of_nat ?z :: u8) = ?z" by (simp add: unat_of_nat)
    have small: "\<not> (word_of_nat ?z :: u8) > 64" using u rest by (simp add: word_less_nat_alt)
    have "word_of_nat ?z = (0::u8) \<longleftrightarrow> ?z = 0" using u by (auto simp: unat_eq_0 [symmetric])
    moreover have "?z < length ?bs" using rest leading_zero_bits_le [of ?bs] by simp
    ultimately show ?thesis
      using loop rest u small
      by (auto simp: ReadUVLC_def uvlc_spec_def Let_def rbind_def rret_def ReadBits_eq add.commute mult_2)
  qed
qed

section \<open>Trailing bits\<close>

lemma ReadTrailingBits_align_zeros:
  "rd_bits r = replicate a False @ rest \<Longrightarrow> (rd_bit r + a) mod 8 = 0 \<Longrightarrow> a < 8 \<Longrightarrow>
     ReadTrailingBits_align r = (Inr (), advance a r)"
proof (induction a arbitrary: r)
  case 0
  then show ?case by (subst ReadTrailingBits_align.simps) (simp add: ByteAligned_def)
next
  case (Suc a)
  then have "\<not> ByteAligned r" unfolding ByteAligned_def by presburger
  moreover have "ReadTrailingBits_align (advance 1 r) = (Inr (), advance a (advance 1 r))"
    using Suc by (intro Suc.IH) auto
  ultimately show ?case
    using Suc.prems(1) by (subst ReadTrailingBits_align.simps) (simp add: ReadBit_Cons)
qed

lemma ReadTrailingBits_align_ok:
  "ReadTrailingBits_align r = (Inr x, r') \<Longrightarrow>
     \<exists>a rest. rd_bits r = replicate a False @ rest \<and> r' = advance a r \<and> (rd_bit r + a) mod 8 = 0"
proof (induction r rule: ReadTrailingBits_align.induct)
  case (1 r)
  show ?case
  proof (cases "ByteAligned r")
    case True
    then show ?thesis
      using "1.prems" by (intro exI [of _ 0]) (auto simp: ReadTrailingBits_align.simps [of r] ByteAligned_def)
  next
    case False
    with "1.prems" obtain b bs where bs: "rd_bits r = b # bs"
      by (cases "rd_bits r") (auto simp: ReadTrailingBits_align.simps [of r] ReadBit_Nil)
    with "1.prems" False have nb: "\<not> b" and rest: "ReadTrailingBits_align (advance 1 r) = (Inr x, r')"
      by (auto simp: ReadTrailingBits_align.simps [of r] ReadBit_Cons split: if_splits)
    have "\<exists>a rest. rd_bits (advance 1 r) = replicate a False @ rest \<and> r' = advance a (advance 1 r) \<and>
        (rd_bit (advance 1 r) + a) mod 8 = 0"
      by (rule "1.IH" [OF False _ _ _ rest]) (use bs nb in \<open>auto simp: ReadBit_Cons\<close>)
    then obtain a rest where "rd_bits (advance 1 r) = replicate a False @ rest"
      "r' = advance a (advance 1 r)" "(rd_bit (advance 1 r) + a) mod 8 = 0" by auto
    then show ?thesis using bs nb by (intro exI [of _ "Suc a"]) auto
  qed
qed

lemma ReadTrailingBits_padding_zeros:
  "rd_bits r = replicate (8 * n) False \<Longrightarrow> rd_wf r \<Longrightarrow>
     ReadTrailingBits_padding r = (Inr (), advance (8 * n) r)"
proof (induction n arbitrary: r)
  case 0
  then show ?case by (subst ReadTrailingBits_padding.simps) (simp add: BitsRemaining_rd_bits)
next
  case (Suc n)
  have "ReadBits 8 r = (Inr 0, advance 8 r)"
    using Suc.prems by (simp add: ReadBits_eq)
  moreover have "ReadTrailingBits_padding (advance 8 r) = (Inr (), advance (8 * n) (advance 8 r))"
    using Suc.prems by (intro Suc.IH) (auto intro: rd_wf_advance)
  ultimately show ?case
    using Suc.prems by (subst ReadTrailingBits_padding.simps) (simp add: BitsRemaining_rd_bits)
qed

lemma ReadTrailingBits_padding_ok:
  "ReadTrailingBits_padding r = (Inr x, r') \<Longrightarrow> rd_wf r \<Longrightarrow>
     (\<forall>b \<in> set (rd_bits r). \<not> b) \<and> r' = advance (length (rd_bits r)) r"
proof (induction r rule: ReadTrailingBits_padding.induct)
  case (1 r)
  show ?case
  proof (cases "BitsRemaining r > 0")
    case False
    then show ?thesis
      using "1.prems" by (auto simp: ReadTrailingBits_padding.simps [of r] BitsRemaining_rd_bits)
  next
    case True
    with "1.prems" have eight: "8 \<le> length (rd_bits r)"
      by (auto simp: ReadTrailingBits_padding.simps [of r] ReadBits_eq split: if_splits)
    then have rb: "ReadBits 8 r = (Inr (bits_word (take 8 (rd_bits r))), advance 8 r)"
      by (simp add: ReadBits_eq)
    with "1.prems" True have z: "bits_word (take 8 (rd_bits r)) = (0::u64)"
      and rest: "ReadTrailingBits_padding (advance 8 r) = (Inr x, r')"
      by (auto simp: ReadTrailingBits_padding.simps [of r] split: if_splits)
    have "(\<forall>b \<in> set (rd_bits (advance 8 r)). \<not> b) \<and> r' = advance (length (rd_bits (advance 8 r))) (advance 8 r)"
      using True rb z eight "1.prems"(2)
      by (intro "1.IH" [OF _ _ _ _ rest]) (auto intro: rd_wf_advance)
    moreover have "\<forall>b \<in> set (take 8 (rd_bits r)). \<not> b"
      using z by (subst (asm) bits_word_eq_0_iff) auto
    ultimately show ?thesis
      using eight by (metis Un_iff advance_simps(3) append_take_drop_id le_add_diff_inverse length_drop
          rd_bits_advance set_append)
  qed
qed

text \<open>
  \<open>ReadTrailingBits\<close> accepts exactly a one bit followed by zero bits to the end of the source.
\<close>

lemma ReadTrailingBits_zeros:
  assumes wf: "rd_wf r" and bits: "rd_bits r = True # replicate k False"
  shows "ReadTrailingBits r = (Inr (), advance (k + 1) r)"
proof -
  let ?r = "advance 1 r"
  have "rd_bit r mod 8 < 8" by simp
  then have "rd_bit ?r + (7 - rd_bit r mod 8) = 8 * (rd_bit r div 8 + 1)"
    using next_byte_boundary [of "rd_bit r"] by simp
  moreover have "7 - rd_bit r mod 8 < 8" by simp
  ultimately obtain q a where qa: "rd_bit ?r + a = 8 * q" "a < 8" by blast
  have k: "rd_bit ?r + k = 8 * length (rd_src r)"
    using length_rd_bits [of r] bits wf by (simp add: rd_wf_def)
  then have "q \<le> length (rd_src r)" using qa by linarith
  then obtain n where n: "length (rd_src r) = q + n" by (metis le_iff_add)
  then have ka: "k = a + 8 * n" using k qa by simp
  have "ReadTrailingBits_align ?r = (Inr (), advance a ?r)"
    using bits qa ka by (intro ReadTrailingBits_align_zeros [where rest = "replicate (8 * n) False"])
      (simp_all add: replicate_add)
  moreover have "ReadTrailingBits_padding (advance a ?r) = (Inr (), advance (8 * n) (advance a ?r))"
  proof (rule ReadTrailingBits_padding_zeros)
    show "rd_bits (advance a ?r) = replicate (8 * n) False" using bits ka by (simp add: replicate_add)
    show "rd_wf (advance a ?r)" using k ka by (simp add: rd_wf_def)
  qed
  ultimately show ?thesis
    using bits ka by (simp add: ReadTrailingBits_def rbind_def ReadBit_Cons)
qed

lemma ReadTrailingBits_ok:
  assumes wf: "rd_wf r" and ok: "fst (ReadTrailingBits r) = Inr ()"
  shows "\<exists>k. rd_bits r = True # replicate k False"
proof -
  from ok obtain b bs where bits: "rd_bits r = b # bs"
    by (cases "rd_bits r") (auto simp: ReadTrailingBits_def rbind_def ReadBit_Nil)
  with ok have b: "b" by (cases b) (auto simp: ReadTrailingBits_def rbind_def ReadBit_Cons rfail_def)
  let ?r = "advance 1 r"
  from ok bits b obtain r1 r2 where r1: "ReadTrailingBits_align ?r = (Inr (), r1)"
    and r2: "ReadTrailingBits_padding r1 = (Inr (), r2)"
    by (auto simp: ReadTrailingBits_def rbind_def ReadBit_Cons rret_def prod_eq_iff
        split: prod.splits sum.splits)
  from ReadTrailingBits_align_ok [OF r1] obtain a rest
    where a: "bs = replicate a False @ rest" "r1 = advance a ?r" using bits by auto
  have "rd_wf r1" using wf bits a length_rd_bits [of r] by (simp add: rd_wf_def)
  then have "\<forall>x \<in> set (rd_bits r1). \<not> x" using ReadTrailingBits_padding_ok [OF r2] by blast
  moreover have "rd_bits r1 = rest" using a bits by simp
  ultimately have "\<forall>x \<in> set rest. \<not> x" by simp
  then have "rest = replicate (length rest) False" by (intro replicate_eqI) auto
  then have "rd_bits r = True # replicate (a + length rest) False"
    using bits b a by (simp add: replicate_add)
  then show ?thesis ..
qed

section \<open>Properties\<close>

text \<open>
  C27: \<open>ReadBits\<close> returns the next \<open>n\<close> bits as a number, most significant bit first, whichever of
  its four paths (one aligned big-endian load, one shifted load, a nine-byte window, the byte
  loop at the end of the source) it takes, and advances by exactly \<open>n\<close> bits; with too few bits
  left or \<open>n > 64\<close> it fails and does not move.
\<close>

theorem ReadBits_next_bits:
  "ReadBits n r =
     (if n > 64 then (Inl ErrInvalidBitCount, r)
      else if length (rd_bits r) < unat n then (Inl ErrNotEnoughBits, r)
      else (Inr (bits_word (take (unat n) (rd_bits r))), advance (unat n) r))"
  by (rule ReadBits_eq)

text \<open>
  C28: \<open>ReadUVLC\<close>, with its 64-bit fast path and its byte-by-byte scan, is the \<open>uvlc()\<close> code of the
  AV1 syntax: count the zeros before the first one bit, read as many bits after it; 32 zeros or
  more are an overflow, and every failure leaves the reader where the code was seen to fail.
\<close>

theorem ReadUVLC_refines_uvlc: "ReadUVLC r = uvlc_spec r"
  by (rule ReadUVLC_eq)

text \<open>
  \<open>ReadTrailingBits\<close> accepts exactly a one bit followed by zero bits to the end of the
  source, and then has consumed the source.
\<close>

theorem ReadTrailingBits_iff:
  assumes "rd_wf r"
  shows "(fst (ReadTrailingBits r) = Inr () \<longleftrightarrow> (\<exists>k. rd_bits r = True # replicate k False)) \<and>
    (fst (ReadTrailingBits r) = Inr () \<longrightarrow> rd_bits (snd (ReadTrailingBits r)) = [])"
  using ReadTrailingBits_zeros [OF assms] ReadTrailingBits_ok [OF assms] by force

theorem ReadTrailingBits_iff_witness:
  "rd_wf \<lparr>rd_src = [0x50], rd_bit = 3\<rparr> \<and>
   (fst (ReadTrailingBits \<lparr>rd_src = [0x50], rd_bit = 3\<rparr>) = Inr () \<longleftrightarrow>
     (\<exists>k. rd_bits \<lparr>rd_src = [0x50], rd_bit = 3\<rparr> = True # replicate k False))"
  using ReadTrailingBits_iff [of "\<lparr>rd_src = [0x50], rd_bit = 3\<rparr>"] by (simp add: rd_wf_def)

end
