(* ===== verification/Bit_Writer.thy ===== *)
theory Bit_Writer
  imports Prelude
begin

text \<open>
  \<open>internal/av1/encoder/bitwriter.go\<close>: the most-significant-bit-first bit writer of the encoder's
  header syntax. A writer fills a caller's slice, or, in sizing mode, only counts bits: every
  encoder entry point runs its writer twice, once to size the output and once to fill it.
\<close>

section \<open>State\<close>

record bitWriter =
  bw_dst :: bytes
  bw_bit :: nat
  bw_sizing :: bool

type_synonym wr = "bitWriter \<Rightarrow> (go_err + unit) \<times> bitWriter"

definition newBitWriter :: "bytes \<Rightarrow> bitWriter" where
  "newBitWriter dst = \<lparr>bw_dst = dst, bw_bit = 0, bw_sizing = False\<rparr>"

definition newSizingBitWriter :: bitWriter where
  "newSizingBitWriter = \<lparr>bw_dst = [], bw_bit = 0, bw_sizing = True\<rparr>"

definition bytesWritten :: "bitWriter \<Rightarrow> nat" where
  "bytesWritten w = (bw_bit w + 7) div 8"

definition byteAligned :: "bitWriter \<Rightarrow> bool" where
  "byteAligned w \<longleftrightarrow> bw_bit w mod 8 = 0"

text \<open>\<open>return nil\<close>, \<open>return err\<close>, and two calls with an error check between them.\<close>

definition wret :: wr where
  "wret w = (Inr (), w)"

definition wfail :: "go_err \<Rightarrow> wr" where
  "wfail e w = (Inl e, w)"

definition wseq :: "wr \<Rightarrow> wr \<Rightarrow> wr" where
  "wseq m n w = (case m w of (Inl e, w') \<Rightarrow> (Inl e, w') | (Inr u, w') \<Rightarrow> n w')"

text \<open>A straight-line list of calls.\<close>

definition wseqs :: "wr list \<Rightarrow> wr" where
  "wseqs ms = foldr wseq ms wret"

section \<open>Operations\<close>

definition writeBit :: "u8 \<Rightarrow> wr" where
  "writeBit b w =
     (if b > 1 then (Inl ErrInvalidBitCount, w)
      else if bw_sizing w then (Inr (), w\<lparr>bw_bit := bw_bit w + 1\<rparr>)
      else
        let byteIndex = bw_bit w div 8
        in if byteIndex \<ge> length (bw_dst w) then (Inl ErrShortBuffer, w)
           else
             let shift = 7 - bw_bit w mod 8;
                 dst = (if shift = 7 then (bw_dst w)[byteIndex := 0] else bw_dst w);
                 dst = (if b \<noteq> 0
                        then dst[byteIndex := dst ! byteIndex OR push_bit shift 1]
                        else dst[byteIndex := dst ! byteIndex AND NOT (push_bit shift 1)])
             in (Inr (), w\<lparr>bw_dst := dst, bw_bit := bw_bit w + 1\<rparr>))"

definition writeBool :: "bool \<Rightarrow> wr" where
  "writeBool v = (if v then writeBit 1 else writeBit 0)"

text \<open>
  The \<open>for remaining > 0\<close> loop of \<open>writeBits\<close>. One pass stores the top \<open>take\<close> of the
  \<open>remaining\<close> low bits of the value in the current byte, clearing a byte it enters at its first bit.
\<close>

definition writeBits_chunk :: "u64 \<Rightarrow> nat \<Rightarrow> nat \<Rightarrow> bytes \<Rightarrow> nat \<Rightarrow> bytes" where
  "writeBits_chunk v remaining take' dst pos =
     (let byteIndex = pos div 8;
          bitOffset = pos mod 8;
          space = 8 - bitOffset;
          shift = remaining - take';
          maskBits = push_bit take' (1::u16) - 1;
          chunk = ucast (drop_bit shift v AND ucast maskBits) :: u8;
          dstShift = space - take';
          msk = ucast (push_bit dstShift maskBits) :: u8;
          dst = (if bitOffset = 0 then dst[byteIndex := 0] else dst)
      in dst[byteIndex := (dst ! byteIndex AND NOT msk) OR push_bit dstShift chunk])"

function writeBits_loop :: "u64 \<Rightarrow> nat \<Rightarrow> bytes \<Rightarrow> nat \<Rightarrow> bytes \<times> nat" where
  "writeBits_loop v remaining dst pos =
     (if remaining > 0 then
        let space = 8 - pos mod 8;
            take' = (if remaining > space then space else remaining)
        in writeBits_loop v (remaining - take') (writeBits_chunk v remaining take' dst pos) (pos + take')
      else (dst, pos))"
  by pat_completeness auto
termination
  by (relation "measure (\<lambda>(v, remaining, dst, pos). remaining)") auto

declare writeBits_loop.simps [simp del]

definition writeBits :: "u64 \<Rightarrow> u8 \<Rightarrow> wr" where
  "writeBits v n w =
     (if n > 64 then (Inl ErrInvalidBitCount, w)
      else if n = 0 then (Inr (), w)
      else if bw_sizing w then (Inr (), w\<lparr>bw_bit := bw_bit w + unat n\<rparr>)
      else
        let endBit = bw_bit w + unat n;
            endByte = (endBit + 7) div 8
        in if endByte > length (bw_dst w) then (Inl ErrShortBuffer, w)
           else let (dst, pos) = writeBits_loop v (unat n) (bw_dst w) (bw_bit w)
                in (Inr (), w\<lparr>bw_dst := dst, bw_bit := pos\<rparr>))"

text \<open>\<open>bits.Len64\<close>: the number of bits needed to write the value.\<close>

definition bit_len :: "'a::len word \<Rightarrow> nat" where
  "bit_len v = LENGTH('a) - length (takeWhile Not (word_bits LENGTH('a) v))"

primrec writeZeros :: "nat \<Rightarrow> wr" where
  "writeZeros 0 = wret"
| "writeZeros (Suc k) = wseq (writeBit 0) (writeZeros k)"

definition writeUVLC :: "u32 \<Rightarrow> wr" where
  "writeUVLC v =
     (let codeNum = ucast v + 1 :: u64;
          width = bit_len codeNum
      in wseq (writeZeros (width - 1)) (writeBits codeNum (word_of_nat width)))"

lemma writeBit_advances: "writeBit b w = (Inr u, w') \<Longrightarrow> bw_bit w' = bw_bit w + 1"
  by (auto simp: writeBit_def Let_def split: if_splits)

function writeZeroByteAlignment :: wr where
  "writeZeroByteAlignment w =
     (if byteAligned w then (Inr (), w)
      else case writeBit 0 w of
             (Inl e, w') \<Rightarrow> (Inl e, w')
           | (Inr u, w') \<Rightarrow> writeZeroByteAlignment w')"
  by pat_completeness auto
termination
proof (relation "measure (\<lambda>w. (8 - bw_bit w mod 8) mod 8)", simp, goal_cases)
  case (1 w x w' u)
  then have "bw_bit w' = bw_bit w + 1" and "bw_bit w mod 8 \<noteq> 0"
    by (auto simp: byteAligned_def dest!: writeBit_advances [OF sym])
  then show ?case using pad_decreases [of "bw_bit w"] by simp
qed

declare writeZeroByteAlignment.simps [simp del]

definition writeTrailingBits :: wr where
  "writeTrailingBits = wseq (writeBit 1) writeZeroByteAlignment"

section \<open>The bits a writer holds\<close>

definition wr_bits :: "bitWriter \<Rightarrow> bits" where
  "wr_bits w = take (bw_bit w) (stream_bits (bw_dst w))"

text \<open>
  \<open>emits m bs\<close>: the call \<open>m\<close> appends exactly the bits \<open>bs\<close> to a writer with room for them,
  and in sizing mode counts exactly as many.
\<close>

definition emits :: "wr \<Rightarrow> bits \<Rightarrow> bool" where
  "emits m bs \<longleftrightarrow>
     (\<forall>w. (bw_sizing w \<longrightarrow> m w = (Inr (), w\<lparr>bw_bit := bw_bit w + length bs\<rparr>)) \<and>
          (\<not> bw_sizing w \<longrightarrow> bw_bit w + length bs \<le> 8 * length (bw_dst w) \<longrightarrow>
             (\<exists>dst. m w = (Inr (), w\<lparr>bw_dst := dst, bw_bit := bw_bit w + length bs\<rparr>) \<and>
                length dst = length (bw_dst w) \<and>
                take (bw_bit w + length bs) (stream_bits dst) = wr_bits w @ bs)))"

lemma byte_bits_chunk:
  fixes v :: u64 and sh t k :: nat and b :: u8
  assumes t: "t \<le> 8 - k" and k: "k < 8"
  defines "msk \<equiv> ucast (push_bit (8 - k - t) (push_bit t (1::u16) - 1)) :: u8"
    and "chunk \<equiv> ucast (drop_bit sh v AND ucast (push_bit t (1::u16) - 1)) :: u8"
  shows "byte_bits ((b AND NOT msk) OR push_bit (8 - k - t) chunk) =
    take k (byte_bits b) @ word_bits t (drop_bit sh v) @ drop (k + t) (byte_bits b)"
proof -
  have m: "2 ^ t - 1 = (mask t :: u16)" by (simp add: mask_eq_exp_minus_1)
  have msk: "bit msk j \<longleftrightarrow> j < 8 \<and> 8 - k - t \<le> j \<and> j < 8 - k" for j
    using t k by (auto simp: msk_def m bit_simps)
  have chunk: "bit chunk j \<longleftrightarrow> j < 8 \<and> j < t \<and> bit v (sh + j)" for j
    by (auto simp: chunk_def m bit_simps)
  show ?thesis
  proof (rule nth_equalityI)
    show "length (byte_bits ((b AND NOT msk) OR push_bit (8 - k - t) chunk)) =
        length (take k (byte_bits b) @ word_bits t (drop_bit sh v) @ drop (k + t) (byte_bits b))"
      using t k by simp
    fix i
    assume "i < length (byte_bits ((b AND NOT msk) OR push_bit (8 - k - t) chunk))"
    then have i: "i < 8" by simp
    have idx: "7 - i - (8 - k - t) = t - Suc (i - k)" if "k \<le> i" "i < k + t" using that t by simp
    show "byte_bits ((b AND NOT msk) OR push_bit (8 - k - t) chunk) ! i =
        (take k (byte_bits b) @ word_bits t (drop_bit sh v) @ drop (k + t) (byte_bits b)) ! i"
      using t k i idx
      by (auto simp: nth_byte_bits nth_append word_bits_def bit_or_iff bit_and_iff bit_not_iff_eq
          bit_push_bit_iff msk chunk bit_drop_bit_eq)
  qed
qed

lemma length_writeBits_chunk [simp]: "length (writeBits_chunk v r t dst pos) = length dst"
  by (simp add: writeBits_chunk_def Let_def)

lemma take_byte_in_stream:
  assumes i: "i < length bs" and k: "k \<le> 8"
  shows "take (8 * i + k) (stream_bits bs) = take (8 * i) (stream_bits bs) @ take k (byte_bits (bs ! i))"
  using assms by (simp add: take_add byte_bits_stream min_def)

lemma writeBits_chunk_bits:
  assumes t: "t \<le> 8 - pos mod 8" and room: "pos div 8 < length dst"
  shows "take (pos + t) (stream_bits (writeBits_chunk v r t dst pos)) =
    take pos (stream_bits dst) @ word_bits t (drop_bit (r - t) v)"
proof -
  define i k where "i = pos div 8" and "k = pos mod 8"
  have pos: "pos = 8 * i + k" and k: "k < 8" by (simp_all add: i_def k_def)
  have i: "i < length dst" using room by (simp add: i_def)
  define dst0 where "dst0 = (if k = 0 then dst[i := 0] else dst)"
  have len0: "length dst0 = length dst" by (simp add: dst0_def)
  have pre: "take (8 * i) (stream_bits dst0) = take (8 * i) (stream_bits dst)"
    using i by (simp add: dst0_def stream_bits_take [symmetric] stream_bits_update)
  have head: "take k (byte_bits (dst0 ! i)) = take k (byte_bits (dst ! i))"
    by (simp add: dst0_def)
  obtain b' where ch: "writeBits_chunk v r t dst pos = dst0[i := b']"
    and b': "byte_bits b' =
      take k (byte_bits (dst0 ! i)) @ word_bits t (drop_bit (r - t) v) @ drop (k + t) (byte_bits (dst0 ! i))"
    using byte_bits_chunk [where t = t and k = k and sh = "r - t" and v = v and b = "dst0 ! i"] t k
    unfolding writeBits_chunk_def Let_def dst0_def i_def k_def by blast
  have "take (8 * i + (k + t)) (stream_bits (dst0[i := b'])) =
      take (8 * i) (stream_bits (dst0[i := b'])) @ take (k + t) (byte_bits b')"
    using take_byte_in_stream [of i "dst0[i := b']" "k + t"] i len0 t k by (simp add: k_def)
  also have "take (8 * i) (stream_bits (dst0[i := b'])) = take (8 * i) (stream_bits dst)"
    using i len0 pre by (simp add: stream_bits_update)
  also have "take (k + t) (byte_bits b') = take k (byte_bits (dst ! i)) @ word_bits t (drop_bit (r - t) v)"
    using k by (simp add: b' head min_def)
  finally show ?thesis
    using take_byte_in_stream [OF i, of k] k unfolding ch by (simp add: pos add.assoc)
qed

lemma writeBits_loop_bits:
  assumes "pos + r \<le> 8 * length dst"
  shows "\<exists>dst'. writeBits_loop v r dst pos = (dst', pos + r) \<and> length dst' = length dst \<and>
    take (pos + r) (stream_bits dst') = take pos (stream_bits dst) @ word_bits r v"
  using assms
proof (induction r arbitrary: dst pos rule: less_induct)
  case (less r)
  show ?case
  proof (cases "r = 0")
    case True
    then show ?thesis by (simp add: writeBits_loop.simps)
  next
    case False
    define t where "t = min r (8 - pos mod 8)"
    have t0: "0 < t" "t \<le> r" "t \<le> 8 - pos mod 8" using False by (simp_all add: t_def)
    have room: "pos div 8 < length dst" using less.prems False by linarith
    let ?d = "writeBits_chunk v r t dst pos"
    have step: "writeBits_loop v r dst pos = writeBits_loop v (r - t) ?d (pos + t)"
      using False by (subst writeBits_loop.simps) (simp add: Let_def t_def min_def)
    obtain dst' where d: "writeBits_loop v (r - t) ?d (pos + t) = (dst', pos + t + (r - t))"
        "length dst' = length ?d"
        "take (pos + t + (r - t)) (stream_bits dst') = take (pos + t) (stream_bits ?d) @ word_bits (r - t) v"
      using less.IH [of "r - t" "pos + t" ?d] t0 less.prems by auto
    then show ?thesis
      using t0 step writeBits_chunk_bits [OF t0(3) room, of v r] word_bits_split [OF t0(2), of v]
      by simp
  qed
qed

lemma emits_writeBits:
  assumes "n \<le> 64" shows "emits (writeBits v n) (word_bits (unat n) v)"
proof -
  have "\<not> n > 64" using assms by simp
  show ?thesis
    unfolding emits_def
  proof (intro allI conjI impI)
    fix w :: bitWriter
    assume "bw_sizing w"
    then show "writeBits v n w = (Inr (), w\<lparr>bw_bit := bw_bit w + length (word_bits (unat n) v)\<rparr>)"
      using \<open>\<not> n > 64\<close> by (simp add: writeBits_def)
  next
    fix w :: bitWriter
    assume s: "\<not> bw_sizing w"
      and room: "bw_bit w + length (word_bits (unat n) v) \<le> 8 * length (bw_dst w)"
    have room': "\<not> (bw_bit w + unat n + 7) div 8 > length (bw_dst w)" using room by simp
    from writeBits_loop_bits [of "bw_bit w" "unat n" "bw_dst w" v] room
    obtain dst where d: "writeBits_loop v (unat n) (bw_dst w) (bw_bit w) = (dst, bw_bit w + unat n)"
        "length dst = length (bw_dst w)"
        "take (bw_bit w + unat n) (stream_bits dst) = wr_bits w @ word_bits (unat n) v"
      by (auto simp: wr_bits_def)
    show "\<exists>dst. writeBits v n w = (Inr (), w\<lparr>bw_dst := dst, bw_bit := bw_bit w + length (word_bits (unat n) v)\<rparr>) \<and>
        length dst = length (bw_dst w) \<and>
        take (bw_bit w + length (word_bits (unat n) v)) (stream_bits dst) = wr_bits w @ word_bits (unat n) v"
      using d s room' \<open>\<not> n > 64\<close>
      by (cases "n = 0")
        (rule exI [of _ "bw_dst w"], simp add: writeBits_def wr_bits_def,
          rule exI [of _ dst], simp add: writeBits_def Let_def)
  qed
qed

lemma writeBit_eq_writeBits:
  assumes "b \<le> 1" shows "writeBit b = writeBits (ucast b) 1"
proof (rule ext)
  fix w :: bitWriter
  have b: "b = 0 \<or> b = 1" using assms by (simp add: word_le_nat_alt word_unat_eq_iff) linarith
  define k where "k = bw_bit w mod 8"
  have k: "k < 8" by (simp add: k_def)
  have one: "push_bit (8 - k - 1) (1::u16) = push_bit (7 - k) 1" by simp
  have byte: "(x AND NOT (ucast (push_bit (7 - k) (1::u16)) :: u8)) OR push_bit (7 - k) (ucast (ucast b AND (1 :: u64))) =
      (if b \<noteq> 0 then x OR push_bit (7 - k) 1 else x AND NOT (push_bit (7 - k) 1))" for x :: u8
    using b k by (elim disjE; intro bit_word_eqI) (auto simp: bit_simps)
  have loop: "writeBits_loop (ucast b) (Suc 0) (bw_dst w) (bw_bit w) =
      (writeBits_chunk (ucast b) 1 1 (bw_dst w) (bw_bit w), bw_bit w + 1)"
    using k by (simp add: writeBits_loop.simps Let_def k_def)
  have room: "length (bw_dst w) < (8 + bw_bit w) div 8 \<longleftrightarrow> length (bw_dst w) \<le> bw_bit w div 8"
    using div_add_self1 [of 8 "bw_bit w"] by (simp add: less_Suc_eq_le)
  have chunk: "writeBits_chunk (ucast b) 1 1 (bw_dst w) (bw_bit w) =
      (let i = bw_bit w div 8; dst = (if k = 0 then (bw_dst w)[i := 0] else bw_dst w)
       in dst[i := (if b \<noteq> 0 then dst ! i OR push_bit (7 - k) 1 else dst ! i AND NOT (push_bit (7 - k) 1))])"
    using k byte by (simp add: writeBits_chunk_def Let_def k_def)
  have shift7: "7 - k = 7 \<longleftrightarrow> k = 0" using k by auto
  show "writeBit b w = writeBits (ucast b) 1 w"
    using assms k shift7
    by (simp add: writeBit_def writeBits_def loop chunk [simplified] room Let_def k_def [symmetric])
qed

lemma emits_writeBit: "b \<le> 1 \<Longrightarrow> emits (writeBit b) [b = 1]"
proof -
  assume "b \<le> 1"
  then have "b = 0 \<or> b = 1" by (simp add: word_le_nat_alt word_unat_eq_iff) linarith
  then have "word_bits 1 (ucast b :: u64) = [b = 1]" by (auto simp: word_bits_def)
  then show ?thesis
    using emits_writeBits [of 1 "ucast b"] writeBit_eq_writeBits [OF \<open>b \<le> 1\<close>] by simp
qed

lemma emits_writeBool: "emits (writeBool b) [b]"
  using emits_writeBit [of 1] emits_writeBit [of 0] by (cases b) (simp_all add: writeBool_def)

lemma emits_wret: "emits wret []"
  by (auto simp: emits_def wret_def wr_bits_def intro!: exI [of _ "bw_dst w" for w])

lemma emits_wseq:
  assumes m: "emits m xs" and n: "emits n ys"
  shows "emits (wseq m n) (xs @ ys)"
  unfolding emits_def
proof (intro allI conjI impI)
  fix w :: bitWriter
  assume "bw_sizing w"
  then show "wseq m n w = (Inr (), w\<lparr>bw_bit := bw_bit w + length (xs @ ys)\<rparr>)"
    using m n by (simp add: emits_def wseq_def add.assoc)
next
  fix w :: bitWriter
  assume s: "\<not> bw_sizing w" and room: "bw_bit w + length (xs @ ys) \<le> 8 * length (bw_dst w)"
  from m s room obtain d where
    d: "m w = (Inr (), w\<lparr>bw_dst := d, bw_bit := bw_bit w + length xs\<rparr>)" "length d = length (bw_dst w)"
      "take (bw_bit w + length xs) (stream_bits d) = wr_bits w @ xs"
    unfolding emits_def by (elim allE [of _ w]) auto
  let ?w = "w\<lparr>bw_dst := d, bw_bit := bw_bit w + length xs\<rparr>"
  from n s room d(2) obtain d' where
    d': "n ?w = (Inr (), ?w\<lparr>bw_dst := d', bw_bit := bw_bit ?w + length ys\<rparr>)" "length d' = length d"
      "take (bw_bit ?w + length ys) (stream_bits d') = wr_bits ?w @ ys"
    unfolding emits_def by (elim allE [of _ ?w]) auto
  show "\<exists>dst. wseq m n w = (Inr (), w\<lparr>bw_dst := dst, bw_bit := bw_bit w + length (xs @ ys)\<rparr>) \<and>
      length dst = length (bw_dst w) \<and>
      take (bw_bit w + length (xs @ ys)) (stream_bits dst) = wr_bits w @ xs @ ys"
    using d d' by (intro exI [of _ d']) (simp add: wseq_def wr_bits_def add.assoc)
qed

lemma emits_writeZeros: "emits (writeZeros k) (replicate k False)"
proof (induction k)
  case (Suc k)
  then show ?case using emits_wseq [OF emits_writeBit [of 0] Suc] by simp
qed (simp add: emits_wret)

end
