(* ===== verification/Bit_Codec.thy ===== *)
theory Bit_Codec
  imports Bit_Reader Bit_Writer
begin

text \<open>
  The bit writer against the bit reader. A reader call \<open>reads\<close> a bit string when, in front of
  these bits, it returns the value and stops right behind them; a writer call \<open>emits\<close> a bit
  string. The locale \<open>syntax_codec\<close> is the contract between a writer and the reader of the
  same syntax element, and its lemmas carry the contract to whole buffers. The elementary
  syntax elements interpret it here, the header structures in their own theories.
\<close>

section \<open>Reader calls that consume a given bit string\<close>

definition reads :: "'a rd \<Rightarrow> bits \<Rightarrow> 'a \<Rightarrow> bool" where
  "reads m bs v \<longleftrightarrow>
     (\<forall>r rest. rd_bits r = bs @ rest \<longrightarrow> m r = (Inr v, advance (length bs) r))"

lemma readsD: "reads m bs v \<Longrightarrow> rd_bits r = bs @ rest \<Longrightarrow> m r = (Inr v, advance (length bs) r)"
  by (auto simp: reads_def)

lemma reads_rret [reads_intro]: "reads (rret v) [] v"
  by (simp add: reads_def rret_def)

lemma reads_rbind:
  assumes "reads m xs a" and "reads (f a) ys b"
  shows "reads (rbind m f) (xs @ ys) b"
  unfolding reads_def
proof (intro allI impI)
  fix r rest
  assume r: "rd_bits r = (xs @ ys) @ rest"
  then have "rd_bits (advance (length xs) r) = ys @ rest" by simp
  then show "rbind m f r = (Inr b, advance (length (xs @ ys)) r)"
    using readsD [OF assms(1), of r "ys @ rest"] readsD [OF assms(2)] r
    by (simp add: rbind_def add.commute)
qed

lemma reads_ReadBool: "reads ReadBool [b] b"
  by (auto simp: reads_def ReadBool_Cons)

lemma reads_ReadBit: "reads ReadBit [b] (of_bool b)"
  by (auto simp: reads_def ReadBit_Cons)

lemma reads_ReadBits:
  assumes "n \<le> 64" "length bs = unat n" "v = bits_word bs"
  shows "reads (ReadBits n) bs v"
  using assms by (auto simp: reads_def ReadBits_eq not_less)

lemma bits_word_word_bits64: "unat v < 2 ^ n \<Longrightarrow> bits_word (word_bits n v) = (v :: u64)"
  by (simp add: bits_word_word_bits take_bit_word_unat)

lemma reads_ReadBits_word:
  assumes "n \<le> 64" and "unat v < 2 ^ unat n"
  shows "reads (ReadBits n) (word_bits (unat n) v) v"
  using assms by (intro reads_ReadBits) (simp_all add: bits_word_word_bits64)

section \<open>Unsigned variable-length codes\<close>

text \<open>The code of \<open>v\<close>: as many zeros as \<open>v + 1\<close> has bits after its leading one, then \<open>v + 1\<close>.\<close>

definition uvlc_bits :: "u32 \<Rightarrow> bits" where
  "uvlc_bits v = (let c = ucast v + 1 :: u64; n = bit_len c in replicate (n - 1) False @ word_bits n c)"

lemma bit_len_props:
  fixes c :: "'a::len word"
  assumes "c \<noteq> 0"
  defines "n \<equiv> bit_len c"
  shows "0 < n" "n \<le> LENGTH('a)" "bit c (n - 1)" "take_bit n c = c"
proof -
  let ?bs = "word_bits LENGTH('a) c" and ?N = "LENGTH('a)"
  let ?z = "length (takeWhile Not ?bs)"
  have nth: "?bs ! i = bit c (?N - 1 - i)" if "i < ?N" for i using that by (simp add: word_bits_def)
  have "\<exists>b \<in> set ?bs. b"
  proof (rule ccontr)
    assume none: "\<not> (\<exists>b \<in> set ?bs. b)"
    have "\<not> bit c i" for i
      using none nth [of "?N - 1 - i"] by (cases "i < ?N") (auto simp: in_set_conv_nth bit_word_def dest: bit_imp_le_length)
    then show False using assms(1) by (auto intro: bit_word_eqI)
  qed
  then have "takeWhile Not ?bs \<noteq> ?bs" using takeWhile_eq_all_conv [of Not ?bs] by auto
  then have z: "?z < ?N"
    using length_takeWhile_le [of Not ?bs] takeWhile_eq_take [of Not ?bs] by (metis length_word_bits
      linorder_neqE_nat not_le take_all_iff order_refl)
  show "0 < n" "n \<le> ?N" using z by (simp_all add: n_def bit_len_def)
  show "bit c (n - 1)"
    using nth_length_takeWhile [of Not ?bs] nth [OF z] z by (simp add: n_def bit_len_def)
  show "take_bit n c = c"
  proof (rule bit_word_eqI)
    fix i assume i: "i < ?N"
    have "\<not> bit c i" if "n \<le> i"
    proof -
      have "?N - 1 - i < ?z" using that i z by (simp add: n_def bit_len_def)
      then have "\<not> ?bs ! (?N - 1 - i)"
        using set_takeWhileD [of "takeWhile Not ?bs ! (?N - 1 - i)" Not ?bs] takeWhile_nth [of "?N - 1 - i" Not ?bs]
        by (metis nth_mem)
      then show ?thesis using nth [of "?N - 1 - i"] i by simp
    qed
    then show "bit (take_bit n c) i = bit c i" by (cases "n \<le> i") (auto simp: bit_simps)
  qed
qed

lemma word_bits_Suc: "word_bits (Suc n) c = bit c n # word_bits n c"
  by (rule nth_equalityI) (auto simp: word_bits_def nth_Cons' simp del: upt_Suc)

lemma split_top_bit: "bit c z \<Longrightarrow> take_bit (Suc z) c = c \<Longrightarrow> (c :: 'a::len word) = 2 ^ z + take_bit z c"
proof -
  assume top: "bit c z" and "take_bit (Suc z) c = c"
  then have "bit c j \<longleftrightarrow> j = z \<or> j < z \<and> bit c j" for j
    by (metis bit_take_bit_iff less_Suc_eq)
  then have "c = push_bit z 1 OR take_bit z c"
    using bit_imp_le_length [OF top] by (intro bit_word_eqI) (auto simp: bit_simps)
  moreover have "push_bit z 1 AND take_bit z c = 0"
    by (rule bit_word_eqI) (auto simp: bit_simps)
  ultimately show ?thesis by (metis disjunctive_add_eq_or mult_1 push_bit_eq_mult)
qed

lemma emits_writeUVLC: "emits (writeUVLC v) (uvlc_bits v)"
proof -
  let ?c = "ucast v + 1 :: u64"
  have "unat ?c = unat v + 1"
    using unsigned_less [of v, where 'a = nat] by (simp add: unat_word_ariths unat_ucast_up)
  then have "?c \<noteq> 0" by (metis Suc_eq_plus1 nat.simps(3) unat_eq_0)
  note len = bit_len_props [OF this]
  then have "unat (word_of_nat (bit_len ?c) :: u8) = bit_len ?c"
    and "(word_of_nat (bit_len ?c) :: u8) \<le> 64"
    by (simp_all add: unat_of_nat word_le_nat_alt)
  then show ?thesis
    using emits_wseq [OF emits_writeZeros [of "bit_len ?c - 1"] emits_writeBits [of "word_of_nat (bit_len ?c)" ?c]]
    by (simp add: writeUVLC_def uvlc_bits_def Let_def)
qed

lemma reads_ReadUVLC:
  assumes v: "unat v < 2 ^ 32 - 1"
  shows "reads ReadUVLC (uvlc_bits v) v"
proof -
  let ?c = "ucast v + 1 :: u64"
  have c: "unat ?c = unat v + 1"
    using unsigned_less [of v, where 'a = nat] by (simp add: unat_word_ariths unat_ucast_up)
  then have "?c \<noteq> 0" by (metis Suc_eq_plus1 nat.simps(3) unat_eq_0)
  note len = bit_len_props [OF this]
  define z where "z = bit_len ?c - 1"
  have n: "bit_len ?c = Suc z" using len(1) by (simp add: z_def)
  have split: "?c = 2 ^ z + take_bit z ?c"
    by (rule split_top_bit [OF len(3) [folded z_def] len(4) [unfolded n]])
  have "z < 32"
  proof (rule ccontr)
    assume "\<not> z < 32"
    then have "\<not> bit (take_bit 32 ?c) z" by (simp add: bit_simps)
    moreover have "take_bit 32 ?c = ?c" using c v by (intro take_bit_word_unat) simp
    ultimately show False using len(3) by (simp add: z_def)
  qed
  show ?thesis
    unfolding reads_def
  proof (intro allI impI)
    fix r rest
    assume r: "rd_bits r = uvlc_bits v @ rest"
    have bits: "rd_bits r = replicate z False @ True # word_bits z ?c @ rest"
      using r len(3) by (simp add: uvlc_bits_def Let_def n word_bits_Suc)
    have lz: "leading_zero_bits (rd_bits r) = z"
      by (simp add: bits leading_zero_bits_all) (simp add: leading_zero_bits_def)
    have "ucast (push_bit z (1::u64) - 1 + bits_word (take z (drop (z + 1) (rd_bits r)))) = v"
    proof -
      have "push_bit z (1::u64) - 1 + take_bit z ?c = ucast v"
        using split by (simp add: push_bit_eq_mult algebra_simps)
      then show ?thesis by (simp add: bits bits_word_word_bits ucast_ucast_up)
    qed
    moreover have "length (uvlc_bits v) = 2 * z + 1" by (simp add: uvlc_bits_def Let_def n)
    ultimately show "ReadUVLC r = (Inr v, advance (length (uvlc_bits v)) r)"
      using \<open>z < 32\<close> by (simp add: ReadUVLC_eq uvlc_spec_def lz Let_def) (simp add: bits)
  qed
qed

section \<open>The contract of a writer and a reader\<close>

locale syntax_codec =
  fixes wr :: "'a \<Rightarrow> wr" and rd :: "'b rd" and enc :: "'a \<Rightarrow> bits" and view :: "'a \<Rightarrow> 'b"
    and valid :: "'a \<Rightarrow> bool"
  assumes wr_emits: "valid x \<Longrightarrow> emits (wr x) (enc x)"
    and rd_reads: "valid x \<Longrightarrow> reads rd (enc x) (view x)"
begin

text \<open>The sizing pass counts the bits that the second pass writes.\<close>

lemma sizing_exact: "valid x \<Longrightarrow> wr x newSizingBitWriter = (Inr (), newSizingBitWriter\<lparr>bw_bit := length (enc x)\<rparr>)"
  using wr_emits [of x] by (simp add: emits_def newSizingBitWriter_def)

text \<open>Written at any position with room for it, the element reads back from the same position.\<close>

lemma write_read:
  assumes "valid x" "\<not> bw_sizing w" "bw_bit w + length (enc x) \<le> 8 * length (bw_dst w)"
  shows "\<exists>w'. wr x w = (Inr (), w') \<and> length (bw_dst w') = length (bw_dst w) \<and>
    wr_bits w' = wr_bits w @ enc x \<and> bw_bit w' = bw_bit w + length (enc x) \<and>
    rd \<lparr>rd_src = bw_dst w', rd_bit = bw_bit w\<rparr> = (Inr (view x), \<lparr>rd_src = bw_dst w', rd_bit = bw_bit w'\<rparr>)"
proof -
  from wr_emits [OF assms(1)] assms(2,3) obtain d
    where d: "wr x w = (Inr (), w\<lparr>bw_dst := d, bw_bit := bw_bit w + length (enc x)\<rparr>)"
      "length d = length (bw_dst w)" "take (bw_bit w + length (enc x)) (stream_bits d) = wr_bits w @ enc x"
    by (auto simp: emits_def)
  let ?r = "\<lparr>rd_src = d, rd_bit = bw_bit w\<rparr>"
  have "length (wr_bits w) = bw_bit w" using assms(3) by (simp add: wr_bits_def)
  then have "drop (bw_bit w) (take (bw_bit w + length (enc x)) (stream_bits d)) = enc x" by (simp add: d(3))
  then have "take (length (enc x)) (rd_bits ?r) = enc x" by (simp add: rd_bits_def drop_take)
  then have "rd_bits ?r = enc x @ drop (length (enc x)) (rd_bits ?r)" by (metis append_take_drop_id)
  from readsD [OF rd_reads [OF assms(1)] this] d show ?thesis
    by (auto simp: advance_def wr_bits_def)
qed

end

text \<open>A writer followed by another one is the codec of the pair.\<close>

locale codec_pair = fst: syntax_codec wr1 rd1 enc1 view1 valid1 + snd: syntax_codec wr2 rd2 enc2 view2 valid2
  for wr1 :: "'a \<Rightarrow> wr" and rd1 :: "'b rd" and enc1 view1 valid1
    and wr2 :: "'c \<Rightarrow> wr" and rd2 :: "'d rd" and enc2 view2 valid2

sublocale codec_pair \<subseteq> pair: syntax_codec
  "\<lambda>(x, y). wseq (wr1 x) (wr2 y)" "rbind rd1 (\<lambda>a. rbind rd2 (\<lambda>b. rret (a, b)))"
  "\<lambda>(x, y). enc1 x @ enc2 y" "\<lambda>(x, y). (view1 x, view2 y)" "\<lambda>(x, y). valid1 x \<and> valid2 y"
proof unfold_locales
  fix x :: "'a \<times> 'c"
  assume v: "case x of (x, y) \<Rightarrow> valid1 x \<and> valid2 y"
  then show "emits (case x of (x, y) \<Rightarrow> wseq (wr1 x) (wr2 y)) (case x of (x, y) \<Rightarrow> enc1 x @ enc2 y)"
    by (auto intro: emits_wseq fst.wr_emits snd.wr_emits)
  have "reads (rbind rd1 (\<lambda>a. rbind rd2 (\<lambda>b. rret (a, b)))) (enc1 (fst x) @ enc2 (snd x) @ [])
      (view1 (fst x), view2 (snd x))"
    using v by (intro reads_rbind [OF fst.rd_reads reads_rbind [OF snd.rd_reads reads_rret]]) auto
  then show "reads (rbind rd1 (\<lambda>a. rbind rd2 (\<lambda>b. rret (a, b)))) (case x of (x, y) \<Rightarrow> enc1 x @ enc2 y)
      (case x of (x, y) \<Rightarrow> (view1 x, view2 y))"
    by (simp add: case_prod_unfold)
qed

text \<open>The elementary syntax elements: \<open>f(n)\<close>, one flag, \<open>uvlc()\<close>.\<close>

interpretation bits_codec: syntax_codec "\<lambda>(v, n). writeBits v n" "ReadBits n" "\<lambda>(v, n). word_bits (unat n) v"
  fst "\<lambda>(v, m). m = n \<and> n \<le> 64 \<and> unat v < 2 ^ unat n" for n
  by unfold_locales (auto intro: emits_writeBits reads_ReadBits_word)

interpretation bool_codec: syntax_codec writeBool ReadBool "\<lambda>b. [b]" "\<lambda>b. b" "\<lambda>b. True"
  by unfold_locales (auto intro: emits_writeBool reads_ReadBool)

interpretation uvlc_codec: syntax_codec writeUVLC ReadUVLC uvlc_bits "\<lambda>v. v" "\<lambda>v. unat v < 2 ^ 32 - 1"
  by unfold_locales (auto intro: emits_writeUVLC reads_ReadUVLC)

section \<open>Readers that only move forward\<close>

text \<open>
  A reader call is \<open>forward\<close> when it leaves the source alone, never moves back and never moves
  past the end: no call reads a byte outside its source, whatever it returns.
\<close>

definition forward :: "'a rd \<Rightarrow> bool" where
  "forward m \<longleftrightarrow> (\<forall>r. rd_wf r \<longrightarrow>
     rd_wf (snd (m r)) \<and> rd_src (snd (m r)) = rd_src r \<and> rd_bit r \<le> rd_bit (snd (m r)))"

lemma forwardD:
  assumes "forward m" "rd_wf r" "m r = (x, r')"
  shows "rd_wf r'" "rd_src r' = rd_src r" "rd_bit r \<le> rd_bit r'"
  using assms by (auto simp: forward_def)

lemma forward_rret [rd_safe]: "forward (rret v)"
  by (simp add: forward_def rret_def)

lemma forward_rfail [rd_safe]: "forward (rfail e)"
  by (simp add: forward_def rfail_def)

lemma forward_rbind [rd_safe]:
  assumes "forward m" "\<And>v. forward (f v)"
  shows "forward (rbind m f)"
  unfolding forward_def
proof (intro allI impI)
  fix r :: reader
  assume r: "rd_wf r"
  obtain x r' where m: "m r = (x, r')" by (cases "m r")
  note mr = forwardD [OF assms(1) r m]
  show "rd_wf (snd (rbind m f r)) \<and> rd_src (snd (rbind m f r)) = rd_src r \<and> rd_bit r \<le> rd_bit (snd (rbind m f r))"
  proof (cases x)
    case (Inr v)
    obtain y r'' where f: "f v r' = (y, r'')" by (cases "f v r'")
    from forwardD [OF assms(2) mr(1) f] mr show ?thesis by (simp add: rbind_def m Inr f)
  qed (use mr in \<open>simp add: rbind_def m\<close>)
qed

lemma forward_if [rd_safe]: "(c \<Longrightarrow> forward m) \<Longrightarrow> (\<not> c \<Longrightarrow> forward n) \<Longrightarrow> forward (if c then m else n)"
  by simp

lemma forward_Let [rd_safe]: "(\<And>v. forward (f v)) \<Longrightarrow> forward (let v = t in f v)"
  by simp

lemma forward_prod [rd_safe]: "(\<And>a b. forward (f a b)) \<Longrightarrow> forward (case p of (a, b) \<Rightarrow> f a b)"
  by (cases p) simp

lemma forward_advance: "(\<And>r. rd_wf r \<Longrightarrow> \<exists>k x. k \<le> length (rd_bits r) \<and> m r = (x, advance k r)) \<Longrightarrow> forward m"
  unfolding forward_def by (metis advance_simps le_add1 rd_wf_advance snd_conv)

lemma forward_ReadBits [rd_safe]: "forward (ReadBits n)"
  by (rule forward_advance) (auto simp: ReadBits_eq not_less advance_def intro: exI [of _ 0] exI [of _ "unat n"])

lemma forward_ReadBit [rd_safe]: "forward ReadBit"
proof (rule forward_advance)
  fix r show "\<exists>k x. k \<le> length (rd_bits r) \<and> ReadBit r = (x, advance k r)"
    by (cases "rd_bits r") (auto simp: ReadBit_Nil ReadBit_Cons advance_def intro: exI [of _ 0] exI [of _ 1])
qed

lemma forward_ReadBool [rd_safe]: "forward ReadBool"
  unfolding ReadBool_def by (intro rd_safe)

lemma forward_ReadUVLC [rd_safe]: "forward ReadUVLC"
proof (rule forward_advance)
  fix r
  have "leading_zero_bits (rd_bits r) \<le> length (rd_bits r)" by (rule leading_zero_bits_le)
  then show "\<exists>k x. k \<le> length (rd_bits r) \<and> ReadUVLC r = (x, advance k r)"
    unfolding ReadUVLC_eq uvlc_spec_def Let_def
    by (auto intro: exI [of _ 32] exI [of _ "length (rd_bits r)"]
        exI [of _ "Suc (leading_zero_bits (rd_bits r))"] exI [of _ "Suc (2 * leading_zero_bits (rd_bits r))"])
qed

lemma forward_SkipBits [rd_safe]: "forward (SkipBits n)"
  unfolding forward_def SkipBits_def by (auto simp: rd_wf_def BitsRemaining_def)

lemma forward_option [rd_safe]: "(x = None \<Longrightarrow> forward m) \<Longrightarrow> (\<And>v. x = Some v \<Longrightarrow> forward (f v)) \<Longrightarrow> forward (case x of None \<Rightarrow> m | Some v \<Rightarrow> f v)"
  by (cases x) auto

lemma forward_result [rd_safe]: "(\<And>e. forward (f e)) \<Longrightarrow> (\<And>v. forward (g v)) \<Longrightarrow> forward (case x of Inl e \<Rightarrow> f e | Inr v \<Rightarrow> g v)"
  by (cases x) auto

section \<open>Postconditions of reader calls\<close>

text \<open>\<open>rpost m P\<close>: whatever the input, a value that \<open>m\<close> returns satisfies \<open>P\<close>.\<close>

definition rpost :: "'a rd \<Rightarrow> ('a \<Rightarrow> bool) \<Rightarrow> bool" where
  "rpost m P \<longleftrightarrow> (\<forall>r v r'. m r = (Inr v, r') \<longrightarrow> P v)"

lemma rpostD: "rpost m P \<Longrightarrow> m r = (Inr v, r') \<Longrightarrow> P v"
  by (auto simp: rpost_def)

lemma rpost_rret [rd_post]: "P v \<Longrightarrow> rpost (rret v) P"
  by (auto simp: rpost_def rret_def)

lemma rpost_rfail [rd_post]: "rpost (rfail e) P"
  by (auto simp: rpost_def rfail_def)

lemma rpost_rbind: "rpost m P \<Longrightarrow> (\<And>v. P v \<Longrightarrow> rpost (f v) Q) \<Longrightarrow> rpost (rbind m f) Q"
  unfolding rpost_def rbind_def by (fastforce split: prod.splits sum.splits)

lemma rpost_if [rd_post]: "(c \<Longrightarrow> rpost m P) \<Longrightarrow> (\<not> c \<Longrightarrow> rpost n P) \<Longrightarrow> rpost (if c then m else n) P"
  by simp

lemma rpost_Let [rd_post]: "rpost (f t) P \<Longrightarrow> rpost (let x = t in f x) P"
  by simp

lemma rpost_conseq: "rpost m P \<Longrightarrow> (\<And>v. P v \<Longrightarrow> Q v) \<Longrightarrow> rpost m Q"
  by (auto simp: rpost_def)

lemma rpost_ReadBits: "rpost (ReadBits n) (\<lambda>v. unat v < 2 ^ unat n)"
proof -
  have "unat (bits_word (take (unat n) (rd_bits r)) :: u64) < 2 ^ unat n" if "n \<le> 64" "unat n \<le> length (rd_bits r)" for r
  proof (cases "n = 64")
    case True
    then show ?thesis using unsigned_less [of "bits_word (take 64 (rd_bits r)) :: u64", where 'a = nat] by simp
  next
    case False
    then have "unat n < 64" using that(1) by (simp add: word_le_nat_alt word_unat_eq_iff)
    then show ?thesis
      using that unat_bits_word_less [of "take (unat n) (rd_bits r)", where 'a = 64] by (simp add: min.absorb2)
  qed
  then show ?thesis by (auto simp: rpost_def ReadBits_eq not_less split: if_splits)
qed

lemma rpost_any: "(\<And>v. P v) \<Longrightarrow> rpost m P"
  by (auto simp: rpost_def)

lemma rpost_bind_any: "(\<And>v. rpost (f v) Q) \<Longrightarrow> rpost (rbind m f) Q"
  by (rule rpost_rbind [OF rpost_any]) simp_all

lemma rpost_bind_ReadBits [rd_post]:
  "(\<And>v. unat v < 2 ^ unat n \<Longrightarrow> rpost (f v) Q) \<Longrightarrow> rpost (rbind (ReadBits n) f) Q"
  by (rule rpost_rbind [OF rpost_ReadBits])

lemma rpost_bind_ReadBool [rd_post]: "(\<And>b. rpost (f b) Q) \<Longrightarrow> rpost (rbind ReadBool f) Q"
  by (rule rpost_rbind [OF rpost_any]) simp_all

lemma rpost_bind_ReadUVLC [rd_post]: "(\<And>v. rpost (f v) Q) \<Longrightarrow> rpost (rbind ReadUVLC f) Q"
  by (rule rpost_rbind [OF rpost_any]) simp_all

lemma rpost_bind_rret [rd_post]: "rpost (f v) Q \<Longrightarrow> rpost (rbind (rret v) f) Q"
  by (simp add: rpost_def rbind_def rret_def)

lemma rpost_bind_if [rd_post]:
  "(c \<Longrightarrow> rpost (rbind m f) Q) \<Longrightarrow> (\<not> c \<Longrightarrow> rpost (rbind n f) Q) \<Longrightarrow> rpost (rbind (if c then m else n) f) Q"
  by simp

lemma rbind_assoc: "rbind (rbind m f) g = rbind m (\<lambda>v. rbind (f v) g)"
  by (auto simp: rbind_def split: prod.splits sum.splits)

lemma rpost_bind_bind [rd_post]: "rpost (rbind m (\<lambda>v. rbind (f v) g)) Q \<Longrightarrow> rpost (rbind (rbind m f) g) Q"
  by (simp add: rbind_assoc)

lemma rpost_bind_Let [rd_post]: "rpost (rbind (f t) g) Q \<Longrightarrow> rpost (rbind (let x = t in f x) g) Q"
  by simp

lemma rpost_bind_rfail [rd_post]: "rpost (rbind (rfail e) f) Q"
  by (simp add: rpost_def rbind_def rfail_def)

section \<open>Properties\<close>

text \<open>
  What \<open>writeBits\<close> stores, at any bit position and across byte boundaries, \<open>ReadBits\<close> reads back
  from the same position; the bits written before stay as they were.
\<close>

theorem writeBits_ReadBits:
  assumes "n \<le> 64" "unat v < 2 ^ unat n" "\<not> bw_sizing w" "bw_bit w + unat n \<le> 8 * length (bw_dst w)"
  shows "\<exists>w'. writeBits v n w = (Inr (), w') \<and> length (bw_dst w') = length (bw_dst w) \<and>
    wr_bits w' = wr_bits w @ word_bits (unat n) v \<and>
    ReadBits n \<lparr>rd_src = bw_dst w', rd_bit = bw_bit w\<rparr> = (Inr v, \<lparr>rd_src = bw_dst w', rd_bit = bw_bit w'\<rparr>)"
  using bits_codec.write_read [of n "(v, n)" w] assms by auto

theorem writeBits_ReadBits_witness:
  "\<exists>w'. writeBits 0x2a5 10 \<lparr>bw_dst = [0xe0, 0, 0xff], bw_bit = 3, bw_sizing = False\<rparr> = (Inr (), w') \<and>
     ReadBits 10 \<lparr>rd_src = bw_dst w', rd_bit = 3\<rparr> = (Inr 0x2a5, \<lparr>rd_src = bw_dst w', rd_bit = bw_bit w'\<rparr>)"
  using writeBits_ReadBits [of 10 "0x2a5" "\<lparr>bw_dst = [0xe0, 0, 0xff], bw_bit = 3, bw_sizing = False\<rparr>"] by auto

text \<open>
  \<open>writeUVLC\<close> and \<open>ReadUVLC\<close> agree on every value below \<open>2 ^ 32 - 1\<close>; the sizing writer counts
  exactly the bits that are then written.
\<close>

theorem writeUVLC_ReadUVLC:
  assumes "unat v < 2 ^ 32 - 1" "\<not> bw_sizing w"
    and "writeUVLC v newSizingBitWriter = (Inr (), s)" "bw_bit w + bw_bit s \<le> 8 * length (bw_dst w)"
  shows "\<exists>w'. writeUVLC v w = (Inr (), w') \<and> bw_bit w' = bw_bit w + bw_bit s \<and>
    ReadUVLC \<lparr>rd_src = bw_dst w', rd_bit = bw_bit w\<rparr> = (Inr v, \<lparr>rd_src = bw_dst w', rd_bit = bw_bit w'\<rparr>)"
proof -
  have s: "bw_bit s = length (uvlc_bits v)" using uvlc_codec.sizing_exact [OF assms(1)] assms(3) by auto
  with uvlc_codec.write_read [OF assms(1,2)] assms(4) obtain w' where
    "writeUVLC v w = (Inr (), w')" "bw_bit w' = bw_bit w + length (uvlc_bits v)"
      "ReadUVLC \<lparr>rd_src = bw_dst w', rd_bit = bw_bit w\<rparr> = (Inr v, \<lparr>rd_src = bw_dst w', rd_bit = bw_bit w'\<rparr>)"
    by auto
  then show ?thesis using s by auto
qed

theorem writeUVLC_ReadUVLC_witness:
  "\<exists>w'. writeUVLC 5 \<lparr>bw_dst = [0, 0], bw_bit = 2, bw_sizing = False\<rparr> = (Inr (), w') \<and>
     ReadUVLC \<lparr>rd_src = bw_dst w', rd_bit = 2\<rparr> = (Inr 5, \<lparr>rd_src = bw_dst w', rd_bit = bw_bit w'\<rparr>)"
proof -
  have "writeUVLC 5 newSizingBitWriter = (Inr (), newSizingBitWriter\<lparr>bw_bit := 5\<rparr>)" by code_simp
  from writeUVLC_ReadUVLC [OF _ _ this, of "\<lparr>bw_dst = [0, 0], bw_bit = 2, bw_sizing = False\<rparr>"] show ?thesis by auto
qed

end
