(* ===== verification/Header_Codec.thy ===== *)
theory Header_Codec
  imports Bit_Codec
begin

text \<open>
  Composition rules for whole header structures. \<open>codes w r v\<close> says that the reader \<open>r\<close> decodes
  to \<open>v\<close> exactly the bits that the writer \<open>w\<close> emits; the rules run a writer and a reader of the
  same syntax side by side. The second part is about payloads: header bits closed by AV1's
  trailing bits, as every header payload of the encoder is.
\<close>

named_theorems codes_intro \<open>side by side execution of a writer and a reader\<close>

section \<open>A writer and a reader side by side\<close>

definition codes :: "wr \<Rightarrow> 'a rd \<Rightarrow> 'a \<Rightarrow> bool" where
  "codes w r v \<longleftrightarrow> (\<exists>bs. emits w bs \<and> reads r bs v)"

lemma wseq_assoc: "wseq (wseq m n) k = wseq m (wseq n k)"
  by (auto simp: wseq_def fun_eq_iff split: prod.splits sum.splits)

lemma wseq_wret [simp]: "wseq wret m = m" "wseq m wret = m"
  by (auto simp: wseq_def wret_def fun_eq_iff split: prod.splits sum.splits)

lemma rbind_rret [simp]: "rbind (rret v) f = f v" "rbind m rret = m"
  by (auto simp: rbind_def rret_def fun_eq_iff split: prod.splits sum.splits)

lemma wseqs_simps: "wseqs [] = wret" "wseqs (m # ms) = wseq m (wseqs ms)"
  by (simp_all add: wseqs_def)

lemma codes_seq: "codes m r a \<Longrightarrow> codes w (f a) v \<Longrightarrow> codes (wseq m w) (rbind r f) v"
  unfolding codes_def by (blast intro: emits_wseq reads_rbind)

lemma codes_done [codes_intro]: "v = v' \<Longrightarrow> codes wret (rret v) v'"
  unfolding codes_def by (intro exI [of _ "[]"]) (simp add: emits_wret reads_rret)

lemma codes_done_seqs [codes_intro]: "v = v' \<Longrightarrow> codes (wseqs []) (rret v) v'"
  by (simp add: wseqs_simps codes_done)

lemma codes_seqs [codes_intro]: "codes (wseq m (wseqs ms)) r v \<Longrightarrow> codes (wseqs (m # ms)) r v"
  by (simp add: wseqs_simps)

lemma codes_writeBits: "n \<le> 64 \<Longrightarrow> unat v < 2 ^ unat n \<Longrightarrow> codes (writeBits v n) (ReadBits n) v"
  unfolding codes_def using emits_writeBits reads_ReadBits_word by blast

lemma codes_writeBool: "codes (writeBool b) ReadBool b"
  unfolding codes_def using emits_writeBool reads_ReadBool by blast

lemma codes_writeUVLC: "unat v < 2 ^ 32 - 1 \<Longrightarrow> codes (writeUVLC v) ReadUVLC v"
  unfolding codes_def using emits_writeUVLC reads_ReadUVLC by blast

lemma codes_seq_bits [codes_intro]:
  "n = n' \<Longrightarrow> n \<le> 64 \<Longrightarrow> unat v < 2 ^ unat n \<Longrightarrow> codes w (f v) x \<Longrightarrow> codes (wseq (writeBits v n) w) (rbind (ReadBits n') f) x"
  by (auto intro: codes_seq codes_writeBits)

lemma codes_seq_bool [codes_intro]: "codes w (f b) x \<Longrightarrow> codes (wseq (writeBool b) w) (rbind ReadBool f) x"
  by (rule codes_seq [OF codes_writeBool])

lemma codes_seq_uvlc [codes_intro]:
  "unat v < 2 ^ 32 - 1 \<Longrightarrow> codes w (f v) x \<Longrightarrow> codes (wseq (writeUVLC v) w) (rbind ReadUVLC f) x"
  by (rule codes_seq [OF codes_writeUVLC])

lemma codes_last_bits [codes_intro]:
  "n = n' \<Longrightarrow> n \<le> 64 \<Longrightarrow> unat v < 2 ^ unat n \<Longrightarrow> codes wret (f v) x \<Longrightarrow> codes (writeBits v n) (rbind (ReadBits n') f) x"
  using codes_seq_bits [of n n' v wret] by simp

lemma codes_last_bool [codes_intro]: "codes wret (f b) x \<Longrightarrow> codes (writeBool b) (rbind ReadBool f) x"
  using codes_seq_bool [of wret] by simp

lemma codes_last_uvlc [codes_intro]:
  "unat v < 2 ^ 32 - 1 \<Longrightarrow> codes wret (f v) x \<Longrightarrow> codes (writeUVLC v) (rbind ReadUVLC f) x"
  using codes_seq_uvlc [of v wret] by simp

lemmas codes_step = codes_done codes_seq_bits codes_seq_bool codes_seq_uvlc codes_last_bits codes_last_bool codes_last_uvlc
lemmas codes_flat = wseqs_simps wseq_assoc rbind_assoc Let_def

lemma wseqs_append: "wseqs (xs @ ys) = wseq (wseqs xs) (wseqs ys)"
  by (induction xs) (simp_all add: wseqs_simps wseq_assoc)

text \<open>Structure of the writer: nested sequences and conditionals come apart on both sides.\<close>

lemma codes_wseq_assoc [codes_intro]: "codes (wseq m (wseq n k)) r v \<Longrightarrow> codes (wseq (wseq m n) k) r v"
  by (simp add: wseq_assoc)

lemma codes_wseq_seqs [codes_intro]:
  "codes (wseq m (wseq (wseqs ms) k)) r v \<Longrightarrow> codes (wseq (wseqs (m # ms)) k) r v"
  "codes k r v \<Longrightarrow> codes (wseq (wseqs []) k) r v"
  "codes k r v \<Longrightarrow> codes (wseq wret k) r v"
  by (simp_all add: wseqs_simps wseq_assoc)

lemma codes_wseq_if [codes_intro]:
  "(c \<Longrightarrow> codes (wseq m k) r v) \<Longrightarrow> (\<not> c \<Longrightarrow> codes (wseq n k) r v) \<Longrightarrow> codes (wseq (if c then m else n) k) r v"
  by simp

lemma codes_if [codes_intro]:
  "(c \<Longrightarrow> codes m r v) \<Longrightarrow> (\<not> c \<Longrightarrow> codes n r v) \<Longrightarrow> codes (if c then m else n) r v"
  by simp

lemma codes_rif [codes_intro]:
  "(c \<Longrightarrow> codes w r v) \<Longrightarrow> (\<not> c \<Longrightarrow> codes w s v) \<Longrightarrow> codes w (if c then r else s) v"
  by simp

lemma codes_rif_not: "\<not> c \<Longrightarrow> codes w s v \<Longrightarrow> codes w (if c then r else s) v"
  by simp

lemma codes_rbind_if [codes_intro]:
  "(c \<Longrightarrow> codes w (rbind r f) v) \<Longrightarrow> (\<not> c \<Longrightarrow> codes w (rbind s f) v) \<Longrightarrow> codes w (rbind (if c then r else s) f) v"
  by simp

lemma codes_rbind_assoc [codes_intro]: "codes w (rbind m (\<lambda>v. rbind (f v) g)) x \<Longrightarrow> codes w (rbind (rbind m f) g) x"
  by (simp add: rbind_assoc)

lemma codes_rbind_rret [codes_intro]: "codes w (f v) x \<Longrightarrow> codes w (rbind (rret v) f) x"
  by simp

lemma codes_Let [codes_intro]: "codes w (f t) v \<Longrightarrow> codes w (let x = t in f x) v"
  by simp

lemma codes_rbind_Let [codes_intro]: "codes w (rbind (f t) g) v \<Longrightarrow> codes w (rbind (let x = t in f x) g) v"
  by simp

lemma codes_wLet [codes_intro]: "codes (f t) r v \<Longrightarrow> codes (let x = t in f x) r v"
  by simp

lemma codes_conv: "codes w r v \<Longrightarrow> w = w' \<Longrightarrow> r = r' \<Longrightarrow> v = v' \<Longrightarrow> codes w' r' v'"
  by simp

text \<open>The bits a writer call emits, by running it: first to size its buffer, then to fill it.\<close>

definition emitted :: "wr \<Rightarrow> bits" where
  "emitted m = wr_bits (snd (m (newBitWriter (replicate (bytesWritten (snd (m newSizingBitWriter))) 0))))"

lemma emitted_emits:
  assumes "emits m bs" shows "emitted m = bs"
proof -
  let ?n = "(length bs + 7) div 8" and ?w = "newBitWriter (replicate ((length bs + 7) div 8) 0)"
  have s: "bytesWritten (snd (m newSizingBitWriter)) = ?n"
    using assms by (simp add: emits_def newSizingBitWriter_def bytesWritten_def)
  have "length bs \<le> 8 * ?n" by linarith
  then obtain d where "m ?w = (Inr (), ?w\<lparr>bw_dst := d, bw_bit := bw_bit ?w + length bs\<rparr>)"
      "take (bw_bit ?w + length bs) (stream_bits d) = wr_bits ?w @ bs"
    using assms unfolding emits_def by (elim allE [of _ ?w]) (auto simp: newBitWriter_def)
  then show ?thesis unfolding emitted_def s by (simp add: wr_bits_def newBitWriter_def)
qed

lemma codes_emitted: "codes w r v \<Longrightarrow> emits w (emitted w) \<and> reads r (emitted w) v"
  by (auto simp: codes_def emitted_emits)

section \<open>Payloads closed by trailing bits\<close>

definition pad_bits :: "nat \<Rightarrow> nat" where
  "pad_bits n = (8 - n mod 8) mod 8"

lemma writeZeroByteAlignment_eq: "writeZeroByteAlignment w = writeZeros (pad_bits (bw_bit w)) w"
proof (induction "pad_bits (bw_bit w)" arbitrary: w)
  case 0
  then have "byteAligned w"
    using mod_less_divisor [of 8 "bw_bit w"] by (cases "bw_bit w mod 8 = 0") (auto simp: pad_bits_def byteAligned_def)
  then show ?case using 0 by (simp add: writeZeroByteAlignment.simps wret_def flip: 0)
next
  case (Suc k)
  have na: "bw_bit w mod 8 \<noteq> 0" using Suc.hyps(2) by (cases "bw_bit w mod 8 = 0") (simp_all add: pad_bits_def)
  have pad: "pad_bits (bw_bit w + 1) = k"
    using Suc.hyps(2) na unfolding pad_bits_def by (cases "bw_bit w mod 8 = 7") (auto simp: mod_Suc)
  show ?case
  proof (cases "writeBit 0 w")
    case (Pair x w')
    show ?thesis
    proof (cases x)
      case (Inl e)
      then show ?thesis using Pair na
        by (simp add: writeZeroByteAlignment.simps [of w] byteAligned_def wseq_def flip: Suc.hyps(2))
    next
      case (Inr u)
      then have "bw_bit w' = bw_bit w + 1" using Pair writeBit_advances by blast
      then have "writeZeroByteAlignment w' = writeZeros k w'" using Suc.hyps(1) [of w'] pad by simp
      then show ?thesis using Pair Inr na
        by (simp add: writeZeroByteAlignment.simps [of w] byteAligned_def wseq_def flip: Suc.hyps(2))
    qed
  qed
qed

text \<open>From the first bit of a byte on, the trailing bits depend only on the length of what is before.\<close>

definition payload_bits :: "bits \<Rightarrow> bits" where
  "payload_bits bs = bs @ True # replicate (pad_bits (length bs + 1)) False"

definition payload_size :: "bits \<Rightarrow> nat" where
  "payload_size bs = length bs div 8 + 1"

lemma length_payload_bits: "length (payload_bits bs) = 8 * payload_size bs"
proof -
  define q k where "q = length bs div 8" and "k = length bs mod 8"
  have "length bs = 8 * q + k" "k < 8" by (simp_all add: q_def k_def)
  then show ?thesis
    by (cases "k = 7") (simp_all add: payload_bits_def payload_size_def pad_bits_def mod_Suc div_mult_self1)
qed

lemma writeTrailingBits_at:
  assumes "emits m bs" "bw_bit w = 0" "bw_sizing w \<or> payload_size bs \<le> length (bw_dst w)"
  shows "wseq m writeTrailingBits w = wseq m (wseq (writeBit 1) (writeZeros (pad_bits (length bs + 1)))) w"
proof -
  have room: "length bs + 1 \<le> 8 * payload_size bs" by (simp add: payload_size_def)
  obtain w1 where w1: "m w = (Inr (), w1)" "bw_bit w1 = length bs" "bw_sizing w1 = bw_sizing w"
      "length (bw_dst w1) = length (bw_dst w)"
    using assms room unfolding emits_def by (elim allE [of _ w]) (cases "bw_sizing w", auto)
  have e1: "emits (writeBit 1) [True]" using emits_writeBit [of 1] by simp
  obtain w2 where w2: "writeBit 1 w1 = (Inr (), w2)" "bw_bit w2 = length bs + 1"
    using e1 w1 assms(3) room unfolding emits_def by (elim allE [of _ w1]) (cases "bw_sizing w", auto)
  show ?thesis
    by (simp add: wseq_def w1(1) writeTrailingBits_def w2 writeZeroByteAlignment_eq)
qed

lemma emits_payload:
  assumes "emits m bs"
  shows "emits (wseq m (wseq (writeBit 1) (writeZeros (pad_bits (length bs + 1))))) (payload_bits bs)"
  using emits_wseq [OF assms emits_wseq [OF emits_writeBit [of 1] emits_writeZeros]] by (simp add: payload_bits_def)

lemma payload_sizing:
  assumes "emits m bs"
  shows "wseq m writeTrailingBits newSizingBitWriter = (Inr (), newSizingBitWriter\<lparr>bw_bit := 8 * payload_size bs\<rparr>)"
  using writeTrailingBits_at [OF assms, of newSizingBitWriter] emits_payload [OF assms]
  by (simp add: emits_def newSizingBitWriter_def length_payload_bits)

lemma payload_filling:
  assumes "emits m bs" "length dst = payload_size bs"
  shows "\<exists>d. wseq m writeTrailingBits (newBitWriter dst) = (Inr (), (newBitWriter dst)\<lparr>bw_dst := d, bw_bit := 8 * length dst\<rparr>) \<and>
    length d = length dst \<and> stream_bits d = payload_bits bs"
  using writeTrailingBits_at [OF assms(1), of "newBitWriter dst"] emits_payload [OF assms(1)] assms(2)
  unfolding emits_def
  by (elim allE [of _ "newBitWriter dst"]) (auto simp: newBitWriter_def length_payload_bits wr_bits_def)

lemma payload_reading:
  assumes "reads rd bs v" "stream_bits d = payload_bits bs"
  shows "fst (rbind rd (\<lambda>x. rbind ReadTrailingBits (\<lambda>_. rret x)) (NewReader d)) = Inr v"
proof -
  have r: "rd (NewReader d) = (Inr v, advance (length bs) (NewReader d))"
    using assms by (intro readsD [OF assms(1)]) (simp add: payload_bits_def)
  have wf: "rd_wf (advance (length bs) (NewReader d))"
    using arg_cong [OF assms(2), of length] by (simp add: rd_wf_def payload_bits_def NewReader_def)
  have "rd_bits (advance (length bs) (NewReader d)) = True # replicate (pad_bits (length bs + 1)) False"
    using assms(2) by (simp add: payload_bits_def)
  from ReadTrailingBits_zeros [OF wf this] show ?thesis by (simp add: rbind_def r rret_def)
qed

context syntax_codec
begin

text \<open>A payload of the element: sized and filled by the same calls, then read back.\<close>

lemma payload_write_read:
  assumes "valid x" "wseq (wr x) writeTrailingBits newSizingBitWriter = (Inr (), s)" "length dst = bytesWritten s"
  shows "\<exists>w. wseq (wr x) writeTrailingBits (newBitWriter dst) = (Inr (), w) \<and> length (bw_dst w) = length dst \<and>
    fst (rbind rd (\<lambda>v. rbind ReadTrailingBits (\<lambda>_. rret v)) (NewReader (bw_dst w))) = Inr (view x)"
proof -
  have n: "length dst = payload_size (enc x)"
    using payload_sizing [OF wr_emits [OF assms(1)]] assms(2,3) by (auto simp: bytesWritten_def)
  from payload_filling [OF wr_emits [OF assms(1)] n] payload_reading [OF rd_reads [OF assms(1)]]
  show ?thesis by fastforce
qed

end

end
