(* ===== verification/Seq_Parser.thy ===== *)
theory Seq_Parser
  imports Bit_Codec
begin

text \<open>
  \<open>internal/av1/parser/sequence.go\<close> and \<open>operating_point.go\<close>: the sequence header of a stream and
  the choice of an operating point. A Go function that fills a struct through a pointer takes
  the struct and returns it; a struct starts as Go's zero value, and an array of 32 elements is
  a list of that length.
\<close>

section \<open>Data\<close>

definition ColorPrimariesBT709 :: u8 where "ColorPrimariesBT709 = 1"
definition TransferCharacteristicsSRGB :: u8 where "TransferCharacteristicsSRGB = 13"
definition MatrixCoefficientsIdentity :: u8 where "MatrixCoefficientsIdentity = 0"
definition SelectScreenContentTools :: u8 where "SelectScreenContentTools = 2"
definition SelectIntegerMV :: u8 where "SelectIntegerMV = 2"
definition SeqLevelMax :: u8 where "SeqLevelMax = 31"

lemmas seq_consts = ColorPrimariesBT709_def TransferCharacteristicsSRGB_def MatrixCoefficientsIdentity_def
  SelectScreenContentTools_def SelectIntegerMV_def SeqLevelMax_def

record TimingInfo =
  tm_NumUnitsInDisplayTick :: u32
  tm_TimeScale :: u32
  tm_EqualPictureInterval :: bool
  tm_NumTicksPerPictureMinus1 :: u32

record DecoderModelInfo =
  dm_BufferDelayLength :: u8
  dm_NumUnitsInDecodingTick :: u32
  dm_BufferRemovalTimeLength :: u8
  dm_FramePresentationTimeLength :: u8

record OperatingPoint =
  op_IDC :: u16
  op_SeqLevelIdx :: u8
  op_SeqTier :: u8
  op_DecoderModelPresent :: bool
  op_DecoderBufferDelay :: u32
  op_EncoderBufferDelay :: u32
  op_LowDelayMode :: bool
  op_InitialDisplayDelayPresent :: bool
  op_InitialDisplayDelayMinus1 :: u8

record ColorConfig =
  cc_HighBitdepth :: bool
  cc_TwelveBit :: bool
  cc_BitDepth :: u8
  cc_MonoChrome :: bool
  cc_ColorDescriptionPresent :: bool
  cc_ColorPrimaries :: u8
  cc_TransferCharacteristics :: u8
  cc_MatrixCoefficients :: u8
  cc_ColorRange :: bool
  cc_SubsamplingX :: bool
  cc_SubsamplingY :: bool
  cc_ChromaSamplePosition :: u8
  cc_SeparateUVDeltaQ :: bool

record SequenceHeader =
  sh_SeqProfile :: u8
  sh_StillPicture :: bool
  sh_ReducedStillPictureHeader :: bool
  sh_TimingInfoPresent :: bool
  sh_DecoderModelInfoPresent :: bool
  sh_InitialDisplayDelayPresent :: bool
  sh_TimingInfo :: TimingInfo
  sh_DecoderModelInfo :: DecoderModelInfo
  sh_OperatingPointsCount :: u8
  sh_OperatingPoints :: "OperatingPoint list"
  sh_FrameWidthBits :: u8
  sh_FrameHeightBits :: u8
  sh_MaxFrameWidth :: u32
  sh_MaxFrameHeight :: u32
  sh_FrameIDNumbersPresent :: bool
  sh_DeltaFrameIDLength :: u8
  sh_AdditionalFrameIDLength :: u8
  sh_Use128x128Superblock :: bool
  sh_EnableFilterIntra :: bool
  sh_EnableIntraEdgeFilter :: bool
  sh_EnableInterIntraCompound :: bool
  sh_EnableMaskedCompound :: bool
  sh_EnableWarpedMotion :: bool
  sh_EnableDualFilter :: bool
  sh_EnableOrderHint :: bool
  sh_EnableJNTComp :: bool
  sh_EnableRefFrameMVS :: bool
  sh_SeqForceScreenContentTools :: u8
  sh_SeqForceIntegerMV :: u8
  sh_OrderHintBits :: u8
  sh_EnableSuperRes :: bool
  sh_EnableCDEF :: bool
  sh_EnableRestoration :: bool
  sh_ColorConfig :: ColorConfig
  sh_FilmGrainParamsPresent :: bool

definition zero_TimingInfo :: TimingInfo where
  "zero_TimingInfo = \<lparr>tm_NumUnitsInDisplayTick = 0, tm_TimeScale = 0, tm_EqualPictureInterval = False,
     tm_NumTicksPerPictureMinus1 = 0\<rparr>"

definition zero_DecoderModelInfo :: DecoderModelInfo where
  "zero_DecoderModelInfo = \<lparr>dm_BufferDelayLength = 0, dm_NumUnitsInDecodingTick = 0,
     dm_BufferRemovalTimeLength = 0, dm_FramePresentationTimeLength = 0\<rparr>"

definition zero_OperatingPoint :: OperatingPoint where
  "zero_OperatingPoint = \<lparr>op_IDC = 0, op_SeqLevelIdx = 0, op_SeqTier = 0, op_DecoderModelPresent = False,
     op_DecoderBufferDelay = 0, op_EncoderBufferDelay = 0, op_LowDelayMode = False,
     op_InitialDisplayDelayPresent = False, op_InitialDisplayDelayMinus1 = 0\<rparr>"

definition zero_ColorConfig :: ColorConfig where
  "zero_ColorConfig = \<lparr>cc_HighBitdepth = False, cc_TwelveBit = False, cc_BitDepth = 0, cc_MonoChrome = False,
     cc_ColorDescriptionPresent = False, cc_ColorPrimaries = 0, cc_TransferCharacteristics = 0,
     cc_MatrixCoefficients = 0, cc_ColorRange = False, cc_SubsamplingX = False, cc_SubsamplingY = False,
     cc_ChromaSamplePosition = 0, cc_SeparateUVDeltaQ = False\<rparr>"

definition zero_SequenceHeader :: SequenceHeader where
  "zero_SequenceHeader = \<lparr>sh_SeqProfile = 0, sh_StillPicture = False, sh_ReducedStillPictureHeader = False,
     sh_TimingInfoPresent = False, sh_DecoderModelInfoPresent = False, sh_InitialDisplayDelayPresent = False,
     sh_TimingInfo = zero_TimingInfo, sh_DecoderModelInfo = zero_DecoderModelInfo, sh_OperatingPointsCount = 0,
     sh_OperatingPoints = replicate 32 zero_OperatingPoint, sh_FrameWidthBits = 0, sh_FrameHeightBits = 0,
     sh_MaxFrameWidth = 0, sh_MaxFrameHeight = 0, sh_FrameIDNumbersPresent = False, sh_DeltaFrameIDLength = 0,
     sh_AdditionalFrameIDLength = 0, sh_Use128x128Superblock = False, sh_EnableFilterIntra = False,
     sh_EnableIntraEdgeFilter = False, sh_EnableInterIntraCompound = False, sh_EnableMaskedCompound = False,
     sh_EnableWarpedMotion = False, sh_EnableDualFilter = False, sh_EnableOrderHint = False,
     sh_EnableJNTComp = False, sh_EnableRefFrameMVS = False, sh_SeqForceScreenContentTools = 0,
     sh_SeqForceIntegerMV = 0, sh_OrderHintBits = 0, sh_EnableSuperRes = False, sh_EnableCDEF = False,
     sh_EnableRestoration = False, sh_ColorConfig = zero_ColorConfig, sh_FilmGrainParamsPresent = False\<rparr>"

section \<open>Parsing\<close>

definition ValidSequenceLevelIndex :: "u8 \<Rightarrow> bool" where
  "ValidSequenceLevelIndex level =
     (if level = SeqLevelMax then True
      else if level \<ge> 28 then False
      else level \<notin> {2, 3, 6, 7, 10, 11, 20, 21, 22, 23, 24, 25, 26, 27})"

definition readSequenceLevel :: "u8 rd" where
  "readSequenceLevel =
     rbind (ReadBits 5) (\<lambda>level.
       if \<not> ValidSequenceLevelIndex (ucast level) then rfail ErrInvalidSequenceHeader
       else rret (ucast level))"

definition parseTimingInfo :: "TimingInfo \<Rightarrow> TimingInfo rd" where
  "parseTimingInfo timing =
     rbind (ReadBits 32) (\<lambda>v. let timing = timing\<lparr>tm_NumUnitsInDisplayTick := ucast v\<rparr> in
     rbind (ReadBits 32) (\<lambda>v. let timing = timing\<lparr>tm_TimeScale := ucast v\<rparr> in
     rbind ReadBool (\<lambda>b. let timing = timing\<lparr>tm_EqualPictureInterval := b\<rparr> in
     if b then rbind ReadUVLC (\<lambda>n. rret (timing\<lparr>tm_NumTicksPerPictureMinus1 := n\<rparr>))
     else rret timing)))"

definition parseDecoderModelInfo :: "DecoderModelInfo \<Rightarrow> DecoderModelInfo rd" where
  "parseDecoderModelInfo info =
     rbind (ReadBits 5) (\<lambda>v. let info = info\<lparr>dm_BufferDelayLength := ucast (v + 1)\<rparr> in
     rbind (ReadBits 32) (\<lambda>v. let info = info\<lparr>dm_NumUnitsInDecodingTick := ucast v\<rparr> in
     rbind (ReadBits 5) (\<lambda>v. let info = info\<lparr>dm_BufferRemovalTimeLength := ucast (v + 1)\<rparr> in
     rbind (ReadBits 5) (\<lambda>v. rret (info\<lparr>dm_FramePresentationTimeLength := ucast (v + 1)\<rparr>)))))"

definition parseOperatingParametersInfo :: "DecoderModelInfo \<Rightarrow> OperatingPoint \<Rightarrow> OperatingPoint rd" where
  "parseOperatingParametersInfo info op =
     rbind (ReadBits (dm_BufferDelayLength info)) (\<lambda>v. let op = op\<lparr>op_DecoderBufferDelay := ucast v\<rparr> in
     rbind (ReadBits (dm_BufferDelayLength info)) (\<lambda>v. let op = op\<lparr>op_EncoderBufferDelay := ucast v\<rparr> in
     rbind ReadBool (\<lambda>b. rret (op\<lparr>op_LowDelayMode := b\<rparr>))))"

text \<open>The body of the loop over the operating points, on the array element it fills.\<close>

definition parseOperatingPoint :: "SequenceHeader \<Rightarrow> OperatingPoint \<Rightarrow> OperatingPoint rd" where
  "parseOperatingPoint sh op =
     rbind (ReadBits 12) (\<lambda>idc. let op = op\<lparr>op_IDC := ucast idc\<rparr> in
     rbind readSequenceLevel (\<lambda>level. let op = op\<lparr>op_SeqLevelIdx := level\<rparr> in
     rbind (if level > 7 then rbind (ReadBits 1) (\<lambda>tier. rret (op\<lparr>op_SeqTier := ucast tier\<rparr>))
            else rret op) (\<lambda>op.
     rbind (if sh_DecoderModelInfoPresent sh then
              rbind ReadBool (\<lambda>b. let op = op\<lparr>op_DecoderModelPresent := b\<rparr> in
              if b then parseOperatingParametersInfo (sh_DecoderModelInfo sh) op else rret op)
            else rret op) (\<lambda>op.
     if sh_InitialDisplayDelayPresent sh then
       rbind ReadBool (\<lambda>b. let op = op\<lparr>op_InitialDisplayDelayPresent := b\<rparr> in
       if b then rbind (ReadBits 4) (\<lambda>delay. rret (op\<lparr>op_InitialDisplayDelayMinus1 := ucast delay\<rparr>))
       else rret op)
     else rret op))))"

text \<open>\<open>for i := uint8(0); i < sh.OperatingPointsCount; i++\<close>, with the rounds left as first argument.\<close>

primrec parseOperatingPoints :: "nat \<Rightarrow> nat \<Rightarrow> SequenceHeader \<Rightarrow> SequenceHeader rd" where
  "parseOperatingPoints 0 i sh = rret sh"
| "parseOperatingPoints (Suc k) i sh =
     rbind (parseOperatingPoint sh (sh_OperatingPoints sh ! i)) (\<lambda>op.
     parseOperatingPoints k (i + 1) (sh\<lparr>sh_OperatingPoints := (sh_OperatingPoints sh)[i := op]\<rparr>))"

definition parseSequenceHeaderTiming :: "SequenceHeader \<Rightarrow> SequenceHeader rd" where
  "parseSequenceHeaderTiming sh =
     rbind ReadBool (\<lambda>b. let sh = sh\<lparr>sh_TimingInfoPresent := b\<rparr> in
     rbind (if b then
              rbind (parseTimingInfo (sh_TimingInfo sh)) (\<lambda>t. let sh = sh\<lparr>sh_TimingInfo := t\<rparr> in
              rbind ReadBool (\<lambda>b. let sh = sh\<lparr>sh_DecoderModelInfoPresent := b\<rparr> in
              if b then rbind (parseDecoderModelInfo (sh_DecoderModelInfo sh)) (\<lambda>d. rret (sh\<lparr>sh_DecoderModelInfo := d\<rparr>))
              else rret sh))
            else rret sh) (\<lambda>sh.
     rbind ReadBool (\<lambda>b. let sh = sh\<lparr>sh_InitialDisplayDelayPresent := b\<rparr> in
     rbind (ReadBits 5) (\<lambda>opsMinus1. let sh = sh\<lparr>sh_OperatingPointsCount := ucast (opsMinus1 + 1)\<rparr> in
     parseOperatingPoints (unat (sh_OperatingPointsCount sh)) 0 sh))))"

definition FrameIDBits :: "SequenceHeader \<Rightarrow> u8" where
  "FrameIDBits s =
     (if \<not> sh_FrameIDNumbersPresent s then 0
      else sh_DeltaFrameIDLength s + sh_AdditionalFrameIDLength s)"

definition parseSequenceFrameSize :: "SequenceHeader \<Rightarrow> SequenceHeader rd" where
  "parseSequenceFrameSize sh =
     rbind (ReadBits 4) (\<lambda>v. let sh = sh\<lparr>sh_FrameWidthBits := ucast (v + 1)\<rparr> in
     rbind (ReadBits 4) (\<lambda>v. let sh = sh\<lparr>sh_FrameHeightBits := ucast (v + 1)\<rparr> in
     rbind (ReadBits (sh_FrameWidthBits sh)) (\<lambda>v. let sh = sh\<lparr>sh_MaxFrameWidth := ucast (v + 1)\<rparr> in
     rbind (ReadBits (sh_FrameHeightBits sh)) (\<lambda>v. let sh = sh\<lparr>sh_MaxFrameHeight := ucast (v + 1)\<rparr> in
     rbind (if \<not> sh_ReducedStillPictureHeader sh then rbind ReadBool (\<lambda>b. rret (sh\<lparr>sh_FrameIDNumbersPresent := b\<rparr>))
            else rret sh) (\<lambda>sh.
     if sh_FrameIDNumbersPresent sh then
       rbind (ReadBits 4) (\<lambda>v. let sh = sh\<lparr>sh_DeltaFrameIDLength := ucast (v + 2)\<rparr> in
       rbind (ReadBits 3) (\<lambda>v. let sh = sh\<lparr>sh_AdditionalFrameIDLength := ucast (v + 1)\<rparr> in
       if FrameIDBits sh > 16 then rfail ErrInvalidSequenceHeader else rret sh))
     else rret sh)))))"

text \<open>The branch of \<open>parseSequenceTools\<close> for a full header.\<close>

definition parseSequenceTools_full :: "SequenceHeader \<Rightarrow> SequenceHeader rd" where
  "parseSequenceTools_full sh =
     rbind ReadBool (\<lambda>b. let sh = sh\<lparr>sh_EnableInterIntraCompound := b\<rparr> in
     rbind ReadBool (\<lambda>b. let sh = sh\<lparr>sh_EnableMaskedCompound := b\<rparr> in
     rbind ReadBool (\<lambda>b. let sh = sh\<lparr>sh_EnableWarpedMotion := b\<rparr> in
     rbind ReadBool (\<lambda>b. let sh = sh\<lparr>sh_EnableDualFilter := b\<rparr> in
     rbind ReadBool (\<lambda>b. let sh = sh\<lparr>sh_EnableOrderHint := b\<rparr> in
     rbind (if sh_EnableOrderHint sh then
              rbind ReadBool (\<lambda>b. let sh = sh\<lparr>sh_EnableJNTComp := b\<rparr> in
              rbind ReadBool (\<lambda>b. rret (sh\<lparr>sh_EnableRefFrameMVS := b\<rparr>)))
            else rret sh) (\<lambda>sh.
     rbind ReadBool (\<lambda>chooseScreen.
     rbind (if chooseScreen then rret (sh\<lparr>sh_SeqForceScreenContentTools := SelectScreenContentTools\<rparr>)
            else rbind (ReadBits 1) (\<lambda>b. rret (sh\<lparr>sh_SeqForceScreenContentTools := ucast b\<rparr>))) (\<lambda>sh.
     rbind (if sh_SeqForceScreenContentTools sh > 0 then
              rbind ReadBool (\<lambda>chooseInteger.
              if chooseInteger then rret (sh\<lparr>sh_SeqForceIntegerMV := SelectIntegerMV\<rparr>)
              else rbind (ReadBits 1) (\<lambda>b. rret (sh\<lparr>sh_SeqForceIntegerMV := ucast b\<rparr>)))
            else rret sh) (\<lambda>sh.
     if sh_EnableOrderHint sh then rbind (ReadBits 3) (\<lambda>v. rret (sh\<lparr>sh_OrderHintBits := ucast (v + 1)\<rparr>))
     else rret sh)))))))))"

definition parseSequenceTools :: "SequenceHeader \<Rightarrow> SequenceHeader rd" where
  "parseSequenceTools sh =
     rbind ReadBool (\<lambda>b. let sh = sh\<lparr>sh_Use128x128Superblock := b\<rparr> in
     rbind ReadBool (\<lambda>b. let sh = sh\<lparr>sh_EnableFilterIntra := b\<rparr> in
     rbind ReadBool (\<lambda>b. let sh = sh\<lparr>sh_EnableIntraEdgeFilter := b\<rparr> in
     rbind (if \<not> sh_ReducedStillPictureHeader sh then parseSequenceTools_full sh
            else rret (sh\<lparr>sh_SeqForceScreenContentTools := SelectScreenContentTools,
                          sh_SeqForceIntegerMV := SelectIntegerMV\<rparr>)) (\<lambda>sh.
     rbind ReadBool (\<lambda>b. let sh = sh\<lparr>sh_EnableSuperRes := b\<rparr> in
     rbind ReadBool (\<lambda>b. let sh = sh\<lparr>sh_EnableCDEF := b\<rparr> in
     rbind ReadBool (\<lambda>b. rret (sh\<lparr>sh_EnableRestoration := b\<rparr>))))))))"

text \<open>\<open>parseColorConfig\<close> in the order of the source: bit depth, description, range and subsampling.\<close>

definition parseColorConfig_depth :: "u8 \<Rightarrow> ColorConfig \<Rightarrow> ColorConfig rd" where
  "parseColorConfig_depth profile cfg =
     rbind ReadBool (\<lambda>b. let cfg = cfg\<lparr>cc_HighBitdepth := b\<rparr> in
     rbind (if profile = 2 \<and> b then
              rbind ReadBool (\<lambda>t. let cfg = cfg\<lparr>cc_TwelveBit := t\<rparr> in
              rret (cfg\<lparr>cc_BitDepth := if t then 12 else 10\<rparr>))
            else if b then rret (cfg\<lparr>cc_BitDepth := 10\<rparr>)
            else rret (cfg\<lparr>cc_BitDepth := 8\<rparr>)) (\<lambda>cfg.
     if profile = 1 then rret (cfg\<lparr>cc_MonoChrome := False\<rparr>)
     else rbind ReadBool (\<lambda>m. rret (cfg\<lparr>cc_MonoChrome := m\<rparr>))))"

definition parseColorConfig_description :: "ColorConfig \<Rightarrow> ColorConfig rd" where
  "parseColorConfig_description cfg =
     rbind ReadBool (\<lambda>b. let cfg = cfg\<lparr>cc_ColorDescriptionPresent := b\<rparr> in
     if b then
       rbind (ReadBits 8) (\<lambda>v. let cfg = cfg\<lparr>cc_ColorPrimaries := ucast v\<rparr> in
       rbind (ReadBits 8) (\<lambda>v. let cfg = cfg\<lparr>cc_TransferCharacteristics := ucast v\<rparr> in
       rbind (ReadBits 8) (\<lambda>v. rret (cfg\<lparr>cc_MatrixCoefficients := ucast v\<rparr>))))
     else rret (cfg\<lparr>cc_ColorPrimaries := 2, cc_TransferCharacteristics := 2, cc_MatrixCoefficients := 2\<rparr>))"

definition parseColorConfig_subsampling :: "u8 \<Rightarrow> ColorConfig \<Rightarrow> ColorConfig rd" where
  "parseColorConfig_subsampling profile cfg =
     (if cc_ColorPrimaries cfg = ColorPrimariesBT709 \<and>
         cc_TransferCharacteristics cfg = TransferCharacteristicsSRGB \<and>
         cc_MatrixCoefficients cfg = MatrixCoefficientsIdentity then
        rret (cfg\<lparr>cc_ColorRange := True, cc_SubsamplingX := False, cc_SubsamplingY := False\<rparr>)
      else
        rbind ReadBool (\<lambda>b. let cfg = cfg\<lparr>cc_ColorRange := b\<rparr> in
        rbind (if profile = 0 then rret (cfg\<lparr>cc_SubsamplingX := True, cc_SubsamplingY := True\<rparr>)
               else if profile = 1 then rret (cfg\<lparr>cc_SubsamplingX := False, cc_SubsamplingY := False\<rparr>)
               else if profile = 2 then
                 if cc_BitDepth cfg = 12 then
                   rbind ReadBool (\<lambda>x. let cfg = cfg\<lparr>cc_SubsamplingX := x\<rparr> in
                   if x then rbind ReadBool (\<lambda>y. rret (cfg\<lparr>cc_SubsamplingY := y\<rparr>)) else rret cfg)
                 else rret (cfg\<lparr>cc_SubsamplingX := True\<rparr>)
               else rret cfg) (\<lambda>cfg.
        if cc_SubsamplingX cfg \<and> cc_SubsamplingY cfg
        then rbind (ReadBits 2) (\<lambda>v. rret (cfg\<lparr>cc_ChromaSamplePosition := ucast v\<rparr>))
        else rret cfg)))"

definition parseColorConfig :: "SequenceHeader \<Rightarrow> SequenceHeader rd" where
  "parseColorConfig sh =
     rbind (parseColorConfig_depth (sh_SeqProfile sh) (sh_ColorConfig sh)) (\<lambda>cfg.
     rbind (parseColorConfig_description cfg) (\<lambda>cfg.
     if cc_MonoChrome cfg then
       rbind ReadBool (\<lambda>b. rret (sh\<lparr>sh_ColorConfig := cfg\<lparr>cc_ColorRange := b, cc_SubsamplingX := True, cc_SubsamplingY := True\<rparr>\<rparr>))
     else
       rbind (parseColorConfig_subsampling (sh_SeqProfile sh) cfg) (\<lambda>cfg.
       rbind ReadBool (\<lambda>b. rret (sh\<lparr>sh_ColorConfig := cfg\<lparr>cc_SeparateUVDeltaQ := b\<rparr>\<rparr>)))))"

definition parseSequenceHeader_fields :: "SequenceHeader rd" where
  "parseSequenceHeader_fields =
     (let sh = zero_SequenceHeader in
     rbind (ReadBits 3) (\<lambda>v. let sh = sh\<lparr>sh_SeqProfile := ucast v\<rparr> in
     if sh_SeqProfile sh > 2 then rfail ErrInvalidSequenceHeader else
     rbind ReadBool (\<lambda>b. let sh = sh\<lparr>sh_StillPicture := b\<rparr> in
     rbind ReadBool (\<lambda>b. let sh = sh\<lparr>sh_ReducedStillPictureHeader := b\<rparr> in
     if sh_ReducedStillPictureHeader sh \<and> \<not> sh_StillPicture sh then rfail ErrInvalidSequenceHeader else
     rbind (if sh_ReducedStillPictureHeader sh then
              rbind readSequenceLevel (\<lambda>level.
              rret (sh\<lparr>sh_OperatingPointsCount := 1,
                       sh_OperatingPoints := (sh_OperatingPoints sh)[0 := (sh_OperatingPoints sh ! 0)\<lparr>op_SeqLevelIdx := level\<rparr>]\<rparr>))
            else parseSequenceHeaderTiming sh) (\<lambda>sh.
     rbind (parseSequenceFrameSize sh) (\<lambda>sh.
     rbind (parseSequenceTools sh) (\<lambda>sh.
     rbind (parseColorConfig sh) (\<lambda>sh.
     rbind ReadBool (\<lambda>b. rret (sh\<lparr>sh_FilmGrainParamsPresent := b\<rparr>))))))))))"

definition parseSequenceHeader :: "bytes \<Rightarrow> bool \<Rightarrow> go_err + SequenceHeader" where
  "parseSequenceHeader payload validateTrailing =
     fst (rbind parseSequenceHeader_fields (\<lambda>sh.
          if validateTrailing then rbind ReadTrailingBits (\<lambda>_. rret sh) else rret sh)
        (NewReader payload))"

definition ParseSequenceHeader :: "bytes \<Rightarrow> go_err + SequenceHeader" where
  "ParseSequenceHeader payload = parseSequenceHeader payload True"

definition PeekSequenceHeader :: "bytes \<Rightarrow> go_err + SequenceHeader" where
  "PeekSequenceHeader payload = parseSequenceHeader payload False"

section \<open>Operating points\<close>

definition MaxOperatingPointTemporalLayers :: nat where "MaxOperatingPointTemporalLayers = 8"
definition MaxOperatingPointSpatialLayers :: nat where "MaxOperatingPointSpatialLayers = 4"
definition OperatingPointIDCAnyLayer :: u16 where "OperatingPointIDCAnyLayer = 0"

definition OperatingPointIDCMatches :: "u16 \<Rightarrow> u8 \<Rightarrow> u8 \<Rightarrow> bool" where
  "OperatingPointIDCMatches idc temporalID spatialID =
     (if idc = OperatingPointIDCAnyLayer then True
      else if unat temporalID \<ge> MaxOperatingPointTemporalLayers then False
      else if unat spatialID \<ge> MaxOperatingPointSpatialLayers then False
      else if drop_bit (unat temporalID) idc AND 1 = 0 then False
      else if drop_bit (unat spatialID + MaxOperatingPointTemporalLayers) idc AND 1 = 0 then False
      else True)"

definition OperatingPointTemporalLayerCount :: "u16 \<Rightarrow> u8" where
  "OperatingPointTemporalLayerCount idc =
     (if idc = OperatingPointIDCAnyLayer then 1
      else foldl (\<lambda>n j. n + ucast (drop_bit j idc AND 1)) 0 [0..<MaxOperatingPointTemporalLayers])"

definition OperatingPointSpatialLayerCount :: "u16 \<Rightarrow> u8" where
  "OperatingPointSpatialLayerCount idc =
     (if idc = OperatingPointIDCAnyLayer then 1
      else foldl (\<lambda>n j. n + ucast (drop_bit (j + MaxOperatingPointTemporalLayers) idc AND 1)) 0
             [0..<MaxOperatingPointSpatialLayers])"

fun SelectOperatingPoint_loop :: "OperatingPoint list \<Rightarrow> nat list \<Rightarrow> u8 \<Rightarrow> u8 \<Rightarrow> nat \<times> bool" where
  "SelectOperatingPoint_loop ops [] t s = (0, False)"
| "SelectOperatingPoint_loop ops (i # is) t s =
     (if OperatingPointIDCMatches (op_IDC (ops ! i)) t s then (i, True)
      else SelectOperatingPoint_loop ops is t s)"

definition SelectOperatingPoint :: "SequenceHeader \<Rightarrow> u8 \<Rightarrow> u8 \<Rightarrow> nat \<times> bool" where
  "SelectOperatingPoint seq temporalID spatialID =
     (let count = unat (sh_OperatingPointsCount seq)
      in if count \<le> 0 \<or> count > length (sh_OperatingPoints seq) then (0, False)
         else SelectOperatingPoint_loop (sh_OperatingPoints seq) [0..<count] temporalID spatialID)"

section \<open>Reader safety and well-formedness\<close>

lemma forward_readSequenceLevel [rd_safe]: "forward readSequenceLevel"
  unfolding readSequenceLevel_def by (intro rd_safe)

lemma forward_parseTimingInfo [rd_safe]: "forward (parseTimingInfo t)"
  unfolding parseTimingInfo_def by (intro rd_safe)

lemma forward_parseDecoderModelInfo [rd_safe]: "forward (parseDecoderModelInfo i)"
  unfolding parseDecoderModelInfo_def by (intro rd_safe)

lemma forward_parseOperatingParametersInfo [rd_safe]: "forward (parseOperatingParametersInfo i p)"
  unfolding parseOperatingParametersInfo_def by (intro rd_safe)

lemma forward_parseOperatingPoint [rd_safe]: "forward (parseOperatingPoint sh p)"
  unfolding parseOperatingPoint_def by (intro rd_safe)

lemma forward_parseOperatingPoints [rd_safe]: "forward (parseOperatingPoints k i sh)"
  by (induction k arbitrary: i sh) (auto intro!: rd_safe)

lemma forward_parseSequenceHeaderTiming [rd_safe]: "forward (parseSequenceHeaderTiming sh)"
  unfolding parseSequenceHeaderTiming_def by (intro rd_safe)

lemma forward_parseSequenceFrameSize [rd_safe]: "forward (parseSequenceFrameSize sh)"
  unfolding parseSequenceFrameSize_def by (intro rd_safe)

lemma forward_parseSequenceTools [rd_safe]: "forward (parseSequenceTools sh)"
  unfolding parseSequenceTools_def parseSequenceTools_full_def by (intro rd_safe)

lemma forward_parseColorConfig [rd_safe]: "forward (parseColorConfig sh)"
  unfolding parseColorConfig_def parseColorConfig_depth_def parseColorConfig_description_def
    parseColorConfig_subsampling_def by (intro rd_safe)

lemma forward_parseSequenceHeader_fields [rd_safe]: "forward parseSequenceHeader_fields"
  unfolding parseSequenceHeader_fields_def by (intro rd_safe)

text \<open>What the AV1 specification asks of a sequence header, as far as the parser checks it.\<close>

definition seq_top_ok :: "SequenceHeader \<Rightarrow> bool" where
  "seq_top_ok sh \<longleftrightarrow> sh_SeqProfile sh \<le> 2 \<and> (sh_ReducedStillPictureHeader sh \<longrightarrow> sh_StillPicture sh)"

definition seq_ops_ok :: "SequenceHeader \<Rightarrow> bool" where
  "seq_ops_ok sh \<longleftrightarrow> length (sh_OperatingPoints sh) = 32 \<and> 1 \<le> unat (sh_OperatingPointsCount sh) \<and>
     unat (sh_OperatingPointsCount sh) \<le> 32 \<and>
     (\<forall>i < unat (sh_OperatingPointsCount sh).
        let p = sh_OperatingPoints sh ! i in unat (op_IDC p) < 2 ^ 12 \<and> ValidSequenceLevelIndex (op_SeqLevelIdx p) \<and>
          unat (op_SeqTier p) < 2 \<and> (op_SeqLevelIdx p \<le> 7 \<longrightarrow> op_SeqTier p = 0) \<and> unat (op_InitialDisplayDelayMinus1 p) < 16)"

definition seq_size_ok :: "SequenceHeader \<Rightarrow> bool" where
  "seq_size_ok sh \<longleftrightarrow> 1 \<le> unat (sh_FrameWidthBits sh) \<and> unat (sh_FrameWidthBits sh) \<le> 16 \<and>
     1 \<le> unat (sh_FrameHeightBits sh) \<and> unat (sh_FrameHeightBits sh) \<le> 16 \<and>
     1 \<le> unat (sh_MaxFrameWidth sh) \<and> unat (sh_MaxFrameWidth sh) \<le> 2 ^ unat (sh_FrameWidthBits sh) \<and>
     1 \<le> unat (sh_MaxFrameHeight sh) \<and> unat (sh_MaxFrameHeight sh) \<le> 2 ^ unat (sh_FrameHeightBits sh) \<and>
     unat (FrameIDBits sh) \<le> 16 \<and> (sh_ReducedStillPictureHeader sh \<longrightarrow> \<not> sh_FrameIDNumbersPresent sh)"

definition seq_tools_ok :: "SequenceHeader \<Rightarrow> bool" where
  "seq_tools_ok sh \<longleftrightarrow> unat (sh_SeqForceScreenContentTools sh) \<le> 2 \<and> unat (sh_SeqForceIntegerMV sh) \<le> 2 \<and>
     (sh_SeqForceScreenContentTools sh = 0 \<longrightarrow> sh_SeqForceIntegerMV sh = 0) \<and>
     unat (sh_OrderHintBits sh) \<le> 8 \<and> (sh_EnableOrderHint sh \<longleftrightarrow> sh_OrderHintBits sh \<noteq> 0) \<and>
     (\<not> sh_EnableOrderHint sh \<longrightarrow> \<not> sh_EnableJNTComp sh \<and> \<not> sh_EnableRefFrameMVS sh)"

definition seq_color_ok :: "u8 \<Rightarrow> ColorConfig \<Rightarrow> bool" where
  "seq_color_ok profile cc \<longleftrightarrow> cc_BitDepth cc \<in> {8, 10, 12} \<and> (cc_BitDepth cc = 12 \<longrightarrow> profile = 2) \<and>
     (cc_MonoChrome cc \<longrightarrow> profile \<noteq> 1 \<and> cc_SubsamplingX cc \<and> cc_SubsamplingY cc) \<and>
     (cc_SubsamplingY cc \<longrightarrow> cc_SubsamplingX cc) \<and> unat (cc_ChromaSamplePosition cc) < 4 \<and>
     (profile = 1 \<longrightarrow> \<not> cc_SubsamplingX cc \<and> \<not> cc_SubsamplingY cc)"

definition seq_wf :: "SequenceHeader \<Rightarrow> bool" where
  "seq_wf sh \<longleftrightarrow> seq_top_ok sh \<and> seq_ops_ok sh \<and> seq_size_ok sh \<and> seq_tools_ok sh \<and>
     seq_color_ok (sh_SeqProfile sh) (sh_ColorConfig sh)"

lemma u8_of_small: "unat (v :: u64) < n \<Longrightarrow> n \<le> 256 \<Longrightarrow> unat (ucast v :: u8) = unat v"
  by (simp add: unsigned_ucast_eq take_bit_nat_eq_self)

lemma unat_u64_add: "unat (v :: u64) + n < 2 ^ 64 \<Longrightarrow> unat (v + word_of_nat n) = unat v + n"
  by (simp add: unat_word_ariths unat_of_nat)

lemma u8_succ: "unat (v :: u64) < 32 \<Longrightarrow> unat (ucast (v + 1) :: u8) = unat v + 1"
  using unat_u64_add [of v 1] by (simp add: unsigned_ucast_eq take_bit_nat_eq_self)

lemma u8_succ2: "unat (v :: u64) < 32 \<Longrightarrow> unat (ucast (v + 2) :: u8) = unat v + 2"
  using unat_u64_add [of v 2] by (simp add: unsigned_ucast_eq take_bit_nat_eq_self)

lemma u32_succ: "unat (v :: u64) < 2 ^ n \<Longrightarrow> n \<le> 16 \<Longrightarrow> unat (ucast (v + 1) :: u32) = unat v + 1"
proof -
  assume v: "unat v < 2 ^ n" and "n \<le> 16"
  then have "(2 :: nat) ^ n \<le> 2 ^ 16" by (intro power_increasing) auto
  then show ?thesis using v unat_u64_add [of v 1] by (simp add: unsigned_ucast_eq take_bit_nat_eq_self)
qed

lemma rpost_readSequenceLevel: "rpost readSequenceLevel ValidSequenceLevelIndex"
  unfolding readSequenceLevel_def by (intro rd_post) simp_all

definition op_ok :: "OperatingPoint \<Rightarrow> bool" where
  "op_ok p \<longleftrightarrow> unat (op_IDC p) < 2 ^ 12 \<and> ValidSequenceLevelIndex (op_SeqLevelIdx p) \<and> unat (op_SeqTier p) < 2 \<and>
     (op_SeqLevelIdx p \<le> 7 \<longrightarrow> op_SeqTier p = 0) \<and> unat (op_InitialDisplayDelayMinus1 p) < 16"

lemma u16_of_12: "unat (v :: u64) < 4096 \<Longrightarrow> unat (ucast v :: u16) < 4096"
  by (simp add: unsigned_ucast_eq take_bit_nat_eq_self)

lemma rpost_parseOperatingPoint:
  assumes "op_SeqTier p = 0" "op_InitialDisplayDelayMinus1 p = 0"
  shows "rpost (parseOperatingPoint sh p) op_ok"
  unfolding parseOperatingPoint_def parseOperatingParametersInfo_def
  apply (intro rd_post rpost_rbind [OF rpost_readSequenceLevel])
  using assms
  by (auto simp: op_ok_def u8_of_small [of _ 2] u8_of_small [of _ 16] u16_of_12 not_le word_less_nat_alt word_le_nat_alt)

definition ops_from :: "nat \<Rightarrow> SequenceHeader \<Rightarrow> bool" where
  "ops_from i sh \<longleftrightarrow> length (sh_OperatingPoints sh) = 32 \<and> (\<forall>j < i. op_ok (sh_OperatingPoints sh ! j)) \<and>
     (\<forall>j. i \<le> j \<longrightarrow> j < 32 \<longrightarrow> sh_OperatingPoints sh ! j = zero_OperatingPoint)"

lemma rpost_parseOperatingPoints:
  assumes "ops_from i sh" "i + k \<le> 32"
  shows "rpost (parseOperatingPoints k i sh) (\<lambda>sh'. ops_from (i + k) sh' \<and>
    (\<exists>ops. sh' = sh\<lparr>sh_OperatingPoints := ops\<rparr>))"
  using assms
proof (induction k arbitrary: i sh)
  case 0
  then show ?case by (auto intro!: rd_post exI [of _ "sh_OperatingPoints sh"])
next
  case (Suc k)
  have z: "sh_OperatingPoints sh ! i = zero_OperatingPoint" "length (sh_OperatingPoints sh) = 32" "i < 32"
    using Suc.prems by (auto simp: ops_from_def)
  have p: "rpost (parseOperatingPoint sh (sh_OperatingPoints sh ! i)) op_ok"
    by (rule rpost_parseOperatingPoint) (simp_all add: z zero_OperatingPoint_def)
  have next_ok: "ops_from (Suc i) (sh\<lparr>sh_OperatingPoints := (sh_OperatingPoints sh)[i := p]\<rparr>)" if "op_ok p" for p
    using Suc.prems that z by (auto simp: ops_from_def less_Suc_eq)
  show ?case
    unfolding parseOperatingPoints.simps
  proof (rule rpost_rbind [OF p])
    fix v assume "op_ok v"
    from Suc.IH [OF next_ok [OF this]] Suc.prems(2)
    show "rpost (parseOperatingPoints k (i + 1) (sh\<lparr>sh_OperatingPoints := (sh_OperatingPoints sh)[i := v]\<rparr>))
        (\<lambda>sh'. ops_from (i + Suc k) sh' \<and> (\<exists>ops. sh' = sh\<lparr>sh_OperatingPoints := ops\<rparr>))"
      by (auto intro: rpost_conseq)
  qed
qed

lemma seq_ops_ok_from:
  "ops_from (unat (sh_OperatingPointsCount sh)) sh \<Longrightarrow> 1 \<le> unat (sh_OperatingPointsCount sh) \<Longrightarrow>
     unat (sh_OperatingPointsCount sh) \<le> 32 \<Longrightarrow> seq_ops_ok sh"
  by (auto simp: seq_ops_ok_def ops_from_def op_ok_def Let_def)

text \<open>What a stage of the parser leaves alone: the fields of the stages before and after it.\<close>

definition seq_top_same :: "SequenceHeader \<Rightarrow> SequenceHeader \<Rightarrow> bool" where
  "seq_top_same sh sh' \<longleftrightarrow> sh_SeqProfile sh' = sh_SeqProfile sh \<and> sh_StillPicture sh' = sh_StillPicture sh \<and>
     sh_ReducedStillPictureHeader sh' = sh_ReducedStillPictureHeader sh"

definition seq_size_zero :: "SequenceHeader \<Rightarrow> bool" where
  "seq_size_zero sh \<longleftrightarrow> \<not> sh_FrameIDNumbersPresent sh"

definition seq_tools_zero :: "SequenceHeader \<Rightarrow> bool" where
  "seq_tools_zero sh \<longleftrightarrow> sh_SeqForceIntegerMV sh = 0 \<and> sh_OrderHintBits sh = 0 \<and> \<not> sh_EnableOrderHint sh \<and>
     \<not> sh_EnableJNTComp sh \<and> \<not> sh_EnableRefFrameMVS sh"

definition seq_color_zero :: "SequenceHeader \<Rightarrow> bool" where
  "seq_color_zero sh \<longleftrightarrow> sh_ColorConfig sh = zero_ColorConfig"

lemmas seq_stage_defs = seq_top_same_def seq_size_zero_def seq_tools_zero_def seq_color_zero_def

lemma rpost_parseOperatingPoints_all:
  assumes "sh_OperatingPoints sh = replicate 32 zero_OperatingPoint"
    "1 \<le> unat (sh_OperatingPointsCount sh)" "unat (sh_OperatingPointsCount sh) \<le> 32"
  shows "rpost (parseOperatingPoints (unat (sh_OperatingPointsCount sh)) 0 sh)
    (\<lambda>sh'. seq_ops_ok sh' \<and> (\<exists>ops. sh' = sh\<lparr>sh_OperatingPoints := ops\<rparr>))"
proof (rule rpost_conseq [OF rpost_parseOperatingPoints])
  show "ops_from 0 sh" using assms(1) by (simp add: ops_from_def)
  show "0 + unat (sh_OperatingPointsCount sh) \<le> 32" using assms(3) by simp
  fix v assume "ops_from (0 + unat (sh_OperatingPointsCount sh)) v \<and> (\<exists>ops. v = sh\<lparr>sh_OperatingPoints := ops\<rparr>)"
  then show "seq_ops_ok v \<and> (\<exists>ops. v = sh\<lparr>sh_OperatingPoints := ops\<rparr>)"
    using assms(2,3) seq_ops_ok_from [of v] by auto
qed

lemma rpost_parseSequenceHeaderTiming:
  assumes "sh_OperatingPoints sh = replicate 32 zero_OperatingPoint"
  shows "rpost (parseSequenceHeaderTiming sh) (\<lambda>sh'. seq_ops_ok sh' \<and> seq_top_same sh sh' \<and>
    (seq_size_zero sh \<longrightarrow> seq_size_zero sh') \<and> (seq_tools_zero sh \<longrightarrow> seq_tools_zero sh') \<and>
    (seq_color_zero sh \<longrightarrow> seq_color_zero sh'))"
  unfolding parseSequenceHeaderTiming_def parseTimingInfo_def parseDecoderModelInfo_def
  by (intro rd_post; rule rpost_conseq [OF rpost_parseOperatingPoints_all])
    (use assms in \<open>auto simp: u8_succ seq_stage_defs\<close>)

text \<open>The predicate of a stage does not see the fields that the later stages fill.\<close>

lemma seq_ops_ok_later [simp]:
  "seq_ops_ok (sh\<lparr>sh_FrameWidthBits := a\<rparr>) = seq_ops_ok sh" "seq_ops_ok (sh\<lparr>sh_FrameHeightBits := a\<rparr>) = seq_ops_ok sh"
  "seq_ops_ok (sh\<lparr>sh_MaxFrameWidth := m\<rparr>) = seq_ops_ok sh" "seq_ops_ok (sh\<lparr>sh_MaxFrameHeight := m\<rparr>) = seq_ops_ok sh"
  "seq_ops_ok (sh\<lparr>sh_FrameIDNumbersPresent := b\<rparr>) = seq_ops_ok sh"
  "seq_ops_ok (sh\<lparr>sh_DeltaFrameIDLength := a\<rparr>) = seq_ops_ok sh"
  "seq_ops_ok (sh\<lparr>sh_AdditionalFrameIDLength := a\<rparr>) = seq_ops_ok sh"
  "seq_ops_ok (sh\<lparr>sh_Use128x128Superblock := b\<rparr>) = seq_ops_ok sh" "seq_ops_ok (sh\<lparr>sh_EnableFilterIntra := b\<rparr>) = seq_ops_ok sh"
  "seq_ops_ok (sh\<lparr>sh_EnableIntraEdgeFilter := b\<rparr>) = seq_ops_ok sh"
  "seq_ops_ok (sh\<lparr>sh_EnableInterIntraCompound := b\<rparr>) = seq_ops_ok sh"
  "seq_ops_ok (sh\<lparr>sh_EnableMaskedCompound := b\<rparr>) = seq_ops_ok sh" "seq_ops_ok (sh\<lparr>sh_EnableWarpedMotion := b\<rparr>) = seq_ops_ok sh"
  "seq_ops_ok (sh\<lparr>sh_EnableDualFilter := b\<rparr>) = seq_ops_ok sh" "seq_ops_ok (sh\<lparr>sh_EnableOrderHint := b\<rparr>) = seq_ops_ok sh"
  "seq_ops_ok (sh\<lparr>sh_EnableJNTComp := b\<rparr>) = seq_ops_ok sh" "seq_ops_ok (sh\<lparr>sh_EnableRefFrameMVS := b\<rparr>) = seq_ops_ok sh"
  "seq_ops_ok (sh\<lparr>sh_SeqForceScreenContentTools := a\<rparr>) = seq_ops_ok sh"
  "seq_ops_ok (sh\<lparr>sh_SeqForceIntegerMV := a\<rparr>) = seq_ops_ok sh" "seq_ops_ok (sh\<lparr>sh_OrderHintBits := a\<rparr>) = seq_ops_ok sh"
  "seq_ops_ok (sh\<lparr>sh_EnableSuperRes := b\<rparr>) = seq_ops_ok sh" "seq_ops_ok (sh\<lparr>sh_EnableCDEF := b\<rparr>) = seq_ops_ok sh"
  "seq_ops_ok (sh\<lparr>sh_EnableRestoration := b\<rparr>) = seq_ops_ok sh" "seq_ops_ok (sh\<lparr>sh_ColorConfig := c\<rparr>) = seq_ops_ok sh"
  "seq_ops_ok (sh\<lparr>sh_FilmGrainParamsPresent := b\<rparr>) = seq_ops_ok sh"
  by (simp_all add: seq_ops_ok_def)

lemma seq_size_ok_later [simp]:
  "seq_size_ok (sh\<lparr>sh_Use128x128Superblock := b\<rparr>) = seq_size_ok sh" "seq_size_ok (sh\<lparr>sh_EnableFilterIntra := b\<rparr>) = seq_size_ok sh"
  "seq_size_ok (sh\<lparr>sh_EnableIntraEdgeFilter := b\<rparr>) = seq_size_ok sh"
  "seq_size_ok (sh\<lparr>sh_EnableInterIntraCompound := b\<rparr>) = seq_size_ok sh"
  "seq_size_ok (sh\<lparr>sh_EnableMaskedCompound := b\<rparr>) = seq_size_ok sh" "seq_size_ok (sh\<lparr>sh_EnableWarpedMotion := b\<rparr>) = seq_size_ok sh"
  "seq_size_ok (sh\<lparr>sh_EnableDualFilter := b\<rparr>) = seq_size_ok sh" "seq_size_ok (sh\<lparr>sh_EnableOrderHint := b\<rparr>) = seq_size_ok sh"
  "seq_size_ok (sh\<lparr>sh_EnableJNTComp := b\<rparr>) = seq_size_ok sh" "seq_size_ok (sh\<lparr>sh_EnableRefFrameMVS := b\<rparr>) = seq_size_ok sh"
  "seq_size_ok (sh\<lparr>sh_SeqForceScreenContentTools := a\<rparr>) = seq_size_ok sh"
  "seq_size_ok (sh\<lparr>sh_SeqForceIntegerMV := a\<rparr>) = seq_size_ok sh" "seq_size_ok (sh\<lparr>sh_OrderHintBits := a\<rparr>) = seq_size_ok sh"
  "seq_size_ok (sh\<lparr>sh_EnableSuperRes := b\<rparr>) = seq_size_ok sh" "seq_size_ok (sh\<lparr>sh_EnableCDEF := b\<rparr>) = seq_size_ok sh"
  "seq_size_ok (sh\<lparr>sh_EnableRestoration := b\<rparr>) = seq_size_ok sh" "seq_size_ok (sh\<lparr>sh_ColorConfig := c\<rparr>) = seq_size_ok sh"
  "seq_size_ok (sh\<lparr>sh_FilmGrainParamsPresent := b\<rparr>) = seq_size_ok sh"
  by (simp_all add: seq_size_ok_def FrameIDBits_def)

lemma seq_tools_ok_later [simp]:
  "seq_tools_ok (sh\<lparr>sh_EnableSuperRes := b\<rparr>) = seq_tools_ok sh" "seq_tools_ok (sh\<lparr>sh_EnableCDEF := b\<rparr>) = seq_tools_ok sh"
  "seq_tools_ok (sh\<lparr>sh_EnableRestoration := b\<rparr>) = seq_tools_ok sh" "seq_tools_ok (sh\<lparr>sh_ColorConfig := c\<rparr>) = seq_tools_ok sh"
  "seq_tools_ok (sh\<lparr>sh_FilmGrainParamsPresent := b\<rparr>) = seq_tools_ok sh"
  by (simp_all add: seq_tools_ok_def)

lemma u32_dim:
  assumes "unat (w :: u64) < 2 * 2 ^ unat (v :: u64)" "unat v < 16"
  shows "Suc 0 \<le> unat (ucast (w + 1) :: u32) \<and> unat (ucast (w + 1) :: u32) \<le> 2 * 2 ^ unat v"
  using u32_succ [of w "Suc (unat v)"] assms by simp

lemma rpost_parseSequenceFrameSize:
  assumes "seq_size_zero sh"
  shows "rpost (parseSequenceFrameSize sh) (\<lambda>sh'. seq_size_ok sh' \<and> seq_top_same sh sh' \<and>
    (seq_ops_ok sh \<longrightarrow> seq_ops_ok sh') \<and> (seq_tools_zero sh \<longrightarrow> seq_tools_zero sh') \<and> (seq_color_zero sh \<longrightarrow> seq_color_zero sh'))"
  unfolding parseSequenceFrameSize_def
  by (intro rd_post)
    (use assms in \<open>simp_all add: u8_succ u8_succ2 seq_stage_defs seq_size_ok_def FrameIDBits_def
        not_less word_le_nat_alt u32_dim\<close>)

lemma rpost_parseSequenceTools_full:
  assumes "seq_tools_zero sh"
  shows "rpost (parseSequenceTools_full sh) (\<lambda>sh'. seq_tools_ok sh' \<and> seq_top_same sh sh' \<and>
    (seq_ops_ok sh \<longrightarrow> seq_ops_ok sh') \<and> (seq_size_ok sh \<longrightarrow> seq_size_ok sh') \<and> (seq_color_zero sh \<longrightarrow> seq_color_zero sh'))"
  unfolding parseSequenceTools_full_def
  by (intro rd_post)
    (use assms in \<open>simp_all add: seq_stage_defs seq_tools_ok_def seq_consts u8_succ u8_of_small [of _ 2]
        word_unat_eq_iff word_less_nat_alt\<close>)

lemma rpost_parseSequenceTools:
  assumes "seq_tools_zero sh"
  shows "rpost (parseSequenceTools sh) (\<lambda>sh'. seq_tools_ok sh' \<and> seq_top_same sh sh' \<and>
    (seq_ops_ok sh \<longrightarrow> seq_ops_ok sh') \<and> (seq_size_ok sh \<longrightarrow> seq_size_ok sh') \<and> (seq_color_zero sh \<longrightarrow> seq_color_zero sh'))"
  unfolding parseSequenceTools_def
  by (intro rd_post rpost_rbind [OF rpost_parseSequenceTools_full])
    (use assms in \<open>simp_all add: seq_stage_defs seq_tools_ok_def seq_consts\<close>)

lemma rpost_parseColorConfig:
  assumes "seq_color_zero sh" "sh_SeqProfile sh \<le> 2"
  shows "rpost (parseColorConfig sh) (\<lambda>sh'. seq_color_ok (sh_SeqProfile sh') (sh_ColorConfig sh') \<and> seq_top_same sh sh' \<and>
    (seq_ops_ok sh \<longrightarrow> seq_ops_ok sh') \<and> (seq_size_ok sh \<longrightarrow> seq_size_ok sh') \<and> (seq_tools_ok sh \<longrightarrow> seq_tools_ok sh'))"
proof -
  let ?p = "sh_SeqProfile sh"
  have d: "rpost (parseColorConfig_depth ?p (sh_ColorConfig sh)) (\<lambda>c. cc_BitDepth c \<in> {8, 10, 12} \<and>
      (cc_BitDepth c = 12 \<longrightarrow> ?p = 2) \<and> (cc_MonoChrome c \<longrightarrow> ?p \<noteq> 1) \<and> \<not> cc_SubsamplingX c \<and> \<not> cc_SubsamplingY c \<and>
      cc_ChromaSamplePosition c = 0)"
    unfolding parseColorConfig_depth_def
    by (intro rd_post) (use assms in \<open>auto simp: seq_stage_defs zero_ColorConfig_def\<close>)
  have e: "rpost (parseColorConfig_description c) (\<lambda>c'. cc_BitDepth c' = cc_BitDepth c \<and> cc_MonoChrome c' = cc_MonoChrome c \<and>
      cc_SubsamplingX c' = cc_SubsamplingX c \<and> cc_SubsamplingY c' = cc_SubsamplingY c \<and>
      cc_ChromaSamplePosition c' = cc_ChromaSamplePosition c)" for c
    unfolding parseColorConfig_description_def by (intro rd_post) auto
  have s: "rpost (parseColorConfig_subsampling ?p c) (\<lambda>c'. seq_color_ok ?p c')"
    if "cc_BitDepth c \<in> {8, 10, 12}" "cc_BitDepth c = 12 \<longrightarrow> ?p = 2" "\<not> cc_MonoChrome c" "\<not> cc_SubsamplingX c"
      "\<not> cc_SubsamplingY c" "cc_ChromaSamplePosition c = 0" for c
    unfolding parseColorConfig_subsampling_def
    by (intro rd_post) (use that in \<open>auto simp: seq_color_ok_def u8_of_small [of _ 4]\<close>)
  show ?thesis
    unfolding parseColorConfig_def
    by (rule rpost_rbind [OF d], rule rpost_rbind [OF e], intro rd_post rpost_rbind [OF s])
      (auto simp: seq_stage_defs seq_color_ok_def seq_ops_ok_def seq_size_ok_def seq_tools_ok_def FrameIDBits_def)
qed


lemma seq_top_ok_same: "seq_top_same sh sh' \<Longrightarrow> seq_top_ok sh' = seq_top_ok sh"
  by (simp add: seq_top_same_def seq_top_ok_def)

lemma rpost_parseSequenceHeader_body:
  assumes "seq_top_ok sh" "seq_ops_ok sh" "seq_size_zero sh" "seq_tools_zero sh" "seq_color_zero sh"
  shows "rpost (rbind (parseSequenceFrameSize sh) (\<lambda>sh. rbind (parseSequenceTools sh) (\<lambda>sh.
      rbind (parseColorConfig sh) (\<lambda>sh. rbind ReadBool (\<lambda>b. rret (sh\<lparr>sh_FilmGrainParamsPresent := b\<rparr>)))))) seq_wf"
proof (rule rpost_rbind [OF rpost_parseSequenceFrameSize], goal_cases)
  case (2 s)
  then show ?case
  proof (intro rpost_rbind [OF rpost_parseSequenceTools], goal_cases)
    case (2 t)
    then have "seq_top_ok t" "seq_color_zero t" "sh_SeqProfile t \<le> 2" "seq_ops_ok t" "seq_size_ok t" "seq_tools_ok t"
      using assms by (auto simp: seq_top_same_def seq_top_ok_def)
    then show ?case
      by (intro rpost_rbind [OF rpost_parseColorConfig] rd_post)
        (auto simp: seq_wf_def seq_top_ok_def seq_top_same_def)
  qed (use assms in simp)
qed (use assms in simp)

lemma rpost_parseSequenceHeader_fields: "rpost parseSequenceHeader_fields seq_wf"
  unfolding parseSequenceHeader_fields_def
  by (intro rd_post rpost_rbind [OF rpost_readSequenceLevel] rpost_parseSequenceHeader_body
      rpost_rbind [OF rpost_parseSequenceHeaderTiming])
    (auto simp: zero_SequenceHeader_def zero_OperatingPoint_def seq_stage_defs seq_top_ok_def seq_ops_ok_def not_less)

section \<open>Properties\<close>

lemma fst_Inr: "fst p = Inr v \<Longrightarrow> \<exists>r. p = (Inr v, r)"
  by (cases p) auto

lemma parseSequenceHeader_Inr:
  assumes "parseSequenceHeader payload t = Inr sh"
  shows "\<exists>r. parseSequenceHeader_fields (NewReader payload) = (Inr sh, r) \<and>
    (t \<longrightarrow> (\<exists>r'. ReadTrailingBits r = (Inr (), r')))"
  using fst_Inr [OF assms [unfolded parseSequenceHeader_def]]
  by (auto simp: rbind_def rret_def split: prod.splits sum.splits if_splits)



lemma SelectOperatingPoint_loop_spec:
  "SelectOperatingPoint_loop ops is t s =
     (case find (\<lambda>i. OperatingPointIDCMatches (op_IDC (ops ! i)) t s) is of Some i \<Rightarrow> (i, True) | None \<Rightarrow> (0, False))"
  by (induction "is") auto

lemma SelectOperatingPoint_eq:
  "seq_ops_ok sh \<Longrightarrow> SelectOperatingPoint sh t s =
     (case find (\<lambda>i. OperatingPointIDCMatches (op_IDC (sh_OperatingPoints sh ! i)) t s)
        [0..<unat (sh_OperatingPointsCount sh)] of Some i \<Rightarrow> (i, True) | None \<Rightarrow> (0, False))"
  by (simp add: SelectOperatingPoint_def seq_ops_ok_def SelectOperatingPoint_loop_spec)

text \<open>
  On a parsed header \<open>SelectOperatingPoint\<close> returns an index exactly when it is the first of
  the operating points in use whose layer mask contains the temporal and the spatial layer.
\<close>

theorem SelectOperatingPoint_first:
  assumes "seq_ops_ok sh"
  shows "SelectOperatingPoint sh t s = (i, True) \<longleftrightarrow>
    i < unat (sh_OperatingPointsCount sh) \<and> OperatingPointIDCMatches (op_IDC (sh_OperatingPoints sh ! i)) t s \<and>
    (\<forall>j < i. \<not> OperatingPointIDCMatches (op_IDC (sh_OperatingPoints sh ! j)) t s)"
  unfolding SelectOperatingPoint_eq [OF assms]
  by (auto simp: find_Some_iff find_None_iff split: option.splits) (metis linorder_neqE_nat)

theorem SelectOperatingPoint_first_witness:
  "SelectOperatingPoint (zero_SequenceHeader\<lparr>sh_OperatingPointsCount := 2,
     sh_OperatingPoints := (sh_OperatingPoints zero_SequenceHeader)[0 := zero_OperatingPoint\<lparr>op_IDC := 0x101\<rparr>,
       1 := zero_OperatingPoint\<lparr>op_IDC := 0x103\<rparr>]\<rparr>) 1 0 = (1, True)"
proof -
  let ?sh = "zero_SequenceHeader\<lparr>sh_OperatingPointsCount := 2,
     sh_OperatingPoints := (sh_OperatingPoints zero_SequenceHeader)[0 := zero_OperatingPoint\<lparr>op_IDC := 0x101\<rparr>,
       1 := zero_OperatingPoint\<lparr>op_IDC := 0x103\<rparr>]\<rparr>"
  have "seq_ops_ok ?sh"
    by code_simp
  from SelectOperatingPoint_first [OF this, of 1 0 1] show ?thesis
    by (simp add: zero_SequenceHeader_def zero_OperatingPoint_def OperatingPointIDCMatches_def OperatingPointIDCAnyLayer_def
        MaxOperatingPointTemporalLayers_def MaxOperatingPointSpatialLayers_def)
qed

text \<open>The reference definition of a layer count: the number of set bits of the mask.\<close>

definition layer_bits :: "nat \<Rightarrow> nat \<Rightarrow> u16 \<Rightarrow> nat" where
  "layer_bits lo n idc = card {j. j < n \<and> bit idc (j + lo)}"


lemma layer_bits_Suc: "layer_bits lo (Suc n) idc = layer_bits lo n idc + of_bool (bit idc (n + lo))"
proof -
  have "{j. j < Suc n \<and> bit idc (j + lo)} = {j. j < n \<and> bit idc (j + lo)} \<union> (if bit idc (n + lo) then {n} else {})"
    by (auto simp: less_Suc_eq)
  then show ?thesis by (simp add: layer_bits_def)
qed

lemma layer_bits_le: "layer_bits lo n idc \<le> n"
  by (induction n) (simp_all add: layer_bits_Suc layer_bits_def [of _ 0])

lemma foldl_layer_bits:
  "foldl (\<lambda>n j. n + ucast (drop_bit (j + lo) idc AND 1)) (0 :: u8) [0..<n] = word_of_nat (layer_bits lo n idc)"
proof (induction n)
  case (Suc n)
  have "ucast (drop_bit (n + lo) idc AND 1) = (of_bool (bit idc (n + lo)) :: u8)"
    by (simp add: and_one_eq bit_iff_odd_drop_bit mod_2_eq_odd)
  then show ?case by (simp add: Suc layer_bits_Suc)
qed (simp add: layer_bits_def)

text \<open>
  The layer counts are the numbers of temporal and spatial layers in the mask of an operating
  point, and one layer each where the mask is 0.
\<close>

theorem operating_point_layer_counts:
  "unat (OperatingPointTemporalLayerCount idc) = (if idc = 0 then 1 else layer_bits 0 8 idc) \<and>
   unat (OperatingPointSpatialLayerCount idc) = (if idc = 0 then 1 else layer_bits 8 4 idc)"
  using layer_bits_le [of 0 8 idc] layer_bits_le [of 8 4 idc] foldl_layer_bits [of 0 idc 8] foldl_layer_bits [of 8 idc 4]
  by (simp add: OperatingPointTemporalLayerCount_def OperatingPointSpatialLayerCount_def OperatingPointIDCAnyLayer_def
      MaxOperatingPointTemporalLayers_def MaxOperatingPointSpatialLayers_def unat_of_nat take_bit_nat_eq_self)

end
