(* ===== verification/Obu_Writer.thy ===== *)
theory Obu_Writer
  imports Obu
begin

text \<open>
  \<open>internal/av1/encoder/bitstream.go\<close>: the encoder's emission of low-overhead OBUs and temporal
  units into a caller's slice that is never grown. A slice with spare capacity is a record of
  its backing bytes (as many as its capacity) and its length; the functions return the slice
  as they leave it together with the error.
\<close>

section \<open>Slices with capacity\<close>

record slice =
  sl_back :: bytes
  sl_len :: nat

definition sl_cap :: "slice \<Rightarrow> nat" where
  "sl_cap s = length (sl_back s)"

definition sl_bytes :: "slice \<Rightarrow> bytes" where
  "sl_bytes s = take (sl_len s) (sl_back s)"

definition sl_wf :: "slice \<Rightarrow> bool" where
  "sl_wf s \<longleftrightarrow> sl_len s \<le> sl_cap s"

text \<open>A call on the window \<open>buf[off:end]\<close> of a backing array.\<close>

definition in_window :: "nat \<Rightarrow> nat \<Rightarrow> (bytes \<Rightarrow> 'a \<times> bytes) \<Rightarrow> bytes \<Rightarrow> 'a \<times> bytes" where
  "in_window off end' f buf =
     (let (r, d) = f (drop off (take end' buf)) in (r, take off buf @ d @ drop end' buf))"

section \<open>Operations\<close>

record OBU =
  ou_Type :: u8
  ou_TemporalID :: u8
  ou_SpatialID :: u8
  ou_Payload :: bytes

definition validateOBU :: "OBU \<Rightarrow> go_err option" where
  "validateOBU unit =
     (if ou_Type unit > 15 \<or> Type_Reserved (ou_Type unit) then Some ErrInvalidFrame
      else if ou_TemporalID unit > 7 \<or> ou_SpatialID unit > 3 then Some ErrInvalidFrame
      else if int (length (ou_Payload unit)) > uint MaxLEB128Value then Some ErrLEB128Overflow
      else None)"

definition lowOverheadOBUSizeUnchecked :: "OBU \<Rightarrow> nat" where
  "lowOverheadOBUSizeUnchecked unit =
     (let headerLen = (if ou_TemporalID unit \<noteq> 0 \<or> ou_SpatialID unit \<noteq> 0 then 2 else 1)
      in headerLen + LEB128Len (word_of_nat (length (ou_Payload unit))) + length (ou_Payload unit))"

definition LowOverheadOBUSize :: "OBU \<Rightarrow> go_err + nat" where
  "LowOverheadOBUSize unit =
     (case validateOBU unit of Some e \<Rightarrow> Inl e | None \<Rightarrow> Inr (lowOverheadOBUSizeUnchecked unit))"

definition obu_header :: "OBU \<Rightarrow> Header" where
  "obu_header unit =
     \<lparr>hd_Type = ou_Type unit, hd_Extension = (ou_TemporalID unit \<noteq> 0 \<or> ou_SpatialID unit \<noteq> 0),
      hd_HasSizeField = True, hd_TemporalID = ou_TemporalID unit, hd_SpatialID = ou_SpatialID unit\<rparr>"

definition AppendLowOverheadOBU :: "slice \<Rightarrow> OBU \<Rightarrow> slice \<times> go_err option" where
  "AppendLowOverheadOBU dst unit =
     (case validateOBU unit of
        Some e \<Rightarrow> (dst, Some e)
      | None \<Rightarrow>
          let sz = lowOverheadOBUSizeUnchecked unit
          in if sl_cap dst - sl_len dst < sz then (dst, Some ErrShortBuffer)
             else
               let off = sl_len dst;
                   end' = off + sz
               in case in_window off end' (\<lambda>out. PutHeader out (obu_header unit)) (sl_back dst) of
                    (Inl e, buf) \<Rightarrow> (dst\<lparr>sl_back := buf\<rparr>, Some e)
                  | (Inr n, buf) \<Rightarrow>
                      let off = off + n
                      in (case in_window off end'
                                 (\<lambda>out. PutLEB128 out (word_of_nat (length (ou_Payload unit)))) buf of
                            (Inl e, buf) \<Rightarrow> (dst\<lparr>sl_back := buf\<rparr>, Some e)
                          | (Inr n, buf) \<Rightarrow>
                              let off = off + n;
                                  (c, buf) = in_window off end' (go_copy (ou_Payload unit)) buf
                              in (\<lparr>sl_back = buf, sl_len = end'\<rparr>, None)))"

definition temporal_delimiter :: OBU where
  "temporal_delimiter = \<lparr>ou_Type = TypeTemporalDelimiter, ou_TemporalID = 0, ou_SpatialID = 0, ou_Payload = []\<rparr>"

fun LowOverheadTemporalUnitSize_loop :: "OBU list \<Rightarrow> nat \<Rightarrow> go_err + nat" where
  "LowOverheadTemporalUnitSize_loop [] sz = Inr sz"
| "LowOverheadTemporalUnitSize_loop (unit # obus) sz =
     (if ou_Type unit = TypeTemporalDelimiter then Inl ErrInvalidFrame
      else case validateOBU unit of
             Some e \<Rightarrow> Inl e
           | None \<Rightarrow> LowOverheadTemporalUnitSize_loop obus (sz + lowOverheadOBUSizeUnchecked unit))"

definition LowOverheadTemporalUnitSize :: "OBU list \<Rightarrow> go_err + nat" where
  "LowOverheadTemporalUnitSize obus =
     (if length obus = 0 then Inl ErrInvalidFrame
      else LowOverheadTemporalUnitSize_loop obus (lowOverheadOBUSizeUnchecked temporal_delimiter))"

text \<open>The second loop: on an error the caller gets \<open>dst\<close> again, over the changed backing array.\<close>

fun AppendLowOverheadTemporalUnit_loop :: "nat \<Rightarrow> slice \<Rightarrow> OBU list \<Rightarrow> slice \<times> go_err option" where
  "AppendLowOverheadTemporalUnit_loop len0 out [] = (out, None)"
| "AppendLowOverheadTemporalUnit_loop len0 out (unit # obus) =
     (case AppendLowOverheadOBU out unit of
        (out, Some e) \<Rightarrow> (out\<lparr>sl_len := len0\<rparr>, Some e)
      | (out, None) \<Rightarrow> AppendLowOverheadTemporalUnit_loop len0 out obus)"

definition AppendLowOverheadTemporalUnit :: "slice \<Rightarrow> OBU list \<Rightarrow> slice \<times> go_err option" where
  "AppendLowOverheadTemporalUnit dst obus =
     (case LowOverheadTemporalUnitSize obus of
        Inl e \<Rightarrow> (dst, Some e)
      | Inr sz \<Rightarrow>
          if sl_cap dst - sl_len dst < sz then (dst, Some ErrShortBuffer)
          else case AppendLowOverheadOBU dst temporal_delimiter of
                 (out, Some e) \<Rightarrow> (out\<lparr>sl_len := sl_len dst\<rparr>, Some e)
               | (out, None) \<Rightarrow> AppendLowOverheadTemporalUnit_loop (sl_len dst) out obus)"

section \<open>Emitting one unit\<close>

abbreviation unit_bytes :: "OBU \<Rightarrow> bytes" where
  "unit_bytes unit \<equiv> obu_bytes (obu_header unit) (ou_Payload unit)"

lemma uint_MaxLEB128Value: "uint MaxLEB128Value = 2 ^ 32 - 1"
  by (simp add: MaxLEB128Value_def)

lemma validateOBU_None:
  assumes "validateOBU unit = None"
  shows "header_ok (obu_header unit)" "length (ou_Payload unit) < 2 ^ 32"
  using assms by (auto simp: validateOBU_def header_ok_def obu_header_def not_less uint_MaxLEB128Value split: if_splits)

lemma length_unit_bytes: "length (unit_bytes unit) = lowOverheadOBUSizeUnchecked unit"
  by (simp add: obu_bytes_def lowOverheadOBUSizeUnchecked_def LEB128Len_length HeaderLen_def obu_header_def Let_def)

lemma in_window_put:
  assumes "f (drop off (take end' buf)) = (r, x @ drop (length x) (drop off (take end' buf)))"
    and "off + length x \<le> end'" "end' \<le> length buf"
  shows "in_window off end' f buf = (r, take off buf @ x @ drop (off + length x) buf)"
proof -
  have "drop (off + length x) (take end' buf) @ drop end' buf = drop (off + length x) buf"
    using assms(2,3) by (metis append_take_drop_id drop_append drop_drop drop_take diff_is_0_eq drop_0 length_take min.absorb2)
  then show ?thesis using assms(1) by (simp add: in_window_def Let_def add.commute)
qed

text \<open>Appending a unit puts its bytes behind the slice and touches nothing else.\<close>

lemma AppendLowOverheadOBU_eq:
  assumes "sl_wf dst"
  shows "AppendLowOverheadOBU dst unit =
    (case validateOBU unit of
       Some e \<Rightarrow> (dst, Some e)
     | None \<Rightarrow>
         let b = unit_bytes unit
         in if sl_cap dst - sl_len dst < length b then (dst, Some ErrShortBuffer)
            else (\<lparr>sl_back = sl_bytes dst @ b @ drop (sl_len dst + length b) (sl_back dst),
                   sl_len = sl_len dst + length b\<rparr>, None))"
proof (cases "validateOBU unit = None \<and> length (unit_bytes unit) \<le> sl_cap dst - sl_len dst")
  case False
  then show ?thesis by (auto simp: AppendLowOverheadOBU_def length_unit_bytes Let_def split: option.splits)
next
  case True
  let ?b = "unit_bytes unit" and ?n = "sl_len dst" and ?h = "header_bytes (obu_header unit)"
  let ?l = "leb128 (word_of_nat (length (ou_Payload unit)))" and ?p = "ou_Payload unit"
  let ?e = "?n + lowOverheadOBUSizeUnchecked unit" and ?buf = "sl_back dst"
  let ?rest = "drop ?e ?buf"
  have h: "\<not> (hd_Type (obu_header unit) > 15 \<or> hd_TemporalID (obu_header unit) > 7 \<or> hd_SpatialID (obu_header unit) > 3)"
    using validateOBU_None [of unit] True by (auto simp: header_ok_def not_less)
  have room: "?e \<le> length ?buf"
    using True assms by (auto simp: sl_wf_def sl_cap_def length_unit_bytes)
  have e: "?e = ?n + length ?h + length ?l + length ?p"
    using length_unit_bytes [of unit] by (simp add: obu_bytes_def)
  have w1: "in_window ?n ?e (\<lambda>out. PutHeader out (obu_header unit)) ?buf =
      (Inr (length ?h), take ?n ?buf @ ?h @ drop (?n + length ?h) ?buf)"
    using h e room by (intro in_window_put) (simp_all add: PutHeader_eq)
  let ?b1 = "take ?n ?buf @ ?h @ drop (?n + length ?h) ?buf"
  have w2: "in_window (?n + length ?h) ?e (\<lambda>out. PutLEB128 out (word_of_nat (length ?p))) ?b1 =
      (Inr (length ?l), take (?n + length ?h) ?b1 @ ?l @ drop (?n + length ?h + length ?l) ?b1)"
    using e room by (intro in_window_put) (simp_all add: PutLEB128_eq)
  let ?b2 = "take (?n + length ?h) ?b1 @ ?l @ drop (?n + length ?h + length ?l) ?b1"
  have w3: "in_window (?n + length ?h + length ?l) ?e (go_copy ?p) ?b2 =
      (length ?p, take (?n + length ?h + length ?l) ?b2 @ ?p @ drop (?n + length ?h + length ?l + length ?p) ?b2)"
    using e room by (intro in_window_put) (simp_all add: go_copy_def Let_def)
  have t: "take (?n + length ?h + length ?l) ?b2 @ ?p @ drop (?n + length ?h + length ?l + length ?p) ?b2 =
      sl_bytes dst @ ?b @ drop ?e ?buf"
    using e room by (simp add: sl_bytes_def obu_bytes_def ac_simps)
  show ?thesis
    using True w1 w2 w3 t
    by (simp add: AppendLowOverheadOBU_def Let_def length_unit_bytes)
qed

lemma AppendLowOverheadOBU_bytes:
  assumes "sl_wf dst" "validateOBU unit = None" "sl_len dst + length (unit_bytes unit) \<le> sl_cap dst"
  shows "\<exists>out. AppendLowOverheadOBU dst unit = (out, None) \<and> sl_wf out \<and> sl_cap out = sl_cap dst \<and>
    sl_len out = sl_len dst + length (unit_bytes unit) \<and> sl_bytes out = sl_bytes dst @ unit_bytes unit"
  using assms by (auto simp: AppendLowOverheadOBU_eq Let_def sl_wf_def sl_cap_def sl_bytes_def)

section \<open>Emitting a temporal unit\<close>

lemma LowOverheadTemporalUnitSize_loop_ok:
  "LowOverheadTemporalUnitSize_loop obus sz = Inr n \<Longrightarrow>
     n = sz + length (concat (map unit_bytes obus)) \<and>
     (\<forall>u \<in> set obus. validateOBU u = None \<and> ou_Type u \<noteq> TypeTemporalDelimiter)"
  by (induction obus sz rule: LowOverheadTemporalUnitSize_loop.induct)
    (auto simp: length_unit_bytes split: if_splits option.splits)

lemma AppendLowOverheadTemporalUnit_loop_bytes:
  assumes "sl_wf out" "\<forall>u \<in> set obus. validateOBU u = None"
    and "sl_len out + length (concat (map unit_bytes obus)) \<le> sl_cap out"
  shows "\<exists>out'. AppendLowOverheadTemporalUnit_loop len0 out obus = (out', None) \<and> sl_wf out' \<and>
    sl_cap out' = sl_cap out \<and> sl_bytes out' = sl_bytes out @ concat (map unit_bytes obus)"
  using assms
proof (induction obus arbitrary: out)
  case (Cons unit obus)
  from AppendLowOverheadOBU_bytes [of out unit] Cons.prems obtain out1 where
    o: "AppendLowOverheadOBU out unit = (out1, None)" "sl_wf out1" "sl_cap out1 = sl_cap out"
      "sl_len out1 = sl_len out + length (unit_bytes unit)" "sl_bytes out1 = sl_bytes out @ unit_bytes unit"
    by auto
  from Cons.IH [of out1] Cons.prems o show ?case by (auto simp: ac_simps)
qed simp

lemma validate_temporal_delimiter: "validateOBU temporal_delimiter = None"
  by (simp add: validateOBU_def temporal_delimiter_def Type_Reserved_def TypeTemporalDelimiter_def TypeReserved_def)

lemma AppendLowOverheadTemporalUnit_bytes:
  assumes "sl_wf dst" "LowOverheadTemporalUnitSize obus = Inr n" "n \<le> sl_cap dst - sl_len dst"
  shows "\<exists>out. AppendLowOverheadTemporalUnit dst obus = (out, None) \<and> sl_wf out \<and> sl_cap out = sl_cap dst \<and>
    sl_bytes out = sl_bytes dst @ concat (map unit_bytes (temporal_delimiter # obus))"
proof -
  have size: "n = length (unit_bytes temporal_delimiter) + length (concat (map unit_bytes obus))"
    and ok: "\<forall>u \<in> set obus. validateOBU u = None"
    using assms(2) LowOverheadTemporalUnitSize_loop_ok
    by (auto simp: LowOverheadTemporalUnitSize_def length_unit_bytes split: if_splits)
  have room: "sl_len dst + length (unit_bytes temporal_delimiter) + length (concat (map unit_bytes obus)) \<le> sl_cap dst"
    using assms(1,3) size by (simp add: sl_wf_def)
  from AppendLowOverheadOBU_bytes [OF assms(1) validate_temporal_delimiter] room obtain out where
    o: "AppendLowOverheadOBU dst temporal_delimiter = (out, None)" "sl_wf out" "sl_cap out = sl_cap dst"
      "sl_len out = sl_len dst + length (unit_bytes temporal_delimiter)"
      "sl_bytes out = sl_bytes dst @ unit_bytes temporal_delimiter"
    by auto
  from AppendLowOverheadTemporalUnit_loop_bytes [OF o(2) ok, of "sl_len dst"] o room assms(2,3) show ?thesis
    by (auto simp: AppendLowOverheadTemporalUnit_def)
qed

lemma obu_header_simps [simp]: "hd_Type (obu_header u) = ou_Type u" "hd_HasSizeField (obu_header u)"
  by (simp_all add: obu_header_def)

lemma un_Header_sized_unit [simp]: "un_Header (sized_unit h p) = h"
  by (simp add: sized_unit_def)

lemma unit_bytes_piece:
  assumes "validateOBU u = None"
  shows "ParseLowOverhead (unit_bytes u) = Inr (sized_unit (obu_header u) (ou_Payload u), length (unit_bytes u))"
  using ParseLowOverhead_obu_bytes [of "obu_header u" "ou_Payload u" "[]"] validateOBU_None [OF assms]
  by simp

lemma temporal_unit_bytes_piece:
  assumes "LowOverheadTemporalUnitSize obus = Inr n"
  shows "temporal_unit_piece (concat (map unit_bytes (temporal_delimiter # obus)))"
proof -
  have ok: "\<forall>u \<in> set obus. validateOBU u = None \<and> ou_Type u \<noteq> TypeTemporalDelimiter"
    using assms LowOverheadTemporalUnitSize_loop_ok by (auto simp: LowOverheadTemporalUnitSize_def split: if_splits)
  then have "\<forall>x \<in> set (map unit_bytes obus). obu_piece_td False x"
    by (auto simp: obu_piece_td_def unit_bytes_piece)
  moreover have "obu_piece_td True (unit_bytes temporal_delimiter)"
    using unit_bytes_piece [OF validate_temporal_delimiter]
    by (simp add: obu_piece_td_def) (simp add: temporal_delimiter_def)
  ultimately show ?thesis
    unfolding temporal_unit_piece_def
    by (intro exI [of _ "unit_bytes temporal_delimiter"] exI [of _ "map unit_bytes obus"]) simp
qed

section \<open>Properties\<close>

text \<open>A client that appends one temporal unit after another.\<close>

fun append_temporal_units :: "slice \<Rightarrow> OBU list list \<Rightarrow> slice \<times> go_err option" where
  "append_temporal_units dst [] = (dst, None)"
| "append_temporal_units dst (obus # rest) =
     (case AppendLowOverheadTemporalUnit dst obus of
        (out, Some e) \<Rightarrow> (out, Some e)
      | (out, None) \<Rightarrow> append_temporal_units out rest)"

lemma AppendLowOverheadTemporalUnit_ok:
  assumes "sl_wf dst" "AppendLowOverheadTemporalUnit dst obus = (out, None)"
  shows "\<exists>n. LowOverheadTemporalUnitSize obus = Inr n \<and> sl_wf out \<and>
    sl_bytes out = sl_bytes dst @ concat (map unit_bytes (temporal_delimiter # obus)) \<and>
    length (sl_bytes out) = length (sl_bytes dst) + n"
proof -
  from assms(2) obtain n where n: "LowOverheadTemporalUnitSize obus = Inr n" "n \<le> sl_cap dst - sl_len dst"
    by (auto simp: AppendLowOverheadTemporalUnit_def split: sum.splits if_splits)
  moreover have "n = length (concat (map unit_bytes (temporal_delimiter # obus)))"
    using n(1) LowOverheadTemporalUnitSize_loop_ok
    by (auto simp: LowOverheadTemporalUnitSize_def length_unit_bytes split: if_splits)
  ultimately show ?thesis using AppendLowOverheadTemporalUnit_bytes [OF assms(1) n] assms(2) by auto
qed

lemma append_temporal_units_ok:
  assumes "sl_wf dst" "append_temporal_units dst frames = (out, None)"
  shows "sl_bytes out = sl_bytes dst @ concat (map (\<lambda>f. concat (map unit_bytes (temporal_delimiter # f))) frames) \<and>
    (\<forall>f \<in> set frames. \<exists>n. LowOverheadTemporalUnitSize f = Inr n)"
  using assms
proof (induction dst frames rule: append_temporal_units.induct)
  case (2 dst obus rest)
  then obtain d where d: "AppendLowOverheadTemporalUnit dst obus = (d, None)" by (auto split: prod.splits option.splits)
  from AppendLowOverheadTemporalUnit_ok [OF "2.prems"(1) d] "2.IH" [OF d [symmetric] refl] "2.prems" d
  show ?case by auto
qed simp

lemma LowOverheadTemporalUnitSize_valid:
  "LowOverheadTemporalUnitSize obus = Inr n \<Longrightarrow> \<forall>u \<in> set obus. validateOBU u = None"
  using LowOverheadTemporalUnitSize_loop_ok [of obus _ n] by (auto simp: LowOverheadTemporalUnitSize_def split: if_splits)

lemma LowOverheadIterator_item: "LowOverheadIterator_Next it = (Inr (Some u), it') \<Longrightarrow> ParseLowOverhead (un_Raw u) = Inr (u, length (un_Raw u))"
  by (auto simp: LowOverheadIterator_Next_def Let_def dest: ParseLowOverhead_Raw split: if_splits sum.splits)

lemma low_overhead_unit_bytes:
  assumes "\<forall>u \<in> set obus. validateOBU u = None" "b = concat (map unit_bytes obus)" "length b < 2 ^ 32"
  shows "\<exists>ps. drain LowOverheadIterator_Next (length b + 1) (NewLowOverheadIterator b) = Some (ps, None) \<and>
    map (\<lambda>p. (un_Header p, un_Payload p)) ps = map (\<lambda>ob. (obu_header ob, ou_Payload ob)) obus"
proof -
  let ?it = "NewLowOverheadIterator b"
  have "lo_ok ?it" "lo_left ?it = concat (map unit_bytes obus)" "length (lo_left ?it) < length b + 1"
    using assms(2,3) by (simp_all add: lo_ok_def lo_left_def NewLowOverheadIterator_def)
  moreover have "\<forall>x \<in> set (map unit_bytes obus). obu_piece x"
    using assms(1) by (auto simp: obu_piece_def unit_bytes_piece)
  ultimately obtain ps where ps: "drain LowOverheadIterator_Next (length b + 1) ?it = Some (ps, None)"
      "map un_Raw ps = map unit_bytes obus"
    using low_overhead.drain_complete by blast
  have "\<forall>p \<in> set ps. ParseLowOverhead (un_Raw p) = Inr (p, length (un_Raw p))"
    by (rule drain_items [OF LowOverheadIterator_item ps(1)])
  with ps(2) assms(1) have "map (\<lambda>p. (un_Header p, un_Payload p)) ps = map (\<lambda>ob. (obu_header ob, ou_Payload ob)) obus"
  proof (induction ps arbitrary: obus)
    case (Cons p ps)
    then obtain ob obs where ob: "obus = ob # obs" "un_Raw p = unit_bytes ob" by (cases obus) auto
    with Cons.prems have "ParseLowOverhead (unit_bytes ob) = Inr (p, length (unit_bytes ob))" by auto
    then have "p = sized_unit (obu_header ob) (ou_Payload ob)" using unit_bytes_piece [of ob] Cons.prems ob by simp
    then show ?case using Cons ob by (simp add: sized_unit_def)
  qed simp
  with ps(1) show ?thesis by blast
qed

text \<open>
  A low-overhead OBU that the encoder appends is parsed back by the decoder: same type, layer
  ids and payload; its bytes are exactly as many as \<open>LowOverheadOBUSize\<close> announced, and the bytes
  already in the slice are kept.
\<close>

theorem AppendLowOverheadOBU_ParseLowOverhead:
  assumes "sl_wf dst" "AppendLowOverheadOBU dst unit = (out, None)"
  shows "\<exists>n b. LowOverheadOBUSize unit = Inr n \<and> sl_bytes out = sl_bytes dst @ b \<and> length b = n \<and>
    ParseLowOverhead (b @ rest) = Inr (sized_unit (obu_header unit) (ou_Payload unit), n)"
proof -
  have v: "validateOBU unit = None" using assms(2) by (auto simp: AppendLowOverheadOBU_def split: option.splits)
  moreover from this assms have "length (unit_bytes unit) \<le> sl_cap dst - sl_len dst"
    by (auto simp: AppendLowOverheadOBU_eq Let_def split: if_splits)
  ultimately show ?thesis
    using AppendLowOverheadOBU_bytes [OF assms(1) v] assms ParseLowOverhead_append [OF unit_bytes_piece [OF v], of rest]
    by (auto simp: LowOverheadOBUSize_def length_unit_bytes sl_wf_def)
qed

theorem AppendLowOverheadOBU_ParseLowOverhead_witness:
  "\<exists>b. sl_bytes (fst (AppendLowOverheadOBU \<lparr>sl_back = replicate 8 0xff, sl_len = 2\<rparr>
       \<lparr>ou_Type = TypeFrame, ou_TemporalID = 1, ou_SpatialID = 0, ou_Payload = [7, 8]\<rparr>)) = [0xff, 0xff] @ b \<and>
     length b = 5"
proof -
  have a: "AppendLowOverheadOBU \<lparr>sl_back = replicate 8 0xff, sl_len = 2\<rparr>
      \<lparr>ou_Type = TypeFrame, ou_TemporalID = 1, ou_SpatialID = 0, ou_Payload = [7, 8]\<rparr> =
      (\<lparr>sl_back = [0xff, 0xff, 0x36, 0x20, 2, 7, 8, 0xff], sl_len = 7\<rparr>, None)"
    by code_simp
  have w: "sl_wf \<lparr>sl_back = replicate 8 0xff, sl_len = 2\<rparr>" by code_simp
  have n: "LowOverheadOBUSize \<lparr>ou_Type = TypeFrame, ou_TemporalID = 1, ou_SpatialID = 0, ou_Payload = [7, 8]\<rparr> = Inr 5"
    by code_simp
  have p: "sl_bytes \<lparr>sl_back = replicate 8 0xff, sl_len = 2\<rparr> = [0xff, 0xff]" by code_simp
  from AppendLowOverheadOBU_ParseLowOverhead [OF w a, of "[]"] show ?thesis by (auto simp: a n p)
qed

text \<open>
  C5: a stream of temporal units written by the encoder is split by the decoder's
  \<open>TemporalUnitIterator\<close> into exactly the units written, in order and without an error, and
  inside each of them the \<open>LowOverheadIterator\<close> finds the temporal delimiter and the OBUs.
\<close>

theorem temporal_units_roundtrip:
  assumes "append_temporal_units \<lparr>sl_back = buf, sl_len = 0\<rparr> frames = (out, None)"
    and "length (sl_bytes out) < 2 ^ 32"
  shows "\<exists>us. drain TemporalUnitIterator_Next (length (sl_bytes out) + 1) (NewTemporalUnitIterator (sl_bytes out)) =
      Some (us, None) \<and>
    list_all2 (\<lambda>u obus. \<exists>ps. drain LowOverheadIterator_Next (length (tu_Raw u) + 1) (NewLowOverheadIterator (tu_Raw u)) =
        Some (ps, None) \<and>
      map (\<lambda>p. (un_Header p, un_Payload p)) ps =
      map (\<lambda>ob. (obu_header ob, ou_Payload ob)) (temporal_delimiter # obus)) us frames"
proof -
  let ?tu = "\<lambda>f. concat (map unit_bytes (temporal_delimiter # f))"
  have wf: "sl_wf \<lparr>sl_back = buf, sl_len = 0\<rparr>" by (simp add: sl_wf_def)
  from append_temporal_units_ok [OF wf assms(1)]
  have out: "sl_bytes out = concat (map ?tu frames)" and ok: "\<forall>f \<in> set frames. \<exists>n. LowOverheadTemporalUnitSize f = Inr n"
    by (simp_all add: sl_bytes_def)
  let ?it = "NewTemporalUnitIterator (sl_bytes out)"
  have "tu_ok ?it" "tu_left ?it = concat (map ?tu frames)" "length (tu_left ?it) < length (sl_bytes out) + 1"
    using assms(2) by (simp_all add: tu_ok_def tu_left_def NewTemporalUnitIterator_def out)
  moreover have "\<forall>b \<in> set (map ?tu frames). temporal_unit_piece b"
    using ok temporal_unit_bytes_piece by auto
  ultimately obtain us where us: "drain TemporalUnitIterator_Next (length (sl_bytes out) + 1) ?it = Some (us, None)"
      "map tu_Raw us = map ?tu frames"
    using temporal_units.drain_complete by blast
  have "\<exists>ps. drain LowOverheadIterator_Next (length (tu_Raw u) + 1) (NewLowOverheadIterator (tu_Raw u)) =
        Some (ps, None) \<and>
      map (\<lambda>p. (un_Header p, un_Payload p)) ps =
      map (\<lambda>ob. (obu_header ob, ou_Payload ob)) (temporal_delimiter # f)"
    if "tu_Raw u = ?tu f" "f \<in> set frames" for u f
  proof -
    have "\<forall>ob \<in> set (temporal_delimiter # f). validateOBU ob = None"
      using ok that(2) LowOverheadTemporalUnitSize_valid validate_temporal_delimiter by auto
    moreover have "length (?tu f) \<le> length (sl_bytes out)"
      using that(2) length_le_concat [of "?tu f" "map ?tu frames"] unfolding out by simp
    ultimately show ?thesis using low_overhead_unit_bytes [of "temporal_delimiter # f" "tu_Raw u"] that(1) assms(2) by simp
  qed
  note inner = this
  have "list_all2 (=) (map tu_Raw us) (map ?tu frames)" unfolding us(2) by (rule list.rel_refl) simp
  then have L: "list_all2 (\<lambda>u f. tu_Raw u = ?tu f) us frames" by (simp only: list.rel_map)
  show ?thesis
    by (rule exI [of _ us], rule conjI [OF us(1)], rule list.rel_mono_strong [OF L]) (rule inner)
qed

theorem temporal_units_roundtrip_witness:
  "\<exists>us. drain TemporalUnitIterator_Next 7 (NewTemporalUnitIterator [0x12, 0, 0x32, 2, 7, 8]) = Some (us, None)"
proof -
  let ?f = "\<lparr>ou_Type = TypeFrame, ou_TemporalID = 0, ou_SpatialID = 0, ou_Payload = [7, 8]\<rparr>"
  have "append_temporal_units \<lparr>sl_back = replicate 6 0, sl_len = 0\<rparr> [[?f]] =
      (\<lparr>sl_back = [0x12, 0, 0x32, 2, 7, 8], sl_len = 6\<rparr>, None)"
    by code_simp
  note rt = temporal_units_roundtrip [OF this]
  have b: "sl_bytes \<lparr>sl_back = [0x12, 0, 0x32, 2, 7, 8], sl_len = 6\<rparr> = [0x12, 0, 0x32, 2, 7, 8]" by code_simp
  have "length [0x12, 0, 0x32, 2, 7, 8 :: u8] + 1 = 7" by code_simp
  from rt [unfolded b this] show ?thesis by (auto simp del: drain.simps)
qed

text \<open>
  When a temporal unit cannot be appended (an OBU is invalid, a delimiter is among them, the
  list is empty or the slice is too small) the slice comes back unchanged, spare bytes included.
\<close>

theorem AppendLowOverheadTemporalUnit_error:
  assumes "sl_wf dst" "AppendLowOverheadTemporalUnit dst obus = (out, Some e)"
  shows "out = dst \<and> (e = ErrInvalidFrame \<or> e = ErrLEB128Overflow \<or> e = ErrShortBuffer)"
proof (cases "LowOverheadTemporalUnitSize obus")
  case (Inl x)
  have "LowOverheadTemporalUnitSize_loop obus sz = Inl x \<Longrightarrow> x = ErrInvalidFrame \<or> x = ErrLEB128Overflow" for sz
    by (induction obus sz rule: LowOverheadTemporalUnitSize_loop.induct)
      (auto simp: validateOBU_def split: if_splits option.splits)
  then show ?thesis
    using Inl assms(2) by (auto simp: AppendLowOverheadTemporalUnit_def LowOverheadTemporalUnitSize_def split: if_splits)
next
  case (Inr n)
  with AppendLowOverheadTemporalUnit_bytes [OF assms(1) Inr] assms(2) have "\<not> n \<le> sl_cap dst - sl_len dst" by auto
  then show ?thesis using Inr assms(2) by (auto simp: AppendLowOverheadTemporalUnit_def)
qed

theorem AppendLowOverheadTemporalUnit_error_witness:
  "AppendLowOverheadTemporalUnit \<lparr>sl_back = [1, 2, 3], sl_len = 1\<rparr>
     [\<lparr>ou_Type = TypeFrame, ou_TemporalID = 0, ou_SpatialID = 0, ou_Payload = [7]\<rparr>] =
   (\<lparr>sl_back = [1, 2, 3], sl_len = 1\<rparr>, Some ErrShortBuffer)"
proof -
  let ?d = "\<lparr>sl_back = [1, 2, 3], sl_len = 1\<rparr>"
    and ?u = "[\<lparr>ou_Type = TypeFrame, ou_TemporalID = 0, ou_SpatialID = 0, ou_Payload = [7]\<rparr>]"
  have "snd (AppendLowOverheadTemporalUnit ?d ?u) = Some ErrShortBuffer" "sl_wf ?d" by code_simp+
  then show ?thesis
    using AppendLowOverheadTemporalUnit_error [of ?d ?u "fst (AppendLowOverheadTemporalUnit ?d ?u)" ErrShortBuffer]
    by (simp add: prod_eq_iff)
qed

end
