(* ===== verification/Seq_Writer.thy ===== *)
theory Seq_Writer
  imports Header_Codec Seq_Parser Obu_Writer
begin

text \<open>
  \<open>internal/av1/encoder/sequence.go\<close>: the encoder's sequence header, its validation and its writer,
  and the sequence header OBU. The main result is that the parser gives back what the encoder
  wrote, field by field.
\<close>

section \<open>Data\<close>

record SequenceOperatingPoint =
  so_IDC :: u16
  so_SeqLevelIdx :: u8
  so_SeqTier :: u8
  so_DecoderModelPresent :: bool
  so_DecoderBufferDelay :: u32
  so_EncoderBufferDelay :: u32
  so_LowDelayMode :: bool
  so_InitialDisplayDelayPresent :: bool
  so_InitialDisplayDelayMinus1 :: u8

record SequenceTimingInfo =
  st_NumUnitsInDisplayTick :: u32
  st_TimeScale :: u32
  st_EqualPictureInterval :: bool
  st_NumTicksPerPictureMinus1 :: u32

record SequenceDecoderModelInfo =
  sd_BufferDelayLength :: u8
  sd_NumUnitsInDecodingTick :: u32
  sd_BufferRemovalTimeLength :: u8
  sd_FramePresentationTimeLength :: u8

record SequenceColorConfig =
  sc_BitDepth :: u8
  sc_MonoChrome :: bool
  sc_ColorDescriptionPresent :: bool
  sc_ColorPrimaries :: u8
  sc_TransferCharacteristics :: u8
  sc_MatrixCoefficients :: u8
  sc_ColorRange :: bool
  sc_SubsamplingX :: bool
  sc_SubsamplingY :: bool
  sc_ChromaSamplePosition :: u8
  sc_SeparateUVDeltaQ :: bool

record EncSequenceHeader =
  es_Profile :: u8
  es_StillPicture :: bool
  es_ReducedStillPictureHeader :: bool
  es_TimingInfoPresent :: bool
  es_DecoderModelInfoPresent :: bool
  es_InitialDisplayDelayPresent :: bool
  es_TimingInfo :: SequenceTimingInfo
  es_DecoderModelInfo :: SequenceDecoderModelInfo
  es_OperatingPointsCount :: u8
  es_OperatingPoints :: "SequenceOperatingPoint list"
  es_MaxFrameWidth :: u32
  es_MaxFrameHeight :: u32
  es_FrameIDNumbersPresent :: bool
  es_DeltaFrameIDLength :: u8
  es_AdditionalFrameIDLength :: u8
  es_Use128x128Superblock :: bool
  es_EnableFilterIntra :: bool
  es_EnableIntraEdgeFilter :: bool
  es_EnableInterIntraCompound :: bool
  es_EnableMaskedCompound :: bool
  es_EnableWarpedMotion :: bool
  es_EnableDualFilter :: bool
  es_EnableOrderHint :: bool
  es_EnableJNTComp :: bool
  es_EnableRefFrameMVS :: bool
  es_SeqForceScreenContentTools :: u8
  es_SeqForceIntegerMV :: u8
  es_OrderHintBits :: u8
  es_EnableSuperRes :: bool
  es_EnableCDEF :: bool
  es_EnableRestoration :: bool
  es_ColorConfig :: SequenceColorConfig
  es_FilmGrainParamsPresent :: bool

definition zero_SequenceTimingInfo :: SequenceTimingInfo where
  "zero_SequenceTimingInfo = \<lparr>st_NumUnitsInDisplayTick = 0, st_TimeScale = 0, st_EqualPictureInterval = False,
     st_NumTicksPerPictureMinus1 = 0\<rparr>"

definition zero_SequenceDecoderModelInfo :: SequenceDecoderModelInfo where
  "zero_SequenceDecoderModelInfo = \<lparr>sd_BufferDelayLength = 0, sd_NumUnitsInDecodingTick = 0,
     sd_BufferRemovalTimeLength = 0, sd_FramePresentationTimeLength = 0\<rparr>"

definition zero_SequenceOperatingPoint :: SequenceOperatingPoint where
  "zero_SequenceOperatingPoint = \<lparr>so_IDC = 0, so_SeqLevelIdx = 0, so_SeqTier = 0, so_DecoderModelPresent = False,
     so_DecoderBufferDelay = 0, so_EncoderBufferDelay = 0, so_LowDelayMode = False,
     so_InitialDisplayDelayPresent = False, so_InitialDisplayDelayMinus1 = 0\<rparr>"

definition Profile0 :: u8 where "Profile0 = 0"
definition Profile1 :: u8 where "Profile1 = 1"
definition Profile2 :: u8 where "Profile2 = 2"

lemmas profile_consts = Profile0_def Profile1_def Profile2_def

section \<open>Validation\<close>

definition Profile_Valid :: "u8 \<Rightarrow> bool" where
  "Profile_Valid p \<longleftrightarrow> p \<le> Profile2"

definition sequenceColorBitDepth :: "SequenceColorConfig \<Rightarrow> u8" where
  "sequenceColorBitDepth cfg = (if sc_BitDepth cfg = 0 then 8 else sc_BitDepth cfg)"

definition sequenceColorIsIdentity :: "SequenceColorConfig \<Rightarrow> bool" where
  "sequenceColorIsIdentity cfg \<longleftrightarrow>
     sc_ColorDescriptionPresent cfg \<and> sc_ColorPrimaries cfg = ColorPrimariesBT709 \<and>
     sc_TransferCharacteristics cfg = TransferCharacteristicsSRGB \<and>
     sc_MatrixCoefficients cfg = MatrixCoefficientsIdentity"

definition sequenceOperatingPointCount :: "EncSequenceHeader \<Rightarrow> u8" where
  "sequenceOperatingPointCount seq = (if es_OperatingPointsCount seq = 0 then 1 else es_OperatingPointsCount seq)"

text \<open>The Go conversion \<open>uint8(n)\<close> of \<open>bits.Len32\<close>, which is at most 32.\<close>

definition sequenceFrameDimensionBits :: "u32 \<Rightarrow> u8" where
  "sequenceFrameDimensionBits value = (let n = bit_len (value - 1) in if n = 0 then 1 else word_of_nat n)"

definition validSequenceDecoderModelInfo :: "SequenceDecoderModelInfo \<Rightarrow> bool" where
  "validSequenceDecoderModelInfo info \<longleftrightarrow>
     sd_BufferDelayLength info \<ge> 1 \<and> sd_BufferDelayLength info \<le> 32 \<and>
     sd_BufferRemovalTimeLength info \<ge> 1 \<and> sd_BufferRemovalTimeLength info \<le> 32 \<and>
     sd_FramePresentationTimeLength info \<ge> 1 \<and> sd_FramePresentationTimeLength info \<le> 32"

definition valueFitsBits32 :: "u32 \<Rightarrow> u8 \<Rightarrow> bool" where
  "valueFitsBits32 value n =
     (if n = 0 \<or> n > 32 then False
      else if n = 32 then True
      else value < push_bit (unat n) 1)"

definition validateSequenceColorConfig :: "u8 \<Rightarrow> SequenceColorConfig \<Rightarrow> go_err option" where
  "validateSequenceColorConfig profile cfg =
     (let bitDepth = sequenceColorBitDepth cfg
      in if bitDepth \<notin> {8, 10, 12} then Some ErrInvalidConfig
         else if bitDepth = 12 \<and> profile \<noteq> Profile2 then Some ErrInvalidConfig
         else if profile = Profile1 \<and> sc_MonoChrome cfg then Some ErrInvalidConfig
         else if sc_MonoChrome cfg then
           if sc_ChromaSamplePosition cfg \<noteq> 0 \<or> sc_SeparateUVDeltaQ cfg then Some ErrInvalidConfig else None
         else if sc_ChromaSamplePosition cfg > 3 then Some ErrInvalidConfig
         else if sequenceColorIsIdentity cfg then
           if \<not> sc_ColorRange cfg \<or> sc_SubsamplingX cfg \<or> sc_SubsamplingY cfg \<or> sc_ChromaSamplePosition cfg \<noteq> 0
           then Some ErrInvalidConfig else None
         else if profile = Profile0 \<and> (\<not> sc_SubsamplingX cfg \<or> \<not> sc_SubsamplingY cfg) then Some ErrInvalidConfig
         else if profile = Profile1 \<and> (sc_SubsamplingX cfg \<or> sc_SubsamplingY cfg) then Some ErrInvalidConfig
         else if profile = Profile2 \<and>
             (if bitDepth = 12 then \<not> sc_SubsamplingX cfg \<and> sc_SubsamplingY cfg
              else \<not> sc_SubsamplingX cfg \<or> sc_SubsamplingY cfg) then Some ErrInvalidConfig
         else if (\<not> sc_SubsamplingX cfg \<or> \<not> sc_SubsamplingY cfg) \<and> sc_ChromaSamplePosition cfg \<noteq> 0
         then Some ErrInvalidConfig
         else None)"

text \<open>The body of the loop over the operating points: whether the point is rejected.\<close>

definition invalidSequenceOperatingPoint :: "EncSequenceHeader \<Rightarrow> SequenceOperatingPoint \<Rightarrow> bool" where
  "invalidSequenceOperatingPoint seq op =
     (if so_IDC op > 0x0fff \<or> \<not> ValidSequenceLevelIndex (so_SeqLevelIdx op) \<or> so_SeqTier op > 1 then True
      else if so_SeqLevelIdx op \<le> 7 \<and> so_SeqTier op \<noteq> 0 then True
      else if so_DecoderModelPresent op \<and> \<not> es_DecoderModelInfoPresent seq then True
      else if so_DecoderModelPresent op \<and>
          (\<not> valueFitsBits32 (so_DecoderBufferDelay op) (sd_BufferDelayLength (es_DecoderModelInfo seq)) \<or>
           \<not> valueFitsBits32 (so_EncoderBufferDelay op) (sd_BufferDelayLength (es_DecoderModelInfo seq))) then True
      else if \<not> so_DecoderModelPresent op \<and>
          (so_DecoderBufferDelay op \<noteq> 0 \<or> so_EncoderBufferDelay op \<noteq> 0 \<or> so_LowDelayMode op) then True
      else if so_InitialDisplayDelayPresent op \<and> \<not> es_InitialDisplayDelayPresent seq then True
      else if so_InitialDisplayDelayMinus1 op > 0x0f then True
      else if \<not> so_InitialDisplayDelayPresent op \<and> so_InitialDisplayDelayMinus1 op \<noteq> 0 then True
      else False)"

text \<open>The checks behind the operating points: frame size, frame identifiers and coding tools.\<close>

definition validateSequenceHeader_tail :: "EncSequenceHeader \<Rightarrow> go_err option" where
  "validateSequenceHeader_tail seq =
     (if es_MaxFrameWidth seq = 0 \<or> es_MaxFrameHeight seq = 0 \<or> es_MaxFrameWidth seq > 0x10000 \<or> es_MaxFrameHeight seq > 0x10000
      then Some ErrInvalidConfig
      else if es_ReducedStillPictureHeader seq \<and> es_FrameIDNumbersPresent seq then Some ErrInvalidConfig
      else if es_FrameIDNumbersPresent seq \<and>
          (es_DeltaFrameIDLength seq < 2 \<or> es_DeltaFrameIDLength seq > 16 \<or>
           es_AdditionalFrameIDLength seq < 1 \<or> es_AdditionalFrameIDLength seq > 8) then Some ErrInvalidConfig
      else if es_FrameIDNumbersPresent seq \<and> es_DeltaFrameIDLength seq + es_AdditionalFrameIDLength seq > 16
      then Some ErrInvalidConfig
      else if \<not> es_FrameIDNumbersPresent seq \<and> (es_DeltaFrameIDLength seq \<noteq> 0 \<or> es_AdditionalFrameIDLength seq \<noteq> 0)
      then Some ErrInvalidConfig
      else if es_SeqForceScreenContentTools seq > SelectScreenContentTools then Some ErrInvalidConfig
      else if es_SeqForceScreenContentTools seq = 0 \<and> es_SeqForceIntegerMV seq \<noteq> 0 then Some ErrInvalidConfig
      else if es_SeqForceScreenContentTools seq > 0 \<and> es_SeqForceIntegerMV seq > SelectIntegerMV then Some ErrInvalidConfig
      else if es_EnableOrderHint seq \<and> (es_OrderHintBits seq = 0 \<or> es_OrderHintBits seq > 8) then Some ErrInvalidConfig
      else if \<not> es_EnableOrderHint seq \<and> (es_EnableJNTComp seq \<or> es_EnableRefFrameMVS seq \<or> es_OrderHintBits seq \<noteq> 0)
      then Some ErrInvalidConfig
      else validateSequenceColorConfig (es_Profile seq) (es_ColorConfig seq))"

definition validateSequenceHeader :: "EncSequenceHeader \<Rightarrow> go_err option" where
  "validateSequenceHeader seq =
     (if \<not> Profile_Valid (es_Profile seq) then Some ErrInvalidConfig
      else if es_ReducedStillPictureHeader seq \<and> \<not> es_StillPicture seq then Some ErrInvalidConfig
      else if es_ReducedStillPictureHeader seq \<and>
          (es_TimingInfoPresent seq \<or> es_DecoderModelInfoPresent seq \<or> es_InitialDisplayDelayPresent seq)
      then Some ErrInvalidConfig
      else if es_ReducedStillPictureHeader seq \<and>
          (es_SeqForceScreenContentTools seq \<noteq> SelectScreenContentTools \<or> es_SeqForceIntegerMV seq \<noteq> SelectIntegerMV)
      then Some ErrInvalidConfig
      else if \<not> es_TimingInfoPresent seq \<and> es_TimingInfo seq \<noteq> zero_SequenceTimingInfo then Some ErrInvalidConfig
      else if es_TimingInfoPresent seq \<and> \<not> st_EqualPictureInterval (es_TimingInfo seq) \<and>
          st_NumTicksPerPictureMinus1 (es_TimingInfo seq) \<noteq> 0 then Some ErrInvalidConfig
      else if es_DecoderModelInfoPresent seq \<and> \<not> es_TimingInfoPresent seq then Some ErrInvalidConfig
      else if es_DecoderModelInfoPresent seq \<and> \<not> validSequenceDecoderModelInfo (es_DecoderModelInfo seq)
      then Some ErrInvalidConfig
      else if \<not> es_DecoderModelInfoPresent seq \<and> es_DecoderModelInfo seq \<noteq> zero_SequenceDecoderModelInfo
      then Some ErrInvalidConfig
      else
        let opCount = sequenceOperatingPointCount seq
        in if opCount = 0 \<or> opCount > 32 then Some ErrInvalidConfig
           else if es_ReducedStillPictureHeader seq \<and> opCount \<noteq> 1 then Some ErrInvalidConfig
           else if list_ex (\<lambda>i. invalidSequenceOperatingPoint seq (es_OperatingPoints seq ! i)) [0..<unat opCount]
           then Some ErrInvalidConfig
           else validateSequenceHeader_tail seq)"

section \<open>Writing\<close>

definition writeSequenceLevel :: "u8 \<Rightarrow> wr" where
  "writeSequenceLevel level = writeBits (ucast level) 5"

definition writeSequenceTimingInfo :: "SequenceTimingInfo \<Rightarrow> wr" where
  "writeSequenceTimingInfo timing = wseqs
     [writeBits (ucast (st_NumUnitsInDisplayTick timing)) 32,
      writeBits (ucast (st_TimeScale timing)) 32,
      writeBool (st_EqualPictureInterval timing),
      if st_EqualPictureInterval timing then writeUVLC (st_NumTicksPerPictureMinus1 timing) else wret]"

definition writeSequenceDecoderModelInfo :: "SequenceDecoderModelInfo \<Rightarrow> wr" where
  "writeSequenceDecoderModelInfo info = wseqs
     [writeBits (ucast (sd_BufferDelayLength info - 1)) 5,
      writeBits (ucast (sd_NumUnitsInDecodingTick info)) 32,
      writeBits (ucast (sd_BufferRemovalTimeLength info - 1)) 5,
      writeBits (ucast (sd_FramePresentationTimeLength info - 1)) 5]"

definition writeSequenceOperatingParametersInfo :: "SequenceDecoderModelInfo \<Rightarrow> SequenceOperatingPoint \<Rightarrow> wr" where
  "writeSequenceOperatingParametersInfo info op = wseqs
     [writeBits (ucast (so_DecoderBufferDelay op)) (sd_BufferDelayLength info),
      writeBits (ucast (so_EncoderBufferDelay op)) (sd_BufferDelayLength info),
      writeBool (so_LowDelayMode op)]"

text \<open>The body of the loop over the operating points.\<close>

definition writeSequenceOperatingPoint :: "EncSequenceHeader \<Rightarrow> SequenceOperatingPoint \<Rightarrow> wr" where
  "writeSequenceOperatingPoint seq op = wseqs
     [writeBits (ucast (so_IDC op)) 12,
      writeSequenceLevel (so_SeqLevelIdx op),
      if so_SeqLevelIdx op > 7 then writeBits (ucast (so_SeqTier op)) 1 else wret,
      if es_DecoderModelInfoPresent seq then wseqs
        [writeBool (so_DecoderModelPresent op),
         if so_DecoderModelPresent op then writeSequenceOperatingParametersInfo (es_DecoderModelInfo seq) op else wret]
      else wret,
      if es_InitialDisplayDelayPresent seq then wseqs
        [writeBool (so_InitialDisplayDelayPresent op),
         if so_InitialDisplayDelayPresent op then writeBits (ucast (so_InitialDisplayDelayMinus1 op)) 4 else wret]
      else wret]"

definition writeSequenceFrameSize :: "EncSequenceHeader \<Rightarrow> wr" where
  "writeSequenceFrameSize seq =
     (let widthBits = sequenceFrameDimensionBits (es_MaxFrameWidth seq);
          heightBits = sequenceFrameDimensionBits (es_MaxFrameHeight seq)
      in wseqs
        [writeBits (ucast (widthBits - 1)) 4,
         writeBits (ucast (heightBits - 1)) 4,
         writeBits (ucast (es_MaxFrameWidth seq - 1)) widthBits,
         writeBits (ucast (es_MaxFrameHeight seq - 1)) heightBits,
         if \<not> es_ReducedStillPictureHeader seq then writeBool (es_FrameIDNumbersPresent seq) else wret,
         if es_FrameIDNumbersPresent seq then wseqs
           [writeBits (ucast (es_DeltaFrameIDLength seq - 2)) 4,
            writeBits (ucast (es_AdditionalFrameIDLength seq - 1)) 3]
         else wret])"

definition writeSequenceSelectOrBit :: "u8 \<Rightarrow> wr" where
  "writeSequenceSelectOrBit value =
     (if value = SelectScreenContentTools then writeBool True
      else wseqs [writeBool False, writeBits (ucast value) 1])"

definition writeSequenceTools :: "EncSequenceHeader \<Rightarrow> wr" where
  "writeSequenceTools seq = wseqs
     [writeBool (es_Use128x128Superblock seq),
      writeBool (es_EnableFilterIntra seq),
      writeBool (es_EnableIntraEdgeFilter seq),
      if \<not> es_ReducedStillPictureHeader seq then wseqs
        [writeBool (es_EnableInterIntraCompound seq),
         writeBool (es_EnableMaskedCompound seq),
         writeBool (es_EnableWarpedMotion seq),
         writeBool (es_EnableDualFilter seq),
         writeBool (es_EnableOrderHint seq),
         if es_EnableOrderHint seq then wseqs
           [writeBool (es_EnableJNTComp seq), writeBool (es_EnableRefFrameMVS seq)]
         else wret,
         writeSequenceSelectOrBit (es_SeqForceScreenContentTools seq),
         if es_SeqForceScreenContentTools seq > 0 then writeSequenceSelectOrBit (es_SeqForceIntegerMV seq) else wret,
         if es_EnableOrderHint seq then writeBits (ucast (es_OrderHintBits seq - 1)) 3 else wret]
      else wret,
      writeBool (es_EnableSuperRes seq),
      writeBool (es_EnableCDEF seq),
      writeBool (es_EnableRestoration seq)]"

definition writeSequenceColorConfig :: "u8 \<Rightarrow> SequenceColorConfig \<Rightarrow> wr" where
  "writeSequenceColorConfig profile cfg =
     (let bitDepth = sequenceColorBitDepth cfg;
          highBitdepth = bitDepth > 8
      in wseqs
        [writeBool highBitdepth,
         if profile = Profile2 \<and> highBitdepth then writeBool (bitDepth = 12) else wret,
         if profile \<noteq> Profile1 then writeBool (sc_MonoChrome cfg) else wret,
         writeBool (sc_ColorDescriptionPresent cfg),
         if sc_ColorDescriptionPresent cfg then wseqs
           [writeBits (ucast (sc_ColorPrimaries cfg)) 8,
            writeBits (ucast (sc_TransferCharacteristics cfg)) 8,
            writeBits (ucast (sc_MatrixCoefficients cfg)) 8]
         else wret,
         if sc_MonoChrome cfg then writeBool (sc_ColorRange cfg)
         else if sequenceColorIsIdentity cfg then writeBool (sc_SeparateUVDeltaQ cfg)
         else wseqs
           [writeBool (sc_ColorRange cfg),
            if profile = Profile2 \<and> bitDepth = 12 then wseqs
              [writeBool (sc_SubsamplingX cfg),
               if sc_SubsamplingX cfg then writeBool (sc_SubsamplingY cfg) else wret]
            else wret,
            if sc_SubsamplingX cfg \<and> sc_SubsamplingY cfg then writeBits (ucast (sc_ChromaSamplePosition cfg)) 2 else wret,
            writeBool (sc_SeparateUVDeltaQ cfg)]])"

text \<open>The fields of the payload up to the trailing bits.\<close>

definition writeSequenceHeader_fields :: "EncSequenceHeader \<Rightarrow> wr" where
  "writeSequenceHeader_fields seq =
     (let opCount = sequenceOperatingPointCount seq in wseqs
     [writeBits (ucast (es_Profile seq)) 3,
      writeBool (es_StillPicture seq),
      writeBool (es_ReducedStillPictureHeader seq),
      if es_ReducedStillPictureHeader seq then writeSequenceLevel (so_SeqLevelIdx (es_OperatingPoints seq ! 0))
      else wseqs
        [writeBool (es_TimingInfoPresent seq),
         if es_TimingInfoPresent seq then wseqs
           [writeSequenceTimingInfo (es_TimingInfo seq),
            writeBool (es_DecoderModelInfoPresent seq),
            if es_DecoderModelInfoPresent seq then writeSequenceDecoderModelInfo (es_DecoderModelInfo seq) else wret]
         else wret,
         writeBool (es_InitialDisplayDelayPresent seq),
         writeBits (ucast (opCount - 1)) 5,
         wseqs (map (\<lambda>i. writeSequenceOperatingPoint seq (es_OperatingPoints seq ! i)) [0..<unat opCount])],
      writeSequenceFrameSize seq,
      writeSequenceTools seq,
      writeSequenceColorConfig (es_Profile seq) (es_ColorConfig seq),
      writeBool (es_FilmGrainParamsPresent seq)])"

definition writeSequenceHeaderPayload :: "EncSequenceHeader \<Rightarrow> wr" where
  "writeSequenceHeaderPayload seq =
     (case validateSequenceHeader seq of
        Some e \<Rightarrow> wfail e
      | None \<Rightarrow> wseq (writeSequenceHeader_fields seq) writeTrailingBits)"

definition SequenceHeaderPayloadSize :: "EncSequenceHeader \<Rightarrow> go_err + nat" where
  "SequenceHeaderPayloadSize seq =
     (case writeSequenceHeaderPayload seq newSizingBitWriter of
        (Inl e, w) \<Rightarrow> Inl e
      | (Inr u, w) \<Rightarrow> Inr (bytesWritten w))"

text \<open>Running a bit writer over the window a caller hands it.\<close>

definition run_writer :: "wr \<Rightarrow> bytes \<Rightarrow> (go_err + unit) \<times> bytes" where
  "run_writer m dst = (let (r, w) = m (newBitWriter dst) in (r, bw_dst w))"

definition AppendSequenceHeaderPayload :: "slice \<Rightarrow> EncSequenceHeader \<Rightarrow> slice \<times> go_err option" where
  "AppendSequenceHeaderPayload dst seq =
     (case SequenceHeaderPayloadSize seq of
        Inl e \<Rightarrow> (dst, Some e)
      | Inr sz \<Rightarrow>
          if sl_cap dst - sl_len dst < sz then (dst, Some ErrShortBuffer)
          else
            let off = sl_len dst;
                end' = off + sz
            in case in_window off end' (run_writer (writeSequenceHeaderPayload seq)) (sl_back dst) of
                 (Inl e, buf) \<Rightarrow> (dst\<lparr>sl_back := buf\<rparr>, Some e)
               | (Inr u, buf) \<Rightarrow> (\<lparr>sl_back = buf, sl_len = end'\<rparr>, None))"

definition LowOverheadSequenceHeaderOBUSize :: "EncSequenceHeader \<Rightarrow> go_err + nat" where
  "LowOverheadSequenceHeaderOBUSize seq =
     (case SequenceHeaderPayloadSize seq of
        Inl e \<Rightarrow> Inl e
      | Inr payloadSize \<Rightarrow> Inr (1 + LEB128Len (word_of_nat payloadSize) + payloadSize))"

definition AppendLowOverheadSequenceHeaderOBU :: "slice \<Rightarrow> EncSequenceHeader \<Rightarrow> slice \<times> go_err option" where
  "AppendLowOverheadSequenceHeaderOBU dst seq =
     (case SequenceHeaderPayloadSize seq of
        Inl e \<Rightarrow> (dst, Some e)
      | Inr payloadSize \<Rightarrow>
          let sz = 1 + LEB128Len (word_of_nat payloadSize) + payloadSize
          in if sl_cap dst - sl_len dst < sz then (dst, Some ErrShortBuffer)
             else
               let off = sl_len dst;
                   end' = off + sz;
                   header = \<lparr>hd_Type = TypeSequenceHeader, hd_Extension = False, hd_HasSizeField = True,
                             hd_TemporalID = 0, hd_SpatialID = 0\<rparr>
               in case in_window off end' (\<lambda>out. PutHeader out header) (sl_back dst) of
                    (Inl e, buf) \<Rightarrow> (dst\<lparr>sl_back := buf\<rparr>, Some e)
                  | (Inr n, buf) \<Rightarrow>
                      let off = off + n
                      in (case in_window off end' (\<lambda>out. PutLEB128 out (word_of_nat payloadSize)) buf of
                            (Inl e, buf) \<Rightarrow> (dst\<lparr>sl_back := buf\<rparr>, Some e)
                          | (Inr n, buf) \<Rightarrow>
                              let off = off + n
                              in (case in_window off end' (run_writer (writeSequenceHeaderPayload seq)) buf of
                                    (Inl e, buf) \<Rightarrow> (dst\<lparr>sl_back := buf\<rparr>, Some e)
                                  | (Inr u, buf) \<Rightarrow> (\<lparr>sl_back = buf, sl_len = end'\<rparr>, None))))"

section \<open>What the parser gives back\<close>

definition decoded_timing :: "SequenceTimingInfo \<Rightarrow> TimingInfo" where
  "decoded_timing t = \<lparr>tm_NumUnitsInDisplayTick = st_NumUnitsInDisplayTick t, tm_TimeScale = st_TimeScale t,
     tm_EqualPictureInterval = st_EqualPictureInterval t, tm_NumTicksPerPictureMinus1 = st_NumTicksPerPictureMinus1 t\<rparr>"

definition decoded_model :: "SequenceDecoderModelInfo \<Rightarrow> DecoderModelInfo" where
  "decoded_model d = \<lparr>dm_BufferDelayLength = sd_BufferDelayLength d, dm_NumUnitsInDecodingTick = sd_NumUnitsInDecodingTick d,
     dm_BufferRemovalTimeLength = sd_BufferRemovalTimeLength d, dm_FramePresentationTimeLength = sd_FramePresentationTimeLength d\<rparr>"

definition decoded_op :: "SequenceOperatingPoint \<Rightarrow> OperatingPoint" where
  "decoded_op p = \<lparr>op_IDC = so_IDC p, op_SeqLevelIdx = so_SeqLevelIdx p, op_SeqTier = so_SeqTier p,
     op_DecoderModelPresent = so_DecoderModelPresent p, op_DecoderBufferDelay = so_DecoderBufferDelay p,
     op_EncoderBufferDelay = so_EncoderBufferDelay p, op_LowDelayMode = so_LowDelayMode p,
     op_InitialDisplayDelayPresent = so_InitialDisplayDelayPresent p,
     op_InitialDisplayDelayMinus1 = so_InitialDisplayDelayMinus1 p\<rparr>"

text \<open>
  The colour configuration: an absent description stands for \<open>unspecified\<close> (2), and a monochrome
  sequence counts as subsampled in both directions.
\<close>

definition decoded_color :: "SequenceColorConfig \<Rightarrow> ColorConfig" where
  "decoded_color c = \<lparr>cc_HighBitdepth = (sequenceColorBitDepth c > 8), cc_TwelveBit = (sequenceColorBitDepth c = 12),
     cc_BitDepth = sequenceColorBitDepth c, cc_MonoChrome = sc_MonoChrome c,
     cc_ColorDescriptionPresent = sc_ColorDescriptionPresent c,
     cc_ColorPrimaries = (if sc_ColorDescriptionPresent c then sc_ColorPrimaries c else 2),
     cc_TransferCharacteristics = (if sc_ColorDescriptionPresent c then sc_TransferCharacteristics c else 2),
     cc_MatrixCoefficients = (if sc_ColorDescriptionPresent c then sc_MatrixCoefficients c else 2),
     cc_ColorRange = sc_ColorRange c, cc_SubsamplingX = (sc_MonoChrome c \<or> sc_SubsamplingX c),
     cc_SubsamplingY = (sc_MonoChrome c \<or> sc_SubsamplingY c), cc_ChromaSamplePosition = sc_ChromaSamplePosition c,
     cc_SeparateUVDeltaQ = sc_SeparateUVDeltaQ c\<rparr>"

text \<open>
  A reduced still picture header carries of its operating point only the level, and none of the
  inter-frame tools; the other fields of the decoded header are then zero.
\<close>

definition decoded_ops :: "EncSequenceHeader \<Rightarrow> OperatingPoint list" where
  "decoded_ops seq =
     (if es_ReducedStillPictureHeader seq then
        (zero_OperatingPoint\<lparr>op_SeqLevelIdx := so_SeqLevelIdx (es_OperatingPoints seq ! 0)\<rparr>) # replicate 31 zero_OperatingPoint
      else let n = unat (sequenceOperatingPointCount seq)
        in map (\<lambda>i. decoded_op (es_OperatingPoints seq ! i)) [0..<n] @ replicate (32 - n) zero_OperatingPoint)"

definition decoded_sequence :: "EncSequenceHeader \<Rightarrow> SequenceHeader" where
  "decoded_sequence seq = (let full = \<not> es_ReducedStillPictureHeader seq in
     \<lparr>sh_SeqProfile = es_Profile seq, sh_StillPicture = es_StillPicture seq,
     sh_ReducedStillPictureHeader = es_ReducedStillPictureHeader seq,
     sh_TimingInfoPresent = es_TimingInfoPresent seq, sh_DecoderModelInfoPresent = es_DecoderModelInfoPresent seq,
     sh_InitialDisplayDelayPresent = es_InitialDisplayDelayPresent seq,
     sh_TimingInfo = decoded_timing (es_TimingInfo seq), sh_DecoderModelInfo = decoded_model (es_DecoderModelInfo seq),
     sh_OperatingPointsCount = sequenceOperatingPointCount seq, sh_OperatingPoints = decoded_ops seq,
     sh_FrameWidthBits = sequenceFrameDimensionBits (es_MaxFrameWidth seq),
     sh_FrameHeightBits = sequenceFrameDimensionBits (es_MaxFrameHeight seq),
     sh_MaxFrameWidth = es_MaxFrameWidth seq, sh_MaxFrameHeight = es_MaxFrameHeight seq,
     sh_FrameIDNumbersPresent = es_FrameIDNumbersPresent seq, sh_DeltaFrameIDLength = es_DeltaFrameIDLength seq,
     sh_AdditionalFrameIDLength = es_AdditionalFrameIDLength seq, sh_Use128x128Superblock = es_Use128x128Superblock seq,
     sh_EnableFilterIntra = es_EnableFilterIntra seq, sh_EnableIntraEdgeFilter = es_EnableIntraEdgeFilter seq,
     sh_EnableInterIntraCompound = (full \<and> es_EnableInterIntraCompound seq),
     sh_EnableMaskedCompound = (full \<and> es_EnableMaskedCompound seq),
     sh_EnableWarpedMotion = (full \<and> es_EnableWarpedMotion seq), sh_EnableDualFilter = (full \<and> es_EnableDualFilter seq),
     sh_EnableOrderHint = (full \<and> es_EnableOrderHint seq), sh_EnableJNTComp = (full \<and> es_EnableJNTComp seq),
     sh_EnableRefFrameMVS = (full \<and> es_EnableRefFrameMVS seq),
     sh_SeqForceScreenContentTools = es_SeqForceScreenContentTools seq, sh_SeqForceIntegerMV = es_SeqForceIntegerMV seq,
     sh_OrderHintBits = (if full then es_OrderHintBits seq else 0), sh_EnableSuperRes = es_EnableSuperRes seq,
     sh_EnableCDEF = es_EnableCDEF seq, sh_EnableRestoration = es_EnableRestoration seq,
     sh_ColorConfig = decoded_color (es_ColorConfig seq), sh_FilmGrainParamsPresent = es_FilmGrainParamsPresent seq\<rparr>)"

section \<open>Arithmetic of the offset fields\<close>

lemma bit_len_0: "bit_len (0 :: 'a::len word) = 0"
proof -
  have "takeWhile Not (word_bits LENGTH('a) (0 :: 'a word)) = word_bits LENGTH('a) (0 :: 'a word)"
    by (subst takeWhile_eq_all_conv) (auto simp: word_bits_def)
  then show ?thesis by (simp only: bit_len_def length_word_bits diff_self_eq_0)
qed

lemma ucast_pred_succ:
  "ucast (ucast (x - 1 :: u8) + 1 :: u64) = x" "ucast (ucast (x - 2 :: u8) + 2 :: u64) = x"
  "ucast (ucast (y - 1 :: u32) + 1 :: u64) = y"
  by (simp_all add: ucast_add_down ucast_ucast_up)

lemma u8_pred_bound: "1 \<le> (x :: u8) \<Longrightarrow> x \<le> n \<Longrightarrow> unat (ucast (x - 1) :: u64) < unat n"
  by (simp add: unat_ucast_up unat_pred word_le_nat_alt)

lemma frame_dimension_bits:
  assumes "es \<noteq> 0" "es \<le> 0x10000"
  defines "n \<equiv> sequenceFrameDimensionBits es"
  shows "1 \<le> n" "n \<le> 16" "unat (ucast (es - 1) :: u64) < 2 ^ unat n"
proof -
  let ?c = "es - 1"
  have c: "unat ?c < 2 ^ 16" using assms(1,2) by (simp add: unat_pred word_le_nat_alt unat_gt_0 Suc_le_eq)
  have u: "unat (ucast ?c :: u64) = unat ?c" by (simp add: unat_ucast_up)
  consider "?c = 0" | "?c \<noteq> 0" by blast
  then have "1 \<le> n \<and> n \<le> 16 \<and> unat (ucast ?c :: u64) < 2 ^ unat n"
  proof cases
    case 1
    then have "n = 1" by (simp add: n_def sequenceFrameDimensionBits_def bit_len_0 Let_def)
    then show ?thesis using 1 by simp
  next
    case 2
    note p = bit_len_props [OF 2]
    have "\<not> bit ?c i" if "16 \<le> i" for i
    proof -
      have "take_bit 16 ?c = ?c" using c by (rule take_bit_word_unat)
      then have "bit ?c i = bit (take_bit 16 ?c) i" by simp
      then show ?thesis using that by (simp add: bit_take_bit_iff)
    qed
    then have le: "bit_len ?c \<le> 16" using p(1,3) by (metis Suc_pred' not_less_eq_eq)
    have n: "n = word_of_nat (bit_len ?c)" using p(1) by (simp add: n_def sequenceFrameDimensionBits_def)
    have un: "unat n = bit_len ?c" using le by (simp add: n unat_of_nat take_bit_nat_eq_self)
    have "unat ?c < 2 ^ bit_len ?c" using p(4) by (metis take_bit_nat_less_exp unsigned_take_bit_eq)
    then show ?thesis using p(1) le un u by (simp add: word_le_nat_alt)
  qed
  then show "1 \<le> n" "n \<le> 16" "unat (ucast ?c :: u64) < 2 ^ unat n" by auto
qed

section \<open>Each part of the header\<close>

lemma codes_TimingInfo:
  assumes "\<not> st_EqualPictureInterval t \<Longrightarrow> st_NumTicksPerPictureMinus1 t = 0"
    "st_EqualPictureInterval t \<Longrightarrow> unat (st_NumTicksPerPictureMinus1 t) < 2 ^ 32 - 1"
  shows "codes (writeSequenceTimingInfo t) (parseTimingInfo zero_TimingInfo) (decoded_timing t)"
  unfolding writeSequenceTimingInfo_def parseTimingInfo_def
  by (intro codes_intro)
    (use assms in \<open>simp_all add: unat_ucast_up ucast_ucast_up zero_TimingInfo_def decoded_timing_def unsigned_less [where 'b = 32, simplified]\<close>)

lemma codes_DecoderModelInfo:
  assumes "validSequenceDecoderModelInfo d"
  shows "codes (writeSequenceDecoderModelInfo d) (parseDecoderModelInfo zero_DecoderModelInfo) (decoded_model d)"
proof -
  have b: "unat (ucast (sd_BufferDelayLength d - 1) :: u64) < 2 ^ unat (5 :: u8)"
    "unat (ucast (sd_BufferRemovalTimeLength d - 1) :: u64) < 2 ^ unat (5 :: u8)"
    "unat (ucast (sd_FramePresentationTimeLength d - 1) :: u64) < 2 ^ unat (5 :: u8)"
    using assms u8_pred_bound [of _ 32] by (simp_all add: validSequenceDecoderModelInfo_def)
  have u: "unat (ucast x :: u64) < 2 ^ unat (32 :: u8)" for x :: u32
    using unsigned_less [of x, where 'a = nat] by (simp add: unat_ucast_up)
  show ?thesis
    unfolding writeSequenceDecoderModelInfo_def parseDecoderModelInfo_def
    by (intro codes_intro b u)
      (simp_all add: ucast_pred_succ ucast_ucast_up zero_DecoderModelInfo_def decoded_model_def)
qed

lemma valueFitsBits32_unat:
  "valueFitsBits32 v n \<Longrightarrow> n \<le> 64 \<and> unat (ucast v :: u64) < 2 ^ unat n"
proof (cases "n = 32")
  case True
  then show ?thesis using unsigned_less [of v, where 'a = nat] by (simp add: unat_ucast_up)
next
  case False
  assume f: "valueFitsBits32 v n"
  then have n: "unat n < 32" using False
    by (auto simp: valueFitsBits32_def word_less_nat_alt word_unat_eq_iff split: if_splits)
  then have "unat (push_bit (unat n) 1 :: u32) = 2 ^ unat n"
    by (simp add: unat_pow2_u32)
  then show ?thesis using f n False
    by (auto simp: valueFitsBits32_def word_less_nat_alt word_le_nat_alt unat_ucast_up split: if_splits)
qed

definition ops_view :: "EncSequenceHeader \<Rightarrow> SequenceHeader \<Rightarrow> bool" where
  "ops_view seq sh \<longleftrightarrow> sh_DecoderModelInfoPresent sh = es_DecoderModelInfoPresent seq \<and>
     sh_InitialDisplayDelayPresent sh = es_InitialDisplayDelayPresent seq \<and>
     sh_DecoderModelInfo sh = decoded_model (es_DecoderModelInfo seq)"

lemma valid_level_bound: "ValidSequenceLevelIndex l \<Longrightarrow> unat (ucast l :: u64) < 2 ^ unat (5 :: u8)"
  by (auto simp: ValidSequenceLevelIndex_def SeqLevelMax_def unat_ucast_up word_le_nat_alt split: if_splits)

lemma codes_seq_level [codes_intro]:
  "ValidSequenceLevelIndex l \<Longrightarrow> codes w (f l) x \<Longrightarrow> codes (wseq (writeSequenceLevel l) w) (rbind readSequenceLevel f) x"
  unfolding writeSequenceLevel_def readSequenceLevel_def
  by (intro codes_intro valid_level_bound) (simp_all add: ucast_ucast_up)

lemma codes_OperatingPoint:
  assumes "\<not> invalidSequenceOperatingPoint seq p" "ops_view seq sh"
  shows "codes (writeSequenceOperatingPoint seq p) (parseOperatingPoint sh zero_OperatingPoint) (decoded_op p)"
proof -
  have v: "ValidSequenceLevelIndex (so_SeqLevelIdx p)" "unat (ucast (so_IDC p) :: u64) < 2 ^ unat (12 :: u8)"
    "unat (ucast (so_SeqTier p) :: u64) < 2 ^ unat (1 :: u8)"
    "unat (ucast (so_InitialDisplayDelayMinus1 p) :: u64) < 2 ^ unat (4 :: u8)"
    using assms(1) by (auto simp: invalidSequenceOperatingPoint_def word_less_nat_alt unat_ucast_up split: if_splits)
  have d: "sd_BufferDelayLength (es_DecoderModelInfo seq) \<le> 64"
    "unat (ucast (so_DecoderBufferDelay p) :: u64) < 2 ^ unat (sd_BufferDelayLength (es_DecoderModelInfo seq))"
    "unat (ucast (so_EncoderBufferDelay p) :: u64) < 2 ^ unat (sd_BufferDelayLength (es_DecoderModelInfo seq))"
    if "so_DecoderModelPresent p"
    using assms(1) that by (auto simp: invalidSequenceOperatingPoint_def dest: valueFitsBits32_unat split: if_splits)
  show ?thesis
    using assms
    unfolding writeSequenceOperatingPoint_def parseOperatingPoint_def writeSequenceOperatingParametersInfo_def
      parseOperatingParametersInfo_def ops_view_def
    by (intro codes_intro v d)
      (auto simp: decoded_model_def zero_OperatingPoint_def decoded_op_def ucast_ucast_up invalidSequenceOperatingPoint_def
        split: if_splits)
qed

lemma codes_OperatingPoints:
  assumes "\<forall>j < i + k. \<not> invalidSequenceOperatingPoint seq (es_OperatingPoints seq ! j)" "ops_view seq sh"
    and "sh_OperatingPoints sh = map (\<lambda>i. decoded_op (es_OperatingPoints seq ! i)) [0..<i] @ replicate (32 - i) zero_OperatingPoint"
    and "i + k \<le> 32"
  shows "codes (wseqs (map (\<lambda>i. writeSequenceOperatingPoint seq (es_OperatingPoints seq ! i)) [i..<i + k]))
    (parseOperatingPoints k i sh)
    (sh\<lparr>sh_OperatingPoints := map (\<lambda>i. decoded_op (es_OperatingPoints seq ! i)) [0..<i + k] @
       replicate (32 - (i + k)) zero_OperatingPoint\<rparr>)"
  using assms
proof (induction k arbitrary: i sh)
  case 0
  then show ?case by (auto intro!: codes_intro)
next
  case (Suc k)
  have z: "sh_OperatingPoints sh ! i = zero_OperatingPoint" using Suc.prems by (simp add: nth_append)
  have r: "replicate (32 - i) zero_OperatingPoint = zero_OperatingPoint # replicate (32 - Suc i) zero_OperatingPoint"
    using Suc.prems(4) by (cases "32 - i") (auto simp: Suc_diff_Suc)
  let ?sh = "sh\<lparr>sh_OperatingPoints := (sh_OperatingPoints sh)[i := decoded_op (es_OperatingPoints seq ! i)]\<rparr>"
  have upd: "sh_OperatingPoints ?sh =
      map (\<lambda>i. decoded_op (es_OperatingPoints seq ! i)) [0..<Suc i] @ replicate (32 - Suc i) zero_OperatingPoint"
    using Suc.prems(3) r by (simp add: list_update_append)
  have view: "ops_view seq ?sh" using Suc.prems(2) by (simp add: ops_view_def)
  have op: "codes (writeSequenceOperatingPoint seq (es_OperatingPoints seq ! i)) (parseOperatingPoint sh zero_OperatingPoint)
      (decoded_op (es_OperatingPoints seq ! i))"
    using Suc.prems(1,2) by (intro codes_OperatingPoint) auto
  have tl: "codes (wseqs (map (\<lambda>i. writeSequenceOperatingPoint seq (es_OperatingPoints seq ! i)) [Suc i..<Suc i + k]))
      (parseOperatingPoints k (Suc i) ?sh) (?sh\<lparr>sh_OperatingPoints :=
        map (\<lambda>i. decoded_op (es_OperatingPoints seq ! i)) [0..<Suc i + k] @ replicate (32 - (Suc i + k)) zero_OperatingPoint\<rparr>)"
    by (rule Suc.IH) (use Suc.prems upd view in simp_all)
  have "[i..<i + Suc k] = i # [Suc i..<Suc i + k]" by (simp add: upt_rec)
  then show ?case using codes_seq [OF op, of _ "\<lambda>p. parseOperatingPoints k (Suc i)
      (sh\<lparr>sh_OperatingPoints := (sh_OperatingPoints sh)[i := p]\<rparr>)", OF tl]
    by (simp add: wseqs_simps z)
qed

lemma validateSequenceHeader_tail_None:
  assumes "validateSequenceHeader_tail seq = None"
  shows "es_MaxFrameWidth seq \<noteq> 0" "es_MaxFrameWidth seq \<le> 0x10000" "es_MaxFrameHeight seq \<noteq> 0" "es_MaxFrameHeight seq \<le> 0x10000"
    and "\<not> (es_ReducedStillPictureHeader seq \<and> es_FrameIDNumbersPresent seq)"
    and "es_FrameIDNumbersPresent seq \<Longrightarrow> 2 \<le> es_DeltaFrameIDLength seq \<and> es_DeltaFrameIDLength seq \<le> 16 \<and>
      1 \<le> es_AdditionalFrameIDLength seq \<and> es_AdditionalFrameIDLength seq \<le> 8 \<and>
      es_DeltaFrameIDLength seq + es_AdditionalFrameIDLength seq \<le> 16"
    and "\<not> es_FrameIDNumbersPresent seq \<Longrightarrow> es_DeltaFrameIDLength seq = 0 \<and> es_AdditionalFrameIDLength seq = 0"
    and "es_SeqForceScreenContentTools seq \<le> 2" "es_SeqForceIntegerMV seq \<le> 2"
    and "es_SeqForceScreenContentTools seq = 0 \<Longrightarrow> es_SeqForceIntegerMV seq = 0"
    and "es_EnableOrderHint seq \<Longrightarrow> 1 \<le> es_OrderHintBits seq \<and> es_OrderHintBits seq \<le> 8"
    and "\<not> es_EnableOrderHint seq \<Longrightarrow> \<not> es_EnableJNTComp seq \<and> \<not> es_EnableRefFrameMVS seq \<and> es_OrderHintBits seq = 0"
    and "validateSequenceColorConfig (es_Profile seq) (es_ColorConfig seq) = None"
  using assms
  by (auto simp: validateSequenceHeader_tail_def not_less seq_consts word_one_le_iff split: if_splits)

lemma codes_FrameSize:
  assumes "validateSequenceHeader_tail seq = None" "sh_ReducedStillPictureHeader sh = es_ReducedStillPictureHeader seq"
    and "\<not> sh_FrameIDNumbersPresent sh" "sh_DeltaFrameIDLength sh = 0" "sh_AdditionalFrameIDLength sh = 0"
  shows "codes (writeSequenceFrameSize seq) (parseSequenceFrameSize sh)
    (sh\<lparr>sh_FrameWidthBits := sequenceFrameDimensionBits (es_MaxFrameWidth seq),
        sh_FrameHeightBits := sequenceFrameDimensionBits (es_MaxFrameHeight seq),
        sh_MaxFrameWidth := es_MaxFrameWidth seq, sh_MaxFrameHeight := es_MaxFrameHeight seq,
        sh_FrameIDNumbersPresent := es_FrameIDNumbersPresent seq, sh_DeltaFrameIDLength := es_DeltaFrameIDLength seq,
        sh_AdditionalFrameIDLength := es_AdditionalFrameIDLength seq\<rparr>)"
proof -
  note t = validateSequenceHeader_tail_None [OF assms(1)]
  note w = frame_dimension_bits [OF t(1,2)] and h = frame_dimension_bits [OF t(3,4)]
  have b4: "unat (ucast (n - 1 :: u8) :: u64) < 2 ^ unat (4 :: u8)" if "1 \<le> n" "n \<le> 16" for n
    using u8_pred_bound [OF that] by simp
  have le64: "n \<le> 64" if "n \<le> 16" for n :: u8 using that by (simp add: word_le_nat_alt)
  have ids: "unat (ucast (es_DeltaFrameIDLength seq - 2) :: u64) < 2 ^ unat (4 :: u8) \<and>
      unat (ucast (es_AdditionalFrameIDLength seq - 1) :: u64) < 2 ^ unat (3 :: u8)" if "es_FrameIDNumbersPresent seq"
    using t(6) [OF that] u8_pred_bound [of "es_AdditionalFrameIDLength seq" 8]
    by (simp add: unat_ucast_up unat_sub word_le_nat_alt) linarith
  show ?thesis
    unfolding writeSequenceFrameSize_def parseSequenceFrameSize_def
    by (intro codes_intro b4 w h)
      (use assms(2-) ids t(5-7) w h le64 in \<open>auto simp: ucast_pred_succ FrameIDBits_def not_less [symmetric]\<close>)
qed

lemma select_bit_bound: "v \<le> 2 \<Longrightarrow> v \<noteq> SelectScreenContentTools \<Longrightarrow> unat (ucast (v :: u8) :: u64) < 2 ^ unat (1 :: u8)"
  by (simp add: SelectScreenContentTools_def unat_ucast_up word_le_nat_alt word_unat_eq_iff)

text \<open>The stages of the coding tools, each with the same updates on every path.\<close>

lemma codes_tools_compound:
  assumes "sh_EnableOrderHint sh = e" "\<not> e \<Longrightarrow> \<not> j \<and> \<not> m" "\<not> sh_EnableJNTComp sh" "\<not> sh_EnableRefFrameMVS sh"
  shows "codes (if e then wseqs [writeBool j, writeBool m] else wret)
    (if sh_EnableOrderHint sh then
       rbind ReadBool (\<lambda>b. let sh = sh\<lparr>sh_EnableJNTComp := b\<rparr> in rbind ReadBool (\<lambda>b. rret (sh\<lparr>sh_EnableRefFrameMVS := b\<rparr>)))
     else rret sh) (sh\<lparr>sh_EnableJNTComp := j, sh_EnableRefFrameMVS := m\<rparr>)"
  using assms by (cases sh) (auto simp: codes_flat intro!: codes_step)

lemma codes_tools_screen:
  assumes "v \<le> 2" "codes w (k (sh\<lparr>sh_SeqForceScreenContentTools := v\<rparr>)) x"
  shows "codes (wseq (writeSequenceSelectOrBit v) w) (rbind ReadBool (\<lambda>c.
    rbind (if c then rret (sh\<lparr>sh_SeqForceScreenContentTools := SelectScreenContentTools\<rparr>)
           else rbind (ReadBits 1) (\<lambda>b. rret (sh\<lparr>sh_SeqForceScreenContentTools := ucast b\<rparr>))) k)) x"
  using assms unfolding writeSequenceSelectOrBit_def
  by (auto simp: codes_flat ucast_ucast_up intro!: codes_step select_bit_bound)

lemma codes_tools_integer:
  assumes "v \<le> 2" "sh_SeqForceIntegerMV sh = 0" "sh_SeqForceScreenContentTools sh = s" "s = 0 \<Longrightarrow> v = 0"
  shows "codes (if s > 0 then writeSequenceSelectOrBit v else wret)
    (if sh_SeqForceScreenContentTools sh > 0 then
       rbind ReadBool (\<lambda>c. if c then rret (sh\<lparr>sh_SeqForceIntegerMV := SelectIntegerMV\<rparr>)
         else rbind (ReadBits 1) (\<lambda>b. rret (sh\<lparr>sh_SeqForceIntegerMV := ucast b\<rparr>)))
     else rret sh) (sh\<lparr>sh_SeqForceIntegerMV := v\<rparr>)"
proof -
  have "SelectIntegerMV = SelectScreenContentTools" by (simp add: seq_consts)
  then show ?thesis using assms unfolding writeSequenceSelectOrBit_def
    by (cases sh) (auto simp: codes_flat ucast_ucast_up word_gt_0 intro!: codes_step select_bit_bound)
qed

lemma codes_tools_order:
  assumes "sh_EnableOrderHint sh = e" "e \<Longrightarrow> 1 \<le> n \<and> n \<le> 8" "\<not> e \<Longrightarrow> n = 0" "sh_OrderHintBits sh = 0"
  shows "codes (if e then writeBits (ucast (n - 1)) 3 else wret)
    (if sh_EnableOrderHint sh then rbind (ReadBits 3) (\<lambda>v. rret (sh\<lparr>sh_OrderHintBits := ucast (v + 1)\<rparr>)) else rret sh)
    (sh\<lparr>sh_OrderHintBits := n\<rparr>)"
proof -
  have "unat (ucast (n - 1) :: u64) < 2 ^ unat (3 :: u8)" if e
    using u8_pred_bound [of n 8] assms(2) that by simp
  then show ?thesis using assms by (cases sh) (auto simp: ucast_pred_succ intro!: codes_step)
qed

definition tools_full_view :: "EncSequenceHeader \<Rightarrow> SequenceHeader \<Rightarrow> SequenceHeader" where
  "tools_full_view seq sh = sh\<lparr>sh_EnableInterIntraCompound := es_EnableInterIntraCompound seq,
      sh_EnableMaskedCompound := es_EnableMaskedCompound seq, sh_EnableWarpedMotion := es_EnableWarpedMotion seq,
      sh_EnableDualFilter := es_EnableDualFilter seq, sh_EnableOrderHint := es_EnableOrderHint seq,
      sh_EnableJNTComp := es_EnableJNTComp seq, sh_EnableRefFrameMVS := es_EnableRefFrameMVS seq,
      sh_SeqForceScreenContentTools := es_SeqForceScreenContentTools seq, sh_SeqForceIntegerMV := es_SeqForceIntegerMV seq,
      sh_OrderHintBits := es_OrderHintBits seq\<rparr>"

definition tools_zero :: "SequenceHeader \<Rightarrow> bool" where
  "tools_zero sh \<longleftrightarrow> \<not> sh_EnableJNTComp sh \<and> \<not> sh_EnableRefFrameMVS sh \<and> sh_SeqForceIntegerMV sh = 0 \<and> sh_OrderHintBits sh = 0"

lemma codes_tools_full:
  assumes "validateSequenceHeader_tail seq = None" "tools_zero sh"
  shows "codes (wseqs
        [writeBool (es_EnableInterIntraCompound seq),
         writeBool (es_EnableMaskedCompound seq),
         writeBool (es_EnableWarpedMotion seq),
         writeBool (es_EnableDualFilter seq),
         writeBool (es_EnableOrderHint seq),
         if es_EnableOrderHint seq then wseqs
           [writeBool (es_EnableJNTComp seq), writeBool (es_EnableRefFrameMVS seq)]
         else wret,
         writeSequenceSelectOrBit (es_SeqForceScreenContentTools seq),
         if es_SeqForceScreenContentTools seq > 0 then writeSequenceSelectOrBit (es_SeqForceIntegerMV seq) else wret,
         if es_EnableOrderHint seq then writeBits (ucast (es_OrderHintBits seq - 1)) 3 else wret])
    (parseSequenceTools_full sh) (tools_full_view seq sh)"
proof -
  note t = validateSequenceHeader_tail_None [OF assms(1)]
  let ?s = "sh\<lparr>sh_EnableInterIntraCompound := es_EnableInterIntraCompound seq, sh_EnableMaskedCompound := es_EnableMaskedCompound seq,
      sh_EnableWarpedMotion := es_EnableWarpedMotion seq, sh_EnableDualFilter := es_EnableDualFilter seq,
      sh_EnableOrderHint := es_EnableOrderHint seq\<rparr>"
  let ?s1 = "?s\<lparr>sh_EnableJNTComp := es_EnableJNTComp seq, sh_EnableRefFrameMVS := es_EnableRefFrameMVS seq\<rparr>"
  let ?s2 = "?s1\<lparr>sh_SeqForceScreenContentTools := es_SeqForceScreenContentTools seq\<rparr>"
  let ?s3 = "?s2\<lparr>sh_SeqForceIntegerMV := es_SeqForceIntegerMV seq\<rparr>"
  have z: "tools_zero ?s" using assms(2) by (simp add: tools_zero_def)
  note c = codes_tools_compound [where sh = ?s and e = "es_EnableOrderHint seq" and j = "es_EnableJNTComp seq" and m = "es_EnableRefFrameMVS seq",
      unfolded wseqs_simps wseq_wret]
    and i = codes_tools_integer [where sh = ?s2 and v = "es_SeqForceIntegerMV seq" and s = "es_SeqForceScreenContentTools seq"]
    and o = codes_tools_order [where sh = ?s3 and e = "es_EnableOrderHint seq" and n = "es_OrderHintBits seq"]
  have o': "codes (if es_EnableOrderHint seq then writeBits (ucast (es_OrderHintBits seq - 1)) 3 else wret)
    (if sh_EnableOrderHint ?s3 then rbind (ReadBits 3) (\<lambda>v. rret (?s3\<lparr>sh_OrderHintBits := ucast (v + 1)\<rparr>)) else rret ?s3)
    (tools_full_view seq sh)"
    using o z t(11,12) by (simp add: tools_zero_def tools_full_view_def)
  show ?thesis
    unfolding parseSequenceTools_full_def wseqs_simps wseq_wret
    by (intro codes_seq_bool codes_Let codes_seq [OF c] codes_tools_screen codes_seq [OF i] o')
      (use z t(8-12) in \<open>auto simp: tools_zero_def\<close>)
qed

definition tools_view :: "EncSequenceHeader \<Rightarrow> SequenceHeader \<Rightarrow> SequenceHeader" where
  "tools_view seq sh = (let full = \<not> es_ReducedStillPictureHeader seq in
    sh\<lparr>sh_Use128x128Superblock := es_Use128x128Superblock seq, sh_EnableFilterIntra := es_EnableFilterIntra seq,
      sh_EnableIntraEdgeFilter := es_EnableIntraEdgeFilter seq,
      sh_EnableInterIntraCompound := (full \<and> es_EnableInterIntraCompound seq),
      sh_EnableMaskedCompound := (full \<and> es_EnableMaskedCompound seq),
      sh_EnableWarpedMotion := (full \<and> es_EnableWarpedMotion seq), sh_EnableDualFilter := (full \<and> es_EnableDualFilter seq),
      sh_EnableOrderHint := (full \<and> es_EnableOrderHint seq), sh_EnableJNTComp := (full \<and> es_EnableJNTComp seq),
      sh_EnableRefFrameMVS := (full \<and> es_EnableRefFrameMVS seq),
      sh_SeqForceScreenContentTools := es_SeqForceScreenContentTools seq, sh_SeqForceIntegerMV := es_SeqForceIntegerMV seq,
      sh_OrderHintBits := (if full then es_OrderHintBits seq else 0), sh_EnableSuperRes := es_EnableSuperRes seq,
      sh_EnableCDEF := es_EnableCDEF seq, sh_EnableRestoration := es_EnableRestoration seq\<rparr>)"

lemma codes_Tools:
  assumes "validateSequenceHeader_tail seq = None" "sh_ReducedStillPictureHeader sh = es_ReducedStillPictureHeader seq"
    and "es_ReducedStillPictureHeader seq \<Longrightarrow>
      es_SeqForceScreenContentTools seq = SelectScreenContentTools \<and> es_SeqForceIntegerMV seq = SelectIntegerMV"
    and "tools_zero sh" "\<not> sh_EnableInterIntraCompound sh" "\<not> sh_EnableMaskedCompound sh" "\<not> sh_EnableWarpedMotion sh"
      "\<not> sh_EnableDualFilter sh" "\<not> sh_EnableOrderHint sh"
  shows "codes (writeSequenceTools seq) (parseSequenceTools sh) (tools_view seq sh)"
proof -
  let ?s = "sh\<lparr>sh_Use128x128Superblock := es_Use128x128Superblock seq, sh_EnableFilterIntra := es_EnableFilterIntra seq,
      sh_EnableIntraEdgeFilter := es_EnableIntraEdgeFilter seq\<rparr>"
  let ?rest = "\<lambda>sh. sh\<lparr>sh_EnableSuperRes := es_EnableSuperRes seq, sh_EnableCDEF := es_EnableCDEF seq,
      sh_EnableRestoration := es_EnableRestoration seq\<rparr>"
  have tail: "codes (wseqs [writeBool (es_EnableSuperRes seq), writeBool (es_EnableCDEF seq), writeBool (es_EnableRestoration seq)])
     (rbind ReadBool (\<lambda>b. let sh = s\<lparr>sh_EnableSuperRes := b\<rparr> in
     rbind ReadBool (\<lambda>b. let sh = sh\<lparr>sh_EnableCDEF := b\<rparr> in
     rbind ReadBool (\<lambda>b. rret (sh\<lparr>sh_EnableRestoration := b\<rparr>))))) (?rest s)" for s
    by (intro codes_intro) simp
  let ?mid = "if es_ReducedStillPictureHeader seq
    then ?s\<lparr>sh_SeqForceScreenContentTools := SelectScreenContentTools, sh_SeqForceIntegerMV := SelectIntegerMV\<rparr>
    else tools_full_view seq ?s"
  have z: "tools_zero ?s" using assms(4) by (simp add: tools_zero_def)
  have v: "?rest ?mid = tools_view seq sh"
    using assms by (cases sh) (simp add: tools_view_def tools_full_view_def tools_zero_def)
  have m: "codes (if \<not> es_ReducedStillPictureHeader seq then wseqs
        [writeBool (es_EnableInterIntraCompound seq), writeBool (es_EnableMaskedCompound seq),
         writeBool (es_EnableWarpedMotion seq), writeBool (es_EnableDualFilter seq), writeBool (es_EnableOrderHint seq),
         if es_EnableOrderHint seq then wseqs [writeBool (es_EnableJNTComp seq), writeBool (es_EnableRefFrameMVS seq)] else wret,
         writeSequenceSelectOrBit (es_SeqForceScreenContentTools seq),
         if es_SeqForceScreenContentTools seq > 0 then writeSequenceSelectOrBit (es_SeqForceIntegerMV seq) else wret,
         if es_EnableOrderHint seq then writeBits (ucast (es_OrderHintBits seq - 1)) 3 else wret]
      else wret)
    (if \<not> sh_ReducedStillPictureHeader ?s then parseSequenceTools_full ?s
     else rret (?s\<lparr>sh_SeqForceScreenContentTools := SelectScreenContentTools, sh_SeqForceIntegerMV := SelectIntegerMV\<rparr>)) ?mid"
    using codes_tools_full [OF assms(1) z] assms(2) by (auto intro: codes_done)
  show ?thesis
    unfolding writeSequenceTools_def parseSequenceTools_def v [symmetric]
    by (rule codes_seqs, rule codes_seq_bool, rule codes_Let)+ (rule codes_seqs, rule codes_seq [OF m], rule tail)
qed

lemma validateSequenceColorConfig_None:
  assumes "validateSequenceColorConfig p c = None" "Profile_Valid p"
  shows "sequenceColorBitDepth c \<in> {8, 10, 12}" "sequenceColorBitDepth c = 12 \<Longrightarrow> p = 2" "p \<in> {0, 1, 2}"
    and "sc_MonoChrome c \<Longrightarrow> p \<noteq> 1 \<and> sc_ChromaSamplePosition c = 0 \<and> \<not> sc_SeparateUVDeltaQ c"
    and "\<not> sc_MonoChrome c \<Longrightarrow> sc_ChromaSamplePosition c \<le> 3"
    and "\<not> sc_MonoChrome c \<Longrightarrow> sequenceColorIsIdentity c \<Longrightarrow>
      sc_ColorRange c \<and> \<not> sc_SubsamplingX c \<and> \<not> sc_SubsamplingY c \<and> sc_ChromaSamplePosition c = 0"
    and "\<not> sc_MonoChrome c \<Longrightarrow> \<not> sequenceColorIsIdentity c \<Longrightarrow>
      (p = 0 \<longrightarrow> sc_SubsamplingX c \<and> sc_SubsamplingY c) \<and> (p = 1 \<longrightarrow> \<not> sc_SubsamplingX c \<and> \<not> sc_SubsamplingY c) \<and>
      (p = 2 \<longrightarrow> (if sequenceColorBitDepth c = 12 then sc_SubsamplingY c \<longrightarrow> sc_SubsamplingX c
        else sc_SubsamplingX c \<and> \<not> sc_SubsamplingY c)) \<and>
      (\<not> sc_SubsamplingX c \<or> \<not> sc_SubsamplingY c \<longrightarrow> sc_ChromaSamplePosition c = 0)"
proof -
  show "p \<in> {0, 1, 2}"
    using assms(2) by (auto simp: Profile_Valid_def profile_consts word_le_nat_alt word_unat_eq_iff)
qed (use assms(1) in \<open>auto simp: validateSequenceColorConfig_def profile_consts Let_def not_less split: if_splits\<close>)

text \<open>The three stages of the colour configuration.\<close>

definition depth_view :: "SequenceColorConfig \<Rightarrow> ColorConfig" where
  "depth_view c = zero_ColorConfig\<lparr>cc_HighBitdepth := (sequenceColorBitDepth c > 8), cc_TwelveBit := (sequenceColorBitDepth c = 12),
     cc_BitDepth := sequenceColorBitDepth c, cc_MonoChrome := sc_MonoChrome c\<rparr>"

definition description_view :: "SequenceColorConfig \<Rightarrow> ColorConfig" where
  "description_view c = (depth_view c)\<lparr>cc_ColorDescriptionPresent := sc_ColorDescriptionPresent c,
     cc_ColorPrimaries := (if sc_ColorDescriptionPresent c then sc_ColorPrimaries c else 2),
     cc_TransferCharacteristics := (if sc_ColorDescriptionPresent c then sc_TransferCharacteristics c else 2),
     cc_MatrixCoefficients := (if sc_ColorDescriptionPresent c then sc_MatrixCoefficients c else 2)\<rparr>"

lemma codes_color_depth:
  assumes "sequenceColorBitDepth c \<in> {8, 10, 12}" "sequenceColorBitDepth c = 12 \<Longrightarrow> p = 2" "sc_MonoChrome c \<Longrightarrow> p \<noteq> 1"
  shows "codes (wseqs [writeBool (sequenceColorBitDepth c > 8),
      if p = Profile2 \<and> sequenceColorBitDepth c > 8 then writeBool (sequenceColorBitDepth c = 12) else wret,
      if p \<noteq> Profile1 then writeBool (sc_MonoChrome c) else wret])
    (parseColorConfig_depth p zero_ColorConfig) (depth_view c)"
  unfolding parseColorConfig_depth_def
  using assms by (auto simp: codes_flat depth_view_def zero_ColorConfig_def profile_consts intro!: codes_step)

lemma codes_color_description:
  "codes (wseqs [writeBool (sc_ColorDescriptionPresent c),
      if sc_ColorDescriptionPresent c then wseqs [writeBits (ucast (sc_ColorPrimaries c)) 8,
        writeBits (ucast (sc_TransferCharacteristics c)) 8, writeBits (ucast (sc_MatrixCoefficients c)) 8] else wret])
    (parseColorConfig_description (depth_view c)) (description_view c)"
proof -
  have c8: "unat (ucast x :: u64) < 2 ^ unat (8 :: u8)" for x :: u8
    using unsigned_less [of x, where 'a = nat] by (simp add: unat_ucast_up)
  show ?thesis
    unfolding parseColorConfig_description_def
    by (auto simp: codes_flat description_view_def ucast_ucast_up intro!: codes_step c8)
qed

lemma codes_color_subsampling:
  assumes "\<not> sc_MonoChrome c" "validateSequenceColorConfig p c = None" "Profile_Valid p"
  shows "codes (if sequenceColorIsIdentity c then writeBool (sc_SeparateUVDeltaQ c) else wseqs
      [writeBool (sc_ColorRange c),
       if p = Profile2 \<and> sequenceColorBitDepth c = 12 then wseqs
         [writeBool (sc_SubsamplingX c), if sc_SubsamplingX c then writeBool (sc_SubsamplingY c) else wret]
       else wret,
       if sc_SubsamplingX c \<and> sc_SubsamplingY c then writeBits (ucast (sc_ChromaSamplePosition c)) 2 else wret,
       writeBool (sc_SeparateUVDeltaQ c)])
    (rbind (parseColorConfig_subsampling p (description_view c)) (\<lambda>cfg.
       rbind ReadBool (\<lambda>b. rret (sh\<lparr>sh_ColorConfig := cfg\<lparr>cc_SeparateUVDeltaQ := b\<rparr>\<rparr>))))
    (sh\<lparr>sh_ColorConfig := decoded_color c\<rparr>)"
proof -
  note t = validateSequenceColorConfig_None [OF assms(2,3)]
  have c2: "unat (ucast (sc_ChromaSamplePosition c) :: u64) < 2 ^ unat (2 :: u8)"
    using t(5) [OF assms(1)] by (simp add: unat_ucast_up word_le_nat_alt)
  let ?d = "description_view c"
  have id: "cc_ColorPrimaries ?d = ColorPrimariesBT709 \<and> cc_TransferCharacteristics ?d = TransferCharacteristicsSRGB \<and>
      cc_MatrixCoefficients ?d = MatrixCoefficientsIdentity \<longleftrightarrow> sequenceColorIsIdentity c"
    by (simp add: sequenceColorIsIdentity_def seq_consts description_view_def)
  have d: "cc_BitDepth ?d = sequenceColorBitDepth c" "\<not> cc_SubsamplingX ?d" "\<not> cc_SubsamplingY ?d"
    by (simp_all add: description_view_def depth_view_def zero_ColorConfig_def)
  have fin: "?d\<lparr>cc_ColorRange := r, cc_SubsamplingX := x, cc_SubsamplingY := y, cc_ChromaSamplePosition := ch, cc_SeparateUVDeltaQ := u\<rparr>
      = decoded_color c" if "r = sc_ColorRange c" "x = sc_SubsamplingX c" "y = sc_SubsamplingY c"
      "ch = sc_ChromaSamplePosition c" "u = sc_SeparateUVDeltaQ c" for r x y ch u
    using that assms(1) by (simp add: description_view_def depth_view_def zero_ColorConfig_def decoded_color_def)
  show ?thesis
  proof (cases "sequenceColorIsIdentity c")
    case True
    then show ?thesis
      unfolding parseColorConfig_subsampling_def id using t(6) [OF assms(1) True] assms(1)
      by (auto simp: codes_flat description_view_def depth_view_def zero_ColorConfig_def decoded_color_def intro!: codes_step)
  next
    case False
    note s = t(7) [OF assms(1) False]
    show ?thesis
      unfolding parseColorConfig_subsampling_def id
      using t(2,3) s d assms(1) False
      by (auto simp: codes_flat description_view_def depth_view_def zero_ColorConfig_def decoded_color_def profile_consts ucast_ucast_up
          intro!: codes_step c2 split: if_splits)
  qed
qed

lemma codes_ColorConfig:
  assumes "validateSequenceColorConfig p c = None" "Profile_Valid p" "sh_SeqProfile sh = p" "sh_ColorConfig sh = zero_ColorConfig"
  shows "codes (writeSequenceColorConfig p c) (parseColorConfig sh) (sh\<lparr>sh_ColorConfig := decoded_color c\<rparr>)"
proof -
  note t = validateSequenceColorConfig_None [OF assms(1,2)]
  have mono: "cc_MonoChrome (description_view c) = sc_MonoChrome c" by (simp add: description_view_def depth_view_def)
  let ?tail = "if sc_MonoChrome c then writeBool (sc_ColorRange c) else if sequenceColorIsIdentity c then writeBool (sc_SeparateUVDeltaQ c)
      else wseqs [writeBool (sc_ColorRange c),
       if p = Profile2 \<and> sequenceColorBitDepth c = 12 then wseqs
         [writeBool (sc_SubsamplingX c), if sc_SubsamplingX c then writeBool (sc_SubsamplingY c) else wret]
       else wret,
       if sc_SubsamplingX c \<and> sc_SubsamplingY c then writeBits (ucast (sc_ChromaSamplePosition c)) 2 else wret,
       writeBool (sc_SeparateUVDeltaQ c)]"
  have tl: "codes ?tail
     (if cc_MonoChrome (description_view c) then
       rbind ReadBool (\<lambda>b. rret (sh\<lparr>sh_ColorConfig := (description_view c)\<lparr>cc_ColorRange := b, cc_SubsamplingX := True, cc_SubsamplingY := True\<rparr>\<rparr>))
     else
       rbind (parseColorConfig_subsampling (sh_SeqProfile sh) (description_view c)) (\<lambda>cfg.
       rbind ReadBool (\<lambda>b. rret (sh\<lparr>sh_ColorConfig := cfg\<lparr>cc_SeparateUVDeltaQ := b\<rparr>\<rparr>))))
     (sh\<lparr>sh_ColorConfig := decoded_color c\<rparr>)"
  proof (cases "sc_MonoChrome c")
    case True
    then show ?thesis using t(4) [OF True]
      by (auto simp: mono description_view_def depth_view_def zero_ColorConfig_def decoded_color_def intro!: codes_step)
  next
    case False
    then show ?thesis using codes_color_subsampling [OF False assms(1,2), of sh] by (simp only: mono assms(3) if_False)
  qed
  have w: "writeSequenceColorConfig p c = wseq (wseqs [writeBool (sequenceColorBitDepth c > 8),
      if p = Profile2 \<and> sequenceColorBitDepth c > 8 then writeBool (sequenceColorBitDepth c = 12) else wret,
      if p \<noteq> Profile1 then writeBool (sc_MonoChrome c) else wret]) (wseq (wseqs [writeBool (sc_ColorDescriptionPresent c),
      if sc_ColorDescriptionPresent c then wseqs [writeBits (ucast (sc_ColorPrimaries c)) 8,
        writeBits (ucast (sc_TransferCharacteristics c)) 8, writeBits (ucast (sc_MatrixCoefficients c)) 8] else wret]) ?tail)"
    unfolding writeSequenceColorConfig_def Let_def by (simp only: wseqs_simps wseq_assoc wseq_wret)
  show ?thesis
    unfolding w parseColorConfig_def assms(3,4)
    using t(1,2,4) tl [unfolded assms(3)]
    by (intro codes_seq [OF codes_color_depth] codes_seq [OF codes_color_description]) auto
qed

section \<open>The whole header\<close>

text \<open>
  What the round trip asks of a header: that the encoder accepts it, and that the picture interval
  is not the one value whose code the parser rejects.
\<close>

definition seq_encodable :: "EncSequenceHeader \<Rightarrow> bool" where
  "seq_encodable seq \<longleftrightarrow> validateSequenceHeader seq = None \<and>
     st_NumTicksPerPictureMinus1 (es_TimingInfo seq) \<noteq> 0xffffffff"

lemma validateSequenceHeader_None:
  assumes "validateSequenceHeader seq = None"
  shows "Profile_Valid (es_Profile seq)" "es_ReducedStillPictureHeader seq \<Longrightarrow> es_StillPicture seq"
    and "es_ReducedStillPictureHeader seq \<Longrightarrow> \<not> es_TimingInfoPresent seq \<and> \<not> es_DecoderModelInfoPresent seq \<and>
      \<not> es_InitialDisplayDelayPresent seq \<and> sequenceOperatingPointCount seq = 1 \<and>
      es_SeqForceScreenContentTools seq = SelectScreenContentTools \<and> es_SeqForceIntegerMV seq = SelectIntegerMV"
    and "\<not> es_TimingInfoPresent seq \<Longrightarrow> es_TimingInfo seq = zero_SequenceTimingInfo \<and> \<not> es_DecoderModelInfoPresent seq"
    and "\<not> st_EqualPictureInterval (es_TimingInfo seq) \<Longrightarrow> st_NumTicksPerPictureMinus1 (es_TimingInfo seq) = 0"
    and "es_DecoderModelInfoPresent seq \<Longrightarrow> validSequenceDecoderModelInfo (es_DecoderModelInfo seq)"
    and "\<not> es_DecoderModelInfoPresent seq \<Longrightarrow> es_DecoderModelInfo seq = zero_SequenceDecoderModelInfo"
    and "sequenceOperatingPointCount seq \<noteq> 0" "sequenceOperatingPointCount seq \<le> 32"
    and "\<forall>i < unat (sequenceOperatingPointCount seq). \<not> invalidSequenceOperatingPoint seq (es_OperatingPoints seq ! i)"
    and "validateSequenceHeader_tail seq = None"
  using assms unfolding validateSequenceHeader_def Let_def
  by (auto simp: list_ex_iff not_less zero_SequenceTimingInfo_def split: if_splits)

definition seq_start :: "EncSequenceHeader \<Rightarrow> SequenceHeader" where
  "seq_start seq = zero_SequenceHeader\<lparr>sh_SeqProfile := es_Profile seq, sh_StillPicture := es_StillPicture seq,
     sh_ReducedStillPictureHeader := es_ReducedStillPictureHeader seq\<rparr>"

definition timing_view :: "EncSequenceHeader \<Rightarrow> SequenceHeader" where
  "timing_view seq = (seq_start seq)\<lparr>sh_TimingInfoPresent := es_TimingInfoPresent seq,
     sh_TimingInfo := decoded_timing (es_TimingInfo seq), sh_DecoderModelInfoPresent := es_DecoderModelInfoPresent seq,
     sh_DecoderModelInfo := decoded_model (es_DecoderModelInfo seq)\<rparr>"

definition ops_mid :: "EncSequenceHeader \<Rightarrow> SequenceHeader" where
  "ops_mid seq = (timing_view seq)\<lparr>sh_InitialDisplayDelayPresent := es_InitialDisplayDelayPresent seq,
     sh_OperatingPointsCount := sequenceOperatingPointCount seq, sh_OperatingPoints := decoded_ops seq\<rparr>"

lemma codes_header_timing:
  assumes "seq_encodable seq"
  defines "s \<equiv> (seq_start seq)\<lparr>sh_TimingInfoPresent := es_TimingInfoPresent seq\<rparr>"
  shows "codes (if es_TimingInfoPresent seq then wseqs
       [writeSequenceTimingInfo (es_TimingInfo seq), writeBool (es_DecoderModelInfoPresent seq),
        if es_DecoderModelInfoPresent seq then writeSequenceDecoderModelInfo (es_DecoderModelInfo seq) else wret]
      else wret)
    (if es_TimingInfoPresent seq then
       rbind (parseTimingInfo (sh_TimingInfo s)) (\<lambda>t. let sh = s\<lparr>sh_TimingInfo := t\<rparr> in
       rbind ReadBool (\<lambda>b. let sh = sh\<lparr>sh_DecoderModelInfoPresent := b\<rparr> in
       if b then rbind (parseDecoderModelInfo (sh_DecoderModelInfo sh)) (\<lambda>d. rret (sh\<lparr>sh_DecoderModelInfo := d\<rparr>))
       else rret sh))
     else rret s) (timing_view seq)"
proof -
  have v: "validateSequenceHeader seq = None" using assms(1) by (simp add: seq_encodable_def)
  note t = validateSequenceHeader_None [OF v]
  have ticks: "unat (st_NumTicksPerPictureMinus1 (es_TimingInfo seq)) < 2 ^ 32 - 1"
    using assms(1) unsigned_less [of "st_NumTicksPerPictureMinus1 (es_TimingInfo seq)", where 'a = nat]
    by (simp add: seq_encodable_def word_unat_eq_iff)
  have z: "sh_TimingInfo (seq_start seq) = zero_TimingInfo" "sh_DecoderModelInfo (seq_start seq) = zero_DecoderModelInfo"
    by (simp_all add: seq_start_def zero_SequenceHeader_def)
  have ti: "codes (writeSequenceTimingInfo (es_TimingInfo seq)) (parseTimingInfo zero_TimingInfo) (decoded_timing (es_TimingInfo seq))"
    by (rule codes_TimingInfo) (use t(5) ticks in auto)
  show ?thesis
  proof (cases "es_TimingInfoPresent seq")
    case True
    have "codes (if es_DecoderModelInfoPresent seq then writeSequenceDecoderModelInfo (es_DecoderModelInfo seq) else wret)
      (if es_DecoderModelInfoPresent seq then rbind (parseDecoderModelInfo zero_DecoderModelInfo)
         (\<lambda>d. rret (s\<lparr>sh_TimingInfo := decoded_timing (es_TimingInfo seq), sh_DecoderModelInfoPresent := es_DecoderModelInfoPresent seq,
            sh_DecoderModelInfo := d\<rparr>))
       else rret (s\<lparr>sh_TimingInfo := decoded_timing (es_TimingInfo seq), sh_DecoderModelInfoPresent := es_DecoderModelInfoPresent seq\<rparr>))
      (timing_view seq)"
    proof (cases "es_DecoderModelInfoPresent seq")
      case D: True
      show ?thesis
        using codes_seq [OF codes_DecoderModelInfo [OF t(6) [OF D]] codes_done [OF refl], of "\<lambda>d.
          s\<lparr>sh_TimingInfo := decoded_timing (es_TimingInfo seq), sh_DecoderModelInfoPresent := True, sh_DecoderModelInfo := d\<rparr>"]
          True D by (simp add: timing_view_def s_def)
    next
      case D: False
      show ?thesis
        using t(7) [OF D] D True by (auto simp: s_def timing_view_def seq_start_def zero_SequenceHeader_def decoded_model_def
            zero_SequenceDecoderModelInfo_def zero_DecoderModelInfo_def intro!: codes_step)
    qed
    note dm = this
    have zs: "sh_TimingInfo s = zero_TimingInfo" "sh_DecoderModelInfo s = zero_DecoderModelInfo"
      by (simp_all add: s_def z)
    show ?thesis
      by (simp only: True if_True zs(1), rule codes_seqs, rule codes_seq [OF ti], rule codes_Let, rule codes_seqs,
          rule codes_seq_bool, rule codes_Let)
        (cases "es_DecoderModelInfoPresent seq"; use dm zs in \<open>simp add: wseqs_simps\<close>)
  next
    case False
    show ?thesis using t(4) [OF False] t(7) False
      by (auto simp: s_def timing_view_def seq_start_def zero_SequenceHeader_def decoded_model_def decoded_timing_def zero_TimingInfo_def
          zero_SequenceTimingInfo_def zero_SequenceDecoderModelInfo_def zero_DecoderModelInfo_def intro!: codes_step)
  qed
qed

lemma codes_header_ops:
  assumes "seq_encodable seq"
  shows "codes (if es_ReducedStillPictureHeader seq then writeSequenceLevel (so_SeqLevelIdx (es_OperatingPoints seq ! 0))
      else wseqs
        [writeBool (es_TimingInfoPresent seq),
         if es_TimingInfoPresent seq then wseqs
           [writeSequenceTimingInfo (es_TimingInfo seq),
            writeBool (es_DecoderModelInfoPresent seq),
            if es_DecoderModelInfoPresent seq then writeSequenceDecoderModelInfo (es_DecoderModelInfo seq) else wret]
         else wret,
         writeBool (es_InitialDisplayDelayPresent seq),
         writeBits (ucast (sequenceOperatingPointCount seq - 1)) 5,
         wseqs (map (\<lambda>i. writeSequenceOperatingPoint seq (es_OperatingPoints seq ! i)) [0..<unat (sequenceOperatingPointCount seq)])])
    (if es_ReducedStillPictureHeader seq then
       rbind readSequenceLevel (\<lambda>level. rret ((seq_start seq)\<lparr>sh_OperatingPointsCount := 1,
         sh_OperatingPoints := (sh_OperatingPoints (seq_start seq))[0 := (sh_OperatingPoints (seq_start seq) ! 0)\<lparr>op_SeqLevelIdx := level\<rparr>]\<rparr>))
     else parseSequenceHeaderTiming (seq_start seq)) (ops_mid seq)"
proof -
  have v: "validateSequenceHeader seq = None" using assms(1) by (simp add: seq_encodable_def)
  note t = validateSequenceHeader_None [OF v]
  let ?n = "sequenceOperatingPointCount seq"
  show ?thesis
  proof (cases "es_ReducedStillPictureHeader seq")
    case True
    have "ValidSequenceLevelIndex (so_SeqLevelIdx (es_OperatingPoints seq ! 0))"
      using t(3) [OF True] t(10) by (auto simp: invalidSequenceOperatingPoint_def split: if_splits)
    then have "codes (wseq (writeSequenceLevel (so_SeqLevelIdx (es_OperatingPoints seq ! 0))) wret)
        (rbind readSequenceLevel (\<lambda>level. rret ((seq_start seq)\<lparr>sh_OperatingPointsCount := 1,
         sh_OperatingPoints := (sh_OperatingPoints (seq_start seq))[0 := (sh_OperatingPoints (seq_start seq) ! 0)\<lparr>op_SeqLevelIdx := level\<rparr>]\<rparr>)))
        (ops_mid seq)"
      using t(3) [OF True] t(4,7) True
      by (intro codes_seq_level codes_done)
        (auto simp: ops_mid_def timing_view_def seq_start_def decoded_ops_def zero_SequenceHeader_def decoded_model_def decoded_timing_def
          zero_TimingInfo_def zero_SequenceTimingInfo_def zero_SequenceDecoderModelInfo_def zero_DecoderModelInfo_def
          numeral_eq_Suc)
    then show ?thesis using True by simp
  next
    case False
    let ?m = "(timing_view seq)\<lparr>sh_InitialDisplayDelayPresent := es_InitialDisplayDelayPresent seq, sh_OperatingPointsCount := ?n\<rparr>"
    have n32: "unat ?n \<le> 32" using t(9) by (simp add: word_le_nat_alt)
    have b: "unat (ucast (?n - 1) :: u64) < 2 ^ unat (5 :: u8)"
      using u8_pred_bound [of ?n 32] t(8,9) by (simp add: word_one_le_iff)
    have o: "codes (wseqs (map (\<lambda>i. writeSequenceOperatingPoint seq (es_OperatingPoints seq ! i)) [0..<unat ?n]))
      (parseOperatingPoints (unat (sh_OperatingPointsCount ?m)) 0 ?m) (ops_mid seq)"
      using codes_OperatingPoints [of 0 "unat ?n" seq ?m] t(10) n32 False
      by (simp add: ops_view_def timing_view_def seq_start_def zero_SequenceHeader_def ops_mid_def decoded_ops_def Let_def)
    show ?thesis
      using False unfolding parseSequenceHeaderTiming_def
      by (simp only: if_False, intro codes_seqs codes_seq_bool codes_Let codes_seq [OF codes_header_timing [OF assms]]
          codes_seq_bits b) (use o in \<open>simp_all add: wseqs_simps ucast_pred_succ\<close>)
  qed
qed

lemma decoded_sequence_stages:
  "decoded_sequence seq = (let s = ops_mid seq;
     s = s\<lparr>sh_FrameWidthBits := sequenceFrameDimensionBits (es_MaxFrameWidth seq),
        sh_FrameHeightBits := sequenceFrameDimensionBits (es_MaxFrameHeight seq),
        sh_MaxFrameWidth := es_MaxFrameWidth seq, sh_MaxFrameHeight := es_MaxFrameHeight seq,
        sh_FrameIDNumbersPresent := es_FrameIDNumbersPresent seq, sh_DeltaFrameIDLength := es_DeltaFrameIDLength seq,
        sh_AdditionalFrameIDLength := es_AdditionalFrameIDLength seq\<rparr>;
     s = (tools_view seq s)\<lparr>sh_ColorConfig := decoded_color (es_ColorConfig seq)\<rparr>
   in s\<lparr>sh_FilmGrainParamsPresent := es_FilmGrainParamsPresent seq\<rparr>)"
  by (simp add: decoded_sequence_def ops_mid_def timing_view_def seq_start_def zero_SequenceHeader_def tools_view_def Let_def)

lemma codes_sequence_header:
  assumes "seq_encodable seq"
  shows "codes (writeSequenceHeader_fields seq) parseSequenceHeader_fields (decoded_sequence seq)"
proof -
  have v: "validateSequenceHeader seq = None" using assms(1) by (simp add: seq_encodable_def)
  note t = validateSequenceHeader_None [OF v]
  have p: "es_Profile seq \<le> 2" using t(1) by (simp add: Profile_Valid_def profile_consts)
  then have p3: "unat (ucast (es_Profile seq) :: u64) < 2 ^ unat (3 :: u8)" by (simp add: unat_ucast_up word_le_nat_alt)
  let ?o = "ops_mid seq"
  let ?f = "?o\<lparr>sh_FrameWidthBits := sequenceFrameDimensionBits (es_MaxFrameWidth seq),
        sh_FrameHeightBits := sequenceFrameDimensionBits (es_MaxFrameHeight seq),
        sh_MaxFrameWidth := es_MaxFrameWidth seq, sh_MaxFrameHeight := es_MaxFrameHeight seq,
        sh_FrameIDNumbersPresent := es_FrameIDNumbersPresent seq, sh_DeltaFrameIDLength := es_DeltaFrameIDLength seq,
        sh_AdditionalFrameIDLength := es_AdditionalFrameIDLength seq\<rparr>"
  have o: "sh_ReducedStillPictureHeader ?o = es_ReducedStillPictureHeader seq" "\<not> sh_FrameIDNumbersPresent ?o"
    "sh_DeltaFrameIDLength ?o = 0" "sh_AdditionalFrameIDLength ?o = 0" "tools_zero ?o" "\<not> sh_EnableInterIntraCompound ?o"
    "\<not> sh_EnableMaskedCompound ?o" "\<not> sh_EnableWarpedMotion ?o" "\<not> sh_EnableDualFilter ?o" "\<not> sh_EnableOrderHint ?o"
    "sh_ColorConfig ?o = zero_ColorConfig" "sh_SeqProfile ?o = es_Profile seq"
    by (simp_all add: ops_mid_def timing_view_def seq_start_def zero_SequenceHeader_def tools_zero_def)
  have fs: "codes (writeSequenceFrameSize seq) (parseSequenceFrameSize ?o) ?f"
    by (rule codes_FrameSize) (simp_all add: t(11) o)
  have tl: "codes (writeSequenceTools seq) (parseSequenceTools ?f) (tools_view seq ?f)"
    by (rule codes_Tools) (use t(3,11) o in \<open>auto simp: tools_zero_def\<close>)
  have cc: "codes (writeSequenceColorConfig (es_Profile seq) (es_ColorConfig seq)) (parseColorConfig (tools_view seq ?f))
      ((tools_view seq ?f)\<lparr>sh_ColorConfig := decoded_color (es_ColorConfig seq)\<rparr>)"
    by (rule codes_ColorConfig) (use t(1) o validateSequenceHeader_tail_None(13) [OF t(11)] in \<open>auto simp: tools_view_def Let_def\<close>)
  have st: "zero_SequenceHeader\<lparr>sh_SeqProfile := ucast (ucast (es_Profile seq) :: u64), sh_StillPicture := es_StillPicture seq,
      sh_ReducedStillPictureHeader := es_ReducedStillPictureHeader seq\<rparr> = seq_start seq"
    by (simp add: seq_start_def ucast_ucast_up)
  have ss: "sh_ReducedStillPictureHeader (seq_start seq) = es_ReducedStillPictureHeader seq" by (simp add: seq_start_def)
  have body: "codes (wseqs [if es_ReducedStillPictureHeader seq then writeSequenceLevel (so_SeqLevelIdx (es_OperatingPoints seq ! 0))
      else wseqs
        [writeBool (es_TimingInfoPresent seq),
         if es_TimingInfoPresent seq then wseqs
           [writeSequenceTimingInfo (es_TimingInfo seq),
            writeBool (es_DecoderModelInfoPresent seq),
            if es_DecoderModelInfoPresent seq then writeSequenceDecoderModelInfo (es_DecoderModelInfo seq) else wret]
         else wret,
         writeBool (es_InitialDisplayDelayPresent seq),
         writeBits (ucast (sequenceOperatingPointCount seq - 1)) 5,
         wseqs (map (\<lambda>i. writeSequenceOperatingPoint seq (es_OperatingPoints seq ! i)) [0..<unat (sequenceOperatingPointCount seq)])],
      writeSequenceFrameSize seq, writeSequenceTools seq, writeSequenceColorConfig (es_Profile seq) (es_ColorConfig seq),
      writeBool (es_FilmGrainParamsPresent seq)])
    (rbind (if es_ReducedStillPictureHeader seq then
       rbind readSequenceLevel (\<lambda>level. rret ((seq_start seq)\<lparr>sh_OperatingPointsCount := 1,
         sh_OperatingPoints := (sh_OperatingPoints (seq_start seq))[0 := (sh_OperatingPoints (seq_start seq) ! 0)\<lparr>op_SeqLevelIdx := level\<rparr>]\<rparr>))
     else parseSequenceHeaderTiming (seq_start seq)) (\<lambda>sh.
     rbind (parseSequenceFrameSize sh) (\<lambda>sh. rbind (parseSequenceTools sh) (\<lambda>sh. rbind (parseColorConfig sh) (\<lambda>sh.
     rbind ReadBool (\<lambda>b. rret (sh\<lparr>sh_FilmGrainParamsPresent := b\<rparr>)))))))
    (decoded_sequence seq)"
    unfolding decoded_sequence_stages Let_def
    by (rule codes_seqs, rule codes_seq [OF codes_header_ops [OF assms]], rule codes_seqs, rule codes_seq [OF fs],
        rule codes_seqs, rule codes_seq [OF tl], rule codes_seqs, rule codes_seq [OF cc], rule codes_seqs, rule codes_seq_bool,
        rule codes_done_seqs, rule refl)
  show ?thesis
    unfolding writeSequenceHeader_fields_def parseSequenceHeader_fields_def Let_def
    apply (rule codes_seqs, rule codes_seq_bits [OF refl _ p3], simp)
    apply (rule codes_rif_not, use p in \<open>simp add: ucast_ucast_up not_less\<close>)
    apply (rule codes_seqs, rule codes_seq_bool, rule codes_seqs, rule codes_seq_bool)
    apply (rule codes_rif_not, use t(2) in simp)
    unfolding st ss by (rule body)
qed

section \<open>The payload and its OBU\<close>

interpretation seq_codec: syntax_codec writeSequenceHeader_fields parseSequenceHeader_fields
  "\<lambda>seq. emitted (writeSequenceHeader_fields seq)" decoded_sequence seq_encodable
  by unfold_locales (use codes_emitted [OF codes_sequence_header] in auto)

lemma stream_bits_inj: "stream_bits xs = stream_bits ys \<Longrightarrow> length xs = length ys \<Longrightarrow> xs = ys"
proof (induction xs arbitrary: ys)
  case (Cons x xs)
  then obtain y ys' where y: "ys = y # ys'" by (cases ys) auto
  with Cons.prems have "byte_bits x = byte_bits y" "stream_bits xs = stream_bits ys'" by auto
  then show ?case using Cons y byte_bits_word by (metis length_Cons nat.inject)
qed simp

lemma sequence_payload:
  assumes "seq_encodable seq"
  shows "\<exists>p. SequenceHeaderPayloadSize seq = Inr (length p) \<and> ParseSequenceHeader p = Inr (decoded_sequence seq) \<and>
    (\<forall>dst. length dst = length p \<longrightarrow> run_writer (writeSequenceHeaderPayload seq) dst = (Inr (), p))"
proof -
  let ?m = "writeSequenceHeader_fields seq" and ?bs = "emitted (writeSequenceHeader_fields seq)"
  have w: "writeSequenceHeaderPayload seq = wseq ?m writeTrailingBits"
    using assms by (simp add: writeSequenceHeaderPayload_def seq_encodable_def)
  note e = seq_codec.wr_emits [OF assms] and r = seq_codec.rd_reads [OF assms]
  obtain p where p: "length p = payload_size ?bs" "stream_bits p = payload_bits ?bs"
    using payload_filling [OF e, of "replicate (payload_size ?bs) 0"] by auto
  have "SequenceHeaderPayloadSize seq = Inr (length p)"
    by (simp add: SequenceHeaderPayloadSize_def w payload_sizing [OF e] bytesWritten_def p(1))
  moreover have "ParseSequenceHeader p = Inr (decoded_sequence seq)"
    using payload_reading [OF r p(2)] by (simp add: ParseSequenceHeader_def parseSequenceHeader_def)
  moreover have "run_writer (writeSequenceHeaderPayload seq) dst = (Inr (), p)" if dst: "length dst = length p" for dst
  proof -
    obtain d where d: "wseq ?m writeTrailingBits (newBitWriter dst) = (Inr (), (newBitWriter dst)\<lparr>bw_dst := d, bw_bit := 8 * length dst\<rparr>)"
        "length d = length dst" "stream_bits d = payload_bits ?bs"
      using payload_filling [OF e dst [unfolded p(1)]] by blast
    then have "d = p" using stream_bits_inj [of d p] dst p(2) by simp
    then show ?thesis by (simp add: run_writer_def w d(1))
  qed
  ultimately show ?thesis by blast
qed

definition sequence_unit :: "bytes \<Rightarrow> OBU" where
  "sequence_unit p = \<lparr>ou_Type = TypeSequenceHeader, ou_TemporalID = 0, ou_SpatialID = 0, ou_Payload = p\<rparr>"

lemma length_sequence_unit:
  "length (unit_bytes (sequence_unit p)) = 1 + LEB128Len (word_of_nat (length p)) + length p"
  by (subst length_unit_bytes) (simp add: lowOverheadOBUSizeUnchecked_def sequence_unit_def)

lemma in_window_exact:
  assumes "f (drop off (take end' buf)) = (r, x)" "length x = end' - off" "off \<le> end'" "end' \<le> length buf"
  shows "in_window off end' f buf = (r, take off buf @ x @ drop (off + length x) buf)"
  using assms by (simp add: in_window_def)

lemma AppendLowOverheadSequenceHeaderOBU_bytes:
  assumes "sl_wf dst" "SequenceHeaderPayloadSize seq = Inr (length p)"
    and "\<And>d. length d = length p \<Longrightarrow> run_writer (writeSequenceHeaderPayload seq) d = (Inr (), p)"
    and "length (unit_bytes (sequence_unit p)) \<le> sl_cap dst - sl_len dst"
  shows "\<exists>out. AppendLowOverheadSequenceHeaderOBU dst seq = (out, None) \<and>
    sl_bytes out = sl_bytes dst @ unit_bytes (sequence_unit p)"
proof -
  let ?u = "sequence_unit p" and ?n = "sl_len dst" and ?buf = "sl_back dst"
  let ?h = "header_bytes (obu_header ?u)" and ?l = "leb128 (word_of_nat (length p))"
  let ?e = "?n + (1 + LEB128Len (word_of_nat (length p)) + length p)"
  have hdr: "obu_header ?u = \<lparr>hd_Type = TypeSequenceHeader, hd_Extension = False, hd_HasSizeField = True, hd_TemporalID = 0, hd_SpatialID = 0\<rparr>"
    by (simp add: sequence_unit_def obu_header_def)
  have h1: "length ?h = 1" "HeaderLen (obu_header ?u) = 1" by (simp_all add: hdr header_bytes_def HeaderLen_def)
  have e: "?e = ?n + length ?h + length ?l + length p" by (simp add: h1 LEB128Len_length)
  have len: "length (unit_bytes ?u) = length ?h + length ?l + length p" by (simp add: obu_bytes_def sequence_unit_def)
  then have room: "?e \<le> length ?buf" "\<not> sl_cap dst - ?n < 1 + LEB128Len (word_of_nat (length p)) + length p"
    using assms(1,4) e by (auto simp: sl_wf_def sl_cap_def)
  have w1: "in_window ?n ?e (\<lambda>out. PutHeader out (obu_header ?u)) ?buf = (Inr (length ?h), take ?n ?buf @ ?h @ drop (?n + length ?h) ?buf)"
    using e room h1 by (intro in_window_put) (simp_all add: PutHeader_eq hdr TypeSequenceHeader_def)
  let ?b1 = "take ?n ?buf @ ?h @ drop (?n + length ?h) ?buf"
  have w2: "in_window (?n + length ?h) ?e (\<lambda>out. PutLEB128 out (word_of_nat (length p))) ?b1 =
      (Inr (length ?l), take (?n + length ?h) ?b1 @ ?l @ drop (?n + length ?h + length ?l) ?b1)"
    using e room by (intro in_window_put) (simp_all add: PutLEB128_eq)
  let ?b2 = "take (?n + length ?h) ?b1 @ ?l @ drop (?n + length ?h + length ?l) ?b1"
  have w3: "in_window (?n + length ?h + length ?l) ?e (run_writer (writeSequenceHeaderPayload seq)) ?b2 =
      (Inr (), take (?n + length ?h + length ?l) ?b2 @ p @ drop (?n + length ?h + length ?l + length p) ?b2)"
    using e room by (intro in_window_exact assms(3)) simp_all
  have b3: "take (?n + length ?h + length ?l) ?b2 @ p @ drop (?n + length ?h + length ?l + length p) ?b2 =
      sl_bytes dst @ unit_bytes ?u @ drop ?e ?buf"
    using e room by (simp add: sl_bytes_def obu_bytes_def sequence_unit_def ac_simps)
  have "AppendLowOverheadSequenceHeaderOBU dst seq = (\<lparr>sl_back = sl_bytes dst @ unit_bytes ?u @ drop ?e ?buf, sl_len = ?e\<rparr>, None)"
    using w1 w2 w3 b3 room(2) assms(2) by (simp add: AppendLowOverheadSequenceHeaderOBU_def Let_def hdr)
  moreover have "length (sl_bytes dst @ unit_bytes ?u) = ?e" using assms(1) e len by (simp add: sl_bytes_def sl_wf_def sl_cap_def)
  ultimately show ?thesis by (simp add: sl_bytes_def [of "\<lparr>sl_back = _, sl_len = _\<rparr>"])
qed

section \<open>Properties\<close>

text \<open>
  C1: a sequence header that the encoder accepts and writes as an OBU is read back by the decoder:
  the OBU has the announced size, parses as one low-overhead unit of sequence header type, and
  \<open>ParseSequenceHeader\<close> on its payload returns the header field by field. (The one exception, a
  picture interval of \<open>2 ^ 32 - 1\<close> ticks, is excluded by \<open>seq_encodable\<close>.)
\<close>

theorem sequence_header_roundtrip:
  assumes "sl_wf dst" "seq_encodable seq" "AppendLowOverheadSequenceHeaderOBU dst seq = (out, None)"
    and "length (sl_bytes out) < 2 ^ 32"
  shows "\<exists>b u. LowOverheadSequenceHeaderOBUSize seq = Inr (length b) \<and> sl_bytes out = sl_bytes dst @ b \<and>
    ParseLowOverhead b = Inr (u, length b) \<and> hd_Type (un_Header u) = TypeSequenceHeader \<and>
    ParseSequenceHeader (un_Payload u) = Inr (decoded_sequence seq)"
proof -
  obtain p where p: "SequenceHeaderPayloadSize seq = Inr (length p)" "ParseSequenceHeader p = Inr (decoded_sequence seq)"
      "\<And>d. length d = length p \<Longrightarrow> run_writer (writeSequenceHeaderPayload seq) d = (Inr (), p)"
    using sequence_payload [OF assms(2)] by blast
  let ?b = "unit_bytes (sequence_unit p)"
  have sz: "LowOverheadSequenceHeaderOBUSize seq = Inr (length ?b)"
    by (simp add: LowOverheadSequenceHeaderOBUSize_def p(1) length_sequence_unit)
  have "length ?b \<le> sl_cap dst - sl_len dst"
    using assms(3) p(1) sz by (auto simp: AppendLowOverheadSequenceHeaderOBU_def LowOverheadSequenceHeaderOBUSize_def Let_def
        split: if_splits)
  with AppendLowOverheadSequenceHeaderOBU_bytes [OF assms(1) p(1,3)] assms(3)
  have out: "sl_bytes out = sl_bytes dst @ ?b" by auto
  then have "length p < 2 ^ 32" using assms(4) by (simp add: obu_bytes_def sequence_unit_def)
  then have v: "validateOBU (sequence_unit p) = None"
    by (simp add: validateOBU_def sequence_unit_def TypeSequenceHeader_def Type_Reserved_def TypeReserved_def uint_MaxLEB128Value
        word_le_nat_alt)
  have "ParseLowOverhead ?b = Inr (sized_unit (obu_header (sequence_unit p)) p, length ?b)"
    using ParseLowOverhead_append [OF unit_bytes_piece [OF v], of "[]"] by (simp add: sequence_unit_def)
  then show ?thesis using sz out p(2)
    by (intro exI [of _ ?b] exI [of _ "sized_unit (obu_header (sequence_unit p)) p"])
      (simp add: sized_unit_def obu_header_def sequence_unit_def)
qed

text \<open>A small full header, for the witnesses: 64 x 48, 8 bit, one operating point.\<close>

definition sample_sequence :: EncSequenceHeader where
  "sample_sequence = \<lparr>es_Profile = 0, es_StillPicture = False, es_ReducedStillPictureHeader = False,
     es_TimingInfoPresent = True, es_DecoderModelInfoPresent = False, es_InitialDisplayDelayPresent = False,
     es_TimingInfo = \<lparr>st_NumUnitsInDisplayTick = 1, st_TimeScale = 30, st_EqualPictureInterval = True, st_NumTicksPerPictureMinus1 = 2\<rparr>,
     es_DecoderModelInfo = zero_SequenceDecoderModelInfo, es_OperatingPointsCount = 1,
     es_OperatingPoints = replicate 32 zero_SequenceOperatingPoint, es_MaxFrameWidth = 64, es_MaxFrameHeight = 48,
     es_FrameIDNumbersPresent = False, es_DeltaFrameIDLength = 0, es_AdditionalFrameIDLength = 0,
     es_Use128x128Superblock = False, es_EnableFilterIntra = True, es_EnableIntraEdgeFilter = False,
     es_EnableInterIntraCompound = False, es_EnableMaskedCompound = False, es_EnableWarpedMotion = True,
     es_EnableDualFilter = False, es_EnableOrderHint = True, es_EnableJNTComp = False, es_EnableRefFrameMVS = False,
     es_SeqForceScreenContentTools = 0, es_SeqForceIntegerMV = 0, es_OrderHintBits = 7, es_EnableSuperRes = False,
     es_EnableCDEF = True, es_EnableRestoration = False,
     es_ColorConfig = \<lparr>sc_BitDepth = 8, sc_MonoChrome = False, sc_ColorDescriptionPresent = False, sc_ColorPrimaries = 0,
       sc_TransferCharacteristics = 0, sc_MatrixCoefficients = 0, sc_ColorRange = False, sc_SubsamplingX = True,
       sc_SubsamplingY = True, sc_ChromaSamplePosition = 0, sc_SeparateUVDeltaQ = False\<rparr>,
     es_FilmGrainParamsPresent = False\<rparr>"

theorem sequence_header_roundtrip_witness:
  "\<exists>b u. LowOverheadSequenceHeaderOBUSize sample_sequence = Inr (length b) \<and> ParseLowOverhead b = Inr (u, length b) \<and>
     ParseSequenceHeader (un_Payload u) = Inr (decoded_sequence sample_sequence)"
proof -
  let ?dst = "\<lparr>sl_back = replicate 40 0, sl_len = 0\<rparr>"
  have ok: "seq_encodable sample_sequence" by code_simp
  have "snd (AppendLowOverheadSequenceHeaderOBU ?dst sample_sequence) = None \<and>
      length (sl_bytes (fst (AppendLowOverheadSequenceHeaderOBU ?dst sample_sequence))) < 100"
    by code_simp
  then obtain out where "AppendLowOverheadSequenceHeaderOBU ?dst sample_sequence = (out, None)" "length (sl_bytes out) < 100"
    by (metis fst_conv prod.collapse)
  from sequence_header_roundtrip [OF _ ok this(1)] this(2) show ?thesis by (auto simp: sl_wf_def sl_cap_def)
qed


text \<open>
  Appending a sequence header never returns an error after a partial write: on every error the
  slice is the one passed in, its backing bytes included.
\<close>

theorem AppendLowOverheadSequenceHeaderOBU_error:
  assumes "sl_wf dst" "AppendLowOverheadSequenceHeaderOBU dst seq = (out, Some e)"
    and "st_NumTicksPerPictureMinus1 (es_TimingInfo seq) \<noteq> 0xffffffff"
  shows "out = dst \<and> (validateSequenceHeader seq = Some e \<or> validateSequenceHeader seq = None \<and> e = ErrShortBuffer)"
proof (cases "validateSequenceHeader seq")
  case (Some x)
  then show ?thesis using assms(2)
    by (simp add: AppendLowOverheadSequenceHeaderOBU_def SequenceHeaderPayloadSize_def writeSequenceHeaderPayload_def wfail_def)
next
  case None
  then have "seq_encodable seq" using assms(3) by (simp add: seq_encodable_def)
  then obtain p where p: "SequenceHeaderPayloadSize seq = Inr (length p)"
      "\<And>d. length d = length p \<Longrightarrow> run_writer (writeSequenceHeaderPayload seq) d = (Inr (), p)"
    using sequence_payload by blast
  have "\<not> length (unit_bytes (sequence_unit p)) \<le> sl_cap dst - sl_len dst"
    using AppendLowOverheadSequenceHeaderOBU_bytes [OF assms(1) p] assms(2) by auto
  then show ?thesis using assms(2) None length_sequence_unit [of p] by (simp add: AppendLowOverheadSequenceHeaderOBU_def p(1) Let_def split: if_splits)
qed

theorem AppendLowOverheadSequenceHeaderOBU_error_witness:
  "fst (AppendLowOverheadSequenceHeaderOBU \<lparr>sl_back = [7, 7], sl_len = 1\<rparr> sample_sequence) = \<lparr>sl_back = [7, 7], sl_len = 1\<rparr>"
proof -
  let ?dst = "\<lparr>sl_back = [7, 7], sl_len = 1\<rparr>"
  have "snd (AppendLowOverheadSequenceHeaderOBU ?dst sample_sequence) = Some ErrShortBuffer" by code_simp
  then have "AppendLowOverheadSequenceHeaderOBU ?dst sample_sequence =
      (fst (AppendLowOverheadSequenceHeaderOBU ?dst sample_sequence), Some ErrShortBuffer)" by (metis prod.collapse)
  from AppendLowOverheadSequenceHeaderOBU_error [OF _ this] show ?thesis
    by (simp add: sl_wf_def sl_cap_def sample_sequence_def)
qed

end
