(* ===== verification/Frame_Types.thy ===== *)
theory Frame_Types
  imports Seq_Parser
begin

text \<open>
  The data of the frame header parser (\<open>internal/av1/parser\<close>): one record per Go struct, with its
  zero value, and one datatype per enumeration, whose values the parser only ever takes from bit
  fields of the right width. A Go array is a list of its length; a signed integer is an \<open>int\<close>, and
  the conversions that can truncate it are written out.
\<close>

section \<open>Signed integers\<close>

definition i8 :: "int \<Rightarrow> int" where "i8 k = signed_take_bit 7 k"
definition i16 :: "int \<Rightarrow> int" where "i16 k = signed_take_bit 15 k"
definition i32 :: "int \<Rightarrow> int" where "i32 k = signed_take_bit 31 k"

section \<open>Constants and enumerations\<close>

definition PrimaryRefNone :: u8 where "PrimaryRefNone = 7"
definition RefFrames :: nat where "RefFrames = 8"
definition InterRefsPerFrame :: nat where "InterRefsPerFrame = 7"
definition MaxSegments :: nat where "MaxSegments = 8"
definition LoopFilterModeDeltas :: nat where "LoopFilterModeDeltas = 2"
definition MaxCDEFStrengths :: nat where "MaxCDEFStrengths = 8"
definition MaxTileRows :: nat where "MaxTileRows = 64"
definition MaxTileCols :: nat where "MaxTileCols = 64"
definition MaxFilmGrainYPoints :: nat where "MaxFilmGrainYPoints = 14"
definition MaxFilmGrainUVPoints :: nat where "MaxFilmGrainUVPoints = 10"
definition MaxFilmGrainYCoeffs :: nat where "MaxFilmGrainYCoeffs = 24"
definition MaxFilmGrainUVCoeffs :: nat where "MaxFilmGrainUVCoeffs = 25"

lemmas frame_consts = PrimaryRefNone_def RefFrames_def InterRefsPerFrame_def MaxSegments_def LoopFilterModeDeltas_def
  MaxCDEFStrengths_def MaxTileRows_def MaxTileCols_def MaxFilmGrainYPoints_def MaxFilmGrainUVPoints_def
  MaxFilmGrainYCoeffs_def MaxFilmGrainUVCoeffs_def

datatype FrameType = FrameTypeKey | FrameTypeInter | FrameTypeIntraOnly | FrameTypeSwitch

text \<open>The conversion \<open>FrameType(v)\<close> of a two-bit value; likewise below.\<close>

definition FrameType_of :: "u64 \<Rightarrow> FrameType" where
  "FrameType_of v = (if v = 0 then FrameTypeKey else if v = 1 then FrameTypeInter
     else if v = 2 then FrameTypeIntraOnly else FrameTypeSwitch)"

definition frameTypeIsKeyOrIntra :: "FrameType \<Rightarrow> bool" where
  "frameTypeIsKeyOrIntra t \<longleftrightarrow> t = FrameTypeKey \<or> t = FrameTypeIntraOnly"

definition frameTypeIsInterOrSwitch :: "FrameType \<Rightarrow> bool" where
  "frameTypeIsInterOrSwitch t \<longleftrightarrow> t = FrameTypeInter \<or> t = FrameTypeSwitch"

datatype InterpolationFilter = InterpolationEightTap | InterpolationSmooth | InterpolationSharp
  | InterpolationBilinear | InterpolationSwitchable

definition InterpolationFilter_of :: "u64 \<Rightarrow> InterpolationFilter" where
  "InterpolationFilter_of v = (if v = 0 then InterpolationEightTap else if v = 1 then InterpolationSmooth
     else if v = 2 then InterpolationSharp else InterpolationBilinear)"

datatype RestorationType = RestorationNone | RestorationSwitchable | RestorationWiener | RestorationSGRProj

definition RestorationType_of :: "u64 \<Rightarrow> RestorationType" where
  "RestorationType_of v = (if v = 0 then RestorationNone else if v = 1 then RestorationSwitchable
     else if v = 2 then RestorationWiener else RestorationSGRProj)"

datatype TransformMode = TransformMode4x4Only | TransformModeLargest | TransformModeSwitchable
datatype ReferenceMode = ReferenceModeSingle | ReferenceModeCompound | ReferenceModeSelect
datatype GlobalMotionType = GlobalMotionIdentity | GlobalMotionTranslation | GlobalMotionRotZoom | GlobalMotionAffine

section \<open>Structs\<close>

record FrameHeaderPrefix =
  fh_ShowExistingFrame :: bool
  fh_ExistingFrameIdx :: u8
  fh_FrameType :: FrameType
  fh_ShowFrame :: bool
  fh_ShowableFrame :: bool
  fh_ErrorResilientMode :: bool
  fh_DisableCDFUpdate :: bool
  fh_AllowScreenContentTools :: bool
  fh_ForceIntegerMV :: bool
  fh_FramePresentationDelay :: u32
  fh_FrameID :: u16
  fh_FrameSizeOverride :: bool
  fh_OrderHint :: u8
  fh_PrimaryRefFrame :: u8
  fh_BitsRead :: u16

definition zero_FrameHeaderPrefix :: FrameHeaderPrefix where
  "zero_FrameHeaderPrefix = \<lparr>fh_ShowExistingFrame = False, fh_ExistingFrameIdx = 0, fh_FrameType = FrameTypeKey,
     fh_ShowFrame = False, fh_ShowableFrame = False, fh_ErrorResilientMode = False, fh_DisableCDFUpdate = False,
     fh_AllowScreenContentTools = False, fh_ForceIntegerMV = False, fh_FramePresentationDelay = 0, fh_FrameID = 0,
     fh_FrameSizeOverride = False, fh_OrderHint = 0, fh_PrimaryRefFrame = 0, fh_BitsRead = 0\<rparr>"

record FrameSize =
  fs_CodedWidth :: u32
  fs_UpscaledWidth :: u32
  fs_Height :: u32
  fs_RenderWidth :: u32
  fs_RenderHeight :: u32
  fs_SuperResEnabled :: bool
  fs_SuperResDenominator :: u8
  fs_HaveRenderSize :: bool
  fs_AllowIntrabc :: bool
  fs_RefreshFrameFlags :: u8
  fs_BufferRemovalTimePresent :: bool
  fs_BufferRemovalTimes :: "u32 list"
  fs_RefOrderHints :: "u8 list"
  fs_FrameRefsShortSignaling :: bool
  fs_LastFrameIdx :: u8
  fs_GoldenFrameIdx :: u8
  fs_RefFrameIdx :: "u8 list"
  fs_DeltaFrameIDMinus1 :: "u16 list"
  fs_UsedReferenceFrameSize :: bool
  fs_ReferenceFrameSizeIdx :: u8
  fs_BitsRead :: u16

definition zero_FrameSize :: FrameSize where
  "zero_FrameSize = \<lparr>fs_CodedWidth = 0, fs_UpscaledWidth = 0, fs_Height = 0, fs_RenderWidth = 0, fs_RenderHeight = 0,
     fs_SuperResEnabled = False, fs_SuperResDenominator = 0, fs_HaveRenderSize = False, fs_AllowIntrabc = False,
     fs_RefreshFrameFlags = 0, fs_BufferRemovalTimePresent = False, fs_BufferRemovalTimes = replicate 32 0,
     fs_RefOrderHints = replicate RefFrames 0, fs_FrameRefsShortSignaling = False, fs_LastFrameIdx = 0, fs_GoldenFrameIdx = 0,
     fs_RefFrameIdx = replicate InterRefsPerFrame 0, fs_DeltaFrameIDMinus1 = replicate InterRefsPerFrame 0,
     fs_UsedReferenceFrameSize = False, fs_ReferenceFrameSizeIdx = 0, fs_BitsRead = 0\<rparr>"

record TileInfo =
  ti_AllowHighPrecisionMV :: bool
  ti_InterpolationFilter :: InterpolationFilter
  ti_SwitchableMotionMode :: bool
  ti_UseRefFrameMVS :: bool
  ti_RefreshContext :: bool
  ti_ContextUpdateTileID :: u16
  ti_TileSizeBytes :: u8
  ti_UniformSpacing :: bool
  ti_SBCols :: u16
  ti_SBRows :: u16
  ti_MinLog2Cols :: u8
  ti_MaxLog2Cols :: u8
  ti_MinLog2Rows :: u8
  ti_MaxLog2Rows :: u8
  ti_MinLog2Tiles :: u8
  ti_Log2Cols :: u8
  ti_Log2Rows :: u8
  ti_Cols :: u8
  ti_Rows :: u8
  ti_ColStartSB :: "u16 list"
  ti_RowStartSB :: "u16 list"
  ti_BitsRead :: u16

definition zero_TileInfo :: TileInfo where
  "zero_TileInfo = \<lparr>ti_AllowHighPrecisionMV = False, ti_InterpolationFilter = InterpolationEightTap,
     ti_SwitchableMotionMode = False, ti_UseRefFrameMVS = False, ti_RefreshContext = False, ti_ContextUpdateTileID = 0,
     ti_TileSizeBytes = 0, ti_UniformSpacing = False, ti_SBCols = 0, ti_SBRows = 0, ti_MinLog2Cols = 0, ti_MaxLog2Cols = 0,
     ti_MinLog2Rows = 0, ti_MaxLog2Rows = 0, ti_MinLog2Tiles = 0, ti_Log2Cols = 0, ti_Log2Rows = 0, ti_Cols = 0, ti_Rows = 0,
     ti_ColStartSB = replicate (MaxTileCols + 1) 0, ti_RowStartSB = replicate (MaxTileRows + 1) 0, ti_BitsRead = 0\<rparr>"

record QuantizationParams =
  qp_BaseQIdx :: u8
  qp_YDCDelta :: int
  qp_UDCDelta :: int
  qp_UACDelta :: int
  qp_VDCDelta :: int
  qp_VACDelta :: int
  qp_DiffUVDeltas :: bool
  qp_UsingQMatrix :: bool
  qp_QMatrixLevelY :: u8
  qp_QMatrixLevelU :: u8
  qp_QMatrixLevelV :: u8
  qp_BitsRead :: u16

definition zero_QuantizationParams :: QuantizationParams where
  "zero_QuantizationParams = \<lparr>qp_BaseQIdx = 0, qp_YDCDelta = 0, qp_UDCDelta = 0, qp_UACDelta = 0, qp_VDCDelta = 0,
     qp_VACDelta = 0, qp_DiffUVDeltas = False, qp_UsingQMatrix = False, qp_QMatrixLevelY = 0, qp_QMatrixLevelU = 0,
     qp_QMatrixLevelV = 0, qp_BitsRead = 0\<rparr>"

record SegmentData =
  sg_DeltaQ :: int
  sg_DeltaLFYV :: int
  sg_DeltaLFYH :: int
  sg_DeltaLFU :: int
  sg_DeltaLFV :: int
  sg_RefFrame :: int
  sg_Skip :: bool
  sg_GlobalMV :: bool

definition zero_SegmentData :: SegmentData where
  "zero_SegmentData = \<lparr>sg_DeltaQ = 0, sg_DeltaLFYV = 0, sg_DeltaLFYH = 0, sg_DeltaLFU = 0, sg_DeltaLFV = 0,
     sg_RefFrame = 0, sg_Skip = False, sg_GlobalMV = False\<rparr>"

record SegmentationData =
  sgd_Segments :: "SegmentData list"
  sgd_LastActiveID :: int
  sgd_Preskip :: bool

definition zero_SegmentationData :: SegmentationData where
  "zero_SegmentationData = \<lparr>sgd_Segments = replicate MaxSegments zero_SegmentData, sgd_LastActiveID = 0, sgd_Preskip = False\<rparr>"

record SegmentationParams =
  sgp_Enabled :: bool
  sgp_UpdateMap :: bool
  sgp_TemporalUpdate :: bool
  sgp_UpdateData :: bool
  sgp_Data :: SegmentationData
  sgp_QIndex :: "u8 list"
  sgp_Lossless :: "bool list"
  sgp_AllLossless :: bool
  sgp_BitsRead :: u16

definition zero_SegmentationParams :: SegmentationParams where
  "zero_SegmentationParams = \<lparr>sgp_Enabled = False, sgp_UpdateMap = False, sgp_TemporalUpdate = False, sgp_UpdateData = False,
     sgp_Data = zero_SegmentationData, sgp_QIndex = replicate MaxSegments 0, sgp_Lossless = replicate MaxSegments False,
     sgp_AllLossless = False, sgp_BitsRead = 0\<rparr>"

record DeltaParams =
  dl_DeltaQPresent :: bool
  dl_DeltaQResLog2 :: u8
  dl_DeltaLFPresent :: bool
  dl_DeltaLFResLog2 :: u8
  dl_DeltaLFMulti :: bool
  dl_BitsRead :: u16

definition zero_DeltaParams :: DeltaParams where
  "zero_DeltaParams = \<lparr>dl_DeltaQPresent = False, dl_DeltaQResLog2 = 0, dl_DeltaLFPresent = False, dl_DeltaLFResLog2 = 0,
     dl_DeltaLFMulti = False, dl_BitsRead = 0\<rparr>"

record LoopFilterDeltas =
  lfd_Ref :: "int list"
  lfd_Mode :: "int list"

definition zero_LoopFilterDeltas :: LoopFilterDeltas where
  "zero_LoopFilterDeltas = \<lparr>lfd_Ref = replicate RefFrames 0, lfd_Mode = replicate LoopFilterModeDeltas 0\<rparr>"

record LoopFilterParams =
  lf_LevelY :: "u8 list"
  lf_LevelU :: u8
  lf_LevelV :: u8
  lf_Sharpness :: u8
  lf_ModeRefDeltaEnabled :: bool
  lf_ModeRefDeltaUpdate :: bool
  lf_Deltas :: LoopFilterDeltas
  lf_BitsRead :: u16

definition zero_LoopFilterParams :: LoopFilterParams where
  "zero_LoopFilterParams = \<lparr>lf_LevelY = [0, 0], lf_LevelU = 0, lf_LevelV = 0, lf_Sharpness = 0, lf_ModeRefDeltaEnabled = False,
     lf_ModeRefDeltaUpdate = False, lf_Deltas = zero_LoopFilterDeltas, lf_BitsRead = 0\<rparr>"

record CDEFParams =
  cd_Damping :: u8
  cd_Bits :: u8
  cd_StrengthCount :: u8
  cd_YStrength :: "u8 list"
  cd_UVStrength :: "u8 list"
  cd_BitsRead :: u16

definition zero_CDEFParams :: CDEFParams where
  "zero_CDEFParams = \<lparr>cd_Damping = 0, cd_Bits = 0, cd_StrengthCount = 0, cd_YStrength = replicate MaxCDEFStrengths 0,
     cd_UVStrength = replicate MaxCDEFStrengths 0, cd_BitsRead = 0\<rparr>"

record RestorationParams =
  rs_Type :: "RestorationType list"
  rs_UnitSizeYLog2 :: u8
  rs_UnitSizeUVLog2 :: u8
  rs_UnitSizeY :: u16
  rs_UnitSizeUV :: u16
  rs_BitsRead :: u16

definition zero_RestorationParams :: RestorationParams where
  "zero_RestorationParams = \<lparr>rs_Type = [RestorationNone, RestorationNone, RestorationNone], rs_UnitSizeYLog2 = 0,
     rs_UnitSizeUVLog2 = 0, rs_UnitSizeY = 0, rs_UnitSizeUV = 0, rs_BitsRead = 0\<rparr>"

record TransformReferenceParams =
  tr_TransformMode :: TransformMode
  tr_ReferenceMode :: ReferenceMode
  tr_BitsRead :: u16

definition zero_TransformReferenceParams :: TransformReferenceParams where
  "zero_TransformReferenceParams = \<lparr>tr_TransformMode = TransformMode4x4Only, tr_ReferenceMode = ReferenceModeSingle, tr_BitsRead = 0\<rparr>"

record SkipModeParams =
  sk_Allowed :: bool
  sk_Enabled :: bool
  sk_RefFrameIdx :: "u8 list"
  sk_BitsRead :: u16

definition zero_SkipModeParams :: SkipModeParams where
  "zero_SkipModeParams = \<lparr>sk_Allowed = False, sk_Enabled = False, sk_RefFrameIdx = [0, 0], sk_BitsRead = 0\<rparr>"

record FrameModeParams =
  fm_AllowWarpedMotion :: bool
  fm_ReducedTxSet :: bool
  fm_BitsRead :: u16

definition zero_FrameModeParams :: FrameModeParams where
  "zero_FrameModeParams = \<lparr>fm_AllowWarpedMotion = False, fm_ReducedTxSet = False, fm_BitsRead = 0\<rparr>"

record WarpedMotionParams =
  wm_Type :: GlobalMotionType
  wm_Matrix :: "int list"

definition zero_WarpedMotionParams :: WarpedMotionParams where
  "zero_WarpedMotionParams = \<lparr>wm_Type = GlobalMotionIdentity, wm_Matrix = replicate 6 0\<rparr>"

record GlobalMotionParams =
  gm_Ref :: "WarpedMotionParams list"
  gm_BitsRead :: u16

definition zero_GlobalMotionParams :: GlobalMotionParams where
  "zero_GlobalMotionParams = \<lparr>gm_Ref = replicate InterRefsPerFrame zero_WarpedMotionParams, gm_BitsRead = 0\<rparr>"

record FilmGrainParams =
  fg_ParamsPresent :: bool
  fg_Apply :: bool
  fg_Update :: bool
  fg_Seed :: u16
  fg_RefIdx :: u8
  fg_BitDepth :: u8
  fg_ChromaScalingFromLuma :: bool
  fg_NumYPoints :: u8
  fg_YPoints :: "(u8 \<times> u8) list"
  fg_NumCbPoints :: u8
  fg_CbPoints :: "(u8 \<times> u8) list"
  fg_NumCrPoints :: u8
  fg_CrPoints :: "(u8 \<times> u8) list"
  fg_ScalingShift :: u8
  fg_ARCoeffLag :: u8
  fg_ARCoeffsY :: "int list"
  fg_ARCoeffsCb :: "int list"
  fg_ARCoeffsCr :: "int list"
  fg_ARCoeffShift :: u8
  fg_GrainScaleShift :: u8
  fg_CbMult :: u8
  fg_CbLumaMult :: u8
  fg_CbOffset :: u16
  fg_CrMult :: u8
  fg_CrLumaMult :: u8
  fg_CrOffset :: u16
  fg_Overlap :: bool
  fg_ClipToRestrictedRange :: bool
  fg_BitsRead :: u16

definition zero_FilmGrainParams :: FilmGrainParams where
  "zero_FilmGrainParams = \<lparr>fg_ParamsPresent = False, fg_Apply = False, fg_Update = False, fg_Seed = 0, fg_RefIdx = 0,
     fg_BitDepth = 0, fg_ChromaScalingFromLuma = False, fg_NumYPoints = 0, fg_YPoints = replicate MaxFilmGrainYPoints (0, 0),
     fg_NumCbPoints = 0, fg_CbPoints = replicate MaxFilmGrainUVPoints (0, 0), fg_NumCrPoints = 0,
     fg_CrPoints = replicate MaxFilmGrainUVPoints (0, 0), fg_ScalingShift = 0, fg_ARCoeffLag = 0,
     fg_ARCoeffsY = replicate MaxFilmGrainYCoeffs 0, fg_ARCoeffsCb = replicate MaxFilmGrainUVCoeffs 0,
     fg_ARCoeffsCr = replicate MaxFilmGrainUVCoeffs 0, fg_ARCoeffShift = 0, fg_GrainScaleShift = 0, fg_CbMult = 0,
     fg_CbLumaMult = 0, fg_CbOffset = 0, fg_CrMult = 0, fg_CrLumaMult = 0, fg_CrOffset = 0, fg_Overlap = False,
     fg_ClipToRestrictedRange = False, fg_BitsRead = 0\<rparr>"

record ReferenceFrame =
  rf_Valid :: bool
  rf_FrameID :: u16
  rf_OrderHint :: u8
  rf_FrameType :: FrameType
  rf_ShowableFrame :: bool
  rf_Size :: FrameSize
  rf_Segmentation :: SegmentationData
  rf_LoopFilterDeltas :: LoopFilterDeltas
  rf_GlobalMotion :: GlobalMotionParams
  rf_FilmGrain :: FilmGrainParams

definition zero_ReferenceFrame :: ReferenceFrame where
  "zero_ReferenceFrame = \<lparr>rf_Valid = False, rf_FrameID = 0, rf_OrderHint = 0, rf_FrameType = FrameTypeKey, rf_ShowableFrame = False,
     rf_Size = zero_FrameSize, rf_Segmentation = zero_SegmentationData, rf_LoopFilterDeltas = zero_LoopFilterDeltas,
     rf_GlobalMotion = zero_GlobalMotionParams, rf_FilmGrain = zero_FilmGrainParams\<rparr>"

text \<open>\<open>ReferenceState\<close> holds the array of the eight reference slots.\<close>

record ReferenceState =
  rst_Frames :: "ReferenceFrame list"

definition zero_ReferenceState :: ReferenceState where
  "zero_ReferenceState = \<lparr>rst_Frames = replicate RefFrames zero_ReferenceFrame\<rparr>"

section \<open>Positions in the payload\<close>

text \<open>
  Each stage of the frame header parser opens its own reader on the payload, skips the bits of the
  stages before it, and reports how many bits are read when it is done.
\<close>

definition readerBitsRead :: "u16 rd" where
  "readerBitsRead r = (let bits = BitsRead r in
     if int bits > 65535 then (Inl ErrInvalidBitCount, r) else (Inr (word_of_nat bits), r))"

definition skipBitsRead :: "u16 \<Rightarrow> unit rd" where
  "skipBitsRead bits = SkipBits (int (unat bits))"

definition on_payload :: "bytes \<Rightarrow> u16 \<Rightarrow> 'a rd \<Rightarrow> go_err + 'a" where
  "on_payload payload bits m = fst (rbind (skipBitsRead bits) (\<lambda>_. m) (NewReader payload))"

text \<open>The contract of a stage: it only moves forward, and reports where it stopped.\<close>

locale header_stage =
  fixes body :: "'a rd" and bits_of :: "'a \<Rightarrow> u16"
  assumes body_forward: "forward body"
    and body_bits: "body r = (Inr v, r') \<Longrightarrow> unat (bits_of v) = rd_bit r'"
begin

lemma stage_bounds:
  assumes "on_payload payload n body = Inr v"
  shows "unat n \<le> unat (bits_of v) \<and> unat (bits_of v) \<le> 8 * length payload"
proof -
  obtain r where s: "skipBitsRead n (NewReader payload) = (Inr (), r)" "body r = (Inr v, snd (body r))"
    using assms unfolding on_payload_def rbind_def
    by (auto split: prod.splits sum.splits) (metis fst_conv old.unit.exhaust prod.collapse)
  have le: "\<not> int (length payload) * 8 < int k \<Longrightarrow> k \<le> 8 * length payload" for k by linarith
  have r: "rd_wf r" "rd_src r = payload" "rd_bit r = unat n"
    using s(1) le [of "unat n"]
    by (auto simp: skipBitsRead_def SkipBits_def NewReader_def rd_wf_def BitsRemaining_def split: if_splits)
  obtain r' where b: "body r = (Inr v, r')" using s(2) by metis
  from forwardD [OF body_forward r(1) b] body_bits [OF b] r show ?thesis by (auto simp: rd_wf_def)
qed

end

lemma forward_readerBitsRead [rd_safe]: "forward readerBitsRead"
  by (simp add: forward_def readerBitsRead_def Let_def)

definition reports :: "'a rd \<Rightarrow> ('a \<Rightarrow> u16) \<Rightarrow> bool" where
  "reports m bits \<longleftrightarrow> (\<forall>r v r'. m r = (Inr v, r') \<longrightarrow> unat (bits v) = rd_bit r')"

named_theorems rd_reports \<open>readers that report the position they stop at\<close>

lemma reports_rbind [rd_reports]: "(\<And>v. reports (f v) bits) \<Longrightarrow> reports (rbind m f) bits"
  unfolding reports_def rbind_def by (auto split: prod.splits sum.splits)

lemma reports_rfail [rd_reports]: "reports (rfail e) bits"
  by (simp add: reports_def rfail_def)

lemma reports_if [rd_reports]: "(c \<Longrightarrow> reports m bits) \<Longrightarrow> (\<not> c \<Longrightarrow> reports n bits) \<Longrightarrow> reports (if c then m else n) bits"
  by simp

lemma reports_Let [rd_reports]: "(\<And>v. reports (f v) bits) \<Longrightarrow> reports (let v = t in f v) bits"
  by simp

lemma reports_end: "(\<And>b. bits (f b) = b) \<Longrightarrow> reports (rbind readerBitsRead (\<lambda>b. rret (f b))) bits"
  by (auto simp: reports_def rbind_def readerBitsRead_def rret_def Let_def BitsRead_def unat_of_nat take_bit_nat_eq_self
      split: if_splits)

lemma header_stageI: "forward m \<Longrightarrow> reports m bits \<Longrightarrow> header_stage m bits"
  by unfold_locales (auto simp: reports_def)

lemma on_payload_post: "rpost m P \<Longrightarrow> on_payload payload n m = Inr v \<Longrightarrow> P v"
  using fst_Inr rpostD rpost_bind_any unfolding on_payload_def by metis

lemma i32_small: "- (2 ^ 31) \<le> k \<Longrightarrow> k < 2 ^ 31 \<Longrightarrow> i32 k = k"
  by (simp add: i32_def signed_take_bit_int_eq_self)

lemma i16_small: "- (2 ^ 15) \<le> k \<Longrightarrow> k < 2 ^ 15 \<Longrightarrow> i16 k = k"
  by (simp add: i16_def signed_take_bit_int_eq_self)

end
