(* ===== verification/Frame_Prefix.thy ===== *)
theory Frame_Prefix
  imports Frame_Types
begin

text \<open>
  \<open>internal/av1/parser/frame.go\<close>: the first control fields of the frame header, up to
  \<open>primary_ref_frame\<close>.
\<close>

section \<open>Operations\<close>

definition readFramePresentationDelay :: "SequenceHeader \<Rightarrow> FrameHeaderPrefix \<Rightarrow> FrameHeaderPrefix rd" where
  "readFramePresentationDelay seq hdr =
     (if \<not> sh_DecoderModelInfoPresent seq \<or> tm_EqualPictureInterval (sh_TimingInfo seq) then rret hdr
      else rbind (ReadBits (dm_FramePresentationTimeLength (sh_DecoderModelInfo seq))) (\<lambda>v.
        rret (hdr\<lparr>fh_FramePresentationDelay := ucast v\<rparr>)))"

definition parseShowExistingFrameHeader :: "SequenceHeader \<Rightarrow> FrameHeaderPrefix \<Rightarrow> FrameHeaderPrefix rd" where
  "parseShowExistingFrameHeader seq hdr =
     rbind (ReadBits 3) (\<lambda>v. let hdr = hdr\<lparr>fh_ExistingFrameIdx := ucast v\<rparr> in
     rbind (readFramePresentationDelay seq hdr) (\<lambda>hdr.
     if sh_FrameIDNumbersPresent seq then
       rbind (ReadBits (FrameIDBits seq)) (\<lambda>v. rret (hdr\<lparr>fh_FrameID := ucast v\<rparr>))
     else rret hdr))"

definition parseFrameTypeAndVisibility :: "SequenceHeader \<Rightarrow> FrameHeaderPrefix \<Rightarrow> FrameHeaderPrefix rd" where
  "parseFrameTypeAndVisibility seq hdr =
     rbind (ReadBits 2) (\<lambda>v. let hdr = hdr\<lparr>fh_FrameType := FrameType_of v\<rparr> in
     rbind ReadBool (\<lambda>b. let hdr = hdr\<lparr>fh_ShowFrame := b\<rparr> in
     if sh_StillPicture seq \<and> (fh_FrameType hdr \<noteq> FrameTypeKey \<or> \<not> fh_ShowFrame hdr) then rfail ErrInvalidFrameHeader
     else
       rbind (if fh_ShowFrame hdr then
                rbind (readFramePresentationDelay seq hdr) (\<lambda>hdr.
                rret (hdr\<lparr>fh_ShowableFrame := (fh_FrameType hdr \<noteq> FrameTypeKey)\<rparr>))
              else rbind ReadBool (\<lambda>b. rret (hdr\<lparr>fh_ShowableFrame := b\<rparr>))) (\<lambda>hdr.
       if fh_FrameType hdr = FrameTypeSwitch \<or> (fh_FrameType hdr = FrameTypeKey \<and> fh_ShowFrame hdr)
       then rret (hdr\<lparr>fh_ErrorResilientMode := True\<rparr>)
       else rbind ReadBool (\<lambda>b. rret (hdr\<lparr>fh_ErrorResilientMode := b\<rparr>)))))"

definition parseFrameHeaderFeatureFlags :: "SequenceHeader \<Rightarrow> FrameHeaderPrefix \<Rightarrow> FrameHeaderPrefix rd" where
  "parseFrameHeaderFeatureFlags seq hdr =
     rbind ReadBool (\<lambda>b. let hdr = hdr\<lparr>fh_DisableCDFUpdate := b\<rparr> in
     rbind (if sh_SeqForceScreenContentTools seq = SelectScreenContentTools then
              rbind ReadBool (\<lambda>b. rret (hdr\<lparr>fh_AllowScreenContentTools := b\<rparr>))
            else rret (hdr\<lparr>fh_AllowScreenContentTools := (sh_SeqForceScreenContentTools seq \<noteq> 0)\<rparr>)) (\<lambda>hdr.
     rbind (if fh_AllowScreenContentTools hdr then
              if sh_SeqForceIntegerMV seq = SelectIntegerMV then
                rbind ReadBool (\<lambda>b. rret (hdr\<lparr>fh_ForceIntegerMV := b\<rparr>))
              else rret (hdr\<lparr>fh_ForceIntegerMV := (sh_SeqForceIntegerMV seq \<noteq> 0)\<rparr>)
            else rret hdr) (\<lambda>hdr.
     if frameTypeIsKeyOrIntra (fh_FrameType hdr) then rret (hdr\<lparr>fh_ForceIntegerMV := True\<rparr>)
     else rret hdr)))"

definition parseFrameHeaderReferencePrefix :: "SequenceHeader \<Rightarrow> FrameHeaderPrefix \<Rightarrow> FrameHeaderPrefix rd" where
  "parseFrameHeaderReferencePrefix seq hdr =
     (if sh_ReducedStillPictureHeader seq then rret hdr
      else
        rbind (if sh_FrameIDNumbersPresent seq then
                 rbind (ReadBits (FrameIDBits seq)) (\<lambda>v. rret (hdr\<lparr>fh_FrameID := ucast v\<rparr>))
               else rret hdr) (\<lambda>hdr.
        rbind (if fh_FrameType hdr = FrameTypeSwitch then rret (hdr\<lparr>fh_FrameSizeOverride := True\<rparr>)
               else rbind ReadBool (\<lambda>b. rret (hdr\<lparr>fh_FrameSizeOverride := b\<rparr>))) (\<lambda>hdr.
        rbind (if sh_EnableOrderHint seq then
                 rbind (ReadBits (sh_OrderHintBits seq)) (\<lambda>v. rret (hdr\<lparr>fh_OrderHint := ucast v\<rparr>))
               else rret hdr) (\<lambda>hdr.
        if \<not> fh_ErrorResilientMode hdr \<and> frameTypeIsInterOrSwitch (fh_FrameType hdr) then
          rbind (ReadBits 3) (\<lambda>v. rret (hdr\<lparr>fh_PrimaryRefFrame := ucast v\<rparr>))
        else rret hdr))))"

definition ParseFrameHeaderPrefix_body :: "SequenceHeader \<Rightarrow> FrameHeaderPrefix rd" where
  "ParseFrameHeaderPrefix_body seq =
     (let hdr = zero_FrameHeaderPrefix\<lparr>fh_PrimaryRefFrame := PrimaryRefNone\<rparr> in
     rbind (if \<not> sh_ReducedStillPictureHeader seq then
              rbind ReadBool (\<lambda>b. rret (hdr\<lparr>fh_ShowExistingFrame := b\<rparr>))
            else rret hdr) (\<lambda>hdr.
     if fh_ShowExistingFrame hdr then
       rbind (parseShowExistingFrameHeader seq hdr) (\<lambda>hdr.
       rbind readerBitsRead (\<lambda>bitsRead. rret (hdr\<lparr>fh_BitsRead := bitsRead\<rparr>)))
     else
       rbind (if sh_ReducedStillPictureHeader seq then
                rret (hdr\<lparr>fh_FrameType := FrameTypeKey, fh_ShowFrame := True, fh_ShowableFrame := False,
                          fh_ErrorResilientMode := True\<rparr>)
              else parseFrameTypeAndVisibility seq hdr) (\<lambda>hdr.
       rbind (parseFrameHeaderFeatureFlags seq hdr) (\<lambda>hdr.
       rbind (parseFrameHeaderReferencePrefix seq hdr) (\<lambda>hdr.
       rbind readerBitsRead (\<lambda>bitsRead. rret (hdr\<lparr>fh_BitsRead := bitsRead\<rparr>)))))))"

definition ParseFrameHeaderPrefix :: "bytes \<Rightarrow> SequenceHeader \<Rightarrow> go_err + FrameHeaderPrefix" where
  "ParseFrameHeaderPrefix payload seq = fst (ParseFrameHeaderPrefix_body seq (NewReader payload))"

definition UsesIntraFrameSizePath :: "FrameHeaderPrefix \<Rightarrow> bool" where
  "UsesIntraFrameSizePath h = (if fh_ShowExistingFrame h then False else frameTypeIsKeyOrIntra (fh_FrameType h))"

section \<open>The prefix as a stage\<close>

lemma forward_ParseFrameHeaderPrefix_body [rd_safe]: "forward (ParseFrameHeaderPrefix_body seq)"
  unfolding ParseFrameHeaderPrefix_body_def parseShowExistingFrameHeader_def readFramePresentationDelay_def
    parseFrameTypeAndVisibility_def parseFrameHeaderFeatureFlags_def parseFrameHeaderReferencePrefix_def
  by (intro rd_safe)

interpretation prefix_stage: header_stage "ParseFrameHeaderPrefix_body seq" fh_BitsRead for seq
  by (rule header_stageI [OF forward_ParseFrameHeaderPrefix_body])
    (auto simp: ParseFrameHeaderPrefix_body_def intro!: rd_reports reports_end)

lemma on_payload_0: "on_payload payload 0 m = fst (m (NewReader payload))"
  by (simp add: on_payload_def skipBitsRead_def SkipBits_def rbind_def BitsRemaining_def NewReader_def)

lemma ParseFrameHeaderPrefix_bounds:
  "ParseFrameHeaderPrefix payload seq = Inr hdr \<Longrightarrow> unat (fh_BitsRead hdr) \<le> 8 * length payload"
  using prefix_stage.stage_bounds [of payload 0 seq hdr] by (simp add: ParseFrameHeaderPrefix_def on_payload_0)

section \<open>Well-formed prefixes\<close>

text \<open>What the AV1 specification requires of the control fields.\<close>

definition prefix_ok :: "SequenceHeader \<Rightarrow> FrameHeaderPrefix \<Rightarrow> bool" where
  "prefix_ok seq hdr \<longleftrightarrow>
     unat (fh_ExistingFrameIdx hdr) < 8 \<and> unat (fh_PrimaryRefFrame hdr) \<le> 7 \<and>
     (fh_ErrorResilientMode hdr \<or> frameTypeIsKeyOrIntra (fh_FrameType hdr) \<longrightarrow> fh_PrimaryRefFrame hdr = PrimaryRefNone) \<and>
     unat (fh_FrameID hdr) < 2 ^ unat (FrameIDBits seq) \<and> unat (fh_OrderHint hdr) < 2 ^ unat (sh_OrderHintBits seq) \<and>
     (sh_ReducedStillPictureHeader seq \<longrightarrow> \<not> fh_ShowExistingFrame hdr) \<and>
     (sh_StillPicture seq \<and> \<not> fh_ShowExistingFrame hdr \<longrightarrow> fh_FrameType hdr = FrameTypeKey \<and> fh_ShowFrame hdr) \<and>
     (\<not> fh_ShowExistingFrame hdr \<and> (fh_FrameType hdr = FrameTypeSwitch \<or> fh_FrameType hdr = FrameTypeKey \<and> fh_ShowFrame hdr) \<longrightarrow>
        fh_ErrorResilientMode hdr) \<and>
     (\<not> fh_ShowExistingFrame hdr \<and> frameTypeIsKeyOrIntra (fh_FrameType hdr) \<longrightarrow> fh_ForceIntegerMV hdr) \<and>
     (sh_SeqForceScreenContentTools seq = 0 \<longrightarrow> \<not> fh_AllowScreenContentTools hdr)"

text \<open>What the frame type decides, kept by the later fields.\<close>

definition prefix_kind_ok :: "SequenceHeader \<Rightarrow> FrameHeaderPrefix \<Rightarrow> bool" where
  "prefix_kind_ok seq hdr \<longleftrightarrow> \<not> fh_ShowExistingFrame hdr \<and> fh_PrimaryRefFrame hdr = PrimaryRefNone \<and> fh_FrameID hdr = 0 \<and>
     fh_OrderHint hdr = 0 \<and> fh_ExistingFrameIdx hdr = 0 \<and>
     (sh_StillPicture seq \<longrightarrow> fh_FrameType hdr = FrameTypeKey \<and> fh_ShowFrame hdr) \<and>
     (fh_FrameType hdr = FrameTypeSwitch \<or> fh_FrameType hdr = FrameTypeKey \<and> fh_ShowFrame hdr \<longrightarrow> fh_ErrorResilientMode hdr)"

definition prefix_flags_ok :: "SequenceHeader \<Rightarrow> FrameHeaderPrefix \<Rightarrow> bool" where
  "prefix_flags_ok seq hdr \<longleftrightarrow> (frameTypeIsKeyOrIntra (fh_FrameType hdr) \<longrightarrow> fh_ForceIntegerMV hdr) \<and>
     (sh_SeqForceScreenContentTools seq = 0 \<longrightarrow> \<not> fh_AllowScreenContentTools hdr)"

lemma rpost_parseFrameTypeAndVisibility:
  assumes "hdr = zero_FrameHeaderPrefix\<lparr>fh_PrimaryRefFrame := PrimaryRefNone\<rparr>"
  shows "rpost (parseFrameTypeAndVisibility seq hdr) (prefix_kind_ok seq)"
  unfolding parseFrameTypeAndVisibility_def readFramePresentationDelay_def
  by (intro rd_post) (auto simp: assms prefix_kind_ok_def zero_FrameHeaderPrefix_def)

lemma rpost_parseFrameHeaderFeatureFlags:
  assumes "prefix_kind_ok seq hdr"
  shows "rpost (parseFrameHeaderFeatureFlags seq hdr) (\<lambda>h. prefix_kind_ok seq h \<and> prefix_flags_ok seq h)"
  unfolding parseFrameHeaderFeatureFlags_def
  by (intro rd_post) (use assms in \<open>auto simp: prefix_kind_ok_def prefix_flags_ok_def seq_consts\<close>)

lemma u8_field: "unat (v :: u64) < 2 ^ unat (n :: u8) \<Longrightarrow> unat (ucast v :: u8) < 2 ^ unat n"
  by (metis le_less_trans take_bit_nat_less_eq_self unsigned_ucast_eq)

lemma u16_field: "unat (v :: u64) < 2 ^ unat (n :: u8) \<Longrightarrow> unat (ucast v :: u16) < 2 ^ unat n"
  by (metis le_less_trans take_bit_nat_less_eq_self unsigned_ucast_eq)

lemma rpost_parseFrameHeaderReferencePrefix:
  assumes "prefix_kind_ok seq hdr" "prefix_flags_ok seq hdr"
  shows "rpost (parseFrameHeaderReferencePrefix seq hdr) (prefix_ok seq)"
proof -
  have ok: "prefix_ok seq h" if "\<not> fh_ShowExistingFrame h" "fh_ExistingFrameIdx h = 0" "prefix_flags_ok seq h"
      "sh_StillPicture seq \<longrightarrow> fh_FrameType h = FrameTypeKey \<and> fh_ShowFrame h"
      "fh_FrameType h = FrameTypeSwitch \<or> fh_FrameType h = FrameTypeKey \<and> fh_ShowFrame h \<longrightarrow> fh_ErrorResilientMode h"
      "fh_PrimaryRefFrame h = PrimaryRefNone \<or> unat (fh_PrimaryRefFrame h) < 2 ^ 3 \<and> \<not> fh_ErrorResilientMode h \<and>
        frameTypeIsInterOrSwitch (fh_FrameType h)"
      "unat (fh_FrameID h) < 2 ^ unat (FrameIDBits seq)" "unat (fh_OrderHint h) < 2 ^ unat (sh_OrderHintBits seq)" for h
    using that unfolding prefix_ok_def prefix_flags_ok_def frameTypeIsInterOrSwitch_def frameTypeIsKeyOrIntra_def
    by (auto simp: PrimaryRefNone_def)
  show ?thesis
    unfolding parseFrameHeaderReferencePrefix_def
    by (intro rd_post ok)
      (use assms in \<open>simp_all add: prefix_kind_ok_def prefix_flags_ok_def u16_field u8_field u8_of_small [of _ 8]\<close>)
qed

lemma rpost_ParseFrameHeaderPrefix_body: "rpost (ParseFrameHeaderPrefix_body seq) (prefix_ok seq)"
proof -
  let ?z = "zero_FrameHeaderPrefix\<lparr>fh_PrimaryRefFrame := PrimaryRefNone\<rparr>"
  have bits: "prefix_ok seq (h\<lparr>fh_BitsRead := b\<rparr>) = prefix_ok seq h" for h b by (simp add: prefix_ok_def)
  have e: "rpost (parseShowExistingFrameHeader seq (?z\<lparr>fh_ShowExistingFrame := True\<rparr>)) (prefix_ok seq)"
    if "\<not> sh_ReducedStillPictureHeader seq"
    unfolding parseShowExistingFrameHeader_def readFramePresentationDelay_def
    by (intro rd_post) (use that in \<open>simp_all add: prefix_ok_def zero_FrameHeaderPrefix_def PrimaryRefNone_def u16_field u8_of_small [of _ 8]\<close>)
  have k: "rpost (if sh_ReducedStillPictureHeader seq then rret (?z\<lparr>fh_FrameType := FrameTypeKey, fh_ShowFrame := True,
      fh_ShowableFrame := False, fh_ErrorResilientMode := True\<rparr>) else parseFrameTypeAndVisibility seq (?z\<lparr>fh_ShowExistingFrame := False\<rparr>))
      (prefix_kind_ok seq)"
    by (intro rd_post rpost_parseFrameTypeAndVisibility) (simp_all add: prefix_kind_ok_def zero_FrameHeaderPrefix_def)
  have z: "?z\<lparr>fh_ShowExistingFrame := False\<rparr> = ?z" "\<not> fh_ShowExistingFrame ?z" by (simp_all add: zero_FrameHeaderPrefix_def)
  have tl: "rpost (rbind (parseFrameHeaderFeatureFlags seq h) (\<lambda>hdr. rbind (parseFrameHeaderReferencePrefix seq hdr) (\<lambda>hdr.
       rbind readerBitsRead (\<lambda>bitsRead. rret (hdr\<lparr>fh_BitsRead := bitsRead\<rparr>))))) (prefix_ok seq)" if "prefix_kind_ok seq h" for h
    by (rule rpost_rbind [OF rpost_parseFrameHeaderFeatureFlags [OF that]], rule rpost_rbind [OF rpost_parseFrameHeaderReferencePrefix],
        auto intro!: rpost_rbind [OF rpost_any [where P = "\<lambda>_. True"]] rpost_rret simp: bits)
  show ?thesis
    unfolding ParseFrameHeaderPrefix_body_def Let_def
  proof (cases "sh_ReducedStillPictureHeader seq", goal_cases)
    case 1
    then show ?case using rpost_rbind [OF k tl] by (simp add: z rpost_bind_rret)
  next
    case 2
    have "rpost (rbind (parseShowExistingFrameHeader seq (?z\<lparr>fh_ShowExistingFrame := True\<rparr>)) (\<lambda>hdr.
        rbind readerBitsRead (\<lambda>bitsRead. rret (hdr\<lparr>fh_BitsRead := bitsRead\<rparr>)))) (prefix_ok seq)"
      by (rule rpost_rbind [OF e [OF 2]]) (auto intro!: rpost_rbind [OF rpost_any [where P = "\<lambda>_. True"]] rpost_rret simp: bits)
    moreover have "rpost (rbind (parseFrameTypeAndVisibility seq (?z\<lparr>fh_ShowExistingFrame := False\<rparr>)) (\<lambda>h.
         rbind (parseFrameHeaderFeatureFlags seq h) (\<lambda>hdr. rbind (parseFrameHeaderReferencePrefix seq hdr) (\<lambda>hdr.
         rbind readerBitsRead (\<lambda>bitsRead. rret (hdr\<lparr>fh_BitsRead := bitsRead\<rparr>)))))) (prefix_ok seq)"
      using rpost_rbind [OF k tl] 2 by simp
    ultimately show ?case using 2 by (auto simp: rbind_assoc intro!: rpost_bind_ReadBool rpost_bind_rret)
  qed
qed

text \<open>
  C31: every frame header prefix that the parser accepts is well formed: indices and order hints are in the
  ranges the sequence header sets, a still picture is a shown key frame, shown key frames and switch
  frames are error resilient, intra frames force integer motion vectors, and a primary reference
  frame is only ever named by a frame that may use one.
\<close>

theorem ParseFrameHeaderPrefix_ok:
  assumes "ParseFrameHeaderPrefix payload seq = Inr hdr"
  shows "prefix_ok seq hdr \<and> unat (fh_BitsRead hdr) \<le> 8 * length payload"
  using ParseFrameHeaderPrefix_bounds [OF assms] rpostD [OF rpost_ParseFrameHeaderPrefix_body]
    fst_Inr [OF assms [unfolded ParseFrameHeaderPrefix_def]] by blast

theorem ParseFrameHeaderPrefix_ok_witness:
  "\<exists>hdr. ParseFrameHeaderPrefix [0x10, 0] zero_SequenceHeader = Inr hdr \<and> prefix_ok zero_SequenceHeader hdr"
proof -
  have "case ParseFrameHeaderPrefix [0x10, 0] zero_SequenceHeader of Inr _ \<Rightarrow> True | Inl _ \<Rightarrow> False" by code_simp
  then obtain hdr where "ParseFrameHeaderPrefix [0x10, 0] zero_SequenceHeader = Inr hdr"
    by (cases "ParseFrameHeaderPrefix [0x10, 0] zero_SequenceHeader") auto
  with ParseFrameHeaderPrefix_ok [OF this] show ?thesis by blast
qed

end
