(* ===== verification/Frame_Size.thy ===== *)
theory Frame_Size
  imports Frame_Prefix "HOL-Library.Multiset"
begin

text \<open>
  \<open>internal/av1/parser/frame_size.go\<close>: frame dimensions, super-resolution and the choice of the
  reference frames, with the derivation of all seven references from two of them (\<open>short
  signalling\<close>, AV1 specification 7.8).
\<close>

section \<open>Order hints and frame identifiers\<close>

definition relativeOrderHint :: "u8 \<Rightarrow> u8 \<Rightarrow> u8 \<Rightarrow> int" where
  "relativeOrderHint bits a b =
     (if bits = 0 then 0
      else
        let msk = i32 (push_bit (unat (bits - 1)) 1);
            diff = i32 (uint a - uint b)
        in i16 ((diff AND (msk - 1)) - (diff AND msk)))"

definition expectedReferenceFrameID :: "u16 \<Rightarrow> u16 \<Rightarrow> u8 \<Rightarrow> u16" where
  "expectedReferenceFrameID current delta bits =
     (let m = push_bit (unat bits) 1 :: u32
      in ucast ((ucast current + m - ucast delta) AND (m - 1)))"

section \<open>Frame dimensions\<close>

definition superResCodedWidth :: "u32 \<Rightarrow> u8 \<Rightarrow> u32" where
  "superResCodedWidth upscaledWidth denominator =
     (let w = (upscaledWidth * 8 + ucast (drop_bit 1 denominator)) div ucast denominator;
          minWidth = min upscaledWidth 16
      in if w < minWidth then minWidth else w)"

definition parseSuperRes :: "SequenceHeader \<Rightarrow> FrameSize \<Rightarrow> FrameSize rd" where
  "parseSuperRes seq sz =
     (let sz = sz\<lparr>fs_SuperResEnabled := False, fs_SuperResDenominator := 8\<rparr> in
     rbind (if sh_EnableSuperRes seq then
              rbind ReadBool (\<lambda>enabled. let sz = sz\<lparr>fs_SuperResEnabled := enabled\<rparr> in
              if enabled then rbind (ReadBits 3) (\<lambda>v. rret (sz\<lparr>fs_SuperResDenominator := ucast (v + 9)\<rparr>))
              else rret sz)
            else rret sz) (\<lambda>sz.
     if fs_SuperResEnabled sz
     then rret (sz\<lparr>fs_CodedWidth := superResCodedWidth (fs_UpscaledWidth sz) (fs_SuperResDenominator sz)\<rparr>)
     else rret (sz\<lparr>fs_CodedWidth := fs_UpscaledWidth sz\<rparr>)))"

definition parseFrameDimensions :: "SequenceHeader \<Rightarrow> FrameHeaderPrefix \<Rightarrow> FrameSize \<Rightarrow> FrameSize rd" where
  "parseFrameDimensions seq prefix sz =
     rbind (if fh_FrameSizeOverride prefix then
              rbind (ReadBits (sh_FrameWidthBits seq)) (\<lambda>w.
              rbind (ReadBits (sh_FrameHeightBits seq)) (\<lambda>h.
              let sz = sz\<lparr>fs_UpscaledWidth := ucast (w + 1), fs_Height := ucast (h + 1)\<rparr> in
              if fs_UpscaledWidth sz > sh_MaxFrameWidth seq \<or> fs_Height sz > sh_MaxFrameHeight seq
              then rfail ErrInvalidFrameHeader else rret sz))
            else rret (sz\<lparr>fs_UpscaledWidth := sh_MaxFrameWidth seq, fs_Height := sh_MaxFrameHeight seq\<rparr>)) (\<lambda>sz.
     rbind (parseSuperRes seq sz) (\<lambda>sz.
     rbind ReadBool (\<lambda>haveRenderSize. let sz = sz\<lparr>fs_HaveRenderSize := haveRenderSize\<rparr> in
     if haveRenderSize then
       rbind (ReadBits 16) (\<lambda>w.
       rbind (ReadBits 16) (\<lambda>h.
       rret (sz\<lparr>fs_RenderWidth := ucast (w + 1), fs_RenderHeight := ucast (h + 1)\<rparr>)))
     else rret (sz\<lparr>fs_RenderWidth := fs_UpscaledWidth sz, fs_RenderHeight := fs_Height sz\<rparr>))))"

text \<open>The loop over the references, with the index and the rounds left.\<close>

primrec parseFrameDimensionsWithRefs_loop ::
    "nat \<Rightarrow> nat \<Rightarrow> SequenceHeader \<Rightarrow> FrameHeaderPrefix \<Rightarrow> ReferenceState \<Rightarrow> FrameSize \<Rightarrow> FrameSize rd" where
  "parseFrameDimensionsWithRefs_loop 0 i seq prefix refs sz = parseFrameDimensions seq prefix sz"
| "parseFrameDimensionsWithRefs_loop (Suc k) i seq prefix refs sz =
     rbind ReadBool (\<lambda>use.
     if \<not> use then parseFrameDimensionsWithRefs_loop k (i + 1) seq prefix refs sz
     else
       let ref = rst_Frames refs ! unat (fs_RefFrameIdx sz ! i) in
       if \<not> rf_Valid ref \<or> fs_UpscaledWidth (rf_Size ref) = 0 \<or> fs_Height (rf_Size ref) = 0
       then rfail ErrReferenceFrameNeeded
       else
         let sz = sz\<lparr>fs_CodedWidth := fs_CodedWidth (rf_Size ref), fs_UpscaledWidth := fs_UpscaledWidth (rf_Size ref),
                     fs_Height := fs_Height (rf_Size ref), fs_RenderWidth := fs_RenderWidth (rf_Size ref),
                     fs_RenderHeight := fs_RenderHeight (rf_Size ref), fs_HaveRenderSize := fs_HaveRenderSize (rf_Size ref),
                     fs_SuperResDenominator := 8\<rparr> in
         rbind (parseSuperRes seq sz) (\<lambda>sz.
         rret (sz\<lparr>fs_UsedReferenceFrameSize := True, fs_ReferenceFrameSizeIdx := word_of_nat i\<rparr>)))"

definition parseFrameDimensionsWithRefs ::
    "SequenceHeader \<Rightarrow> FrameHeaderPrefix \<Rightarrow> ReferenceState \<Rightarrow> FrameSize \<Rightarrow> FrameSize rd" where
  "parseFrameDimensionsWithRefs = parseFrameDimensionsWithRefs_loop InterRefsPerFrame 0"

section \<open>Short signalling\<close>

record shortRefInfo =
  sr_mapIdx :: u8
  sr_sortIdx :: int

definition shortRef_greater :: "shortRefInfo \<Rightarrow> shortRefInfo \<Rightarrow> bool" where
  "shortRef_greater a v \<longleftrightarrow> sr_sortIdx a > sr_sortIdx v \<or> (sr_sortIdx a = sr_sortIdx v \<and> sr_mapIdx a > sr_mapIdx v)"

text \<open>The inner loop of the insertion sort: elements above \<open>v\<close> move one place up, then \<open>v\<close> is stored.\<close>

primrec sortShortRefInfo_shift :: "shortRefInfo \<Rightarrow> nat \<Rightarrow> shortRefInfo list \<Rightarrow> shortRefInfo list" where
  "sortShortRefInfo_shift v 0 info = info[0 := v]"
| "sortShortRefInfo_shift v (Suc j) info =
     (if shortRef_greater (info ! j) v then sortShortRefInfo_shift v j (info[Suc j := info ! j])
      else info[Suc j := v])"

definition sortShortRefInfo :: "shortRefInfo list \<Rightarrow> shortRefInfo list" where
  "sortShortRefInfo info = foldl (\<lambda>info i. sortShortRefInfo_shift (info ! i) i info) info [1..<length info]"

definition assignRef :: "FrameSize \<times> bool list \<Rightarrow> nat \<Rightarrow> u8 \<Rightarrow> FrameSize \<times> bool list" where
  "assignRef s slot mapIdx =
     (case s of (sz, set') \<Rightarrow> (sz\<lparr>fs_RefFrameIdx := (fs_RefFrameIdx sz)[slot := mapIdx]\<rparr>, set'[slot := True]))"

text \<open>The first loop: sort indices of all slots, and those of the last and the golden frame.\<close>

fun shortRefInfo_loop ::
    "SequenceHeader \<Rightarrow> FrameHeaderPrefix \<Rightarrow> ReferenceState \<Rightarrow> u8 \<Rightarrow> u8 \<Rightarrow> int \<Rightarrow> nat list \<Rightarrow>
       shortRefInfo list \<Rightarrow> int \<Rightarrow> int \<Rightarrow> go_err + shortRefInfo list \<times> int \<times> int" where
  "shortRefInfo_loop seq prefix refs lst golden cur [] info lastIdx goldenIdx = Inr (info, lastIdx, goldenIdx)"
| "shortRefInfo_loop seq prefix refs lst golden cur (i # is) info lastIdx goldenIdx =
     (let ref = rst_Frames refs ! i in
      if \<not> rf_Valid ref then Inl ErrReferenceFrameNeeded
      else
        let v = \<lparr>sr_mapIdx = word_of_nat i,
                 sr_sortIdx = i16 (cur + relativeOrderHint (sh_OrderHintBits seq) (rf_OrderHint ref) (fh_OrderHint prefix))\<rparr>
        in shortRefInfo_loop seq prefix refs lst golden cur is (info @ [v])
             (if sr_mapIdx v = lst then sr_sortIdx v else lastIdx)
             (if sr_mapIdx v = golden then sr_sortIdx v else goldenIdx))"

text \<open>The loop that finds the last frame before the current one.\<close>

fun shortRef_split :: "shortRefInfo list \<Rightarrow> int \<Rightarrow> nat list \<Rightarrow> int \<Rightarrow> int \<Rightarrow> int \<times> int" where
  "shortRef_split info cur [] fwdStart fwdEnd = (fwdStart, fwdEnd)"
| "shortRef_split info cur (i # is) fwdStart fwdEnd =
     (if sr_sortIdx (info ! i) = - 1 then shortRef_split info cur is (fwdStart + 1) fwdEnd
      else if sr_sortIdx (info ! i) \<ge> cur then (fwdStart, int i - 1)
      else shortRef_split info cur is fwdStart fwdEnd)"

text \<open>The loop that assigns the last and the golden frame.\<close>

definition shortRef_named :: "shortRefInfo list \<Rightarrow> u8 \<Rightarrow> u8 \<Rightarrow> int \<Rightarrow> int \<Rightarrow> FrameSize \<times> bool list \<Rightarrow> FrameSize \<times> bool list" where
  "shortRef_named info lst golden fwdStart fwdEnd s = foldl (\<lambda>s i.
     let m = sr_mapIdx (info ! nat i);
         s = (if m = lst then assignRef s 0 m else s)
     in if m = golden then assignRef s 3 m else s) s [fwdStart..fwdEnd]"

function shortRef_skip :: "shortRefInfo list \<Rightarrow> u8 \<Rightarrow> u8 \<Rightarrow> int \<Rightarrow> int \<Rightarrow> int" where
  "shortRef_skip info lst golden fwdStart fwdEnd =
     (if fwdStart \<le> fwdEnd \<and> (sr_mapIdx (info ! nat fwdEnd) = lst \<or> sr_mapIdx (info ! nat fwdEnd) = golden)
      then shortRef_skip info lst golden fwdStart (fwdEnd - 1) else fwdEnd)"
  by pat_completeness auto
termination
  by (relation "measure (\<lambda>(info, lst, golden, fwdStart, fwdEnd). nat (fwdEnd - fwdStart + 1))") auto

declare shortRef_skip.simps [simp del]

text \<open>The two loops over the remaining references; the first returns the slots it did not reach.\<close>

fun shortRef_fill :: "shortRefInfo list \<Rightarrow> u8 \<Rightarrow> u8 \<Rightarrow> int \<Rightarrow> nat list \<Rightarrow> int \<Rightarrow> FrameSize \<times> bool list \<Rightarrow>
    nat list \<times> int \<times> FrameSize \<times> bool list" where
  "shortRef_fill info lst golden fwdStart [] fwdEnd s = ([], fwdEnd, s)"
| "shortRef_fill info lst golden fwdStart (slot # slots) fwdEnd s =
     (if snd s ! slot then shortRef_fill info lst golden fwdStart slots fwdEnd s
      else
        let fwdEnd = shortRef_skip info lst golden fwdStart fwdEnd
        in if fwdStart > fwdEnd then (slot # slots, fwdEnd, s)
           else shortRef_fill info lst golden fwdStart slots (fwdEnd - 1)
                  (assignRef s slot (sr_mapIdx (info ! nat fwdEnd))))"

fun shortRef_rest :: "u8 \<Rightarrow> nat list \<Rightarrow> FrameSize \<times> bool list \<Rightarrow> FrameSize \<times> bool list" where
  "shortRef_rest m [] s = s"
| "shortRef_rest m (slot # slots) s = shortRef_rest m slots (if snd s ! slot then s else assignRef s slot m)"

definition shortRef_backward :: "shortRefInfo list \<Rightarrow> int \<Rightarrow> FrameSize \<times> bool list \<Rightarrow> FrameSize \<times> bool list" where
  "shortRef_backward info fwdEnd s =
     (let bwdStart = fwdEnd + 1;
          bwdEnd = int RefFrames - 1;
          (s, bwdEnd) = (if bwdStart \<le> bwdEnd then (assignRef s 6 (sr_mapIdx (info ! nat bwdEnd)), bwdEnd - 1) else (s, bwdEnd));
          (s, bwdStart) = (if bwdStart \<le> bwdEnd then (assignRef s 4 (sr_mapIdx (info ! nat bwdStart)), bwdStart + 1) else (s, bwdStart))
      in if bwdStart \<le> bwdEnd then assignRef s 5 (sr_mapIdx (info ! nat bwdStart)) else s)"

definition setShortFrameReferences ::
    "SequenceHeader \<Rightarrow> FrameHeaderPrefix \<Rightarrow> ReferenceState \<Rightarrow> u8 \<Rightarrow> u8 \<Rightarrow> FrameSize \<Rightarrow> go_err + FrameSize" where
  "setShortFrameReferences seq prefix refs lst golden sz =
     (if unat lst \<ge> RefFrames \<or> unat golden \<ge> RefFrames then Inl ErrInvalidFrameHeader
      else
        let curSortIdx = i16 (push_bit (unat (sh_OrderHintBits seq - 1)) 1)
        in case shortRefInfo_loop seq prefix refs lst golden curSortIdx [0..<RefFrames] [] (- 1) (- 1) of
             Inl e \<Rightarrow> Inl e
           | Inr (info, lastSortIdx, goldenSortIdx) \<Rightarrow>
               if lastSortIdx = - 1 \<or> lastSortIdx \<ge> curSortIdx \<or> goldenSortIdx = - 1 \<or> goldenSortIdx \<ge> curSortIdx
               then Inl ErrInvalidFrameHeader
               else
                 let info = sortShortRefInfo info;
                     (fwdStart, fwdEnd) = shortRef_split info curSortIdx [0..<RefFrames] 0 (int RefFrames - 1);
                     s = shortRef_backward info fwdEnd (sz, replicate InterRefsPerFrame False);
                     s = shortRef_named info lst golden fwdStart fwdEnd s
                 in if \<not> snd s ! 0 \<or> \<not> snd s ! 3 then Inl ErrInvalidFrameHeader
                    else
                      let (slots, fwdEnd, s) = shortRef_fill info lst golden fwdStart [1, 2, 4, 5, 6] fwdEnd s
                      in if fwdStart > fwdEnd then Inl ErrInvalidFrameHeader
                         else
                           let s = shortRef_rest (sr_mapIdx (info ! nat fwdStart)) slots s
                           in if \<not> list_all (\<lambda>b. b) (snd s) then Inl ErrInvalidFrameHeader
                              else Inr (fst s))"

definition parseShortFrameReferences ::
    "SequenceHeader \<Rightarrow> FrameHeaderPrefix \<Rightarrow> ReferenceState \<Rightarrow> FrameSize \<Rightarrow> FrameSize rd" where
  "parseShortFrameReferences seq prefix refs sz =
     rbind (ReadBits 3) (\<lambda>lst.
     rbind (ReadBits 3) (\<lambda>golden.
     let sz = sz\<lparr>fs_LastFrameIdx := ucast lst, fs_GoldenFrameIdx := ucast golden\<rparr> in
     case setShortFrameReferences seq prefix refs (fs_LastFrameIdx sz) (fs_GoldenFrameIdx sz) sz of
       Inl e \<Rightarrow> rfail e
     | Inr sz \<Rightarrow> rret sz))"

section \<open>References\<close>

primrec parseInterReferences_loop ::
    "nat \<Rightarrow> nat \<Rightarrow> SequenceHeader \<Rightarrow> FrameHeaderPrefix \<Rightarrow> ReferenceState \<Rightarrow> FrameSize \<Rightarrow> FrameSize rd" where
  "parseInterReferences_loop 0 i seq prefix refs sz = rret sz"
| "parseInterReferences_loop (Suc k) i seq prefix refs sz =
     rbind (if \<not> fs_FrameRefsShortSignaling sz then
              rbind (ReadBits 3) (\<lambda>v. rret (sz\<lparr>fs_RefFrameIdx := (fs_RefFrameIdx sz)[i := ucast v]\<rparr>))
            else rret sz) (\<lambda>sz.
     let ref = rst_Frames refs ! unat (fs_RefFrameIdx sz ! i) in
     if \<not> rf_Valid ref then rfail ErrReferenceFrameNeeded
     else
       rbind (if sh_FrameIDNumbersPresent seq then
                rbind (ReadBits (sh_DeltaFrameIDLength seq)) (\<lambda>v.
                let sz = sz\<lparr>fs_DeltaFrameIDMinus1 := (fs_DeltaFrameIDMinus1 sz)[i := ucast v]\<rparr> in
                if rf_FrameID ref \<noteq> expectedReferenceFrameID (fh_FrameID prefix) (ucast v + 1) (FrameIDBits seq)
                then rfail ErrInvalidFrameHeader else rret sz)
              else rret sz) (\<lambda>sz.
       parseInterReferences_loop k (i + 1) seq prefix refs sz))"

definition parseInterReferences ::
    "SequenceHeader \<Rightarrow> FrameHeaderPrefix \<Rightarrow> ReferenceState \<Rightarrow> FrameSize \<Rightarrow> FrameSize rd" where
  "parseInterReferences seq prefix refs sz =
     rbind (if sh_EnableOrderHint seq then
              rbind ReadBool (\<lambda>short. let sz = sz\<lparr>fs_FrameRefsShortSignaling := short\<rparr> in
              if short then parseShortFrameReferences seq prefix refs sz else rret sz)
            else rret sz) (\<lambda>sz.
     parseInterReferences_loop InterRefsPerFrame 0 seq prefix refs sz)"

section \<open>The stage\<close>

primrec parseBufferRemovalTimes_loop :: "nat \<Rightarrow> nat \<Rightarrow> SequenceHeader \<Rightarrow> u8 \<Rightarrow> u8 \<Rightarrow> FrameSize \<Rightarrow> FrameSize rd" where
  "parseBufferRemovalTimes_loop 0 i seq temporalID spatialID sz = rret sz"
| "parseBufferRemovalTimes_loop (Suc k) i seq temporalID spatialID sz =
     (let op = sh_OperatingPoints seq ! i;
          inTemporalLayer = (drop_bit (unat temporalID) (op_IDC op) AND 1 \<noteq> 0);
          inSpatialLayer = (drop_bit (unat (spatialID + 8)) (op_IDC op) AND 1 \<noteq> 0)
      in if \<not> op_DecoderModelPresent op \<or> (op_IDC op \<noteq> 0 \<and> (\<not> inTemporalLayer \<or> \<not> inSpatialLayer))
         then parseBufferRemovalTimes_loop k (i + 1) seq temporalID spatialID sz
         else rbind (ReadBits (dm_BufferRemovalTimeLength (sh_DecoderModelInfo seq))) (\<lambda>v.
           parseBufferRemovalTimes_loop k (i + 1) seq temporalID spatialID
             (sz\<lparr>fs_BufferRemovalTimes := (fs_BufferRemovalTimes sz)[i := ucast v]\<rparr>)))"

definition parseBufferRemovalTimes :: "SequenceHeader \<Rightarrow> u8 \<Rightarrow> u8 \<Rightarrow> FrameSize \<Rightarrow> FrameSize rd" where
  "parseBufferRemovalTimes seq temporalID spatialID sz =
     (if \<not> sh_DecoderModelInfoPresent seq then rret sz
      else rbind ReadBool (\<lambda>present. let sz = sz\<lparr>fs_BufferRemovalTimePresent := present\<rparr> in
        if \<not> present then rret sz
        else parseBufferRemovalTimes_loop (unat (sh_OperatingPointsCount seq)) 0 seq temporalID spatialID sz))"

primrec parseRefOrderHints_loop :: "nat \<Rightarrow> nat \<Rightarrow> SequenceHeader \<Rightarrow> FrameSize \<Rightarrow> FrameSize rd" where
  "parseRefOrderHints_loop 0 i seq sz = rret sz"
| "parseRefOrderHints_loop (Suc k) i seq sz =
     rbind (ReadBits (sh_OrderHintBits seq)) (\<lambda>v.
     parseRefOrderHints_loop k (i + 1) seq (sz\<lparr>fs_RefOrderHints := (fs_RefOrderHints sz)[i := ucast v]\<rparr>))"

definition parseRefreshFrameFlags :: "SequenceHeader \<Rightarrow> FrameHeaderPrefix \<Rightarrow> FrameSize \<Rightarrow> FrameSize rd" where
  "parseRefreshFrameFlags seq prefix sz =
     rbind (if (fh_FrameType prefix = FrameTypeKey \<and> fh_ShowFrame prefix) \<or> fh_FrameType prefix = FrameTypeSwitch
            then rret (sz\<lparr>fs_RefreshFrameFlags := 0xff\<rparr>)
            else rbind (ReadBits 8) (\<lambda>v. let sz = sz\<lparr>fs_RefreshFrameFlags := ucast v\<rparr> in
              if fh_FrameType prefix = FrameTypeIntraOnly \<and> fs_RefreshFrameFlags sz = 0xff
              then rfail ErrInvalidFrameHeader else rret sz)) (\<lambda>sz.
     let readOrderHints = (fh_ErrorResilientMode prefix \<and> sh_EnableOrderHint seq \<and>
           (frameTypeIsInterOrSwitch (fh_FrameType prefix) \<or> fs_RefreshFrameFlags sz \<noteq> 0xff))
     in if readOrderHints then parseRefOrderHints_loop RefFrames 0 seq sz else rret sz)"

definition parseFrameSize_body ::
    "SequenceHeader \<Rightarrow> FrameHeaderPrefix \<Rightarrow> ReferenceState option \<Rightarrow> u8 \<Rightarrow> u8 \<Rightarrow> FrameSize rd" where
  "parseFrameSize_body seq prefix refs temporalID spatialID =
     rbind (parseBufferRemovalTimes seq temporalID spatialID zero_FrameSize) (\<lambda>sz.
     rbind (parseRefreshFrameFlags seq prefix sz) (\<lambda>sz.
     rbind (if frameTypeIsInterOrSwitch (fh_FrameType prefix) then
              (case refs of
                 None \<Rightarrow> rfail ErrReferenceFrameNeeded
               | Some refs \<Rightarrow>
                   rbind (parseInterReferences seq prefix refs sz) (\<lambda>sz.
                   if \<not> fh_ErrorResilientMode prefix \<and> fh_FrameSizeOverride prefix
                   then parseFrameDimensionsWithRefs seq prefix refs sz
                   else parseFrameDimensions seq prefix sz))
            else
              rbind (parseFrameDimensions seq prefix sz) (\<lambda>sz.
              if fh_AllowScreenContentTools prefix \<and> \<not> fs_SuperResEnabled sz
              then rbind ReadBool (\<lambda>allow. rret (sz\<lparr>fs_AllowIntrabc := allow\<rparr>))
              else rret sz)) (\<lambda>sz.
     rbind readerBitsRead (\<lambda>bitsRead. rret (sz\<lparr>fs_BitsRead := bitsRead\<rparr>)))))"

definition parseFrameSize ::
    "bytes \<Rightarrow> SequenceHeader \<Rightarrow> FrameHeaderPrefix \<Rightarrow> ReferenceState option \<Rightarrow> u8 \<Rightarrow> u8 \<Rightarrow> go_err + FrameSize" where
  "parseFrameSize payload seq prefix refs temporalID spatialID =
     on_payload payload (fh_BitsRead prefix) (parseFrameSize_body seq prefix refs temporalID spatialID)"

definition ParseIntraFrameSize :: "bytes \<Rightarrow> SequenceHeader \<Rightarrow> FrameHeaderPrefix \<Rightarrow> u8 \<Rightarrow> u8 \<Rightarrow> go_err + FrameSize" where
  "ParseIntraFrameSize payload seq prefix temporalID spatialID =
     (if \<not> UsesIntraFrameSizePath prefix then Inl ErrReferenceFrameNeeded
      else parseFrameSize payload seq prefix None temporalID spatialID)"

definition ParseFrameSize ::
    "bytes \<Rightarrow> SequenceHeader \<Rightarrow> FrameHeaderPrefix \<Rightarrow> ReferenceState option \<Rightarrow> u8 \<Rightarrow> u8 \<Rightarrow> go_err + FrameSize" where
  "ParseFrameSize payload seq prefix refs temporalID spatialID =
     (if fh_ShowExistingFrame prefix then Inl ErrInvalidFrameHeader
      else parseFrameSize payload seq prefix refs temporalID spatialID)"

section \<open>Order hints are differences modulo the order hint range\<close>

lemma sign_extend_masks: "((d :: int) AND (2 ^ n - 1)) - (d AND 2 ^ n) = signed_take_bit n d"
proof -
  have "d AND (2 ^ n - 1) = take_bit n d" by (simp add: take_bit_eq_mask mask_eq_exp_minus_1)
  moreover have "d AND 2 ^ n = of_bool (bit d n) * 2 ^ n"
    by (rule bit_eqI) (auto simp: bit_simps)
  moreover have "take_bit (Suc n) d = take_bit n d + of_bool (bit d n) * 2 ^ n"
    by (simp add: take_bit_Suc_from_most mult.commute)
  ultimately show ?thesis by (simp add: signed_take_bit_eq_take_bit_minus algebra_simps)
qed

lemma order_hint_bound:
  assumes "n \<le> 8" shows "- 128 \<le> signed_take_bit (n - 1) (k :: int) \<and> signed_take_bit (n - 1) k \<le> 128"
proof -
  have "(2 :: int) ^ (n - 1) \<le> 128" using power_increasing [of "n - 1" 7 "2 :: int"] assms by simp
  moreover have "- (2 ^ (n - 1)) \<le> signed_take_bit (n - 1) k" by (rule signed_take_bit_int_greater_eq_minus_exp)
  moreover have "signed_take_bit (n - 1) k < 2 ^ (n - 1)" by (rule signed_take_bit_int_less_exp)
  ultimately show ?thesis by linarith
qed

lemma relativeOrderHint_eq:
  assumes "bits \<noteq> 0" "bits \<le> 8"
  shows "relativeOrderHint bits a b = signed_take_bit (unat bits - 1) (uint a - uint b)"
proof -
  let ?n = "unat bits - 1" and ?d = "uint a - uint b"
  have "1 \<le> bits" using assms(1) by (simp add: word_one_le_iff)
  then have n: "unat (bits - 1) = ?n" "?n \<le> 7" using unat_pred [of bits] assms(2) by (simp_all add: word_le_nat_alt)
  have "(2 :: int) ^ ?n \<le> 128" using power_increasing [of ?n 7 "2 :: int"] n(2) by simp
  moreover have "(0 :: int) < 2 ^ ?n" by simp
  ultimately have m: "i32 (2 ^ ?n) = 2 ^ ?n" unfolding i32_def
    by (intro signed_take_bit_int_eq_self) (auto intro: order_trans [of _ 0])
  have "uint a < 256" "uint b < 256" using unsigned_less [of a, where 'a = int] unsigned_less [of b, where 'a = int] by simp_all
  moreover have "0 \<le> uint a" "0 \<le> uint b" by simp_all
  ultimately have "- 256 \<le> ?d" "?d \<le> 256" by linarith+
  then have "- (2 ^ 31) \<le> ?d" "?d < 2 ^ 31" by (auto intro: order_trans order_le_less_trans)
  then have d: "i32 ?d = ?d" by (rule i32_small)
  have "unat bits \<le> 8" using assms(2) by (simp add: word_le_nat_alt)
  from order_hint_bound [OF this, of ?d] have "- 32768 \<le> signed_take_bit ?n ?d" "signed_take_bit ?n ?d < 32768"
    by linarith+
  then have "i16 (signed_take_bit ?n ?d) = signed_take_bit ?n ?d" by (intro i16_small) simp_all
  then show ?thesis using assms(1) by (simp add: relativeOrderHint_def n(1) m d sign_extend_masks Let_def del: One_nat_def)
qed

lemma expectedReferenceFrameID_eq:
  assumes "unat bits \<le> 16" "unat current < 2 ^ unat bits" "unat delta \<le> 2 ^ unat bits"
  shows "int (unat (expectedReferenceFrameID current delta bits)) = (int (unat current) - int (unat delta)) mod 2 ^ unat bits"
proof -
  let ?n = "unat bits"
  have p: "(2 :: nat) ^ ?n \<le> 2 ^ 16" using assms(1) by (intro power_increasing) auto
  have m: "unat (push_bit ?n (1 :: u32)) = 2 ^ ?n" using assms(1) by (simp add: unat_pow2_u32)
  have mk: "push_bit ?n (1 :: u32) - 1 = mask ?n" by (simp add: mask_eq_exp_minus_1)
  have x: "unat (ucast current + push_bit ?n (1 :: u32)) = unat current + 2 ^ ?n"
    using p assms(2) m by (simp add: unat_word_ariths unat_ucast_up)
  then have "unat (ucast current + push_bit ?n (1 :: u32) - ucast delta) = unat current + 2 ^ ?n - unat delta"
    using assms(3) by (subst unat_sub) (simp_all add: word_le_nat_alt unat_ucast_up)
  then have "unat ((ucast current + push_bit ?n (1 :: u32) - ucast delta) AND (push_bit ?n 1 - 1)) =
      (unat current + 2 ^ ?n - unat delta) mod 2 ^ ?n"
    by (simp only: mk take_bit_eq_mask [symmetric] unsigned_take_bit_eq) (simp add: take_bit_eq_mod)
  moreover have "(unat current + 2 ^ ?n - unat delta) mod 2 ^ ?n < 2 ^ 16"
    using p by (meson mod_less_divisor order_less_le_trans zero_less_numeral zero_less_power)
  ultimately have "unat (expectedReferenceFrameID current delta bits) = (unat current + 2 ^ ?n - unat delta) mod 2 ^ ?n"
    by (simp add: expectedReferenceFrameID_def Let_def unsigned_ucast_eq take_bit_nat_eq_self)
  moreover have "int (c + 2 ^ ?n - d) = int c - int d + 2 ^ ?n" if "d \<le> 2 ^ ?n" for c d :: nat using that by (simp add: of_nat_diff)
  ultimately have "int (unat (expectedReferenceFrameID current delta bits)) = (int (unat current) - int (unat delta) + 2 ^ ?n) mod 2 ^ ?n"
    using assms(3) by (simp only: zmod_int of_nat_power of_nat_numeral)
  then show ?thesis by (simp only: mod_add_self2)
qed

section \<open>Super-resolution\<close>

lemma superResCodedWidth_unat:
  assumes "unat w \<le> 65536" "8 < unat d"
  shows "unat (superResCodedWidth w d) = max ((unat w * 8 + unat d div 2) div unat d) (min (unat w) 16)"
proof -
  have d: "unat (drop_bit (Suc 0) d) = unat d div 2" by (simp add: drop_bit_Suc unat_div)
  have d256: "unat d < 256" using unsigned_less [of d, where 'a = nat] by simp
  have "unat (w * 8) = unat w * 8" using assms(1) by (simp add: unat_word_ariths)
  then have "unat (w * 8 + ucast (drop_bit 1 d)) = unat w * 8 + unat d div 2"
    using assms(1) d256 by (simp add: unat_word_ariths unat_ucast_up d)
  then have q: "unat ((w * 8 + ucast (drop_bit 1 d)) div ucast d) = (unat w * 8 + unat d div 2) div unat d"
    by (simp add: unat_div unat_ucast_up)
  have m: "unat (min w 16) = min (unat w) 16" by (simp add: min_def word_le_nat_alt)
  show ?thesis
    unfolding superResCodedWidth_def Let_def using q m by (auto simp add: word_less_nat_alt max_def not_less)
qed

lemma superResCodedWidth_bounds:
  assumes "1 \<le> unat w" "unat w \<le> 65536" "8 < unat d" "unat d \<le> 16"
  shows "min (unat w) 16 \<le> unat (superResCodedWidth w d) \<and> unat (superResCodedWidth w d) \<le> unat w"
proof -
  have "unat w * 8 + unat d div 2 \<le> unat w * unat d + (unat d - 1)"
  proof -
    have "unat w * 8 \<le> unat w * unat d" using assms(3) by simp
    then show ?thesis using assms(3,4) by linarith
  qed
  then have "(unat w * 8 + unat d div 2) div unat d \<le> (unat w * unat d + (unat d - 1)) div unat d" by (rule div_le_mono)
  also have "\<dots> = unat w" using assms(3) by (subst div_mult_self3) simp_all
  finally show ?thesis using assms by (simp add: superResCodedWidth_unat)
qed

lemma superResCodedWidth_narrow:
  assumes "1 \<le> unat w" "unat w \<le> 16" "8 < unat d" "unat d \<le> 16"
  shows "superResCodedWidth w d = w"
  using superResCodedWidth_bounds [of w d] assms by (simp add: word_unat_eq_iff)

section \<open>The reference sort\<close>

definition shortRef_le :: "shortRefInfo \<Rightarrow> shortRefInfo \<Rightarrow> bool" where
  "shortRef_le a b \<longleftrightarrow> \<not> shortRef_greater a b"

lemma shortRef_le_trans: "shortRef_le a b \<Longrightarrow> shortRef_le b c \<Longrightarrow> shortRef_le a c"
  by (auto simp: shortRef_le_def shortRef_greater_def not_less)

lemma shortRef_greater_le: "shortRef_greater a b \<Longrightarrow> shortRef_le b a"
  by (auto simp: shortRef_le_def shortRef_greater_def)

lemma length_shift [simp]: "length (sortShortRefInfo_shift v j info) = length info"
  by (induction j arbitrary: info) auto

text \<open>One round puts the element at its place in the sorted part and leaves the rest alone.\<close>

lemma shift_spec:
  assumes "j < length info" "sorted_wrt shortRef_le (take j info)"
  shows "sorted_wrt shortRef_le (take (Suc j) (sortShortRefInfo_shift v j info)) \<and>
    mset (take (Suc j) (sortShortRefInfo_shift v j info)) = add_mset v (mset (take j info)) \<and>
    drop (Suc j) (sortShortRefInfo_shift v j info) = drop (Suc j) info"
  using assms
proof (induction j arbitrary: info)
  case 0
  then show ?case by (cases info) auto
next
  case (Suc j)
  have tk: "take (Suc j) info = take j info @ [info ! j]" using Suc.prems(1) by (simp add: take_Suc_conv_app_nth)
  with Suc.prems(2) have srt: "sorted_wrt shortRef_le (take j info)" "\<forall>x \<in> set (take j info). shortRef_le x (info ! j)"
    by (auto simp: sorted_wrt_append)
  show ?case
  proof (cases "shortRef_greater (info ! j) v")
    case True
    let ?i = "info[Suc j := info ! j]"
    have t: "take j ?i = take j info" by simp
    note ih = Suc.IH [of ?i, unfolded t, OF _ srt(1)]
    let ?r = "sortShortRefInfo_shift v j ?i"
    have r: "sorted_wrt shortRef_le (take (Suc j) ?r)" "mset (take (Suc j) ?r) = add_mset v (mset (take j info))"
        "drop (Suc j) ?r = drop (Suc j) ?i"
      using ih Suc.prems(1) by auto
    have top: "?r ! Suc j = info ! j"
      using r(3) Suc.prems(1) by (metis hd_drop_conv_nth length_list_update length_shift nth_list_update_eq)
    have tk2: "take (Suc (Suc j)) ?r = take (Suc j) ?r @ [info ! j]"
      using Suc.prems(1) top by (simp add: take_Suc_conv_app_nth)
    have "set (take (Suc j) ?r) = insert v (set (take j info))" using r(2) by (metis set_mset_add_mset_insert set_mset_mset)
    then have "\<forall>x \<in> set (take (Suc j) ?r). shortRef_le x (info ! j)"
      using srt(2) shortRef_greater_le [OF True] by auto
    moreover have "drop (Suc (Suc j)) ?r = drop (Suc (Suc j)) info"
      using r(3) by (metis drop_Suc drop_update_cancel lessI tl_drop)
    ultimately show ?thesis using True r tk2 by (simp add: sorted_wrt_append tk)
  next
    case False
    then have "shortRef_le (info ! j) v" by (simp add: shortRef_le_def)
    then have "\<forall>x \<in> set (take (Suc j) info). shortRef_le x v" using srt(2) tk shortRef_le_trans by auto
    then show ?thesis
      using False Suc.prems by (simp add: take_Suc_conv_app_nth [of "Suc j" "info[Suc j := v]"] sorted_wrt_append)
  qed
qed

definition sort_rounds :: "nat \<Rightarrow> shortRefInfo list \<Rightarrow> shortRefInfo list" where
  "sort_rounds n info = foldl (\<lambda>info i. sortShortRefInfo_shift (info ! i) i info) info [1..<n]"

lemma sort_rounds_Suc:
  "1 \<le> n \<Longrightarrow> sort_rounds (Suc n) info = sortShortRefInfo_shift (sort_rounds n info ! n) n (sort_rounds n info)"
  by (simp add: sort_rounds_def)

lemma sort_prefix:
  assumes "1 \<le> n" "n \<le> length info"
  shows "length (sort_rounds n info) = length info \<and> sorted_wrt shortRef_le (take n (sort_rounds n info)) \<and>
    mset (take n (sort_rounds n info)) = mset (take n info) \<and> drop n (sort_rounds n info) = drop n info"
  using assms
proof (induction n rule: dec_induct)
  case base
  then show ?case by (cases info) (auto simp: sort_rounds_def)
next
  case (step n)
  let ?r = "sort_rounds n info"
  have n: "n < length info" using step.prems by (rule Suc_le_lessD)
  then have ih: "length ?r = length info" "sorted_wrt shortRef_le (take n ?r)" "mset (take n ?r) = mset (take n info)"
      "drop n ?r = drop n info"
    using step.IH [OF less_imp_le [OF n]] by blast+
  have v: "?r ! n = info ! n" using ih(1,4) n by (metis hd_drop_conv_nth)
  have "n < length ?r" using ih(1) n by simp
  note s = shift_spec [OF this ih(2), of "?r ! n"]
  have "mset (take (Suc n) info) = add_mset (?r ! n) (mset (take n ?r))"
    unfolding take_Suc_conv_app_nth [OF n] ih(3) v by simp
  moreover have "drop (Suc n) ?r = drop (Suc n) info" using ih(4) by (metis drop_Suc tl_drop)
  moreover have "length (sortShortRefInfo_shift (?r ! n) n ?r) = length info" using ih(1) by simp
  ultimately show ?case using s by (simp add: sort_rounds_Suc [OF step.hyps(1)])
qed

lemma sortShortRefInfo_sorts:
  "sorted_wrt shortRef_le (sortShortRefInfo info) \<and> mset (sortShortRefInfo info) = mset info"
proof (cases "info = []")
  case False
  then have "1 \<le> length info" by (simp add: Suc_le_eq)
  from sort_prefix [OF this order_refl] show ?thesis unfolding sortShortRefInfo_def sort_rounds_def [symmetric] by auto
qed (simp add: sortShortRefInfo_def)

section \<open>Short signalling names valid slots\<close>

definition info_ok :: "shortRefInfo list \<Rightarrow> bool" where
  "info_ok info \<longleftrightarrow> length info = RefFrames \<and> (\<forall>v \<in> set info. unat (sr_mapIdx v) < RefFrames)"

text \<open>
  The state of the derivation: the slots of the frame size \<open>sz\<close> are replaced by valid ones, and the
  last and the golden frame, once set, are the signalled ones.
\<close>

definition short_inv :: "u8 \<Rightarrow> u8 \<Rightarrow> FrameSize \<Rightarrow> FrameSize \<times> bool list \<Rightarrow> bool" where
  "short_inv lst golden sz s \<longleftrightarrow> length (fs_RefFrameIdx (fst s)) = InterRefsPerFrame \<and> length (snd s) = InterRefsPerFrame \<and>
     (\<forall>i \<in> set (fs_RefFrameIdx (fst s)). unat i < RefFrames) \<and>
     (snd s ! 0 \<longrightarrow> fs_RefFrameIdx (fst s) ! 0 = lst) \<and> (snd s ! 3 \<longrightarrow> fs_RefFrameIdx (fst s) ! 3 = golden) \<and>
     (fst s)\<lparr>fs_RefFrameIdx := []\<rparr> = sz\<lparr>fs_RefFrameIdx := []\<rparr>"

lemma info_ok_nth: "info_ok info \<Longrightarrow> 0 \<le> i \<Longrightarrow> i < 8 \<Longrightarrow> unat (sr_mapIdx (info ! nat i)) < RefFrames"
  by (auto simp: info_ok_def frame_consts)

lemma short_inv_assignRef:
  assumes "short_inv lst golden sz s" "slot < 7" "unat m < RefFrames" "slot = 0 \<Longrightarrow> m = lst" "slot = 3 \<Longrightarrow> m = golden"
  shows "short_inv lst golden sz (assignRef s slot m)"
proof -
  have "set ((fs_RefFrameIdx (fst s))[slot := m]) \<subseteq> insert m (set (fs_RefFrameIdx (fst s)))" by (rule set_update_subset_insert)
  then have "\<forall>i \<in> set ((fs_RefFrameIdx (fst s))[slot := m]). unat i < RefFrames" using assms by (auto simp: short_inv_def)
  then show ?thesis using assms
    by (auto simp: short_inv_def assignRef_def frame_consts nth_list_update split: prod.splits)
qed

lemma short_inv_assign_other:
  assumes "short_inv lst golden sz s" "slot \<in> {1, 2, 4, 5, 6}" "unat m < RefFrames"
  shows "short_inv lst golden sz (assignRef s slot m)"
  using assms by (auto intro!: short_inv_assignRef)

lemma shortRef_split_range:
  assumes "shortRef_split info cur is fs fe = (fs', fe')" "\<forall>i \<in> set is. i < 8" "0 \<le> fs" "- 1 \<le> fe" "fe \<le> 7"
  shows "0 \<le> fs' \<and> - 1 \<le> fe' \<and> fe' \<le> 7"
  using assms by (induction info cur "is" fs fe rule: shortRef_split.induct) (auto split: if_splits)

lemma short_inv_named:
  assumes "short_inv lst golden sz s" "info_ok info" "0 \<le> fs" "fe \<le> 7"
  shows "short_inv lst golden sz (shortRef_named info lst golden fs fe s)"
  unfolding shortRef_named_def
proof (rule foldl_invariant [where P = "short_inv lst golden sz", OF _ assms(1)], goal_cases)
  case (1 s i)
  then have "unat (sr_mapIdx (info ! nat i)) < RefFrames" using info_ok_nth [OF assms(2), of i] assms(3,4) by auto
  then show ?case using 1 by (auto simp: Let_def intro!: short_inv_assignRef)
qed

lemma short_inv_backward:
  assumes "short_inv lst golden sz s" "info_ok info" "- 1 \<le> fe"
  shows "short_inv lst golden sz (shortRef_backward info fe s)"
  using assms info_ok_nth [OF assms(2), of 7]
  by (auto simp: shortRef_backward_def Let_def frame_consts
      intro!: short_inv_assign_other info_ok_nth [unfolded frame_consts])

lemma shortRef_skip_range: "shortRef_skip info lst golden fs fe \<le> fe"
  by (induction info lst golden fs fe rule: shortRef_skip.induct) (subst shortRef_skip.simps, auto)

lemma short_inv_fill:
  assumes "short_inv lst golden sz s" "info_ok info" "0 \<le> fs" "fe \<le> 7" "set slots \<subseteq> {1, 2, 4, 5, 6}"
    "shortRef_fill info lst golden fs slots fe s = (slots', fe', s')"
  shows "short_inv lst golden sz s' \<and> fe' \<le> 7 \<and> set slots' \<subseteq> {1, 2, 4, 5, 6} \<and> (snd s ! 0 \<longrightarrow> snd s' ! 0) \<and> (snd s ! 3 \<longrightarrow> snd s' ! 3)"
  using assms
proof (induction info lst golden fs slots fe s rule: shortRef_fill.induct)
  case (2 info lst golden fs slot slots fe s)
  let ?fe = "shortRef_skip info lst golden fs fe"
  have fe: "?fe \<le> 7" using shortRef_skip_range [of info lst golden fs fe] "2.prems" by linarith
  show ?case
  proof (cases "snd s ! slot \<or> fs > ?fe")
    case True
    then show ?thesis using 2 fe by (auto simp: Let_def split: if_splits)
  next
    case False
    let ?s = "assignRef s slot (sr_mapIdx (info ! nat ?fe))"
    have "unat (sr_mapIdx (info ! nat ?fe)) < RefFrames" using info_ok_nth [of info ?fe] "2.prems" False fe by auto
    then have "short_inv lst golden sz ?s" using "2.prems" by (auto intro!: short_inv_assignRef)
    moreover have "snd s ! 0 \<longrightarrow> snd ?s ! 0" "snd s ! 3 \<longrightarrow> snd ?s ! 3"
      using "2.prems" by (auto simp: assignRef_def nth_list_update split: prod.splits)
    ultimately show ?thesis using 2 False fe by (auto simp: Let_def)
  qed
qed auto

lemma short_inv_rest:
  assumes "short_inv lst golden sz s" "unat m < RefFrames" "set slots \<subseteq> {1, 2, 4, 5, 6}"
  shows "short_inv lst golden sz (shortRef_rest m slots s)"
  using assms
proof (induction slots arbitrary: s)
  case (Cons slot slots)
  then have "short_inv lst golden sz (assignRef s slot m)" by (auto intro!: short_inv_assignRef)
  then show ?case using Cons by auto
qed simp

lemma shortRefInfo_loop_ok:
  assumes "shortRefInfo_loop seq prefix refs lst golden cur is info l g = Inr (info', l', g')"
    "\<forall>i \<in> set is. i < 8" "\<forall>v \<in> set info. unat (sr_mapIdx v) < RefFrames"
  shows "length info' = length info + length is \<and> (\<forall>v \<in> set info'. unat (sr_mapIdx v) < RefFrames)"
  using assms
proof (induction seq prefix refs lst golden cur "is" info l g rule: shortRefInfo_loop.induct)
  case (2 seq prefix refs lst golden cur i "is" info l g)
  have "unat (word_of_nat i :: u8) < RefFrames" using 2(3) by (simp add: unat_of_nat take_bit_nat_eq_self frame_consts)
  then show ?case using 2 by (auto simp: Let_def split: if_splits)
qed auto

lemma short_inv_start:
  "length (fs_RefFrameIdx sz) = InterRefsPerFrame \<Longrightarrow> \<forall>i \<in> set (fs_RefFrameIdx sz). unat i < RefFrames \<Longrightarrow>
     short_inv lst golden sz (sz, replicate InterRefsPerFrame False)"
  by (simp add: short_inv_def frame_consts)

lemma mset_info_ok: "mset info' = mset info \<Longrightarrow> info_ok info \<Longrightarrow> info_ok info'"
  by (metis info_ok_def mset_eq_setD size_mset)

lemma setShortFrameReferences_inv:
  assumes "setShortFrameReferences seq prefix refs lst golden sz = Inr sz'"
    "length (fs_RefFrameIdx sz) = InterRefsPerFrame" "\<forall>i \<in> set (fs_RefFrameIdx sz). unat i < RefFrames"
  shows "\<exists>set'. short_inv lst golden sz (sz', set') \<and> list_all (\<lambda>b. b) set'"
proof -
  define cur where "cur = i16 (push_bit (unat (sh_OrderHintBits seq - 1)) 1)"
  note set_refs = assms(1) [unfolded setShortFrameReferences_def cur_def [symmetric]]
  obtain info0 l g where i0: "shortRefInfo_loop seq prefix refs lst golden cur [0..<RefFrames] [] (- 1) (- 1) = Inr (info0, l, g)"
    using set_refs by (auto simp: Let_def split: if_splits sum.splits)
  let ?info = "sortShortRefInfo info0"
  have "info_ok info0" using shortRefInfo_loop_ok [OF i0] by (simp add: info_ok_def frame_consts)
  then have info: "info_ok ?info" using mset_info_ok sortShortRefInfo_sorts by blast
  obtain fs fe where sp: "shortRef_split ?info cur [0..<RefFrames] 0 (int RefFrames - 1) = (fs, fe)" by fastforce
  then have r: "0 \<le> fs" "- 1 \<le> fe" "fe \<le> 7" using shortRef_split_range [OF sp] by (simp_all add: frame_consts)
  let ?s = "shortRef_named ?info lst golden fs fe (shortRef_backward ?info fe (sz, replicate InterRefsPerFrame False))"
  have s: "short_inv lst golden sz ?s"
    using short_inv_named [OF short_inv_backward [OF short_inv_start [OF assms(2,3)] info r(2)] info r(1,3)] .
  obtain slots fe' s' where f: "shortRef_fill ?info lst golden fs [1, 2, 4, 5, 6] fe ?s = (slots, fe', s')"
    by (metis prod_cases3)
  have s': "short_inv lst golden sz s'" "fe' \<le> 7" "set slots \<subseteq> {1, 2, 4, 5, 6}" using short_inv_fill [OF s info r(1,3) _ f] by auto
  have "fs \<le> fe'" and fin: "Inr (fst (shortRef_rest (sr_mapIdx (?info ! nat fs)) slots s')) = (Inr sz' :: go_err + FrameSize)"
      "list_all (\<lambda>b. b) (snd (shortRef_rest (sr_mapIdx (?info ! nat fs)) slots s'))"
    using set_refs by (auto simp: Let_def i0 sp f simp del: shortRef_fill.simps shortRef_rest.simps One_nat_def split: if_splits)
  then have "unat (sr_mapIdx (?info ! nat fs)) < RefFrames" using info_ok_nth [OF info] r(1) s'(2) by auto
  from short_inv_rest [OF s'(1) this s'(3)] fin show ?thesis by (metis Inr_inject prod.collapse)
qed

text \<open>
  C32: when short signalling succeeds, all seven references name one of the eight slots, the last and the golden
  reference are the two signalled ones, and nothing else of the frame size has changed.
\<close>

theorem setShortFrameReferences_sound:
  assumes "setShortFrameReferences seq prefix refs lst golden sz = Inr sz'"
    "length (fs_RefFrameIdx sz) = InterRefsPerFrame" "\<forall>i \<in> set (fs_RefFrameIdx sz). unat i < RefFrames"
  shows "length (fs_RefFrameIdx sz') = InterRefsPerFrame \<and> (\<forall>i \<in> set (fs_RefFrameIdx sz'). unat i < RefFrames) \<and>
    fs_RefFrameIdx sz' ! 0 = lst \<and> fs_RefFrameIdx sz' ! 3 = golden \<and>
    sz'\<lparr>fs_RefFrameIdx := []\<rparr> = sz\<lparr>fs_RefFrameIdx := []\<rparr>"
  using setShortFrameReferences_inv [OF assms] by (auto simp: short_inv_def frame_consts list_all_length)

text \<open>Reference slots with the given order hints.\<close>

definition refs_with_hints :: "u8 list \<Rightarrow> ReferenceState" where
  "refs_with_hints hints = \<lparr>rst_Frames = map (\<lambda>h. zero_ReferenceFrame\<lparr>rf_Valid := True, rf_OrderHint := h\<rparr>) hints\<rparr>"

theorem setShortFrameReferences_sound_witness:
  "\<exists>sz'. setShortFrameReferences (zero_SequenceHeader\<lparr>sh_OrderHintBits := 7\<rparr>) (zero_FrameHeaderPrefix\<lparr>fh_OrderHint := 40\<rparr>)
       (refs_with_hints [10, 12, 14, 16, 18, 20, 22, 24]) 7 3 zero_FrameSize = Inr sz' \<and>
     fs_RefFrameIdx sz' ! 0 = 7 \<and> fs_RefFrameIdx sz' ! 3 = 3"
proof -
  let ?r = "setShortFrameReferences (zero_SequenceHeader\<lparr>sh_OrderHintBits := 7\<rparr>) (zero_FrameHeaderPrefix\<lparr>fh_OrderHint := 40\<rparr>)
       (refs_with_hints [10, 12, 14, 16, 18, 20, 22, 24]) 7 3 zero_FrameSize"
  have "case ?r of Inr _ \<Rightarrow> True | Inl _ \<Rightarrow> False" by code_simp
  then obtain sz' where "?r = Inr sz'" by (cases ?r) auto
  with setShortFrameReferences_sound [OF this] show ?thesis by (auto simp: zero_FrameSize_def frame_consts)
qed


section \<open>Well-formed frame sizes\<close>

definition slots_ok :: "FrameSize \<Rightarrow> bool" where
  "slots_ok sz \<longleftrightarrow> length (fs_RefFrameIdx sz) = InterRefsPerFrame \<and> (\<forall>i \<in> set (fs_RefFrameIdx sz). unat i < RefFrames) \<and>
     length (fs_BufferRemovalTimes sz) = 32 \<and> length (fs_RefOrderHints sz) = RefFrames \<and>
     length (fs_DeltaFrameIDMinus1 sz) = InterRefsPerFrame"

definition frame_area_ok :: "FrameSize \<Rightarrow> bool" where
  "frame_area_ok sz \<longleftrightarrow> 1 \<le> unat (fs_UpscaledWidth sz) \<and> unat (fs_UpscaledWidth sz) \<le> 65536 \<and>
     1 \<le> unat (fs_Height sz) \<and> unat (fs_Height sz) \<le> 65536"

definition coded_ok :: "FrameSize \<Rightarrow> bool" where
  "coded_ok sz \<longleftrightarrow> min (unat (fs_UpscaledWidth sz)) 16 \<le> unat (fs_CodedWidth sz) \<and>
     unat (fs_CodedWidth sz) \<le> unat (fs_UpscaledWidth sz) \<and>
     (if fs_SuperResEnabled sz then 9 \<le> unat (fs_SuperResDenominator sz) \<and> unat (fs_SuperResDenominator sz) \<le> 16
      else fs_SuperResDenominator sz = 8 \<and> fs_CodedWidth sz = fs_UpscaledWidth sz)"

definition render_ok :: "FrameSize \<Rightarrow> bool" where
  "render_ok sz \<longleftrightarrow> 1 \<le> unat (fs_RenderWidth sz) \<and> unat (fs_RenderWidth sz) \<le> 65536 \<and>
     1 \<le> unat (fs_RenderHeight sz) \<and> unat (fs_RenderHeight sz) \<le> 65536"

definition size_ok :: "FrameSize \<Rightarrow> bool" where
  "size_ok sz \<longleftrightarrow> slots_ok sz \<and> frame_area_ok sz \<and> coded_ok sz \<and> render_ok sz"

definition refs_ok :: "ReferenceState \<Rightarrow> bool" where
  "refs_ok refs \<longleftrightarrow> length (rst_Frames refs) = RefFrames \<and> (\<forall>f \<in> set (rst_Frames refs). rf_Valid f \<longrightarrow> size_ok (rf_Size f))"

text \<open>Each predicate ignores the fields that it does not read.\<close>

lemma slots_ok_later [simp]:
  "slots_ok (sz\<lparr>fs_CodedWidth := w\<rparr>) = slots_ok sz" "slots_ok (sz\<lparr>fs_UpscaledWidth := w\<rparr>) = slots_ok sz"
  "slots_ok (sz\<lparr>fs_Height := w\<rparr>) = slots_ok sz" "slots_ok (sz\<lparr>fs_RenderWidth := w\<rparr>) = slots_ok sz"
  "slots_ok (sz\<lparr>fs_RenderHeight := w\<rparr>) = slots_ok sz" "slots_ok (sz\<lparr>fs_SuperResEnabled := b\<rparr>) = slots_ok sz"
  "slots_ok (sz\<lparr>fs_SuperResDenominator := a\<rparr>) = slots_ok sz" "slots_ok (sz\<lparr>fs_HaveRenderSize := b\<rparr>) = slots_ok sz"
  "slots_ok (sz\<lparr>fs_AllowIntrabc := b\<rparr>) = slots_ok sz" "slots_ok (sz\<lparr>fs_RefreshFrameFlags := a\<rparr>) = slots_ok sz"
  "slots_ok (sz\<lparr>fs_BufferRemovalTimePresent := b\<rparr>) = slots_ok sz" "slots_ok (sz\<lparr>fs_FrameRefsShortSignaling := b\<rparr>) = slots_ok sz"
  "slots_ok (sz\<lparr>fs_LastFrameIdx := a\<rparr>) = slots_ok sz" "slots_ok (sz\<lparr>fs_GoldenFrameIdx := a\<rparr>) = slots_ok sz"
  "slots_ok (sz\<lparr>fs_UsedReferenceFrameSize := b\<rparr>) = slots_ok sz" "slots_ok (sz\<lparr>fs_ReferenceFrameSizeIdx := a\<rparr>) = slots_ok sz"
  "slots_ok (sz\<lparr>fs_BitsRead := n\<rparr>) = slots_ok sz"
  by (simp_all add: slots_ok_def)

lemma size_ok_later [simp]:
  "size_ok (sz\<lparr>fs_AllowIntrabc := b\<rparr>) = size_ok sz" "size_ok (sz\<lparr>fs_BitsRead := n\<rparr>) = size_ok sz"
  "size_ok (sz\<lparr>fs_UsedReferenceFrameSize := b\<rparr>) = size_ok sz" "size_ok (sz\<lparr>fs_ReferenceFrameSizeIdx := a\<rparr>) = size_ok sz"
  by (simp_all add: size_ok_def frame_area_ok_def coded_ok_def render_ok_def)

lemma slots_ok_zero: "slots_ok zero_FrameSize"
  by (simp add: slots_ok_def zero_FrameSize_def frame_consts)

lemma slots_ok_set_ref:
  "slots_ok sz \<Longrightarrow> unat i < RefFrames \<Longrightarrow> slots_ok (sz\<lparr>fs_RefFrameIdx := (fs_RefFrameIdx sz)[k := i]\<rparr>)"
  using set_update_subset_insert [of "fs_RefFrameIdx sz" k i] by (auto simp: slots_ok_def)

lemma u8_3bit: "unat (v :: u64) < 2 ^ unat (3 :: u8) \<Longrightarrow> unat (ucast v :: u8) < 8"
  using u8_of_small [of v 8] by simp

lemma rpost_parseSuperRes:
  assumes "frame_area_ok sz"
  shows "rpost (parseSuperRes seq sz) (\<lambda>s. coded_ok s \<and> frame_area_ok s \<and> (slots_ok s \<longleftrightarrow> slots_ok sz) \<and> (render_ok s \<longleftrightarrow> render_ok sz))"
proof -
  have den: "unat (ucast (v + 9) :: u8) = unat v + 9" if "unat v < 8" for v :: u64
    using that unat_u64_add [of v 9] by (simp add: unsigned_ucast_eq take_bit_nat_eq_self)
  have w: "coded_ok (s\<lparr>fs_SuperResEnabled := True, fs_SuperResDenominator := d, fs_CodedWidth := superResCodedWidth (fs_UpscaledWidth sz) d\<rparr>)"
    if "8 < unat d" "unat d \<le> 16" "fs_UpscaledWidth s = fs_UpscaledWidth sz" for s d
    using that assms superResCodedWidth_bounds [of "fs_UpscaledWidth sz" d] by (simp add: coded_ok_def frame_area_ok_def)
  show ?thesis
    unfolding parseSuperRes_def
    by (intro rd_post) (use assms w den in \<open>auto simp: coded_ok_def frame_area_ok_def render_ok_def\<close>)
qed

lemma coded_ok_render [simp]:
  "coded_ok (sz\<lparr>fs_HaveRenderSize := b\<rparr>) = coded_ok sz" "coded_ok (sz\<lparr>fs_RenderWidth := w\<rparr>) = coded_ok sz"
  "coded_ok (sz\<lparr>fs_RenderHeight := w\<rparr>) = coded_ok sz" "coded_ok (sz\<lparr>fs_UsedReferenceFrameSize := b\<rparr>) = coded_ok sz"
  "coded_ok (sz\<lparr>fs_ReferenceFrameSizeIdx := i\<rparr>) = coded_ok sz"
  "frame_area_ok (sz\<lparr>fs_HaveRenderSize := b\<rparr>) = frame_area_ok sz" "frame_area_ok (sz\<lparr>fs_RenderWidth := w\<rparr>) = frame_area_ok sz"
  "frame_area_ok (sz\<lparr>fs_RenderHeight := w\<rparr>) = frame_area_ok sz"
  by (simp_all add: coded_ok_def frame_area_ok_def)

lemma two_power_le_65536: "n \<le> 16 \<Longrightarrow> (2 :: nat) ^ n \<le> 65536"
  using power_increasing [of n 16 "2 :: nat"] by simp

lemma rpost_parseFrameDimensions:
  assumes "seq_size_ok seq" "slots_ok sz"
  shows "rpost (parseFrameDimensions seq prefix sz) size_ok"
proof -
  have max: "1 \<le> unat (sh_MaxFrameWidth seq)" "unat (sh_MaxFrameWidth seq) \<le> 65536"
      "1 \<le> unat (sh_MaxFrameHeight seq)" "unat (sh_MaxFrameHeight seq) \<le> 65536"
    using assms(1) two_power_le_65536 by (auto simp: seq_size_ok_def intro: order_trans)
  have succ: "1 \<le> unat (ucast (v + 1) :: u32) \<and> unat (ucast (v + 1) :: u32) \<le> 65536"
    if "unat v < 2 ^ unat n" "unat n \<le> 16" for v :: u64 and n :: u8
    using that u32_succ [of v "unat n"] two_power_le_65536 [of "unat n"] by simp
  have bits: "unat (sh_FrameWidthBits seq) \<le> 16" "unat (sh_FrameHeightBits seq) \<le> 16" "unat (16 :: u8) \<le> 16"
    using assms(1) by (simp_all add: seq_size_ok_def)
  have tl: "rpost (rbind (parseSuperRes seq s) (\<lambda>sz. rbind ReadBool (\<lambda>haveRenderSize. let sz = sz\<lparr>fs_HaveRenderSize := haveRenderSize\<rparr> in
     if haveRenderSize then
       rbind (ReadBits 16) (\<lambda>w. rbind (ReadBits 16) (\<lambda>h. rret (sz\<lparr>fs_RenderWidth := ucast (w + 1), fs_RenderHeight := ucast (h + 1)\<rparr>)))
     else rret (sz\<lparr>fs_RenderWidth := fs_UpscaledWidth sz, fs_RenderHeight := fs_Height sz\<rparr>)))) size_ok"
    if "slots_ok s" "frame_area_ok s" for s
    by (rule rpost_rbind [OF rpost_parseSuperRes [OF that(2)]], intro rd_post)
      (use that(1) succ [OF _ bits(3)] in \<open>simp_all add: size_ok_def render_ok_def frame_area_ok_def\<close>)
  show ?thesis
    unfolding parseFrameDimensions_def
    by (intro rpost_bind_if rpost_bind_bind rpost_bind_ReadBits rpost_bind_Let rpost_bind_rfail rpost_bind_rret tl)
      (use assms(2) max succ [OF _ bits(1)] succ [OF _ bits(2)] in \<open>simp_all add: frame_area_ok_def\<close>)
qed

lemma rpost_parseFrameDimensionsWithRefs_loop:
  assumes "seq_size_ok seq" "slots_ok sz" "refs_ok refs" "i + k = InterRefsPerFrame"
  shows "rpost (parseFrameDimensionsWithRefs_loop k i seq prefix refs sz) size_ok"
  using assms(2,4)
proof (induction k arbitrary: i)
  case 0
  then show ?case by (simp add: rpost_parseFrameDimensions [OF assms(1)])
next
  case (Suc k)
  let ?ref = "rst_Frames refs ! unat (fs_RefFrameIdx sz ! i)"
  have "unat (fs_RefFrameIdx sz ! i) < RefFrames" using Suc.prems by (auto simp: slots_ok_def)
  then have "?ref \<in> set (rst_Frames refs)" using assms(3) by (auto simp: refs_ok_def)
  then have ref: "size_ok (rf_Size ?ref)" if "rf_Valid ?ref" using assms(3) that by (auto simp: refs_ok_def)
  show ?case
    unfolding parseFrameDimensionsWithRefs_loop.simps
    by (intro rd_post rpost_rbind [OF rpost_parseSuperRes] Suc.IH)
      (use Suc.prems ref in \<open>auto simp: size_ok_def frame_area_ok_def render_ok_def\<close>)
qed

lemma slots_ok_short:
  assumes "setShortFrameReferences seq prefix refs lst golden sz = Inr sz'" "slots_ok sz"
  shows "slots_ok sz'"
proof -
  obtain set' where "short_inv lst golden sz (sz', set')"
    using setShortFrameReferences_inv [OF assms(1)] assms(2) by (auto simp: slots_ok_def)
  then have "sz'\<lparr>fs_RefFrameIdx := []\<rparr> = sz\<lparr>fs_RefFrameIdx := []\<rparr>"
      "length (fs_RefFrameIdx sz') = InterRefsPerFrame" "\<forall>i \<in> set (fs_RefFrameIdx sz'). unat i < RefFrames"
    by (simp_all add: short_inv_def)
  moreover from this(1) have "fs_BufferRemovalTimes sz' = fs_BufferRemovalTimes sz" "fs_RefOrderHints sz' = fs_RefOrderHints sz"
      "fs_DeltaFrameIDMinus1 sz' = fs_DeltaFrameIDMinus1 sz"
    by (auto dest: arg_cong [where f = fs_BufferRemovalTimes] arg_cong [where f = fs_RefOrderHints]
        arg_cong [where f = fs_DeltaFrameIDMinus1])
  ultimately show ?thesis using assms(2) by (simp add: slots_ok_def)
qed

lemma rpost_parseShortFrameReferences:
  assumes "slots_ok sz" shows "rpost (parseShortFrameReferences seq prefix refs sz) slots_ok"
proof -
  have "rpost (case setShortFrameReferences seq prefix refs a b s of Inl e \<Rightarrow> rfail e | Inr sz \<Rightarrow> rret sz) slots_ok" if "slots_ok s" for a b s
    using slots_ok_short [OF _ that, of seq prefix refs a b] by (auto intro!: rd_post split: sum.split)
  then show ?thesis unfolding parseShortFrameReferences_def using assms by (intro rd_post) simp_all
qed

lemma rpost_parseInterReferences_loop:
  "slots_ok sz \<Longrightarrow> rpost (parseInterReferences_loop k i seq prefix refs sz) slots_ok"
proof (induction k arbitrary: i sz)
  case (Suc k)
  have d: "slots_ok (s\<lparr>fs_DeltaFrameIDMinus1 := (fs_DeltaFrameIDMinus1 sz)[j := v]\<rparr>)" if "slots_ok s" for s j v
    using that Suc.prems by (simp add: slots_ok_def)
  show ?case
    unfolding parseInterReferences_loop.simps
    by (intro rd_post Suc.IH) (use Suc.prems in \<open>auto simp: frame_consts intro!: d slots_ok_set_ref u8_3bit\<close>)
qed (simp add: rpost_rret)

lemma rpost_parseInterReferences:
  assumes "slots_ok sz" shows "rpost (parseInterReferences seq prefix refs sz) slots_ok"
  unfolding parseInterReferences_def
  by (intro rpost_bind_if rpost_bind_bind rpost_bind_ReadBool rpost_bind_Let rpost_bind_rret
      rpost_rbind [OF rpost_parseShortFrameReferences] rpost_parseInterReferences_loop) (use assms in simp_all)

lemma rpost_parseBufferRemovalTimes:
  assumes "slots_ok sz" shows "rpost (parseBufferRemovalTimes seq t s sz) slots_ok"
proof -
  have "rpost (parseBufferRemovalTimes_loop k i seq t s sz) slots_ok" if "slots_ok sz" for k i sz
    using that
  proof (induction k arbitrary: i sz)
    case (Suc k)
    then show ?case unfolding parseBufferRemovalTimes_loop.simps
      by (intro rd_post Suc.IH) (simp_all add: slots_ok_def)
  qed (simp add: rpost_rret)
  then show ?thesis unfolding parseBufferRemovalTimes_def using assms by (intro rd_post) simp_all
qed

lemma rpost_parseRefreshFrameFlags:
  assumes "slots_ok sz" shows "rpost (parseRefreshFrameFlags seq prefix sz) slots_ok"
proof -
  have "rpost (parseRefOrderHints_loop k i seq sz) slots_ok" if "slots_ok sz" for k i sz
    using that
  proof (induction k arbitrary: i sz)
    case (Suc k)
    then show ?case unfolding parseRefOrderHints_loop.simps by (intro rd_post Suc.IH) (simp_all add: slots_ok_def)
  qed (simp add: rpost_rret)
  then show ?thesis unfolding parseRefreshFrameFlags_def using assms by (intro rd_post) simp_all
qed

lemma rpost_parseFrameSize_body:
  assumes "seq_size_ok seq" "\<And>rs. refs = Some rs \<Longrightarrow> refs_ok rs"
  shows "rpost (parseFrameSize_body seq prefix refs t s) size_ok"
proof -
  have i: "rpost (case refs of None \<Rightarrow> rfail ErrReferenceFrameNeeded
      | Some refs \<Rightarrow> rbind (parseInterReferences seq prefix refs sz) (\<lambda>sz.
          if \<not> fh_ErrorResilientMode prefix \<and> fh_FrameSizeOverride prefix then parseFrameDimensionsWithRefs seq prefix refs sz
          else parseFrameDimensions seq prefix sz)) size_ok" if "slots_ok sz" for sz
    using assms(2)
    by (auto simp: parseFrameDimensionsWithRefs_def split: option.split
        intro!: rpost_rfail rpost_if rpost_rbind [OF rpost_parseInterReferences [OF that]]
          rpost_parseFrameDimensionsWithRefs_loop rpost_parseFrameDimensions assms(1))
  have k: "rpost (rbind (parseFrameDimensions seq prefix sz) (\<lambda>sz. if fh_AllowScreenContentTools prefix \<and> \<not> fs_SuperResEnabled sz
      then rbind ReadBool (\<lambda>allow. rret (sz\<lparr>fs_AllowIntrabc := allow\<rparr>)) else rret sz)) size_ok" if "slots_ok sz" for sz
    by (rule rpost_rbind [OF rpost_parseFrameDimensions [OF assms(1) that]]) (auto intro!: rd_post)
  show ?thesis
    unfolding parseFrameSize_body_def
    by (rule rpost_rbind [OF rpost_parseBufferRemovalTimes [OF slots_ok_zero]],
        erule rpost_rbind [OF rpost_parseRefreshFrameFlags], rule rpost_rbind [of _ size_ok])
      (auto intro: i k intro!: rpost_if rpost_bind_any [of _ _ readerBitsRead] rpost_rret)
qed

section \<open>The stage reads forward\<close>

lemma forward_parseSuperRes [rd_safe]: "forward (parseSuperRes seq sz)"
  unfolding parseSuperRes_def by (intro rd_safe)

lemma forward_parseFrameDimensions [rd_safe]: "forward (parseFrameDimensions seq prefix sz)"
  unfolding parseFrameDimensions_def by (intro rd_safe)

lemma forward_parseFrameDimensionsWithRefs [rd_safe]: "forward (parseFrameDimensionsWithRefs seq prefix refs sz)"
proof -
  have "forward (parseFrameDimensionsWithRefs_loop k i seq prefix refs sz)" for k i
    by (induction k arbitrary: i) (auto intro!: rd_safe simp: Let_def)
  then show ?thesis by (simp add: parseFrameDimensionsWithRefs_def)
qed

lemma forward_parseInterReferences [rd_safe]: "forward (parseInterReferences seq prefix refs sz)"
proof -
  have [rd_safe]: "forward (parseInterReferences_loop k i seq prefix refs sz)" for k i sz
    by (induction k arbitrary: i sz) (auto intro!: rd_safe simp: Let_def)
  show ?thesis unfolding parseInterReferences_def parseShortFrameReferences_def by (intro rd_safe)
qed

lemma forward_parseBufferRemovalTimes [rd_safe]: "forward (parseBufferRemovalTimes seq t s sz)"
proof -
  have [rd_safe]: "forward (parseBufferRemovalTimes_loop k i seq t s sz)" for k i sz
    by (induction k arbitrary: i sz) (auto intro!: rd_safe simp: Let_def)
  show ?thesis unfolding parseBufferRemovalTimes_def by (intro rd_safe)
qed

lemma forward_parseRefreshFrameFlags [rd_safe]: "forward (parseRefreshFrameFlags seq prefix sz)"
proof -
  have [rd_safe]: "forward (parseRefOrderHints_loop k i seq sz)" for k i sz
    by (induction k arbitrary: i sz) (auto intro!: rd_safe)
  show ?thesis unfolding parseRefreshFrameFlags_def by (intro rd_safe)
qed

interpretation size_stage: header_stage "parseFrameSize_body seq prefix refs t s" fs_BitsRead for seq prefix refs t s
proof (rule header_stageI)
  show "forward (parseFrameSize_body seq prefix refs t s)"
    unfolding parseFrameSize_body_def by (intro rd_safe)
  show "reports (parseFrameSize_body seq prefix refs t s) fs_BitsRead"
    unfolding parseFrameSize_body_def by (intro rd_reports reports_end) simp
qed

text \<open>
  C8: a frame size that the parser accepts is well formed when the sequence header and the reference slots are:
  both dimensions are between 1 and 65536, super-resolution shrinks the coded width by a
  denominator of 9 to 16 and never below 16 columns or the whole width, every reference names a slot, and the stage ends inside the
  payload, no earlier than the prefix did.
\<close>

theorem ParseFrameSize_ok:
  assumes "ParseFrameSize payload seq prefix refs t s = Inr sz" "seq_wf seq" "\<And>rs. refs = Some rs \<Longrightarrow> refs_ok rs"
  shows "size_ok sz \<and> unat (fh_BitsRead prefix) \<le> unat (fs_BitsRead sz) \<and> unat (fs_BitsRead sz) \<le> 8 * length payload"
proof -
  have p: "on_payload payload (fh_BitsRead prefix) (parseFrameSize_body seq prefix refs t s) = Inr sz"
    using assms(1) by (auto simp: ParseFrameSize_def parseFrameSize_def split: if_splits)
  then show ?thesis
    using on_payload_post [OF rpost_parseFrameSize_body p] size_stage.stage_bounds [OF p] assms(2,3) by (auto simp: seq_wf_def)
qed

text \<open>A sequence of 16 by 16 frames with super-resolution, order hints and all the optional tools.\<close>

definition small_sequence :: SequenceHeader where
  "small_sequence = zero_SequenceHeader\<lparr>sh_OperatingPointsCount := 1, sh_FrameWidthBits := 4, sh_FrameHeightBits := 4,
     sh_MaxFrameWidth := 16, sh_MaxFrameHeight := 16, sh_EnableSuperRes := True, sh_EnableOrderHint := True, sh_OrderHintBits := 7,
     sh_SeqForceScreenContentTools := 2, sh_SeqForceIntegerMV := 2, sh_EnableCDEF := True, sh_EnableRestoration := True,
     sh_EnableWarpedMotion := True, sh_EnableRefFrameMVS := True, sh_FilmGrainParamsPresent := True,
     sh_ColorConfig := (sh_ColorConfig zero_SequenceHeader)\<lparr>cc_BitDepth := 8, cc_SubsamplingX := True, cc_SubsamplingY := True\<rparr>\<rparr>"

lemma small_sequence_wf: "seq_wf small_sequence"
  by code_simp

theorem ParseFrameSize_ok_witness:
  "\<exists>sz. ParseFrameSize [0x84, 0x00] small_sequence
      (zero_FrameHeaderPrefix\<lparr>fh_ShowFrame := True, fh_ErrorResilientMode := True, fh_AllowScreenContentTools := True\<rparr>) None 0 0 = Inr sz \<and>
    fs_SuperResEnabled sz \<and> size_ok sz"
proof -
  let ?p = "zero_FrameHeaderPrefix\<lparr>fh_ShowFrame := True, fh_ErrorResilientMode := True, fh_AllowScreenContentTools := True\<rparr>"
  let ?r = "ParseFrameSize [0x84, 0x00] small_sequence ?p None 0 0"
  have "case ?r of Inr sz \<Rightarrow> fs_SuperResEnabled sz | Inl _ \<Rightarrow> False" by code_simp
  then obtain sz where "?r = Inr sz" "fs_SuperResEnabled sz" by (cases ?r) auto
  with ParseFrameSize_ok [OF this(1) small_sequence_wf] show ?thesis by blast
qed

text \<open>
  Super-resolution never shrinks a frame of at most 16 columns, so that its coded and upscaled widths are
  equal; yet the parser reads no \<open>allow_intrabc\<close> for such an intra frame when super-resolution is
  signalled, although the AV1 syntax (5.9.2) decides on the widths.
\<close>

theorem intrabc_skipped_narrow:
  "\<exists>sz. ParseFrameSize [0x84, 0x00] small_sequence
      (zero_FrameHeaderPrefix\<lparr>fh_ShowFrame := True, fh_ErrorResilientMode := True, fh_AllowScreenContentTools := True\<rparr>) None 0 0 = Inr sz \<and>
    fs_CodedWidth sz = fs_UpscaledWidth sz \<and> \<not> fs_AllowIntrabc sz \<and> fs_BitsRead sz = 5"
proof -
  let ?p = "zero_FrameHeaderPrefix\<lparr>fh_ShowFrame := True, fh_ErrorResilientMode := True, fh_AllowScreenContentTools := True\<rparr>"
  let ?r = "ParseFrameSize [0x84, 0x00] small_sequence ?p None 0 0"
  have "case ?r of Inr sz \<Rightarrow> fs_CodedWidth sz = fs_UpscaledWidth sz \<and> \<not> fs_AllowIntrabc sz \<and> fs_BitsRead sz = 5 | Inl _ \<Rightarrow> False" by code_simp
  then show ?thesis by (cases ?r) auto
qed

end
