(* ===== verification/Tile_Info.thy ===== *)
theory Tile_Info
  imports Frame_Size
begin

text \<open>
  \<open>internal/av1/parser/tile.go\<close>: the inter controls after the frame size and \<open>tile_info()\<close>. The Go
  code computes with \<open>int\<close> on numbers of superblocks, which are at most 65535: they are natural
  numbers here, and the stores into 8- and 16-bit fields are conversions. Every layout that is
  accepted cuts the frame into consecutive tiles.
\<close>

section \<open>Arithmetic\<close>

definition maxTileWidthPixels :: int where "maxTileWidthPixels = 4096"
definition maxTileAreaPixels :: int where "maxTileAreaPixels = 4096 * 2304"

definition ceilShift32 :: "u32 \<Rightarrow> u8 \<Rightarrow> u32" where
  "ceilShift32 v bits = drop_bit (unat bits) (v + push_bit (unat bits) 1 - 1)"

text \<open>The callers pass a positive \<open>sz\<close>, with which the loop ends.\<close>

function tileLog2_loop :: "int \<Rightarrow> int \<Rightarrow> nat \<Rightarrow> nat" where
  "tileLog2_loop sz target k = (if 0 < sz \<and> sz * 2 ^ k < target then tileLog2_loop sz target (k + 1) else k)"
  by pat_completeness auto
termination
  by (relation "measure (\<lambda>(sz, target, k). nat (target - sz * 2 ^ k))") auto

declare tileLog2_loop.simps [simp del]

definition tileLog2 :: "int \<Rightarrow> int \<Rightarrow> nat" where
  "tileLog2 sz target = tileLog2_loop sz target 0"

text \<open>The number of bits of \<open>max\<close>, which is at most 1024 in every call.\<close>

function readUniform_len :: "u32 \<Rightarrow> nat \<Rightarrow> nat" where
  "readUniform_len m l = (if l < 31 \<and> push_bit (l + 1) 1 \<le> m then readUniform_len m (l + 1) else l)"
  by pat_completeness auto
termination
  by (relation "measure (\<lambda>(m, l). 31 - l)") auto

declare readUniform_len.simps [simp del]

definition readUniform :: "u32 \<Rightarrow> u32 rd" where
  "readUniform mx =
     (if mx \<le> 1 then rret 0
      else
        let l = readUniform_len mx 0 + 1;
            m = push_bit l 1 - mx
        in rbind (ReadBits (word_of_nat (l - 1))) (\<lambda>v.
           if ucast v < m then rret (ucast v)
           else rbind ReadBit (\<lambda>bit. rret (push_bit 1 (ucast v) - m + ucast bit))))"

section \<open>Layouts\<close>

text \<open>The loop that reads increments of a logarithm, with the rounds left.\<close>

primrec readLog2Increments :: "nat \<Rightarrow> u8 \<Rightarrow> u8 rd" where
  "readLog2Increments 0 l = rret l"
| "readLog2Increments (Suc k) l = rbind ReadBool (\<lambda>more. if more then readLog2Increments k (l + 1) else rret l)"

text \<open>The loops that store the starts of the columns or of the rows.\<close>

function uniformStarts :: "nat \<Rightarrow> nat \<Rightarrow> nat \<Rightarrow> nat \<Rightarrow> nat \<Rightarrow> u16 list \<Rightarrow> go_err + nat \<times> u16 list" where
  "uniformStarts maxTiles step sbEnd sb n starts =
     (if sb < sbEnd then
        if n \<ge> maxTiles then Inl ErrInvalidFrameHeader
        else uniformStarts maxTiles step sbEnd (sb + step) (n + 1) (starts[n := word_of_nat sb])
      else Inr (n, starts))"
  by pat_completeness auto
termination
  by (relation "measure (\<lambda>(maxTiles, step, sbEnd, sb, n, starts). maxTiles - n)") auto

declare uniformStarts.simps [simp del]

definition parseUniformTileLayout :: "nat \<Rightarrow> nat \<Rightarrow> TileInfo \<Rightarrow> TileInfo rd" where
  "parseUniformTileLayout sbCols sbRows tiles =
     rbind (readLog2Increments (unat (ti_MaxLog2Cols tiles) - unat (ti_MinLog2Cols tiles)) (ti_MinLog2Cols tiles)) (\<lambda>log2Cols.
     let tiles = tiles\<lparr>ti_Log2Cols := log2Cols\<rparr>;
         tileW = 1 + drop_bit (unat log2Cols) (sbCols - 1)
     in case uniformStarts MaxTileCols tileW sbCols 0 0 (ti_ColStartSB tiles) of
       Inl e \<Rightarrow> rfail e
     | Inr (cols, starts) \<Rightarrow>
     let tiles = tiles\<lparr>ti_Cols := word_of_nat cols, ti_ColStartSB := starts[cols := word_of_nat sbCols]\<rparr>;
         tiles = tiles\<lparr>ti_MinLog2Rows := word_of_nat (unat (ti_MinLog2Tiles tiles) - unat (ti_Log2Cols tiles))\<rparr>
     in rbind (readLog2Increments (unat (ti_MaxLog2Rows tiles) - unat (ti_MinLog2Rows tiles)) (ti_MinLog2Rows tiles)) (\<lambda>log2Rows.
     let tiles = tiles\<lparr>ti_Log2Rows := log2Rows\<rparr>;
         tileH = 1 + drop_bit (unat log2Rows) (sbRows - 1)
     in case uniformStarts MaxTileRows tileH sbRows 0 0 (ti_RowStartSB tiles) of
       Inl e \<Rightarrow> rfail e
     | Inr (rows, starts) \<Rightarrow>
         rret (tiles\<lparr>ti_Rows := word_of_nat rows, ti_RowStartSB := starts[rows := word_of_nat sbRows]\<rparr>)))"

text \<open>One tile of an explicit layout, and the loop, with the rounds left and the widest tile.\<close>

definition readTileSize :: "nat \<Rightarrow> nat rd" where
  "readTileSize limit =
     (if limit > 1 then rbind (readUniform (word_of_nat limit)) (\<lambda>v. rret (unat v + 1)) else rret 1)"

primrec explicitStarts :: "nat \<Rightarrow> nat \<Rightarrow> nat \<Rightarrow> nat \<Rightarrow> nat \<Rightarrow> nat \<Rightarrow> u16 list \<Rightarrow> (nat \<times> nat \<times> nat \<times> u16 list) rd" where
  "explicitStarts 0 maxSB sbEnd sb n widest starts = rret (sb, n, widest, starts)"
| "explicitStarts (Suc k) maxSB sbEnd sb n widest starts =
     (if sb < sbEnd then
        rbind (readTileSize (min (sbEnd - sb) maxSB)) (\<lambda>tile.
        explicitStarts k maxSB sbEnd (sb + tile) (n + 1) (if tile > widest then tile else widest)
          (starts[n := word_of_nat sb]))
      else rret (sb, n, widest, starts))"

definition parseExplicitTileLayout :: "nat \<Rightarrow> nat \<Rightarrow> nat \<Rightarrow> int \<Rightarrow> TileInfo \<Rightarrow> TileInfo rd" where
  "parseExplicitTileLayout sbCols sbRows maxTileWidthSB maxTileAreaSB tiles =
     rbind (explicitStarts MaxTileCols maxTileWidthSB sbCols 0 0 0 (ti_ColStartSB tiles)) (\<lambda>(sbx, cols, widestTile, starts).
     if sbx < sbCols then rfail ErrInvalidFrameHeader
     else
       let tiles = tiles\<lparr>ti_Cols := word_of_nat cols, ti_ColStartSB := starts[cols := word_of_nat sbCols],
                         ti_Log2Cols := word_of_nat (tileLog2 1 (int cols))\<rparr>;
           maxTileAreaSB = (if ti_MinLog2Tiles tiles \<noteq> 0 then drop_bit (unat (ti_MinLog2Tiles tiles + 1)) maxTileAreaSB
                            else maxTileAreaSB);
           maxTileHeightSB = nat (max (maxTileAreaSB div int widestTile) 1)
       in rbind (explicitStarts MaxTileRows maxTileHeightSB sbRows 0 0 0 (ti_RowStartSB tiles)) (\<lambda>(sby, rows, _, starts).
          if sby < sbRows then rfail ErrInvalidFrameHeader
          else rret (tiles\<lparr>ti_Rows := word_of_nat rows, ti_RowStartSB := starts[rows := word_of_nat sbRows],
                           ti_Log2Rows := word_of_nat (tileLog2 1 (int rows))\<rparr>)))"

section \<open>The stage\<close>

definition parsePostSizeFrameControls :: "SequenceHeader \<Rightarrow> FrameHeaderPrefix \<Rightarrow> TileInfo \<Rightarrow> TileInfo rd" where
  "parsePostSizeFrameControls seq prefix tiles =
     (if \<not> frameTypeIsInterOrSwitch (fh_FrameType prefix) then rret tiles
      else
        rbind (if \<not> fh_ForceIntegerMV prefix then rbind ReadBool (\<lambda>b. rret (tiles\<lparr>ti_AllowHighPrecisionMV := b\<rparr>)) else rret tiles) (\<lambda>tiles.
        rbind ReadBool (\<lambda>switchable.
        rbind (if switchable then rret (tiles\<lparr>ti_InterpolationFilter := InterpolationSwitchable\<rparr>)
               else rbind (ReadBits 2) (\<lambda>v. rret (tiles\<lparr>ti_InterpolationFilter := InterpolationFilter_of v\<rparr>))) (\<lambda>tiles.
        rbind ReadBool (\<lambda>b. let tiles = tiles\<lparr>ti_SwitchableMotionMode := b\<rparr> in
        if \<not> fh_ErrorResilientMode prefix \<and> sh_EnableRefFrameMVS seq \<and> sh_EnableOrderHint seq
        then rbind ReadBool (\<lambda>b. rret (tiles\<lparr>ti_UseRefFrameMVS := b\<rparr>)) else rret tiles)))))"

definition parseTileLayout :: "SequenceHeader \<Rightarrow> FrameSize \<Rightarrow> TileInfo \<Rightarrow> TileInfo rd" where
  "parseTileLayout seq sz tiles =
     (let sbSizeLog2 = (if sh_Use128x128Superblock seq then 7 else 6) :: u8;
          sbCols = ceilShift32 (fs_CodedWidth sz) sbSizeLog2;
          sbRows = ceilShift32 (fs_Height sz) sbSizeLog2
      in if sbCols = 0 \<or> sbRows = 0 \<or> sbCols > 65535 \<or> sbRows > 65535 then rfail ErrInvalidFrameHeader
      else
        let maxTileWidthSB = drop_bit (unat sbSizeLog2) maxTileWidthPixels;
            maxTileAreaSB = drop_bit (unat (2 * sbSizeLog2)) maxTileAreaPixels;
            tiles = tiles\<lparr>ti_SBCols := ucast sbCols, ti_SBRows := ucast sbRows,
              ti_MinLog2Cols := word_of_nat (tileLog2 maxTileWidthSB (uint sbCols)),
              ti_MaxLog2Cols := word_of_nat (tileLog2 1 (min (uint sbCols) (int MaxTileCols))),
              ti_MaxLog2Rows := word_of_nat (tileLog2 1 (min (uint sbRows) (int MaxTileRows)))\<rparr>;
            tiles = tiles\<lparr>ti_MinLog2Tiles := word_of_nat (max (tileLog2 maxTileAreaSB (uint (sbCols * sbRows))) (unat (ti_MinLog2Cols tiles)))\<rparr>
        in rbind ReadBool (\<lambda>uniform. let tiles = tiles\<lparr>ti_UniformSpacing := uniform\<rparr> in
           rbind (if uniform then parseUniformTileLayout (unat sbCols) (unat sbRows) tiles
                  else parseExplicitTileLayout (unat sbCols) (unat sbRows) (nat maxTileWidthSB) maxTileAreaSB tiles) (\<lambda>tiles.
           if ti_Cols tiles = 0 \<or> ti_Rows tiles = 0 then rfail ErrInvalidFrameHeader
           else if ti_Log2Cols tiles \<noteq> 0 \<or> ti_Log2Rows tiles \<noteq> 0 then
             rbind (ReadBits (ti_Log2Cols tiles + ti_Log2Rows tiles)) (\<lambda>v.
             if v \<ge> ucast (ti_Cols tiles) * ucast (ti_Rows tiles) then rfail ErrInvalidFrameHeader
             else rbind (ReadBits 2) (\<lambda>w.
               rret (tiles\<lparr>ti_ContextUpdateTileID := ucast v, ti_TileSizeBytes := ucast (w + 1)\<rparr>)))
           else rret tiles)))"

definition ParseTileInfo_body :: "SequenceHeader \<Rightarrow> FrameHeaderPrefix \<Rightarrow> FrameSize \<Rightarrow> TileInfo rd" where
  "ParseTileInfo_body seq prefix sz =
     rbind (parsePostSizeFrameControls seq prefix zero_TileInfo) (\<lambda>tiles.
     rbind (if \<not> sh_ReducedStillPictureHeader seq \<and> \<not> fh_DisableCDFUpdate prefix
            then rbind ReadBool (\<lambda>disableRefresh. rret (tiles\<lparr>ti_RefreshContext := \<not> disableRefresh\<rparr>)) else rret tiles) (\<lambda>tiles.
     rbind (parseTileLayout seq sz tiles) (\<lambda>tiles.
     rbind readerBitsRead (\<lambda>bitsRead. rret (tiles\<lparr>ti_BitsRead := bitsRead\<rparr>)))))"

definition ParseTileInfo :: "bytes \<Rightarrow> SequenceHeader \<Rightarrow> FrameHeaderPrefix \<Rightarrow> FrameSize \<Rightarrow> go_err + TileInfo" where
  "ParseTileInfo payload seq prefix sz =
     (if fh_ShowExistingFrame prefix then Inl ErrInvalidFrameHeader
      else if fs_CodedWidth sz = 0 \<or> fs_Height sz = 0 then Inl ErrInvalidFrameHeader
      else on_payload payload (fs_BitsRead sz) (ParseTileInfo_body seq prefix sz))"

section \<open>Logarithms and uniform codes\<close>

lemma tileLog2_loop_covers: "0 < sz \<Longrightarrow> target \<le> sz * 2 ^ tileLog2_loop sz target k"
  by (induction sz target k rule: tileLog2_loop.induct) (subst tileLog2_loop.simps, auto simp: tileLog2_loop.simps)

lemma tileLog2_loop_le: "0 < sz \<Longrightarrow> k \<le> b \<Longrightarrow> target \<le> sz * 2 ^ b \<Longrightarrow> tileLog2_loop sz target k \<le> b"
proof (induction sz target k rule: tileLog2_loop.induct)
  case (1 sz target k)
  show ?case
  proof (cases "sz * 2 ^ k < target")
    case True
    then have "k \<noteq> b" using 1(4) by auto
    then show ?thesis using 1 True by (subst tileLog2_loop.simps) simp
  qed (use 1 in \<open>subst tileLog2_loop.simps, simp\<close>)
qed

text \<open>\<open>tileLog2 sz target\<close> is the least \<open>k\<close> with \<open>target \<le> sz << k\<close>.\<close>

lemma tileLog2_covers: "0 < sz \<Longrightarrow> target \<le> sz * 2 ^ tileLog2 sz target"
  by (simp add: tileLog2_def tileLog2_loop_covers)

lemma tileLog2_le: "0 < sz \<Longrightarrow> target \<le> sz * 2 ^ b \<Longrightarrow> tileLog2 sz target \<le> b"
  by (simp add: tileLog2_def tileLog2_loop_le)

lemma ceilShift32_bounds:
  assumes "1 \<le> unat v" "unat v \<le> 65536" "bits = 6 \<or> bits = 7"
  shows "1 \<le> unat (ceilShift32 v bits) \<and> unat (ceilShift32 v bits) \<le> 1024"
proof -
  have "v + 2 ^ unat bits - 1 = v + (2 ^ unat bits - 1)" by simp
  moreover have "unat (v + 63) = unat v + 63" "unat (v + 127) = unat v + 127"
    using assms(2) by (simp_all add: unat_word_ariths)
  ultimately have u: "unat (ceilShift32 v bits) = (unat v + (2 ^ unat bits - 1)) div 2 ^ unat bits"
    using assms(3) by (auto simp: ceilShift32_def drop_bit_eq_div unat_div add_diff_eq [symmetric])
  then show ?thesis using assms by auto
qed

lemma unat_push_bit_one: "n < 32 \<Longrightarrow> unat (push_bit n (1 :: u32)) = 2 ^ n"
  by (simp add: unat_pow2_u32)

lemma readUniform_len_bounds:
  assumes "2 \<le> unat m" "unat m < 2 ^ 31" "l < 31" "2 ^ l \<le> unat m"
  shows "2 ^ readUniform_len m l \<le> unat m \<and> unat m < 2 ^ (readUniform_len m l + 1) \<and> readUniform_len m l < 31"
  using assms
proof (induction m l rule: readUniform_len.induct)
  case (1 m l)
  have p: "unat (push_bit (l + 1) (1 :: u32)) = 2 ^ (l + 1)" using 1(4) by (intro unat_push_bit_one) simp
  show ?case
  proof (cases "push_bit (l + 1) 1 \<le> m")
    case True
    then have le: "2 ^ (l + 1) \<le> unat m" using p by (simp only: word_le_nat_alt)
    then have "(2 :: nat) ^ (l + 1) < 2 ^ 31" using 1(3) by linarith
    then have "l + 1 < 31" by (rule power_less_imp_less_exp [rotated]) simp
    then show ?thesis using 1 True le by (subst (1 2 3) readUniform_len.simps) simp
  next
    case False
    then have "unat m < 2 ^ (l + 1)" using p by (simp only: word_le_nat_alt not_le)
    then show ?thesis using 1 False by (subst (1 2 3) readUniform_len.simps) simp
  qed
qed

lemma rpost_ReadBit: "rpost ReadBit (\<lambda>b. unat b \<le> 1)"
proof -
  have "b = 0 \<or> b = 1" if "ReadBit r = (Inr b, r')" for r r' b
    using that by (cases "rd_bits r") (auto simp: ReadBit_Nil ReadBit_Cons)
  then show ?thesis by (force simp: rpost_def)
qed

text \<open>The uniform code reads a value below its bound.\<close>

lemma rpost_readUniform:
  assumes "1 \<le> unat mx" "unat mx < 2 ^ 31"
  shows "rpost (readUniform mx) (\<lambda>v. unat v < unat mx)"
proof (cases "mx \<le> 1")
  case True
  then show ?thesis using assms by (auto simp: readUniform_def rpost_rret)
next
  case False
  then have "\<not> unat mx \<le> 1" by (simp add: word_le_nat_alt)
  then have two: "2 \<le> unat mx" by simp
  define l where "l = readUniform_len mx 0"
  have l: "2 ^ l \<le> unat mx" "unat mx < 2 ^ (l + 1)" "l < 31"
    using readUniform_len_bounds [OF two assms(2), of 0] two by (simp_all add: l_def)
  have "l + 1 < 32" using l(3) by simp
  note p = unat_push_bit_one [OF this]
  have "mx \<le> push_bit (l + 1) 1" unfolding word_le_nat_alt p using l(2) by simp
  from unat_sub [OF this] have m: "unat (push_bit (l + 1) 1 - mx) = 2 ^ (l + 1) - unat mx" unfolding p .
  have lw: "unat (word_of_nat l :: u8) = l" using l(3) by (simp add: unat_of_nat take_bit_nat_eq_self)
  have v: "unat (ucast v :: u32) = unat v" if "unat v < 2 ^ l" for v :: u64
  proof -
    have "(2 :: nat) ^ l < 2 ^ 32" using l(3) by (intro power_strict_increasing) simp_all
    then show ?thesis using that by (simp add: unsigned_ucast_eq take_bit_nat_eq_self)
  qed
  have small: "unat v < unat mx" if "unat v < 2 ^ l" for v :: u64 using that l(1) by linarith
  have big: "unat (push_bit 1 (ucast v) - (push_bit (l + 1) 1 - mx) + ucast b :: u32) < unat mx"
    if "unat v < 2 ^ l" "\<not> (ucast v :: u32) < push_bit (l + 1) 1 - mx" "unat (b :: u8) \<le> 1" for v :: u64 and b
  proof -
    have ge: "2 ^ (l + 1) - unat mx \<le> unat v" using that(2) by (simp only: word_less_nat_alt not_less m v [OF that(1)])
    have p32: "(2 :: nat) ^ (l + 1) < 2 ^ 32" using l(3) by (intro power_strict_increasing) simp_all
    have "unat (push_bit 1 (ucast v) :: u32) = 2 * unat v"
      using that(1) p32 v [OF that(1)] by (simp add: push_bit_Suc unat_word_ariths)
    then have "unat (push_bit 1 (ucast v) - (push_bit (l + 1) 1 - mx) :: u32) = 2 * unat v - (2 ^ (l + 1) - unat mx)"
      using ge m by (subst unat_sub) (simp_all add: word_le_nat_alt)
    moreover have "2 * unat v - (2 ^ (l + 1) - unat mx) + unat b < unat mx" using that(1,3) ge l(2) by simp
    moreover have "unat mx < 2 ^ 32" using assms(2) by simp
    ultimately show ?thesis using that(3) by (simp add: unat_word_ariths unat_ucast_up)
  qed
  show ?thesis
    unfolding readUniform_def l_def [symmetric] Let_def using False
    by (auto simp: lw v small big [simplified] intro!: rpost_bind_ReadBits rpost_if rpost_rret rpost_rbind [OF rpost_ReadBit])
qed

section \<open>The starts partition the frame\<close>

definition tile_step :: "nat \<Rightarrow> nat \<Rightarrow> nat \<Rightarrow> bool" where
  "tile_step w a b \<longleftrightarrow> a < b \<and> b \<le> a + w"

text \<open>
  \<open>n\<close> tiles of at most \<open>w\<close> superblocks cover the superblocks from 0 to \<open>sbEnd\<close>: the starts increase from
  0, and the entry after the last start is the end.
\<close>

definition tile_starts_ok :: "nat \<Rightarrow> nat \<Rightarrow> nat \<Rightarrow> u16 list \<Rightarrow> bool" where
  "tile_starts_ok w sbEnd n starts \<longleftrightarrow> length starts = 65 \<and> 1 \<le> n \<and> n \<le> 64 \<and>
     successively (tile_step w) (map unat (take (n + 1) starts)) \<and> unat (starts ! 0) = 0 \<and> unat (starts ! n) = sbEnd"

definition starts_inv :: "nat \<Rightarrow> nat \<Rightarrow> nat \<Rightarrow> nat \<Rightarrow> u16 list \<Rightarrow> bool" where
  "starts_inv w sbEnd n sb starts \<longleftrightarrow> length starts = 65 \<and> n \<le> 64 \<and>
     successively (tile_step w) (map unat (take n starts) @ [sb]) \<and> (n = 0 \<longrightarrow> sb = 0) \<and> (0 < n \<longrightarrow> unat (starts ! 0) = 0) \<and>
     (\<forall>x \<in> set (take n starts). unat x < sbEnd)"

lemma take_Suc_update: "n < length xs \<Longrightarrow> take (Suc n) (xs[n := x]) = take n xs @ [x]"
  by (simp add: take_Suc_conv_app_nth)

lemma unat_u16_small: "k < 65536 \<Longrightarrow> unat (word_of_nat k :: u16) = k"
  by (simp add: unat_of_nat take_bit_nat_eq_self)

lemma starts_inv_start: "length starts = 65 \<Longrightarrow> starts_inv w sbEnd 0 0 starts"
  by (simp add: starts_inv_def)

lemma starts_inv_step:
  assumes "starts_inv w sbEnd n sb starts" "sb < sbEnd" "sbEnd \<le> 65535" "n < 64" "0 < t" "t \<le> w"
  shows "starts_inv w sbEnd (n + 1) (sb + t) (starts[n := word_of_nat sb])"
proof -
  have sb: "unat (word_of_nat sb :: u16) = sb" using assms(2,3) by (intro unat_u16_small) simp
  have tk: "take (n + 1) (starts[n := word_of_nat sb]) = take n starts @ [word_of_nat sb]"
    using assms(1,4) take_Suc_update [of n starts] by (simp add: starts_inv_def)
  have "successively (tile_step w) (map unat (take n starts) @ [sb])" using assms(1) by (simp add: starts_inv_def)
  then have "successively (tile_step w) ((map unat (take n starts) @ [sb]) @ [sb + t])"
    using assms(5,6) by (subst successively_append_iff) (simp add: tile_step_def)
  then show ?thesis
    using assms sb unfolding starts_inv_def tk by (auto simp: nth_list_update)
qed

lemma starts_inv_end:
  assumes "starts_inv w sbEnd n sb starts" "sbEnd \<le> sb" "0 < sbEnd" "sbEnd \<le> 65535"
  shows "tile_starts_ok w sbEnd n (starts[n := word_of_nat sbEnd])"
proof -
  have n: "1 \<le> n" "n \<le> 64" "length starts = 65" using assms by (auto simp: starts_inv_def Suc_le_eq)
  have e: "unat (word_of_nat sbEnd :: u16) = sbEnd" using assms(4) by (intro unat_u16_small) simp
  have tk: "take (n + 1) (starts[n := word_of_nat sbEnd]) = take n starts @ [word_of_nat sbEnd]"
    using n take_Suc_update [of n starts] by simp
  have ne: "take n starts \<noteq> []" using n by auto
  then have "last (take n starts) \<in> set (take n starts)" by (rule last_in_set)
  then have "unat (last (take n starts)) < sbEnd" using assms(1) by (auto simp: starts_inv_def)
  then have "successively (tile_step w) (map unat (take n starts) @ [sbEnd])"
    using assms(1,2) ne by (auto simp: starts_inv_def successively_append_iff tile_step_def last_map)
  then show ?thesis
    using assms(1) n e unfolding tile_starts_ok_def tk by (auto simp: starts_inv_def)
qed

lemma uniformStarts_inv:
  assumes "uniformStarts 64 t sbEnd sb n starts = Inr (n', starts')" "starts_inv w sbEnd n sb starts"
    "0 < t" "t \<le> w" "sbEnd \<le> 65535" "0 < sbEnd"
  shows "tile_starts_ok w sbEnd n' (starts'[n' := word_of_nat sbEnd])"
  using assms
proof (induction "64 :: nat" t sbEnd sb n starts rule: uniformStarts.induct)
  case (1 t sbEnd sb n starts)
  show ?case
  proof (cases "sb < sbEnd")
    case True
    then have "n < 64" "uniformStarts 64 t sbEnd (sb + t) (n + 1) (starts[n := word_of_nat sb]) = Inr (n', starts')"
      using 1(2) unfolding uniformStarts.simps [of 64 t sbEnd sb n starts] by (simp_all split: if_splits)
    moreover have "starts_inv w sbEnd (n + 1) (sb + t) (starts[n := word_of_nat sb])"
      using 1(3-) True \<open>n < 64\<close> by (intro starts_inv_step) simp_all
    ultimately show ?thesis using 1(1) [OF True] 1(4-) by simp
  next
    case False
    then have "n' = n" "starts' = starts" using 1(2) unfolding uniformStarts.simps [of 64 t sbEnd sb n starts] by simp_all
    then show ?thesis using 1(3-) False by (auto intro: starts_inv_end)
  qed
qed

lemma rpost_readTileSize:
  assumes "1 \<le> limit" "limit \<le> 65535"
  shows "rpost (readTileSize limit) (\<lambda>t. 0 < t \<and> t \<le> limit)"
proof -
  have "unat (word_of_nat limit :: u32) = limit" using assms(2) by (simp add: unat_of_nat take_bit_nat_eq_self)
  then show ?thesis
    unfolding readTileSize_def using assms rpost_readUniform [of "word_of_nat limit"]
    by (auto intro!: rpost_if rpost_rret rpost_rbind [OF rpost_readUniform [of "word_of_nat limit"]])
qed

lemma rpost_explicitStarts:
  assumes "starts_inv w sbEnd n sb starts" "n + k = 64" "1 \<le> maxSB" "maxSB \<le> w \<or> sbEnd \<le> w" "sb \<le> sbEnd" "sbEnd \<le> 65535"
  shows "rpost (explicitStarts k maxSB sbEnd sb n widest starts) (\<lambda>(sb', n', widest', starts'). starts_inv w sbEnd n' sb' starts')"
  using assms
proof (induction k arbitrary: sb n widest starts)
  case (Suc k)
  have "starts_inv w sbEnd (n + 1) (sb + t) (starts[n := word_of_nat sb])"
    if "sb < sbEnd" "0 < t" "t \<le> min (sbEnd - sb) maxSB" for t
    using Suc.prems that by (intro starts_inv_step) auto
  then show ?case
    unfolding explicitStarts.simps using Suc.prems
    by (auto intro!: rpost_if rpost_rret rpost_rbind [OF rpost_readTileSize] Suc.IH)
qed (auto intro: rpost_rret)

section \<open>Well-formed tile layouts\<close>

definition sb_log2 :: "SequenceHeader \<Rightarrow> nat" where
  "sb_log2 seq = (if sh_Use128x128Superblock seq then 7 else 6)"

text \<open>
  The columns and the rows of the tiles partition the superblocks of the frame, no tile is wider than
  4096 samples, and the tile whose contexts are kept is one of the frame.
\<close>

definition tiles_ok :: "SequenceHeader \<Rightarrow> FrameSize \<Rightarrow> TileInfo \<Rightarrow> bool" where
  "tiles_ok seq sz ti \<longleftrightarrow>
     ti_SBCols ti = ucast (ceilShift32 (fs_CodedWidth sz) (word_of_nat (sb_log2 seq))) \<and>
     ti_SBRows ti = ucast (ceilShift32 (fs_Height sz) (word_of_nat (sb_log2 seq))) \<and>
     tile_starts_ok (4096 div 2 ^ sb_log2 seq) (unat (ti_SBCols ti)) (unat (ti_Cols ti)) (ti_ColStartSB ti) \<and>
     tile_starts_ok (unat (ti_SBRows ti)) (unat (ti_SBRows ti)) (unat (ti_Rows ti)) (ti_RowStartSB ti) \<and>
     unat (ti_ContextUpdateTileID ti) < unat (ti_Cols ti) * unat (ti_Rows ti) \<and> unat (ti_TileSizeBytes ti) \<le> 4 \<and>
     (ti_Log2Cols ti \<noteq> 0 \<or> ti_Log2Rows ti \<noteq> 0 \<longrightarrow> 1 \<le> unat (ti_TileSizeBytes ti))"

definition layout_ok :: "nat \<Rightarrow> nat \<Rightarrow> nat \<Rightarrow> TileInfo \<Rightarrow> bool" where
  "layout_ok w sbCols sbRows ti \<longleftrightarrow>
     tile_starts_ok w sbCols (unat (ti_Cols ti)) (ti_ColStartSB ti) \<and>
     tile_starts_ok sbRows sbRows (unat (ti_Rows ti)) (ti_RowStartSB ti)"

text \<open>The fields that the layouts do not touch.\<close>

definition same_frame :: "TileInfo \<Rightarrow> TileInfo \<Rightarrow> bool" where
  "same_frame ti ti' \<longleftrightarrow> ti_SBCols ti' = ti_SBCols ti \<and> ti_SBRows ti' = ti_SBRows ti \<and>
     ti_ContextUpdateTileID ti' = ti_ContextUpdateTileID ti \<and> ti_TileSizeBytes ti' = ti_TileSizeBytes ti"

lemma rpost_readLog2Increments: "unat l + k < 256 \<Longrightarrow> rpost (readLog2Increments k l) (\<lambda>l'. unat l \<le> unat l' \<and> unat l' \<le> unat l + k)"
proof (induction k arbitrary: l)
  case (Suc k)
  then have "unat (l + 1) = unat l + 1" by (simp add: unat_word_ariths)
  then show ?case
    using Suc.IH [of "l + 1"] Suc.prems by (auto intro!: rpost_bind_ReadBool rpost_if rpost_rret elim: rpost_conseq)
qed (auto intro: rpost_rret)

lemma uniform_step_le:
  assumes "sbCols \<le> w * 2 ^ l" "0 < sbCols"
  shows "1 + drop_bit l (sbCols - 1) \<le> (w :: nat)"
  using assms by (simp add: drop_bit_eq_div Suc_le_eq less_mult_imp_div_less)

lemma unat_u8_small: "k < 256 \<Longrightarrow> unat (word_of_nat k :: u8) = k"
  by (simp add: unat_of_nat take_bit_nat_eq_self)

lemma tile_starts_ok_count: "tile_starts_ok w e n starts \<Longrightarrow> unat (word_of_nat n :: u8) = n"
  by (intro unat_u8_small) (simp add: tile_starts_ok_def)

lemma rpost_parseUniformTileLayout:
  assumes "1 \<le> sbCols" "sbCols \<le> 1024" "1 \<le> sbRows" "sbRows \<le> 1024" "sbCols \<le> w * 2 ^ unat (ti_MinLog2Cols ti)"
    "length (ti_ColStartSB ti) = 65" "length (ti_RowStartSB ti) = 65"
  shows "rpost (parseUniformTileLayout sbCols sbRows ti) (\<lambda>ti'. layout_ok w sbCols sbRows ti' \<and> same_frame ti ti')"
proof -
  have b: "unat (a :: u8) + (unat (b :: u8) - unat a) < 256" for a b
    using unsigned_less [of a, where 'a = nat] unsigned_less [of b, where 'a = nat] by simp
  have c: "tile_starts_ok w sbCols n (starts[n := word_of_nat sbCols])"
    if "uniformStarts 64 (1 + drop_bit (unat l) (sbCols - 1)) sbCols 0 0 (ti_ColStartSB ti) = Inr (n, starts)"
      "unat (ti_MinLog2Cols ti) \<le> unat l" for n starts and l :: u8
  proof (rule uniformStarts_inv [OF that(1) starts_inv_start])
    have "w * 2 ^ unat (ti_MinLog2Cols ti) \<le> w * 2 ^ unat l" using that(2) by (simp add: power_increasing)
    then have "sbCols \<le> w * 2 ^ unat l" using assms(5) by linarith
    then show "1 + drop_bit (unat l) (sbCols - 1) \<le> w" using assms(1) by (intro uniform_step_le) simp_all
  qed (use assms in simp_all)
  have r: "tile_starts_ok sbRows sbRows n (starts[n := word_of_nat sbRows])"
    if "uniformStarts 64 (1 + drop_bit (unat l) (sbRows - 1)) sbRows 0 0 (ti_RowStartSB ti) = Inr (n, starts)"
    for n starts and l :: u8
    using assms by (intro uniformStarts_inv [OF that starts_inv_start] uniform_step_le) simp_all
  show ?thesis
    unfolding parseUniformTileLayout_def
    by (rule rpost_rbind [OF rpost_readLog2Increments [OF b]])
      (auto simp: Let_def frame_consts layout_ok_def same_frame_def tile_starts_ok_count [OF c] tile_starts_ok_count [OF r] c [simplified] r [simplified]
        split: sum.split intro!: rpost_rfail rpost_rret rpost_rbind [OF rpost_readLog2Increments [OF b]])
qed

lemma rpost_parseExplicitTileLayout:
  assumes "1 \<le> sbCols" "sbCols \<le> 1024" "1 \<le> sbRows" "sbRows \<le> 1024" "1 \<le> w"
    "length (ti_ColStartSB ti) = 65" "length (ti_RowStartSB ti) = 65"
  shows "rpost (parseExplicitTileLayout sbCols sbRows w area ti) (\<lambda>ti'. layout_ok w sbCols sbRows ti' \<and> same_frame ti ti')"
proof -
  have c: "tile_starts_ok w sbCols n (starts[n := word_of_nat sbCols])" if "starts_inv w sbCols n sb starts" "\<not> sb < sbCols" for n sb starts
    using that assms by (intro starts_inv_end [OF that(1)]) simp_all
  have r: "tile_starts_ok sbRows sbRows n (starts[n := word_of_nat sbRows])" if "starts_inv sbRows sbRows n sb starts" "\<not> sb < sbRows" for n sb starts
    using that assms by (intro starts_inv_end [OF that(1)]) simp_all
  have i: "starts_inv w sbCols 0 0 (ti_ColStartSB ti)" "starts_inv sbRows sbRows 0 0 (ti_RowStartSB ti)"
    using assms(6,7) by (simp_all add: starts_inv_start)
  note cols = rpost_explicitStarts [OF i(1), of 64 w 0] and rows = rpost_explicitStarts [OF i(2), of 64 _ 0]
  show ?thesis
    unfolding parseExplicitTileLayout_def frame_consts
    by (rule rpost_rbind [OF cols])
      (use assms in \<open>auto simp: Let_def layout_ok_def same_frame_def tile_starts_ok_count [OF c] tile_starts_ok_count [OF r] c r
        split: prod.split intro!: rpost_if rpost_rfail rpost_rret rpost_rbind [OF rows]\<close>)
qed

lemma ucast_u8_mult: "unat (ucast (a :: u8) * ucast (b :: u8) :: u64) = unat a * unat b"
proof -
  have "unat a \<le> 255" "unat b \<le> 255" using unsigned_less [of a, where 'a = nat] unsigned_less [of b, where 'a = nat] by simp_all
  then have "unat a * unat b \<le> 255 * 255" by (rule mult_le_mono)
  then show ?thesis by (simp add: unat_word_ariths unat_ucast_up)
qed

lemma layout_ok_context [simp]:
  "layout_ok w c r (ti\<lparr>ti_ContextUpdateTileID := i\<rparr>) = layout_ok w c r ti" "layout_ok w c r (ti\<lparr>ti_TileSizeBytes := b\<rparr>) = layout_ok w c r ti"
  by (simp_all add: layout_ok_def)

text \<open>The last part of the layout: the tile whose contexts are kept, and the width of tile sizes.\<close>

lemma rpost_tile_context:
  assumes "layout_ok w c r ti" "ti_ContextUpdateTileID ti = 0" "ti_TileSizeBytes ti = 0"
  shows "rpost (if ti_Cols ti = 0 \<or> ti_Rows ti = 0 then rfail ErrInvalidFrameHeader
           else if ti_Log2Cols ti \<noteq> 0 \<or> ti_Log2Rows ti \<noteq> 0 then
             rbind (ReadBits (ti_Log2Cols ti + ti_Log2Rows ti)) (\<lambda>v.
             if v \<ge> ucast (ti_Cols ti) * ucast (ti_Rows ti) then rfail ErrInvalidFrameHeader
             else rbind (ReadBits 2) (\<lambda>w.
               rret (ti\<lparr>ti_ContextUpdateTileID := ucast v, ti_TileSizeBytes := ucast (w + 1)\<rparr>)))
           else rret ti)
     (\<lambda>ti'. layout_ok w c r ti' \<and> ti_SBCols ti' = ti_SBCols ti \<and> ti_SBRows ti' = ti_SBRows ti \<and>
        unat (ti_ContextUpdateTileID ti') < unat (ti_Cols ti') * unat (ti_Rows ti') \<and> unat (ti_TileSizeBytes ti') \<le> 4 \<and>
        (ti_Log2Cols ti' \<noteq> 0 \<or> ti_Log2Rows ti' \<noteq> 0 \<longrightarrow> 1 \<le> unat (ti_TileSizeBytes ti')))"
proof -
  have n: "unat (ti_Cols ti) \<le> 64" "unat (ti_Rows ti) \<le> 64" "0 < unat (ti_Cols ti)" "0 < unat (ti_Rows ti)"
    using assms(1) by (auto simp: layout_ok_def tile_starts_ok_def)
  have p: "unat (ti_Cols ti) * unat (ti_Rows ti) \<le> 64 * 64" using n by (intro mult_le_mono) simp_all
  have v: "unat (ucast v :: u16) < unat (ti_Cols ti) * unat (ti_Rows ti)"
    if "\<not> ucast (ti_Cols ti) * ucast (ti_Rows ti) \<le> v" for v :: u64
  proof -
    have "unat v < unat (ti_Cols ti) * unat (ti_Rows ti)" using that by (simp only: not_le word_less_nat_alt ucast_u8_mult)
    then show ?thesis using p by (simp add: unsigned_ucast_eq take_bit_nat_eq_self)
  qed
  have b: "unat (ucast (w + 1) :: u8) = unat w + 1" if "unat w < 4" for w :: u64 using that by (intro u8_succ) simp
  show ?thesis
    by (intro rpost_if rpost_rfail rpost_bind_ReadBits rpost_rret) (use assms n v b in auto)
qed

lemma rpost_parseTileLayout:
  assumes "frame_area_ok sz" "coded_ok sz" "length (ti_ColStartSB ti) = 65" "length (ti_RowStartSB ti) = 65"
    "ti_ContextUpdateTileID ti = 0" "ti_TileSizeBytes ti = 0"
  shows "rpost (parseTileLayout seq sz ti) (tiles_ok seq sz)"
proof -
  define lg where "lg = (if sh_Use128x128Superblock seq then 7 else 6 :: u8)"
  define c where "c = ceilShift32 (fs_CodedWidth sz) lg"
  define r where "r = ceilShift32 (fs_Height sz) lg"
  have lg: "lg = 6 \<or> lg = 7" "lg = word_of_nat (sb_log2 seq)" "unat lg = sb_log2 seq" by (auto simp: lg_def sb_log2_def)
  have "1 \<le> unat (fs_CodedWidth sz)" "unat (fs_CodedWidth sz) \<le> 65536" "1 \<le> unat (fs_Height sz)" "unat (fs_Height sz) \<le> 65536"
    using assms(1,2) by (auto simp: frame_area_ok_def coded_ok_def)
  then have cr: "1 \<le> unat c" "unat c \<le> 1024" "1 \<le> unat r" "unat r \<le> 1024"
    using ceilShift32_bounds lg(1) by (simp_all add: c_def r_def)
  define w where "w = nat (drop_bit (unat lg) maxTileWidthPixels)"
  have wi: "drop_bit (unat lg) maxTileWidthPixels = int w" by (simp add: w_def maxTileWidthPixels_def)
  have w: "w = 4096 div 2 ^ sb_log2 seq" "w = 64 \<or> w = 32"
    using lg(1) by (auto simp: w_def maxTileWidthPixels_def drop_bit_eq_div lg(3) [symmetric])
  have u16: "unat (ucast c :: u16) = unat c" "unat (ucast r :: u16) = unat r"
    using cr by (simp_all add: unsigned_ucast_eq take_bit_nat_eq_self)
  have ui: "uint c = int (unat c)" by simp
  then have "uint c \<le> 1024" using cr(2) by linarith
  then have "tileLog2 (int w) (uint c) \<le> 5" using w(2) by (intro tileLog2_le) auto
  then have l: "unat (word_of_nat (tileLog2 (int w) (uint c)) :: u8) = tileLog2 (int w) (uint c)" by (intro unat_u8_small) simp
  have "int (unat c) \<le> int (w * 2 ^ tileLog2 (int w) (uint c))"
    using tileLog2_covers [of "int w" "uint c"] w(2) unfolding ui by auto
  then have m: "unat c \<le> w * 2 ^ unat (word_of_nat (tileLog2 (int w) (uint c)) :: u8)"
    unfolding l by (simp only: of_nat_le_iff)
  show ?thesis
    unfolding parseTileLayout_def Let_def lg_def [symmetric] c_def [symmetric] r_def [symmetric] wi nat_int
    apply (intro rpost_if rpost_rfail rpost_bind_ReadBool)
    apply (rule rpost_rbind [where P = "\<lambda>ti'. layout_ok w (unat c) (unat r) ti' \<and> ti_SBCols ti' = ucast c \<and> ti_SBRows ti' = ucast r \<and>
       ti_ContextUpdateTileID ti' = 0 \<and> ti_TileSizeBytes ti' = 0"])
    subgoal using cr m w(2) assms
      by (auto intro!: rpost_if rpost_conseq [OF rpost_parseUniformTileLayout [where w = w]] rpost_conseq [OF rpost_parseExplicitTileLayout]
          simp: same_frame_def)
    subgoal premises prems for uniform ti'
      using prems u16 by (intro rpost_conseq [OF rpost_tile_context [of w "unat c" "unat r" ti']])
        (auto simp: tiles_ok_def layout_ok_def c_def r_def lg(2) w(1))
    done
qed

section \<open>The stage\<close>

definition tiles_fresh :: "TileInfo \<Rightarrow> bool" where
  "tiles_fresh ti \<longleftrightarrow> length (ti_ColStartSB ti) = 65 \<and> length (ti_RowStartSB ti) = 65 \<and>
     ti_ContextUpdateTileID ti = 0 \<and> ti_TileSizeBytes ti = 0"

lemma rpost_parsePostSizeFrameControls:
  assumes "tiles_fresh ti" shows "rpost (parsePostSizeFrameControls seq prefix ti) tiles_fresh"
  unfolding parsePostSizeFrameControls_def by (intro rd_post) (use assms in \<open>simp_all add: tiles_fresh_def\<close>)

lemma rpost_ParseTileInfo_body:
  assumes "size_ok sz" shows "rpost (ParseTileInfo_body seq prefix sz) (tiles_ok seq sz)"
proof -
  have z: "tiles_fresh zero_TileInfo" by (simp add: tiles_fresh_def zero_TileInfo_def frame_consts)
  have "tiles_ok seq sz (ti\<lparr>ti_BitsRead := b\<rparr>) = tiles_ok seq sz ti" for ti b by (simp add: tiles_ok_def)
  moreover have "rpost (parseTileLayout seq sz ti) (tiles_ok seq sz)" if "tiles_fresh ti" for ti
    using that assms by (intro rpost_parseTileLayout) (simp_all add: tiles_fresh_def size_ok_def)
  ultimately show ?thesis
    unfolding ParseTileInfo_body_def
    by (intro rpost_rbind [OF rpost_parsePostSizeFrameControls [OF z]] rpost_bind_if rpost_bind_bind rpost_bind_ReadBool rpost_bind_rret
        rpost_rbind [where P = "tiles_ok seq sz"] rpost_bind_any [of _ _ readerBitsRead] rpost_rret)
      (auto simp: tiles_fresh_def)
qed

lemma forward_readUniform [rd_safe]: "forward (readUniform m)"
  unfolding readUniform_def by (intro rd_safe)

lemma forward_parseTileLayout [rd_safe]: "forward (parseTileLayout seq sz ti)"
proof -
  have [rd_safe]: "forward (readLog2Increments k l)" for k l by (induction k arbitrary: l) (auto intro!: rd_safe)
  have [rd_safe]: "forward (explicitStarts k m e sb n w starts)" for k m e sb n w starts
    by (induction k arbitrary: sb n w starts) (auto simp: readTileSize_def intro!: rd_safe)
  have [rd_safe]: "(\<And>a b. forward (f a b)) \<Longrightarrow> forward (case x of (a, b) \<Rightarrow> f a b)" for f x by (cases x) auto
  show ?thesis
    unfolding parseTileLayout_def parseUniformTileLayout_def parseExplicitTileLayout_def by (intro rd_safe)
qed

interpretation tile_stage: header_stage "ParseTileInfo_body seq prefix sz" ti_BitsRead for seq prefix sz
proof (rule header_stageI)
  show "forward (ParseTileInfo_body seq prefix sz)"
    unfolding ParseTileInfo_body_def parsePostSizeFrameControls_def by (intro rd_safe)
  show "reports (ParseTileInfo_body seq prefix sz) ti_BitsRead"
    unfolding ParseTileInfo_body_def by (intro rd_reports reports_end) simp
qed

text \<open>
  C9: every tile layout that the parser accepts for a well-formed frame size partitions the frame: the starts of
  the columns and of the rows increase from 0 to the number of superblocks, no tile is wider than
  4096 samples, at most 64 rows and columns are used, the tile that keeps the contexts exists, and the
  stage ends inside the payload.
\<close>

theorem ParseTileInfo_partition:
  assumes "ParseTileInfo payload seq prefix sz = Inr ti" "size_ok sz"
  shows "tiles_ok seq sz ti \<and> unat (fs_BitsRead sz) \<le> unat (ti_BitsRead ti) \<and> unat (ti_BitsRead ti) \<le> 8 * length payload"
proof -
  have p: "on_payload payload (fs_BitsRead sz) (ParseTileInfo_body seq prefix sz) = Inr ti"
    using assms(1) by (auto simp: ParseTileInfo_def split: if_splits)
  then show ?thesis
    using on_payload_post [OF rpost_ParseTileInfo_body [OF assms(2)] p] tile_stage.stage_bounds [OF p] by simp
qed

text \<open>A frame of the given dimensions without super-resolution.\<close>

definition plain_size :: "u32 \<Rightarrow> u32 \<Rightarrow> FrameSize" where
  "plain_size w h = zero_FrameSize\<lparr>fs_CodedWidth := w, fs_UpscaledWidth := w, fs_Height := h, fs_RenderWidth := w, fs_RenderHeight := h,
     fs_SuperResDenominator := 8\<rparr>"

lemma plain_size_ok:
  "1 \<le> unat w \<Longrightarrow> unat w \<le> 65536 \<Longrightarrow> 1 \<le> unat h \<Longrightarrow> unat h \<le> 65536 \<Longrightarrow> size_ok (plain_size w h)"
  by (simp add: size_ok_def slots_ok_zero frame_area_ok_def coded_ok_def render_ok_def plain_size_def)
     (simp add: zero_FrameSize_def)

theorem ParseTileInfo_partition_witness:
  "\<exists>ti. ParseTileInfo [0x70, 0x00] zero_SequenceHeader zero_FrameHeaderPrefix (plain_size 320 180) = Inr ti \<and>
     ti_Cols ti = 3 \<and> tiles_ok zero_SequenceHeader (plain_size 320 180) ti"
proof -
  let ?r = "ParseTileInfo [0x70, 0x00] zero_SequenceHeader zero_FrameHeaderPrefix (plain_size 320 180)"
  have "case ?r of Inr ti \<Rightarrow> ti_Cols ti = 3 | Inl _ \<Rightarrow> False" by code_simp
  then obtain ti where "?r = Inr ti" "ti_Cols ti = 3" by (cases ?r) auto
  with ParseTileInfo_partition [OF this(1)] plain_size_ok [of 320 180] show ?thesis by auto
qed


end
