(* ===== verification/Frame_Params.thy ===== *)
theory Frame_Params
  imports Tile_Info
begin

text \<open>
  The parameter stages between the tile layout and the motion parameters: \<open>quant.go\<close>,
  \<open>segmentation.go\<close>, \<open>delta.go\<close>, \<open>loopfilter.go\<close>, \<open>cdef.go\<close>, \<open>restoration.go\<close>,
  \<open>transform_reference.go\<close> and \<open>frame_mode.go\<close> of \<open>internal/av1/parser\<close>. Each stage continues where the
  one before it stopped.
\<close>

section \<open>Quantization\<close>

definition readSignedBits :: "u8 \<Rightarrow> int rd" where
  "readSignedBits n = rbind (ReadBits n) (\<lambda>v.
     let shift = unat (32 - n)
     in rret (i16 (drop_bit shift (sint (push_bit shift (ucast v :: u32))))))"

definition readDeltaQ :: "int rd" where
  "readDeltaQ = rbind ReadBool (\<lambda>present. if \<not> present then rret 0 else readSignedBits 7)"

definition ParseQuantizationParams_body :: "SequenceHeader \<Rightarrow> QuantizationParams rd" where
  "ParseQuantizationParams_body seq =
     (let quant = zero_QuantizationParams; cc = sh_ColorConfig seq in
     rbind (ReadBits 8) (\<lambda>v. let quant = quant\<lparr>qp_BaseQIdx := ucast v\<rparr> in
     rbind readDeltaQ (\<lambda>d. let quant = quant\<lparr>qp_YDCDelta := d\<rparr> in
     rbind (if \<not> cc_MonoChrome cc then
              rbind (if cc_SeparateUVDeltaQ cc then rbind ReadBool (\<lambda>b. rret (quant\<lparr>qp_DiffUVDeltas := b\<rparr>)) else rret quant) (\<lambda>quant.
              rbind readDeltaQ (\<lambda>d. let quant = quant\<lparr>qp_UDCDelta := d\<rparr> in
              rbind readDeltaQ (\<lambda>d. let quant = quant\<lparr>qp_UACDelta := d\<rparr> in
              if qp_DiffUVDeltas quant then
                rbind readDeltaQ (\<lambda>d. let quant = quant\<lparr>qp_VDCDelta := d\<rparr> in
                rbind readDeltaQ (\<lambda>d. rret (quant\<lparr>qp_VACDelta := d\<rparr>)))
              else rret (quant\<lparr>qp_VDCDelta := qp_UDCDelta quant, qp_VACDelta := qp_UACDelta quant\<rparr>))))
            else rret quant) (\<lambda>quant.
     rbind ReadBool (\<lambda>b. let quant = quant\<lparr>qp_UsingQMatrix := b\<rparr> in
     rbind (if qp_UsingQMatrix quant then
              rbind (ReadBits 4) (\<lambda>v. let quant = quant\<lparr>qp_QMatrixLevelY := ucast v\<rparr> in
              rbind (ReadBits 4) (\<lambda>v. let quant = quant\<lparr>qp_QMatrixLevelU := ucast v\<rparr> in
              if cc_SeparateUVDeltaQ cc then rbind (ReadBits 4) (\<lambda>v. rret (quant\<lparr>qp_QMatrixLevelV := ucast v\<rparr>))
              else rret (quant\<lparr>qp_QMatrixLevelV := qp_QMatrixLevelU quant\<rparr>)))
            else rret quant) (\<lambda>quant.
     rbind readerBitsRead (\<lambda>bitsRead. rret (quant\<lparr>qp_BitsRead := bitsRead\<rparr>))))))))"

definition ParseQuantizationParams :: "bytes \<Rightarrow> SequenceHeader \<Rightarrow> TileInfo \<Rightarrow> go_err + QuantizationParams" where
  "ParseQuantizationParams payload seq tiles = on_payload payload (ti_BitsRead tiles) (ParseQuantizationParams_body seq)"

section \<open>Segmentation\<close>

definition readSegmentSignedFeature :: "u8 \<Rightarrow> (bool \<times> int) rd" where
  "readSegmentSignedFeature bits = rbind ReadBool (\<lambda>enabled.
     if \<not> enabled then rret (False, 0)
     else rbind (readSignedBits bits) (\<lambda>v. rret (True, v)))"

text \<open>The conditional updates of \<open>LastActiveID\<close> and \<open>Preskip\<close>, and one round of the loop of \<open>readSegmentationData\<close>.\<close>

fun markActive :: "nat \<Rightarrow> bool \<Rightarrow> SegmentationData \<Rightarrow> SegmentationData" where
  "markActive i True data = data\<lparr>sgd_LastActiveID := i8 (int i)\<rparr>"
| "markActive i False data = data"

fun markPreskip :: "nat \<Rightarrow> bool \<Rightarrow> SegmentationData \<Rightarrow> SegmentationData" where
  "markPreskip i True data = data\<lparr>sgd_LastActiveID := i8 (int i), sgd_Preskip := True\<rparr>"
| "markPreskip i False data = data"

definition readSegment :: "nat \<Rightarrow> SegmentationData \<Rightarrow> SegmentationData rd" where
  "readSegment i data =
     (let seg = (sgd_Segments data ! i)\<lparr>sg_RefFrame := - 1\<rparr>
      in rbind (readSegmentSignedFeature 9) (\<lambda>(active, v). let seg = seg\<lparr>sg_DeltaQ := v\<rparr>; data = markActive i active data in
      rbind (readSegmentSignedFeature 7) (\<lambda>(active, v). let seg = seg\<lparr>sg_DeltaLFYV := v\<rparr>; data = markActive i active data in
      rbind (readSegmentSignedFeature 7) (\<lambda>(active, v). let seg = seg\<lparr>sg_DeltaLFYH := v\<rparr>; data = markActive i active data in
      rbind (readSegmentSignedFeature 7) (\<lambda>(active, v). let seg = seg\<lparr>sg_DeltaLFU := v\<rparr>; data = markActive i active data in
      rbind (readSegmentSignedFeature 7) (\<lambda>(active, v). let seg = seg\<lparr>sg_DeltaLFV := v\<rparr>; data = markActive i active data in
      rbind ReadBool (\<lambda>refEnabled.
      rbind (if refEnabled then rbind (ReadBits 3) (\<lambda>v.
               rret (seg\<lparr>sg_RefFrame := i8 (uint v)\<rparr>, markPreskip i True data))
             else rret (seg, data)) (\<lambda>(seg, data).
      rbind ReadBool (\<lambda>skip. let seg = seg\<lparr>sg_Skip := skip\<rparr>;
          data = markPreskip i skip data in
      rbind ReadBool (\<lambda>globalMV. let seg = seg\<lparr>sg_GlobalMV := globalMV\<rparr>;
          data = markPreskip i globalMV data in
      rret (data\<lparr>sgd_Segments := (sgd_Segments data)[i := seg]\<rparr>)))))))))))"

primrec readSegmentationData_loop :: "nat \<Rightarrow> nat \<Rightarrow> SegmentationData \<Rightarrow> SegmentationData rd" where
  "readSegmentationData_loop 0 i data = rret data"
| "readSegmentationData_loop (Suc k) i data = rbind (readSegment i data) (readSegmentationData_loop k (i + 1))"

definition readSegmentationData :: "SegmentationData rd" where
  "readSegmentationData r = readSegmentationData_loop MaxSegments 0 (zero_SegmentationData\<lparr>sgd_LastActiveID := - 1\<rparr>) r"

definition clearSegmentationRefs :: SegmentationData where
  "clearSegmentationRefs = zero_SegmentationData\<lparr>sgd_LastActiveID := - 1,
     sgd_Segments := map (\<lambda>seg. seg\<lparr>sg_RefFrame := - 1\<rparr>) (sgd_Segments zero_SegmentationData)\<rparr>"

text \<open>The value \<open>q\<close> of one segment, clamped to a byte.\<close>

definition segment_q :: "SegmentationParams \<Rightarrow> QuantizationParams \<Rightarrow> nat \<Rightarrow> int" where
  "segment_q seg quant i =
     (let q = uint (qp_BaseQIdx quant);
          q = (if sgp_Enabled seg then i16 (q + sg_DeltaQ (sgd_Segments (sgp_Data seg) ! i)) else q)
      in if q < 0 then 0 else if q > 255 then 255 else q)"

definition deriveSegmentationQIndex :: "SegmentationParams \<Rightarrow> QuantizationParams \<Rightarrow> SegmentationParams" where
  "deriveSegmentationQIndex seg quant =
     (let deltaLossless = (qp_YDCDelta quant = 0 \<and> qp_UDCDelta quant = 0 \<and> qp_UACDelta quant = 0 \<and>
            qp_VDCDelta quant = 0 \<and> qp_VACDelta quant = 0)
      in foldl (\<lambda>seg i.
           let q = segment_q seg quant i;
               seg = seg\<lparr>sgp_QIndex := (sgp_QIndex seg)[i := word_of_int q],
                         sgp_Lossless := (sgp_Lossless seg)[i := (q = 0 \<and> deltaLossless)]\<rparr>
           in seg\<lparr>sgp_AllLossless := sgp_AllLossless seg \<and> sgp_Lossless seg ! i\<rparr>)
         (seg\<lparr>sgp_AllLossless := True\<rparr>) [0..<MaxSegments])"

definition ParseSegmentationParams_body ::
    "FrameHeaderPrefix \<Rightarrow> QuantizationParams \<Rightarrow> SegmentationData option \<Rightarrow> SegmentationParams rd" where
  "ParseSegmentationParams_body prefix quant previous =
     rbind ReadBool (\<lambda>enabled. let seg = zero_SegmentationParams\<lparr>sgp_Enabled := enabled\<rparr> in
     rbind (if enabled then
              rbind (if fh_PrimaryRefFrame prefix = PrimaryRefNone then rret (seg\<lparr>sgp_UpdateMap := True, sgp_UpdateData := True\<rparr>)
                     else
                       rbind ReadBool (\<lambda>b. let seg = seg\<lparr>sgp_UpdateMap := b\<rparr> in
                       rbind (if b then rbind ReadBool (\<lambda>t. rret (seg\<lparr>sgp_TemporalUpdate := t\<rparr>)) else rret seg) (\<lambda>seg.
                       rbind ReadBool (\<lambda>d. rret (seg\<lparr>sgp_UpdateData := d\<rparr>))))) (\<lambda>seg.
              if sgp_UpdateData seg then rbind readSegmentationData (\<lambda>data. rret (seg\<lparr>sgp_Data := data\<rparr>))
              else (case previous of None \<Rightarrow> rfail ErrReferenceFrameNeeded | Some p \<Rightarrow> rret (seg\<lparr>sgp_Data := p\<rparr>)))
            else rret (seg\<lparr>sgp_Data := clearSegmentationRefs\<rparr>)) (\<lambda>seg.
     let seg = deriveSegmentationQIndex seg quant
     in rbind readerBitsRead (\<lambda>bitsRead. rret (seg\<lparr>sgp_BitsRead := bitsRead\<rparr>))))"

definition ParseSegmentationParams ::
    "bytes \<Rightarrow> FrameHeaderPrefix \<Rightarrow> QuantizationParams \<Rightarrow> SegmentationData option \<Rightarrow> go_err + SegmentationParams" where
  "ParseSegmentationParams payload prefix quant previous =
     on_payload payload (qp_BitsRead quant) (ParseSegmentationParams_body prefix quant previous)"

section \<open>Delta quantizer and loop filter\<close>

definition ParseDeltaParams_body :: "FrameSize \<Rightarrow> QuantizationParams \<Rightarrow> DeltaParams rd" where
  "ParseDeltaParams_body sz quant =
     (let delta = zero_DeltaParams in
     rbind (if qp_BaseQIdx quant \<noteq> 0 then
              rbind ReadBool (\<lambda>present. let delta = delta\<lparr>dl_DeltaQPresent := present\<rparr> in
              if present then
                rbind (ReadBits 2) (\<lambda>v. let delta = delta\<lparr>dl_DeltaQResLog2 := ucast v\<rparr> in
                rbind (if \<not> fs_AllowIntrabc sz then rbind ReadBool (\<lambda>b. rret (delta\<lparr>dl_DeltaLFPresent := b\<rparr>)) else rret delta) (\<lambda>delta.
                if dl_DeltaLFPresent delta then
                  rbind (ReadBits 2) (\<lambda>v. let delta = delta\<lparr>dl_DeltaLFResLog2 := ucast v\<rparr> in
                  rbind ReadBool (\<lambda>b. rret (delta\<lparr>dl_DeltaLFMulti := b\<rparr>)))
                else rret delta))
              else rret delta)
            else rret delta) (\<lambda>delta.
     rbind readerBitsRead (\<lambda>bitsRead. rret (delta\<lparr>dl_BitsRead := bitsRead\<rparr>))))"

definition ParseDeltaParams :: "bytes \<Rightarrow> FrameSize \<Rightarrow> QuantizationParams \<Rightarrow> SegmentationParams \<Rightarrow> go_err + DeltaParams" where
  "ParseDeltaParams payload sz quant seg = on_payload payload (sgp_BitsRead seg) (ParseDeltaParams_body sz quant)"

definition defaultLoopFilterDeltas :: LoopFilterDeltas where
  "defaultLoopFilterDeltas = \<lparr>lfd_Ref = [1, 0, 0, 0, - 1, 0, - 1, - 1], lfd_Mode = [0, 0]\<rparr>"

text \<open>One of the two loops of \<open>readLoopFilterDeltaUpdates\<close> over an array of deltas.\<close>

primrec readDeltaUpdates_loop :: "nat \<Rightarrow> nat \<Rightarrow> int list \<Rightarrow> int list rd" where
  "readDeltaUpdates_loop 0 i ds = rret ds"
| "readDeltaUpdates_loop (Suc k) i ds =
     rbind ReadBool (\<lambda>update.
     if \<not> update then readDeltaUpdates_loop k (i + 1) ds
     else rbind (readSignedBits 7) (\<lambda>v. readDeltaUpdates_loop k (i + 1) (ds[i := i8 v])))"

definition readLoopFilterDeltaUpdates :: "LoopFilterDeltas \<Rightarrow> LoopFilterDeltas rd" where
  "readLoopFilterDeltaUpdates deltas =
     rbind (readDeltaUpdates_loop RefFrames 0 (lfd_Ref deltas)) (\<lambda>ref. let deltas = deltas\<lparr>lfd_Ref := ref\<rparr> in
     rbind (readDeltaUpdates_loop LoopFilterModeDeltas 0 (lfd_Mode deltas)) (\<lambda>mode.
     rret (deltas\<lparr>lfd_Mode := mode\<rparr>)))"

definition ParseLoopFilterParams_body ::
    "SequenceHeader \<Rightarrow> FrameHeaderPrefix \<Rightarrow> FrameSize \<Rightarrow> SegmentationParams \<Rightarrow> LoopFilterDeltas option \<Rightarrow> LoopFilterParams rd" where
  "ParseLoopFilterParams_body seq prefix sz seg previous =
     (let lf = zero_LoopFilterParams in
      if sgp_AllLossless seg \<or> fs_AllowIntrabc sz then
        rbind readerBitsRead (\<lambda>bitsRead.
        rret (lf\<lparr>lf_ModeRefDeltaEnabled := True, lf_ModeRefDeltaUpdate := True, lf_Deltas := defaultLoopFilterDeltas, lf_BitsRead := bitsRead\<rparr>))
      else
        rbind (if fh_PrimaryRefFrame prefix = PrimaryRefNone then rret (lf\<lparr>lf_Deltas := defaultLoopFilterDeltas\<rparr>)
               else (case previous of None \<Rightarrow> rfail ErrReferenceFrameNeeded | Some p \<Rightarrow> rret (lf\<lparr>lf_Deltas := p\<rparr>))) (\<lambda>lf.
        rbind (ReadBits 6) (\<lambda>v0. rbind (ReadBits 6) (\<lambda>v1. let lf = lf\<lparr>lf_LevelY := [ucast v0, ucast v1]\<rparr> in
        rbind (if \<not> cc_MonoChrome (sh_ColorConfig seq) \<and> (lf_LevelY lf ! 0 \<noteq> 0 \<or> lf_LevelY lf ! 1 \<noteq> 0) then
                 rbind (ReadBits 6) (\<lambda>v. let lf = lf\<lparr>lf_LevelU := ucast v\<rparr> in
                 rbind (ReadBits 6) (\<lambda>v. rret (lf\<lparr>lf_LevelV := ucast v\<rparr>)))
               else rret lf) (\<lambda>lf.
        rbind (ReadBits 3) (\<lambda>v. let lf = lf\<lparr>lf_Sharpness := ucast v\<rparr> in
        rbind ReadBool (\<lambda>b. let lf = lf\<lparr>lf_ModeRefDeltaEnabled := b\<rparr> in
        rbind (if b then
                 rbind ReadBool (\<lambda>u. let lf = lf\<lparr>lf_ModeRefDeltaUpdate := u\<rparr> in
                 if u then rbind (readLoopFilterDeltaUpdates (lf_Deltas lf)) (\<lambda>d. rret (lf\<lparr>lf_Deltas := d\<rparr>)) else rret lf)
               else rret lf) (\<lambda>lf.
        rbind readerBitsRead (\<lambda>bitsRead. rret (lf\<lparr>lf_BitsRead := bitsRead\<rparr>))))))))))"

definition ParseLoopFilterParams ::
    "bytes \<Rightarrow> SequenceHeader \<Rightarrow> FrameHeaderPrefix \<Rightarrow> FrameSize \<Rightarrow> SegmentationParams \<Rightarrow> DeltaParams \<Rightarrow> LoopFilterDeltas option \<Rightarrow>
       go_err + LoopFilterParams" where
  "ParseLoopFilterParams payload seq prefix sz seg delta previous =
     on_payload payload (dl_BitsRead delta) (ParseLoopFilterParams_body seq prefix sz seg previous)"

section \<open>CDEF and loop restoration\<close>

primrec readCDEFStrengths :: "nat \<Rightarrow> nat \<Rightarrow> bool \<Rightarrow> CDEFParams \<Rightarrow> CDEFParams rd" where
  "readCDEFStrengths 0 i monochrome cdef = rret cdef"
| "readCDEFStrengths (Suc k) i monochrome cdef =
     rbind (ReadBits 6) (\<lambda>v. let cdef = cdef\<lparr>cd_YStrength := (cd_YStrength cdef)[i := ucast v]\<rparr> in
     rbind (if \<not> monochrome then rbind (ReadBits 6) (\<lambda>v. rret (cdef\<lparr>cd_UVStrength := (cd_UVStrength cdef)[i := ucast v]\<rparr>))
            else rret cdef) (readCDEFStrengths k (i + 1) monochrome))"

definition ParseCDEFParams_body :: "SequenceHeader \<Rightarrow> FrameSize \<Rightarrow> SegmentationParams \<Rightarrow> CDEFParams rd" where
  "ParseCDEFParams_body seq sz seg =
     (let cdef = zero_CDEFParams in
      if sgp_AllLossless seg \<or> \<not> sh_EnableCDEF seq \<or> fs_AllowIntrabc sz then
        rbind readerBitsRead (\<lambda>bitsRead. rret (cdef\<lparr>cd_BitsRead := bitsRead\<rparr>))
      else
        rbind (ReadBits 2) (\<lambda>v. let cdef = cdef\<lparr>cd_Damping := ucast (v + 3)\<rparr> in
        rbind (ReadBits 2) (\<lambda>v. let cdef = cdef\<lparr>cd_Bits := ucast v\<rparr>;
            cdef = cdef\<lparr>cd_StrengthCount := push_bit (unat (cd_Bits cdef)) 1\<rparr> in
        rbind (readCDEFStrengths (unat (cd_StrengthCount cdef)) 0 (cc_MonoChrome (sh_ColorConfig seq)) cdef) (\<lambda>cdef.
        rbind readerBitsRead (\<lambda>bitsRead. rret (cdef\<lparr>cd_BitsRead := bitsRead\<rparr>))))))"

definition ParseCDEFParams ::
    "bytes \<Rightarrow> SequenceHeader \<Rightarrow> FrameSize \<Rightarrow> SegmentationParams \<Rightarrow> LoopFilterParams \<Rightarrow> go_err + CDEFParams" where
  "ParseCDEFParams payload seq sz seg lf = on_payload payload (lf_BitsRead lf) (ParseCDEFParams_body seq sz seg)"

definition RestorationUnitMax :: u16 where "RestorationUnitMax = 256"

text \<open>The unit sizes when some plane is restored.\<close>

definition readRestorationUnits :: "SequenceHeader \<Rightarrow> RestorationParams \<Rightarrow> RestorationParams rd" where
  "readRestorationUnits seq restoration =
     (let log2 = (if sh_Use128x128Superblock seq then 7 else 6) :: u8; cc = sh_ColorConfig seq in
     rbind ReadBool (\<lambda>increase.
     rbind (if increase then
              let log2 = log2 + 1
              in if \<not> sh_Use128x128Superblock seq then rbind ReadBool (\<lambda>more. rret (if more then log2 + 1 else log2)) else rret log2
            else rret log2) (\<lambda>log2.
     let restoration = restoration\<lparr>rs_UnitSizeYLog2 := log2, rs_UnitSizeUVLog2 := log2\<rparr> in
     rbind (if \<not> cc_MonoChrome cc \<and> (rs_Type restoration ! 1 \<noteq> RestorationNone \<or> rs_Type restoration ! 2 \<noteq> RestorationNone) \<and>
               cc_SubsamplingX cc \<and> cc_SubsamplingY cc then
              rbind ReadBool (\<lambda>smaller.
              rret (if smaller then restoration\<lparr>rs_UnitSizeUVLog2 := rs_UnitSizeUVLog2 restoration - 1\<rparr> else restoration))
            else rret restoration) (\<lambda>restoration.
     rret (restoration\<lparr>rs_UnitSizeY := push_bit (unat (rs_UnitSizeYLog2 restoration)) 1,
                       rs_UnitSizeUV := push_bit (unat (rs_UnitSizeUVLog2 restoration)) 1\<rparr>)))))"

definition ParseRestorationParams_body :: "SequenceHeader \<Rightarrow> FrameSize \<Rightarrow> SegmentationParams \<Rightarrow> RestorationParams rd" where
  "ParseRestorationParams_body seq sz seg =
     (let restoration = zero_RestorationParams in
      if (sgp_AllLossless seg \<and> \<not> fs_SuperResEnabled sz) \<or> \<not> sh_EnableRestoration seq \<or> fs_AllowIntrabc sz then
        rbind readerBitsRead (\<lambda>bitsRead. rret (restoration\<lparr>rs_BitsRead := bitsRead\<rparr>))
      else
        rbind (ReadBits 2) (\<lambda>v. let restoration = restoration\<lparr>rs_Type := (rs_Type restoration)[0 := RestorationType_of v]\<rparr> in
        rbind (if \<not> cc_MonoChrome (sh_ColorConfig seq) then
                 rbind (ReadBits 2) (\<lambda>v. let restoration = restoration\<lparr>rs_Type := (rs_Type restoration)[1 := RestorationType_of v]\<rparr> in
                 rbind (ReadBits 2) (\<lambda>v. rret (restoration\<lparr>rs_Type := (rs_Type restoration)[2 := RestorationType_of v]\<rparr>)))
               else rret restoration) (\<lambda>restoration.
        rbind (if rs_Type restoration ! 0 \<noteq> RestorationNone \<or> rs_Type restoration ! 1 \<noteq> RestorationNone \<or>
                  rs_Type restoration ! 2 \<noteq> RestorationNone
               then readRestorationUnits seq restoration
               else rret (restoration\<lparr>rs_UnitSizeYLog2 := 8, rs_UnitSizeUVLog2 := 8,
                                      rs_UnitSizeY := RestorationUnitMax, rs_UnitSizeUV := RestorationUnitMax\<rparr>)) (\<lambda>restoration.
        rbind readerBitsRead (\<lambda>bitsRead. rret (restoration\<lparr>rs_BitsRead := bitsRead\<rparr>))))))"

definition ParseRestorationParams ::
    "bytes \<Rightarrow> SequenceHeader \<Rightarrow> FrameSize \<Rightarrow> SegmentationParams \<Rightarrow> CDEFParams \<Rightarrow> go_err + RestorationParams" where
  "ParseRestorationParams payload seq sz seg cdef = on_payload payload (cd_BitsRead cdef) (ParseRestorationParams_body seq sz seg)"

section \<open>Transform, reference and frame modes\<close>

definition ParseTransformReferenceParams_body :: "FrameHeaderPrefix \<Rightarrow> SegmentationParams \<Rightarrow> TransformReferenceParams rd" where
  "ParseTransformReferenceParams_body prefix seg =
     (let params = \<lparr>tr_TransformMode = TransformMode4x4Only, tr_ReferenceMode = ReferenceModeSingle, tr_BitsRead = 0\<rparr> in
     rbind (if \<not> sgp_AllLossless seg then
              rbind ReadBool (\<lambda>selectable.
              rret (params\<lparr>tr_TransformMode := (if selectable then TransformModeSwitchable else TransformModeLargest)\<rparr>))
            else rret params) (\<lambda>params.
     rbind (if frameTypeIsInterOrSwitch (fh_FrameType prefix) then
              rbind ReadBool (\<lambda>selectable. rret (if selectable then params\<lparr>tr_ReferenceMode := ReferenceModeSelect\<rparr> else params))
            else rret params) (\<lambda>params.
     rbind readerBitsRead (\<lambda>bitsRead. rret (params\<lparr>tr_BitsRead := bitsRead\<rparr>)))))"

definition ParseTransformReferenceParams ::
    "bytes \<Rightarrow> FrameHeaderPrefix \<Rightarrow> SegmentationParams \<Rightarrow> RestorationParams \<Rightarrow> go_err + TransformReferenceParams" where
  "ParseTransformReferenceParams payload prefix seg restoration =
     on_payload payload (rs_BitsRead restoration) (ParseTransformReferenceParams_body prefix seg)"

definition ParseFrameModeParams_body :: "SequenceHeader \<Rightarrow> FrameHeaderPrefix \<Rightarrow> FrameModeParams rd" where
  "ParseFrameModeParams_body seq prefix =
     (let params = zero_FrameModeParams in
     rbind (if \<not> fh_ErrorResilientMode prefix \<and> frameTypeIsInterOrSwitch (fh_FrameType prefix) \<and> sh_EnableWarpedMotion seq
            then rbind ReadBool (\<lambda>allow. rret (params\<lparr>fm_AllowWarpedMotion := allow\<rparr>)) else rret params) (\<lambda>params.
     rbind ReadBool (\<lambda>reduced. let params = params\<lparr>fm_ReducedTxSet := reduced\<rparr> in
     rbind readerBitsRead (\<lambda>bitsRead. rret (params\<lparr>fm_BitsRead := bitsRead\<rparr>)))))"

definition ParseFrameModeParams ::
    "bytes \<Rightarrow> SequenceHeader \<Rightarrow> FrameHeaderPrefix \<Rightarrow> SkipModeParams \<Rightarrow> go_err + FrameModeParams" where
  "ParseFrameModeParams payload seq prefix skip = on_payload payload (sk_BitsRead skip) (ParseFrameModeParams_body seq prefix)"

section \<open>The stages read forward and report where they stop\<close>

lemma forward_readSignedBits [rd_safe]: "forward (readSignedBits n)"
  unfolding readSignedBits_def by (intro rd_safe)

lemma forward_readDeltaQ [rd_safe]: "forward readDeltaQ"
  unfolding readDeltaQ_def by (intro rd_safe)

lemma forward_readSegmentationData [rd_safe]: "forward readSegmentationData"
proof -
  have [rd_safe]: "forward (readSegment i data)" for i data
    unfolding readSegment_def readSegmentSignedFeature_def by (intro rd_safe)
  have "forward (readSegmentationData_loop k i data)" for k i data
    by (induction k arbitrary: i data) (auto intro!: rd_safe)
  then show ?thesis by (simp add: readSegmentationData_def [abs_def])
qed

lemma forward_readLoopFilterDeltaUpdates [rd_safe]: "forward (readLoopFilterDeltaUpdates d)"
proof -
  have [rd_safe]: "forward (readDeltaUpdates_loop k i ds)" for k i ds
    by (induction k arbitrary: i ds) (auto intro!: rd_safe)
  show ?thesis unfolding readLoopFilterDeltaUpdates_def by (intro rd_safe)
qed

lemma forward_readCDEFStrengths [rd_safe]: "forward (readCDEFStrengths k i monochrome cdef)"
  by (induction k arbitrary: i cdef) (auto simp: Let_def intro!: rd_safe)

lemma forward_readRestorationUnits [rd_safe]: "forward (readRestorationUnits seq rs)"
  unfolding readRestorationUnits_def by (intro rd_safe)

interpretation quant_stage: header_stage "ParseQuantizationParams_body seq" qp_BitsRead for seq
proof (rule header_stageI)
  show "forward (ParseQuantizationParams_body seq)" unfolding ParseQuantizationParams_body_def by (intro rd_safe)
  show "reports (ParseQuantizationParams_body seq) qp_BitsRead" unfolding ParseQuantizationParams_body_def by (intro rd_reports reports_end) simp
qed

interpretation segmentation_stage: header_stage "ParseSegmentationParams_body prefix quant previous" sgp_BitsRead for prefix quant previous
proof (rule header_stageI)
  show "forward (ParseSegmentationParams_body prefix quant previous)" unfolding ParseSegmentationParams_body_def by (intro rd_safe)
  show "reports (ParseSegmentationParams_body prefix quant previous) sgp_BitsRead"
    unfolding ParseSegmentationParams_body_def by (intro rd_reports reports_end) simp
qed

interpretation delta_stage: header_stage "ParseDeltaParams_body sz quant" dl_BitsRead for sz quant
proof (rule header_stageI)
  show "forward (ParseDeltaParams_body sz quant)" unfolding ParseDeltaParams_body_def by (intro rd_safe)
  show "reports (ParseDeltaParams_body sz quant) dl_BitsRead" unfolding ParseDeltaParams_body_def by (intro rd_reports reports_end) simp
qed

interpretation loopfilter_stage: header_stage "ParseLoopFilterParams_body seq prefix sz seg previous" lf_BitsRead for seq prefix sz seg previous
proof (rule header_stageI)
  show "forward (ParseLoopFilterParams_body seq prefix sz seg previous)" unfolding ParseLoopFilterParams_body_def by (intro rd_safe)
  show "reports (ParseLoopFilterParams_body seq prefix sz seg previous) lf_BitsRead"
    unfolding ParseLoopFilterParams_body_def by (intro rd_reports reports_end) simp_all
qed

interpretation cdef_stage: header_stage "ParseCDEFParams_body seq sz seg" cd_BitsRead for seq sz seg
proof (rule header_stageI)
  show "forward (ParseCDEFParams_body seq sz seg)" unfolding ParseCDEFParams_body_def by (intro rd_safe)
  show "reports (ParseCDEFParams_body seq sz seg) cd_BitsRead"
    unfolding ParseCDEFParams_body_def by (intro rd_reports reports_end) simp_all
qed

interpretation restoration_stage: header_stage "ParseRestorationParams_body seq sz seg" rs_BitsRead for seq sz seg
proof (rule header_stageI)
  show "forward (ParseRestorationParams_body seq sz seg)" unfolding ParseRestorationParams_body_def by (intro rd_safe)
  show "reports (ParseRestorationParams_body seq sz seg) rs_BitsRead"
    unfolding ParseRestorationParams_body_def by (intro rd_reports reports_end) simp_all
qed

interpretation transform_stage: header_stage "ParseTransformReferenceParams_body prefix seg" tr_BitsRead for prefix seg
proof (rule header_stageI)
  show "forward (ParseTransformReferenceParams_body prefix seg)" unfolding ParseTransformReferenceParams_body_def by (intro rd_safe)
  show "reports (ParseTransformReferenceParams_body prefix seg) tr_BitsRead"
    unfolding ParseTransformReferenceParams_body_def by (intro rd_reports reports_end) simp
qed

interpretation mode_stage: header_stage "ParseFrameModeParams_body seq prefix" fm_BitsRead for seq prefix
proof (rule header_stageI)
  show "forward (ParseFrameModeParams_body seq prefix)" unfolding ParseFrameModeParams_body_def by (intro rd_safe)
  show "reports (ParseFrameModeParams_body seq prefix) fm_BitsRead"
    unfolding ParseFrameModeParams_body_def by (intro rd_reports reports_end) simp
qed

section \<open>Signed fields\<close>

lemma signed_field:
  assumes "1 \<le> n" "n \<le> 16"
  shows "i16 (drop_bit (32 - n) (sint (push_bit (32 - n) w :: u32))) = signed_take_bit (n - 1) (uint w)"
proof -
  have "drop_bit (32 - n) (sint (push_bit (32 - n) w :: u32)) = signed_take_bit (n - 1) (uint w)"
    using assms by (intro bit_eqI) (auto simp: bit_simps min_def)
  moreover have "i16 (signed_take_bit (n - 1) (uint w)) = signed_take_bit (n - 1) (uint w)"
    using assms unfolding i16_def by (simp add: signed_take_bit_signed_take_bit)
  ultimately show ?thesis by simp
qed

lemma rpost_readSignedBits:
  assumes "1 \<le> unat n" "unat n \<le> 16"
  shows "rpost (readSignedBits n) (\<lambda>v. - (2 ^ (unat n - 1)) \<le> v \<and> v < 2 ^ (unat n - 1))"
proof -
  have "n \<le> 32" using assms(2) by (simp add: word_le_nat_alt)
  then have s: "unat (32 - n) = 32 - unat n" by (simp add: unat_sub)
  show ?thesis
    unfolding readSignedBits_def Let_def s signed_field [OF assms]
    by (intro rpost_bind_ReadBits rpost_rret) (simp add: signed_take_bit_int_greater_eq_minus_exp signed_take_bit_int_less_exp)
qed

lemma rpost_readSignedBits_7: "rpost (readSignedBits 7) (\<lambda>v. - 64 \<le> v \<and> v \<le> 63)"
  using rpost_readSignedBits [of 7] by (auto elim!: rpost_conseq)

lemma rpost_readSignedBits_9: "rpost (readSignedBits 9) (\<lambda>v. - 256 \<le> v \<and> v \<le> 255)"
  using rpost_readSignedBits [of 9] by (auto elim!: rpost_conseq)

lemma rpost_readDeltaQ: "rpost readDeltaQ (\<lambda>v. - 64 \<le> v \<and> v \<le> 63)"
  unfolding readDeltaQ_def by (intro rpost_bind_ReadBool rpost_if rpost_rret rpost_readSignedBits_7) simp

section \<open>Ranges of the parameters\<close>

definition quant_ok :: "QuantizationParams \<Rightarrow> bool" where
  "quant_ok q \<longleftrightarrow> (\<forall>d \<in> {qp_YDCDelta q, qp_UDCDelta q, qp_UACDelta q, qp_VDCDelta q, qp_VACDelta q}. - 64 \<le> d \<and> d \<le> 63) \<and>
     unat (qp_QMatrixLevelY q) < 16 \<and> unat (qp_QMatrixLevelU q) < 16 \<and> unat (qp_QMatrixLevelV q) < 16"

lemma u8_field_4: "unat (v :: u64) < 2 ^ unat (4 :: u8) \<Longrightarrow> unat (ucast v :: u8) < 16"
  using u8_of_small [of v 16] by simp

lemma u8_field_6: "unat (v :: u64) < 2 ^ unat (6 :: u8) \<Longrightarrow> unat (ucast v :: u8) < 64"
  using u8_of_small [of v 64] by simp

lemma rpost_ParseQuantizationParams_body: "rpost (ParseQuantizationParams_body seq) quant_ok"
  unfolding ParseQuantizationParams_body_def
  by (intro rd_post rpost_rbind [OF rpost_readDeltaQ] rpost_bind_any [of _ _ readerBitsRead])
    (use u8_field_4 in \<open>auto simp: quant_ok_def zero_QuantizationParams_def\<close>)

definition segment_ok :: "SegmentData \<Rightarrow> bool" where
  "segment_ok s \<longleftrightarrow> - 256 \<le> sg_DeltaQ s \<and> sg_DeltaQ s \<le> 255 \<and>
     (\<forall>d \<in> {sg_DeltaLFYV s, sg_DeltaLFYH s, sg_DeltaLFU s, sg_DeltaLFV s}. - 64 \<le> d \<and> d \<le> 63) \<and>
     - 1 \<le> sg_RefFrame s \<and> sg_RefFrame s \<le> 7"

definition preskip_feature :: "SegmentData \<Rightarrow> bool" where
  "preskip_feature s \<longleftrightarrow> sg_RefFrame s \<noteq> - 1 \<or> sg_Skip s \<or> sg_GlobalMV s"

text \<open>The segments read so far are in range, and \<open>Preskip\<close> and \<open>LastActiveID\<close> summarise them.\<close>

definition segments_read :: "nat \<Rightarrow> SegmentationData \<Rightarrow> bool" where
  "segments_read i d \<longleftrightarrow> length (sgd_Segments d) = MaxSegments \<and> (\<forall>s \<in> set (take i (sgd_Segments d)). segment_ok s) \<and>
     (sgd_Preskip d \<longleftrightarrow> (\<exists>s \<in> set (take i (sgd_Segments d)). preskip_feature s)) \<and>
     - 1 \<le> sgd_LastActiveID d \<and> sgd_LastActiveID d < int i"

definition seg_data_ok :: "SegmentationData \<Rightarrow> bool" where
  "seg_data_ok = segments_read MaxSegments"

lemma rpost_bind_feature_7:
  assumes "\<And>a v. - 64 \<le> v \<Longrightarrow> v \<le> 63 \<Longrightarrow> rpost (f (a, v)) Q"
  shows "rpost (rbind (readSegmentSignedFeature 7) f) Q"
  unfolding readSegmentSignedFeature_def using assms
  by (auto intro!: rpost_bind_bind rpost_bind_ReadBool rpost_bind_if rpost_bind_rret rpost_rbind [OF rpost_readSignedBits_7])

lemma rpost_bind_feature_9:
  assumes "\<And>a v. - 256 \<le> v \<Longrightarrow> v \<le> 255 \<Longrightarrow> rpost (f (a, v)) Q"
  shows "rpost (rbind (readSegmentSignedFeature 9) f) Q"
  unfolding readSegmentSignedFeature_def using assms
  by (auto intro!: rpost_bind_bind rpost_bind_ReadBool rpost_bind_if rpost_bind_rret rpost_rbind [OF rpost_readSignedBits_9])

lemma rpost_case_pair: "rpost (f a b) Q \<Longrightarrow> rpost (case (a, b) of (x, y) \<Rightarrow> f x y) Q"
  by simp

lemma i8_small: "- 128 \<le> k \<Longrightarrow> k < 128 \<Longrightarrow> i8 k = k"
  by (simp add: i8_def signed_take_bit_int_eq_self)

text \<open>The fields of the data while one segment is read: only \<open>LastActiveID\<close> and \<open>Preskip\<close> move.\<close>

definition seg_between :: "nat \<Rightarrow> SegmentationData \<Rightarrow> SegmentationData \<Rightarrow> bool \<Rightarrow> bool" where
  "seg_between i d d' p \<longleftrightarrow> sgd_Segments d' = sgd_Segments d \<and> sgd_LastActiveID d' \<in> {sgd_LastActiveID d, int i} \<and>
     (sgd_Preskip d' \<longleftrightarrow> sgd_Preskip d \<or> p)"

lemma segments_read_store:
  assumes "segments_read i d" "i < MaxSegments" "seg_between i d d' (preskip_feature s)" "segment_ok s"
  shows "segments_read (Suc i) (d'\<lparr>sgd_Segments := (sgd_Segments d')[i := s]\<rparr>)"
proof -
  have "take (Suc i) ((sgd_Segments d)[i := s]) = take i (sgd_Segments d) @ [s]"
    using assms(1,2) by (simp add: segments_read_def take_Suc_update)
  then show ?thesis using assms by (auto simp: segments_read_def seg_between_def)
qed

lemma markActive_if: "markActive i b d = (if b then d\<lparr>sgd_LastActiveID := i8 (int i)\<rparr> else d)"
  by (cases b) simp_all

lemma markPreskip_if: "markPreskip i b d = (if b then d\<lparr>sgd_LastActiveID := i8 (int i), sgd_Preskip := True\<rparr> else d)"
  by (cases b) simp_all

lemma rpost_readSegment:
  assumes "segments_read i d" "i < MaxSegments"
  shows "rpost (readSegment i d) (segments_read (Suc i))"
proof -
  have i8: "i8 (int i) = int i" using assms(2) by (intro i8_small) (simp_all add: frame_consts)
  have r: "- 1 \<le> i8 (uint v) \<and> i8 (uint v) \<le> 7 \<and> i8 (uint v) \<noteq> - 1" if "unat v < 8" for v :: u64
  proof -
    have "uint v = int (unat v)" by simp
    then have "0 \<le> uint v" "uint v \<le> 7" using that by linarith+
    moreover from this have "i8 (uint v) = uint v" by (intro i8_small) linarith+
    ultimately show ?thesis by linarith
  qed
  show ?thesis
    unfolding readSegment_def Let_def
    by (intro rpost_bind_feature_7 rpost_bind_feature_9 rpost_case_pair rd_post segments_read_store [OF assms])
      (auto simp: i8 markActive_if markPreskip_if seg_between_def segment_ok_def preskip_feature_def r)
qed

lemma rpost_readSegmentationData: "rpost readSegmentationData seg_data_ok"
proof -
  have "rpost (readSegmentationData_loop k i d) (segments_read (i + k))" if "segments_read i d" "i + k \<le> MaxSegments" for k i d
    using that
  proof (induction k arbitrary: i d)
    case (Suc k)
    have i: "i < MaxSegments" using Suc.prems by simp
    show ?case
      unfolding readSegmentationData_loop.simps
      by (rule rpost_rbind [OF rpost_readSegment [OF Suc.prems(1) i]]) (use Suc.IH [of "Suc i"] Suc.prems in simp)
  qed (simp add: rpost_rret)
  from this [of 0 _ MaxSegments] show ?thesis
    by (simp add: readSegmentationData_def [abs_def] seg_data_ok_def segments_read_def zero_SegmentationData_def)
qed

lemma clearSegmentationRefs_ok: "seg_data_ok clearSegmentationRefs"
  by (simp add: clearSegmentationRefs_def seg_data_ok_def segments_read_def zero_SegmentationData_def zero_SegmentData_def
      segment_ok_def preskip_feature_def frame_consts)

lemma seg_data_ok_update:
  assumes "seg_data_ok d" "segment_ok s" "\<not> preskip_feature s" "\<not> sgd_Preskip d"
  shows "seg_data_ok (d\<lparr>sgd_Segments := (sgd_Segments d)[i := s]\<rparr>)"
  using assms set_update_subset_insert [of "sgd_Segments d" i s] by (auto simp: seg_data_ok_def segments_read_def)

section \<open>Quantizer indices of the segments\<close>

definition delta_lossless :: "QuantizationParams \<Rightarrow> bool" where
  "delta_lossless quant \<longleftrightarrow> qp_YDCDelta quant = 0 \<and> qp_UDCDelta quant = 0 \<and> qp_UACDelta quant = 0 \<and>
     qp_VDCDelta quant = 0 \<and> qp_VACDelta quant = 0"

lemma segment_q_later [simp]:
  "segment_q (seg\<lparr>sgp_QIndex := a\<rparr>) quant i = segment_q seg quant i" "segment_q (seg\<lparr>sgp_Lossless := b\<rparr>) quant i = segment_q seg quant i"
  "segment_q (seg\<lparr>sgp_AllLossless := c\<rparr>) quant i = segment_q seg quant i" "segment_q (seg\<lparr>sgp_BitsRead := n\<rparr>) quant i = segment_q seg quant i"
  by (simp_all add: segment_q_def Let_def)

lemma deriveSegmentationQIndex_eq:
  assumes "length (sgp_QIndex seg) = 8" "length (sgp_Lossless seg) = 8"
  shows "deriveSegmentationQIndex seg quant = seg\<lparr>
     sgp_QIndex := map (\<lambda>i. word_of_int (segment_q seg quant i)) [0..<8],
     sgp_Lossless := map (\<lambda>i. segment_q seg quant i = 0 \<and> delta_lossless quant) [0..<8],
     sgp_AllLossless := (\<forall>i < 8. segment_q seg quant i = 0) \<and> delta_lossless quant\<rparr>"
proof -
  obtain a0 a1 a2 a3 a4 a5 a6 a7 where a: "sgp_QIndex seg = [a0, a1, a2, a3, a4, a5, a6, a7]"
    using assms(1) by (auto simp: numeral_eq_Suc length_Suc_conv)
  obtain b0 b1 b2 b3 b4 b5 b6 b7 where b: "sgp_Lossless seg = [b0, b1, b2, b3, b4, b5, b6, b7]"
    using assms(2) by (auto simp: numeral_eq_Suc length_Suc_conv)
  have u: "[0..<8] = [0, 1, 2, 3, 4, 5, 6, 7 :: nat]" by (simp add: upt_rec)
  have all: "(\<forall>i < 8. P i) \<longleftrightarrow> P 0 \<and> P 1 \<and> P 2 \<and> P 3 \<and> P 4 \<and> P 5 \<and> P 6 \<and> P (7 :: nat)" for P
    by (auto simp: numeral_eq_Suc All_less_Suc)
  show ?thesis
    unfolding deriveSegmentationQIndex_def frame_consts delta_lossless_def [symmetric] u all
    by (cases "delta_lossless quant") (simp_all add: Let_def a b)
qed

lemma i16_range: "- 32768 \<le> k \<Longrightarrow> k < 32768 \<Longrightarrow> i16 k = k"
  by (simp add: i16_small)

lemma segment_q_clamp:
  assumes "sgp_Enabled seg \<longrightarrow> seg_data_ok (sgp_Data seg)" "i < 8"
  shows "segment_q seg quant i =
    max 0 (min 255 (uint (qp_BaseQIdx quant) + (if sgp_Enabled seg then sg_DeltaQ (sgd_Segments (sgp_Data seg) ! i) else 0)))"
proof -
  have b: "uint (qp_BaseQIdx quant) < 256" "0 \<le> uint (qp_BaseQIdx quant)"
    using unsigned_less [of "qp_BaseQIdx quant", where 'a = int] by simp_all
  have "- 256 \<le> sg_DeltaQ (sgd_Segments (sgp_Data seg) ! i) \<and> sg_DeltaQ (sgd_Segments (sgp_Data seg) ! i) \<le> 255" if "sgp_Enabled seg"
  proof -
    have "sgd_Segments (sgp_Data seg) ! i \<in> set (sgd_Segments (sgp_Data seg))"
      using assms that by (auto simp: seg_data_ok_def segments_read_def frame_consts)
    then show ?thesis using assms that by (auto simp: seg_data_ok_def segments_read_def segment_ok_def)
  qed
  then have "i16 (uint (qp_BaseQIdx quant) + sg_DeltaQ (sgd_Segments (sgp_Data seg) ! i)) =
      uint (qp_BaseQIdx quant) + sg_DeltaQ (sgd_Segments (sgp_Data seg) ! i)" if "sgp_Enabled seg"
    using b that by (intro i16_range) linarith+
  then show ?thesis using b by (auto simp: segment_q_def Let_def)
qed

text \<open>Evaluation waits for the record.\<close>

declare deriveSegmentationQIndex_def [code del]

lemma deriveSegmentationQIndex_code [code]:
  "deriveSegmentationQIndex \<lparr>sgp_Enabled = e, sgp_UpdateMap = m, sgp_TemporalUpdate = t, sgp_UpdateData = u, sgp_Data = d, sgp_QIndex = q,
     sgp_Lossless = l, sgp_AllLossless = a, sgp_BitsRead = b\<rparr> quant =
   (let seg = \<lparr>sgp_Enabled = e, sgp_UpdateMap = m, sgp_TemporalUpdate = t, sgp_UpdateData = u, sgp_Data = d, sgp_QIndex = q,
     sgp_Lossless = l, sgp_AllLossless = a, sgp_BitsRead = b\<rparr>;
     qs = map (segment_q seg quant) [0..<8]
    in if length q = 8 \<and> length l = 8 then
         seg\<lparr>sgp_QIndex := map word_of_int qs, sgp_Lossless := map (\<lambda>q. q = 0 \<and> delta_lossless quant) qs,
             sgp_AllLossless := list_all (\<lambda>q. q = 0) qs \<and> delta_lossless quant\<rparr>
       else deriveSegmentationQIndex seg quant)"
  by (auto simp: Let_def deriveSegmentationQIndex_eq comp_def list_all_iff)

text \<open>Segmentation parameters that are consistent with the quantization parameters.\<close>

definition seg_ok :: "QuantizationParams \<Rightarrow> SegmentationParams \<Rightarrow> bool" where
  "seg_ok quant seg \<longleftrightarrow> seg_data_ok (sgp_Data seg) \<and> length (sgp_QIndex seg) = MaxSegments \<and> length (sgp_Lossless seg) = MaxSegments \<and>
     (\<forall>i < MaxSegments. uint (sgp_QIndex seg ! i) =
        max 0 (min 255 (uint (qp_BaseQIdx quant) + (if sgp_Enabled seg then sg_DeltaQ (sgd_Segments (sgp_Data seg) ! i) else 0)))) \<and>
     (\<forall>i < MaxSegments. sgp_Lossless seg ! i \<longleftrightarrow> sgp_QIndex seg ! i = 0 \<and> delta_lossless quant) \<and>
     (sgp_AllLossless seg \<longleftrightarrow> (\<forall>i < MaxSegments. sgp_Lossless seg ! i))"

lemma seg_ok_bits [simp]: "seg_ok quant (seg\<lparr>sgp_BitsRead := n\<rparr>) = seg_ok quant seg"
  by (simp add: seg_ok_def)

lemma seg_ok_derive:
  assumes "length (sgp_QIndex seg) = 8" "length (sgp_Lossless seg) = 8" "seg_data_ok (sgp_Data seg)"
  shows "seg_ok quant (deriveSegmentationQIndex seg quant)"
proof -
  have c: "segment_q seg quant i = max 0 (min 255 (uint (qp_BaseQIdx quant) +
      (if sgp_Enabled seg then sg_DeltaQ (sgd_Segments (sgp_Data seg) ! i) else 0)))" if "i < 8" for i
    using segment_q_clamp [OF _ that] assms(3) by simp
  have a: "((\<forall>i < 8. Q i) \<and> d) = (\<forall>i < (8 :: nat). Q i \<and> d)" for Q d by (metis zero_less_numeral)
  have q: "0 \<le> segment_q seg quant i \<and> segment_q seg quant i < 256" for i by (auto simp: segment_q_def Let_def)
  have u: "uint (word_of_int (segment_q seg quant i) :: u8) = segment_q seg quant i" for i
    using q [of i] by (simp add: uint_word_of_int)
  have z: "(word_of_int (segment_q seg quant i) :: u8) = 0 \<longleftrightarrow> segment_q seg quant i = 0" for i
    using u [of i] by (metis unsigned_eq_0_iff)
  show ?thesis
    unfolding seg_ok_def deriveSegmentationQIndex_eq [OF assms(1,2)] frame_consts
    using assms(3) by (simp add: u z a) (auto simp: c)
qed

lemma rpost_ParseSegmentationParams_body:
  assumes "\<And>d. previous = Some d \<Longrightarrow> seg_data_ok d"
  shows "rpost (ParseSegmentationParams_body prefix quant previous) (seg_ok quant)"
proof -
  define fresh where "fresh s \<longleftrightarrow> length (sgp_QIndex s) = 8 \<and> length (sgp_Lossless s) = 8" for s :: SegmentationParams
  have z: "fresh (zero_SegmentationParams\<lparr>sgp_Enabled := b\<rparr>)" for b by (simp add: fresh_def zero_SegmentationParams_def frame_consts)
  have f: "fresh (s\<lparr>sgp_UpdateMap := b\<rparr>) = fresh s" "fresh (s\<lparr>sgp_UpdateData := b\<rparr>) = fresh s" "fresh (s\<lparr>sgp_TemporalUpdate := b\<rparr>) = fresh s"
      "fresh (s\<lparr>sgp_Data := d\<rparr>) = fresh s" for s b d by (simp_all add: fresh_def)
  have d: "rpost (if sgp_UpdateData seg then rbind readSegmentationData (\<lambda>data. rret (seg\<lparr>sgp_Data := data\<rparr>))
      else (case previous of None \<Rightarrow> rfail ErrReferenceFrameNeeded | Some p \<Rightarrow> rret (seg\<lparr>sgp_Data := p\<rparr>)))
      (\<lambda>s. fresh s \<and> seg_data_ok (sgp_Data s))" if "fresh seg" for seg
    using that assms by (auto simp: f split: option.split intro!: rpost_if rpost_rfail rpost_rret rpost_rbind [OF rpost_readSegmentationData])
  have e: "rpost (rbind readerBitsRead (\<lambda>bitsRead. rret (deriveSegmentationQIndex seg quant\<lparr>sgp_BitsRead := bitsRead\<rparr>))) (seg_ok quant)"
    if "fresh seg \<and> seg_data_ok (sgp_Data seg)" for seg
    using seg_ok_derive [of seg quant] that by (auto simp: fresh_def intro!: rpost_bind_any rpost_rret)
  show ?thesis
    unfolding ParseSegmentationParams_body_def Let_def
    apply (rule rpost_bind_ReadBool)
    apply (rule rpost_rbind [where P = "\<lambda>s. fresh s \<and> seg_data_ok (sgp_Data s)"])
     apply (rule rpost_if)
      apply (rule rpost_rbind [where P = fresh])
       apply (intro rd_post; simp add: z f)
      apply (erule d)
     apply (rule rpost_rret, simp add: z f clearSegmentationRefs_ok)
    apply (erule e)
    done
qed

text \<open>
  C33: the segmentation parameters of an accepted header are consistent: features are in range, \<open>Preskip\<close> tells
  whether some segment has a feature that needs it, every quantizer index is the base index plus the
  segment delta clamped to a byte, a segment is lossless when its index and all quantizer deltas are
  0, and the frame when all segments are.
\<close>

theorem ParseSegmentationParams_ok:
  assumes "ParseSegmentationParams payload prefix quant previous = Inr seg" "\<And>d. previous = Some d \<Longrightarrow> seg_data_ok d"
  shows "seg_ok quant seg \<and> unat (qp_BitsRead quant) \<le> unat (sgp_BitsRead seg)"
  using on_payload_post [OF rpost_ParseSegmentationParams_body assms(1) [unfolded ParseSegmentationParams_def]]
    segmentation_stage.stage_bounds [OF assms(1) [unfolded ParseSegmentationParams_def]] assms(2) by blast

theorem ParseSegmentationParams_ok_witness:
  "\<exists>seg. ParseSegmentationParams [0x80] zero_FrameHeaderPrefix (zero_QuantizationParams\<lparr>qp_BaseQIdx := 100\<rparr>)
       (Some (clearSegmentationRefs\<lparr>sgd_Segments := (sgd_Segments clearSegmentationRefs)[1 := zero_SegmentData\<lparr>sg_DeltaQ := - 120, sg_RefFrame := - 1\<rparr>]\<rparr>)) =
       Inr seg \<and> seg_ok (zero_QuantizationParams\<lparr>qp_BaseQIdx := 100\<rparr>) seg \<and> sgp_QIndex seg ! 0 = 100 \<and> sgp_QIndex seg ! 1 = 0"
proof -
  let ?d = "clearSegmentationRefs\<lparr>sgd_Segments := (sgd_Segments clearSegmentationRefs)[1 := zero_SegmentData\<lparr>sg_DeltaQ := - 120, sg_RefFrame := - 1\<rparr>]\<rparr>"
  let ?r = "ParseSegmentationParams [0x80] zero_FrameHeaderPrefix (zero_QuantizationParams\<lparr>qp_BaseQIdx := 100\<rparr>) (Some ?d)"
  have ok: "seg_data_ok ?d"
    by (intro seg_data_ok_update clearSegmentationRefs_ok)
      (simp_all add: clearSegmentationRefs_def zero_SegmentationData_def zero_SegmentData_def segment_ok_def preskip_feature_def)
  have "case ?r of Inr seg \<Rightarrow> sgp_QIndex seg ! 0 = 100 \<and> sgp_QIndex seg ! 1 = 0 | Inl _ \<Rightarrow> False" by code_simp
  then obtain seg where "?r = Inr seg" "sgp_QIndex seg ! 0 = 100 \<and> sgp_QIndex seg ! 1 = 0" by (cases ?r) auto
  with ParseSegmentationParams_ok [OF this(1)] ok show ?thesis by blast
qed

section \<open>The other parameters\<close>

definition delta_ok :: "DeltaParams \<Rightarrow> bool" where
  "delta_ok d \<longleftrightarrow> unat (dl_DeltaQResLog2 d) < 4 \<and> unat (dl_DeltaLFResLog2 d) < 4 \<and> (dl_DeltaLFPresent d \<longrightarrow> dl_DeltaQPresent d)"

lemma rpost_ParseDeltaParams_body: "rpost (ParseDeltaParams_body sz quant) delta_ok"
  unfolding ParseDeltaParams_body_def
  by (intro rd_post rpost_bind_any [of _ _ readerBitsRead])
    (auto simp: delta_ok_def zero_DeltaParams_def u8_of_small [of _ 4])

definition lf_deltas_ok :: "LoopFilterDeltas \<Rightarrow> bool" where
  "lf_deltas_ok d \<longleftrightarrow> length (lfd_Ref d) = RefFrames \<and> length (lfd_Mode d) = LoopFilterModeDeltas \<and>
     (\<forall>v \<in> set (lfd_Ref d) \<union> set (lfd_Mode d). - 64 \<le> v \<and> v \<le> 63)"

definition loopfilter_ok :: "LoopFilterParams \<Rightarrow> bool" where
  "loopfilter_ok lf \<longleftrightarrow> length (lf_LevelY lf) = 2 \<and> (\<forall>v \<in> set (lf_LevelY lf). unat v < 64) \<and> unat (lf_LevelU lf) < 64 \<and>
     unat (lf_LevelV lf) < 64 \<and> unat (lf_Sharpness lf) < 8 \<and> lf_deltas_ok (lf_Deltas lf)"

lemma defaultLoopFilterDeltas_ok: "lf_deltas_ok defaultLoopFilterDeltas"
  by (simp add: lf_deltas_ok_def defaultLoopFilterDeltas_def frame_consts)

lemma rpost_readDeltaUpdates_loop:
  "\<forall>v \<in> set ds. - 64 \<le> v \<and> v \<le> 63 \<Longrightarrow>
     rpost (readDeltaUpdates_loop k i ds) (\<lambda>ds'. length ds' = length ds \<and> (\<forall>v \<in> set ds'. - 64 \<le> v \<and> v \<le> 63))"
proof (induction k arbitrary: i ds)
  case (Suc k)
  let ?P = "\<lambda>ds'. length ds' = length ds \<and> (\<forall>v \<in> set ds'. - 64 \<le> v \<and> v \<le> 63)"
  have "rpost (readDeltaUpdates_loop k (i + 1) (ds[i := i8 v])) ?P" if v: "- 64 \<le> v \<and> v \<le> 63" for v
  proof -
    have "i8 v = v" using v by (intro i8_small) linarith+
    then have "\<forall>w \<in> set (ds[i := i8 v]). - 64 \<le> w \<and> w \<le> 63"
      using Suc.prems v set_update_subset_insert [of ds i v] by auto
    from Suc.IH [OF this, of "i + 1"] show ?thesis by simp
  qed
  then show ?case
    unfolding readDeltaUpdates_loop.simps
    by (intro rpost_bind_ReadBool rpost_if rpost_rbind [OF rpost_readSignedBits_7] Suc.IH [OF Suc.prems])
qed (simp add: rpost_rret)

lemma rpost_readLoopFilterDeltaUpdates:
  assumes "lf_deltas_ok d" shows "rpost (readLoopFilterDeltaUpdates d) lf_deltas_ok"
  unfolding readLoopFilterDeltaUpdates_def Let_def
  by (rule rpost_rbind [OF rpost_readDeltaUpdates_loop], use assms in \<open>simp add: lf_deltas_ok_def\<close>,
      rule rpost_rbind [OF rpost_readDeltaUpdates_loop])
    (use assms in \<open>auto simp: lf_deltas_ok_def intro!: rpost_rret\<close>)

lemma rpost_ParseLoopFilterParams_body:
  assumes "\<And>d. previous = Some d \<Longrightarrow> lf_deltas_ok d"
  shows "rpost (ParseLoopFilterParams_body seq prefix sz seg previous) loopfilter_ok"
proof -
  have p: "rpost (if fh_PrimaryRefFrame prefix = PrimaryRefNone then rret (zero_LoopFilterParams\<lparr>lf_Deltas := defaultLoopFilterDeltas\<rparr>)
      else (case previous of None \<Rightarrow> rfail ErrReferenceFrameNeeded | Some p \<Rightarrow> rret (zero_LoopFilterParams\<lparr>lf_Deltas := p\<rparr>))) loopfilter_ok"
    using assms defaultLoopFilterDeltas_ok
    by (auto intro!: rpost_if rpost_rret rpost_rfail simp: loopfilter_ok_def zero_LoopFilterParams_def split: option.split)
  have u: "rpost (rbind (readLoopFilterDeltaUpdates (lf_Deltas lf)) (\<lambda>d. rret (lf\<lparr>lf_Deltas := d\<rparr>))) loopfilter_ok" if "loopfilter_ok lf" for lf
    using that by (auto intro!: rpost_rbind [OF rpost_readLoopFilterDeltaUpdates] rpost_rret simp: loopfilter_ok_def)
  have l: "loopfilter_ok (lf\<lparr>lf_ModeRefDeltaEnabled := b\<rparr>) = loopfilter_ok lf" "loopfilter_ok (lf\<lparr>lf_ModeRefDeltaUpdate := b\<rparr>) = loopfilter_ok lf"
      "loopfilter_ok (lf\<lparr>lf_BitsRead := n\<rparr>) = loopfilter_ok lf" for lf b n by (simp_all add: loopfilter_ok_def)
  have z: "loopfilter_ok (zero_LoopFilterParams\<lparr>lf_Deltas := defaultLoopFilterDeltas\<rparr>)"
    using defaultLoopFilterDeltas_ok by (simp add: loopfilter_ok_def zero_LoopFilterParams_def)
  have tl: "rpost (rbind (if b then rbind ReadBool (\<lambda>u. let lf = lf\<lparr>lf_ModeRefDeltaUpdate := u\<rparr> in
                 if u then rbind (readLoopFilterDeltaUpdates (lf_Deltas lf)) (\<lambda>d. rret (lf\<lparr>lf_Deltas := d\<rparr>)) else rret lf)
               else rret lf) (\<lambda>lf. rbind readerBitsRead (\<lambda>bitsRead. rret (lf\<lparr>lf_BitsRead := bitsRead\<rparr>)))) loopfilter_ok"
    if "loopfilter_ok lf" for b lf
    by (rule rpost_rbind [of _ loopfilter_ok])
      (use that in \<open>auto simp: Let_def l intro!: rpost_if rpost_bind_ReadBool rpost_rret u rpost_bind_any [of _ _ readerBitsRead]\<close>)
  have lv: "loopfilter_ok (lf\<lparr>lf_LevelY := [a, b]\<rparr>)" if "loopfilter_ok lf" "unat a < 64" "unat b < 64" for lf a b
    using that by (simp add: loopfilter_ok_def)
  have uv: "loopfilter_ok (lf\<lparr>lf_LevelU := a\<rparr>)" "loopfilter_ok (lf\<lparr>lf_LevelV := a\<rparr>)" if "loopfilter_ok lf" "unat a < 64" for lf a
    using that by (simp_all add: loopfilter_ok_def)
  have sh: "loopfilter_ok (lf\<lparr>lf_Sharpness := a\<rparr>)" if "loopfilter_ok lf" "unat a < 8" for lf a using that by (simp add: loopfilter_ok_def)
  show ?thesis
    unfolding ParseLoopFilterParams_body_def Let_def [of zero_LoopFilterParams]
    apply (rule rpost_if)
     apply (rule rpost_bind_any, rule rpost_rret, use z in \<open>simp add: loopfilter_ok_def\<close>)
    apply (rule rpost_rbind [OF p])
    apply (intro rpost_bind_ReadBits rpost_Let)
    apply (rule rpost_rbind [of _ loopfilter_ok])
     apply (intro rpost_if rpost_bind_ReadBits rpost_Let rpost_rret; use lv uv u8_field_6 in simp)
    apply (intro rpost_bind_ReadBits rpost_bind_ReadBool rpost_Let tl; use sh u8_3bit in \<open>simp add: l\<close>)
    done
qed

definition cdef_ok :: "CDEFParams \<Rightarrow> bool" where
  "cdef_ok c \<longleftrightarrow> unat (cd_Damping c) \<le> 6 \<and> unat (cd_Bits c) < 4 \<and> unat (cd_StrengthCount c) \<le> MaxCDEFStrengths \<and>
     length (cd_YStrength c) = MaxCDEFStrengths \<and> length (cd_UVStrength c) = MaxCDEFStrengths \<and>
     (\<forall>s \<in> set (cd_YStrength c) \<union> set (cd_UVStrength c). unat s < 64)"

lemma rpost_readCDEFStrengths: "cdef_ok c \<Longrightarrow> rpost (readCDEFStrengths k i monochrome c) cdef_ok"
proof (induction k arbitrary: i c)
  case (Suc k)
  have y: "cdef_ok (c\<lparr>cd_YStrength := (cd_YStrength c)[i := v]\<rparr>)" if "cdef_ok c" "unat v < 64" for c v
    using that set_update_subset_insert [of "cd_YStrength c" i v] by (auto simp: cdef_ok_def)
  have uv: "cdef_ok (c\<lparr>cd_UVStrength := (cd_UVStrength c)[i := v]\<rparr>)" if "cdef_ok c" "unat v < 64" for c v
    using that set_update_subset_insert [of "cd_UVStrength c" i v] by (auto simp: cdef_ok_def)
  show ?case
    unfolding readCDEFStrengths.simps
    by (intro rd_post Suc.IH y uv) (use Suc.prems y [OF Suc.prems u8_field_6] u8_field_6 in auto)
qed (simp add: rpost_rret)

lemma rpost_ParseCDEFParams_body: "rpost (ParseCDEFParams_body seq sz seg) cdef_ok"
proof -
  have d: "unat (ucast (v + 3) :: u8) \<le> 6" if "unat v < 4" for v :: u64
    using that unat_u64_add [of v 3] by (simp add: unsigned_ucast_eq take_bit_nat_eq_self)
  have c: "unat (ucast v :: u8) < 4 \<and> unat (push_bit (unat (ucast v :: u8)) 1 :: u8) \<le> 8" if "unat v < 4" for v :: u64
  proof -
    have "unat v = 0 \<or> unat v = 1 \<or> unat v = 2 \<or> unat v = 3" using that by linarith
    then show ?thesis using u8_of_small [of v 4] that by auto
  qed
  have l: "cdef_ok (x\<lparr>cd_BitsRead := n\<rparr>) = cdef_ok x" for x n by (simp add: cdef_ok_def)
  show ?thesis
    unfolding ParseCDEFParams_body_def Let_def
    by (intro rpost_if rpost_bind_ReadBits rpost_bind_any [of _ _ readerBitsRead] rpost_rbind [OF rpost_readCDEFStrengths] rpost_rret)
      (use c d in \<open>auto simp: l cdef_ok_def zero_CDEFParams_def frame_consts\<close>)
qed

text \<open>Restoration units are 64 to 256 samples wide, and those of chroma at least 32, by powers of two; 0 when nothing is read.\<close>

definition restoration_ok :: "RestorationParams \<Rightarrow> bool" where
  "restoration_ok r \<longleftrightarrow> length (rs_Type r) = 3 \<and>
     (r = zero_RestorationParams\<lparr>rs_BitsRead := rs_BitsRead r\<rparr> \<or>
      rs_UnitSizeYLog2 r \<in> {6, 7, 8} \<and> rs_UnitSizeUVLog2 r \<in> {5, 6, 7, 8} \<and> rs_UnitSizeUVLog2 r \<le> rs_UnitSizeYLog2 r \<and>
      unat (rs_UnitSizeY r) = 2 ^ unat (rs_UnitSizeYLog2 r) \<and> unat (rs_UnitSizeUV r) = 2 ^ unat (rs_UnitSizeUVLog2 r))"

lemma rpost_readRestorationUnits:
  assumes "length (rs_Type r) = 3" shows "rpost (readRestorationUnits seq r) restoration_ok"
  unfolding readRestorationUnits_def
  by (intro rd_post) (use assms in \<open>auto simp: restoration_ok_def\<close>)

lemma rpost_ParseRestorationParams_body: "rpost (ParseRestorationParams_body seq sz seg) restoration_ok"
proof -
  have l: "restoration_ok (x\<lparr>rs_BitsRead := n\<rparr>) = restoration_ok x" for x n
    by (cases x) (simp add: restoration_ok_def zero_RestorationParams_def)
  have z: "restoration_ok zero_RestorationParams" by (simp add: restoration_ok_def zero_RestorationParams_def)
  have u: "rpost (if c then readRestorationUnits seq r
      else rret (r\<lparr>rs_UnitSizeYLog2 := 8, rs_UnitSizeUVLog2 := 8, rs_UnitSizeY := RestorationUnitMax, rs_UnitSizeUV := RestorationUnitMax\<rparr>)) restoration_ok"
    if "length (rs_Type r) = 3" for c r
    using that by (intro rpost_if rpost_readRestorationUnits rpost_rret) (simp_all add: restoration_ok_def RestorationUnitMax_def)
  show ?thesis
    unfolding ParseRestorationParams_body_def Let_def
    by (intro rpost_if rpost_bind_ReadBits rpost_bind_any [of _ _ readerBitsRead] rpost_bind_if rpost_bind_bind rpost_bind_rret
        rpost_rbind [OF u] rpost_rret)
      (simp_all add: l z, simp_all add: zero_RestorationParams_def)
qed

end
