(* ===== verification/Global_Motion.thy ===== *)
theory Global_Motion
  imports Frame_Params
begin

text \<open>
  \<open>internal/av1/parser/skip_mode.go\<close> and \<open>global_motion.go\<close>: the choice of the skip mode references, and
  the global motion parameters with their subexponential codes. The ranges of the motion parameters
  are kept by the parser, so that a parameter of a reference frame is always a valid predictor.
\<close>

section \<open>Skip mode\<close>

definition setSkipModeRefs :: "SkipModeParams \<Rightarrow> nat \<Rightarrow> nat \<Rightarrow> SkipModeParams" where
  "setSkipModeRefs params a b =
     (let params = params\<lparr>sk_Allowed := True\<rparr>
      in if a < b then params\<lparr>sk_RefFrameIdx := [word_of_nat a, word_of_nat b]\<rparr>
         else params\<lparr>sk_RefFrameIdx := [word_of_nat b, word_of_nat a]\<rparr>)"

text \<open>
  The first loop keeps the nearest reference before and after the current frame; an index of \<open>- 1\<close> is
  \<open>None\<close>, and an index comes with its distance.
\<close>

definition skip_ref_step :: "int \<Rightarrow> nat \<Rightarrow> (nat \<times> int) option \<times> (nat \<times> int) option \<Rightarrow> (nat \<times> int) option \<times> (nat \<times> int) option" where
  "skip_ref_step diff i s =
     (case s of (before, after) \<Rightarrow>
        if diff > 0 then
          (before, if after = None \<or> diff < snd (the after) then Some (i, diff) else after)
        else if diff < 0 \<and> (before = None \<or> diff > snd (the before)) then (Some (i, diff), after)
        else (before, after))"

definition skip_ref_diff :: "SequenceHeader \<Rightarrow> FrameHeaderPrefix \<Rightarrow> FrameSize \<Rightarrow> ReferenceState \<Rightarrow> nat \<Rightarrow> int" where
  "skip_ref_diff seq prefix sz refs i =
     relativeOrderHint (sh_OrderHintBits seq) (rf_OrderHint (rst_Frames refs ! unat (fs_RefFrameIdx sz ! i))) (fh_OrderHint prefix)"

fun skip_refs_loop :: "SequenceHeader \<Rightarrow> FrameHeaderPrefix \<Rightarrow> FrameSize \<Rightarrow> ReferenceState \<Rightarrow> nat list \<Rightarrow>
    (nat \<times> int) option \<times> (nat \<times> int) option \<Rightarrow> go_err + (nat \<times> int) option \<times> (nat \<times> int) option" where
  "skip_refs_loop seq prefix sz refs [] s = Inr s"
| "skip_refs_loop seq prefix sz refs (i # is) s =
     (let slot = fs_RefFrameIdx sz ! i in
      if unat slot \<ge> RefFrames then Inl ErrInvalidFrameHeader
      else if \<not> rf_Valid (rst_Frames refs ! unat slot) then Inl ErrReferenceFrameNeeded
      else skip_refs_loop seq prefix sz refs is (skip_ref_step (skip_ref_diff seq prefix sz refs i) i s))"

text \<open>The second loop: the nearest reference strictly before the one at distance \<open>beforeDiff\<close>.\<close>

definition skip_before2 :: "SequenceHeader \<Rightarrow> FrameHeaderPrefix \<Rightarrow> FrameSize \<Rightarrow> ReferenceState \<Rightarrow> int \<Rightarrow> nat list \<Rightarrow> (nat \<times> int) option" where
  "skip_before2 seq prefix sz refs beforeDiff is = foldl (\<lambda>before2 i.
     let diff = skip_ref_diff seq prefix sz refs i in
     if diff \<ge> beforeDiff then before2
     else if before2 = None \<or> diff > snd (the before2) then Some (i, diff) else before2) None is"

definition deriveSkipModeRefs ::
    "SequenceHeader \<Rightarrow> FrameHeaderPrefix \<Rightarrow> FrameSize \<Rightarrow> ReferenceState \<Rightarrow> SkipModeParams \<Rightarrow> go_err + SkipModeParams \<times> bool" where
  "deriveSkipModeRefs seq prefix sz refs params =
     (case skip_refs_loop seq prefix sz refs [0..<InterRefsPerFrame] (None, None) of
        Inl e \<Rightarrow> Inl e
      | Inr (Some (beforeIdx, _), Some (afterIdx, _)) \<Rightarrow> Inr (setSkipModeRefs params beforeIdx afterIdx, True)
      | Inr (None, _) \<Rightarrow> Inr (params, False)
      | Inr (Some (beforeIdx, beforeDiff), None) \<Rightarrow>
          (case skip_before2 seq prefix sz refs beforeDiff [0..<InterRefsPerFrame] of
             None \<Rightarrow> Inr (params, False)
           | Some (before2Idx, _) \<Rightarrow> Inr (setSkipModeRefs params beforeIdx before2Idx, True)))"

definition ParseSkipModeParams_body ::
    "SequenceHeader \<Rightarrow> FrameHeaderPrefix \<Rightarrow> FrameSize \<Rightarrow> ReferenceState option \<Rightarrow> TransformReferenceParams \<Rightarrow> SkipModeParams rd" where
  "ParseSkipModeParams_body seq prefix sz refs transformRef =
     rbind readerBitsRead (\<lambda>bitsRead.
     let params = zero_SkipModeParams\<lparr>sk_BitsRead := bitsRead\<rparr> in
     if \<not> sh_EnableOrderHint seq \<or> \<not> frameTypeIsInterOrSwitch (fh_FrameType prefix) \<or> tr_ReferenceMode transformRef = ReferenceModeSingle
     then rret params
     else (case refs of
         None \<Rightarrow> rfail ErrReferenceFrameNeeded
       | Some refs \<Rightarrow>
           (case deriveSkipModeRefs seq prefix sz refs params of
              Inl e \<Rightarrow> rfail e
            | Inr (params, allowed) \<Rightarrow>
                if \<not> allowed then rret params
                else rbind ReadBool (\<lambda>enabled. let params = params\<lparr>sk_Enabled := enabled\<rparr> in
                  rbind readerBitsRead (\<lambda>bitsRead. rret (params\<lparr>sk_BitsRead := bitsRead\<rparr>))))))"

definition ParseSkipModeParams ::
    "bytes \<Rightarrow> SequenceHeader \<Rightarrow> FrameHeaderPrefix \<Rightarrow> FrameSize \<Rightarrow> ReferenceState option \<Rightarrow> TransformReferenceParams \<Rightarrow> go_err + SkipModeParams" where
  "ParseSkipModeParams payload seq prefix sz refs transformRef =
     on_payload payload (tr_BitsRead transformRef) (ParseSkipModeParams_body seq prefix sz refs transformRef)"

section \<open>Subexponential codes\<close>

text \<open>\<open>common.MSB32\<close> of a positive value: the index of its most significant bit.\<close>

fun MSB32_from :: "u32 \<Rightarrow> nat \<Rightarrow> int" where
  "MSB32_from v 0 = - 1"
| "MSB32_from v (Suc i) = (if bit v i then int i else MSB32_from v i)"

definition MSB32 :: "u32 \<Rightarrow> int" where
  "MSB32 v = MSB32_from v 32"

definition boolBit :: "bool \<Rightarrow> u32" where
  "boolBit v = (if v then 1 else 0)"

definition readPrimitiveQUniform :: "u32 \<Rightarrow> u32 rd" where
  "readPrimitiveQUniform n =
     (if n \<le> 1 then rret 0
      else
        let l = word_of_int (MSB32 n + 1) :: u8;
            m = push_bit (unat l) 1 - n
        in rbind (ReadBits (l - 1)) (\<lambda>v.
           if ucast v < m then rret (ucast v)
           else rbind ReadBool (\<lambda>bit. rret (push_bit 1 (ucast v) - m + boolBit bit))))"

text \<open>The loop; \<open>mk\<close> is a sum of powers of two below \<open>n\<close>, and \<open>b\<close> the width of the next group.\<close>

function readPrimitiveSubexpFin_loop :: "u32 \<Rightarrow> u8 \<Rightarrow> nat \<Rightarrow> int \<Rightarrow> u32 rd" where
  "readPrimitiveSubexpFin_loop n k i mk =
     (let b = (if i > 0 then unat k + (i - 1) else unat k);
          a = 2 ^ b :: int
      in if uint n \<le> mk + 3 * a then rbind (readPrimitiveQUniform (n - word_of_int mk)) (\<lambda>v. rret (v + word_of_int mk))
         else rbind ReadBool (\<lambda>more.
           if \<not> more then rbind (ReadBits (word_of_nat b)) (\<lambda>v. rret (ucast v + word_of_int mk))
           else readPrimitiveSubexpFin_loop n k (i + 1) (mk + a)))"
  by pat_completeness auto
termination
proof (relation "measure (\<lambda>(n, k, i, mk). nat (uint n - mk))", goal_cases)
  case (2 n k i mk b a more)
  then have "0 < a" by simp
  moreover have "mk + 3 * a < uint n" using 2 by (simp only: not_le)
  ultimately show ?case by auto
qed simp

declare readPrimitiveSubexpFin_loop.simps [simp del]

definition readPrimitiveSubexpFin :: "u32 \<Rightarrow> u8 \<Rightarrow> u32 rd" where
  "readPrimitiveSubexpFin n k r = readPrimitiveSubexpFin_loop n k 0 0 r"

definition invRecenterNonNeg :: "u32 \<Rightarrow> u32 \<Rightarrow> u32" where
  "invRecenterNonNeg ref v =
     (if v > push_bit 1 ref then v
      else if v AND 1 = 0 then drop_bit 1 v + ref
      else ref - drop_bit 1 (v + 1))"

definition invRecenterFiniteNonNeg :: "u32 \<Rightarrow> u32 \<Rightarrow> u32 \<Rightarrow> u32" where
  "invRecenterFiniteNonNeg n ref v =
     (if push_bit 1 ref \<le> n then invRecenterNonNeg ref v else n - 1 - invRecenterNonNeg (n - 1 - ref) v)"

definition readPrimitiveRefSubexpFin :: "u32 \<Rightarrow> u8 \<Rightarrow> u32 \<Rightarrow> u32 rd" where
  "readPrimitiveRefSubexpFin n k ref = rbind (readPrimitiveSubexpFin n k) (\<lambda>v. rret (invRecenterFiniteNonNeg n ref v))"

definition readSignedPrimitiveRefSubexpFin :: "u32 \<Rightarrow> u8 \<Rightarrow> int \<Rightarrow> int rd" where
  "readSignedPrimitiveRefSubexpFin n k ref =
     (let scaledN = push_bit 1 n - 1;
          scaledRef = ref + uint n - 1
      in if scaledRef < 0 \<or> scaledRef \<ge> uint scaledN then rfail ErrInvalidFrameHeader
         else rbind (readPrimitiveRefSubexpFin scaledN k (word_of_int scaledRef)) (\<lambda>v.
           rret (i32 (i32 (uint v) - i32 (uint n) + 1))))"

section \<open>Global motion\<close>

definition warpedModelPrecBits :: nat where "warpedModelPrecBits = 16"
definition subexpFinK :: u8 where "subexpFinK = 3"
definition gmAbsTransBits :: nat where "gmAbsTransBits = 12"
definition gmAbsTransOnlyBits :: nat where "gmAbsTransOnlyBits = gmAbsTransBits - 6 + 3"
definition gmTransPrecDiff :: nat where "gmTransPrecDiff = warpedModelPrecBits - 6"
definition gmTransOnlyPrecDiff :: nat where "gmTransOnlyPrecDiff = warpedModelPrecBits - 3"
definition gmAlphaMax :: u32 where "gmAlphaMax = 4096"

lemmas gm_consts = warpedModelPrecBits_def subexpFinK_def gmAbsTransBits_def gmAbsTransOnlyBits_def gmTransPrecDiff_def
  gmTransOnlyPrecDiff_def gmAlphaMax_def

definition DefaultWarpedMotionParams :: WarpedMotionParams where
  "DefaultWarpedMotionParams = \<lparr>wm_Type = GlobalMotionIdentity, wm_Matrix = [0, 0, 2 ^ warpedModelPrecBits, 0, 0, 2 ^ warpedModelPrecBits]\<rparr>"

definition DefaultGlobalMotionParams :: GlobalMotionParams where
  "DefaultGlobalMotionParams = \<lparr>gm_Ref = replicate InterRefsPerFrame DefaultWarpedMotionParams, gm_BitsRead = 0\<rparr>"

text \<open>One coded entry of the matrix.\<close>

definition set_entry :: "nat \<Rightarrow> int \<Rightarrow> WarpedMotionParams \<Rightarrow> WarpedMotionParams" where
  "set_entry i v gm = gm\<lparr>wm_Matrix := (wm_Matrix gm)[i := i32 v]\<rparr>"

definition readGlobalMotionRef :: "WarpedMotionParams \<Rightarrow> bool \<Rightarrow> WarpedMotionParams rd" where
  "readGlobalMotionRef ref allowHighPrecisionMV =
     (let gm = DefaultWarpedMotionParams; one = 2 ^ warpedModelPrecBits :: int in
     rbind ReadBool (\<lambda>isGlobal.
     if \<not> isGlobal then rret gm
     else
       rbind ReadBool (\<lambda>rotZoom.
       rbind (if rotZoom then rret (gm\<lparr>wm_Type := GlobalMotionRotZoom\<rparr>)
              else rbind ReadBool (\<lambda>translation.
                rret (gm\<lparr>wm_Type := (if translation then GlobalMotionTranslation else GlobalMotionAffine)\<rparr>))) (\<lambda>gm.
       rbind (if wm_Type gm = GlobalMotionRotZoom \<or> wm_Type gm = GlobalMotionAffine then
                rbind (readSignedPrimitiveRefSubexpFin (gmAlphaMax + 1) subexpFinK (drop_bit 1 (i32 (wm_Matrix ref ! 2 - one)))) (\<lambda>v.
                let gm = set_entry 2 (one + 2 * v) gm in
                rbind (readSignedPrimitiveRefSubexpFin (gmAlphaMax + 1) subexpFinK (drop_bit 1 (wm_Matrix ref ! 3))) (\<lambda>v.
                rret (set_entry 3 (2 * v) gm)))
              else rret gm) (\<lambda>gm.
       rbind (if wm_Type gm = GlobalMotionAffine then
                rbind (readSignedPrimitiveRefSubexpFin (gmAlphaMax + 1) subexpFinK (drop_bit 1 (wm_Matrix ref ! 4))) (\<lambda>v.
                let gm = set_entry 4 (2 * v) gm in
                rbind (readSignedPrimitiveRefSubexpFin (gmAlphaMax + 1) subexpFinK (drop_bit 1 (i32 (wm_Matrix ref ! 5 - one)))) (\<lambda>v.
                rret (set_entry 5 (one + 2 * v) gm)))
              else rret (set_entry 5 (wm_Matrix gm ! 2) (set_entry 4 (- (wm_Matrix gm ! 3)) gm))) (\<lambda>gm.
       if wm_Type gm = GlobalMotionIdentity then rret gm
       else
       let (bits, shift) = (if wm_Type gm = GlobalMotionTranslation then
                if \<not> allowHighPrecisionMV then (gmAbsTransOnlyBits - 1, gmTransOnlyPrecDiff + 1) else (gmAbsTransOnlyBits, gmTransOnlyPrecDiff)
              else (gmAbsTransBits, gmTransPrecDiff));
           n = push_bit bits 1 + 1 :: u32
       in rbind (readSignedPrimitiveRefSubexpFin n subexpFinK (drop_bit shift (wm_Matrix ref ! 0))) (\<lambda>v.
          let gm = set_entry 0 (v * 2 ^ shift) gm in
          rbind (readSignedPrimitiveRefSubexpFin n subexpFinK (drop_bit shift (wm_Matrix ref ! 1))) (\<lambda>v.
          rret (set_entry 1 (v * 2 ^ shift) gm))))))))) "

definition globalMotionReferenceParams ::
    "FrameHeaderPrefix \<Rightarrow> FrameSize \<Rightarrow> ReferenceState option \<Rightarrow> nat \<Rightarrow> go_err + WarpedMotionParams" where
  "globalMotionReferenceParams prefix sz refs ref =
     (if fh_PrimaryRefFrame prefix = PrimaryRefNone then Inr DefaultWarpedMotionParams
      else if unat (fh_PrimaryRefFrame prefix) \<ge> InterRefsPerFrame then Inl ErrInvalidFrameHeader
      else (case refs of
          None \<Rightarrow> Inl ErrReferenceFrameNeeded
        | Some refs \<Rightarrow>
            let slot = unat (fs_RefFrameIdx sz ! unat (fh_PrimaryRefFrame prefix)) in
            if slot \<ge> RefFrames then Inl ErrInvalidFrameHeader
            else
              let reference = rst_Frames refs ! slot
              in if \<not> rf_Valid reference then Inl ErrReferenceFrameNeeded else Inr (gm_Ref (rf_GlobalMotion reference) ! ref)))"

primrec globalMotion_loop ::
    "nat \<Rightarrow> nat \<Rightarrow> FrameHeaderPrefix \<Rightarrow> FrameSize \<Rightarrow> TileInfo \<Rightarrow> ReferenceState option \<Rightarrow> GlobalMotionParams \<Rightarrow> GlobalMotionParams rd" where
  "globalMotion_loop 0 i prefix sz tiles refs params = rret params"
| "globalMotion_loop (Suc k) i prefix sz tiles refs params =
     (case globalMotionReferenceParams prefix sz refs i of
        Inl e \<Rightarrow> rfail e
      | Inr refParams \<Rightarrow>
          rbind (readGlobalMotionRef refParams (ti_AllowHighPrecisionMV tiles)) (\<lambda>gm.
          globalMotion_loop k (i + 1) prefix sz tiles refs (params\<lparr>gm_Ref := (gm_Ref params)[i := gm]\<rparr>)))"

definition ParseGlobalMotionParams_body ::
    "FrameHeaderPrefix \<Rightarrow> FrameSize \<Rightarrow> TileInfo \<Rightarrow> ReferenceState option \<Rightarrow> GlobalMotionParams rd" where
  "ParseGlobalMotionParams_body prefix sz tiles refs =
     rbind (if \<not> frameTypeIsInterOrSwitch (fh_FrameType prefix) then rret DefaultGlobalMotionParams
            else globalMotion_loop InterRefsPerFrame 0 prefix sz tiles refs DefaultGlobalMotionParams) (\<lambda>params.
     rbind readerBitsRead (\<lambda>bitsRead. rret (params\<lparr>gm_BitsRead := bitsRead\<rparr>)))"

definition ParseGlobalMotionParams ::
    "bytes \<Rightarrow> FrameHeaderPrefix \<Rightarrow> FrameSize \<Rightarrow> TileInfo \<Rightarrow> ReferenceState option \<Rightarrow> FrameModeParams \<Rightarrow> go_err + GlobalMotionParams" where
  "ParseGlobalMotionParams payload prefix sz tiles refs frameMode =
     on_payload payload (fm_BitsRead frameMode) (ParseGlobalMotionParams_body prefix sz tiles refs)"

section \<open>Skip mode picks the nearest references\<close>

text \<open>\<open>nearest P d is x\<close>: \<open>x\<close> is an index of \<open>is\<close> with a distance in \<open>P\<close> that is nearest to the current frame.\<close>

definition nearest :: "(int \<Rightarrow> bool) \<Rightarrow> (nat \<Rightarrow> int) \<Rightarrow> nat list \<Rightarrow> nat \<Rightarrow> bool" where
  "nearest P d is x \<longleftrightarrow> x \<in> set is \<and> P (d x) \<and> (\<forall>j \<in> set is. P (d j) \<longrightarrow> \<bar>d x\<bar> \<le> \<bar>d j\<bar>)"

definition best_ref :: "(int \<Rightarrow> bool) \<Rightarrow> (nat \<Rightarrow> int) \<Rightarrow> nat list \<Rightarrow> (nat \<times> int) option \<Rightarrow> bool" where
  "best_ref P d is r \<longleftrightarrow> (case r of None \<Rightarrow> \<forall>j \<in> set is. \<not> P (d j) | Some (x, dx) \<Rightarrow> nearest P d is x \<and> dx = d x)"

lemma best_ref_None: "best_ref P d [] None"
  by (simp add: best_ref_def)

lemma best_ref_update:
  assumes "best_ref P d is r"
  shows "best_ref P d (is @ [i]) (if P (d i) \<and> (r = None \<or> \<bar>d i\<bar> < \<bar>snd (the r)\<bar>) then Some (i, d i) else r)"
  using assms by (cases r) (auto simp: best_ref_def nearest_def intro: order_trans)

lemma best_ref_sign: "best_ref P d is (Some (x, dx)) \<Longrightarrow> P dx"
  by (auto simp: best_ref_def nearest_def)

lemma skip_ref_step_best:
  assumes "best_ref (\<lambda>v. v < 0) d is b" "best_ref (\<lambda>v. v > 0) d is a" "skip_ref_step (d i) i (b, a) = (b', a')"
  shows "best_ref (\<lambda>v. v < 0) d (is @ [i]) b' \<and> best_ref (\<lambda>v. v > 0) d (is @ [i]) a'"
proof -
  have nb: "b = Some (x, dx) \<Longrightarrow> dx < 0" and pa: "a = Some (x, dx) \<Longrightarrow> dx > 0" for x dx
    using best_ref_sign assms(1,2) by blast+
  have "b' = (if d i < 0 \<and> (b = None \<or> \<bar>d i\<bar> < \<bar>snd (the b)\<bar>) then Some (i, d i) else b)"
    using assms(3) nb by (cases b) (auto simp: skip_ref_step_def split: if_splits)
  moreover have "a' = (if d i > 0 \<and> (a = None \<or> \<bar>d i\<bar> < \<bar>snd (the a)\<bar>) then Some (i, d i) else a)"
    using assms(3) pa by (cases a) (auto simp: skip_ref_step_def split: if_splits)
  ultimately show ?thesis using best_ref_update [OF assms(1), of i] best_ref_update [OF assms(2), of i] by simp
qed

lemma skip_refs_loop_best:
  assumes "skip_refs_loop seq prefix sz refs is (b, a) = Inr (b', a')"
    "best_ref (\<lambda>v. v < 0) (skip_ref_diff seq prefix sz refs) js b" "best_ref (\<lambda>v. v > 0) (skip_ref_diff seq prefix sz refs) js a"
  shows "best_ref (\<lambda>v. v < 0) (skip_ref_diff seq prefix sz refs) (js @ is) b' \<and>
    best_ref (\<lambda>v. v > 0) (skip_ref_diff seq prefix sz refs) (js @ is) a'"
  using assms
proof (induction "is" arbitrary: js b a)
  case (Cons i "is")
  obtain b1 a1 where s: "skip_ref_step (skip_ref_diff seq prefix sz refs i) i (b, a) = (b1, a1)" by fastforce
  with Cons.prems(1) have "skip_refs_loop seq prefix sz refs is (b1, a1) = Inr (b', a')" by (auto simp: Let_def split: if_splits)
  from Cons.IH [OF this, of "js @ [i]"] skip_ref_step_best [OF Cons.prems(2,3) s] show ?case by simp
qed simp

lemma skip_before2_best:
  assumes "\<And>i. i \<in> set is \<Longrightarrow> skip_ref_diff seq prefix sz refs i \<le> 0"
  shows "best_ref (\<lambda>v. v < m) (skip_ref_diff seq prefix sz refs) is (skip_before2 seq prefix sz refs m is)"
  using assms
proof (induction "is" rule: rev_induct)
  case (snoc i "is")
  let ?d = "skip_ref_diff seq prefix sz refs"
  have ih: "best_ref (\<lambda>v. v < m) ?d is (skip_before2 seq prefix sz refs m is)" using snoc by simp
  have neg: "dx \<le> 0" if "skip_before2 seq prefix sz refs m is = Some (x, dx)" for x dx
    using ih that snoc.prems by (auto simp: best_ref_def nearest_def)
  have "?d i \<le> 0" using snoc.prems by simp
  then have "skip_before2 seq prefix sz refs m (is @ [i]) = (let r = skip_before2 seq prefix sz refs m is
      in if ?d i < m \<and> (r = None \<or> \<bar>?d i\<bar> < \<bar>snd (the r)\<bar>) then Some (i, ?d i) else r)"
    using neg by (cases "skip_before2 seq prefix sz refs m is") (auto simp: skip_before2_def Let_def)
  then show ?case using best_ref_update [OF ih, of i] by (simp add: Let_def)
qed (simp add: skip_before2_def best_ref_None)

text \<open>
  C34: skip mode uses the nearest reference before the current frame together with the nearest one after it, or,
  when no reference is after it, the nearest reference before the first; the indices are stored in
  increasing order. It is not allowed exactly when such a pair does not exist.
\<close>

theorem deriveSkipModeRefs_nearest:
  assumes "deriveSkipModeRefs seq prefix sz refs params = Inr (params', allowed)"
  defines "d \<equiv> skip_ref_diff seq prefix sz refs" and "is \<equiv> [0..<InterRefsPerFrame]"
  shows "if allowed then
      \<exists>x y. nearest (\<lambda>v. v < 0) d is x \<and>
        (nearest (\<lambda>v. v > 0) d is y \<or> (\<forall>j \<in> set is. d j \<le> 0) \<and> nearest (\<lambda>v. v < d x) d is y) \<and>
        params' = params\<lparr>sk_Allowed := True, sk_RefFrameIdx := [word_of_nat (min x y), word_of_nat (max x y)]\<rparr>
    else params' = params \<and>
      ((\<forall>j \<in> set is. \<not> d j < 0) \<or> (\<forall>j \<in> set is. d j \<le> 0) \<and> (\<exists>x. nearest (\<lambda>v. v < 0) d is x \<and> (\<forall>j \<in> set is. \<not> d j < d x)))"
proof -
  obtain b a where l: "skip_refs_loop seq prefix sz refs is (None, None) = Inr (b, a)"
    using assms(1) by (auto simp: deriveSkipModeRefs_def is_def split: sum.splits)
  have best: "best_ref (\<lambda>v. v < 0) d is b" "best_ref (\<lambda>v. v > 0) d is a"
    using skip_refs_loop_best [OF l, of "[]"] best_ref_None by (auto simp: d_def)
  have refs: "setSkipModeRefs params x y = params\<lparr>sk_Allowed := True, sk_RefFrameIdx := [word_of_nat (min x y), word_of_nat (max x y)]\<rparr>" for x y
    by (simp add: setSkipModeRefs_def Let_def min_def max_def)
  note def = assms(1) [unfolded deriveSkipModeRefs_def is_def [symmetric] l sum.case]
  show ?thesis
  proof (cases b)
    case None
    then show ?thesis using def best(1) by (auto simp: best_ref_def split: option.splits)
  next
    case (Some bd)
    obtain x dx where b: "b = Some (x, dx)" using Some by (cases bd) auto
    then have x: "nearest (\<lambda>v. v < 0) d is x" "dx = d x" using best(1) by (auto simp: best_ref_def)
    show ?thesis
    proof (cases a)
      case (Some ad)
      then obtain y dy where "a = Some (y, dy)" by (cases ad) auto
      then have "params' = setSkipModeRefs params x y" "allowed" "nearest (\<lambda>v. v > 0) d is y"
        using def b best(2) by (auto simp: best_ref_def)
      then show ?thesis using x(1) refs by metis
    next
      case None
      then have none: "\<forall>j \<in> set is. d j \<le> 0" using best(2) by (auto simp: best_ref_def not_less)
      then have b2: "best_ref (\<lambda>v. v < dx) d is (skip_before2 seq prefix sz refs dx is)" unfolding d_def by (intro skip_before2_best) simp
      show ?thesis
      proof (cases "skip_before2 seq prefix sz refs dx is")
        case None
        then show ?thesis using def b \<open>a = None\<close> b2 x none by (auto simp: best_ref_def)
      next
        case (Some yd)
        then obtain y dy where y: "skip_before2 seq prefix sz refs dx is = Some (y, dy)" by (cases yd) auto
        then have "params' = setSkipModeRefs params x y" "allowed" "nearest (\<lambda>v. v < d x) d is y"
          using def b \<open>a = None\<close> b2 x(2) by (auto simp: best_ref_def)
        then show ?thesis using x(1) none refs by metis
      qed
    qed
  qed
qed

theorem deriveSkipModeRefs_nearest_witness:
  "\<exists>params'. deriveSkipModeRefs small_sequence (zero_FrameHeaderPrefix\<lparr>fh_OrderHint := 40\<rparr>)
       (zero_FrameSize\<lparr>fs_RefFrameIdx := [0, 1, 2, 3, 4, 5, 6]\<rparr>) (refs_with_hints [10, 20, 30, 35, 50, 60, 70, 80]) zero_SkipModeParams =
       Inr (params', True) \<and> sk_RefFrameIdx params' = [3, 4] \<and>
     (\<exists>x. nearest (\<lambda>v. v < 0) (skip_ref_diff small_sequence (zero_FrameHeaderPrefix\<lparr>fh_OrderHint := 40\<rparr>)
       (zero_FrameSize\<lparr>fs_RefFrameIdx := [0, 1, 2, 3, 4, 5, 6]\<rparr>) (refs_with_hints [10, 20, 30, 35, 50, 60, 70, 80])) [0..<InterRefsPerFrame] x)"
proof -
  let ?r = "deriveSkipModeRefs small_sequence (zero_FrameHeaderPrefix\<lparr>fh_OrderHint := 40\<rparr>)
       (zero_FrameSize\<lparr>fs_RefFrameIdx := [0, 1, 2, 3, 4, 5, 6]\<rparr>) (refs_with_hints [10, 20, 30, 35, 50, 60, 70, 80]) zero_SkipModeParams"
  have "case ?r of Inr (p, a) \<Rightarrow> a \<and> sk_RefFrameIdx p = [3, 4] | Inl _ \<Rightarrow> False" by code_simp
  then obtain p where "?r = Inr (p, True)" "sk_RefFrameIdx p = [3, 4]" by (cases ?r) auto
  with deriveSkipModeRefs_nearest [OF this(1)] show ?thesis by auto
qed

section \<open>Ranges of the codes\<close>

lemma MSB32_from_bounds:
  assumes "v \<noteq> 0" "unat v < 2 ^ k"
  shows "\<exists>i. MSB32_from v k = int i \<and> i < k \<and> 2 ^ i \<le> unat v \<and> unat v < 2 ^ (i + 1)"
  using assms
proof (induction k)
  case 0
  then show ?case by (simp add: unat_gt_0 [symmetric])
next
  case (Suc k)
  show ?case
  proof (cases "bit v k")
    case True
    then have "bit (unat v) k" by (simp add: bit_unsigned_iff)
    then have "2 ^ k \<le> unat v" by (metis bit_take_bit_iff less_irrefl not_le_imp_less take_bit_nat_eq_self)
    then show ?thesis using Suc.prems True by auto
  next
    case False
    then have b: "\<not> bit (unat v) k" by (simp add: bit_unsigned_iff)
    have "take_bit (Suc k) (unat v) = unat v" using Suc.prems(2) by (intro take_bit_nat_eq_self)
    then have "take_bit k (unat v) = unat v" using b by (simp add: take_bit_Suc_from_most)
    then have "unat v < 2 ^ k" by (metis take_bit_nat_less_exp)
    from Suc.IH [OF Suc.prems(1) this] show ?thesis using False by auto
  qed
qed

lemma MSB32_len:
  assumes "2 \<le> unat n" "unat n < 2 ^ 31" shows "MSB32 n = int (readUniform_len n 0)"
proof -
  have "n \<noteq> 0" using assms(1) by auto
  then obtain i where i: "MSB32 n = int i" "2 ^ i \<le> unat n" "unat n < 2 ^ (i + 1)"
    using MSB32_from_bounds [of n 32] unsigned_less [of n, where 'a = nat] unfolding MSB32_def by auto
  let ?l = "readUniform_len n 0"
  have l: "2 ^ ?l \<le> unat n" "unat n < 2 ^ (?l + 1)" using readUniform_len_bounds [OF assms, of 0] assms(1) by auto
  have "(2 :: nat) ^ i < 2 ^ (?l + 1)" "(2 :: nat) ^ ?l < 2 ^ (i + 1)" using i l by linarith+
  then have "i < ?l + 1" "?l < i + 1" by (simp_all only: power_strict_increasing_iff one_less_numeral_iff semiring_norm)
  then show ?thesis using i(1) by simp
qed

lemma bind_bool_bit: "rbind ReadBool (\<lambda>b. rret (f (boolBit b))) = rbind ReadBit (\<lambda>b. rret (f (ucast b)))"
proof
  fix r show "rbind ReadBool (\<lambda>b. rret (f (boolBit b))) r = rbind ReadBit (\<lambda>b. rret (f (ucast b))) r"
    by (cases "rd_bits r") (auto simp: ReadBool_def rbind_def rret_def ReadBit_Nil ReadBit_Cons boolBit_def)
qed

text \<open>The two uniform codes of the parser are the same.\<close>

lemma readPrimitiveQUniform_eq:
  assumes "unat n < 2 ^ 31" shows "readPrimitiveQUniform n = readUniform n"
proof (cases "n \<le> 1")
  case False
  then have "\<not> unat n \<le> 1" by (simp add: word_le_nat_alt)
  then have two: "2 \<le> unat n" by simp
  have "readUniform_len n 0 < 31" using readUniform_len_bounds [OF two assms, of 0] two by simp
  then have l: "unat (word_of_int (MSB32 n + 1) :: u8) = readUniform_len n 0 + 1"
      "(word_of_int (MSB32 n + 1) :: u8) - 1 = word_of_nat (readUniform_len n 0 + 1 - 1)"
    using unat_u8_small [of "readUniform_len n 0 + 1"] by (simp_all add: MSB32_len [OF two assms] add.commute)
  show ?thesis
    unfolding readPrimitiveQUniform_def readUniform_def Let_def l bind_bool_bit [of "\<lambda>b. _ - _ + b"] ..
qed (simp add: readPrimitiveQUniform_def readUniform_def)

lemma rpost_readPrimitiveSubexpFin_loop:
  assumes "0 \<le> mk" "mk < uint n" "unat n < 2 ^ 24"
  shows "rpost (readPrimitiveSubexpFin_loop n k i mk) (\<lambda>v. unat v < unat n)"
  using assms
proof (induction n k i mk rule: readPrimitiveSubexpFin_loop.induct)
  case (1 n k i mk)
  define b where "b = (if i > 0 then unat k + (i - 1) else unat k)"
  have un: "uint n = int (unat n)" by simp
  have mk: "nat mk < unat n" using "1.prems"(1,2) un by linarith
  have "(word_of_int mk :: u32) = word_of_nat (nat mk)" using "1.prems"(1) by simp
  then have wmk: "unat (word_of_int mk :: u32) = nat mk" using mk "1.prems"(3) by (simp only: unat_of_nat) (simp add: take_bit_nat_eq_self)
  have sub: "unat (n - word_of_int mk) = unat n - nat mk"
    using mk wmk by (subst unat_sub) (simp_all add: word_le_nat_alt)
  have add: "unat (v + word_of_int mk :: u32) < unat n" if "unat v < m" "m + nat mk \<le> unat n" for v m
    using that mk wmk "1.prems"(3) by (simp add: unat_word_ariths)
  have final: "rpost (rbind (readPrimitiveQUniform (n - word_of_int mk)) (\<lambda>v. rret (v + word_of_int mk))) (\<lambda>v. unat v < unat n)"
  proof -
    have lt: "unat (n - word_of_int mk) < 2 ^ 31" using sub "1.prems"(3) by simp
    have ge: "1 \<le> unat (n - word_of_int mk)" using sub mk by simp
    show ?thesis
      unfolding readPrimitiveQUniform_eq [OF lt]
    proof (rule rpost_rbind [OF rpost_readUniform [OF ge lt]])
      fix v :: u32 assume "unat v < unat (n - word_of_int mk)"
      then show "rpost (rret (v + word_of_int mk)) (\<lambda>v. unat v < unat n)"
        using mk sub by (intro rpost_rret add [of _ "unat n - nat mk"]) linarith+
    qed
  qed
  have small: "rpost (rbind (ReadBits (word_of_nat b)) (\<lambda>v. rret (ucast v + word_of_int mk :: u32))) (\<lambda>v. unat v < unat n)"
    if big: "\<not> uint n \<le> mk + 3 * 2 ^ b"
  proof -
    have "int (2 ^ b + nat mk) = 2 ^ b + mk" using "1.prems"(1) by simp
    moreover have "(0 :: int) < 2 ^ b" by simp
    ultimately have "int (2 ^ b + nat mk) \<le> int (unat n)" using big un by linarith
    then have lt: "2 ^ b + nat mk \<le> unat n" by (simp only: of_nat_le_iff)
    then have "(2 :: nat) ^ b < 2 ^ 24" using "1.prems"(3) by linarith
    then have b: "b < 24" by (rule power_less_imp_less_exp [rotated]) simp
    then have w: "unat (word_of_nat b :: u8) = b" by (intro unat_u8_small) simp
    have u: "unat (ucast v :: u32) = unat v" if "unat v < 2 ^ b" for v :: u64
      using that \<open>2 ^ b < 2 ^ 24\<close> by (simp add: unsigned_ucast_eq take_bit_nat_eq_self)
    have "unat (ucast v + word_of_int mk :: u32) < unat n" if "unat v < 2 ^ b" for v :: u64
      using add [of "ucast v" "2 ^ b"] that lt u by simp
    then show ?thesis by (intro rpost_bind_ReadBits rpost_rret) (simp add: w)
  qed
  have more: "rpost (readPrimitiveSubexpFin_loop n k (i + 1) (mk + 2 ^ b)) (\<lambda>v. unat v < unat n)" if "\<not> uint n \<le> mk + 3 * 2 ^ b"
  proof (rule "1.IH" [OF b_def refl that])
    have "(0 :: int) < 2 ^ b" by simp
    then show "0 \<le> mk + 2 ^ b" "mk + 2 ^ b < uint n" using "1.prems"(1) that by linarith+
  qed (use "1.prems" in auto)
  show ?case
    by (subst readPrimitiveSubexpFin_loop.simps, unfold Let_def b_def [symmetric])
      (intro rpost_if rpost_bind_ReadBool final small more)
qed

lemma rpost_readPrimitiveSubexpFin:
  assumes "1 \<le> unat n" "unat n < 2 ^ 24"
  shows "rpost (readPrimitiveSubexpFin n k) (\<lambda>v. unat v < unat n)"
proof -
  have "uint n = int (unat n)" by simp
  then have "0 < uint n" using assms(1) by linarith
  then show ?thesis
    using rpost_readPrimitiveSubexpFin_loop [of 0 n k 0] assms(2) by (simp add: readPrimitiveSubexpFin_def [abs_def])
qed

lemma invRecenterNonNeg_unat:
  assumes "unat ref < 2 ^ 24" "unat v < 2 ^ 24"
  shows "unat (invRecenterNonNeg ref v) = (if unat v > 2 * unat ref then unat v else if even (unat v) then unat v div 2 + unat ref
    else unat ref - (unat v + 1) div 2)"
proof -
  have two: "unat (push_bit 1 ref) = 2 * unat ref" using assms(1) by (simp add: push_bit_Suc unat_word_ariths)
  have one: "unat (v + 1) = unat v + 1" using assms(2) by (simp add: unat_word_ariths)
  have d: "unat (drop_bit 1 w) = unat w div 2" for w :: u32 by (simp add: drop_bit_Suc unat_div)
  have "odd (unat v) = odd v" by (simp add: bit_0 [symmetric] bit_unsigned_iff del: bit_0)
  then have odd: "v AND 1 = 0 \<longleftrightarrow> even (unat v)" by (simp add: and_one_eq mod_2_eq_odd)
  have sum: "unat (drop_bit 1 v + ref) = unat v div 2 + unat ref" using assms d [of v] by (simp add: unat_word_ariths)
  have "unat (ref - drop_bit 1 (v + 1)) = unat ref - (unat v + 1) div 2" if "unat v \<le> 2 * unat ref" "odd (unat v)"
  proof -
    have "(unat v + 1) div 2 \<le> unat ref" using that by (auto elim!: oddE)
    then show ?thesis using d [of "v + 1"] one by (subst unat_sub) (simp_all add: word_le_nat_alt)
  qed
  then show ?thesis unfolding invRecenterNonNeg_def word_less_nat_alt two odd using sum by (auto simp: not_less)
qed

text \<open>Recentering around a reference below \<open>n\<close> maps the values below \<open>n\<close> to values below \<open>n\<close>.\<close>

lemma invRecenterNonNeg_less:
  assumes "unat ref < 2 ^ 24" "unat n < 2 ^ 24" "unat v < unat n" "2 * unat ref \<le> unat n"
  shows "unat (invRecenterNonNeg ref v) < unat n"
proof -
  have "unat v div 2 + unat ref < unat n" if "\<not> 2 * unat ref < unat v" "even (unat v)" using assms(3,4) that by (auto elim!: evenE)
  moreover have "unat ref < unat n \<or> unat v > 2 * unat ref" using assms(3,4) by auto
  ultimately show ?thesis using assms by (subst invRecenterNonNeg_unat) auto
qed

lemma invRecenterFiniteNonNeg_less:
  assumes "unat n < 2 ^ 24" "unat ref < unat n" "unat v < unat n"
  shows "unat (invRecenterFiniteNonNeg n ref v) < unat n"
proof (cases "push_bit 1 ref \<le> n")
  case True
  have "unat (push_bit 1 ref) = 2 * unat ref" using assms by (simp add: push_bit_Suc unat_word_ariths)
  then show ?thesis using True assms by (simp add: invRecenterFiniteNonNeg_def word_le_nat_alt invRecenterNonNeg_less)
next
  case False
  have n1: "unat (n - 1) = unat n - 1" using assms by (intro unat_pred) (simp add: word_le_nat_alt)
  have "unat (push_bit 1 ref) = 2 * unat ref" using assms by (simp add: push_bit_Suc unat_word_ariths)
  then have "unat n < 2 * unat ref" using False by (simp add: word_le_nat_alt)
  moreover have r: "unat (n - 1 - ref) = unat n - 1 - unat ref" using n1 assms by (subst unat_sub) (simp_all add: word_le_nat_alt)
  ultimately have "unat (invRecenterNonNeg (n - 1 - ref) v) < unat n" using assms by (intro invRecenterNonNeg_less) simp_all
  then have "unat (n - 1 - invRecenterNonNeg (n - 1 - ref) v) = unat n - 1 - unat (invRecenterNonNeg (n - 1 - ref) v)"
    using n1 by (subst unat_sub) (simp_all add: word_le_nat_alt)
  then show ?thesis using False assms by (simp add: invRecenterFiniteNonNeg_def)
qed

lemma i32_range: "- 2147483648 \<le> k \<Longrightarrow> k < 2147483648 \<Longrightarrow> i32 k = k"
  by (simp add: i32_small)

lemma rpost_readSignedPrimitiveRefSubexpFin:
  assumes "1 \<le> unat n" "unat n \<le> 2 ^ 13"
  shows "rpost (readSignedPrimitiveRefSubexpFin n k ref) (\<lambda>v. \<bar>v\<bar> < int (unat n))"
proof -
  have sn: "unat (push_bit 1 n - 1) = 2 * unat n - 1"
  proof -
    have "unat (push_bit 1 n) = 2 * unat n" using assms(2) by (simp add: push_bit_Suc unat_word_ariths)
    then show ?thesis using assms(1) by (subst unat_pred) (simp_all add: word_le_nat_alt)
  qed
  have un: "uint n = int (unat n)" "uint (push_bit 1 n - 1) = int (unat (push_bit 1 n - 1))" by simp_all
  have n: "unat n \<le> 8192" using assms(2) by simp
  have v: "\<bar>i32 (i32 (uint v) - i32 (uint n) + 1)\<bar> < int (unat n)" if "unat v < 2 * unat n - 1" for v :: u32
  proof -
    have u: "uint v = int (unat v)" by simp
    have b: "int (unat v) < 2 * int (unat n) - 1" "int (unat n) \<le> 8192" using that assms(1) n by linarith+
    then have "i32 (uint v) = int (unat v)" "i32 (uint n) = int (unat n)"
      unfolding u un by (intro i32_range; linarith)+
    moreover have "i32 (int (unat v) - int (unat n) + 1) = int (unat v) - int (unat n) + 1" using b by (intro i32_range) linarith+
    ultimately have "i32 (i32 (uint v) - i32 (uint n) + 1) = int (unat v) - int (unat n) + 1" by metis
    then show ?thesis using b assms(1) by linarith
  qed
  have "rpost (rbind (readPrimitiveRefSubexpFin (push_bit 1 n - 1) k (word_of_int (ref + uint n - 1)))
      (\<lambda>v. rret (i32 (i32 (uint v) - i32 (uint n) + 1)))) (\<lambda>v. \<bar>v\<bar> < int (unat n))"
    if "\<not> (ref + uint n - 1 < 0 \<or> ref + uint n - 1 \<ge> uint (push_bit 1 n - 1))"
  proof -
    define w where "w = nat (ref + uint n - 1)"
    have w: "ref + uint n - 1 = int w" "w < 2 * unat n - 1" using that sn un(2) by (auto simp: w_def nat_less_iff)
    have "unat (word_of_int (int w) :: u32) = w" using w(2) assms(2) by (simp add: unat_of_nat take_bit_nat_eq_self)
    then have "unat (word_of_int (ref + uint n - 1) :: u32) < unat (push_bit 1 n - 1)" using w sn by simp
    then have "unat (invRecenterFiniteNonNeg (push_bit 1 n - 1) (word_of_int (ref + uint n - 1)) v) < 2 * unat n - 1"
      if "unat v < unat (push_bit 1 n - 1)" for v
      using that sn assms(2) by (subst sn [symmetric], intro invRecenterFiniteNonNeg_less) simp_all
    then show ?thesis
      unfolding readPrimitiveRefSubexpFin_def
      by (intro rpost_bind_bind rpost_rbind [OF rpost_readPrimitiveSubexpFin] rpost_bind_rret rpost_rret v)
        (use sn assms in simp_all)
  qed
  then show ?thesis unfolding readSignedPrimitiveRefSubexpFin_def Let_def by (intro rpost_if rpost_rfail)
qed

section \<open>Ranges of the motion parameters\<close>

definition warp_ok :: "WarpedMotionParams \<Rightarrow> bool" where
  "warp_ok w \<longleftrightarrow> length (wm_Matrix w) = 6 \<and> \<bar>wm_Matrix w ! 0\<bar> \<le> 2 ^ 22 \<and> \<bar>wm_Matrix w ! 1\<bar> \<le> 2 ^ 22 \<and>
     \<bar>wm_Matrix w ! 2 - 2 ^ 16\<bar> \<le> 2 ^ 13 \<and> \<bar>wm_Matrix w ! 3\<bar> \<le> 2 ^ 13 \<and> \<bar>wm_Matrix w ! 4\<bar> \<le> 2 ^ 13 \<and>
     \<bar>wm_Matrix w ! 5 - 2 ^ 16\<bar> \<le> 2 ^ 13"

definition motion_ok :: "GlobalMotionParams \<Rightarrow> bool" where
  "motion_ok gm \<longleftrightarrow> length (gm_Ref gm) = InterRefsPerFrame \<and> (\<forall>w \<in> set (gm_Ref gm). warp_ok w)"

lemma default_warp_ok: "warp_ok DefaultWarpedMotionParams"
  by (simp add: warp_ok_def DefaultWarpedMotionParams_def warpedModelPrecBits_def)

lemma default_motion_ok: "motion_ok DefaultGlobalMotionParams"
  by (simp add: motion_ok_def DefaultGlobalMotionParams_def default_warp_ok)

lemma warp_ok_set_entry:
  assumes "warp_ok w"
  shows "\<bar>v\<bar> \<le> 4194304 \<Longrightarrow> i \<in> {0, 1} \<Longrightarrow> warp_ok (set_entry i v w)"
    and "\<bar>v - 65536\<bar> \<le> 8192 \<Longrightarrow> i \<in> {2, 5} \<Longrightarrow> warp_ok (set_entry i v w)"
    and "\<bar>v\<bar> \<le> 8192 \<Longrightarrow> i \<in> {3, 4} \<Longrightarrow> warp_ok (set_entry i v w)"
proof -
  have "i32 v = v" if "\<bar>v\<bar> \<le> 4194304" using that by (intro i32_range) linarith+
  then show "\<bar>v\<bar> \<le> 4194304 \<Longrightarrow> i \<in> {0, 1} \<Longrightarrow> warp_ok (set_entry i v w)"
    using assms by (auto simp: warp_ok_def set_entry_def nth_list_update)
  have "i32 v = v" if "\<bar>v - 65536\<bar> \<le> 8192" using that by (intro i32_range) linarith+
  then show "\<bar>v - 65536\<bar> \<le> 8192 \<Longrightarrow> i \<in> {2, 5} \<Longrightarrow> warp_ok (set_entry i v w)"
    using assms by (auto simp: warp_ok_def set_entry_def nth_list_update)
  have "i32 v = v" if "\<bar>v\<bar> \<le> 8192" using that by (intro i32_range) linarith+
  then show "\<bar>v\<bar> \<le> 8192 \<Longrightarrow> i \<in> {3, 4} \<Longrightarrow> warp_ok (set_entry i v w)"
    using assms by (auto simp: warp_ok_def set_entry_def nth_list_update)
qed

lemma warp_ok_type [simp]: "warp_ok (w\<lparr>wm_Type := t\<rparr>) = warp_ok w"
  by (simp add: warp_ok_def)

lemma rpost_alpha: "rpost (readSignedPrimitiveRefSubexpFin (gmAlphaMax + 1) subexpFinK ref) (\<lambda>v. \<bar>v\<bar> \<le> 4096)"
  using rpost_readSignedPrimitiveRefSubexpFin [of "gmAlphaMax + 1" subexpFinK ref] by (auto simp: gmAlphaMax_def elim!: rpost_conseq)

lemma rpost_trans:
  assumes "bits \<le> 12"
  shows "rpost (readSignedPrimitiveRefSubexpFin (push_bit bits 1 + 1) subexpFinK ref) (\<lambda>v. \<bar>v\<bar> \<le> 2 ^ bits)"
proof -
  have p: "(2 :: nat) ^ bits \<le> 4096" using assms power_increasing [of bits 12 "2 :: nat"] by simp
  have b: "unat (push_bit bits 1 :: u32) = 2 ^ bits" using assms by (intro unat_push_bit_one) simp
  have n: "unat (push_bit bits 1 + 1 :: u32) = 2 ^ bits + 1"
    unfolding unat_word_ariths b using p by simp
  then have "rpost (readSignedPrimitiveRefSubexpFin (push_bit bits 1 + 1) subexpFinK ref) (\<lambda>v. \<bar>v\<bar> < int (unat (push_bit bits 1 + 1 :: u32)))"
    using p by (intro rpost_readSignedPrimitiveRefSubexpFin) simp_all
  then show ?thesis unfolding n by (rule rpost_conseq) simp
qed

lemma rpost_gm_translation:
  assumes "warp_ok gm" "bits \<le> 12" "bits + shift = 22"
  shows "rpost (rbind (readSignedPrimitiveRefSubexpFin (push_bit bits 1 + 1) subexpFinK a) (\<lambda>v.
      let gm = set_entry 0 (v * 2 ^ shift) gm in
      rbind (readSignedPrimitiveRefSubexpFin (push_bit bits 1 + 1) subexpFinK b) (\<lambda>v. rret (set_entry 1 (v * 2 ^ shift) gm)))) warp_ok"
proof -
  have v: "\<bar>v * 2 ^ shift\<bar> \<le> 4194304" if "\<bar>v\<bar> \<le> 2 ^ bits" for v :: int
  proof -
    have "\<bar>v * 2 ^ shift\<bar> = \<bar>v\<bar> * 2 ^ shift" by (simp add: abs_mult)
    also have "\<dots> \<le> 2 ^ bits * 2 ^ shift" using that by (intro mult_right_mono) simp_all
    also have "\<dots> = 2 ^ 22" using assms(3) by (simp add: power_add [symmetric])
    finally show ?thesis by simp
  qed
  show ?thesis
    unfolding Let_def
    by (intro rpost_rbind [OF rpost_trans [OF assms(2)]] rpost_rret warp_ok_set_entry(1) assms(1) v) simp_all
qed

lemma rpost_readGlobalMotionRef: "rpost (readGlobalMotionRef ref hp) warp_ok"
proof -
  have one: "(2 :: int) ^ warpedModelPrecBits = 65536" by (simp add: gm_consts)
  have rz: "rpost (if c then rbind (readSignedPrimitiveRefSubexpFin (gmAlphaMax + 1) subexpFinK a) (\<lambda>v. let gm = set_entry 2 (65536 + 2 * v) gm in
      rbind (readSignedPrimitiveRefSubexpFin (gmAlphaMax + 1) subexpFinK b) (\<lambda>v. rret (set_entry 3 (2 * v) gm))) else rret gm) warp_ok"
    if "warp_ok gm" for c a b gm
    unfolding Let_def by (intro rpost_if rpost_rbind [OF rpost_alpha] rpost_rret warp_ok_set_entry that) (simp_all add: that)
  have af: "rpost (if c then rbind (readSignedPrimitiveRefSubexpFin (gmAlphaMax + 1) subexpFinK a) (\<lambda>v. let gm = set_entry 4 (2 * v) gm in
      rbind (readSignedPrimitiveRefSubexpFin (gmAlphaMax + 1) subexpFinK b) (\<lambda>v. rret (set_entry 5 (65536 + 2 * v) gm)))
      else rret (set_entry 5 (wm_Matrix gm ! 2) (set_entry 4 (- (wm_Matrix gm ! 3)) gm))) warp_ok" if "warp_ok gm" for c a b gm
  proof -
    have "\<bar>- (wm_Matrix gm ! 3)\<bar> \<le> 8192" "\<bar>wm_Matrix gm ! 2 - 65536\<bar> \<le> 8192" using that by (simp_all add: warp_ok_def)
    then show ?thesis
      unfolding Let_def using that
      by (intro rpost_if rpost_rbind [OF rpost_alpha] rpost_rret warp_ok_set_entry(2) warp_ok_set_entry(3)) simp_all
  qed
  have tr: "rpost (if c then rret gm else (let (bits, shift) = (if t then if \<not> hp then (gmAbsTransOnlyBits - 1, gmTransOnlyPrecDiff + 1)
        else (gmAbsTransOnlyBits, gmTransOnlyPrecDiff) else (gmAbsTransBits, gmTransPrecDiff));
      n = push_bit bits 1 + 1 :: u32
      in rbind (readSignedPrimitiveRefSubexpFin n subexpFinK (drop_bit shift a)) (\<lambda>v. let gm = set_entry 0 (v * 2 ^ shift) gm in
         rbind (readSignedPrimitiveRefSubexpFin n subexpFinK (drop_bit shift b)) (\<lambda>v. rret (set_entry 1 (v * 2 ^ shift) gm))))) warp_ok"
    if "warp_ok gm" for c t gm a b
    using rpost_gm_translation [OF that, of 8 14] rpost_gm_translation [OF that, of 9 13] rpost_gm_translation [OF that, of 12 10] that
    by (auto simp: gm_consts Let_def rpost_rret)
  show ?thesis
    unfolding readGlobalMotionRef_def one Let_def [of DefaultWarpedMotionParams] Let_def [of "65536 :: int"]
    apply (intro rpost_bind_ReadBool rpost_if rpost_rret default_warp_ok)
    apply (rule rpost_rbind [of _ warp_ok], intro rpost_if rpost_bind_ReadBool rpost_rret, simp add: default_warp_ok, simp add: default_warp_ok)
    apply (rule rpost_rbind [OF rz], assumption)
    apply (rule rpost_rbind [OF af], assumption)
    apply (erule tr)
    done
qed

lemma rpost_globalMotion_loop:
  assumes "motion_ok params" shows "rpost (globalMotion_loop k i prefix sz tiles refs params) motion_ok"
  using assms
proof (induction k arbitrary: i params)
  case (Suc k)
  have "motion_ok (params\<lparr>gm_Ref := (gm_Ref params)[i := gm]\<rparr>)" if "warp_ok gm" for gm
    using Suc.prems that set_update_subset_insert [of "gm_Ref params" i gm] by (auto simp: motion_ok_def)
  then show ?case
    by (auto split: sum.split intro!: rpost_rfail rpost_rbind [OF rpost_readGlobalMotionRef] Suc.IH)
qed (simp add: rpost_rret)

lemma rpost_ParseGlobalMotionParams_body: "rpost (ParseGlobalMotionParams_body prefix sz tiles refs) motion_ok"
proof -
  have b: "motion_ok (p\<lparr>gm_BitsRead := n\<rparr>) = motion_ok p" for p n by (simp add: motion_ok_def)
  show ?thesis
    unfolding ParseGlobalMotionParams_body_def
    by (rule rpost_rbind [of _ motion_ok])
      (auto simp: b default_motion_ok intro!: rpost_if rpost_rret rpost_globalMotion_loop rpost_bind_any [of _ _ readerBitsRead])
qed

lemma forward_readGlobalMotionRef [rd_safe]: "forward (readGlobalMotionRef ref hp)"
proof -
  have [rd_safe]: "forward (readPrimitiveQUniform n)" for n unfolding readPrimitiveQUniform_def by (intro rd_safe)
  have [rd_safe]: "forward (readPrimitiveSubexpFin_loop n k i mk)" for n k i mk
    by (induction n k i mk rule: readPrimitiveSubexpFin_loop.induct) (subst readPrimitiveSubexpFin_loop.simps, auto simp: Let_def intro!: rd_safe)
  have [rd_safe]: "forward (readSignedPrimitiveRefSubexpFin n k r)" for n k r
    unfolding readSignedPrimitiveRefSubexpFin_def readPrimitiveRefSubexpFin_def readPrimitiveSubexpFin_def [abs_def] by (intro rd_safe)
  show ?thesis unfolding readGlobalMotionRef_def by (intro rd_safe)
qed

interpretation skip_stage: header_stage "ParseSkipModeParams_body seq prefix sz refs tr" sk_BitsRead for seq prefix sz refs tr
proof (rule header_stageI)
  show "forward (ParseSkipModeParams_body seq prefix sz refs tr)" unfolding ParseSkipModeParams_body_def by (intro rd_safe)
  have "sk_BitsRead p = sk_BitsRead q" if "deriveSkipModeRefs seq prefix sz rs q = Inr (p, a)" for p q a rs
    using that by (auto simp: deriveSkipModeRefs_def setSkipModeRefs_def Let_def split: sum.splits option.splits if_splits)
  then show "reports (ParseSkipModeParams_body seq prefix sz refs tr) sk_BitsRead"
    unfolding ParseSkipModeParams_body_def
    by (auto simp: reports_def rbind_def readerBitsRead_def Let_def rret_def rfail_def BitsRead_def unat_of_nat take_bit_nat_eq_self
        split: if_splits option.splits sum.splits prod.splits)
qed

interpretation motion_stage: header_stage "ParseGlobalMotionParams_body prefix sz tiles refs" gm_BitsRead for prefix sz tiles refs
proof (rule header_stageI)
  have [rd_safe]: "forward (globalMotion_loop k i prefix sz tiles refs params)" for k i params
    by (induction k arbitrary: i params) (auto split: sum.split intro!: rd_safe)
  show "forward (ParseGlobalMotionParams_body prefix sz tiles refs)" unfolding ParseGlobalMotionParams_body_def by (intro rd_safe)
  show "reports (ParseGlobalMotionParams_body prefix sz tiles refs) gm_BitsRead"
    unfolding ParseGlobalMotionParams_body_def by (intro rd_reports reports_end) simp
qed

text \<open>
  A motion parameter is a valid predictor when each of its entries, at the precision at which it is
  coded, is in the range of the code; \<open>readSignedPrimitiveRefSubexpFin\<close> rejects the header otherwise.
\<close>

definition predictor_ok :: "u32 \<Rightarrow> int \<Rightarrow> bool" where
  "predictor_ok n ref \<longleftrightarrow> 0 \<le> ref + uint n - 1 \<and> ref + uint n - 1 < uint (push_bit 1 n - 1)"

lemma readSignedPrimitiveRefSubexpFin_accepts:
  "predictor_ok n ref \<Longrightarrow> readSignedPrimitiveRefSubexpFin n k ref =
     rbind (readPrimitiveRefSubexpFin (push_bit 1 n - 1) k (word_of_int (ref + uint n - 1))) (\<lambda>v. rret (i32 (i32 (uint v) - i32 (uint n) + 1)))"
  by (simp add: predictor_ok_def readSignedPrimitiveRefSubexpFin_def Let_def)

text \<open>
  C35: the global motion parameters of an accepted header stay in the ranges of the AV1 specification, and so each
  of them can predict the parameters of a later frame: at the precision of every motion type it is
  inside the range of the code, which is the only check that could reject it.
\<close>

theorem ParseGlobalMotionParams_ranges:
  assumes "ParseGlobalMotionParams payload prefix sz tiles refs mode = Inr gm"
  shows "motion_ok gm \<and> (\<forall>w \<in> set (gm_Ref gm).
      predictor_ok 4097 (drop_bit 1 (wm_Matrix w ! 2 - 65536)) \<and> predictor_ok 4097 (drop_bit 1 (wm_Matrix w ! 3)) \<and>
      predictor_ok 4097 (drop_bit 1 (wm_Matrix w ! 4)) \<and> predictor_ok 4097 (drop_bit 1 (wm_Matrix w ! 5 - 65536)) \<and>
      (\<forall>i \<in> {0, 1}. predictor_ok 257 (drop_bit 14 (wm_Matrix w ! i)) \<and> predictor_ok 513 (drop_bit 13 (wm_Matrix w ! i)) \<and>
        predictor_ok 4097 (drop_bit 10 (wm_Matrix w ! i)))) \<and>
    unat (fm_BitsRead mode) \<le> unat (gm_BitsRead gm)"
proof -
  note p = assms [unfolded ParseGlobalMotionParams_def]
  have ok: "motion_ok gm" using on_payload_post [OF rpost_ParseGlobalMotionParams_body p] .
  have d: "- (2 ^ a) \<le> drop_bit b v \<and> drop_bit b v \<le> 2 ^ a" if "\<bar>v\<bar> \<le> 2 ^ (a + b)" for a b :: nat and v :: int
  proof -
    have "drop_bit b (- (2 ^ (a + b))) \<le> drop_bit b v" "drop_bit b v \<le> drop_bit b (2 ^ (a + b) :: int)"
      using that unfolding drop_bit_eq_div by (intro zdiv_mono1; simp add: abs_le_iff)+
    moreover have "drop_bit b (2 ^ (a + b)) = (2 :: int) ^ a" "drop_bit b (- (2 ^ (a + b))) = - ((2 :: int) ^ a)"
      by (simp_all add: drop_bit_eq_div power_add zdiv_zminus1_eq_if)
    ultimately show ?thesis by simp
  qed
  have "predictor_ok 4097 v" if "- (2 ^ 12) \<le> v" "v \<le> 2 ^ 12" for v using that by (simp add: predictor_ok_def)
  moreover have "predictor_ok 513 v" if "- (2 ^ 9) \<le> v" "v \<le> 2 ^ 9" for v using that by (simp add: predictor_ok_def)
  moreover have "predictor_ok 257 v" if "- (2 ^ 8) \<le> v" "v \<le> 2 ^ 8" for v using that by (simp add: predictor_ok_def)
  ultimately show ?thesis
    using ok motion_stage.stage_bounds [OF p] d [of _ 12 1] d [of _ 12 10] d [of _ 9 13] d [of _ 8 14]
    by (auto simp: motion_ok_def warp_ok_def)
qed

theorem ParseGlobalMotionParams_ranges_witness:
  "\<exists>gm. ParseGlobalMotionParams [0xa4, 0, 0] (zero_FrameHeaderPrefix\<lparr>fh_FrameType := FrameTypeInter, fh_PrimaryRefFrame := 7\<rparr>)
       zero_FrameSize zero_TileInfo None zero_FrameModeParams = Inr gm \<and>
     motion_ok gm \<and> wm_Matrix (gm_Ref gm ! 0) ! 0 = 16384"
proof -
  let ?r = "ParseGlobalMotionParams [0xa4, 0, 0] (zero_FrameHeaderPrefix\<lparr>fh_FrameType := FrameTypeInter, fh_PrimaryRefFrame := 7\<rparr>)
       zero_FrameSize zero_TileInfo None zero_FrameModeParams"
  have "case ?r of Inr gm \<Rightarrow> wm_Matrix (gm_Ref gm ! 0) ! 0 = 16384 | Inl _ \<Rightarrow> False" by code_simp
  then obtain gm where "?r = Inr gm" "wm_Matrix (gm_Ref gm ! 0) ! 0 = 16384" by (cases ?r) auto
  with ParseGlobalMotionParams_ranges [OF this(1)] show ?thesis by blast
qed

end
