(* ===== verification/Film_Grain.thy ===== *)
theory Film_Grain
  imports Global_Motion
begin

text \<open>
  \<open>internal/av1/parser/film_grain.go\<close> and \<open>reference.go\<close>: the film grain parameters, read or taken from
  a reference frame, and the reference slots that a decoded frame refreshes.
\<close>

section \<open>Film grain\<close>

text \<open>The loop of \<open>readFilmGrainYPoints\<close> and \<open>readFilmGrainUVPoints\<close>, with the rounds left.\<close>

primrec readFilmGrainPoints_loop :: "nat \<Rightarrow> nat \<Rightarrow> u8 \<Rightarrow> (u8 \<times> u8) list \<Rightarrow> (u8 \<times> u8) list rd" where
  "readFilmGrainPoints_loop 0 i previous points = rret points"
| "readFilmGrainPoints_loop (Suc k) i previous points =
     rbind (ReadBits 8) (\<lambda>x.
     if i \<noteq> 0 \<and> previous \<ge> ucast x then rfail ErrInvalidFrameHeader
     else rbind (ReadBits 8) (\<lambda>y.
       readFilmGrainPoints_loop k (i + 1) (ucast x) (points[i := (ucast x, ucast y)])))"

definition readFilmGrainYPoints :: "u8 \<Rightarrow> (u8 \<times> u8) list \<Rightarrow> (u8 \<times> u8) list rd" where
  "readFilmGrainYPoints cnt points = readFilmGrainPoints_loop (unat cnt) 0 0 points"

definition readFilmGrainUVPoints :: "u8 \<Rightarrow> (u8 \<times> u8) list \<Rightarrow> (u8 \<times> u8) list rd" where
  "readFilmGrainUVPoints cnt points = readFilmGrainPoints_loop (unat cnt) 0 0 points"

primrec readFilmGrainCoeffs_loop :: "nat \<Rightarrow> nat \<Rightarrow> int list \<Rightarrow> int list rd" where
  "readFilmGrainCoeffs_loop 0 i dst = rret dst"
| "readFilmGrainCoeffs_loop (Suc k) i dst =
     rbind (ReadBits 8) (\<lambda>v. readFilmGrainCoeffs_loop k (i + 1) (dst[i := i8 (i16 (i16 (uint v) - 128))]))"

definition readFilmGrainCoeffs :: "nat \<Rightarrow> int list \<Rightarrow> int list rd" where
  "readFilmGrainCoeffs cnt dst = readFilmGrainCoeffs_loop cnt 0 dst"

definition readFilmGrainChromaParams :: "(u8 \<times> u8 \<times> u16) rd" where
  "readFilmGrainChromaParams =
     rbind (ReadBits 8) (\<lambda>mult. rbind (ReadBits 8) (\<lambda>lumaMult. rbind (ReadBits 9) (\<lambda>offset.
     rret (ucast mult, ucast lumaMult, ucast offset))))"

text \<open>\<open>parseFilmGrainUpdate\<close> in three parts: the scaling points, the coefficients, and the rest.\<close>

definition parseFilmGrainPoints :: "SequenceHeader \<Rightarrow> FilmGrainParams \<Rightarrow> FilmGrainParams rd" where
  "parseFilmGrainPoints seq params =
     (let cc = sh_ColorConfig seq in
     rbind (ReadBits 4) (\<lambda>v. let params = params\<lparr>fg_NumYPoints := ucast v\<rparr> in
     if unat (fg_NumYPoints params) > MaxFilmGrainYPoints then rfail ErrInvalidFrameHeader
     else
       rbind (readFilmGrainYPoints (fg_NumYPoints params) (fg_YPoints params)) (\<lambda>pts. let params = params\<lparr>fg_YPoints := pts\<rparr> in
       rbind (if \<not> cc_MonoChrome cc then rbind ReadBool (\<lambda>b. rret (params\<lparr>fg_ChromaScalingFromLuma := b\<rparr>)) else rret params) (\<lambda>params.
       rbind (if \<not> cc_MonoChrome cc \<and> \<not> fg_ChromaScalingFromLuma params \<and>
                 (\<not> cc_SubsamplingX cc \<or> \<not> cc_SubsamplingY cc \<or> fg_NumYPoints params \<noteq> 0) then
                rbind (ReadBits 4) (\<lambda>v. let params = params\<lparr>fg_NumCbPoints := ucast v\<rparr> in
                if unat (fg_NumCbPoints params) > MaxFilmGrainUVPoints then rfail ErrInvalidFrameHeader
                else
                  rbind (readFilmGrainUVPoints (fg_NumCbPoints params) (fg_CbPoints params)) (\<lambda>pts. let params = params\<lparr>fg_CbPoints := pts\<rparr> in
                  rbind (ReadBits 4) (\<lambda>v. let params = params\<lparr>fg_NumCrPoints := ucast v\<rparr> in
                  if unat (fg_NumCrPoints params) > MaxFilmGrainUVPoints then rfail ErrInvalidFrameHeader
                  else
                    rbind (readFilmGrainUVPoints (fg_NumCrPoints params) (fg_CrPoints params)) (\<lambda>pts. rret (params\<lparr>fg_CrPoints := pts\<rparr>)))))
              else rret params) (\<lambda>params.
       if cc_SubsamplingX cc \<and> cc_SubsamplingY cc \<and> (fg_NumCbPoints params = 0) \<noteq> (fg_NumCrPoints params = 0)
       then rfail ErrInvalidFrameHeader else rret params)))))"

definition parseFilmGrainCoeffs :: "FilmGrainParams \<Rightarrow> FilmGrainParams rd" where
  "parseFilmGrainCoeffs params =
     rbind (ReadBits 2) (\<lambda>v. let params = params\<lparr>fg_ScalingShift := ucast (v + 8)\<rparr> in
     rbind (ReadBits 2) (\<lambda>v. let params = params\<lparr>fg_ARCoeffLag := ucast v\<rparr>;
         numYPos = unat (2 * fg_ARCoeffLag params * (fg_ARCoeffLag params + 1));
         numUVPos = (if fg_NumYPoints params \<noteq> 0 then numYPos + 1 else numYPos) in
     rbind (if fg_NumYPoints params \<noteq> 0
            then rbind (readFilmGrainCoeffs numYPos (fg_ARCoeffsY params)) (\<lambda>c. rret (params\<lparr>fg_ARCoeffsY := c\<rparr>)) else rret params) (\<lambda>params.
     rbind (if fg_NumCbPoints params \<noteq> 0 \<or> fg_ChromaScalingFromLuma params
            then rbind (readFilmGrainCoeffs numUVPos (fg_ARCoeffsCb params)) (\<lambda>c. rret (params\<lparr>fg_ARCoeffsCb := c\<rparr>)) else rret params) (\<lambda>params.
     if fg_NumCrPoints params \<noteq> 0 \<or> fg_ChromaScalingFromLuma params
     then rbind (readFilmGrainCoeffs numUVPos (fg_ARCoeffsCr params)) (\<lambda>c. rret (params\<lparr>fg_ARCoeffsCr := c\<rparr>)) else rret params))))"

definition parseFilmGrainUpdate :: "SequenceHeader \<Rightarrow> FilmGrainParams \<Rightarrow> FilmGrainParams rd" where
  "parseFilmGrainUpdate seq params =
     rbind (parseFilmGrainPoints seq params) (\<lambda>params.
     rbind (parseFilmGrainCoeffs params) (\<lambda>params.
     rbind (ReadBits 2) (\<lambda>v. let params = params\<lparr>fg_ARCoeffShift := ucast (v + 6)\<rparr> in
     rbind (ReadBits 2) (\<lambda>v. let params = params\<lparr>fg_GrainScaleShift := ucast v\<rparr> in
     rbind (if fg_NumCbPoints params \<noteq> 0
            then rbind readFilmGrainChromaParams (\<lambda>(m, l, off). rret (params\<lparr>fg_CbMult := m, fg_CbLumaMult := l, fg_CbOffset := off\<rparr>))
            else rret params) (\<lambda>params.
     rbind (if fg_NumCrPoints params \<noteq> 0
            then rbind readFilmGrainChromaParams (\<lambda>(m, l, off). rret (params\<lparr>fg_CrMult := m, fg_CrLumaMult := l, fg_CrOffset := off\<rparr>))
            else rret params) (\<lambda>params.
     rbind ReadBool (\<lambda>overlap. rbind ReadBool (\<lambda>clip.
     rret (params\<lparr>fg_Overlap := overlap, fg_ClipToRestrictedRange := clip\<rparr>)))))))))"

definition parseFilmGrainReference ::
    "SequenceHeader \<Rightarrow> FrameSize \<Rightarrow> ReferenceState option \<Rightarrow> FilmGrainParams \<Rightarrow> FilmGrainParams rd" where
  "parseFilmGrainReference seq sz refs params =
     rbind (ReadBits 3) (\<lambda>v. let refIdx = ucast v :: u8 in
     if refIdx \<notin> set (take InterRefsPerFrame (fs_RefFrameIdx sz)) then rfail ErrInvalidFrameHeader
     else (case refs of
         None \<Rightarrow> rfail ErrReferenceFrameNeeded
       | Some refs \<Rightarrow>
           let ref = rst_Frames refs ! unat refIdx in
           if \<not> rf_Valid ref \<or> \<not> fg_ParamsPresent (rf_FilmGrain ref) then rfail ErrReferenceFrameNeeded
           else
             let params = (rf_FilmGrain ref)\<lparr>fg_Apply := True, fg_Update := False, fg_Seed := fg_Seed params, fg_RefIdx := refIdx,
                   fg_ParamsPresent := sh_FilmGrainParamsPresent seq, fg_BitDepth := cc_BitDepth (sh_ColorConfig seq)\<rparr>
             in rbind readerBitsRead (\<lambda>bitsRead. rret (params\<lparr>fg_BitsRead := bitsRead\<rparr>))))"

definition ParseFilmGrainParams_body ::
    "SequenceHeader \<Rightarrow> FrameHeaderPrefix \<Rightarrow> FrameSize \<Rightarrow> ReferenceState option \<Rightarrow> FilmGrainParams rd" where
  "ParseFilmGrainParams_body seq prefix sz refs =
     (let params = zero_FilmGrainParams\<lparr>fg_ParamsPresent := sh_FilmGrainParamsPresent seq, fg_BitDepth := cc_BitDepth (sh_ColorConfig seq)\<rparr> in
     rbind readerBitsRead (\<lambda>bitsRead. let params = params\<lparr>fg_BitsRead := bitsRead\<rparr> in
     if fh_ShowExistingFrame prefix \<or> \<not> sh_FilmGrainParamsPresent seq \<or> (\<not> fh_ShowFrame prefix \<and> \<not> fh_ShowableFrame prefix)
     then rret params
     else
       rbind ReadBool (\<lambda>apply'. let params = params\<lparr>fg_Apply := apply'\<rparr> in
       rbind readerBitsRead (\<lambda>bitsRead. let params = params\<lparr>fg_BitsRead := bitsRead\<rparr> in
       if \<not> apply' then rret params
       else
         rbind (ReadBits 16) (\<lambda>seed. let params = params\<lparr>fg_Seed := ucast seed, fg_Update := True\<rparr> in
         rbind (if fh_FrameType prefix = FrameTypeInter then rbind ReadBool (\<lambda>u. rret (params\<lparr>fg_Update := u\<rparr>)) else rret params) (\<lambda>params.
         if \<not> fg_Update params then parseFilmGrainReference seq sz refs params
         else
           rbind (parseFilmGrainUpdate seq params) (\<lambda>params.
           rbind readerBitsRead (\<lambda>bitsRead. rret (params\<lparr>fg_BitsRead := bitsRead\<rparr>)))))))))"

definition ParseFilmGrainParams ::
    "bytes \<Rightarrow> SequenceHeader \<Rightarrow> FrameHeaderPrefix \<Rightarrow> FrameSize \<Rightarrow> ReferenceState option \<Rightarrow> GlobalMotionParams \<Rightarrow> go_err + FilmGrainParams" where
  "ParseFilmGrainParams payload seq prefix sz refs globalMotion =
     on_payload payload (gm_BitsRead globalMotion) (ParseFilmGrainParams_body seq prefix sz refs)"

section \<open>Reference slots\<close>

definition ReferenceState_Reset :: ReferenceState where
  "ReferenceState_Reset = zero_ReferenceState"

definition defaultSegmentationData :: SegmentationData where
  "defaultSegmentationData = clearSegmentationRefs"

definition UpdateWithDecodeState ::
    "FrameHeaderPrefix \<Rightarrow> FrameSize \<Rightarrow> SegmentationData \<Rightarrow> LoopFilterDeltas \<Rightarrow> GlobalMotionParams \<Rightarrow> FilmGrainParams \<Rightarrow>
       ReferenceState \<Rightarrow> ReferenceState" where
  "UpdateWithDecodeState prefix sz segmentation loopFilter globalMotion filmGrain s =
     (if fh_ShowExistingFrame prefix then s
      else
        let ref = \<lparr>rf_Valid = True, rf_FrameID = fh_FrameID prefix, rf_OrderHint = fh_OrderHint prefix, rf_FrameType = fh_FrameType prefix,
                   rf_ShowableFrame = fh_ShowableFrame prefix, rf_Size = sz, rf_Segmentation = segmentation,
                   rf_LoopFilterDeltas = loopFilter, rf_GlobalMotion = globalMotion, rf_FilmGrain = filmGrain\<rparr>
        in foldl (\<lambda>s i. if fs_RefreshFrameFlags sz AND push_bit i 1 \<noteq> 0 then s\<lparr>rst_Frames := (rst_Frames s)[i := ref]\<rparr> else s)
             s [0..<RefFrames])"

definition UpdateWithFrameState :: "FrameHeaderPrefix \<Rightarrow> FrameSize \<Rightarrow> GlobalMotionParams \<Rightarrow> FilmGrainParams \<Rightarrow> ReferenceState \<Rightarrow> ReferenceState" where
  "UpdateWithFrameState prefix sz globalMotion filmGrain =
     UpdateWithDecodeState prefix sz defaultSegmentationData defaultLoopFilterDeltas globalMotion filmGrain"

definition UpdateWithGlobalMotion :: "FrameHeaderPrefix \<Rightarrow> FrameSize \<Rightarrow> GlobalMotionParams \<Rightarrow> ReferenceState \<Rightarrow> ReferenceState" where
  "UpdateWithGlobalMotion prefix sz globalMotion = UpdateWithFrameState prefix sz globalMotion zero_FilmGrainParams"

definition ReferenceState_Update :: "FrameHeaderPrefix \<Rightarrow> FrameSize \<Rightarrow> ReferenceState \<Rightarrow> ReferenceState" where
  "ReferenceState_Update prefix sz = UpdateWithGlobalMotion prefix sz DefaultGlobalMotionParams"

section \<open>Ranges of the film grain parameters\<close>

text \<open>The first \<open>n\<close> points have increasing positions.\<close>

definition points_ok :: "nat \<Rightarrow> nat \<Rightarrow> (u8 \<times> u8) list \<Rightarrow> bool" where
  "points_ok m n pts \<longleftrightarrow> length pts = m \<and> n \<le> m \<and> sorted_wrt (<) (map fst (take n pts))"

definition coeffs_ok :: "nat \<Rightarrow> int list \<Rightarrow> bool" where
  "coeffs_ok m cs \<longleftrightarrow> length cs = m \<and> (\<forall>c \<in> set cs. - 128 \<le> c \<and> c \<le> 127)"

definition grain_points_ok :: "FilmGrainParams \<Rightarrow> bool" where
  "grain_points_ok g \<longleftrightarrow> points_ok MaxFilmGrainYPoints (unat (fg_NumYPoints g)) (fg_YPoints g) \<and>
     points_ok MaxFilmGrainUVPoints (unat (fg_NumCbPoints g)) (fg_CbPoints g) \<and>
     points_ok MaxFilmGrainUVPoints (unat (fg_NumCrPoints g)) (fg_CrPoints g)"

definition grain_coeffs_ok :: "FilmGrainParams \<Rightarrow> bool" where
  "grain_coeffs_ok g \<longleftrightarrow> coeffs_ok MaxFilmGrainYCoeffs (fg_ARCoeffsY g) \<and> coeffs_ok MaxFilmGrainUVCoeffs (fg_ARCoeffsCb g) \<and>
     coeffs_ok MaxFilmGrainUVCoeffs (fg_ARCoeffsCr g)"

definition grain_scalars_ok :: "FilmGrainParams \<Rightarrow> bool" where
  "grain_scalars_ok g \<longleftrightarrow> unat (fg_ScalingShift g) \<le> 11 \<and> unat (fg_ARCoeffLag g) \<le> 3 \<and> unat (fg_ARCoeffShift g) \<le> 9 \<and>
     unat (fg_GrainScaleShift g) \<le> 3 \<and> unat (fg_CbOffset g) < 512 \<and> unat (fg_CrOffset g) < 512"

definition grain_ok :: "FilmGrainParams \<Rightarrow> bool" where
  "grain_ok g \<longleftrightarrow> grain_points_ok g \<and> grain_coeffs_ok g \<and> grain_scalars_ok g"

lemma grain_ok_flags [simp]:
  "grain_ok (g\<lparr>fg_ParamsPresent := b\<rparr>) = grain_ok g" "grain_ok (g\<lparr>fg_Apply := b\<rparr>) = grain_ok g" "grain_ok (g\<lparr>fg_Update := b\<rparr>) = grain_ok g"
  "grain_ok (g\<lparr>fg_Seed := s\<rparr>) = grain_ok g" "grain_ok (g\<lparr>fg_RefIdx := i\<rparr>) = grain_ok g" "grain_ok (g\<lparr>fg_BitDepth := i\<rparr>) = grain_ok g"
  "grain_ok (g\<lparr>fg_BitsRead := s\<rparr>) = grain_ok g" "grain_ok (g\<lparr>fg_Overlap := b\<rparr>) = grain_ok g"
  "grain_ok (g\<lparr>fg_ClipToRestrictedRange := b\<rparr>) = grain_ok g" "grain_ok (g\<lparr>fg_ChromaScalingFromLuma := b\<rparr>) = grain_ok g"
  "grain_ok (g\<lparr>fg_CbMult := i\<rparr>) = grain_ok g" "grain_ok (g\<lparr>fg_CbLumaMult := i\<rparr>) = grain_ok g"
  "grain_ok (g\<lparr>fg_CrMult := i\<rparr>) = grain_ok g" "grain_ok (g\<lparr>fg_CrLumaMult := i\<rparr>) = grain_ok g"
  by (simp_all add: grain_ok_def grain_points_ok_def grain_coeffs_ok_def grain_scalars_ok_def)

lemma grain_ok_zero: "grain_ok zero_FilmGrainParams"
  by (simp add: grain_ok_def grain_points_ok_def grain_coeffs_ok_def grain_scalars_ok_def points_ok_def coeffs_ok_def zero_FilmGrainParams_def
      frame_consts)

lemma rpost_readFilmGrainPoints_loop:
  assumes "points_ok m i pts" "i + k \<le> m" "i \<noteq> 0 \<Longrightarrow> previous = fst (pts ! (i - 1))"
  shows "rpost (readFilmGrainPoints_loop k i previous pts) (points_ok m (i + k))"
  using assms
proof (induction k arbitrary: i previous pts)
  case (Suc k)
  have i: "i < length pts" using Suc.prems by (simp add: points_ok_def)
  have step: "points_ok m (Suc i) (pts[i := (x, y)])" if "\<not> (i \<noteq> 0 \<and> previous \<ge> x)" for x y
  proof -
    have last: "\<forall>p \<in> set (take i pts). fst p < x"
    proof (cases i)
      case (Suc j)
      then have tk: "take i pts = take j pts @ [pts ! j]" using i by (simp add: take_Suc_conv_app_nth)
      have "fst (pts ! j) < x" using Suc.prems(3) that Suc by auto
      moreover have "\<forall>p \<in> set (take j pts). fst p < fst (pts ! j)"
        using Suc.prems(1) unfolding points_ok_def tk by (auto simp: sorted_wrt_append)
      ultimately show ?thesis using tk by auto
    qed simp
    have "take (Suc i) (pts[i := (x, y)]) = take i pts @ [(x, y)]" using i by (rule take_Suc_update)
    then show ?thesis using Suc.prems(1,2) last by (auto simp: points_ok_def sorted_wrt_append)
  qed
  show ?case
    unfolding readFilmGrainPoints_loop.simps
  proof (intro rpost_bind_ReadBits rpost_if rpost_rfail, goal_cases)
    case (1 x y)
    then show ?case using Suc.IH [OF step, of "ucast x" "ucast x"] Suc.prems i by simp
  qed
qed (simp add: rpost_rret)

lemma points_ok_Nil: "length pts = m \<Longrightarrow> points_ok m 0 pts"
  by (simp add: points_ok_def)

lemma rpost_readFilmGrainPoints:
  assumes "length pts = m" "unat cnt \<le> m"
  shows "rpost (readFilmGrainYPoints cnt pts) (points_ok m (unat cnt))" "rpost (readFilmGrainUVPoints cnt pts) (points_ok m (unat cnt))"
  using rpost_readFilmGrainPoints_loop [OF points_ok_Nil [OF assms(1)], of "unat cnt" 0] assms(2)
  by (simp_all add: readFilmGrainYPoints_def readFilmGrainUVPoints_def)

lemma i8_bounds: "- 128 \<le> i8 k \<and> i8 k \<le> 127"
proof -
  have "- (2 ^ 7) \<le> signed_take_bit 7 k" "signed_take_bit 7 k < 2 ^ 7"
    by (rule signed_take_bit_int_greater_eq_minus_exp signed_take_bit_int_less_exp)+
  then show ?thesis by (simp add: i8_def)
qed

lemma rpost_readFilmGrainCoeffs:
  assumes "coeffs_ok m cs" shows "rpost (readFilmGrainCoeffs k cs) (coeffs_ok m)"
proof -
  have "rpost (readFilmGrainCoeffs_loop k i cs) (coeffs_ok m)" if "coeffs_ok m cs" for k i cs
    using that
  proof (induction k arbitrary: i cs)
    case (Suc k)
    have "coeffs_ok m (cs[i := i8 (i16 (i16 (uint v) - 128))])" for v :: u64
      using Suc.prems i8_bounds set_update_subset_insert [of cs i "i8 (i16 (i16 (uint v) - 128))"] by (auto simp: coeffs_ok_def)
    then show ?case unfolding readFilmGrainCoeffs_loop.simps by (intro rpost_bind_ReadBits Suc.IH)
  qed (simp add: rpost_rret)
  then show ?thesis using assms by (simp add: readFilmGrainCoeffs_def)
qed

lemma rpost_parseFilmGrainPoints:
  assumes "grain_ok g" shows "rpost (parseFilmGrainPoints seq g) grain_ok"
proof -
  have y: "grain_ok (g\<lparr>fg_NumYPoints := n, fg_YPoints := pts\<rparr>)" if "grain_ok g" "points_ok MaxFilmGrainYPoints (unat n) pts" for g n pts
    using that by (simp add: grain_ok_def grain_points_ok_def grain_coeffs_ok_def grain_scalars_ok_def)
  have cb: "grain_ok (g\<lparr>fg_NumCbPoints := n, fg_CbPoints := pts\<rparr>)" if "grain_ok g" "points_ok MaxFilmGrainUVPoints (unat n) pts" for g n pts
    using that by (simp add: grain_ok_def grain_points_ok_def grain_coeffs_ok_def grain_scalars_ok_def)
  have cr: "grain_ok (g\<lparr>fg_NumCrPoints := n, fg_CrPoints := pts\<rparr>)" if "grain_ok g" "points_ok MaxFilmGrainUVPoints (unat n) pts" for g n pts
    using that by (simp add: grain_ok_def grain_points_ok_def grain_coeffs_ok_def grain_scalars_ok_def)
  have pts: "length (fg_YPoints g) = MaxFilmGrainYPoints" "length (fg_CbPoints g) = MaxFilmGrainUVPoints"
      "length (fg_CrPoints g) = MaxFilmGrainUVPoints" if "grain_ok g" for g
    using that by (simp_all add: grain_ok_def grain_points_ok_def points_ok_def)
  have uv: "rpost (rbind (ReadBits 4) (\<lambda>v. let params = g\<lparr>fg_NumCbPoints := ucast v\<rparr> in
                if unat (fg_NumCbPoints params) > MaxFilmGrainUVPoints then rfail ErrInvalidFrameHeader
                else
                  rbind (readFilmGrainUVPoints (fg_NumCbPoints params) (fg_CbPoints params)) (\<lambda>pts. let params = params\<lparr>fg_CbPoints := pts\<rparr> in
                  rbind (ReadBits 4) (\<lambda>v. let params = params\<lparr>fg_NumCrPoints := ucast v\<rparr> in
                  if unat (fg_NumCrPoints params) > MaxFilmGrainUVPoints then rfail ErrInvalidFrameHeader
                  else
                    rbind (readFilmGrainUVPoints (fg_NumCrPoints params) (fg_CrPoints params)) (\<lambda>pts. rret (params\<lparr>fg_CrPoints := pts\<rparr>)))))) grain_ok"
    if "grain_ok g" for g
    by (intro rd_post rpost_rbind [OF rpost_readFilmGrainPoints(2) [where m = MaxFilmGrainUVPoints]])
      (use that pts [OF that] cb cr in \<open>auto simp: not_less\<close>)
  show ?thesis
    unfolding parseFilmGrainPoints_def Let_def [of "sh_ColorConfig seq"]
    apply (intro rpost_bind_ReadBits rpost_Let rpost_if rpost_rfail)
    apply (rule rpost_rbind [OF rpost_readFilmGrainPoints(1) [where m = MaxFilmGrainYPoints]])
      apply (simp add: pts(1) [OF assms])
     apply simp
    apply (rule rpost_Let)
    apply (rule rpost_rbind [of _ grain_ok])
     apply (intro rpost_if rpost_bind_ReadBool rpost_rret; simp add: y assms)
    apply (rule rpost_rbind [of _ grain_ok])
     apply (intro rpost_if uv rpost_rret; assumption)
    apply (intro rpost_if rpost_rfail rpost_rret, assumption)
    done
qed

lemma rpost_parseFilmGrainCoeffs:
  assumes "grain_ok g" shows "rpost (parseFilmGrainCoeffs g) grain_ok"
proof -
  have s: "unat (ucast (v + 8) :: u8) \<le> 11" "unat (ucast v :: u8) \<le> 3" if "unat v < 4" for v :: u64
    using that unat_u64_add [of v 8] u8_of_small [of v 4] by (simp_all add: unsigned_ucast_eq take_bit_nat_eq_self)
  have c: "rpost (readFilmGrainCoeffs k (fg_ARCoeffsY g)) (coeffs_ok MaxFilmGrainYCoeffs)"
      "rpost (readFilmGrainCoeffs k (fg_ARCoeffsCb g)) (coeffs_ok MaxFilmGrainUVCoeffs)"
      "rpost (readFilmGrainCoeffs k (fg_ARCoeffsCr g)) (coeffs_ok MaxFilmGrainUVCoeffs)" if "grain_ok g" for g k
    using that by (auto intro!: rpost_readFilmGrainCoeffs simp: grain_ok_def grain_coeffs_ok_def)
  have u: "grain_ok g \<Longrightarrow> coeffs_ok MaxFilmGrainYCoeffs cs \<Longrightarrow> grain_ok (g\<lparr>fg_ARCoeffsY := cs\<rparr>)"
      "grain_ok g \<Longrightarrow> coeffs_ok MaxFilmGrainUVCoeffs cs \<Longrightarrow> grain_ok (g\<lparr>fg_ARCoeffsCb := cs\<rparr>)"
      "grain_ok g \<Longrightarrow> coeffs_ok MaxFilmGrainUVCoeffs cs \<Longrightarrow> grain_ok (g\<lparr>fg_ARCoeffsCr := cs\<rparr>)"
      "grain_ok g \<Longrightarrow> unat a \<le> 11 \<Longrightarrow> grain_ok (g\<lparr>fg_ScalingShift := a\<rparr>)" "grain_ok g \<Longrightarrow> unat a \<le> 3 \<Longrightarrow> grain_ok (g\<lparr>fg_ARCoeffLag := a\<rparr>)"
    for g cs a by (simp_all add: grain_ok_def grain_points_ok_def grain_coeffs_ok_def grain_scalars_ok_def)
  show ?thesis
    unfolding parseFilmGrainCoeffs_def Let_def
    apply (intro rpost_bind_ReadBits)
    apply (rule rpost_rbind [of _ grain_ok])
     apply (intro rpost_if rpost_rret rpost_rbind [OF c(1)] u; use assms s in simp)
    apply (rule rpost_rbind [of _ grain_ok])
     apply (intro rpost_if rpost_rret rpost_rbind [OF c(2)] u; assumption)
    apply (intro rpost_if rpost_rret rpost_rbind [OF c(3)] u; assumption)
    done
qed

lemma rpost_parseFilmGrainUpdate:
  assumes "grain_ok g" shows "rpost (parseFilmGrainUpdate seq g) grain_ok"
proof -
  have s: "unat (ucast (v + 6) :: u8) \<le> 9" "unat (ucast v :: u8) \<le> 3" if "unat v < 4" for v :: u64
    using that unat_u64_add [of v 6] u8_of_small [of v 4] by (simp_all add: unsigned_ucast_eq take_bit_nat_eq_self)
  have u: "grain_ok g \<Longrightarrow> unat a \<le> 9 \<Longrightarrow> grain_ok (g\<lparr>fg_ARCoeffShift := a\<rparr>)" "grain_ok g \<Longrightarrow> unat a \<le> 3 \<Longrightarrow> grain_ok (g\<lparr>fg_GrainScaleShift := a\<rparr>)"
      "grain_ok g \<Longrightarrow> unat b < 512 \<Longrightarrow> grain_ok (g\<lparr>fg_CbOffset := b\<rparr>)" "grain_ok g \<Longrightarrow> unat b < 512 \<Longrightarrow> grain_ok (g\<lparr>fg_CrOffset := b\<rparr>)"
    for g a b by (simp_all add: grain_ok_def grain_points_ok_def grain_coeffs_ok_def grain_scalars_ok_def)
  have o: "rpost readFilmGrainChromaParams (\<lambda>(m, l, off). unat off < 512)"
  proof -
    have "unat (ucast v :: u16) < 512" if "unat v < 512" for v :: u64 using that by (simp add: unsigned_ucast_eq take_bit_nat_eq_self)
    then show ?thesis unfolding readFilmGrainChromaParams_def by (intro rpost_bind_ReadBits rpost_rret) simp
  qed
  show ?thesis
    unfolding parseFilmGrainUpdate_def Let_def
    apply (rule rpost_rbind [OF rpost_parseFilmGrainPoints [OF assms]], erule rpost_rbind [OF rpost_parseFilmGrainCoeffs])
    apply (intro rpost_bind_ReadBits)
    apply (rule rpost_rbind [of _ grain_ok])
     apply (intro rpost_if rpost_rret rpost_rbind [OF o]; use u s in \<open>auto intro!: rpost_rret\<close>)
    apply (rule rpost_rbind [of _ grain_ok])
     apply (intro rpost_if rpost_rret rpost_rbind [OF o]; use u s in \<open>auto intro!: rpost_rret\<close>)
    apply (intro rpost_bind_ReadBool rpost_rret, simp)
    done
qed

section \<open>The stage\<close>

lemma rpost_ParseFilmGrainParams_body:
  assumes "\<And>rs f. refs = Some rs \<Longrightarrow> f \<in> set (rst_Frames rs) \<Longrightarrow> rf_Valid f \<Longrightarrow> grain_ok (rf_FilmGrain f)"
    "\<And>rs. refs = Some rs \<Longrightarrow> length (rst_Frames rs) = RefFrames"
  shows "rpost (ParseFilmGrainParams_body seq prefix sz refs) grain_ok"
proof -
  have r: "rpost (parseFilmGrainReference seq sz refs g) grain_ok" for g
  proof -
    have "rst_Frames rs ! unat (ucast v :: u8) \<in> set (rst_Frames rs)" if "refs = Some rs" "unat v < 8" for rs and v :: u64
      using assms(2) [OF that(1)] that(2) u8_of_small [of v 8] by (simp add: frame_consts)
    then show ?thesis
      unfolding parseFilmGrainReference_def Let_def using assms(1)
      by (cases refs) (auto intro!: rpost_bind_ReadBits rpost_if rpost_rfail rpost_bind_any [of _ _ readerBitsRead] rpost_rret)
  qed
  have z: "grain_ok (zero_FilmGrainParams\<lparr>fg_ParamsPresent := a, fg_BitDepth := b\<rparr>)" for a b by (simp add: grain_ok_zero)
  show ?thesis
    unfolding ParseFilmGrainParams_body_def Let_def
    by (intro rpost_bind_any [of _ _ readerBitsRead] rpost_if rpost_rret rpost_bind_ReadBool rpost_bind_ReadBits rpost_rbind [of _ grain_ok] r
        rpost_parseFilmGrainUpdate) (simp_all add: grain_ok_zero)
qed

lemma reports_mark:
  assumes "\<And>b. (\<exists>v. f b = rret v \<and> bits v = b) \<or> reports (f b) bits"
  shows "reports (rbind readerBitsRead f) bits"
proof -
  have "unat (bits v) = rd_bit r'" if "rbind readerBitsRead f r = (Inr v, r')" for r v r'
  proof -
    have b: "f (word_of_nat (rd_bit r)) r = (Inr v, r')" "rd_bit r \<le> 65535"
      using that by (auto simp: rbind_def readerBitsRead_def BitsRead_def Let_def split: if_splits)
    then show ?thesis
      using assms [of "word_of_nat (rd_bit r)"] by (auto simp: reports_def rret_def unat_of_nat take_bit_nat_eq_self)
  qed
  then show ?thesis by (simp add: reports_def)
qed

lemma forward_readFilmGrainPoints_loop [rd_safe]: "forward (readFilmGrainPoints_loop k i p pts)"
  by (induction k arbitrary: i p pts) (auto intro!: rd_safe)

lemma forward_readFilmGrainCoeffs_loop [rd_safe]: "forward (readFilmGrainCoeffs_loop k i cs)"
  by (induction k arbitrary: i cs) (auto intro!: rd_safe)

lemma forward_parseFilmGrainUpdate [rd_safe]: "forward (parseFilmGrainUpdate seq g)"
  unfolding parseFilmGrainUpdate_def parseFilmGrainPoints_def parseFilmGrainCoeffs_def readFilmGrainYPoints_def readFilmGrainUVPoints_def
    readFilmGrainCoeffs_def readFilmGrainChromaParams_def by (intro rd_safe)

lemma reports_option [rd_reports]:
  "reports m bits \<Longrightarrow> (\<And>v. reports (f v) bits) \<Longrightarrow> reports (case x of None \<Rightarrow> m | Some v \<Rightarrow> f v) bits"
  by (cases x) auto

interpretation grain_stage: header_stage "ParseFilmGrainParams_body seq prefix sz refs" fg_BitsRead for seq prefix sz refs
proof (rule header_stageI)
  show "forward (ParseFilmGrainParams_body seq prefix sz refs)"
    unfolding ParseFilmGrainParams_body_def parseFilmGrainReference_def by (intro rd_safe)
  have r: "reports (parseFilmGrainReference seq sz refs g) fg_BitsRead" for g
    unfolding parseFilmGrainReference_def by (intro rd_reports reports_end) simp
  have u: "reports (rbind (ReadBits 16) (\<lambda>seed. let params = g\<lparr>fg_Seed := ucast seed, fg_Update := True\<rparr> in
         rbind (if fh_FrameType prefix = FrameTypeInter then rbind ReadBool (\<lambda>u. rret (params\<lparr>fg_Update := u\<rparr>)) else rret params) (\<lambda>params.
         if \<not> fg_Update params then parseFilmGrainReference seq sz refs params
         else rbind (parseFilmGrainUpdate seq params) (\<lambda>params. rbind readerBitsRead (\<lambda>bitsRead. rret (params\<lparr>fg_BitsRead := bitsRead\<rparr>))))))
       fg_BitsRead" for g
    by (rule reports_rbind, rule reports_Let, rule reports_rbind, rule reports_if, rule r, rule reports_rbind, rule reports_end) simp
  show "reports (ParseFilmGrainParams_body seq prefix sz refs) fg_BitsRead"
    unfolding ParseFilmGrainParams_body_def
  proof (intro reports_Let reports_mark, goal_cases)
    case (1 params b)
    show ?case
    proof (cases "fh_ShowExistingFrame prefix \<or> \<not> sh_FilmGrainParamsPresent seq \<or> (\<not> fh_ShowFrame prefix \<and> \<not> fh_ShowableFrame prefix)")
      case False
      have m: "reports (rbind readerBitsRead (\<lambda>bitsRead. let params = g\<lparr>fg_BitsRead := bitsRead\<rparr> in if \<not> c then rret params else f params)) fg_BitsRead"
        if "\<And>g. reports (f g) fg_BitsRead" for g c and f :: "FilmGrainParams \<Rightarrow> FilmGrainParams rd"
        using that by (intro reports_mark) (cases c; auto)
      show ?thesis
        unfolding Let_def [of "params\<lparr>fg_BitsRead := b\<rparr>"] if_not_P [OF False]
        by (intro disjI2 reports_rbind reports_Let m u)
    qed auto
  qed
qed

section \<open>Reference slots\<close>

definition ref_ok :: "ReferenceFrame \<Rightarrow> bool" where
  "ref_ok f \<longleftrightarrow> (rf_Valid f \<longrightarrow> size_ok (rf_Size f) \<and> seg_data_ok (rf_Segmentation f) \<and> lf_deltas_ok (rf_LoopFilterDeltas f) \<and>
     motion_ok (rf_GlobalMotion f) \<and> grain_ok (rf_FilmGrain f))"

definition refs_wf :: "ReferenceState \<Rightarrow> bool" where
  "refs_wf refs \<longleftrightarrow> length (rst_Frames refs) = RefFrames \<and> (\<forall>f \<in> set (rst_Frames refs). ref_ok f)"

lemma refs_wf_zero: "refs_wf zero_ReferenceState"
  by (simp add: refs_wf_def zero_ReferenceState_def ref_ok_def zero_ReferenceFrame_def)

lemma refs_wf_sizes: "refs_wf refs \<Longrightarrow> refs_ok refs"
  by (auto simp: refs_wf_def refs_ok_def ref_ok_def)

text \<open>The slot that a frame leaves in the reference state.\<close>

definition frame_slot ::
    "FrameHeaderPrefix \<Rightarrow> FrameSize \<Rightarrow> SegmentationData \<Rightarrow> LoopFilterDeltas \<Rightarrow> GlobalMotionParams \<Rightarrow> FilmGrainParams \<Rightarrow> ReferenceFrame" where
  "frame_slot prefix sz sg lf gm fg = \<lparr>rf_Valid = True, rf_FrameID = fh_FrameID prefix, rf_OrderHint = fh_OrderHint prefix,
     rf_FrameType = fh_FrameType prefix, rf_ShowableFrame = fh_ShowableFrame prefix, rf_Size = sz, rf_Segmentation = sg,
     rf_LoopFilterDeltas = lf, rf_GlobalMotion = gm, rf_FilmGrain = fg\<rparr>"

lemma refresh_fold:
  assumes "length (rst_Frames s) = 8" "k \<le> 8"
  shows "foldl (\<lambda>s i. if flags AND push_bit i 1 \<noteq> 0 then s\<lparr>rst_Frames := (rst_Frames s)[i := ref]\<rparr> else s) s [0..<k] =
    s\<lparr>rst_Frames := map (\<lambda>i. if i < k \<and> bit (flags :: u8) i then ref else rst_Frames s ! i) [0..<8]\<rparr>"
  using assms(2)
proof (induction k)
  case 0
  have "map ((!) (rst_Frames s)) [0..<8] = rst_Frames s" using assms(1) by (metis map_nth)
  then show ?case by simp
next
  case (Suc k)
  have b: "flags AND push_bit k 1 \<noteq> 0 \<longleftrightarrow> bit flags k" by (simp add: and_exp_eq_0_iff_not_bit)
  let ?L = "\<lambda>k. map (\<lambda>i. if i < k \<and> bit flags i then ref else rst_Frames s ! i) [0..<8]"
  have "?L (Suc k) = (if bit flags k then (?L k)[k := ref] else ?L k)"
    using Suc.prems by (auto simp: nth_list_update less_Suc_eq intro!: nth_equalityI)
  moreover have "[0..<Suc k] = [0..<k] @ [k]" by simp
  ultimately show ?case using Suc b [simplified] by simp
qed



text \<open>
  C36: film grain parameters of an accepted header are in range: at most 14 luma and 10 chroma scaling points, each
  list with increasing positions, coefficients in a signed byte, and shifts and offsets in the width of
  their fields, whether they are read or taken from a well-formed reference slot.
\<close>

theorem ParseFilmGrainParams_ok:
  assumes "ParseFilmGrainParams payload seq prefix sz refs gm = Inr g" "\<And>rs. refs = Some rs \<Longrightarrow> refs_wf rs"
  shows "grain_ok g \<and> unat (gm_BitsRead gm) \<le> unat (fg_BitsRead g) \<and> unat (fg_BitsRead g) \<le> 8 * length payload"
proof -
  note p = assms(1) [unfolded ParseFilmGrainParams_def]
  have "rpost (ParseFilmGrainParams_body seq prefix sz refs) grain_ok"
    using assms(2) by (intro rpost_ParseFilmGrainParams_body) (auto simp: refs_wf_def ref_ok_def)
  then show ?thesis using on_payload_post [OF _ p] grain_stage.stage_bounds [OF p] by blast
qed

theorem ParseFilmGrainParams_ok_witness:
  "\<exists>g. ParseFilmGrainParams [0x80, 0x0, 0x90, 0x50, 0xa0, 0xf1, 0x44, 0x20, 0x9f, 0x82] small_sequence (zero_FrameHeaderPrefix\<lparr>fh_ShowFrame := True\<rparr>) zero_FrameSize None
       DefaultGlobalMotionParams = Inr g \<and> grain_ok g \<and> fg_NumYPoints g = 2"
proof -
  let ?r = "ParseFilmGrainParams [0x80, 0x0, 0x90, 0x50, 0xa0, 0xf1, 0x44, 0x20, 0x9f, 0x82] small_sequence (zero_FrameHeaderPrefix\<lparr>fh_ShowFrame := True\<rparr>) zero_FrameSize None DefaultGlobalMotionParams"
  have "case ?r of Inr g \<Rightarrow> fg_NumYPoints g = 2 | Inl _ \<Rightarrow> False" by code_simp
  then obtain g where "?r = Inr g" "fg_NumYPoints g = 2" by (cases ?r) auto
  with ParseFilmGrainParams_ok [OF this(1)] show ?thesis by auto
qed

end
