(* ===== verification/Tile_Group.thy ===== *)
theory Tile_Group
  imports Film_Grain
begin

text \<open>
  The tile group header and the split of its data into tiles (\<open>parser/tile_group.go\<close>). The header
  names an interval of the tiles of the frame; the tiles follow in order, each but the last after a
  little-endian size of \<open>TileSizeBytes\<close> bytes.
\<close>

section \<open>Data\<close>

definition MaxTiles :: nat where "MaxTiles = MaxTileRows * MaxTileCols"

record TileGroup =
  tg_StartTile :: u16
  tg_EndTile :: u16
  tg_TileCount :: u16
  tg_NextTile :: u16
  tg_TileStartAndEndPresent :: bool
  tg_Final :: bool
  tg_HeaderBits :: u8
  tg_BitsRead :: u16
  tg_DataOffset :: u16
  tg_DataSize :: u32

definition zero_TileGroup :: TileGroup where
  "zero_TileGroup = \<lparr>tg_StartTile = 0, tg_EndTile = 0, tg_TileCount = 0, tg_NextTile = 0, tg_TileStartAndEndPresent = False,
     tg_Final = False, tg_HeaderBits = 0, tg_BitsRead = 0, tg_DataOffset = 0, tg_DataSize = 0\<rparr>"

record TileSpan =
  ts_Tile :: u16
  ts_Row :: u8
  ts_Col :: u8
  ts_Offset :: u32
  ts_Size :: u32

section \<open>The header\<close>

function readByteAlignment :: "unit rd" where
  "readByteAlignment r =
     (if ByteAligned r then (Inr (), r)
      else case ReadBit r of
             (Inl e, r') \<Rightarrow> (Inl e, r')
           | (Inr b, r') \<Rightarrow> if b \<noteq> 0 then (Inl ErrInvalidTileGroup, r') else readByteAlignment r')"
  by pat_completeness auto
termination
  by (relation "measure (\<lambda>r. 8 * length (rd_src r) - rd_bit r)")
    (auto simp: ReadBit_def Let_def split: if_splits)

declare readByteAlignment.simps [simp del]

text \<open>The first and the last tile of the group.\<close>

definition readTileRange :: "TileInfo \<Rightarrow> u16 \<Rightarrow> bool \<Rightarrow> TileGroup rd" where
  "readTileRange tiles numTiles frameOBU =
     rbind (if numTiles > 1 then
              rbind ReadBool (\<lambda>present.
              if frameOBU \<and> present then rfail ErrInvalidTileGroup
              else rret (zero_TileGroup\<lparr>tg_TileStartAndEndPresent := present\<rparr>))
            else rret zero_TileGroup) (\<lambda>group.
     if numTiles = 1 \<or> \<not> tg_TileStartAndEndPresent group
     then rret (group\<lparr>tg_StartTile := 0, tg_EndTile := numTiles - 1\<rparr>)
     else
       let tileBits = ti_Log2Cols tiles + ti_Log2Rows tiles in
       if tileBits = 0 then rfail ErrInvalidTileGroup
       else rbind (ReadBits tileBits) (\<lambda>v. let group = group\<lparr>tg_StartTile := ucast v\<rparr> in
            rbind (ReadBits tileBits) (\<lambda>v. rret (group\<lparr>tg_EndTile := ucast v\<rparr>))))"

definition ParseTileGroupHeader_body :: "int \<Rightarrow> TileInfo \<Rightarrow> u16 \<Rightarrow> u16 \<Rightarrow> bool \<Rightarrow> nat \<Rightarrow> TileGroup rd" where
  "ParseTileGroupHeader_body payloadLen tiles numTiles expectedStart frameOBU headerStart =
     rbind (readTileRange tiles numTiles frameOBU) (\<lambda>group.
     if tg_StartTile group \<noteq> expectedStart \<or> tg_StartTile group > tg_EndTile group \<or> tg_EndTile group \<ge> numTiles
     then rfail ErrInvalidTileGroup
     else
       rbind readByteAlignment (\<lambda>_.
       let group = group\<lparr>tg_TileCount := tg_EndTile group - tg_StartTile group + 1, tg_Final := tg_EndTile group = numTiles - 1\<rparr>;
           group = group\<lparr>tg_NextTile := if tg_Final group then 0 else tg_EndTile group + 1\<rparr>
       in rbind (\<lambda>r. (Inr (word_of_nat (BitsRead r - headerStart)), r)) (\<lambda>headerBits.
          rbind readerBitsRead (\<lambda>bitsRead.
          let group = group\<lparr>tg_HeaderBits := headerBits, tg_BitsRead := bitsRead\<rparr>;
              dataOffset = int (unat bitsRead) div 8
          in if dataOffset > payloadLen then rfail ErrInvalidTileGroup
             else rret (group\<lparr>tg_DataOffset := word_of_int dataOffset, tg_DataSize := word_of_int (payloadLen - dataOffset)\<rparr>)))))"

definition ParseTileGroupHeader :: "bytes \<Rightarrow> TileInfo \<Rightarrow> int \<Rightarrow> u16 \<Rightarrow> bool \<Rightarrow> go_err + TileGroup" where
  "ParseTileGroupHeader payload tiles startBits expectedStart frameOBU =
     (if int (length payload) > 0xffffffff then Inl ErrInvalidTileGroup
      else if ti_Cols tiles = 0 \<or> ti_Rows tiles = 0 then Inl ErrInvalidTileGroup
      else
        let numTiles = ucast (ti_Cols tiles) * ucast (ti_Rows tiles) :: u16 in
        if numTiles = 0 \<or> unat numTiles > MaxTiles then Inl ErrInvalidTileGroup
        else
          let startBits = (if frameOBU then (startBits + 7) AND NOT 7 else startBits)
          in fst (rbind (SkipBits startBits) (\<lambda>_. rbind (\<lambda>r. (Inr (BitsRead r), r)) (\<lambda>headerStart.
               ParseTileGroupHeader_body (int (length payload)) tiles numTiles expectedStart frameOBU headerStart)) (NewReader payload)))"

section \<open>The tiles of a group\<close>

text \<open>\<open>v |= uint32(payload[offset+j]) << (8*j)\<close> for the bytes of a size.\<close>

definition read_tile_size :: "bytes \<Rightarrow> nat \<Rightarrow> nat \<Rightarrow> u32" where
  "read_tile_size payload offset n = foldl (\<lambda>v j. v OR push_bit (8 * j) (ucast (payload ! (offset + j)))) 0 [0..<n]"

text \<open>
  The loop over the tiles: \<open>k\<close> tiles are left, \<open>i\<close> is the index of the next one. Dividing by
  \<open>Cols = 0\<close> is a run-time panic. The spans written before an error stay written.
\<close>

primrec SplitTileGroup_loop ::
    "nat \<Rightarrow> nat \<Rightarrow> bytes \<Rightarrow> TileInfo \<Rightarrow> TileGroup \<Rightarrow> nat \<Rightarrow> nat \<Rightarrow> TileSpan list \<Rightarrow> (go_err + nat) \<times> TileSpan list" where
  "SplitTileGroup_loop 0 i payload tiles tg offset remaining spans =
     (if remaining \<noteq> 0 then Inl ErrInvalidTileGroup else Inr i, spans)"
| "SplitTileGroup_loop (Suc k) i payload tiles tg offset remaining spans =
     (let tile = tg_StartTile tg + word_of_nat i;
          tsb = unat (ti_TileSizeBytes tiles);
          v = read_tile_size payload offset tsb
      in if k \<noteq> 0 \<and> (tsb = 0 \<or> remaining < tsb) then (Inl ErrInvalidTileGroup, spans)
         else
           let (offset, remaining, sz) =
                 (if k \<noteq> 0 then (offset + tsb, remaining - tsb, v + 1) else (offset, remaining, word_of_nat remaining))
           in if k \<noteq> 0 \<and> sz > word_of_nat remaining then (Inl ErrInvalidTileGroup, spans)
              else if ti_Cols tiles = 0 then (Inl GoPanic, spans)
              else SplitTileGroup_loop k (i + 1) payload tiles tg (offset + unat sz) (remaining - unat sz)
                     (spans[i := \<lparr>ts_Tile = tile, ts_Row = ucast (tile div ucast (ti_Cols tiles)),
                        ts_Col = ucast (tile mod ucast (ti_Cols tiles)), ts_Offset = word_of_nat offset, ts_Size = sz\<rparr>]))"

definition SplitTileGroup :: "bytes \<Rightarrow> TileInfo \<Rightarrow> TileGroup \<Rightarrow> TileSpan list \<Rightarrow> (go_err + nat) \<times> TileSpan list" where
  "SplitTileGroup payload tiles tg spans =
     (let cnt = unat (tg_TileCount tg); offset = unat (tg_DataOffset tg) in
      if cnt = 0 \<or> length spans < cnt \<or> offset > length payload \<or> int (length payload) > 0xffffffff
      then (Inl ErrInvalidTileGroup, spans)
      else SplitTileGroup_loop cnt 0 payload tiles tg offset (length payload - offset) spans)"

section \<open>The header names an interval of tiles\<close>

lemma rbind_Inr: "rbind m f r = (Inr v, r') \<longleftrightarrow> (\<exists>x s. m r = (Inr x, s) \<and> f x s = (Inr v, r'))"
  by (auto simp: rbind_def split: prod.splits sum.splits)

lemma readByteAlignment_ok:
  "readByteAlignment r = (Inr x, r') \<Longrightarrow> rd_bit r' mod 8 = 0"
proof (induction r rule: readByteAlignment.induct)
  case (1 r)
  from "1.prems" show ?case
    by (subst (asm) readByteAlignment.simps) (use "1.IH" in \<open>auto simp: ByteAligned_def split: if_splits prod.splits sum.splits\<close>)
qed

lemma forward_readByteAlignment [rd_safe]: "forward readByteAlignment"
  unfolding forward_def
proof (intro allI impI)
  fix r :: reader
  assume "rd_wf r"
  then show "rd_wf (snd (readByteAlignment r)) \<and> rd_src (snd (readByteAlignment r)) = rd_src r \<and>
      rd_bit r \<le> rd_bit (snd (readByteAlignment r))"
  proof (induction r rule: readByteAlignment.induct)
    case (1 r)
    obtain x s where b: "ReadBit r = (x, s)" by (cases "ReadBit r")
    note s = forwardD [OF forward_ReadBit "1.prems" b]
    show ?case
    proof (cases x)
      case (Inr v)
      show ?thesis
        using "1.IH" [OF _ b [symmetric] Inr] s "1.prems"
        by (subst (1 2 3) readByteAlignment.simps) (auto simp: b Inr)
    qed (use s "1.prems" in \<open>subst (1 2 3) readByteAlignment.simps; simp add: b\<close>)
  qed
qed

lemma forward_readTileRange [rd_safe]: "forward (readTileRange tiles n f)"
  unfolding readTileRange_def Let_def by (intro rd_safe)

definition group_ok :: "nat \<Rightarrow> TileGroup \<Rightarrow> bool" where
  "group_ok n g \<longleftrightarrow> unat (tg_StartTile g) \<le> unat (tg_EndTile g) \<and> unat (tg_EndTile g) < n \<and>
     unat (tg_TileCount g) = unat (tg_EndTile g) - unat (tg_StartTile g) + 1 \<and>
     (tg_Final g \<longleftrightarrow> unat (tg_EndTile g) = n - 1) \<and>
     unat (tg_NextTile g) = (if tg_Final g then 0 else unat (tg_EndTile g) + 1)"

lemma unat_succ_less:
  fixes x y :: "'a::len word"
  assumes "x < y"
  shows "unat (x + 1) = unat x + 1"
proof -
  have "unat x + 1 \<le> unat y" using assms by (simp add: word_less_nat_alt)
  then have "unat x + 1 < 2 ^ LENGTH('a)" using unsigned_less [of y, where 'a = nat] by (rule le_less_trans)
  then show ?thesis by (simp add: unat_word_ariths)
qed

lemma ParseTileGroupHeader_body_ok:
  assumes "ParseTileGroupHeader_body len tiles n start f h r = (Inr g, r')" "rd_wf r"
  shows "group_ok (unat n) g \<and> tg_StartTile g = start \<and> unat (tg_BitsRead g) = rd_bit r' \<and> rd_bit r \<le> rd_bit r' \<and>
    rd_bit r' mod 8 = 0 \<and> rd_wf r' \<and> rd_src r' = rd_src r \<and>
    tg_DataOffset g = word_of_int (int (rd_bit r') div 8) \<and> tg_DataSize g = word_of_int (len - int (rd_bit r') div 8)"
proof -
  obtain g0 r1 u r2 where s: "readTileRange tiles n f r = (Inr g0, r1)" "readByteAlignment r1 = (Inr u, r2)"
    and guard: "tg_StartTile g0 = start" "tg_StartTile g0 \<le> tg_EndTile g0" "tg_EndTile g0 < n"
    and bits: "rd_bit r2 \<le> 65535" and r': "r' = r2"
    and g: "g = g0\<lparr>tg_TileCount := tg_EndTile g0 - tg_StartTile g0 + 1, tg_Final := tg_EndTile g0 = n - 1,
       tg_NextTile := if tg_EndTile g0 = n - 1 then 0 else tg_EndTile g0 + 1, tg_HeaderBits := word_of_nat (rd_bit r2 - h),
       tg_BitsRead := word_of_nat (rd_bit r2),
       tg_DataOffset := word_of_int (int (unat (word_of_nat (rd_bit r2) :: u16)) div 8),
       tg_DataSize := word_of_int (len - int (unat (word_of_nat (rd_bit r2) :: u16)) div 8)\<rparr>"
    using assms(1) unfolding ParseTileGroupHeader_body_def
    by (auto simp: rbind_Inr Let_def rfail_def rret_def readerBitsRead_def BitsRead_def not_less not_le split: if_splits)
  note f1 = forwardD [OF forward_readTileRange assms(2) s(1)]
  note f2 = forwardD [OF forward_readByteAlignment f1(1) s(2)]
  have u: "unat (word_of_nat (rd_bit r2) :: u16) = rd_bit r2" using bits by (intro unat_u16_small) simp
  have e: "unat (tg_EndTile g0) < unat n" "unat (tg_StartTile g0) \<le> unat (tg_EndTile g0)"
    using guard by (simp_all add: word_less_nat_alt word_le_nat_alt)
  have d: "unat (tg_EndTile g0 - tg_StartTile g0) = unat (tg_EndTile g0) - unat (tg_StartTile g0)"
    using guard(2) by (rule unat_sub)
  have "unat (tg_EndTile g0 - tg_StartTile g0) < 65535" using e d unsigned_less [of n, where 'a = nat] by simp
  then have c: "unat (tg_EndTile g0 - tg_StartTile g0 + 1) = unat (tg_EndTile g0) - unat (tg_StartTile g0) + 1"
    using d unat_succ_less [of "tg_EndTile g0 - tg_StartTile g0" "65535 :: u16"] by (simp add: word_less_nat_alt)
  have p: "unat (n - 1) = unat n - 1" using e(1) by (intro unat_pred) (simp add: word_le_nat_alt)
  have "group_ok (unat n) g"
    unfolding group_ok_def g using e c unat_succ_less [OF guard(3)] p by (auto simp: word_unat_eq_iff)
  then show ?thesis using f1 f2 guard u readByteAlignment_ok [OF s(2)] unfolding g r' by (simp add: zdiv_int)
qed

section \<open>The spans of a group tile its data\<close>

fun tile_layout :: "nat \<Rightarrow> TileSpan list \<Rightarrow> nat \<Rightarrow> nat \<Rightarrow> bool" where
  "tile_layout tsb [] off lim \<longleftrightarrow> False"
| "tile_layout tsb [s] off lim \<longleftrightarrow> unat (ts_Offset s) = off \<and> off + unat (ts_Size s) = lim"
| "tile_layout tsb (s # t # ss) off lim \<longleftrightarrow>
     unat (ts_Offset s) = off + tsb \<and> tile_layout tsb (t # ss) (off + tsb + unat (ts_Size s)) lim"

definition span_tile_ok :: "TileInfo \<Rightarrow> u16 \<Rightarrow> TileSpan \<Rightarrow> bool" where
  "span_tile_ok tiles tile s \<longleftrightarrow> ts_Tile s = tile \<and> ts_Row s = ucast (tile div ucast (ti_Cols tiles)) \<and>
     ts_Col s = ucast (tile mod ucast (ti_Cols tiles))"

lemma tile_layout_Cons:
  "ss \<noteq> [] \<Longrightarrow> tile_layout tsb (s # ss) off lim \<longleftrightarrow>
     unat (ts_Offset s) = off + tsb \<and> tile_layout tsb ss (off + tsb + unat (ts_Size s)) lim"
  by (cases ss) auto

lemma unat_u32_small: "k \<le> 0xffffffff \<Longrightarrow> unat (word_of_nat k :: u32) = k"
  by (simp add: unat_of_nat take_bit_nat_eq_self)

lemma SplitTileGroup_loop_ok:
  assumes "SplitTileGroup_loop k i payload tiles tg off rem spans = (Inr n, spans')"
    "off + rem = length payload" "int (length payload) \<le> 0xffffffff" "i + k \<le> length spans"
  shows "n = i + k \<and> length spans' = length spans \<and> take i spans' = take i spans \<and> drop (i + k) spans' = drop (i + k) spans \<and>
    (0 < k \<longrightarrow> tile_layout (unat (ti_TileSizeBytes tiles)) (take k (drop i spans')) off (length payload)) \<and>
    (\<forall>j < k. span_tile_ok tiles (tg_StartTile tg + word_of_nat (i + j)) (spans' ! (i + j)))"
  using assms
proof (induction k arbitrary: i off rem spans)
  case 0
  then show ?case by (auto split: if_splits)
next
  case (Suc k)
  define tsb where "tsb = unat (ti_TileSizeBytes tiles)"
  define off' rem' where "off' = (if k = 0 then off else off + tsb)" and "rem' = (if k = 0 then rem else rem - tsb)"
  define sz :: u32 where "sz = (if k = 0 then word_of_nat rem' else read_tile_size payload off tsb + 1)"
  define tile where "tile = tg_StartTile tg + word_of_nat i"
  define sp where "sp = \<lparr>ts_Tile = tile, ts_Row = ucast (tile div ucast (ti_Cols tiles)),
     ts_Col = ucast (tile mod ucast (ti_Cols tiles)), ts_Offset = word_of_nat off', ts_Size = sz\<rparr>"
  have g: "k = 0 \<or> \<not> sz > word_of_nat rem'" "k = 0 \<or> tsb \<le> rem"
    and rec: "SplitTileGroup_loop k (i + 1) payload tiles tg (off' + unat sz) (rem' - unat sz) (spans[i := sp]) = (Inr n, spans')"
    using Suc.prems(1) unfolding SplitTileGroup_loop.simps Let_def sz_def sp_def off'_def rem'_def tile_def tsb_def
    by (auto split: if_splits)
  have lim: "off' + rem' = length payload" "length payload \<le> 0xffffffff"
    using Suc.prems(2,3) g(2) unfolding off'_def rem'_def by auto
  have sz: "unat sz \<le> rem'" using g(1) lim
    by (auto simp: sz_def not_less word_le_nat_alt unat_u32_small split: if_splits)
  have IH: "n = i + 1 + k \<and> length spans' = length spans \<and> take (i + 1) spans' = take (i + 1) (spans[i := sp]) \<and>
      drop (i + 1 + k) spans' = drop (i + 1 + k) (spans[i := sp]) \<and>
      (0 < k \<longrightarrow> tile_layout tsb (take k (drop (i + 1) spans')) (off' + unat sz) (length payload)) \<and>
      (\<forall>j < k. span_tile_ok tiles (tg_StartTile tg + word_of_nat (i + 1 + j)) (spans' ! (i + 1 + j)))"
    using Suc.IH [OF rec] sz lim Suc.prems(3,4) by (simp add: tsb_def)
  have i: "i < length spans" using Suc.prems(4) by simp
  have at: "spans' ! i = sp"
    using IH i by (metis less_add_one nth_list_update_eq nth_take)
  have tk: "take i spans' = take i spans"
    using IH by (metis le_add1 min.absorb1 take_take take_update_cancel order_refl)
  have cons: "take (Suc k) (drop i spans') = sp # take k (drop (i + 1) spans')"
    using i IH at by (metis Cons_nth_drop_Suc Suc_eq_plus1 take_Suc_Cons)
  have layout: "tile_layout tsb (take (Suc k) (drop i spans')) off (length payload)"
  proof (cases "k = 0")
    case True
    then show ?thesis using cons lim by (simp add: sp_def sz_def off'_def rem'_def unat_u32_small)
  next
    case False
    moreover have "take k (drop (i + 1) spans') \<noteq> []" using False IH Suc.prems(4) by auto
    moreover have "unat (word_of_nat off' :: u32) = off'" using lim by (intro unat_u32_small) simp
    ultimately show ?thesis using IH unfolding cons by (subst tile_layout_Cons) (auto simp: sp_def off'_def)
  qed
  have tiles: "span_tile_ok tiles (tg_StartTile tg + word_of_nat (i + j)) (spans' ! (i + j))" if "j < Suc k" for j
  proof (cases j)
    case 0
    then show ?thesis using at by (simp add: span_tile_ok_def sp_def tile_def)
  next
    case (Suc j')
    then show ?thesis using IH that by (metis Suc_less_eq add.assoc add_Suc_right plus_1_eq_Suc)
  qed
  show ?case using IH tk layout tiles unfolding tsb_def by simp
qed

lemma and_not_7: "a AND NOT 7 = 8 * (a div 8)" for a :: int
proof -
  have "a AND NOT (mask 3) = push_bit 3 (drop_bit 3 a)" by (rule bit_eqI) (auto simp: bit_simps)
  then show ?thesis by (simp add: mask_eq_exp_minus_1 push_bit_eq_mult drop_bit_eq_div mult.commute)
qed

lemma ucast_u8_mult_u16: "unat (ucast (a :: u8) * ucast (b :: u8) :: u16) = unat a * unat b"
proof -
  have "unat a \<le> 255" "unat b \<le> 255" using unsigned_less [of a, where 'a = nat] unsigned_less [of b, where 'a = nat] by simp_all
  then have "unat a * unat b \<le> 255 * 255" by (rule mult_le_mono)
  then show ?thesis by (simp add: unat_word_ariths unat_ucast_up)
qed

lemma ParseTileGroupHeader_ok:
  assumes "ParseTileGroupHeader payload tiles startBits start f = Inr g"
  shows "group_ok (unat (ti_Cols tiles) * unat (ti_Rows tiles)) g \<and> tg_StartTile g = start \<and>
    unat (ti_Cols tiles) * unat (ti_Rows tiles) \<le> 4096 \<and> ti_Cols tiles \<noteq> 0 \<and>
    startBits \<le> 8 * int (unat (tg_DataOffset g)) \<and> unat (tg_BitsRead g) = 8 * unat (tg_DataOffset g) \<and>
    unat (tg_DataOffset g) + unat (tg_DataSize g) = length payload"
proof -
  define n :: u16 where "n = ucast (ti_Cols tiles) * ucast (ti_Rows tiles)"
  define sb where "sb = (if f then (startBits + 7) AND NOT 7 else startBits)"
  obtain r' where len: "int (length payload) \<le> 0xffffffff" and c: "ti_Cols tiles \<noteq> 0" "unat n \<le> 4096"
    and run: "rbind (SkipBits sb) (\<lambda>_. rbind (\<lambda>r. (Inr (BitsRead r), r)) (\<lambda>h.
               ParseTileGroupHeader_body (int (length payload)) tiles n start f h)) (NewReader payload) = (Inr g, r')"
    using assms unfolding ParseTileGroupHeader_def Let_def n_def [symmetric] sb_def [symmetric]
    by (auto simp: MaxTiles_def MaxTileRows_def MaxTileCols_def not_less dest!: fst_Inr split: if_splits)
  define r where "r = \<lparr>rd_src = payload, rd_bit = nat sb\<rparr>"
  have skip: "0 \<le> sb" "sb \<le> 8 * int (length payload)"
    and body: "ParseTileGroupHeader_body (int (length payload)) tiles n start f (nat sb) r = (Inr g, r')"
    using run by (auto simp: rbind_Inr SkipBits_def NewReader_def BitsRead_def BitsRemaining_def r_def split: if_splits)
  have wf: "rd_wf r" using skip by (simp add: rd_wf_def r_def)
  note b = ParseTileGroupHeader_body_ok [OF body wf]
  have n: "unat n = unat (ti_Cols tiles) * unat (ti_Rows tiles)" unfolding n_def by (rule ucast_u8_mult_u16)
  have le: "startBits \<le> sb" unfolding sb_def and_not_7 by (simp; presburger)
  define q where "q = rd_bit r' div 8"
  have q: "rd_bit r' = 8 * q" using b unfolding q_def by auto
  have bits: "unat (tg_BitsRead g) = 8 * q" using b q by simp
  have q2: "q \<le> length payload" "8 * q < 65536"
    using b q bits unsigned_less [of "tg_BitsRead g", where 'a = nat] by (auto simp: rd_wf_def r_def)
  have d: "int (rd_bit r') div 8 = int q" unfolding q by simp
  have "tg_DataOffset g = word_of_nat q" using b unfolding d by simp
  then have off: "unat (tg_DataOffset g) = q" using q2 by (simp add: unat_u16_small)
  have "tg_DataSize g = word_of_int (int (length payload - q))" using b q2 unfolding d by (simp add: of_nat_diff)
  then have sz: "unat (tg_DataSize g) = length payload - q" using len unat_u32_small [of "length payload - q"] by simp
  have "sb \<le> 8 * int q" using b q skip by (simp add: r_def nat_le_iff)
  then show ?thesis using b n c off sz q2 bits le by simp
qed

lemma span_grid:
  assumes "span_tile_ok tiles tile s" "unat tile < unat (ti_Cols tiles) * unat (ti_Rows tiles)"
  shows "unat (ts_Tile s) = unat (ts_Row s) * unat (ti_Cols tiles) + unat (ts_Col s) \<and>
    unat (ts_Row s) < unat (ti_Rows tiles) \<and> unat (ts_Col s) < unat (ti_Cols tiles)"
proof -
  let ?c = "unat (ti_Cols tiles)"
  have c: "?c < 256" "unat (ti_Rows tiles) < 256" "0 < ?c"
    using unsigned_less [of "ti_Cols tiles", where 'a = nat] unsigned_less [of "ti_Rows tiles", where 'a = nat] assms(2) by (auto intro: ccontr)
  have row: "unat tile div ?c < unat (ti_Rows tiles)" using assms(2) by (simp add: less_mult_imp_div_less mult.commute)
  have "unat (ts_Row s) = unat tile div ?c" "unat (ts_Col s) = unat tile mod ?c"
    using assms(1) row c mod_less_divisor [OF c(3), of "unat tile"]
    by (auto simp: span_tile_ok_def unsigned_ucast_eq unat_div_distrib unat_mod_distrib unat_ucast_up take_bit_nat_eq_self)
  then show ?thesis using assms(1) row c by (simp add: span_tile_ok_def)
qed

section \<open>Properties\<close>

text \<open>
  C10: the spans that \<open>SplitTileGroup\<close> writes for an accepted tile group tile its data: one span for each tile
  of the interval that the header names, in order, with the row and column of the tile in the grid; each begins
  where the one before ends, after the bytes of its size; the last ends with the payload. The other slots stay as they were.
\<close>

theorem tile_group_spans:
  assumes "ParseTileGroupHeader payload tiles startBits start frameOBU = Inr tg"
    "SplitTileGroup payload tiles tg spans = (Inr n, spans')"
  shows "n = unat (tg_EndTile tg) - unat start + 1 \<and> length spans' = length spans \<and> drop n spans' = drop n spans \<and>
    startBits \<le> 8 * int (unat (tg_DataOffset tg)) \<and>
    tile_layout (unat (ti_TileSizeBytes tiles)) (take n spans') (unat (tg_DataOffset tg)) (length payload) \<and>
    (\<forall>i < n. unat (ts_Tile (spans' ! i)) = unat start + i \<and>
       unat (ts_Tile (spans' ! i)) = unat (ts_Row (spans' ! i)) * unat (ti_Cols tiles) + unat (ts_Col (spans' ! i)) \<and>
       unat (ts_Row (spans' ! i)) < unat (ti_Rows tiles) \<and> unat (ts_Col (spans' ! i)) < unat (ti_Cols tiles))"
proof -
  note h = ParseTileGroupHeader_ok [OF assms(1)]
  have loop: "SplitTileGroup_loop (unat (tg_TileCount tg)) 0 payload tiles tg (unat (tg_DataOffset tg))
      (length payload - unat (tg_DataOffset tg)) spans = (Inr n, spans')"
    and c: "0 < unat (tg_TileCount tg)" "unat (tg_TileCount tg) \<le> length spans" "unat (tg_DataOffset tg) \<le> length payload"
      "int (length payload) \<le> 0xffffffff"
    using assms(2) unfolding SplitTileGroup_def Let_def by (auto split: if_splits)
  have s: "n = unat (tg_TileCount tg) \<and> length spans' = length spans \<and> drop n spans' = drop n spans \<and>
      tile_layout (unat (ti_TileSizeBytes tiles)) (take n spans') (unat (tg_DataOffset tg)) (length payload) \<and>
      (\<forall>j < n. span_tile_ok tiles (start + word_of_nat j) (spans' ! j))"
    using SplitTileGroup_loop_ok [OF loop] c h by simp
  have t: "unat (start + word_of_nat i) = unat start + i" "unat start + i < unat (ti_Cols tiles) * unat (ti_Rows tiles)"
    if "i < n" for i
  proof -
    show i: "unat start + i < unat (ti_Cols tiles) * unat (ti_Rows tiles)"
      using that s h unfolding group_ok_def by auto
    then show "unat (start + word_of_nat i) = unat start + i" using h by (simp add: unat_word_ariths unat_u16_small)
  qed
  have "unat (ts_Tile (spans' ! i)) = unat start + i \<and>
       unat (ts_Tile (spans' ! i)) = unat (ts_Row (spans' ! i)) * unat (ti_Cols tiles) + unat (ts_Col (spans' ! i)) \<and>
       unat (ts_Row (spans' ! i)) < unat (ti_Rows tiles) \<and> unat (ts_Col (spans' ! i)) < unat (ti_Cols tiles)" if i: "i < n" for i
  proof -
    have sp: "span_tile_ok tiles (start + word_of_nat i) (spans' ! i)" using s i by blast
    show ?thesis using span_grid [OF sp] t [OF i] sp by (simp add: span_tile_ok_def)
  qed
  moreover have "n = unat (tg_EndTile tg) - unat start + 1" using s h unfolding group_ok_def by auto
  ultimately show ?thesis using s h by blast
qed

text \<open>Two columns of tiles, sizes of one byte.\<close>

definition two_tiles :: TileInfo where
  "two_tiles = zero_TileInfo\<lparr>ti_Cols := 2, ti_Rows := 1, ti_Log2Cols := 1, ti_TileSizeBytes := 1\<rparr>"

definition zero_TileSpan :: TileSpan where
  "zero_TileSpan = \<lparr>ts_Tile = 0, ts_Row = 0, ts_Col = 0, ts_Offset = 0, ts_Size = 0\<rparr>"

theorem tile_group_spans_witness:
  "\<exists>tg spans. ParseTileGroupHeader [0, 1, 0xaa, 0xbb, 0xcc] two_tiles 0 0 False = Inr tg \<and>
     SplitTileGroup [0, 1, 0xaa, 0xbb, 0xcc] two_tiles tg [zero_TileSpan, zero_TileSpan, zero_TileSpan] = (Inr 2, spans) \<and>
     tile_layout 1 (take 2 spans) 1 5"
proof -
  let ?p = "[0, 1, 0xaa, 0xbb, 0xcc] :: bytes"
  let ?z = "[zero_TileSpan, zero_TileSpan, zero_TileSpan]"
  let ?r = "ParseTileGroupHeader ?p two_tiles 0 0 False"
  have "case ?r of Inr tg \<Rightarrow> fst (SplitTileGroup ?p two_tiles tg ?z) = Inr 2 \<and> tg_DataOffset tg = 1 | Inl _ \<Rightarrow> False" by code_simp
  then obtain tg where r: "?r = Inr tg" "fst (SplitTileGroup ?p two_tiles tg ?z) = Inr 2" "tg_DataOffset tg = 1" by (cases ?r) auto
  then obtain spans where s: "SplitTileGroup ?p two_tiles tg ?z = (Inr 2, spans)" by (cases "SplitTileGroup ?p two_tiles tg ?z") auto
  have "tile_layout (unat (ti_TileSizeBytes two_tiles)) (take 2 spans) (unat (tg_DataOffset tg)) (length ?p)"
    using tile_group_spans [OF r(1) s] by blast
  then have "tile_layout 1 (take 2 spans) 1 5" using r(3) by (simp add: two_tiles_def eval_nat_numeral)
  with r s show ?thesis by blast
qed

text \<open>The data of a tile group: each tile but the last after its size less one.\<close>

fun tile_group_data :: "nat \<Rightarrow> bytes list \<Rightarrow> bytes" where
  "tile_group_data tsb [] = []"
| "tile_group_data tsb [d] = d"
| "tile_group_data tsb (d # e # ds) = le_bytes tsb (word_of_nat (length d - 1) :: u32) @ d @ tile_group_data tsb (e # ds)"

definition span_bytes :: "bytes \<Rightarrow> TileSpan \<Rightarrow> bytes" where
  "span_bytes payload s = take (unat (ts_Size s)) (drop (unat (ts_Offset s)) payload)"

lemma read_tile_size_le_bytes:
  assumes "take n (drop off payload) = le_bytes n (v :: u32)" "n \<le> 4"
  shows "read_tile_size payload off n = take_bit (8 * n) v"
proof -
  have at: "payload ! (off + j) = ucast (drop_bit (8 * j) v)" if "j < n" for j
  proof -
    have "off + j < length payload"
      using that arg_cong [OF assms(1), of length] by (auto simp: min_def split: if_splits)
    then show ?thesis using that arg_cong [OF assms(1), of "\<lambda>xs. xs ! j"] by simp
  qed
  have "foldl (\<lambda>v j. v OR push_bit (8 * j) (ucast (payload ! (off + j)))) 0 [0..<m] = take_bit (8 * m) v" if "m \<le> n" for m
    using that
  proof (induction m)
    case (Suc m)
    have "take_bit (8 * m) v OR push_bit (8 * m) (ucast (ucast (drop_bit (8 * m) v) :: u8)) = take_bit (8 * Suc m) v"
      using Suc.prems assms(2) by (intro bit_word_eqI) (auto simp: bit_simps)
    then show ?case using Suc at by simp
  qed simp
  then show ?thesis by (simp add: read_tile_size_def)
qed

definition tiles_encodable :: "nat \<Rightarrow> bytes list \<Rightarrow> bool" where
  "tiles_encodable tsb ds \<longleftrightarrow> (\<forall>d \<in> set (butlast ds). 1 \<le> length d \<and> length d \<le> 2 ^ (8 * tsb))"

lemma SplitTileGroup_loop_step:
  assumes "k \<noteq> 0" "tsb = unat (ti_TileSizeBytes tiles)" "1 \<le> tsb" "tsb \<le> remaining" "read_tile_size payload off tsb = v"
    "\<not> v + 1 > word_of_nat (remaining - tsb)" "ti_Cols tiles \<noteq> 0" "tile = tg_StartTile tg + word_of_nat i"
  shows "SplitTileGroup_loop (Suc k) i payload tiles tg off remaining spans =
    SplitTileGroup_loop k (i + 1) payload tiles tg (off + tsb + unat (v + 1)) (remaining - tsb - unat (v + 1))
      (spans[i := \<lparr>ts_Tile = tile, ts_Row = ucast (tile div ucast (ti_Cols tiles)),
         ts_Col = ucast (tile mod ucast (ti_Cols tiles)), ts_Offset = word_of_nat (off + tsb), ts_Size = v + 1\<rparr>])"
  using assms by (simp add: Let_def)

lemma SplitTileGroup_loop_tiles:
  assumes "drop off payload = tile_group_data tsb ds" "off \<le> length payload" "length payload \<le> 0xffffffff" "tiles_encodable tsb ds"
    "tsb = unat (ti_TileSizeBytes tiles)" "1 \<le> tsb" "tsb \<le> 4" "ti_Cols tiles \<noteq> 0" "ds \<noteq> []" "i + length ds \<le> length spans"
  shows "\<exists>spans'. SplitTileGroup_loop (length ds) i payload tiles tg off (length payload - off) spans = (Inr (i + length ds), spans') \<and>
    length spans' = length spans \<and> take i spans' = take i spans \<and> map (span_bytes payload) (take (length ds) (drop i spans')) = ds"
  using assms
proof (induction tsb ds arbitrary: i off spans rule: tile_group_data.induct)
  case (2 tsb d)
  have "length d = length payload - off" using "2.prems"(1) by (metis length_drop tile_group_data.simps(2))
  moreover have "unat (word_of_nat (length payload - off) :: u32) = length payload - off" "unat (word_of_nat off :: u32) = off"
    using "2.prems"(2,3) by (intro unat_u32_small; simp)+
  ultimately show ?case using "2.prems" by (simp add: Let_def span_bytes_def take_Suc hd_drop_conv_nth)
next
  case (3 tsb d e ds)
  define v :: u32 where "v = word_of_nat (length d - 1)"
  have len: "length payload - off = tsb + length d + length (tile_group_data tsb (e # ds))"
    using arg_cong [OF "3.prems"(1), of length] by simp
  have d: "1 \<le> length d" "length d \<le> 2 ^ (8 * tsb)" using "3.prems"(4) by (auto simp: tiles_encodable_def)
  have uv: "unat v = length d - 1" unfolding v_def using len "3.prems"(3) by (intro unat_u32_small) linarith
  have "unat (v + 1) = unat v + 1" using uv len d "3.prems"(3) by (simp add: unat_word_ariths)
  then have v: "unat (v + 1) = length d" "take_bit (8 * tsb) v = v"
    using uv d by (simp_all add: take_bit_word_unat)
  have rd: "read_tile_size payload off tsb = v"
    using read_tile_size_le_bytes [of tsb off payload v] "3.prems"(1,7) v(2) by (simp add: v_def)
  have fits: "\<not> v + 1 > word_of_nat (length payload - off - tsb)"
  proof -
    have "unat (word_of_nat (length payload - off - tsb) :: u32) = length payload - off - tsb"
      using "3.prems"(3) by (intro unat_u32_small) simp
    then show ?thesis using v(1) len by (simp only: not_less word_le_nat_alt)
  qed
  let ?sp = "\<lparr>ts_Tile = tg_StartTile tg + word_of_nat i, ts_Row = ucast ((tg_StartTile tg + word_of_nat i) div ucast (ti_Cols tiles)),
     ts_Col = ucast ((tg_StartTile tg + word_of_nat i) mod ucast (ti_Cols tiles)), ts_Offset = word_of_nat (off + tsb), ts_Size = v + 1\<rparr>"
  have next_off: "drop (off + tsb + length d) payload = tile_group_data tsb (e # ds)"
    using arg_cong [OF "3.prems"(1), of "drop (tsb + length d)"] by (simp add: ac_simps)
  have later: "off + tsb + length d \<le> length payload" "tiles_encodable tsb (e # ds)" "e # ds \<noteq> []"
      "i + 1 + length (e # ds) \<le> length (spans[i := ?sp])"
    using len d "3.prems"(4,10) by (auto simp: tiles_encodable_def)
  obtain spans' where IH: "SplitTileGroup_loop (length (e # ds)) (i + 1) payload tiles tg (off + tsb + length d)
        (length payload - (off + tsb + length d)) (spans[i := ?sp]) = (Inr (i + 1 + length (e # ds)), spans')"
      "length spans' = length (spans[i := ?sp])" "take (i + 1) spans' = take (i + 1) (spans[i := ?sp])"
      "map (span_bytes payload) (take (length (e # ds)) (drop (i + 1) spans')) = e # ds"
    using "3.IH" [OF next_off later(1) "3.prems"(3) later(2) "3.prems"(5-8) later(3,4)] by (elim exE conjE) (rule that)
  have run: "SplitTileGroup_loop (length (d # e # ds)) i payload tiles tg off (length payload - off) spans = (Inr (i + length (d # e # ds)), spans')"
  proof -
    have "length payload - off - tsb - length d = length payload - (off + tsb + length d)" by simp
    then show ?thesis
      using SplitTileGroup_loop_step [OF _ "3.prems"(5,6) _ rd fits "3.prems"(8), where k = "length (e # ds)" and tg = tg and i = i and spans = spans] IH(1) v(1) len
      by (simp only: list.size(4) [of d] add_Suc_right add_0_right) (simp del: SplitTileGroup_loop.simps)
  qed
  have at: "spans' ! i = ?sp" using arg_cong [OF IH(3), of "\<lambda>xs. xs ! i"] "3.prems"(10) by simp
  have "drop (off + tsb) payload = d @ tile_group_data tsb (e # ds)"
    using arg_cong [OF "3.prems"(1), of "drop tsb"] by (simp add: add.commute)
  moreover have "unat (word_of_nat (off + tsb) :: u32) = off + tsb" using len d "3.prems"(3) by (intro unat_u32_small) linarith
  ultimately have sp: "span_bytes payload ?sp = d" using v(1) by (simp add: span_bytes_def)
  have tk: "take i spans' = take i spans"
    using arg_cong [OF IH(3), of "take i"] by (simp add: min_def)
  have "drop i spans' = ?sp # drop (i + 1) spans'"
    using at "3.prems"(10) IH(2) by (subst Cons_nth_drop_Suc [symmetric]) auto
  then have "map (span_bytes payload) (take (length (d # e # ds)) (drop i spans')) = d # e # ds"
    using IH(4) sp by simp
  then show ?case using run IH(2) tk by auto
qed simp

text \<open>
  C26: splitting a group returns the tiles that were put into it: with sizes of 1 to 4 bytes that hold every length,
  any non-empty list of tiles laid out after the header comes back, tile by tile and byte by byte.
\<close>

theorem SplitTileGroup_roundtrip:
  assumes "drop (unat (tg_DataOffset tg)) payload = tile_group_data (unat (ti_TileSizeBytes tiles)) ds"
    "unat (tg_DataOffset tg) \<le> length payload" "length payload \<le> 0xffffffff"
    "tiles_encodable (unat (ti_TileSizeBytes tiles)) ds" "1 \<le> unat (ti_TileSizeBytes tiles)" "unat (ti_TileSizeBytes tiles) \<le> 4"
    "ti_Cols tiles \<noteq> 0" "ds \<noteq> []" "unat (tg_TileCount tg) = length ds" "length ds \<le> length spans"
  shows "\<exists>spans'. SplitTileGroup payload tiles tg spans = (Inr (length ds), spans') \<and>
    map (span_bytes payload) (take (length ds) spans') = ds"
  using SplitTileGroup_loop_tiles [OF assms(1-4) refl assms(5-8), of 0 spans tg] assms
  by (auto simp: SplitTileGroup_def)

theorem SplitTileGroup_roundtrip_witness:
  "\<exists>spans'. SplitTileGroup [0, 1, 0xaa, 0xbb, 0xcc] two_tiles (zero_TileGroup\<lparr>tg_TileCount := 2, tg_DataOffset := 1\<rparr>)
      [zero_TileSpan, zero_TileSpan] = (Inr 2, spans') \<and>
     map (span_bytes [0, 1, 0xaa, 0xbb, 0xcc]) (take 2 spans') = [[0xaa, 0xbb], [0xcc]]"
  using SplitTileGroup_roundtrip [of "zero_TileGroup\<lparr>tg_TileCount := 2, tg_DataOffset := 1\<rparr>" "[0, 1, 0xaa, 0xbb, 0xcc]"
      two_tiles "[[0xaa, 0xbb], [0xcc]]" "[zero_TileSpan, zero_TileSpan]"]
  by (simp add: two_tiles_def tiles_encodable_def le_bytes_def flip: numeral_2_eq_2)

text \<open>
  A size field of four bytes 0xff wraps to zero: \<open>SplitTileGroup\<close> accepts it as an empty tile and goes on
  with the next one, although the field announces \<open>2^32\<close> bytes that the payload does not have.
\<close>

theorem tile_size_wraps:
  "SplitTileGroup [0xff, 0xff, 0xff, 0xff, 0xcc] (two_tiles\<lparr>ti_TileSizeBytes := 4\<rparr>) (zero_TileGroup\<lparr>tg_TileCount := 2\<rparr>)
     [zero_TileSpan, zero_TileSpan] =
   (Inr 2, [\<lparr>ts_Tile = 0, ts_Row = 0, ts_Col = 0, ts_Offset = 4, ts_Size = 0\<rparr>, \<lparr>ts_Tile = 1, ts_Row = 0, ts_Col = 1, ts_Offset = 4, ts_Size = 1\<rparr>])"
  by code_simp

end
