(* ===== verification/Tile_List.thy ===== *)
theory Tile_List
  imports Tile_Group
begin

text \<open>
  The tile list of large-scale tile decoding (\<open>parser/tile_list.go\<close>): the payload parser and its
  inverse, the checks of a list against the tile grid of the reference frame, and the geometry of the
  output mosaic. The slice of scratch entries that \<open>ParseTileListOBU\<close> takes only avoids an
  allocation; the entries are returned by value here.
\<close>

section \<open>Data\<close>

definition TileListHeaderBytes :: nat where "TileListHeaderBytes = 4"
definition TileListEntryHeaderBytes :: nat where "TileListEntryHeaderBytes = 5"
definition TileListMaxExternalReferences :: u8 where "TileListMaxExternalReferences = 128"
definition TileListMaxTiles :: nat where "TileListMaxTiles = 512"

record TileListEntry =
  te_AnchorFrameIdx :: u8
  te_AnchorTileRow :: u8
  te_AnchorTileCol :: u8
  te_TileDataSizeMinus1 :: u16
  te_TileData :: bytes

definition TileDataSize :: "TileListEntry \<Rightarrow> nat" where
  "TileDataSize e = unat (te_TileDataSizeMinus1 e) + 1"

record TileList =
  tl_OutputFrameWidthInTilesMinus1 :: u8
  tl_OutputFrameHeightInTilesMinus1 :: u8
  tl_TileCountMinus1 :: u16
  tl_Entries :: "TileListEntry list"

definition zero_TileList :: TileList where
  "zero_TileList = \<lparr>tl_OutputFrameWidthInTilesMinus1 = 0, tl_OutputFrameHeightInTilesMinus1 = 0, tl_TileCountMinus1 = 0, tl_Entries = []\<rparr>"

record TileListOutputGeometry =
  og_OutputFrameWidthInTiles :: int
  og_OutputFrameHeightInTiles :: int
  og_TileCount :: int
  og_TileWidthPixels :: int
  og_TileHeightPixels :: int
  og_OutputFrameWidth :: int
  og_OutputFrameHeight :: int

record TileListTileRegion =
  tr_SourceX :: int
  tr_SourceY :: int
  tr_DestX :: int
  tr_DestY :: int
  tr_Width :: int
  tr_Height :: int

definition OutputFrameWidthInTiles :: "TileList \<Rightarrow> nat" where
  "OutputFrameWidthInTiles l = unat (tl_OutputFrameWidthInTilesMinus1 l) + 1"

definition OutputFrameHeightInTiles :: "TileList \<Rightarrow> nat" where
  "OutputFrameHeightInTiles l = unat (tl_OutputFrameHeightInTilesMinus1 l) + 1"

definition TileCount :: "TileList \<Rightarrow> nat" where
  "TileCount l = unat (tl_TileCountMinus1 l) + 1"

section \<open>The payload\<close>

text \<open>One entry: its five header bytes and the tile data.\<close>

definition ParseTileListOBU_entry :: "bytes \<Rightarrow> nat \<Rightarrow> go_err + TileListEntry \<times> nat" where
  "ParseTileListOBU_entry payload off =
     (if off + TileListEntryHeaderBytes > length payload then Inl ErrTileListShortEntry
      else if payload ! off \<ge> TileListMaxExternalReferences then Inl ErrTileListInvalidAnchorIndex
      else
        let entry = \<lparr>te_AnchorFrameIdx = payload ! off, te_AnchorTileRow = payload ! (off + 1), te_AnchorTileCol = payload ! (off + 2),
                     te_TileDataSizeMinus1 = be16_at payload (off + 3), te_TileData = []\<rparr>;
            off = off + TileListEntryHeaderBytes;
            lim = off + (unat (te_TileDataSizeMinus1 entry) + 1)
        in if lim > length payload then Inl ErrTileListShortTileData
           else Inr (entry\<lparr>te_TileData := take (lim - off) (drop off payload)\<rparr>, lim))"

primrec ParseTileListOBU_loop :: "nat \<Rightarrow> bytes \<Rightarrow> nat \<Rightarrow> TileListEntry list \<Rightarrow> go_err + TileListEntry list \<times> nat" where
  "ParseTileListOBU_loop 0 payload off entries = Inr (entries, off)"
| "ParseTileListOBU_loop (Suc k) payload off entries =
     (case ParseTileListOBU_entry payload off of
        Inl e \<Rightarrow> Inl e
      | Inr (entry, off) \<Rightarrow> ParseTileListOBU_loop k payload off (entries @ [entry]))"

definition ParseTileListOBU :: "bytes \<Rightarrow> TileList \<times> go_err option" where
  "ParseTileListOBU payload =
     (let list = zero_TileList in
      if length payload < TileListHeaderBytes then (list, Some ErrTileListShortHeader)
      else
        let list = list\<lparr>tl_OutputFrameWidthInTilesMinus1 := payload ! 0, tl_OutputFrameHeightInTilesMinus1 := payload ! 1,
                        tl_TileCountMinus1 := be16_at payload 2\<rparr>;
            tileCount = unat (tl_TileCountMinus1 list) + 1;
            outputCapacity = (unat (tl_OutputFrameWidthInTilesMinus1 list) + 1) * (unat (tl_OutputFrameHeightInTilesMinus1 list) + 1)
        in if tileCount > TileListMaxTiles then (list, Some ErrTileListInvalidTileCount)
           else if tileCount > outputCapacity then (list, Some ErrTileListTooManyTiles)
           else case ParseTileListOBU_loop tileCount payload TileListHeaderBytes [] of
                  Inl e \<Rightarrow> (list, Some e)
                | Inr (entries, off) \<Rightarrow>
                    if off \<noteq> length payload then (list, Some ErrTileListTrailingBytes)
                    else (list\<lparr>tl_Entries := entries\<rparr>, None))"

definition tile_list_entry_bytes :: "TileListEntry \<Rightarrow> bytes" where
  "tile_list_entry_bytes e = [te_AnchorFrameIdx e, te_AnchorTileRow e, te_AnchorTileCol e] @ be16_bytes (te_TileDataSizeMinus1 e) @ te_TileData e"

definition AppendTileListOBU :: "bytes \<Rightarrow> TileList \<Rightarrow> bytes" where
  "AppendTileListOBU dst list =
     foldl (\<lambda>dst entry. dst @ tile_list_entry_bytes entry)
       (dst @ [tl_OutputFrameWidthInTilesMinus1 list, tl_OutputFrameHeightInTilesMinus1 list] @ be16_bytes (tl_TileCountMinus1 list))
       (tl_Entries list)"

section \<open>Checks against the reference frame\<close>

definition ValidateTileListAnchors :: "TileList \<Rightarrow> TileInfo \<Rightarrow> go_err option" where
  "ValidateTileListAnchors list tiles =
     (if ti_Cols tiles = 0 \<or> ti_Rows tiles = 0 then Some ErrTileListInvalidAnchorTile
      else if TileCount list \<noteq> length (tl_Entries list) then Some ErrTileListInvalidTileCount
      else if list_ex (\<lambda>entry. te_AnchorTileRow entry \<ge> ti_Rows tiles \<or> te_AnchorTileCol entry \<ge> ti_Cols tiles) (tl_Entries list)
      then Some ErrTileListInvalidAnchorTile
      else None)"

text \<open>One loop of \<open>TileListUniformTileSize\<close>: all tiles of the row or column have the given size.\<close>

definition uniform_starts :: "nat \<Rightarrow> u16 \<Rightarrow> u16 list \<Rightarrow> bool" where
  "uniform_starts n sz starts = list_all (\<lambda>i. \<not> (starts ! (i + 1) \<le> starts ! i \<or> starts ! (i + 1) - starts ! i \<noteq> sz)) [0..<n]"

definition TileListUniformTileSize :: "TileInfo \<Rightarrow> (u16 \<times> u16) option" where
  "TileListUniformTileSize tiles =
     (let cols = unat (ti_Cols tiles); rows = unat (ti_Rows tiles) in
      if cols = 0 \<or> rows = 0 \<or> cols > MaxTileCols \<or> rows > MaxTileRows then None
      else if ti_ColStartSB tiles ! 0 \<noteq> 0 \<or> ti_RowStartSB tiles ! 0 \<noteq> 0 then None
      else
        let widthSB = ti_ColStartSB tiles ! 1 - ti_ColStartSB tiles ! 0;
            heightSB = ti_RowStartSB tiles ! 1 - ti_RowStartSB tiles ! 0
        in if widthSB = 0 \<or> heightSB = 0 then None
           else if ti_UniformSpacing tiles then Some (widthSB, heightSB)
           else if \<not> uniform_starts cols widthSB (ti_ColStartSB tiles) then None
           else if \<not> uniform_starts rows heightSB (ti_RowStartSB tiles) then None
           else Some (widthSB, heightSB))"

definition ValidateTileListDecodeLayout :: "TileList \<Rightarrow> TileInfo \<Rightarrow> go_err + u16 \<times> u16" where
  "ValidateTileListDecodeLayout list tiles =
     (case ValidateTileListAnchors list tiles of
        Some e \<Rightarrow> Inl e
      | None \<Rightarrow> (case TileListUniformTileSize tiles of None \<Rightarrow> Inl ErrTileListNonUniformTileSize | Some s \<Rightarrow> Inr s))"

section \<open>The output mosaic\<close>

definition TileListOutputGeometryForGrid :: "TileList \<Rightarrow> TileInfo \<Rightarrow> bool \<Rightarrow> go_err + TileListOutputGeometry" where
  "TileListOutputGeometryForGrid list tiles use128x128Superblock =
     (case ValidateTileListDecodeLayout list tiles of
        Inl e \<Rightarrow> Inl e
      | Inr (widthSB, heightSB) \<Rightarrow>
          let pixelsPerSB = (if use128x128Superblock then 128 else 64);
              tileWidth = int (unat widthSB) * pixelsPerSB;
              tileHeight = int (unat heightSB) * pixelsPerSB
          in if tileWidth \<le> 0 \<or> tileHeight \<le> 0 then Inl ErrTileListNonUniformTileSize
             else
               let widthTiles = int (OutputFrameWidthInTiles list);
                   heightTiles = int (OutputFrameHeightInTiles list);
                   tileCount = int (TileCount list)
               in if tileCount \<noteq> int (length (tl_Entries list)) then Inl ErrTileListInvalidTileCount
                  else if tileCount > widthTiles * heightTiles then Inl ErrTileListTooManyTiles
                  else Inr \<lparr>og_OutputFrameWidthInTiles = widthTiles, og_OutputFrameHeightInTiles = heightTiles, og_TileCount = tileCount,
                     og_TileWidthPixels = tileWidth, og_TileHeightPixels = tileHeight,
                     og_OutputFrameWidth = widthTiles * tileWidth, og_OutputFrameHeight = heightTiles * tileHeight\<rparr>)"

definition TileListOutputTileRegion :: "TileList \<Rightarrow> TileListOutputGeometry \<Rightarrow> int \<Rightarrow> go_err + TileListTileRegion" where
  "TileListOutputTileRegion list geometry entryIndex =
     (if entryIndex < 0 \<or> entryIndex \<ge> int (TileCount list) \<or> entryIndex \<ge> int (length (tl_Entries list))
      then Inl ErrTileListInvalidTileCount
      else if og_OutputFrameWidthInTiles geometry \<le> 0 \<or> og_TileWidthPixels geometry \<le> 0 \<or> og_TileHeightPixels geometry \<le> 0
      then Inl ErrTileListNonUniformTileSize
      else
        let entry = tl_Entries list ! nat entryIndex;
            destTileRow = entryIndex div og_OutputFrameWidthInTiles geometry;
            destTileCol = entryIndex mod og_OutputFrameWidthInTiles geometry
        in if destTileRow \<ge> og_OutputFrameHeightInTiles geometry then Inl ErrTileListTooManyTiles
           else Inr \<lparr>tr_SourceX = int (unat (te_AnchorTileCol entry)) * og_TileWidthPixels geometry,
                     tr_SourceY = int (unat (te_AnchorTileRow entry)) * og_TileHeightPixels geometry,
                     tr_DestX = destTileCol * og_TileWidthPixels geometry, tr_DestY = destTileRow * og_TileHeightPixels geometry,
                     tr_Width = og_TileWidthPixels geometry, tr_Height = og_TileHeightPixels geometry\<rparr>)"

section \<open>Parsing inverts writing\<close>

definition entry_wf :: "TileListEntry \<Rightarrow> bool" where
  "entry_wf e \<longleftrightarrow> te_AnchorFrameIdx e < 128 \<and> length (te_TileData e) = TileDataSize e"

definition tile_list_wf :: "TileList \<Rightarrow> bool" where
  "tile_list_wf l \<longleftrightarrow> TileCount l = length (tl_Entries l) \<and> TileCount l \<le> 512 \<and>
     TileCount l \<le> OutputFrameWidthInTiles l * OutputFrameHeightInTiles l \<and> list_all entry_wf (tl_Entries l)"

lemma length_entry_bytes [simp]: "length (tile_list_entry_bytes e) = 5 + length (te_TileData e)"
  by (simp add: tile_list_entry_bytes_def be16_bytes_def)

lemma ParseTileListOBU_entry_bytes:
  assumes "drop off payload = tile_list_entry_bytes e @ rest" "entry_wf e"
  shows "ParseTileListOBU_entry payload off = Inr (e, off + length (tile_list_entry_bytes e))"
proof -
  have len: "off + 5 + length (te_TileData e) \<le> length payload"
    using arg_cong [OF assms(1), of length] by simp
  have at: "payload ! (off + j) = (tile_list_entry_bytes e @ rest) ! j" if "j < 5" for j
    using assms(1) len that by (metis add_leE nth_drop)
  have sz: "be16_at payload (off + 3) = te_TileDataSizeMinus1 e"
    using arg_cong [OF assms(1), of "\<lambda>xs. take 2 (drop 3 xs)"]
    by (intro be16_at_bytes) (simp add: tile_list_entry_bytes_def be16_bytes_def add.commute)
  have d: "take (TileDataSize e) (drop (off + 5) payload) = te_TileData e"
    using arg_cong [OF assms(1), of "\<lambda>xs. take (TileDataSize e) (drop 5 xs)"] assms(2)
    by (simp add: tile_list_entry_bytes_def be16_bytes_def entry_wf_def add.commute)
  show ?thesis
    using at [of 0] at [of 1] at [of 2] assms(2) len sz d
    by (simp add: ParseTileListOBU_entry_def Let_def TileListEntryHeaderBytes_def TileListMaxExternalReferences_def entry_wf_def
        TileDataSize_def tile_list_entry_bytes_def be16_bytes_def not_le)
qed

lemma ParseTileListOBU_entry_ok:
  assumes "ParseTileListOBU_entry payload off = Inr (e, off')"
  shows "entry_wf e \<and> off' = off + length (tile_list_entry_bytes e) \<and> (\<exists>rest. drop off payload = tile_list_entry_bytes e @ rest)"
proof -
  have g: "off + 5 \<le> length payload" "payload ! off < 128" "off + 5 + unat (be16_at payload (off + 3)) + 1 \<le> length payload"
    and e: "e = \<lparr>te_AnchorFrameIdx = payload ! off, te_AnchorTileRow = payload ! (off + 1), te_AnchorTileCol = payload ! (off + 2),
       te_TileDataSizeMinus1 = be16_at payload (off + 3),
       te_TileData = take (unat (be16_at payload (off + 3)) + 1) (drop (off + 5) payload)\<rparr>"
    and off': "off' = off + 5 + unat (be16_at payload (off + 3)) + 1"
    using assms unfolding ParseTileListOBU_entry_def Let_def TileListEntryHeaderBytes_def TileListMaxExternalReferences_def
    by (auto simp: not_le split: if_splits)
  have c: "drop j xs = xs ! j # drop (Suc j) xs" if "j < length xs" for j and xs :: bytes
    using that by (simp add: Cons_nth_drop_Suc)
  have "drop off payload = [payload ! off, payload ! (off + 1), payload ! (off + 2)] @ drop (off + 3) payload"
    using g c [of off payload] c [of "off + 1" payload] c [of "off + 2" payload] by (simp add: numeral_3_eq_3)
  also have "drop (off + 3) payload = be16_bytes (be16_at payload (off + 3)) @ drop (off + 5) payload"
    using be16_bytes_at [of "off + 3" payload] append_take_drop_id [of 2 "drop (off + 3) payload"] g
    by (simp add: add.commute)
  finally have "drop off payload = tile_list_entry_bytes e @ drop (unat (be16_at payload (off + 3)) + 1) (drop (off + 5) payload)"
    using append_take_drop_id [of "unat (be16_at payload (off + 3)) + 1" "drop (off + 5) payload"]
    by (simp add: tile_list_entry_bytes_def e)
  then show ?thesis using g off' by (auto simp: e entry_wf_def TileDataSize_def)
qed

lemma ParseTileListOBU_loop_bytes:
  assumes "drop off payload = concat (map tile_list_entry_bytes es) @ rest" "list_all entry_wf es"
  shows "ParseTileListOBU_loop (length es) payload off acc = Inr (acc @ es, off + length (concat (map tile_list_entry_bytes es)))"
  using assms
proof (induction es arbitrary: off acc)
  case (Cons e es)
  have "ParseTileListOBU_entry payload off = Inr (e, off + length (tile_list_entry_bytes e))"
    using Cons.prems by (intro ParseTileListOBU_entry_bytes) auto
  moreover have "drop (off + length (tile_list_entry_bytes e)) payload = concat (map tile_list_entry_bytes es) @ rest"
    using arg_cong [OF Cons.prems(1), of "drop (length (tile_list_entry_bytes e))"] by (simp add: add.commute)
  ultimately show ?case using Cons.IH Cons.prems(2) by (simp add: add.assoc)
qed simp

lemma ParseTileListOBU_loop_ok:
  assumes "ParseTileListOBU_loop k payload off acc = Inr (es, off')" 
  shows "\<exists>new rest. es = acc @ new \<and> length new = k \<and> list_all entry_wf new \<and>
    drop off payload = concat (map tile_list_entry_bytes new) @ rest \<and> off' = off + length (concat (map tile_list_entry_bytes new))"
  using assms
proof (induction k arbitrary: off acc)
  case 0
  then show ?case by (intro exI [of _ "[]"] exI [of _ "drop off payload"]) auto
next
  case (Suc k)
  then obtain e o1 where e: "ParseTileListOBU_entry payload off = Inr (e, o1)" "ParseTileListOBU_loop k payload o1 (acc @ [e]) = Inr (es, off')"
    by (auto split: sum.splits prod.splits)
  obtain rest where r: "entry_wf e" "o1 = off + length (tile_list_entry_bytes e)" "drop off payload = tile_list_entry_bytes e @ rest"
    using ParseTileListOBU_entry_ok [OF e(1)] by auto
  obtain new rest' where n: "es = (acc @ [e]) @ new" "length new = k" "list_all entry_wf new"
      "drop o1 payload = concat (map tile_list_entry_bytes new) @ rest'" "off' = o1 + length (concat (map tile_list_entry_bytes new))"
    using Suc.IH [OF e(2)] by auto
  have "drop o1 payload = rest"
    using arg_cong [OF r(3), of "drop (length (tile_list_entry_bytes e))"] by (simp add: r(2) add.commute)
  then show ?case using n r by (intro exI [of _ "e # new"] exI [of _ rest']) simp
qed

lemma AppendTileListOBU_eq:
  "AppendTileListOBU dst l = dst @ [tl_OutputFrameWidthInTilesMinus1 l, tl_OutputFrameHeightInTilesMinus1 l] @
     be16_bytes (tl_TileCountMinus1 l) @ concat (map tile_list_entry_bytes (tl_Entries l))"
proof -
  have "foldl (\<lambda>dst entry. dst @ tile_list_entry_bytes entry) d es = d @ concat (map tile_list_entry_bytes es)" for d es
    by (induction es arbitrary: d) auto
  then show ?thesis by (simp add: AppendTileListOBU_def)
qed

section \<open>Properties\<close>

text \<open>
  C24: the tile list parser inverts the tile list writer: a payload parses without error into a list exactly when the list
  is well formed (as many entries as it announces, at most 512 and no more than the output frame has tiles, each with an
  external reference below 128 and data of the size it announces) and the payload is what the writer makes of it. No byte of
  the payload is ignored, and no two payloads give the same list.
\<close>

theorem ParseTileListOBU_iff:
  "ParseTileListOBU payload = (list, None) \<longleftrightarrow> tile_list_wf list \<and> payload = AppendTileListOBU [] list"
proof
  assume p: "ParseTileListOBU payload = (list, None)"
  let ?h = "zero_TileList\<lparr>tl_OutputFrameWidthInTilesMinus1 := payload ! 0, tl_OutputFrameHeightInTilesMinus1 := payload ! 1,
     tl_TileCountMinus1 := be16_at payload 2\<rparr>"
  obtain es where l: "4 \<le> length payload" "TileCount ?h \<le> 512" "TileCount ?h \<le> OutputFrameWidthInTiles ?h * OutputFrameHeightInTiles ?h"
    and loop: "ParseTileListOBU_loop (TileCount ?h) payload 4 [] = Inr (es, length payload)" and list: "list = ?h\<lparr>tl_Entries := es\<rparr>"
    using p unfolding ParseTileListOBU_def Let_def TileListHeaderBytes_def TileListMaxTiles_def
    by (auto simp: TileCount_def OutputFrameWidthInTiles_def OutputFrameHeightInTiles_def split: if_splits sum.splits prod.splits)
  obtain rest where r: "length es = TileCount ?h" "list_all entry_wf es" "drop 4 payload = concat (map tile_list_entry_bytes es) @ rest"
      "length payload = 4 + length (concat (map tile_list_entry_bytes es))"
    using ParseTileListOBU_loop_ok [OF loop] by auto
  have "rest = []" using arg_cong [OF r(3), of length] r(4) l(1) by simp
  have "payload = take 2 payload @ take 2 (drop 2 payload) @ drop 4 payload"
    using append_take_drop_id [of 2 payload] append_take_drop_id [of 2 "drop 2 payload"] by simp
  moreover have "take 2 payload = [payload ! 0, payload ! 1]" using l(1) by (simp add: list_eq_iff_nth_eq less_2_cases_iff)
  ultimately have "payload = AppendTileListOBU [] list"
    using be16_bytes_at [of 2 payload] r(3) l(1) \<open>rest = []\<close> by (simp add: AppendTileListOBU_eq list)
  moreover have "tile_list_wf list"
    using l r by (simp add: tile_list_wf_def list TileCount_def OutputFrameWidthInTiles_def OutputFrameHeightInTiles_def)
  ultimately show "tile_list_wf list \<and> payload = AppendTileListOBU [] list" by blast
next
  assume w: "tile_list_wf list \<and> payload = AppendTileListOBU [] list"
  let ?b = "concat (map tile_list_entry_bytes (tl_Entries list))"
  have p: "payload = tl_OutputFrameWidthInTilesMinus1 list # tl_OutputFrameHeightInTilesMinus1 list # be16_bytes (tl_TileCountMinus1 list) @ ?b"
    using w by (simp add: AppendTileListOBU_eq)
  have b: "be16_at payload 2 = tl_TileCountMinus1 list" by (rule be16_at_bytes) (simp add: p be16_bytes_def)
  have len: "length payload = 4 + length ?b" by (simp add: p be16_bytes_def)
  have "drop 4 payload = ?b @ []" by (simp add: p be16_bytes_def)
  then have "ParseTileListOBU_loop (length (tl_Entries list)) payload 4 [] = Inr ([] @ tl_Entries list, 4 + length ?b)"
    by (rule ParseTileListOBU_loop_bytes) (use w in \<open>simp add: tile_list_wf_def\<close>)
  moreover have "payload ! 0 = tl_OutputFrameWidthInTilesMinus1 list" "payload ! 1 = tl_OutputFrameHeightInTilesMinus1 list"
    by (simp_all add: p)
  moreover have "tile_list_wf list" using w by simp
  ultimately show "ParseTileListOBU payload = (list, None)"
    using b len by (cases list) (simp add: ParseTileListOBU_def Let_def TileListHeaderBytes_def TileListMaxTiles_def tile_list_wf_def
        TileCount_def OutputFrameWidthInTiles_def OutputFrameHeightInTiles_def zero_TileList_def)
qed

text \<open>Two half-open rectangles of the same size do not meet.\<close>

definition regions_disjoint :: "TileListTileRegion \<Rightarrow> TileListTileRegion \<Rightarrow> bool" where
  "regions_disjoint a b \<longleftrightarrow> tr_DestX a + tr_Width a \<le> tr_DestX b \<or> tr_DestX b + tr_Width b \<le> tr_DestX a \<or>
     tr_DestY a + tr_Height a \<le> tr_DestY b \<or> tr_DestY b + tr_Height b \<le> tr_DestY a"

definition region_in_frame :: "TileListOutputGeometry \<Rightarrow> TileListTileRegion \<Rightarrow> bool" where
  "region_in_frame g a \<longleftrightarrow> 0 \<le> tr_DestX a \<and> 0 \<le> tr_DestY a \<and> 0 < tr_Width a \<and> 0 < tr_Height a \<and>
     tr_DestX a + tr_Width a \<le> og_OutputFrameWidth g \<and> tr_DestY a + tr_Height a \<le> og_OutputFrameHeight g"

lemma scaled_before: "a < b \<Longrightarrow> 0 \<le> w \<Longrightarrow> a * w + w \<le> b * w" for a b w :: int
  using mult_right_mono [of "a + 1" b w] by (simp add: distrib_right)

lemma scaled_apart: "a \<noteq> b \<Longrightarrow> 0 \<le> w \<Longrightarrow> a * w + w \<le> b * w \<or> b * w + w \<le> a * w" for a b w :: int
  using scaled_before [of a b w] scaled_before [of b a w] by linarith

lemma uint_pos: "uint x \<noteq> 0 \<Longrightarrow> 0 < uint x"
  using unsigned_greater_eq [of x, where 'a = int] by linarith

lemma geometry_facts:
  assumes "TileListOutputGeometryForGrid list tiles sb128 = Inr g"
  shows "0 < og_TileWidthPixels g" "0 < og_TileHeightPixels g" "og_OutputFrameWidthInTiles g = int (OutputFrameWidthInTiles list)"
    "og_OutputFrameHeightInTiles g = int (OutputFrameHeightInTiles list)" "TileCount list = length (tl_Entries list)"
    "int (TileCount list) \<le> og_OutputFrameWidthInTiles g * og_OutputFrameHeightInTiles g"
    "og_OutputFrameWidth g = og_OutputFrameWidthInTiles g * og_TileWidthPixels g"
    "og_OutputFrameHeight g = og_OutputFrameHeightInTiles g * og_TileHeightPixels g"
  using assms unfolding TileListOutputGeometryForGrid_def Let_def by (auto simp: uint_pos split: sum.splits prod.splits if_splits)

text \<open>
  C25: the tiles of an accepted list land in the output frame without overlap: every entry has a region, its destination
  rectangle lies inside the output frame, and the rectangles of two entries do not meet.
\<close>

theorem tile_list_regions_disjoint:
  assumes "TileListOutputGeometryForGrid list tiles sb128 = Inr g"
    "i < length (tl_Entries list)" "j < length (tl_Entries list)" "i \<noteq> j"
  shows "\<exists>a b. TileListOutputTileRegion list g (int i) = Inr a \<and> TileListOutputTileRegion list g (int j) = Inr b \<and>
    region_in_frame g a \<and> region_in_frame g b \<and> regions_disjoint a b"
proof -
  note f = geometry_facts [OF assms(1)]
  let ?w = "og_OutputFrameWidthInTiles g" and ?h = "og_OutputFrameHeightInTiles g"
  have w: "0 < ?w" unfolding f(3) OutputFrameWidthInTiles_def of_nat_0_less_iff by simp
  have at: "\<exists>a. TileListOutputTileRegion list g (int k) = Inr a \<and> region_in_frame g a \<and>
      tr_DestX a = int k mod ?w * og_TileWidthPixels g \<and> tr_DestY a = int k div ?w * og_TileHeightPixels g \<and>
      tr_Width a = og_TileWidthPixels g \<and> tr_Height a = og_TileHeightPixels g" if k: "k < length (tl_Entries list)" for k
  proof -
    have "int k < ?w * ?h" using k f(5,6) by linarith
    have col: "int k mod ?w < ?w" "0 \<le> int k mod ?w" "0 \<le> int k div ?w" using w by (simp_all add: pos_imp_zdiv_nonneg_iff)
    have row: "int k div ?w < ?h"
    proof (rule ccontr)
      assume "\<not> int k div ?w < ?h"
      then have "?h * ?w \<le> int k div ?w * ?w" using w by (intro mult_right_mono) simp_all
      moreover have "int k div ?w * ?w + int k mod ?w = int k" by (rule div_mult_mod_eq)
      ultimately show False using \<open>int k < ?w * ?h\<close> col mult.commute [of ?w ?h] by linarith
    qed
    show ?thesis
      using k f row col w scaled_before [OF row, of "og_TileHeightPixels g"] scaled_before [OF col(1), of "og_TileWidthPixels g"]
      by (simp add: TileListOutputTileRegion_def Let_def region_in_frame_def not_le)
  qed
  obtain a b where ab: "TileListOutputTileRegion list g (int i) = Inr a" "region_in_frame g a"
      "TileListOutputTileRegion list g (int j) = Inr b" "region_in_frame g b"
    and pos: "tr_DestX a = int i mod ?w * og_TileWidthPixels g" "tr_DestY a = int i div ?w * og_TileHeightPixels g"
      "tr_DestX b = int j mod ?w * og_TileWidthPixels g" "tr_DestY b = int j div ?w * og_TileHeightPixels g"
      "tr_Width a = og_TileWidthPixels g" "tr_Height a = og_TileHeightPixels g" "tr_Width b = og_TileWidthPixels g" "tr_Height b = og_TileHeightPixels g"
    using at [OF assms(2)] at [OF assms(3)] by auto
  have "int i mod ?w \<noteq> int j mod ?w \<or> int i div ?w \<noteq> int j div ?w"
    using assms(4) by (metis div_mult_mod_eq of_nat_eq_iff)
  then have "regions_disjoint a b"
    unfolding regions_disjoint_def pos using scaled_apart f(1,2) by (metis less_imp_le)
  then show ?thesis using ab by blast
qed

text \<open>A grid of two columns of one superblock, and a list of its two tiles.\<close>

definition two_columns :: TileInfo where
  "two_columns = zero_TileInfo\<lparr>ti_Cols := 2, ti_Rows := 1, ti_ColStartSB := [0, 1, 2], ti_RowStartSB := [0, 1]\<rparr>"

definition two_entries :: TileList where
  "two_entries = \<lparr>tl_OutputFrameWidthInTilesMinus1 = 1, tl_OutputFrameHeightInTilesMinus1 = 0, tl_TileCountMinus1 = 1,
     tl_Entries = [\<lparr>te_AnchorFrameIdx = 0, te_AnchorTileRow = 0, te_AnchorTileCol = 1, te_TileDataSizeMinus1 = 0, te_TileData = [7]\<rparr>,
       \<lparr>te_AnchorFrameIdx = 3, te_AnchorTileRow = 0, te_AnchorTileCol = 0, te_TileDataSizeMinus1 = 1, te_TileData = [8, 9]\<rparr>]\<rparr>"

theorem tile_list_regions_disjoint_witness:
  "\<exists>g a b. TileListOutputGeometryForGrid two_entries two_columns False = Inr g \<and> og_OutputFrameWidth g = 128 \<and>
     TileListOutputTileRegion two_entries g 0 = Inr a \<and> TileListOutputTileRegion two_entries g 1 = Inr b \<and> regions_disjoint a b"
proof -
  let ?r = "TileListOutputGeometryForGrid two_entries two_columns False"
  have "case ?r of Inr g \<Rightarrow> og_OutputFrameWidth g = 128 | Inl _ \<Rightarrow> False" by code_simp
  then obtain g where g: "?r = Inr g" "og_OutputFrameWidth g = 128" by (cases ?r) auto
  from tile_list_regions_disjoint [OF g(1), of 0 1] g show ?thesis by (auto simp: two_entries_def)
qed

end
