(* ===== verification/Metadata.thy ===== *)
theory Metadata
  imports Seq_Parser Obu
begin

text \<open>
  The metadata OBU (\<open>obu/metadata.go\<close>): content light level, mastering display, scalability, ITU-T T.35
  and timecode payloads. \<open>ParseMetadata\<close> returns the record that it has filled so far also with an error.
\<close>

section \<open>Data\<close>

definition MetadataTypeReserved0 :: u32 where "MetadataTypeReserved0 = 0"
definition MetadataTypeHDRCLL :: u32 where "MetadataTypeHDRCLL = 1"
definition MetadataTypeHDRMDCV :: u32 where "MetadataTypeHDRMDCV = 2"
definition MetadataTypeScalability :: u32 where "MetadataTypeScalability = 3"
definition MetadataTypeITUTT35 :: u32 where "MetadataTypeITUTT35 = 4"
definition MetadataTypeTimecode :: u32 where "MetadataTypeTimecode = 5"

definition MetadataType_String :: "u32 \<Rightarrow> string" where
  "MetadataType_String t =
     (if t = MetadataTypeITUTT35 then ''METADATA_TYPE_ITUT_T35''
      else if t = MetadataTypeHDRCLL then ''METADATA_TYPE_HDR_CLL''
      else if t = MetadataTypeHDRMDCV then ''METADATA_TYPE_HDR_MDCV''
      else if t = MetadataTypeScalability then ''METADATA_TYPE_SCALABILITY''
      else if t = MetadataTypeTimecode then ''METADATA_TYPE_TIMECODE''
      else ''METADATA_TYPE_RESERVED'')"

record MetadataITUTT35 =
  t35_CountryCode :: u8
  t35_CountryCodeExtension :: u8
  t35_HasCountryExtension :: bool
  t35_Payload :: bytes

record MetadataHDRCLL =
  cll_MaxCLL :: u16
  cll_MaxFALL :: u16

record MetadataHDRMDCV =
  mdcv_PrimaryChromaticityX :: "u16 list"
  mdcv_PrimaryChromaticityY :: "u16 list"
  mdcv_WhitePointChromaticityX :: u16
  mdcv_WhitePointChromaticityY :: u16
  mdcv_LuminanceMax :: u32
  mdcv_LuminanceMin :: u32

record ScalabilityTemporalGroupEntry =
  sge_TemporalID :: u8
  sge_TemporalSwitchingUp :: bool
  sge_SpatialSwitchingUp :: bool
  sge_RefCount :: u8
  sge_RefPicDiff :: "u8 list"

record ScalabilityStructure =
  ss_SpatialLayersCountMinus1 :: u8
  ss_SpatialLayerDimensionsPresent :: bool
  ss_SpatialLayerDescriptionPresent :: bool
  ss_TemporalGroupDescriptionPresent :: bool
  ss_SpatialLayerMaxWidth :: "u16 list"
  ss_SpatialLayerMaxHeight :: "u16 list"
  ss_SpatialLayerRefID :: "u8 list"
  ss_TemporalGroupSize :: u8
  ss_TemporalGroup :: "ScalabilityTemporalGroupEntry list"

record MetadataScalability =
  msc_ModeIDC :: u8
  msc_Structure :: ScalabilityStructure
  msc_HasStructure :: bool

record MetadataTimecode =
  tc_CountingType :: u8
  tc_FullTimestamp :: bool
  tc_Discontinuity :: bool
  tc_CountDropped :: bool
  tc_NFrames :: u16
  tc_SecondsFlag :: bool
  tc_HasSeconds :: bool
  tc_HasMinutes :: bool
  tc_HasHours :: bool
  tc_Seconds :: u8
  tc_Minutes :: u8
  tc_Hours :: u8
  tc_TimeOffsetLength :: u8
  tc_TimeOffsetValue :: u32

record Metadata =
  md_Type :: u32
  md_ITUTT35 :: MetadataITUTT35
  md_HDRCLL :: MetadataHDRCLL
  md_HDRMDCV :: MetadataHDRMDCV
  md_Scalability :: MetadataScalability
  md_Timecode :: MetadataTimecode

definition zero_TemporalGroupEntry :: ScalabilityTemporalGroupEntry where
  "zero_TemporalGroupEntry = \<lparr>sge_TemporalID = 0, sge_TemporalSwitchingUp = False, sge_SpatialSwitchingUp = False, sge_RefCount = 0,
     sge_RefPicDiff = replicate 7 0\<rparr>"

definition zero_ScalabilityStructure :: ScalabilityStructure where
  "zero_ScalabilityStructure = \<lparr>ss_SpatialLayersCountMinus1 = 0, ss_SpatialLayerDimensionsPresent = False,
     ss_SpatialLayerDescriptionPresent = False, ss_TemporalGroupDescriptionPresent = False,
     ss_SpatialLayerMaxWidth = replicate 4 0, ss_SpatialLayerMaxHeight = replicate 4 0, ss_SpatialLayerRefID = replicate 4 0,
     ss_TemporalGroupSize = 0, ss_TemporalGroup = replicate 255 zero_TemporalGroupEntry\<rparr>"

definition zero_MetadataTimecode :: MetadataTimecode where
  "zero_MetadataTimecode = \<lparr>tc_CountingType = 0, tc_FullTimestamp = False, tc_Discontinuity = False, tc_CountDropped = False,
     tc_NFrames = 0, tc_SecondsFlag = False, tc_HasSeconds = False, tc_HasMinutes = False, tc_HasHours = False, tc_Seconds = 0,
     tc_Minutes = 0, tc_Hours = 0, tc_TimeOffsetLength = 0, tc_TimeOffsetValue = 0\<rparr>"

definition zero_MetadataITUTT35 :: MetadataITUTT35 where
  "zero_MetadataITUTT35 = \<lparr>t35_CountryCode = 0, t35_CountryCodeExtension = 0, t35_HasCountryExtension = False, t35_Payload = []\<rparr>"

definition zero_Metadata :: Metadata where
  "zero_Metadata = \<lparr>md_Type = 0, md_ITUTT35 = zero_MetadataITUTT35, md_HDRCLL = \<lparr>cll_MaxCLL = 0, cll_MaxFALL = 0\<rparr>,
     md_HDRMDCV = \<lparr>mdcv_PrimaryChromaticityX = replicate 3 0, mdcv_PrimaryChromaticityY = replicate 3 0,
       mdcv_WhitePointChromaticityX = 0, mdcv_WhitePointChromaticityY = 0, mdcv_LuminanceMax = 0, mdcv_LuminanceMin = 0\<rparr>,
     md_Scalability = \<lparr>msc_ModeIDC = 0, msc_Structure = zero_ScalabilityStructure, msc_HasStructure = False\<rparr>,
     md_Timecode = zero_MetadataTimecode\<rparr>"

definition ScalabilityModeSS :: u8 where "ScalabilityModeSS = 14"

section \<open>Trailing bytes\<close>

text \<open>The loop of \<open>lastNonZeroIndex\<close>, from index \<open>i - 1\<close> down.\<close>

primrec lastNonZeroIndex_from :: "bytes \<Rightarrow> nat \<Rightarrow> int" where
  "lastNonZeroIndex_from src 0 = - 1"
| "lastNonZeroIndex_from src (Suc i) = (if src ! i \<noteq> 0 then int i else lastNonZeroIndex_from src i)"

definition lastNonZeroIndex :: "bytes \<Rightarrow> int" where
  "lastNonZeroIndex src = lastNonZeroIndex_from src (length src)"

definition lastNonZero :: "bytes \<Rightarrow> u8" where
  "lastNonZero src = (let i = lastNonZeroIndex src in if i < 0 then 0 else src ! nat i)"

definition requireTrailing :: "bytes \<Rightarrow> go_err option" where
  "requireTrailing src =
     (if src = [] then Some ErrMetadataMissingTrailing
      else
        let lst = lastNonZeroIndex src in
        if lst < 0 then Some ErrMetadataMissingTrailing
        else if src ! nat lst \<noteq> 0x80 then Some ErrMetadataInvalidTrailing
        else None)"

section \<open>The payloads\<close>

definition parseMetadataITUTT35 :: "bytes \<Rightarrow> go_err + MetadataITUTT35" where
  "parseMetadataITUTT35 src =
     (if src = [] then Inl ErrMetadataMissingCountry
      else
        let t35 = zero_MetadataITUTT35\<lparr>t35_CountryCode := src ! 0\<rparr> in
        if t35_CountryCode t35 = 0xff \<and> length src < 2 then Inl ErrMetadataMissingCountryEx
        else
          let (t35, countrySize) =
                (if t35_CountryCode t35 = 0xff
                 then (t35\<lparr>t35_CountryCodeExtension := src ! 1, t35_HasCountryExtension := True\<rparr>, 2) else (t35, 1));
              endIndex = lastNonZeroIndex src
          in if endIndex < int countrySize then Inl ErrMetadataMissingTrailing
             else if src ! nat endIndex \<noteq> 0x80 then Inl ErrMetadataInvalidTrailing
             else Inr (t35\<lparr>t35_Payload := take (nat endIndex - countrySize) (drop countrySize src)\<rparr>))"

definition be32_word :: "bytes \<Rightarrow> nat \<Rightarrow> u32" where
  "be32_word src i = push_bit 24 (ucast (src ! i)) OR push_bit 16 (ucast (src ! (i + 1))) OR
     push_bit 8 (ucast (src ! (i + 2))) OR ucast (src ! (i + 3))"

definition parseMetadataHDRCLL :: "bytes \<Rightarrow> go_err + MetadataHDRCLL" where
  "parseMetadataHDRCLL src =
     (if length src < 4 then Inl ErrMetadataShortPayload
      else case requireTrailing (drop 4 src) of
             Some e \<Rightarrow> Inl e
           | None \<Rightarrow> Inr \<lparr>cll_MaxCLL = be16_at src 0, cll_MaxFALL = be16_at src 2\<rparr>)"

definition parseMetadataHDRMDCV :: "bytes \<Rightarrow> go_err + MetadataHDRMDCV" where
  "parseMetadataHDRMDCV src =
     (if length src < 24 then Inl ErrMetadataShortPayload
      else case requireTrailing (drop 24 src) of
             Some e \<Rightarrow> Inl e
           | None \<Rightarrow> Inr \<lparr>mdcv_PrimaryChromaticityX = map (\<lambda>i. be16_at src (i * 4)) [0..<3],
               mdcv_PrimaryChromaticityY = map (\<lambda>i. be16_at src (i * 4 + 2)) [0..<3],
               mdcv_WhitePointChromaticityX = be16_at src 12, mdcv_WhitePointChromaticityY = be16_at src 14,
               mdcv_LuminanceMax = be32_word src 16, mdcv_LuminanceMin = be32_word src 20\<rparr>)"

primrec readLayerDimensions :: "nat \<Rightarrow> nat \<Rightarrow> ScalabilityStructure \<Rightarrow> ScalabilityStructure rd" where
  "readLayerDimensions 0 i s = rret s"
| "readLayerDimensions (Suc k) i s =
     rbind (ReadBits 16) (\<lambda>w. rbind (ReadBits 16) (\<lambda>h.
     readLayerDimensions k (i + 1) (s\<lparr>ss_SpatialLayerMaxWidth := (ss_SpatialLayerMaxWidth s)[i := ucast w],
       ss_SpatialLayerMaxHeight := (ss_SpatialLayerMaxHeight s)[i := ucast h]\<rparr>)))"

primrec readLayerRefs :: "nat \<Rightarrow> nat \<Rightarrow> ScalabilityStructure \<Rightarrow> ScalabilityStructure rd" where
  "readLayerRefs 0 i s = rret s"
| "readLayerRefs (Suc k) i s =
     rbind (ReadBits 8) (\<lambda>ref. readLayerRefs k (i + 1) (s\<lparr>ss_SpatialLayerRefID := (ss_SpatialLayerRefID s)[i := ucast ref]\<rparr>))"

primrec readRefPicDiffs :: "nat \<Rightarrow> nat \<Rightarrow> ScalabilityTemporalGroupEntry \<Rightarrow> ScalabilityTemporalGroupEntry rd" where
  "readRefPicDiffs 0 j entry = rret entry"
| "readRefPicDiffs (Suc k) j entry =
     rbind (ReadBits 8) (\<lambda>diff. readRefPicDiffs k (j + 1) (entry\<lparr>sge_RefPicDiff := (sge_RefPicDiff entry)[j := ucast diff]\<rparr>))"

definition readTemporalGroupEntry :: "ScalabilityTemporalGroupEntry \<Rightarrow> ScalabilityTemporalGroupEntry rd" where
  "readTemporalGroupEntry entry =
     rbind (ReadBits 3) (\<lambda>tid. let entry = entry\<lparr>sge_TemporalID := ucast tid\<rparr> in
     rbind ReadBool (\<lambda>v. let entry = entry\<lparr>sge_TemporalSwitchingUp := v\<rparr> in
     rbind ReadBool (\<lambda>v. let entry = entry\<lparr>sge_SpatialSwitchingUp := v\<rparr> in
     rbind (ReadBits 3) (\<lambda>refCount. let entry = entry\<lparr>sge_RefCount := ucast refCount\<rparr> in
     readRefPicDiffs (unat (sge_RefCount entry)) 0 entry))))"

primrec readTemporalGroup :: "nat \<Rightarrow> nat \<Rightarrow> ScalabilityStructure \<Rightarrow> ScalabilityStructure rd" where
  "readTemporalGroup 0 i s = rret s"
| "readTemporalGroup (Suc k) i s =
     rbind (readTemporalGroupEntry zero_TemporalGroupEntry) (\<lambda>entry.
     readTemporalGroup k (i + 1) (s\<lparr>ss_TemporalGroup := (ss_TemporalGroup s)[i := entry]\<rparr>))"

definition parseScalabilityStructure :: "ScalabilityStructure rd" where
  "parseScalabilityStructure r =
     rbind (ReadBits 2) (\<lambda>v. let s = zero_ScalabilityStructure\<lparr>ss_SpatialLayersCountMinus1 := ucast v\<rparr> in
     rbind ReadBool (\<lambda>v. let s = s\<lparr>ss_SpatialLayerDimensionsPresent := v\<rparr> in
     rbind ReadBool (\<lambda>v. let s = s\<lparr>ss_SpatialLayerDescriptionPresent := v\<rparr> in
     rbind ReadBool (\<lambda>v. let s = s\<lparr>ss_TemporalGroupDescriptionPresent := v\<rparr> in
     rbind (ReadBits 3) (\<lambda>_.
     let layers = unat (ss_SpatialLayersCountMinus1 s) + 1 in
     rbind (if ss_SpatialLayerDimensionsPresent s then readLayerDimensions layers 0 s else rret s) (\<lambda>s.
     rbind (if ss_SpatialLayerDescriptionPresent s then readLayerRefs layers 0 s else rret s) (\<lambda>s.
     if ss_TemporalGroupDescriptionPresent s then
       rbind (ReadBits 8) (\<lambda>sz. let s = s\<lparr>ss_TemporalGroupSize := ucast sz\<rparr> in
       readTemporalGroup (unat (ss_TemporalGroupSize s)) 0 s)
     else rret s))))))) r"

definition parseMetadataScalability :: "bytes \<Rightarrow> go_err + MetadataScalability" where
  "parseMetadataScalability src = fst (
     rbind (ReadBits 8) (\<lambda>mode. let sc = \<lparr>msc_ModeIDC = ucast mode, msc_Structure = zero_ScalabilityStructure, msc_HasStructure = False\<rparr> in
     rbind (if msc_ModeIDC sc = ScalabilityModeSS
            then rbind parseScalabilityStructure (\<lambda>structure. rret (sc\<lparr>msc_Structure := structure, msc_HasStructure := True\<rparr>))
            else rret sc) (\<lambda>sc.
     rbind ReadTrailingBits (\<lambda>_. rret sc))) (NewReader src))"

text \<open>The optional seconds, minutes and hours of a timecode without full timestamp.\<close>

definition readTimecodeFields :: "MetadataTimecode \<Rightarrow> MetadataTimecode rd" where
  "readTimecodeFields tc =
     rbind ReadBool (\<lambda>secondsFlag. let tc = tc\<lparr>tc_SecondsFlag := secondsFlag\<rparr> in
     if secondsFlag then
       rbind (ReadBits 6) (\<lambda>s. let tc = tc\<lparr>tc_Seconds := ucast s, tc_HasSeconds := True\<rparr> in
       rbind ReadBool (\<lambda>minutesFlag.
       if minutesFlag then
         rbind (ReadBits 6) (\<lambda>m. let tc = tc\<lparr>tc_Minutes := ucast m, tc_HasMinutes := True\<rparr> in
         rbind ReadBool (\<lambda>hoursFlag.
         if hoursFlag then rbind (ReadBits 5) (\<lambda>h. rret (tc\<lparr>tc_Hours := ucast h, tc_HasHours := True\<rparr>))
         else rret tc))
       else rret tc))
     else rret tc)"

definition parseMetadataTimecode :: "bytes \<Rightarrow> go_err + MetadataTimecode" where
  "parseMetadataTimecode src = fst (
     rbind (ReadBits 5) (\<lambda>v. let tc = zero_MetadataTimecode\<lparr>tc_CountingType := ucast v\<rparr> in
     rbind ReadBool (\<lambda>b. let tc = tc\<lparr>tc_FullTimestamp := b\<rparr> in
     rbind ReadBool (\<lambda>b. let tc = tc\<lparr>tc_Discontinuity := b\<rparr> in
     rbind ReadBool (\<lambda>b. let tc = tc\<lparr>tc_CountDropped := b\<rparr> in
     rbind (ReadBits 9) (\<lambda>frames. let tc = tc\<lparr>tc_NFrames := ucast frames\<rparr> in
     rbind (if tc_FullTimestamp tc then
              rbind (ReadBits 6) (\<lambda>s. rbind (ReadBits 6) (\<lambda>m. rbind (ReadBits 5) (\<lambda>h.
              rret (tc\<lparr>tc_Seconds := ucast s, tc_Minutes := ucast m, tc_Hours := ucast h, tc_HasSeconds := True,
                tc_HasMinutes := True, tc_HasHours := True\<rparr>))))
            else readTimecodeFields tc) (\<lambda>tc.
     rbind (ReadBits 5) (\<lambda>offLen. let tc = tc\<lparr>tc_TimeOffsetLength := ucast offLen\<rparr> in
     rbind (if tc_TimeOffsetLength tc > 0
            then rbind (ReadBits (tc_TimeOffsetLength tc)) (\<lambda>v. rret (tc\<lparr>tc_TimeOffsetValue := ucast v\<rparr>))
            else rret tc) (\<lambda>tc.
     rbind ReadTrailingBits (\<lambda>_. rret tc))))))))) (NewReader src))"

definition ParseMetadata :: "bytes \<Rightarrow> Metadata \<times> go_err option" where
  "ParseMetadata payload =
     (if payload = [] then (zero_Metadata, Some ErrMetadataShortPayload)
      else case ReadLEB128 payload of
        Inl e \<Rightarrow> (zero_Metadata, Some e)
      | Inr (value, n) \<Rightarrow>
          let meta = zero_Metadata\<lparr>md_Type := value\<rparr>;
              rest = drop n payload
          in if value = MetadataTypeITUTT35 then
               (case parseMetadataITUTT35 rest of Inl e \<Rightarrow> (meta, Some e) | Inr x \<Rightarrow> (meta\<lparr>md_ITUTT35 := x\<rparr>, None))
             else if value = MetadataTypeHDRCLL then
               (case parseMetadataHDRCLL rest of Inl e \<Rightarrow> (meta, Some e) | Inr x \<Rightarrow> (meta\<lparr>md_HDRCLL := x\<rparr>, None))
             else if value = MetadataTypeHDRMDCV then
               (case parseMetadataHDRMDCV rest of Inl e \<Rightarrow> (meta, Some e) | Inr x \<Rightarrow> (meta\<lparr>md_HDRMDCV := x\<rparr>, None))
             else if value = MetadataTypeScalability then
               (case parseMetadataScalability rest of Inl e \<Rightarrow> (meta, Some e) | Inr x \<Rightarrow> (meta\<lparr>md_Scalability := x\<rparr>, None))
             else if value = MetadataTypeTimecode then
               (case parseMetadataTimecode rest of Inl e \<Rightarrow> (meta, Some e) | Inr x \<Rightarrow> (meta\<lparr>md_Timecode := x\<rparr>, None))
             else if lastNonZero rest = 0 then (meta, Some ErrMetadataInvalidReserved)
             else (meta, None))"

end
