(* ===== verification/Rtp_Payload.thy ===== *)
theory Rtp_Payload
  imports Obu
begin

text \<open>
  The AV1 RTP payload format (\<open>rtp/aggregation.go\<close>, \<open>rtp/payload.go\<close>, \<open>rtp/fragment.go\<close>,
  \<open>rtp/reassemble.go\<close>, \<open>rtp/depacketizer.go\<close>): an aggregation header and OBU elements, of which the
  first may continue an OBU of the packet before and the last may be continued by the packet after.
\<close>

section \<open>The aggregation header\<close>

record AggregationHeader =
  ah_ContinuesPrevious :: bool
  ah_ContinuesNext :: bool
  ah_ElementCount :: u8
  ah_StartsNewCodedVideoSequence :: bool

definition zero_AggregationHeader :: AggregationHeader where
  "zero_AggregationHeader = \<lparr>ah_ContinuesPrevious = False, ah_ContinuesNext = False, ah_ElementCount = 0,
     ah_StartsNewCodedVideoSequence = False\<rparr>"

definition ParseAggregationHeader :: "bytes \<Rightarrow> go_err + AggregationHeader \<times> nat" where
  "ParseAggregationHeader src =
     (if length src < 1 then Inl RtpErrShortPayload
      else
        let b = src ! 0 in
        if b AND 0x07 \<noteq> 0 then Inl RtpErrReservedBit
        else
          let h = \<lparr>ah_ContinuesPrevious = (b AND 0x80 \<noteq> 0), ah_ContinuesNext = (b AND 0x40 \<noteq> 0),
                   ah_ElementCount = drop_bit 4 b AND 0x03, ah_StartsNewCodedVideoSequence = (b AND 0x08 \<noteq> 0)\<rparr>
          in if ah_StartsNewCodedVideoSequence h \<and> ah_ContinuesPrevious h then Inl RtpErrInvalidAggregationHeader
             else Inr (h, 1))"

definition AggregationHeader_Byte :: "AggregationHeader \<Rightarrow> go_err + u8" where
  "AggregationHeader_Byte h =
     (if ah_ElementCount h > 3 then Inl RtpErrInvalidElementCount
      else if ah_StartsNewCodedVideoSequence h \<and> ah_ContinuesPrevious h then Inl RtpErrInvalidAggregationHeader
      else
        let b = 0;
            b = (if ah_ContinuesPrevious h then b OR 0x80 else b);
            b = (if ah_ContinuesNext h then b OR 0x40 else b);
            b = b OR push_bit 4 (ah_ElementCount h);
            b = (if ah_StartsNewCodedVideoSequence h then b OR 0x08 else b)
        in Inr b)"

definition PutAggregationHeader :: "bytes \<Rightarrow> AggregationHeader \<Rightarrow> (go_err + nat) \<times> bytes" where
  "PutAggregationHeader dst h =
     (if length dst < 1 then (Inl RtpErrShortBuffer, dst)
      else case AggregationHeader_Byte h of Inl e \<Rightarrow> (Inl e, dst) | Inr b \<Rightarrow> (Inr 1, dst[0 := b]))"

section \<open>Elements\<close>

record Element =
  el_Data :: bytes
  el_Index :: nat
  el_ContinuesPrevious :: bool
  el_ContinuesNext :: bool
  el_InferredLastLength :: bool

definition fragmented :: "Element \<Rightarrow> bool" where
  "fragmented e \<longleftrightarrow> el_ContinuesPrevious e \<or> el_ContinuesNext e"

record RtpIterator =
  ri_payload :: bytes
  ri_header :: AggregationHeader
  ri_off :: nat
  ri_index :: nat
  ri_done :: bool

definition rtp_NewIterator :: "bytes \<Rightarrow> go_err + RtpIterator" where
  "rtp_NewIterator payload =
     (case ParseAggregationHeader payload of
        Inl e \<Rightarrow> Inl e
      | Inr (header, n) \<Rightarrow>
          if n = length payload \<and> ah_ElementCount header \<noteq> 1 then Inl RtpErrInvalidElementCount
          else Inr \<lparr>ri_payload = payload, ri_header = header, ri_off = n, ri_index = 0, ri_done = False\<rparr>)"

text \<open>The bytes of the next element, from the current offset on: its data, the offset after it, and whether it is the last.\<close>

definition rtp_next_data :: "RtpIterator \<Rightarrow> go_err + bytes \<times> nat \<times> bool" where
  "rtp_next_data it =
     (let cnt = unat (ah_ElementCount (ri_header it)) in
      if cnt \<noteq> 0 \<and> ri_index it = cnt - 1 then Inr (drop (ri_off it) (ri_payload it), length (ri_payload it), True)
      else case ReadLEB128 (drop (ri_off it) (ri_payload it)) of
        Inl e \<Rightarrow> Inl e
      | Inr (sz, sizeLen) \<Rightarrow>
          let start = ri_off it + sizeLen; lim = start + unat sz in
          if lim > length (ri_payload it) then Inl RtpErrShortPayload
          else Inr (take (unat sz) (drop start (ri_payload it)), lim, False))"

definition rtp_Next :: "RtpIterator \<Rightarrow> (go_err + Element option) \<times> RtpIterator" where
  "rtp_Next it =
     (if ri_done it then (Inr None, it)
      else if ri_off it \<ge> length (ri_payload it) then
        (if ri_index it = 0 \<and> ah_ElementCount (ri_header it) = 1 then
           let elem = \<lparr>el_Data = [], el_Index = 0, el_ContinuesPrevious = ah_ContinuesPrevious (ri_header it),
                       el_ContinuesNext = ah_ContinuesNext (ri_header it), el_InferredLastLength = True\<rparr>;
               it = it\<lparr>ri_done := True, ri_index := ri_index it + 1\<rparr>
           in if \<not> fragmented elem then (Inl RtpErrZeroLengthElement, it) else (Inr (Some elem), it)
         else (Inr None, it\<lparr>ri_done := True\<rparr>))
      else
        let index = ri_index it; cnt = unat (ah_ElementCount (ri_header it)) in
        if cnt \<noteq> 0 \<and> index \<ge> cnt then (Inl RtpErrInvalidElementCount, it)
        else case rtp_next_data it of
          Inl e \<Rightarrow> (Inl e, it)
        | Inr (data, off, inferred) \<Rightarrow>
            let it = it\<lparr>ri_off := off, ri_done := inferred \<or> (cnt = 0 \<and> off = length (ri_payload it))\<rparr>;
                elem = \<lparr>el_Data = data, el_Index = index,
                        el_ContinuesPrevious = (ah_ContinuesPrevious (ri_header it) \<and> index = 0),
                        el_ContinuesNext = (ah_ContinuesNext (ri_header it) \<and> off = length (ri_payload it)),
                        el_InferredLastLength = inferred\<rparr>
            in if data = [] \<and> \<not> fragmented elem then (Inl RtpErrZeroLengthElement, it)
               else (Inr (Some elem), it\<lparr>ri_index := index + 1\<rparr>))"

text \<open>What an iterator still has to look at: the bytes after its offset, or one item for an empty payload.\<close>

definition rtp_left :: "RtpIterator \<Rightarrow> bytes" where
  "rtp_left it =
     (if ri_done it then []
      else if ri_off it < length (ri_payload it) then drop (ri_off it) (ri_payload it)
      else if ri_index it = 0 \<and> ah_ElementCount (ri_header it) = 1 then [0] else [])"

lemma rtp_next_data_progress:
  "rtp_next_data it = Inr (data, off, inferred) \<Longrightarrow> ri_off it < length (ri_payload it) \<Longrightarrow>
     ri_off it < off \<and> off \<le> length (ri_payload it)"
  unfolding rtp_next_data_def Let_def
  by (auto dest: ReadLEB128_ok_bounds split: if_splits sum.splits prod.splits)

lemma rtp_Next_less:
  "rtp_Next it = (Inr (Some e), it') \<Longrightarrow> length (rtp_left it') < length (rtp_left it)"
  unfolding rtp_Next_def Let_def rtp_left_def
  by (auto split: if_splits sum.splits prod.splits dest!: rtp_next_data_progress)

interpretation rtp: stream_iterator rtp_Next rtp_left "\<lambda>_. True"
proof unfold_locales
  show "rtp_Next it = (Inr (Some u), it') \<Longrightarrow> True \<and> length (rtp_left it') < length (rtp_left it)" for it u it'
    using rtp_Next_less by blast
  show "rtp_Next it = (Inr None, it') \<Longrightarrow> rtp_left it = []" for it it'
    unfolding rtp_Next_def Let_def rtp_left_def by (auto split: if_splits sum.splits prod.splits)
qed

text \<open>\<open>copy(dst[off:], data)\<close> for data that fits.\<close>

definition put_at :: "bytes \<Rightarrow> nat \<Rightarrow> bytes \<Rightarrow> bytes" where
  "put_at dst off data = take off dst @ data @ drop (off + length data) dst"

text \<open>The loop of \<open>PutPayload\<close>, with \<open>i\<close> elements written.\<close>

fun PutPayload_loop :: "AggregationHeader \<Rightarrow> nat \<Rightarrow> nat \<Rightarrow> bytes \<Rightarrow> nat \<Rightarrow> Element list \<Rightarrow> (go_err + nat) \<times> bytes" where
  "PutPayload_loop header n i dst off [] = (Inr off, dst)"
| "PutPayload_loop header n i dst off (e # es) =
     (let data = el_Data e;
          fragmented = (ah_ContinuesPrevious header \<and> i = 0) \<or> (ah_ContinuesNext header \<and> i = n - 1);
          writeLength = (ah_ElementCount header = 0 \<or> i \<noteq> n - 1)
      in if data = [] \<and> \<not> fragmented then (Inl RtpErrZeroLengthElement, dst)
         else
           let (r, dst) = (if writeLength
                           then let (r, tail) = PutLEB128 (drop off dst) (word_of_nat (length data)) in (r, take off dst @ tail)
                           else (Inr 0, dst))
           in case r of
                Inl e \<Rightarrow> (Inl e, dst)
              | Inr k \<Rightarrow>
                  let off = off + k in
                  if length dst - off < length data then (Inl RtpErrShortBuffer, dst)
                  else PutPayload_loop header n (i + 1) (put_at dst off data) (off + length data) es)"

definition PutPayload :: "bytes \<Rightarrow> AggregationHeader \<Rightarrow> Element list \<Rightarrow> (go_err + nat) \<times> bytes" where
  "PutPayload dst header elements =
     (if elements = [] then (Inl RtpErrInvalidElementCount, dst)
      else if ah_ElementCount header \<noteq> 0 \<and> unat (ah_ElementCount header) \<noteq> length elements then (Inl RtpErrInvalidElementCount, dst)
      else case PutAggregationHeader dst header of
        (Inl e, dst) \<Rightarrow> (Inl e, dst)
      | (Inr off, dst) \<Rightarrow> PutPayload_loop header (length elements) 0 dst off elements)"

definition PutFragment :: "bytes \<Rightarrow> bytes \<Rightarrow> int \<Rightarrow> int \<Rightarrow> bool \<Rightarrow> (go_err + nat \<times> int \<times> bool) \<times> bytes" where
  "PutFragment dst obu offset mtu startsNew =
     (if mtu < 2 \<or> int (length dst) < mtu then (Inl RtpErrMTUTooSmall, dst)
      else if offset < 0 \<or> offset \<ge> int (length obu) then (Inl RtpErrShortPayload, dst)
      else
        let maxData = mtu - 1;
            remaining = int (length obu) - offset;
            payloadLen = min remaining maxData;
            nextOffset = offset + payloadLen;
            more = nextOffset < int (length obu);
            header = \<lparr>ah_ContinuesPrevious = (offset > 0), ah_ContinuesNext = more, ah_ElementCount = 1,
                      ah_StartsNewCodedVideoSequence = (startsNew \<and> offset = 0)\<rparr>
        in case PutAggregationHeader dst header of
             (Inl e, dst) \<Rightarrow> (Inl e, dst)
           | (Inr n, dst) \<Rightarrow>
               (Inr (1 + nat payloadLen, nextOffset, more), put_at dst 1 (take (nat payloadLen) (drop (nat offset) obu))))"

section \<open>Reassembly\<close>

record FragmentReassembler =
  fr_active :: bool
  fr_n :: nat

definition FragmentReassembler_Reset :: FragmentReassembler where
  "FragmentReassembler_Reset = \<lparr>fr_active = False, fr_n = 0\<rparr>"

definition FragmentReassembler_Push ::
    "FragmentReassembler \<Rightarrow> bytes \<Rightarrow> Element \<Rightarrow> (go_err + nat \<times> bool) \<times> FragmentReassembler \<times> bytes" where
  "FragmentReassembler_Push r dst elem =
     (if el_ContinuesPrevious elem \<and> \<not> fr_active r then (Inl RtpErrUnexpectedContinuation, r, dst)
      else if \<not> el_ContinuesPrevious elem \<and> fr_active r then (Inl RtpErrFragmentInterrupted, r, dst)
      else if int (length dst) - int (fr_n r) < int (length (el_Data elem)) then (Inl RtpErrShortBuffer, r, dst)
      else
        let dst = put_at dst (fr_n r) (el_Data elem);
            r = r\<lparr>fr_n := fr_n r + length (el_Data elem)\<rparr>
        in if el_ContinuesNext elem then (Inr (fr_n r, False), r\<lparr>fr_active := True\<rparr>, dst)
           else (Inr (fr_n r, True), FragmentReassembler_Reset, dst))"

record OBUSpan =
  os_Offset :: nat
  os_Length :: nat
  os_Fragmented :: bool
  os_NewSequence :: bool

record Depacketizer =
  dp_inFragment :: bool
  dp_fragmentStart :: nat

definition Depacketizer_Reset :: Depacketizer where
  "Depacketizer_Reset = \<lparr>dp_inFragment = False, dp_fragmentStart = 0\<rparr>"

text \<open>
  The state of one \<open>push\<close>: the depacketizer, the caller's buffer and spans, the bytes used and the spans written.
  When only the sizes are wanted, nothing is written.
\<close>

record PushState =
  ps_d :: Depacketizer
  ps_dst :: bytes
  ps_used :: nat
  ps_spans :: "OBUSpan list"
  ps_count :: nat

definition push_element :: "bool \<Rightarrow> AggregationHeader \<Rightarrow> Element \<Rightarrow> PushState \<Rightarrow> go_err option \<times> PushState" where
  "push_element sizing header elem s =
     (if el_ContinuesPrevious elem \<and> \<not> dp_inFragment (ps_d s) then (Some RtpErrUnexpectedContinuation, s)
      else if \<not> el_ContinuesPrevious elem \<and> dp_inFragment (ps_d s) then (Some RtpErrFragmentInterrupted, s)
      else
        let start = (if el_ContinuesPrevious elem then dp_fragmentStart (ps_d s) else ps_used s) in
        if \<not> sizing \<and> int (length (ps_dst s)) - int (ps_used s) < int (length (el_Data elem)) then (Some RtpErrShortBuffer, s)
        else if sizing \<and> int (ps_used s) > 0x7fffffffffffffff - int (length (el_Data elem)) then (Some RtpErrShortBuffer, s)
        else
          let s = s\<lparr>ps_dst := if sizing then ps_dst s else put_at (ps_dst s) (ps_used s) (el_Data elem),
                    ps_used := ps_used s + length (el_Data elem)\<rparr>
          in if el_ContinuesNext elem then
               (None, if dp_inFragment (ps_d s) then s else s\<lparr>ps_d := \<lparr>dp_inFragment = True, dp_fragmentStart = start\<rparr>\<rparr>)
             else
               let fragmented = dp_inFragment (ps_d s) \<or> el_ContinuesPrevious elem;
                   s = s\<lparr>ps_d := (ps_d s)\<lparr>dp_inFragment := False\<rparr>\<rparr>
               in if \<not> sizing \<and> ps_count s \<ge> length (ps_spans s) then (Some RtpErrShortBuffer, s)
                  else (None, s\<lparr>ps_spans := if sizing then ps_spans s
                                  else (ps_spans s)[ps_count s := \<lparr>os_Offset = start, os_Length = ps_used s - start,
                                    os_Fragmented = fragmented, os_NewSequence = ah_StartsNewCodedVideoSequence header \<and> el_Index elem = 0\<rparr>],
                                ps_count := ps_count s + 1\<rparr>))"

function push_loop :: "bool \<Rightarrow> RtpIterator \<Rightarrow> PushState \<Rightarrow> go_err option \<times> PushState" where
  "push_loop sizing it s =
     (case rtp_Next it of
        (Inl e, it') \<Rightarrow> (Some e, s)
      | (Inr None, it') \<Rightarrow> (None, s)
      | (Inr (Some elem), it') \<Rightarrow>
          (case push_element sizing (ri_header it) elem s of
             (Some e, s) \<Rightarrow> (Some e, s)
           | (None, s) \<Rightarrow> push_loop sizing it' s))"
  by pat_completeness auto
termination
  by (relation "measure (\<lambda>(sizing, it, s). length (rtp_left it))") (auto dest: rtp_Next_less [OF sym])

declare push_loop.simps [simp del]

text \<open>The result of \<open>push\<close>: \<open>newUsed\<close>, \<open>spanCount\<close>, the header and the error, and what the call has written.\<close>

record PushResult =
  pr_newUsed :: int
  pr_spanCount :: nat
  pr_header :: AggregationHeader
  pr_err :: "go_err option"
  pr_d :: Depacketizer
  pr_dst :: bytes
  pr_spans :: "OBUSpan list"

definition push :: "Depacketizer \<Rightarrow> bytes \<Rightarrow> int \<Rightarrow> OBUSpan list \<Rightarrow> bytes \<Rightarrow> bool \<Rightarrow> PushResult" where
  "push d dst used spans payload sizing =
     (let fail = (\<lambda>e. \<lparr>pr_newUsed = used, pr_spanCount = 0, pr_header = zero_AggregationHeader, pr_err = Some e,
                       pr_d = d, pr_dst = dst, pr_spans = spans\<rparr>) in
      if used < 0 \<or> (\<not> sizing \<and> used > int (length dst)) then fail RtpErrShortBuffer
      else case rtp_NewIterator payload of
        Inl e \<Rightarrow> fail e
      | Inr it \<Rightarrow>
          (case push_loop sizing it \<lparr>ps_d = d, ps_dst = dst, ps_used = nat used, ps_spans = spans, ps_count = 0\<rparr> of
             (err, s) \<Rightarrow> \<lparr>pr_newUsed = int (ps_used s), pr_spanCount = ps_count s, pr_header = ri_header it, pr_err = err,
                pr_d = ps_d s, pr_dst = ps_dst s, pr_spans = ps_spans s\<rparr>))"

definition Depacketizer_PushSize :: "Depacketizer \<Rightarrow> int \<Rightarrow> bytes \<Rightarrow> int \<times> nat \<times> AggregationHeader \<times> go_err option" where
  "Depacketizer_PushSize d used payload =
     (let r = push d [] used [] payload True in (pr_newUsed r, pr_spanCount r, pr_header r, pr_err r))"

definition Depacketizer_Push :: "Depacketizer \<Rightarrow> bytes \<Rightarrow> int \<Rightarrow> OBUSpan list \<Rightarrow> bytes \<Rightarrow> PushResult" where
  "Depacketizer_Push d dst used spans payload = push d dst used spans payload False"

section \<open>What a payload holds\<close>

lemma u8_le_3: "x \<le> 3 \<Longrightarrow> x = 0 \<or> x = 1 \<or> x = 2 \<or> x = (3 :: u8)"
proof -
  assume "x \<le> 3"
  then have "unat x = 0 \<or> unat x = 1 \<or> unat x = 2 \<or> unat x = 3" by (auto simp: word_le_nat_alt)
  then show ?thesis by (auto simp: word_unat_eq_iff)
qed

lemma AggregationHeader_Byte_parse:
  assumes "AggregationHeader_Byte h = Inr b"
  shows "ParseAggregationHeader (b # rest) = Inr (h, 1)"
proof -
  obtain cp cn w sn where h: "h = \<lparr>ah_ContinuesPrevious = cp, ah_ContinuesNext = cn, ah_ElementCount = w, ah_StartsNewCodedVideoSequence = sn\<rparr>"
    by (cases h)
  have w: "w = 0 \<or> w = 1 \<or> w = 2 \<or> w = 3" and ok: "\<not> (sn \<and> cp)"
    using assms u8_le_3 [of w] by (auto simp: AggregationHeader_Byte_def h not_less split: if_splits)
  have b: "b = (if cp then 0x80 else 0) OR (if cn then 0x40 else 0) OR push_bit 4 w OR (if sn then 0x08 else 0)"
    using assms by (auto simp: AggregationHeader_Byte_def h Let_def or.assoc split: if_splits)
  show ?thesis
    using w ok unfolding b h ParseAggregationHeader_def Let_def
    by (cases cp; cases cn; cases sn) (auto simp: push_bit_eq_mult)
qed

text \<open>The bytes of the elements: each after its length, where the header does not let the last one omit it.\<close>

fun element_bytes :: "bool \<Rightarrow> bytes list \<Rightarrow> bytes" where
  "element_bytes sized [] = []"
| "element_bytes sized (d # ds) =
     (if sized \<or> ds \<noteq> [] then leb128 (word_of_nat (length d)) else []) @ d @ element_bytes sized ds"

text \<open>The elements of a payload with the given header and data, from index \<open>i\<close> on.\<close>

fun elements_from :: "AggregationHeader \<Rightarrow> nat \<Rightarrow> bytes list \<Rightarrow> Element list" where
  "elements_from h i [] = []"
| "elements_from h i (d # ds) =
     \<lparr>el_Data = d, el_Index = i, el_ContinuesPrevious = (ah_ContinuesPrevious h \<and> i = 0),
      el_ContinuesNext = (ah_ContinuesNext h \<and> ds = []),
      el_InferredLastLength = (ah_ElementCount h \<noteq> 0 \<and> ds = [])\<rparr> # elements_from h (i + 1) ds"

definition payload_ok :: "AggregationHeader \<Rightarrow> bytes list \<Rightarrow> bool" where
  "payload_ok h ds \<longleftrightarrow> (\<forall>d \<in> set ds. d \<noteq> [] \<and> length d < 2 ^ 32)"

lemma element_bytes_eq_Nil: "\<forall>d \<in> set ds. d \<noteq> [] \<Longrightarrow> element_bytes sized ds = [] \<longleftrightarrow> ds = []"
  by (cases ds) auto

lemma rtp_next_data_element:
  assumes "drop (ri_off it) (ri_payload it) = element_bytes (ah_ElementCount (ri_header it) = 0) (d # ds)"
    "length d < 2 ^ 32" "ah_ElementCount (ri_header it) \<noteq> 0 \<Longrightarrow> ri_index it + length (d # ds) = unat (ah_ElementCount (ri_header it))"
  shows "\<exists>off. rtp_next_data it = Inr (d, off, ah_ElementCount (ri_header it) \<noteq> 0 \<and> ds = []) \<and>
    off \<le> length (ri_payload it) \<and> drop off (ri_payload it) = element_bytes (ah_ElementCount (ri_header it) = 0) ds"
proof (cases "ah_ElementCount (ri_header it) \<noteq> 0 \<and> ds = []")
  case True
  then show ?thesis using assms(1,3) by (intro exI [of _ "length (ri_payload it)"]) (auto simp: rtp_next_data_def Let_def)
next
  case False
  let ?n = "length (leb128 (word_of_nat (length d)))"
  have u: "unat (word_of_nat (length d) :: u32) = length d" using assms(2) by (rule unat_of_nat_u32)
  have l: "drop (ri_off it) (ri_payload it) = leb128 (word_of_nat (length d)) @ d @ element_bytes (ah_ElementCount (ri_header it) = 0) ds"
    using assms(1) False by auto
  have len: "ri_off it + ?n + length d \<le> length (ri_payload it)" 
    using arg_cong [OF l, of length] length_leb128_pos [of "word_of_nat (length d)"] unfolding length_drop length_append by linarith
  have rest: "drop (ri_off it + ?n) (ri_payload it) = d @ element_bytes (ah_ElementCount (ri_header it) = 0) ds"
    using arg_cong [OF l, of "drop ?n"] by (simp add: add.commute)
  have "drop (ri_off it + ?n + length d) (ri_payload it) = element_bytes (ah_ElementCount (ri_header it) = 0) ds"
    using arg_cong [OF rest, of "drop (length d)"] by (simp add: ac_simps)
  moreover have "\<not> (ah_ElementCount (ri_header it) \<noteq> 0 \<and> ri_index it = unat (ah_ElementCount (ri_header it)) - 1)"
    using False assms(3) by (cases ds) auto
  ultimately show ?thesis
    using len rest u ReadLEB128_leb128 [of "word_of_nat (length d)" "d @ element_bytes (ah_ElementCount (ri_header it) = 0) ds"] l
    by (intro exI [of _ "ri_off it + ?n + length d"]) (auto simp: rtp_next_data_def Let_def False)
qed

lemma rtp_drain_elements:
  assumes "\<not> ri_done it \<or> ds = []" "drop (ri_off it) (ri_payload it) = element_bytes (ah_ElementCount (ri_header it) = 0) ds"
    "\<forall>d \<in> set ds. d \<noteq> [] \<and> length d < 2 ^ 32" "length ds < fuel" "ri_off it \<le> length (ri_payload it)"
    "ah_ElementCount (ri_header it) \<noteq> 0 \<longrightarrow> ri_index it + length ds = unat (ah_ElementCount (ri_header it))"
    "ds = [] \<longrightarrow> 0 < ri_index it"
  shows "drain rtp_Next fuel it = Some (elements_from (ri_header it) (ri_index it) ds, None)"
  using assms
proof (induction ds arbitrary: it fuel)
  case Nil
  then obtain k where "fuel = Suc k" by (cases fuel) auto
  then show ?case using Nil by (auto simp: rtp_Next_def)
next
  case (Cons d ds)
  obtain k where k: "fuel = Suc k" using Cons.prems(4) by (cases fuel) auto
  have d: "d \<noteq> []" "length d < 2 ^ 32" using Cons.prems(3) by auto
  let ?w = "ah_ElementCount (ri_header it)"
  obtain off where n: "rtp_next_data it = Inr (d, off, ?w \<noteq> 0 \<and> ds = [])" "off \<le> length (ri_payload it)"
      "drop off (ri_payload it) = element_bytes (?w = 0) ds"
    using rtp_next_data_element [OF Cons.prems(2) d(2)] Cons.prems(6) by auto
  have at: "off = length (ri_payload it) \<longleftrightarrow> ds = []"
  proof -
    have "off = length (ri_payload it) \<longleftrightarrow> drop off (ri_payload it) = []" using n(2) by auto
    then show ?thesis using n(3) element_bytes_eq_Nil [of ds "?w = 0"] Cons.prems(3) by simp
  qed
  have lt: "ri_off it < length (ri_payload it)"
    using Cons.prems(2) d(1) by (metis append_is_Nil_conv drop_all element_bytes.simps(2) not_le_imp_less)
  let ?it = "it\<lparr>ri_off := off, ri_done := (?w \<noteq> 0 \<and> ds = []) \<or> (?w = 0 \<and> ds = []), ri_index := ri_index it + 1\<rparr>"
  have nx: "rtp_Next it = (Inr (Some (hd (elements_from (ri_header it) (ri_index it) (d # ds)))), ?it)"
    using Cons.prems(1,6) lt n(1) at d(1) by (cases "?w = 0") (auto simp: rtp_Next_def Let_def)
  have "drain rtp_Next k ?it = Some (elements_from (ri_header ?it) (ri_index ?it) ds, None)"
    using Cons.prems k n by (intro Cons.IH) auto
  then show ?case using nx k by simp
qed

section \<open>Depacketizing joins the fragments\<close>

text \<open>
  The specification: the state is the part of an OBU whose next fragment is still to come, if there is one; an element
  that continues it is appended, and an OBU is complete when its last element is not continued.
\<close>

fun join_elements :: "bytes option \<Rightarrow> Element list \<Rightarrow> go_err + bytes list \<times> bytes option" where
  "join_elements p [] = Inr ([], p)"
| "join_elements p (e # es) =
     (if el_ContinuesPrevious e \<and> p = None then Inl RtpErrUnexpectedContinuation
      else if \<not> el_ContinuesPrevious e \<and> p \<noteq> None then Inl RtpErrFragmentInterrupted
      else
        let data = (case p of None \<Rightarrow> [] | Some b \<Rightarrow> b) @ el_Data e in
        if el_ContinuesNext e then join_elements (Some data) es
        else case join_elements None es of Inl x \<Rightarrow> Inl x | Inr (us, q) \<Rightarrow> Inr (data # us, q))"

fun push_elements :: "bool \<Rightarrow> AggregationHeader \<Rightarrow> Element list \<Rightarrow> PushState \<Rightarrow> go_err option \<times> PushState" where
  "push_elements sizing h [] s = (None, s)"
| "push_elements sizing h (e # es) s =
     (case push_element sizing h e s of (Some x, s) \<Rightarrow> (Some x, s) | (None, s) \<Rightarrow> push_elements sizing h es s)"

lemma rtp_Next_header: "rtp_Next it = (x, it') \<Longrightarrow> ri_header it' = ri_header it \<and> ri_payload it' = ri_payload it"
  unfolding rtp_Next_def Let_def by (auto split: if_splits sum.splits prod.splits)

lemma push_loop_drain:
  assumes "drain rtp_Next fuel it = Some (es, err)"
  shows "push_loop sizing it s =
    (case push_elements sizing (ri_header it) es s of (None, s) \<Rightarrow> (err, s) | (Some x, s) \<Rightarrow> (Some x, s))"
  using assms
proof (induction fuel arbitrary: it es s)
  case (Suc fuel)
  obtain x it' where n: "rtp_Next it = (x, it')" by (cases "rtp_Next it")
  note h = rtp_Next_header [OF n]
  show ?case
  proof (cases x)
    case (Inl e)
    then show ?thesis using Suc.prems n by (subst push_loop.simps) simp
  next
    case (Inr r)
    show ?thesis
    proof (cases r)
      case None
      then show ?thesis using Suc.prems n Inr by (subst push_loop.simps) simp
    next
      case (Some e)
      then obtain es' where es: "drain rtp_Next fuel it' = Some (es', err)" "es = e # es'"
        using Suc.prems n Inr by (auto split: option.splits)
      obtain y s' where p: "push_element sizing (ri_header it) e s = (y, s')" by (cases "push_element sizing (ri_header it) e s")
      show ?thesis using Suc.IH [OF es(1), of s'] n Inr Some es(2) p h by (subst push_loop.simps) (simp split: option.splits)
    qed
  qed
qed simp

definition span_data :: "bytes \<Rightarrow> OBUSpan \<Rightarrow> bytes" where
  "span_data dst sp = take (os_Length sp) (drop (os_Offset sp) dst)"

definition dp_pending :: "Depacketizer \<Rightarrow> bytes \<Rightarrow> nat \<Rightarrow> bytes option" where
  "dp_pending d dst used = (if dp_inFragment d then Some (drop (dp_fragmentStart d) (take used dst)) else None)"

definition ps_inv :: "PushState \<Rightarrow> bool" where
  "ps_inv s \<longleftrightarrow> ps_used s \<le> length (ps_dst s) \<and> (dp_inFragment (ps_d s) \<longrightarrow> dp_fragmentStart (ps_d s) \<le> ps_used s) \<and>
     ps_count s \<le> length (ps_spans s) \<and> (\<forall>sp \<in> set (take (ps_count s) (ps_spans s)). os_Offset sp + os_Length sp \<le> ps_used s)"

definition ps_out :: "PushState \<Rightarrow> bytes list" where
  "ps_out s = map (span_data (ps_dst s)) (take (ps_count s) (ps_spans s))"

abbreviation ps_pending :: "PushState \<Rightarrow> bytes option" where
  "ps_pending s \<equiv> dp_pending (ps_d s) (ps_dst s) (ps_used s)"

lemma length_put_at [simp]: "off + length data \<le> length dst \<Longrightarrow> length (put_at dst off data) = length dst"
  by (simp add: put_at_def)

lemma take_put_at:
  "off + length data \<le> length dst \<Longrightarrow> take (off + length data) (put_at dst off data) = take off dst @ data"
  by (simp add: put_at_def)

lemma span_data_put_at:
  assumes "os_Offset sp + os_Length sp \<le> off" "off \<le> length dst"
  shows "span_data (put_at dst off data) sp = span_data dst sp"
proof -
  have "take (os_Length sp) (drop (os_Offset sp) xs) = drop (os_Offset sp) (take (os_Offset sp + os_Length sp) xs)" for xs :: bytes
    by (simp add: drop_take)
  then show ?thesis using assms by (simp add: span_data_def put_at_def min_def)
qed

text \<open>One element, with room for its bytes and its span.\<close>

lemma push_element_joins:
  assumes "ps_inv s" "ps_used s + length (el_Data e) \<le> length (ps_dst s)" "ps_count s < length (ps_spans s)"
  shows "case join_elements (ps_pending s) [e] of
      Inl x \<Rightarrow> push_element False h e s = (Some x, s)
    | Inr (us, p) \<Rightarrow> \<exists>s'. push_element False h e s = (None, s') \<and> ps_inv s' \<and> ps_pending s' = p \<and> ps_out s' = ps_out s @ us \<and>
        ps_used s' = ps_used s + length (el_Data e) \<and> length (ps_dst s') = length (ps_dst s) \<and>
        length (ps_spans s') = length (ps_spans s) \<and> ps_count s' \<le> ps_count s + 1"
proof -
  let ?d = "ps_d s" and ?dst = "put_at (ps_dst s) (ps_used s) (el_Data e)" and ?u = "ps_used s + length (el_Data e)"
  have tk: "take ?u ?dst = take (ps_used s) (ps_dst s) @ el_Data e" using assms(2) by (rule take_put_at)
  have inv: "ps_used s \<le> length (ps_dst s)" "dp_inFragment ?d \<Longrightarrow> dp_fragmentStart ?d \<le> ps_used s"
    "\<forall>sp \<in> set (take (ps_count s) (ps_spans s)). os_Offset sp + os_Length sp \<le> ps_used s"
    using assms(1) by (auto simp: ps_inv_def)
  have out: "map (span_data ?dst) (take (ps_count s) (ps_spans s)) = ps_out s"
    unfolding ps_out_def using inv(1,3) by (simp add: span_data_put_at)
  have upd: "take (Suc (ps_count s)) ((ps_spans s)[ps_count s := sp]) = take (ps_count s) (ps_spans s) @ [sp]" for sp
    using assms(3) by (simp add: take_Suc_conv_app_nth)
  let ?start = "if el_ContinuesPrevious e then dp_fragmentStart ?d else ps_used s"
  have cut: "take (?u - st) (drop st ?dst) = drop st (take (ps_used s) (ps_dst s)) @ el_Data e" if "st \<le> ps_used s" for st
  proof -
    have "take (?u - st) (drop st ?dst) = drop st (take ?u ?dst)" by (simp add: drop_take)
    then show ?thesis using that inv(1) by (simp add: tk)
  qed
  show ?thesis
  proof (cases "el_ContinuesPrevious e \<longleftrightarrow> dp_inFragment ?d")
    case False
    then show ?thesis by (auto simp: dp_pending_def push_element_def)
  next
    case True
    have st: "?start \<le> ps_used s" using True inv(2) by auto
    show ?thesis
    proof (cases "el_ContinuesNext e")
      case next': True
      then show ?thesis
        using True assms inv st tk out
        by (auto simp: dp_pending_def push_element_def Let_def ps_inv_def ps_out_def dest: bspec)
    next
      case False
      then show ?thesis
        using True assms inv st tk out upd cut [OF st]
        by (auto simp: dp_pending_def push_element_def Let_def ps_inv_def ps_out_def span_data_def dest: bspec)
    qed
  qed
qed

lemma join_elements_Cons:
  "join_elements p (e # es) = (case join_elements p [e] of
     Inl x \<Rightarrow> Inl x
   | Inr (us, q) \<Rightarrow> (case join_elements q es of Inl x \<Rightarrow> Inl x | Inr (vs, r) \<Rightarrow> Inr (us @ vs, r)))"
  by (auto simp: Let_def split: sum.splits prod.splits option.splits)

abbreviation data_size :: "Element list \<Rightarrow> nat" where
  "data_size es \<equiv> sum_list (map (\<lambda>e. length (el_Data e)) es)"

lemma push_elements_joins:
  assumes "ps_inv s" "ps_used s + data_size es \<le> length (ps_dst s)" "ps_count s + length es \<le> length (ps_spans s)"
  shows "case join_elements (ps_pending s) es of
      Inl x \<Rightarrow> fst (push_elements False h es s) = Some x
    | Inr (us, p) \<Rightarrow> \<exists>s'. push_elements False h es s = (None, s') \<and> ps_inv s' \<and> ps_pending s' = p \<and> ps_out s' = ps_out s @ us \<and>
        ps_used s' = ps_used s + data_size es \<and> length (ps_dst s') = length (ps_dst s) \<and>
        length (ps_spans s') = length (ps_spans s)"
  using assms
proof (induction es arbitrary: s)
  case (Cons e es)
  have one: "case join_elements (ps_pending s) [e] of
      Inl x \<Rightarrow> push_element False h e s = (Some x, s)
    | Inr (us, p) \<Rightarrow> \<exists>s'. push_element False h e s = (None, s') \<and> ps_inv s' \<and> ps_pending s' = p \<and> ps_out s' = ps_out s @ us \<and>
        ps_used s' = ps_used s + length (el_Data e) \<and> length (ps_dst s') = length (ps_dst s) \<and>
        length (ps_spans s') = length (ps_spans s) \<and> ps_count s' \<le> ps_count s + 1"
    using Cons.prems by (intro push_element_joins) auto
  show ?case
  proof (cases "join_elements (ps_pending s) [e]")
    case (Inl x)
    then show ?thesis using one by (subst join_elements_Cons) simp
  next
    case (Inr b)
    obtain us p where b: "b = (us, p)" by (cases b)
    obtain s1 where s1: "push_element False h e s = (None, s1)" "ps_inv s1" "ps_pending s1 = p" "ps_out s1 = ps_out s @ us"
        "ps_used s1 = ps_used s + length (el_Data e)" "length (ps_dst s1) = length (ps_dst s)"
        "length (ps_spans s1) = length (ps_spans s)" "ps_count s1 \<le> ps_count s + 1"
      using one unfolding Inr b by auto
    have IH: "case join_elements p es of
        Inl x \<Rightarrow> fst (push_elements False h es s1) = Some x
      | Inr (vs, q) \<Rightarrow> \<exists>s'. push_elements False h es s1 = (None, s') \<and> ps_inv s' \<and> ps_pending s' = q \<and> ps_out s' = ps_out s1 @ vs \<and>
          ps_used s' = ps_used s1 + data_size es \<and> length (ps_dst s') = length (ps_dst s1) \<and> length (ps_spans s') = length (ps_spans s1)"
      using Cons.IH [of s1] Cons.prems s1 by simp
    show ?thesis
    proof (cases "join_elements p es")
      case x: (Inl x)
      then show ?thesis using IH Inr b s1(1) by (subst join_elements_Cons) simp
    next
      case c: (Inr c)
      obtain vs q where "c = (vs, q)" by (cases c)
      then show ?thesis using IH Inr b c s1 by (subst join_elements_Cons) (auto simp: add.assoc)
    qed
  qed
qed simp

text \<open>The elements of a payload are no longer than the payload, and there are no more of them than it has bytes.\<close>

lemma rtp_next_data_size:
  "rtp_next_data it = Inr (data, off, inferred) \<Longrightarrow> ri_off it < length (ri_payload it) \<Longrightarrow>
     length data + ri_off it \<le> off \<and> off \<le> length (ri_payload it)"
  unfolding rtp_next_data_def Let_def by (auto split: if_splits sum.splits prod.splits)

lemma rtp_Next_size:
  assumes "rtp_Next it = (Inr (Some e), it')"
  shows "length (el_Data e) + (length (ri_payload it') - ri_off it') \<le> length (ri_payload it) - ri_off it"
  using assms unfolding rtp_Next_def Let_def by (auto split: if_splits sum.splits prod.splits dest!: rtp_next_data_size)

lemma rtp_drain_size:
  "drain rtp_Next fuel it = Some (es, err) \<Longrightarrow> data_size es \<le> length (ri_payload it) - ri_off it"
proof (induction fuel arbitrary: it es)
  case (Suc fuel)
  obtain x it' where n: "rtp_Next it = (x, it')" by (cases "rtp_Next it")
  show ?case
  proof (cases "\<exists>e. x = Inr (Some e)")
    case True
    then obtain e es' where "rtp_Next it = (Inr (Some e), it')" "drain rtp_Next fuel it' = Some (es', err)" "es = e # es'"
      using Suc.prems n by (auto split: option.splits)
    then show ?thesis using Suc.IH [of it' es'] rtp_Next_size [of it e it'] by simp
  next
    case False
    then show ?thesis using Suc.prems n by (auto split: sum.splits option.splits)
  qed
qed simp

text \<open>The elements of a payload and the error that ends them, if one does.\<close>

definition payload_elements :: "bytes \<Rightarrow> go_err + Element list \<times> go_err option" where
  "payload_elements payload =
     (case rtp_NewIterator payload of Inl e \<Rightarrow> Inl e | Inr it \<Rightarrow> Inr (the (drain rtp_Next (length payload + 2) it)))"

lemma rtp_NewIterator_ok:
  "rtp_NewIterator payload = Inr it \<Longrightarrow> ri_payload it = payload \<and> ri_off it = 1 \<and> ri_index it = 0 \<and> \<not> ri_done it \<and> payload \<noteq> []"
  unfolding rtp_NewIterator_def ParseAggregationHeader_def Let_def by (auto split: if_splits sum.splits prod.splits)

lemma payload_elements_drain:
  assumes "rtp_NewIterator payload = Inr it" "payload_elements payload = Inr (es, err)"
  shows "drain rtp_Next (length payload + 2) it = Some (es, err)" "data_size es \<le> length payload" "length es \<le> length payload"
proof -
  note it = rtp_NewIterator_ok [OF assms(1)]
  have l: "length (rtp_left it) \<le> length payload" using it by (cases payload) (auto simp: rtp_left_def)
  then show d: "drain rtp_Next (length payload + 2) it = Some (es, err)"
    using rtp.drain_returns [of it "length payload + 2"] assms by (auto simp: payload_elements_def)
  show "data_size es \<le> length payload" using rtp_drain_size [OF d] it by simp
  show "length es \<le> length payload" using rtp.drain_length [OF _ d] l by simp
qed

lemma push_eq:
  assumes "payload_elements payload = Inr (es, err)" "0 \<le> used" "sizing \<or> used \<le> int (length dst)"
  shows "\<exists>header. rtp_NewIterator payload = Inr header \<and> push d dst used spans payload sizing =
    (case push_elements sizing (ri_header header) es \<lparr>ps_d = d, ps_dst = dst, ps_used = nat used, ps_spans = spans, ps_count = 0\<rparr> of
       (x, s) \<Rightarrow> \<lparr>pr_newUsed = int (ps_used s), pr_spanCount = ps_count s, pr_header = ri_header header,
          pr_err = (case x of None \<Rightarrow> err | Some e \<Rightarrow> Some e), pr_d = ps_d s, pr_dst = ps_dst s, pr_spans = ps_spans s\<rparr>)"
proof -
  obtain it where it: "rtp_NewIterator payload = Inr it" using assms(1) by (auto simp: payload_elements_def split: sum.splits)
  note d = payload_elements_drain [OF it assms(1)]
  show ?thesis
    using it assms(2,3) push_loop_drain [OF d(1), of sizing "\<lparr>ps_d = d, ps_dst = dst, ps_used = nat used, ps_spans = spans, ps_count = 0\<rparr>"]
    by (auto simp: push_def Let_def split: prod.splits option.splits)
qed

section \<open>Sizing\<close>

text \<open>Two runs over the same elements, of which the first only counts.\<close>

definition ps_sim :: "PushState \<Rightarrow> PushState \<Rightarrow> bool" where
  "ps_sim s t \<longleftrightarrow> ps_d s = ps_d t \<and> ps_used s = ps_used t \<and> ps_count s = ps_count t"

lemma push_element_grows:
  "push_element sizing h e s = (x, s') \<Longrightarrow> ps_used s \<le> ps_used s' \<and> ps_count s \<le> ps_count s'"
  unfolding push_element_def Let_def by (auto split: if_splits)

lemma push_elements_grow:
  "push_elements sizing h es s = (x, s') \<Longrightarrow> ps_used s \<le> ps_used s' \<and> ps_count s \<le> ps_count s'"
proof (induction es arbitrary: s)
  case (Cons e es)
  obtain y s1 where p: "push_element sizing h e s = (y, s1)" by (cases "push_element sizing h e s")
  show ?case
    using push_element_grows [OF p] Cons.IH [of s1] Cons.prems p by (cases y) fastforce+
qed simp

lemma push_element_sim:
  assumes "push_element True h e s = (None, s')" "ps_sim s t" "ps_used s' \<le> length (ps_dst t)" "ps_count s' \<le> length (ps_spans t)"
  shows "\<exists>t'. push_element False h e t = (None, t') \<and> ps_sim s' t' \<and> length (ps_dst t') = length (ps_dst t) \<and>
    length (ps_spans t') = length (ps_spans t)"
  using assms unfolding push_element_def Let_def ps_sim_def by (auto split: if_splits)

lemma push_elements_sim:
  assumes "push_elements True h es s = (None, s')" "ps_sim s t" "ps_used s' \<le> length (ps_dst t)" "ps_count s' \<le> length (ps_spans t)"
  shows "\<exists>t'. push_elements False h es t = (None, t') \<and> ps_sim s' t'"
  using assms
proof (induction es arbitrary: s t)
  case (Cons e es)
  then obtain s1 where s1: "push_element True h e s = (None, s1)" "push_elements True h es s1 = (None, s')"
    by (auto split: prod.splits option.splits)
  note g = push_elements_grow [OF s1(2)]
  obtain t1 where t1: "push_element False h e t = (None, t1)" "ps_sim s1 t1" "length (ps_dst t1) = length (ps_dst t)"
      "length (ps_spans t1) = length (ps_spans t)"
    using push_element_sim [OF s1(1) Cons.prems(2)] g Cons.prems(3,4) by auto
  show ?case using Cons.IH [OF s1(2) t1(2)] t1 Cons.prems(3,4) by simp
qed simp

section \<open>Spans\<close>

text \<open>Does a payload announce a new coded video sequence?\<close>

definition starts_new :: "bytes \<Rightarrow> bool" where
  "starts_new payload \<longleftrightarrow> (case ParseAggregationHeader payload of Inl _ \<Rightarrow> False | Inr (h, _) \<Rightarrow> ah_StartsNewCodedVideoSequence h)"

text \<open>The spans written so far end before the bytes used, and only the first one can begin a coded video sequence.\<close>

definition spans_inv :: "AggregationHeader \<Rightarrow> PushState \<Rightarrow> bool" where
  "spans_inv h s \<longleftrightarrow> (dp_inFragment (ps_d s) \<longrightarrow> dp_fragmentStart (ps_d s) \<le> ps_used s) \<and> ps_count s \<le> length (ps_spans s) \<and>
     (\<forall>j < ps_count s. os_Offset (ps_spans s ! j) + os_Length (ps_spans s ! j) \<le> ps_used s \<and>
        (os_NewSequence (ps_spans s ! j) \<longrightarrow> j = 0 \<and> ah_StartsNewCodedVideoSequence h))"

lemma push_element_spans:
  assumes "push_element False h e s = (None, s')" "spans_inv h s" "ps_count s \<le> el_Index e"
  shows "spans_inv h s' \<and> ps_count s' \<le> el_Index e + 1"
proof -
  note g = push_element_grows [OF assms(1)]
  have old: "os_Offset (ps_spans s ! j) + os_Length (ps_spans s ! j) \<le> ps_used s'" if "j < ps_count s" for j
    using that assms(2) g by (auto simp: spans_inv_def intro: order_trans)
  show ?thesis
    using assms old unfolding push_element_def Let_def
    by (auto simp: spans_inv_def nth_list_update less_Suc_eq split: if_splits)
qed

lemma rtp_Next_index:
  assumes "rtp_Next it = (Inr (Some e), it')"
  shows "el_Index e = ri_index it \<and> ri_index it' = ri_index it + 1 \<and> ri_header it' = ri_header it"
  using assms unfolding rtp_Next_def Let_def by (auto split: if_splits sum.splits prod.splits)

lemma push_loop_spans:
  assumes "push_loop False it s = (None, s')" "spans_inv (ri_header it) s" "ps_count s \<le> ri_index it"
  shows "spans_inv (ri_header it) s'"
  using assms
proof (induction False it s rule: push_loop.induct)
  case (1 it s)
  show ?case
  proof (cases "\<exists>e it'. rtp_Next it = (Inr (Some e), it')")
    case True
    then obtain e it' where n: "rtp_Next it = (Inr (Some e), it')" by blast
    then obtain s1 where s1: "push_element False (ri_header it) e s = (None, s1)" "push_loop False it' s1 = (None, s')"
      using "1.prems"(1) by (subst (asm) push_loop.simps) (auto split: prod.splits option.splits)
    note i = rtp_Next_index [OF n]
    have "spans_inv (ri_header it) s1 \<and> ps_count s1 \<le> el_Index e + 1"
      using push_element_spans [OF s1(1) "1.prems"(2)] "1.prems"(3) i by simp
    then show ?thesis
      using "1.hyps" [OF n [symmetric] refl refl s1(1) [symmetric] refl s1(2)] i by simp
  next
    case False
    then show ?thesis
      using "1.prems" by (subst (asm) push_loop.simps) (auto split: prod.splits sum.splits option.splits)
  qed
qed

lemma Depacketizer_Push_spans:
  fixes d dst used spans payload
  defines "r \<equiv> Depacketizer_Push d dst used spans payload"
  assumes "pr_err r = None" "dp_inFragment d \<longrightarrow> dp_fragmentStart d \<le> nat used"
  shows "pr_spanCount r \<le> length (pr_spans r) \<and> (dp_inFragment (pr_d r) \<longrightarrow> dp_fragmentStart (pr_d r) \<le> nat (pr_newUsed r)) \<and>
    (\<forall>j < pr_spanCount r. int (os_Offset (pr_spans r ! j) + os_Length (pr_spans r ! j)) \<le> pr_newUsed r \<and>
      (os_NewSequence (pr_spans r ! j) \<longrightarrow> j = 0 \<and> starts_new payload))"
proof -
  let ?s = "\<lparr>ps_d = d, ps_dst = dst, ps_used = nat used, ps_spans = spans, ps_count = 0\<rparr>"
  obtain it where it: "rtp_NewIterator payload = Inr it"
    using assms(2) by (auto simp: r_def Depacketizer_Push_def push_def Let_def split: if_splits sum.splits)
  obtain s' where s': "push_loop False it ?s = (None, s')"
    and r: "pr_spanCount r = ps_count s'" "pr_spans r = ps_spans s'" "pr_d r = ps_d s'" "pr_newUsed r = int (ps_used s')"
    using assms(2) it by (auto simp: r_def Depacketizer_Push_def push_def Let_def split: if_splits prod.splits)
  have "ah_StartsNewCodedVideoSequence (ri_header it) = starts_new payload"
    using it by (auto simp: starts_new_def rtp_NewIterator_def split: sum.splits prod.splits if_splits)
  moreover have "spans_inv (ri_header it) s'"
    using assms(3) rtp_NewIterator_ok [OF it] by (intro push_loop_spans [OF s']) (simp_all add: spans_inv_def)
  ultimately show ?thesis unfolding spans_inv_def r by auto
qed

section \<open>Properties\<close>

lemma Depacketizer_Push_step:
  assumes "payload_elements payload = Inr (es, err)" "0 \<le> used" "used + int (length payload) \<le> int (length dst)"
    "length payload \<le> length spans" "dp_inFragment d \<longrightarrow> dp_fragmentStart d \<le> nat used"
  shows "case join_elements (dp_pending d dst (nat used)) es of
      Inl x \<Rightarrow> pr_err (Depacketizer_Push d dst used spans payload) = Some x
    | Inr (obus, pending) \<Rightarrow> (let r = Depacketizer_Push d dst used spans payload in
        pr_err r = err \<and> map (span_data (pr_dst r)) (take (pr_spanCount r) (pr_spans r)) = obus \<and>
        dp_pending (pr_d r) (pr_dst r) (nat (pr_newUsed r)) = pending \<and> pr_newUsed r = used + int (data_size es) \<and>
        length (pr_dst r) = length dst \<and> length (pr_spans r) = length spans \<and>
        (dp_inFragment (pr_d r) \<longrightarrow> dp_fragmentStart (pr_d r) \<le> nat (pr_newUsed r)))"
proof -
  let ?s = "\<lparr>ps_d = d, ps_dst = dst, ps_used = nat used, ps_spans = spans, ps_count = 0\<rparr>"
  have u: "used \<le> int (length dst)" using assms(3) by linarith
  obtain it where it: "rtp_NewIterator payload = Inr it" and p: "Depacketizer_Push d dst used spans payload =
    (case push_elements False (ri_header it) es ?s of
       (x, s) \<Rightarrow> \<lparr>pr_newUsed = int (ps_used s), pr_spanCount = ps_count s, pr_header = ri_header it,
          pr_err = (case x of None \<Rightarrow> err | Some e \<Rightarrow> Some e), pr_d = ps_d s, pr_dst = ps_dst s, pr_spans = ps_spans s\<rparr>)"
    using push_eq [OF assms(1,2), of False dst d spans] u unfolding Depacketizer_Push_def by auto
  note e = payload_elements_drain [OF it assms(1)]
  have "int (nat used + data_size es) \<le> int (length dst)" using e(2) assms(2,3) by simp
  then have room: "nat used + data_size es \<le> length dst" "length es \<le> length spans" using e(3) assms(4) by linarith+
  have "ps_inv ?s" using assms(2,5) u by (simp add: ps_inv_def nat_le_iff)
  then have j: "case join_elements (ps_pending ?s) es of
      Inl x \<Rightarrow> fst (push_elements False (ri_header it) es ?s) = Some x
    | Inr (us, q) \<Rightarrow> \<exists>s'. push_elements False (ri_header it) es ?s = (None, s') \<and> ps_inv s' \<and> ps_pending s' = q \<and> ps_out s' = ps_out ?s @ us \<and>
        ps_used s' = ps_used ?s + data_size es \<and> length (ps_dst s') = length (ps_dst ?s) \<and> length (ps_spans s') = length (ps_spans ?s)"
    by (rule push_elements_joins) (use room in simp_all)
  show ?thesis
  proof (cases "join_elements (dp_pending d dst (nat used)) es")
    case (Inl x)
    then show ?thesis using j p by (cases "push_elements False (ri_header it) es ?s") auto
  next
    case (Inr b)
    then show ?thesis using j p assms(2) by (cases b) (auto simp: ps_out_def ps_inv_def Let_def nat_add_distrib)
  qed
qed

text \<open>
  C13: the depacketizer joins fragments as the specification says: with room in the caller's buffer and spans, pushing one payload
  gives exactly the OBUs that joining its elements to the pending fragment gives, each in the span that names it, and
  leaves the pending fragment that is left; it fails with the error of the join, or else with the error that ends the elements
  of the payload.
\<close>

theorem Depacketizer_Push_joins:
  assumes "payload_elements payload = Inr (es, err)" "0 \<le> used" "used + int (length payload) \<le> int (length dst)"
    "length payload \<le> length spans" "dp_inFragment d \<longrightarrow> dp_fragmentStart d \<le> nat used"
  shows "case join_elements (dp_pending d dst (nat used)) es of
      Inl x \<Rightarrow> pr_err (Depacketizer_Push d dst used spans payload) = Some x
    | Inr (obus, pending) \<Rightarrow> (let r = Depacketizer_Push d dst used spans payload in
        pr_err r = err \<and> map (span_data (pr_dst r)) (take (pr_spanCount r) (pr_spans r)) = obus \<and>
        dp_pending (pr_d r) (pr_dst r) (nat (pr_newUsed r)) = pending \<and> pr_newUsed r = used + int (data_size es) \<and>
        length (pr_dst r) = length dst)"
  using Depacketizer_Push_step [OF assms] by (auto simp: Let_def split: sum.splits prod.splits)

theorem Depacketizer_Push_joins_witness:
  "\<exists>r. Depacketizer_Push Depacketizer_Reset (replicate 8 0) 0 (replicate 4 \<lparr>os_Offset = 0, os_Length = 0, os_Fragmented = False, os_NewSequence = False\<rparr>)
      [0x60, 1, 0x32, 0x30] = r \<and> pr_err r = None \<and>
     map (span_data (pr_dst r)) (take (pr_spanCount r) (pr_spans r)) = [[0x32]] \<and>
     dp_pending (pr_d r) (pr_dst r) (nat (pr_newUsed r)) = Some [0x30]"
proof -
  let ?p = "[0x60, 1, 0x32, 0x30] :: bytes"
  let ?sp = "\<lparr>os_Offset = 0, os_Length = 0, os_Fragmented = False, os_NewSequence = False\<rparr>"
  let ?es = "[\<lparr>el_Data = [0x32], el_Index = 0, el_ContinuesPrevious = False, el_ContinuesNext = False, el_InferredLastLength = False\<rparr>,
    \<lparr>el_Data = [0x30], el_Index = 1, el_ContinuesPrevious = False, el_ContinuesNext = True, el_InferredLastLength = True\<rparr>]"
  have "payload_elements ?p = Inr (?es, None)" by code_simp
  from Depacketizer_Push_joins [OF this, of 0 "replicate 8 0" "replicate 4 ?sp" Depacketizer_Reset]
  show ?thesis by (simp add: Depacketizer_Reset_def dp_pending_def Let_def)
qed

text \<open>
  \<open>PushSize\<close> tells exactly what \<open>Push\<close> needs: when it reports sizes for a payload, \<open>Push\<close> succeeds on every buffer and
  every span array of at least these sizes, and reports the same sizes and the same header.
\<close>

theorem PushSize_sufficient:
  assumes "Depacketizer_PushSize d used payload = (newUsed, cnt, header, None)" "newUsed \<le> int (length dst)" "cnt \<le> length spans"
  shows "let r = Depacketizer_Push d dst used spans payload in
    pr_err r = None \<and> pr_newUsed r = newUsed \<and> pr_spanCount r = cnt \<and> pr_header r = header"
proof -
  have u: "0 \<le> used" "\<not> used < 0" using assms(1) by (auto simp: Depacketizer_PushSize_def push_def Let_def split: if_splits)
  obtain es err where es: "payload_elements payload = Inr (es, err)"
    using assms(1) u by (cases "payload_elements payload") (auto simp: Depacketizer_PushSize_def push_def Let_def payload_elements_def split: sum.splits)
  let ?s = "\<lparr>ps_d = d, ps_dst = [], ps_used = nat used, ps_spans = [], ps_count = 0\<rparr>"
  let ?t = "\<lparr>ps_d = d, ps_dst = dst, ps_used = nat used, ps_spans = spans, ps_count = 0\<rparr>"
  obtain it where it: "rtp_NewIterator payload = Inr it" and p: "push d [] used [] payload True =
    (case push_elements True (ri_header it) es ?s of
       (x, s) \<Rightarrow> \<lparr>pr_newUsed = int (ps_used s), pr_spanCount = ps_count s, pr_header = ri_header it,
          pr_err = (case x of None \<Rightarrow> err | Some e \<Rightarrow> Some e), pr_d = ps_d s, pr_dst = ps_dst s, pr_spans = ps_spans s\<rparr>)"
    using push_eq [OF es u(1), of True "[]" d "[]"] by auto
  obtain s' where s': "push_elements True (ri_header it) es ?s = (None, s')" "int (ps_used s') = newUsed" "ps_count s' = cnt"
      "err = None" "header = ri_header it"
    using assms(1) p unfolding Depacketizer_PushSize_def Let_def by (auto split: prod.splits option.splits)
  have sim: "ps_sim ?s ?t" by (simp add: ps_sim_def)
  obtain t' where t': "push_elements False (ri_header it) es ?t = (None, t')" "ps_sim s' t'"
    using push_elements_sim [OF s'(1) sim] s' assms(2,3) by auto
  have "nat used \<le> ps_used s'" using push_elements_grow [OF s'(1)] by simp
  then have "used \<le> int (length dst)" using s'(2) assms(2) u(1) by linarith
  then show ?thesis
    using push_eq [OF es u(1), of False dst d spans] it t' s' by (auto simp: Depacketizer_Push_def Let_def ps_sim_def)
qed

theorem PushSize_sufficient_witness:
  "Depacketizer_PushSize Depacketizer_Reset 0 [0x60, 1, 0x32, 0x30] =
     (2, 1, \<lparr>ah_ContinuesPrevious = False, ah_ContinuesNext = True, ah_ElementCount = 2, ah_StartsNewCodedVideoSequence = False\<rparr>, None) \<and>
   pr_err (Depacketizer_Push Depacketizer_Reset [0, 0] 0 [\<lparr>os_Offset = 0, os_Length = 0, os_Fragmented = False, os_NewSequence = False\<rparr>]
     [0x60, 1, 0x32, 0x30]) = None"
proof -
  have s: "Depacketizer_PushSize Depacketizer_Reset 0 [0x60, 1, 0x32, 0x30] =
     (2, 1, \<lparr>ah_ContinuesPrevious = False, ah_ContinuesNext = True, ah_ElementCount = 2, ah_StartsNewCodedVideoSequence = False\<rparr>, None)" by code_simp
  show ?thesis
    using s PushSize_sufficient [OF s, of "[0, 0]" "[\<lparr>os_Offset = 0, os_Length = 0, os_Fragmented = False, os_NewSequence = False\<rparr>]"]
    by (simp add: Let_def)
qed

section \<open>Writing payloads\<close>

text \<open>What \<open>PutPayload\<close> appends to the bytes before \<open>off\<close>.\<close>

lemma PutPayload_loop_bytes:
  assumes "off + length (element_bytes (ah_ElementCount h = 0) (map el_Data es)) \<le> length dst" "i + length es = n"
    "\<forall>e \<in> set es. el_Data e \<noteq> []"
  shows "PutPayload_loop h n i dst off es =
    (Inr (off + length (element_bytes (ah_ElementCount h = 0) (map el_Data es))),
     put_at dst off (element_bytes (ah_ElementCount h = 0) (map el_Data es)))"
  using assms
proof (induction es arbitrary: i dst off)
  case Nil
  then show ?case by (simp add: put_at_def)
next
  case (Cons e es)
  let ?w = "ah_ElementCount h = 0" and ?d = "el_Data e"
  let ?l = "if ?w \<or> es \<noteq> [] then leb128 (word_of_nat (length ?d)) else []"
  let ?rest = "element_bytes ?w (map el_Data es)"
  have enc: "element_bytes ?w (map el_Data (e # es)) = ?l @ ?d @ ?rest" by simp
  have w: "(?w \<or> i \<noteq> n - 1) \<longleftrightarrow> (?w \<or> es \<noteq> [])" using Cons.prems(2) by (cases es) auto
  have len: "off + length ?l + length ?d + length ?rest \<le> length dst" using Cons.prems(1) unfolding enc by (simp only: length_append)
  let ?dst = "put_at dst off ?l"
  have step: "PutPayload_loop h n i dst off (e # es) =
      PutPayload_loop h n (i + 1) (put_at ?dst (off + length ?l) ?d) (off + length ?l + length ?d) es"
    using len Cons.prems(3) w by (auto simp: Let_def PutLEB128_eq put_at_def ac_simps)
  have l1: "length ?dst = length dst" using len by simp
  have l2: "length (put_at ?dst (off + length ?l) ?d) = length dst" using len l1 by simp
  have "PutPayload_loop h n (i + 1) (put_at ?dst (off + length ?l) ?d) (off + length ?l + length ?d) es =
     (Inr (off + length ?l + length ?d + length ?rest), put_at (put_at ?dst (off + length ?l) ?d) (off + length ?l + length ?d) ?rest)"
    using len l2 Cons.prems(2,3) by (intro Cons.IH) auto
  moreover have "put_at (put_at ?dst (off + length ?l) ?d) (off + length ?l + length ?d) ?rest = put_at dst off (?l @ ?d @ ?rest)"
    using len by (simp add: put_at_def ac_simps)
  ultimately show ?case unfolding step enc by (simp add: add.assoc)
qed

lemma payload_elements_bytes:
  assumes "AggregationHeader_Byte h = Inr b" "ds \<noteq> []" "\<forall>d \<in> set ds. d \<noteq> [] \<and> length d < 2 ^ 32"
    "ah_ElementCount h = 0 \<or> unat (ah_ElementCount h) = length ds"
  shows "rtp_NewIterator (b # element_bytes (ah_ElementCount h = 0) ds) =
      Inr \<lparr>ri_payload = b # element_bytes (ah_ElementCount h = 0) ds, ri_header = h, ri_off = 1, ri_index = 0, ri_done = False\<rparr>"
    "payload_elements (b # element_bytes (ah_ElementCount h = 0) ds) = Inr (elements_from h 0 ds, None)"
proof -
  let ?p = "b # element_bytes (ah_ElementCount h = 0) ds"
  let ?it = "\<lparr>ri_payload = ?p, ri_header = h, ri_off = 1, ri_index = 0, ri_done = False\<rparr>"
  have ne: "element_bytes (ah_ElementCount h = 0) ds \<noteq> []" using assms(2,3) element_bytes_eq_Nil [of ds] by blast
  show n: "rtp_NewIterator ?p = Inr ?it"
    using AggregationHeader_Byte_parse [OF assms(1)] ne by (simp add: rtp_NewIterator_def)
  have "length ds \<le> length (element_bytes w ds)" for w
    using assms(3)
  proof (induction ds)
    case (Cons d ds)
    then have "0 < length d" "length ds \<le> length (element_bytes w ds)" by auto
    then show ?case by (simp del: length_greater_0_conv)
  qed simp
  then have "drain rtp_Next (length ?p + 2) ?it = Some (elements_from (ri_header ?it) (ri_index ?it) ds, None)"
    using assms by (intro rtp_drain_elements) (auto intro: le_imp_less_Suc le_SucI)
  then show "payload_elements ?p = Inr (elements_from h 0 ds, None)" by (simp add: payload_elements_def n)
qed

text \<open>
  Reading a payload returns the elements that were written into it: when there is room, \<open>PutPayload\<close> with a valid header
  and elements that are not empty succeeds, and iterating over the bytes it has written gives the data of the elements in order,
  the first one continued from the packet before and the last one continued in the next as the header says.
\<close>

theorem PutPayload_roundtrip:
  assumes "AggregationHeader_Byte h = Inr b" "es \<noteq> []" "\<forall>e \<in> set es. el_Data e \<noteq> [] \<and> length (el_Data e) < 2 ^ 32"
    "ah_ElementCount h = 0 \<or> unat (ah_ElementCount h) = length es"
    "1 + length (element_bytes (ah_ElementCount h = 0) (map el_Data es)) \<le> length dst"
  shows "\<exists>n out. PutPayload dst h es = (Inr n, out) \<and> length out = length dst \<and> drop n out = drop n dst \<and>
    payload_elements (take n out) = Inr (elements_from h 0 (map el_Data es), None)"
proof -
  let ?e = "element_bytes (ah_ElementCount h = 0) (map el_Data es)"
  have dst: "dst \<noteq> []" using assms(5) by auto
  have put: "PutAggregationHeader dst h = (Inr 1, dst[0 := b])" using assms(1) dst by (simp add: PutAggregationHeader_def Suc_le_eq)
  have loop: "PutPayload_loop h (length es) 0 (dst[0 := b]) 1 es = (Inr (1 + length ?e), put_at (dst[0 := b]) 1 ?e)"
    using assms(3,5) by (intro PutPayload_loop_bytes) auto
  have out: "put_at (dst[0 := b]) 1 ?e = (b # ?e) @ drop (1 + length ?e) dst"
    using dst by (cases dst) (simp_all add: put_at_def)
  have "PutPayload dst h es = (Inr (1 + length ?e), (b # ?e) @ drop (1 + length ?e) dst)"
    using assms(2,4) put loop unfolding out by (auto simp: PutPayload_def)
  moreover have "payload_elements (b # ?e) = Inr (elements_from h 0 (map el_Data es), None)"
    using assms by (intro payload_elements_bytes) auto
  ultimately show ?thesis using assms(5) by auto
qed

theorem PutPayload_roundtrip_witness:
  "\<exists>n out. PutPayload (replicate 9 0) \<lparr>ah_ContinuesPrevious = True, ah_ContinuesNext = False, ah_ElementCount = 2, ah_StartsNewCodedVideoSequence = False\<rparr>
      [\<lparr>el_Data = [7, 8], el_Index = 0, el_ContinuesPrevious = True, el_ContinuesNext = False, el_InferredLastLength = False\<rparr>,
       \<lparr>el_Data = [9], el_Index = 1, el_ContinuesPrevious = False, el_ContinuesNext = False, el_InferredLastLength = True\<rparr>] = (Inr n, out) \<and>
     payload_elements (take n out) = Inr (elements_from \<lparr>ah_ContinuesPrevious = True, ah_ContinuesNext = False, ah_ElementCount = 2,
       ah_StartsNewCodedVideoSequence = False\<rparr> 0 [[7, 8], [9]], None)"
proof -
  let ?h = "\<lparr>ah_ContinuesPrevious = True, ah_ContinuesNext = False, ah_ElementCount = 2, ah_StartsNewCodedVideoSequence = False\<rparr>"
  let ?es = "[\<lparr>el_Data = [7, 8], el_Index = 0, el_ContinuesPrevious = True, el_ContinuesNext = False, el_InferredLastLength = False\<rparr>,
       \<lparr>el_Data = [9], el_Index = 1, el_ContinuesPrevious = False, el_ContinuesNext = False, el_InferredLastLength = True\<rparr>]"
  have b: "AggregationHeader_Byte ?h = Inr 0xa0" by code_simp
  have l: "1 + length (element_bytes (ah_ElementCount ?h = 0) (map el_Data ?es)) \<le> length (replicate 9 (0 :: u8))" by code_simp
  show ?thesis using PutPayload_roundtrip [OF b _ _ _ l] by auto
qed

text \<open>
  An empty last element with an inferred length disappears: written after another element, it is not read back, and the element before it takes
  over its continuation.
\<close>

lemma PutPayload_empty_tail:
  "fst (PutPayload (replicate 3 0) \<lparr>ah_ContinuesPrevious = False, ah_ContinuesNext = True, ah_ElementCount = 2, ah_StartsNewCodedVideoSequence = False\<rparr>
      [\<lparr>el_Data = [7], el_Index = 0, el_ContinuesPrevious = False, el_ContinuesNext = False, el_InferredLastLength = False\<rparr>,
       \<lparr>el_Data = [], el_Index = 1, el_ContinuesPrevious = False, el_ContinuesNext = True, el_InferredLastLength = True\<rparr>]) = Inr 3 \<and>
   payload_elements [0x60, 1, 7] = Inr ([\<lparr>el_Data = [7], el_Index = 0, el_ContinuesPrevious = False, el_ContinuesNext = True,
     el_InferredLastLength = False\<rparr>], None)"
  by code_simp

end
