(* ===== verification/Decoder_Stream.thy ===== *)
theory Decoder_Stream
  imports Tile_List Metadata Rtp_Payload
begin

text \<open>
  The stream layer of the decoder (\<open>decoder/stream.go\<close>): a state machine over OBUs that keeps the sequence header, the
  frame whose tile groups are still to come, the reference slots and the RTP depacketizer, and reports an event for each OBU. The
  scratch for tile lists is modelled by its contents.
\<close>

section \<open>State and events\<close>

datatype EventKind =
    EventIgnored | EventSequenceHeader | EventTemporalDelimiter | EventFrameHeader | EventRedundantFrameHeader | EventFrame
  | EventTileGroup | EventMetadata | EventTileList | EventPadding | EventReserved | EventExistingFrame

record frameState =
  fst_SequenceHeader :: SequenceHeader
  fst_FrameHeader :: FrameHeaderPrefix
  fst_FrameSize :: FrameSize
  fst_TileInfo :: TileInfo
  fst_Quantization :: QuantizationParams
  fst_Segmentation :: SegmentationParams
  fst_Delta :: DeltaParams
  fst_LoopFilter :: LoopFilterParams
  fst_CDEF :: CDEFParams
  fst_Restoration :: RestorationParams
  fst_TransformRef :: TransformReferenceParams
  fst_SkipMode :: SkipModeParams
  fst_FrameMode :: FrameModeParams
  fst_GlobalMotion :: GlobalMotionParams
  fst_FilmGrain :: FilmGrainParams
  fst_ReferenceOrderHints :: "u8 list"

definition zero_frameState :: frameState where
  "zero_frameState = \<lparr>fst_SequenceHeader = zero_SequenceHeader, fst_FrameHeader = zero_FrameHeaderPrefix, fst_FrameSize = zero_FrameSize,
     fst_TileInfo = zero_TileInfo, fst_Quantization = zero_QuantizationParams, fst_Segmentation = zero_SegmentationParams,
     fst_Delta = zero_DeltaParams, fst_LoopFilter = zero_LoopFilterParams, fst_CDEF = zero_CDEFParams, fst_Restoration = zero_RestorationParams,
     fst_TransformRef = zero_TransformReferenceParams, fst_SkipMode = zero_SkipModeParams, fst_FrameMode = zero_FrameModeParams,
     fst_GlobalMotion = zero_GlobalMotionParams, fst_FilmGrain = zero_FilmGrainParams, fst_ReferenceOrderHints = replicate InterRefsPerFrame 0\<rparr>"

text \<open>An event. The fields that an event shares with the pending frame are one record here.\<close>

record Event =
  ev_Kind :: EventKind
  ev_Type :: u8
  ev_Unit :: Unit
  ev_TemporalID :: u8
  ev_SpatialID :: u8
  ev_NewCodedVideoSequence :: bool
  ev_NewTemporalUnit :: bool
  ev_OperatingParametersChanged :: bool
  ev_frame :: frameState
  ev_TileGroup :: TileGroup
  ev_ExistingFrame :: ReferenceFrame
  ev_Metadata :: Metadata
  ev_MetadataErr :: "go_err option"
  ev_TileList :: TileList
  ev_TileListErr :: "go_err option"

record Stream =
  st_sequence :: SequenceHeader
  st_haveSequence :: bool
  st_haveFrameHeader :: bool
  st_tileGroups :: u32
  st_tileInfo :: TileInfo
  st_nextTile :: u16
  st_frame :: frameState
  st_references :: ReferenceState
  st_rtp :: Depacketizer
  st_tileListScratch :: "TileListEntry list"

definition Stream_Reset :: Stream where
  "Stream_Reset = \<lparr>st_sequence = zero_SequenceHeader, st_haveSequence = False, st_haveFrameHeader = False, st_tileGroups = 0,
     st_tileInfo = zero_TileInfo, st_nextTile = 0, st_frame = zero_frameState, st_references = zero_ReferenceState,
     st_rtp = Depacketizer_Reset, st_tileListScratch = []\<rparr>"

definition ResetRTP :: "Stream \<Rightarrow> Stream" where
  "ResetRTP s = s\<lparr>st_rtp := Depacketizer_Reset\<rparr>"

definition HasSequenceHeader :: "Stream \<Rightarrow> bool" where
  "HasSequenceHeader s = st_haveSequence s"

definition Stream_SequenceHeader :: "Stream \<Rightarrow> SequenceHeader \<times> bool" where
  "Stream_SequenceHeader s = (st_sequence s, st_haveSequence s)"

definition InRTPFragment :: "Stream \<Rightarrow> bool" where
  "InRTPFragment s = dp_inFragment (st_rtp s)"

definition PushRTPPayloadSize :: "int \<Rightarrow> bytes \<Rightarrow> Stream \<Rightarrow> int \<times> nat \<times> go_err option" where
  "PushRTPPayloadSize used payload s =
     (case Depacketizer_PushSize (st_rtp s) used payload of (newUsed, eventCount, header, err) \<Rightarrow> (newUsed, eventCount, err))"

definition clearPendingFrame :: "Stream \<Rightarrow> Stream" where
  "clearPendingFrame s = s\<lparr>st_haveFrameHeader := False, st_tileGroups := 0, st_tileInfo := zero_TileInfo, st_nextTile := 0,
     st_frame := zero_frameState\<rparr>"

definition storeFrameState :: "Event \<Rightarrow> Stream \<Rightarrow> Stream" where
  "storeFrameState event s = s\<lparr>st_frame := ev_frame event\<rparr>"

definition applyFrameState :: "Stream \<Rightarrow> Event \<Rightarrow> Event" where
  "applyFrameState s event = event\<lparr>ev_frame := st_frame s\<rparr>"

definition zero_event :: "Unit \<Rightarrow> bool \<Rightarrow> Event" where
  "zero_event unit newSeq = \<lparr>ev_Kind = EventIgnored, ev_Type = hd_Type (un_Header unit), ev_Unit = unit,
     ev_TemporalID = hd_TemporalID (un_Header unit), ev_SpatialID = hd_SpatialID (un_Header unit), ev_NewCodedVideoSequence = newSeq,
     ev_NewTemporalUnit = False, ev_OperatingParametersChanged = False, ev_frame = zero_frameState, ev_TileGroup = zero_TileGroup,
     ev_ExistingFrame = zero_ReferenceFrame, ev_Metadata = zero_Metadata, ev_MetadataErr = None, ev_TileList = zero_TileList,
     ev_TileListErr = None\<rparr>"

section \<open>Frame headers\<close>

definition referenceOrderHints :: "FrameSize \<Rightarrow> ReferenceState option \<Rightarrow> u8 list" where
  "referenceOrderHints sz refs =
     (case refs of
        None \<Rightarrow> replicate InterRefsPerFrame 0
      | Some rs \<Rightarrow> map (\<lambda>i. let slot = unat (fs_RefFrameIdx sz ! i) in if slot < RefFrames then rf_OrderHint (rst_Frames rs ! slot) else 0)
          [0..<InterRefsPerFrame])"

text \<open>The slot of the primary reference frame, when there is one and it is valid: the common part of the next two functions.\<close>

definition primary_slot :: "ReferenceState \<Rightarrow> FrameHeaderPrefix \<Rightarrow> FrameSize \<Rightarrow> ReferenceFrame option" where
  "primary_slot refs prefix sz =
     (if fh_PrimaryRefFrame prefix = PrimaryRefNone \<or> unat (fh_PrimaryRefFrame prefix) \<ge> InterRefsPerFrame then None
      else
        let slot = unat (fs_RefFrameIdx sz ! unat (fh_PrimaryRefFrame prefix)) in
        if slot \<ge> RefFrames then None
        else
          let ref = rst_Frames refs ! slot in
          if \<not> rf_Valid ref then None else Some ref)"

definition previousSegmentationData :: "Stream \<Rightarrow> FrameHeaderPrefix \<Rightarrow> FrameSize \<Rightarrow> SegmentationData option" where
  "previousSegmentationData s prefix sz = map_option rf_Segmentation (primary_slot (st_references s) prefix sz)"

definition previousLoopFilterDeltas :: "Stream \<Rightarrow> FrameHeaderPrefix \<Rightarrow> FrameSize \<Rightarrow> LoopFilterDeltas option" where
  "previousLoopFilterDeltas s prefix sz = map_option rf_LoopFilterDeltas (primary_slot (st_references s) prefix sz)"

text \<open>One parser after the other, up to the first error.\<close>

definition then_parse :: "go_err + 'a \<Rightarrow> ('a \<Rightarrow> go_err + 'b) \<Rightarrow> go_err + 'b" where
  "then_parse r f = (case r of Inl e \<Rightarrow> Inl e | Inr v \<Rightarrow> f v)"

text \<open>The stages of the frame header after its prefix, which the two handlers of frame headers run in the same way.\<close>

definition frame_stages :: "bytes \<Rightarrow> Stream \<Rightarrow> FrameHeaderPrefix \<Rightarrow> u8 \<Rightarrow> u8 \<Rightarrow> go_err + frameState" where
  "frame_stages payload s prefix temporalID spatialID =
     (let seq = st_sequence s; refs = Some (st_references s) in
      then_parse (ParseFrameSize payload seq prefix refs temporalID spatialID) (\<lambda>frameSize.
      then_parse (ParseTileInfo payload seq prefix frameSize) (\<lambda>tileInfo.
      then_parse (ParseQuantizationParams payload seq tileInfo) (\<lambda>quant.
      then_parse (ParseSegmentationParams payload prefix quant (previousSegmentationData s prefix frameSize)) (\<lambda>segmentation.
      then_parse (ParseDeltaParams payload frameSize quant segmentation) (\<lambda>delta.
      then_parse (ParseLoopFilterParams payload seq prefix frameSize segmentation delta (previousLoopFilterDeltas s prefix frameSize)) (\<lambda>loopFilter.
      then_parse (ParseCDEFParams payload seq frameSize segmentation loopFilter) (\<lambda>cdef.
      then_parse (ParseRestorationParams payload seq frameSize segmentation cdef) (\<lambda>restoration.
      then_parse (ParseTransformReferenceParams payload prefix segmentation restoration) (\<lambda>transformRef.
      then_parse (ParseSkipModeParams payload seq prefix frameSize refs transformRef) (\<lambda>skipMode.
      then_parse (ParseFrameModeParams payload seq prefix skipMode) (\<lambda>frameMode.
      then_parse (ParseGlobalMotionParams payload prefix frameSize tileInfo refs frameMode) (\<lambda>globalMotion.
      then_parse (ParseFilmGrainParams payload seq prefix frameSize refs globalMotion) (\<lambda>filmGrain.
      Inr \<lparr>fst_SequenceHeader = seq, fst_FrameHeader = prefix, fst_FrameSize = frameSize, fst_TileInfo = tileInfo,
           fst_Quantization = quant, fst_Segmentation = segmentation, fst_Delta = delta, fst_LoopFilter = loopFilter, fst_CDEF = cdef,
           fst_Restoration = restoration, fst_TransformRef = transformRef, fst_SkipMode = skipMode, fst_FrameMode = frameMode,
           fst_GlobalMotion = globalMotion, fst_FilmGrain = filmGrain, fst_ReferenceOrderHints = referenceOrderHints frameSize refs\<rparr>))))))))))))))"

text \<open>The references after a frame header.\<close>

definition update_references :: "frameState \<Rightarrow> Stream \<Rightarrow> Stream" where
  "update_references f s = s\<lparr>st_references := UpdateWithDecodeState (fst_FrameHeader f) (fst_FrameSize f) (sgp_Data (fst_Segmentation f))
     (lf_Deltas (fst_LoopFilter f)) (fst_GlobalMotion f) (fst_FilmGrain f) (st_references s)\<rparr>"

definition acceptExistingFrame :: "Event \<Rightarrow> Stream \<Rightarrow> go_err option \<times> Event \<times> Stream" where
  "acceptExistingFrame event s =
     (if ev_NewCodedVideoSequence event then (Some ErrInvalidFrameHeader, event, s)
      else
        let event = event\<lparr>ev_frame := (ev_frame event)\<lparr>fst_SequenceHeader := st_sequence s\<rparr>\<rparr>;
            header = fst_FrameHeader (ev_frame event);
            ref = rst_Frames (st_references s) ! unat (fh_ExistingFrameIdx header)
        in if \<not> rf_Valid ref then (Some ErrReferenceFrameNeeded, event, s)
           else if sh_FrameIDNumbersPresent (st_sequence s) \<and> rf_FrameID ref \<noteq> fh_FrameID header then (Some ErrInvalidFrameHeader, event, s)
           else if \<not> rf_ShowableFrame ref then (Some ErrInvalidFrameHeader, event, s)
           else
             let event = event\<lparr>ev_Kind := EventExistingFrame, ev_ExistingFrame := ref,
                   ev_frame := (ev_frame event)\<lparr>fst_FrameSize := rf_Size ref, fst_GlobalMotion := rf_GlobalMotion ref,
                     fst_FilmGrain := rf_FilmGrain ref\<rparr>\<rparr>;
                 s = clearPendingFrame s
             in (None, event,
                 if rf_FrameType ref = FrameTypeKey
                 then s\<lparr>st_references := (st_references s)\<lparr>rst_Frames := replicate RefFrames (ref\<lparr>rf_ShowableFrame := False\<rparr>)\<rparr>\<rparr>
                 else s))"

definition acceptFrameHeader :: "Event \<Rightarrow> Stream \<Rightarrow> go_err option \<times> Event \<times> Stream" where
  "acceptFrameHeader event s =
     (if \<not> st_haveSequence s then (Some ErrMissingSequenceHeader, event, s)
      else
        let event = event\<lparr>ev_frame := (ev_frame event)\<lparr>fst_SequenceHeader := st_sequence s\<rparr>\<rparr>;
            payload = un_Payload (ev_Unit event)
        in case ParseFrameHeaderPrefix payload (st_sequence s) of
             Inl e \<Rightarrow> (Some e, event, s)
           | Inr frameHeader \<Rightarrow>
               let event = event\<lparr>ev_frame := (ev_frame event)\<lparr>fst_FrameHeader := frameHeader\<rparr>\<rparr> in
               if fh_ShowExistingFrame frameHeader then acceptExistingFrame event s
               else case frame_stages payload s frameHeader (ev_TemporalID event) (ev_SpatialID event) of
                 Inl e \<Rightarrow> (Some e, event, s)
               | Inr f \<Rightarrow>
                   let event = event\<lparr>ev_frame := f\<rparr>;
                       s = (update_references f s)\<lparr>st_tileInfo := fst_TileInfo f, st_nextTile := 0\<rparr>;
                       s = (storeFrameState event s)\<lparr>st_haveFrameHeader := True, st_tileGroups := 0\<rparr>
                   in (None, event, s))"

section \<open>Units\<close>

definition clearOperatingParameters :: "SequenceHeader \<Rightarrow> SequenceHeader" where
  "clearOperatingParameters seq = seq\<lparr>sh_OperatingPoints :=
     map (\<lambda>p. p\<lparr>op_DecoderBufferDelay := 0, op_EncoderBufferDelay := 0, op_LowDelayMode := False\<rparr>) (sh_OperatingPoints seq)\<rparr>"

definition sameSequenceExceptOperatingParameters :: "SequenceHeader \<Rightarrow> SequenceHeader \<Rightarrow> bool" where
  "sameSequenceExceptOperatingParameters a b \<longleftrightarrow> clearOperatingParameters a = clearOperatingParameters b"

definition push_sequence_header :: "Event \<Rightarrow> Stream \<Rightarrow> go_err option \<times> Event \<times> Stream" where
  "push_sequence_header event s =
     (case ParseSequenceHeader (un_Payload (ev_Unit event)) of
        Inl e \<Rightarrow> (Some e, event, s)
      | Inr seq \<Rightarrow>
          let event = event\<lparr>ev_Kind := EventSequenceHeader, ev_frame := (ev_frame event)\<lparr>fst_SequenceHeader := seq\<rparr>\<rparr>;
              (event, s) =
                (if ev_NewCodedVideoSequence event \<or> \<not> st_haveSequence s \<or> \<not> sameSequenceExceptOperatingParameters (st_sequence s) seq
                 then (event\<lparr>ev_NewCodedVideoSequence := True\<rparr>, (clearPendingFrame s)\<lparr>st_references := ReferenceState_Reset\<rparr>)
                 else if st_sequence s \<noteq> seq then (event\<lparr>ev_OperatingParametersChanged := True\<rparr>, s)
                 else (event, s))
          in (None, event, s\<lparr>st_sequence := seq, st_haveSequence := True\<rparr>))"

text \<open>A frame OBU: the frame header and the first tile group. The code after its early return is never reached.\<close>

definition push_frame :: "Event \<Rightarrow> Stream \<Rightarrow> go_err option \<times> Event \<times> Stream" where
  "push_frame event s =
     (if \<not> st_haveSequence s then (Some ErrMissingSequenceHeader, event, s)
      else
        let event = event\<lparr>ev_frame := (ev_frame event)\<lparr>fst_SequenceHeader := st_sequence s\<rparr>\<rparr>;
            payload = un_Payload (ev_Unit event)
        in case ParseFrameHeaderPrefix payload (st_sequence s) of
             Inl e \<Rightarrow> (Some e, event, s)
           | Inr frameHeader \<Rightarrow>
               let event = event\<lparr>ev_Kind := EventFrame, ev_frame := (ev_frame event)\<lparr>fst_FrameHeader := frameHeader\<rparr>\<rparr> in
               if fh_ShowExistingFrame frameHeader then (Some ErrInvalidFrameHeader, event, s)
               else case frame_stages payload s frameHeader (ev_TemporalID event) (ev_SpatialID event) of
                 Inl e \<Rightarrow> (Some e, event, s)
               | Inr f \<Rightarrow>
                   (case ParseTileGroupHeader payload (fst_TileInfo f) (int (unat (fg_BitsRead (fst_FilmGrain f)))) 0 True of
                      Inl e \<Rightarrow> (Some e, event, s)
                    | Inr tileGroup \<Rightarrow>
                        let event = event\<lparr>ev_frame := f, ev_TileGroup := tileGroup\<rparr>;
                            s = (update_references f s)\<lparr>st_tileInfo := fst_TileInfo f, st_nextTile := tg_NextTile tileGroup\<rparr>;
                            s = (storeFrameState event s)\<lparr>st_haveFrameHeader := \<not> tg_Final tileGroup, st_tileGroups := 1\<rparr>
                        in (None, event, if tg_Final tileGroup then clearPendingFrame s else s)))"

definition push_tile_group :: "Event \<Rightarrow> Stream \<Rightarrow> go_err option \<times> Event \<times> Stream" where
  "push_tile_group event s =
     (if \<not> st_haveFrameHeader s then (Some ErrMissingFrameHeader, event, s)
      else case ParseTileGroupHeader (un_Payload (ev_Unit event)) (st_tileInfo s) 0 (st_nextTile s) False of
        Inl e \<Rightarrow> (Some e, event, s)
      | Inr tileGroup \<Rightarrow>
          let event = (applyFrameState s (event\<lparr>ev_Kind := EventTileGroup\<rparr>))\<lparr>ev_TileGroup := tileGroup\<rparr>;
              s = s\<lparr>st_tileGroups := st_tileGroups s + 1, st_nextTile := tg_NextTile tileGroup\<rparr>
          in (None, event, if tg_Final tileGroup then clearPendingFrame s else s))"

definition push_tile_list :: "Event \<Rightarrow> Stream \<Rightarrow> go_err option \<times> Event \<times> Stream" where
  "push_tile_list event s =
     (let event = event\<lparr>ev_Kind := EventTileList\<rparr> in
      case ParseTileListOBU (un_Payload (ev_Unit event)) of
        (list, Some e) \<Rightarrow> (None, event\<lparr>ev_TileListErr := Some e\<rparr>, s)
      | (list, None) \<Rightarrow>
          let s = s\<lparr>st_tileListScratch := tl_Entries list\<rparr>;
              event = event\<lparr>ev_TileList := list\<rparr>
          in if \<not> st_haveFrameHeader s then (None, event\<lparr>ev_TileListErr := Some ErrTileListMissingFrameContext\<rparr>, s)
             else
               let event = applyFrameState s event
               in (None, (case ValidateTileListDecodeLayout list (fst_TileInfo (ev_frame event)) of
                            Inl e \<Rightarrow> event\<lparr>ev_TileListErr := Some e\<rparr> | Inr _ \<Rightarrow> event), s))"

text \<open>One OBU; the event is a new one.\<close>

definition PushUnitInto :: "Unit \<Rightarrow> bool \<Rightarrow> Stream \<Rightarrow> go_err option \<times> Event \<times> Stream" where
  "PushUnitInto unit newCodedVideoSequence s =
     (let event = zero_event unit newCodedVideoSequence;
          typ = hd_Type (un_Header unit)
      in if typ = TypeSequenceHeader then push_sequence_header event s
         else if typ = TypeTemporalDelimiter then
           (None, event\<lparr>ev_Kind := EventTemporalDelimiter, ev_NewTemporalUnit := True\<rparr>, clearPendingFrame s)
         else if typ = TypeRedundantFrameHeader then
           (if st_haveFrameHeader s then (None, event\<lparr>ev_Kind := EventIgnored\<rparr>, s)
            else acceptFrameHeader (event\<lparr>ev_Kind := EventRedundantFrameHeader\<rparr>) s)
         else if typ = TypeFrameHeader then acceptFrameHeader (event\<lparr>ev_Kind := EventFrameHeader\<rparr>) s
         else if typ = TypeFrame then push_frame event s
         else if typ = TypeTileGroup then push_tile_group event s
         else if typ = TypeMetadata then
           (case ParseMetadata (un_Payload unit) of
              (meta, mErr) \<Rightarrow> (None, event\<lparr>ev_Kind := EventMetadata, ev_Metadata := meta, ev_MetadataErr := mErr\<rparr>, s))
         else if typ = TypeTileList then push_tile_list event s
         else if typ = TypePadding then (None, event\<lparr>ev_Kind := EventPadding\<rparr>, s)
         else (None, event\<lparr>ev_Kind := EventReserved\<rparr>, s))"

text \<open>An OBU element; no event is written when it does not parse.\<close>

definition PushOBUInto :: "Event \<Rightarrow> bytes \<Rightarrow> bool \<Rightarrow> Stream \<Rightarrow> go_err option \<times> Event \<times> Stream" where
  "PushOBUInto event raw newCodedVideoSequence s =
     (case ParseElement raw of Inl e \<Rightarrow> (Some e, event, s) | Inr unit \<Rightarrow> PushUnitInto unit newCodedVideoSequence s)"

text \<open>The loop over the units of a low-overhead stream, with \<open>cnt\<close> events written.\<close>

function PushLowOverhead_loop :: "LowOverheadIterator \<Rightarrow> nat \<Rightarrow> Event list \<Rightarrow> Stream \<Rightarrow> nat \<times> go_err option \<times> Event list \<times> Stream" where
  "PushLowOverhead_loop it cnt events s =
     (case LowOverheadIterator_Next it of
        (Inl e, it) \<Rightarrow> (cnt, Some e, events, s)
      | (Inr None, it) \<Rightarrow> (cnt, None, events, s)
      | (Inr (Some unit), it) \<Rightarrow>
          if cnt \<ge> length events then (cnt, Some ErrEventBufferTooSmall, events, s)
          else case PushUnitInto unit False s of
            (Some e, event, s) \<Rightarrow> (cnt, Some e, events[cnt := event], s)
          | (None, event, s) \<Rightarrow> PushLowOverhead_loop it (cnt + 1) (events[cnt := event]) s)"
  by pat_completeness auto
termination
  by (relation "measure (\<lambda>(it, cnt, events, s). length events - cnt)") auto

declare PushLowOverhead_loop.simps [simp del]

definition PushLowOverhead :: "bytes \<Rightarrow> Event list \<Rightarrow> Stream \<Rightarrow> nat \<times> go_err option \<times> Event list \<times> Stream" where
  "PushLowOverhead src events s = PushLowOverhead_loop (NewLowOverheadIterator src) 0 events s"

text \<open>The OBUs that an RTP payload completes, one after the other.\<close>

fun push_spans :: "bytes \<Rightarrow> int \<Rightarrow> OBUSpan list \<Rightarrow> nat \<Rightarrow> Event list \<Rightarrow> Stream \<Rightarrow> nat \<times> go_err option \<times> Event list \<times> Stream" where
  "push_spans dst newUsed [] i events s = (i, None, events, s)"
| "push_spans dst newUsed (span # spans) i events s =
     (if int (os_Offset span + os_Length span) > newUsed then (i, Some RtpErrShortBuffer, events, s)
      else case ParseElement (take (os_Length span) (drop (os_Offset span) dst)) of
        Inl e \<Rightarrow> (i, Some e, events, s)
      | Inr unit \<Rightarrow>
          (case PushUnitInto unit (os_NewSequence span) s of
             (Some e, event, s) \<Rightarrow> (i, Some e, events[i := event], s)
           | (None, event, s) \<Rightarrow> push_spans dst newUsed spans (i + 1) (events[i := event]) s))"

definition PushRTPPayload ::
    "bytes \<Rightarrow> int \<Rightarrow> OBUSpan list \<Rightarrow> Event list \<Rightarrow> bytes \<Rightarrow> Stream \<Rightarrow> (int \<times> nat \<times> go_err option) \<times> bytes \<times> OBUSpan list \<times> Event list \<times> Stream" where
  "PushRTPPayload dst used spans events payload s =
     (let r = Depacketizer_Push (st_rtp s) dst used spans payload;
          s = s\<lparr>st_rtp := pr_d r\<rparr>
      in if pr_err r \<noteq> None then ((pr_newUsed r, 0, pr_err r), pr_dst r, pr_spans r, events, s)
         else if pr_spanCount r > length events then ((pr_newUsed r, 0, Some ErrEventBufferTooSmall), pr_dst r, pr_spans r, events, s)
         else case push_spans (pr_dst r) (pr_newUsed r) (take (pr_spanCount r) (pr_spans r)) 0 events s of
           (n, err, events, s) \<Rightarrow> ((pr_newUsed r, n, err), pr_dst r, pr_spans r, events, s))"

end
