(* ===== verification/Stream_Invariant.thy ===== *)
theory Stream_Invariant
  imports Decoder_Stream
begin

text \<open>
  The invariant of the decoder's stream: the sequence header and the reference slots are well formed; a pending frame has a complete,
  well-formed header, read from consecutive bits, and tiles left; without a pending frame its fields are zero. Every operation of the
  stream keeps it, so it holds in all reachable states, and the tile groups of a frame cover its tiles in order.
\<close>

section \<open>Well-formed frames\<close>

definition frame_bits :: "frameState \<Rightarrow> nat list" where
  "frame_bits f = map unat [fh_BitsRead (fst_FrameHeader f), fs_BitsRead (fst_FrameSize f), ti_BitsRead (fst_TileInfo f),
     qp_BitsRead (fst_Quantization f), sgp_BitsRead (fst_Segmentation f), dl_BitsRead (fst_Delta f), lf_BitsRead (fst_LoopFilter f),
     cd_BitsRead (fst_CDEF f), rs_BitsRead (fst_Restoration f), tr_BitsRead (fst_TransformRef f), sk_BitsRead (fst_SkipMode f),
     fm_BitsRead (fst_FrameMode f), gm_BitsRead (fst_GlobalMotion f), fg_BitsRead (fst_FilmGrain f)]"

definition frame_params_ok :: "frameState \<Rightarrow> bool" where
  "frame_params_ok f \<longleftrightarrow> quant_ok (fst_Quantization f) \<and> seg_ok (fst_Quantization f) (fst_Segmentation f) \<and> delta_ok (fst_Delta f) \<and>
     loopfilter_ok (fst_LoopFilter f) \<and> cdef_ok (fst_CDEF f) \<and> restoration_ok (fst_Restoration f) \<and> motion_ok (fst_GlobalMotion f) \<and>
     grain_ok (fst_FilmGrain f)"

definition frame_ok :: "frameState \<Rightarrow> bool" where
  "frame_ok f \<longleftrightarrow> seq_wf (fst_SequenceHeader f) \<and> prefix_ok (fst_SequenceHeader f) (fst_FrameHeader f) \<and>
     \<not> fh_ShowExistingFrame (fst_FrameHeader f) \<and> size_ok (fst_FrameSize f) \<and>
     tiles_ok (fst_SequenceHeader f) (fst_FrameSize f) (fst_TileInfo f) \<and> frame_params_ok f \<and> sorted (frame_bits f) \<and>
     length (fst_ReferenceOrderHints f) = InterRefsPerFrame"

lemma then_parse_Inr: "then_parse r f = Inr y \<longleftrightarrow> (\<exists>v. r = Inr v \<and> f v = Inr y)"
  by (cases r) (simp_all add: then_parse_def)

lemma length_referenceOrderHints: "length (referenceOrderHints sz refs) = InterRefsPerFrame"
  by (simp add: referenceOrderHints_def split: option.split)

lemma primary_slot_ok:
  assumes "refs_wf refs" "primary_slot refs prefix sz = Some ref"
  shows "ref_ok ref \<and> rf_Valid ref"
  using assms by (auto simp: primary_slot_def refs_wf_def Let_def split: if_splits)

text \<open>What each stage promises, in the order of the stages.\<close>

lemma ParseFrameSize_stage:
  assumes "ParseFrameSize payload seq prefix refs t s = Inr sz" "seq_wf seq" "\<And>rs. refs = Some rs \<Longrightarrow> refs_wf rs"
  shows "size_ok sz \<and> unat (fh_BitsRead prefix) \<le> unat (fs_BitsRead sz)"
proof -
  have p: "on_payload payload (fh_BitsRead prefix) (parseFrameSize_body seq prefix refs t s) = Inr sz"
    using assms(1) by (auto simp: ParseFrameSize_def parseFrameSize_def split: if_splits)
  have "rpost (parseFrameSize_body seq prefix refs t s) size_ok"
    using assms(2,3) by (intro rpost_parseFrameSize_body) (auto simp: seq_wf_def refs_wf_sizes)
  then show ?thesis using on_payload_post [OF _ p] size_stage.stage_bounds [OF p] by blast
qed

lemma ParseTileInfo_stage:
  assumes "ParseTileInfo payload seq prefix sz = Inr ti" "size_ok sz"
  shows "tiles_ok seq sz ti \<and> unat (fs_BitsRead sz) \<le> unat (ti_BitsRead ti)"
proof -
  have p: "on_payload payload (fs_BitsRead sz) (ParseTileInfo_body seq prefix sz) = Inr ti"
    using assms(1) by (auto simp: ParseTileInfo_def split: if_splits)
  then show ?thesis
    using on_payload_post [OF rpost_ParseTileInfo_body [OF assms(2)] p] tile_stage.stage_bounds [OF p] by simp
qed

lemma ParseSegmentationParams_stage:
  assumes "ParseSegmentationParams payload prefix q previous = Inr sg" "\<And>d. previous = Some d \<Longrightarrow> seg_data_ok d"
  shows "seg_ok q sg \<and> unat (qp_BitsRead q) \<le> unat (sgp_BitsRead sg)"
  using on_payload_post [OF rpost_ParseSegmentationParams_body assms(1) [unfolded ParseSegmentationParams_def]]
    segmentation_stage.stage_bounds [OF assms(1) [unfolded ParseSegmentationParams_def]] assms(2) by blast

lemma ParseLoopFilterParams_stage:
  assumes "ParseLoopFilterParams payload seq prefix sz sg dl previous = Inr lf" "\<And>d. previous = Some d \<Longrightarrow> lf_deltas_ok d"
  shows "loopfilter_ok lf \<and> unat (dl_BitsRead dl) \<le> unat (lf_BitsRead lf)"
  using on_payload_post [OF rpost_ParseLoopFilterParams_body assms(1) [unfolded ParseLoopFilterParams_def]]
    loopfilter_stage.stage_bounds [OF assms(1) [unfolded ParseLoopFilterParams_def]] assms(2) by blast

lemma params_stages:
  "ParseQuantizationParams payload seq ti = Inr q \<Longrightarrow> quant_ok q \<and> unat (ti_BitsRead ti) \<le> unat (qp_BitsRead q)"
  "ParseDeltaParams payload sz q sg = Inr dl \<Longrightarrow> delta_ok dl \<and> unat (sgp_BitsRead sg) \<le> unat (dl_BitsRead dl)"
  "ParseCDEFParams payload seq sz sg lf = Inr cd \<Longrightarrow> cdef_ok cd \<and> unat (lf_BitsRead lf) \<le> unat (cd_BitsRead cd)"
  "ParseRestorationParams payload seq sz sg cd = Inr rs \<Longrightarrow> restoration_ok rs \<and> unat (cd_BitsRead cd) \<le> unat (rs_BitsRead rs)"
  "ParseGlobalMotionParams payload prefix sz ti refs fm = Inr gm \<Longrightarrow> motion_ok gm \<and> unat (fm_BitsRead fm) \<le> unat (gm_BitsRead gm)"
  unfolding ParseQuantizationParams_def ParseDeltaParams_def ParseCDEFParams_def ParseRestorationParams_def ParseGlobalMotionParams_def
  by (auto dest: on_payload_post [OF rpost_ParseQuantizationParams_body] quant_stage.stage_bounds
    on_payload_post [OF rpost_ParseDeltaParams_body] delta_stage.stage_bounds
    on_payload_post [OF rpost_ParseCDEFParams_body] cdef_stage.stage_bounds
    on_payload_post [OF rpost_ParseRestorationParams_body] restoration_stage.stage_bounds
    on_payload_post [OF rpost_ParseGlobalMotionParams_body] motion_stage.stage_bounds)

lemma mode_stages:
  "ParseTransformReferenceParams payload prefix sg rs = Inr tr \<Longrightarrow> unat (rs_BitsRead rs) \<le> unat (tr_BitsRead tr)"
  "ParseSkipModeParams payload seq prefix sz refs tr = Inr sk \<Longrightarrow> unat (tr_BitsRead tr) \<le> unat (sk_BitsRead sk)"
  "ParseFrameModeParams payload seq prefix sk = Inr fm \<Longrightarrow> unat (sk_BitsRead sk) \<le> unat (fm_BitsRead fm)"
  unfolding ParseTransformReferenceParams_def ParseSkipModeParams_def ParseFrameModeParams_def
  by (auto dest: transform_stage.stage_bounds skip_stage.stage_bounds mode_stage.stage_bounds)

lemma ParseFilmGrainParams_stage:
  assumes "ParseFilmGrainParams payload seq prefix sz refs gm = Inr g" "\<And>rs. refs = Some rs \<Longrightarrow> refs_wf rs"
  shows "grain_ok g \<and> unat (gm_BitsRead gm) \<le> unat (fg_BitsRead g) \<and> unat (fg_BitsRead g) \<le> 8 * length payload"
proof -
  note p = assms(1) [unfolded ParseFilmGrainParams_def]
  have "rpost (ParseFilmGrainParams_body seq prefix sz refs) grain_ok"
    using assms(2) by (intro rpost_ParseFilmGrainParams_body) (auto simp: refs_wf_def ref_ok_def)
  then show ?thesis using on_payload_post [OF _ p] grain_stage.stage_bounds [OF p] by blast
qed

lemma frame_stages_ok:
  assumes "frame_stages payload s prefix t sp = Inr f" "prefix_ok (st_sequence s) prefix" "\<not> fh_ShowExistingFrame prefix"
    "seq_wf (st_sequence s)" "refs_wf (st_references s)"
  shows "frame_ok f \<and> fst_SequenceHeader f = st_sequence s \<and> fst_FrameHeader f = prefix \<and>
    unat (fg_BitsRead (fst_FilmGrain f)) \<le> 8 * length payload"
proof -
  obtain sz ti q sg dl lf cd rs tr sk fm gm g where
    size: "ParseFrameSize payload (st_sequence s) prefix (Some (st_references s)) t sp = Inr sz" and
    tile: "ParseTileInfo payload (st_sequence s) prefix sz = Inr ti" and
    quant: "ParseQuantizationParams payload (st_sequence s) ti = Inr q" and
    seg: "ParseSegmentationParams payload prefix q (previousSegmentationData s prefix sz) = Inr sg" and
    delta: "ParseDeltaParams payload sz q sg = Inr dl" and
    lf: "ParseLoopFilterParams payload (st_sequence s) prefix sz sg dl (previousLoopFilterDeltas s prefix sz) = Inr lf" and
    cdef: "ParseCDEFParams payload (st_sequence s) sz sg lf = Inr cd" and
    rest: "ParseRestorationParams payload (st_sequence s) sz sg cd = Inr rs" and
    trans: "ParseTransformReferenceParams payload prefix sg rs = Inr tr" and
    skip: "ParseSkipModeParams payload (st_sequence s) prefix sz (Some (st_references s)) tr = Inr sk" and
    mode: "ParseFrameModeParams payload (st_sequence s) prefix sk = Inr fm" and
    motion: "ParseGlobalMotionParams payload prefix sz ti (Some (st_references s)) fm = Inr gm" and
    grain: "ParseFilmGrainParams payload (st_sequence s) prefix sz (Some (st_references s)) gm = Inr g" and
    f: "f = \<lparr>fst_SequenceHeader = st_sequence s, fst_FrameHeader = prefix, fst_FrameSize = sz, fst_TileInfo = ti,
           fst_Quantization = q, fst_Segmentation = sg, fst_Delta = dl, fst_LoopFilter = lf, fst_CDEF = cd,
           fst_Restoration = rs, fst_TransformRef = tr, fst_SkipMode = sk, fst_FrameMode = fm,
           fst_GlobalMotion = gm, fst_FilmGrain = g, fst_ReferenceOrderHints = referenceOrderHints sz (Some (st_references s))\<rparr>"
    using assms(1) unfolding frame_stages_def Let_def then_parse_Inr by (elim exE conjE) (rule that; (assumption | (drule Inr_inject, erule sym)))
  have prev: "\<And>d. previousSegmentationData s prefix sz = Some d \<Longrightarrow> seg_data_ok d"
      "\<And>d. previousLoopFilterDeltas s prefix sz = Some d \<Longrightarrow> lf_deltas_ok d"
    using primary_slot_ok [OF assms(5)] by (auto simp: previousSegmentationData_def previousLoopFilterDeltas_def ref_ok_def)
  have a: "size_ok sz \<and> unat (fh_BitsRead prefix) \<le> unat (fs_BitsRead sz)" using ParseFrameSize_stage [OF size assms(4)] assms(5) by simp
  then have b: "tiles_ok (st_sequence s) sz ti \<and> unat (fs_BitsRead sz) \<le> unat (ti_BitsRead ti)" using ParseTileInfo_stage [OF tile] by blast
  have c: "grain_ok g \<and> unat (gm_BitsRead gm) \<le> unat (fg_BitsRead g) \<and> unat (fg_BitsRead g) \<le> 8 * length payload"
    using ParseFilmGrainParams_stage [OF grain] assms(5) by simp
  note ps = params_stages(1) [OF quant] ParseSegmentationParams_stage [OF seg prev(1)] params_stages(2) [OF delta]
    ParseLoopFilterParams_stage [OF lf prev(2)] params_stages(3) [OF cdef] params_stages(4) [OF rest] mode_stages(1) [OF trans]
    mode_stages(2) [OF skip] mode_stages(3) [OF mode] params_stages(5) [OF motion]
  have "sorted (frame_bits f)" unfolding frame_bits_def f using a b c ps by (simp add: sorted2_simps)
  then show ?thesis
    unfolding frame_ok_def frame_params_ok_def f using assms(2-4) a b c ps length_referenceOrderHints by simp
qed

section \<open>The invariant\<close>

definition tile_count :: "TileInfo \<Rightarrow> nat" where
  "tile_count ti = unat (ti_Cols ti) * unat (ti_Rows ti)"

text \<open>
  A pending frame. Its sequence header is the current one but for the operating parameters, which a repeated sequence header may change. The
  counter of tile groups does not wrap, since each group has a tile.
\<close>

definition pending_ok :: "Stream \<Rightarrow> bool" where
  "pending_ok s \<longleftrightarrow> st_haveSequence s \<and> frame_ok (st_frame s) \<and>
     sameSequenceExceptOperatingParameters (fst_SequenceHeader (st_frame s)) (st_sequence s) \<and> st_tileInfo s = fst_TileInfo (st_frame s) \<and>
     unat (st_nextTile s) < tile_count (st_tileInfo s) \<and> unat (st_tileGroups s) \<le> unat (st_nextTile s)"

definition idle_ok :: "Stream \<Rightarrow> bool" where
  "idle_ok s \<longleftrightarrow> st_tileGroups s = 0 \<and> st_tileInfo s = zero_TileInfo \<and> st_nextTile s = 0 \<and> st_frame s = zero_frameState"

definition stream_ok :: "Stream \<Rightarrow> bool" where
  "stream_ok s \<longleftrightarrow> refs_wf (st_references s) \<and> (st_haveSequence s \<longrightarrow> seq_wf (st_sequence s)) \<and>
     (if st_haveFrameHeader s then pending_ok s else idle_ok s)"

lemma stream_ok_Reset: "stream_ok Stream_Reset"
  by (simp add: stream_ok_def Stream_Reset_def refs_wf_zero idle_ok_def)

lemma stream_ok_rtp [simp]: "stream_ok (s\<lparr>st_rtp := d\<rparr>) = stream_ok s" "stream_ok (s\<lparr>st_tileListScratch := es\<rparr>) = stream_ok s"
  by (simp_all add: stream_ok_def pending_ok_def idle_ok_def)

lemma stream_ok_clear: "stream_ok s \<Longrightarrow> stream_ok (clearPendingFrame s)"
  by (simp add: stream_ok_def clearPendingFrame_def idle_ok_def)

lemma UpdateWithDecodeState_wf:
  assumes "refs_wf refs" "size_ok sz" "seg_data_ok sg" "lf_deltas_ok lf" "motion_ok gm" "grain_ok fg"
  shows "refs_wf (UpdateWithDecodeState prefix sz sg lf gm fg refs)"
proof -
  have "ref_ok (frame_slot prefix sz sg lf gm fg)" using assms by (simp add: ref_ok_def frame_slot_def)
  then have step: "refs_wf (r\<lparr>rst_Frames := (rst_Frames r)[i := frame_slot prefix sz sg lf gm fg]\<rparr>)" if "refs_wf r" for r i
    using that set_update_subset_insert [of "rst_Frames r" i] by (auto simp: refs_wf_def)
  show ?thesis
    unfolding UpdateWithDecodeState_def Let_def frame_slot_def [symmetric]
  proof (rule if_split [of refs_wf, THEN iffD2], intro conjI impI foldl_invariant [where P = refs_wf])
    fix r i
    assume r: "refs_wf r"
    show "refs_wf (if fs_RefreshFrameFlags sz AND push_bit i 1 \<noteq> 0 then r\<lparr>rst_Frames := (rst_Frames r)[i := frame_slot prefix sz sg lf gm fg]\<rparr> else r)"
      using r step [OF r, of i] by (cases "fs_RefreshFrameFlags sz AND push_bit i 1 \<noteq> 0") (simp_all only: if_P if_not_P not_False_eq_True)
  qed (rule assms(1))+
qed

lemma update_references_wf:
  assumes "refs_wf (st_references s)" "frame_ok f"
  shows "refs_wf (st_references (update_references f s))"
  using assms UpdateWithDecodeState_wf
  by (simp add: update_references_def frame_ok_def frame_params_ok_def seg_ok_def loopfilter_ok_def)

lemma tile_count_pos: "tiles_ok seq sz ti \<Longrightarrow> 0 < tile_count ti"
  by (auto simp: tiles_ok_def tile_starts_ok_def tile_count_def)

section \<open>The handlers by cases\<close>

text \<open>A frame header, the frame pending: the stream after it.\<close>

definition with_frame :: "frameState \<Rightarrow> Stream \<Rightarrow> Stream" where
  "with_frame f s = (update_references f s)\<lparr>st_haveFrameHeader := True, st_tileGroups := 0, st_tileInfo := fst_TileInfo f, st_nextTile := 0,
     st_frame := f\<rparr>"

lemma acceptExistingFrame_cases:
  assumes "acceptExistingFrame event s = (err, ev, s')"
  obtains (error) e where "err = Some e" "s' = s"
  | (shown) ref where "err = None" "ref = rst_Frames (st_references s) ! unat (fh_ExistingFrameIdx (fst_FrameHeader (ev_frame event)))" "rf_Valid ref"
      "ev_Kind ev = EventExistingFrame" "ev_ExistingFrame ev = ref"
      "s' = (if rf_FrameType ref = FrameTypeKey
         then (clearPendingFrame s)\<lparr>st_references := (st_references s)\<lparr>rst_Frames := replicate RefFrames (ref\<lparr>rf_ShowableFrame := False\<rparr>)\<rparr>\<rparr>
         else clearPendingFrame s)"
proof -
  define ev0 where "ev0 = event\<lparr>ev_frame := (ev_frame event)\<lparr>fst_SequenceHeader := st_sequence s\<rparr>\<rparr>"
  define ref where "ref = rst_Frames (st_references s) ! unat (fh_ExistingFrameIdx (fst_FrameHeader (ev_frame event)))"
  have hdr: "fst_FrameHeader (ev_frame ev0) = fst_FrameHeader (ev_frame event)" by (simp add: ev0_def)
  have refs: "st_references (clearPendingFrame s) = st_references s" by (simp add: clearPendingFrame_def)
  note eq = assms [unfolded acceptExistingFrame_def Let_def, folded ev0_def, unfolded hdr refs, folded ref_def]
  show ?thesis
  proof (cases "ev_NewCodedVideoSequence event \<or> \<not> rf_Valid ref \<or>
      sh_FrameIDNumbersPresent (st_sequence s) \<and> rf_FrameID ref \<noteq> fh_FrameID (fst_FrameHeader (ev_frame event)) \<or> \<not> rf_ShowableFrame ref")
    case True
    then have "\<exists>e. err = Some e \<and> s' = s" using eq by (auto split: if_splits)
    then show ?thesis using error by blast
  next
    case False
    then show ?thesis using eq shown [OF _ ref_def] by auto
  qed
qed

lemma acceptFrameHeader_cases:
  assumes "acceptFrameHeader event s = (err, ev, s')"
  obtains (error) e where "err = Some e" "s' = s"
  | (existing) hdr where "st_haveSequence s" "ParseFrameHeaderPrefix (un_Payload (ev_Unit event)) (st_sequence s) = Inr hdr"
      "fh_ShowExistingFrame hdr"
      "acceptExistingFrame (event\<lparr>ev_frame := (ev_frame event)\<lparr>fst_SequenceHeader := st_sequence s, fst_FrameHeader := hdr\<rparr>\<rparr>) s = (err, ev, s')"
  | (frame) hdr f where "err = None" "st_haveSequence s" "ParseFrameHeaderPrefix (un_Payload (ev_Unit event)) (st_sequence s) = Inr hdr"
      "\<not> fh_ShowExistingFrame hdr"
      "frame_stages (un_Payload (ev_Unit event)) s hdr (ev_TemporalID event) (ev_SpatialID event) = Inr f"
      "ev = event\<lparr>ev_frame := f\<rparr>" "s' = with_frame f s"
proof -
  have s: "(storeFrameState (event\<lparr>ev_frame := f\<rparr>) ((update_references f s)\<lparr>st_tileInfo := fst_TileInfo f, st_nextTile := 0\<rparr>))
      \<lparr>st_haveFrameHeader := True, st_tileGroups := 0\<rparr> = with_frame f s" for f
    by (simp add: storeFrameState_def with_frame_def)
  let ?p = "ParseFrameHeaderPrefix (un_Payload (ev_Unit event)) (st_sequence s)"
  show ?thesis
  proof (cases "st_haveSequence s")
    case True
    show ?thesis
    proof (cases ?p)
      case (Inr hdr)
      show ?thesis
      proof (cases "fh_ShowExistingFrame hdr")
        case ex: True
        show ?thesis using assms existing [OF True Inr ex] True Inr ex by (simp add: acceptFrameHeader_def)
      next
        case new: False
        let ?f = "frame_stages (un_Payload (ev_Unit event)) s hdr (ev_TemporalID event) (ev_SpatialID event)"
        show ?thesis
        proof (cases ?f)
          case (Inr f)
          show ?thesis
            using assms frame [OF _ True \<open>?p = Inr hdr\<close> new Inr] True \<open>?p = Inr hdr\<close> new Inr by (simp add: acceptFrameHeader_def s)
        qed (use assms error True Inr new in \<open>auto simp: acceptFrameHeader_def\<close>)
      qed
    qed (use assms error True in \<open>auto simp: acceptFrameHeader_def\<close>)
  qed (use assms error in \<open>auto simp: acceptFrameHeader_def\<close>)
qed

lemma push_sequence_header_cases:
  assumes "push_sequence_header event s = (err, ev, s')"
  obtains (error) e where "err = Some e" "s' = s"
  | (fresh) seq where "err = None" "ParseSequenceHeader (un_Payload (ev_Unit event)) = Inr seq" "ev_NewCodedVideoSequence ev"
      "s' = (clearPendingFrame s)\<lparr>st_references := ReferenceState_Reset, st_sequence := seq, st_haveSequence := True\<rparr>"
  | (same) seq where "err = None" "ParseSequenceHeader (un_Payload (ev_Unit event)) = Inr seq" "st_haveSequence s"
      "sameSequenceExceptOperatingParameters (st_sequence s) seq" "s' = s\<lparr>st_sequence := seq, st_haveSequence := True\<rparr>"
  using assms error fresh same unfolding push_sequence_header_def Let_def
  by (auto split: sum.splits if_splits)

lemma push_frame_cases:
  assumes "push_frame event s = (err, ev, s')"
  obtains (error) e where "err = Some e" "s' = s"
  | (frame) hdr f tg where "err = None" "st_haveSequence s" "ParseFrameHeaderPrefix (un_Payload (ev_Unit event)) (st_sequence s) = Inr hdr"
      "\<not> fh_ShowExistingFrame hdr"
      "frame_stages (un_Payload (ev_Unit event)) s hdr (ev_TemporalID event) (ev_SpatialID event) = Inr f"
      "ParseTileGroupHeader (un_Payload (ev_Unit event)) (fst_TileInfo f) (int (unat (fg_BitsRead (fst_FilmGrain f)))) 0 True = Inr tg"
      "ev = event\<lparr>ev_Kind := EventFrame, ev_frame := f, ev_TileGroup := tg\<rparr>"
      "s' = (if tg_Final tg then clearPendingFrame (update_references f s)
         else (with_frame f s)\<lparr>st_tileGroups := 1, st_nextTile := tg_NextTile tg\<rparr>)"
proof -
  have s: "(storeFrameState (event\<lparr>ev_Kind := EventFrame, ev_frame := f, ev_TileGroup := tg\<rparr>) ((update_references f s)\<lparr>st_tileInfo := fst_TileInfo f, st_nextTile := n\<rparr>))
      \<lparr>st_haveFrameHeader := True, st_tileGroups := 1\<rparr> = (with_frame f s)\<lparr>st_tileGroups := 1, st_nextTile := n\<rparr>"
    "clearPendingFrame ((storeFrameState (event\<lparr>ev_Kind := EventFrame, ev_frame := f, ev_TileGroup := tg\<rparr>) ((update_references f s)\<lparr>st_tileInfo := fst_TileInfo f, st_nextTile := n\<rparr>))
      \<lparr>st_haveFrameHeader := False, st_tileGroups := 1\<rparr>) = clearPendingFrame (update_references f s)" for f n tg
    by (simp_all add: storeFrameState_def with_frame_def clearPendingFrame_def)
  let ?p = "ParseFrameHeaderPrefix (un_Payload (ev_Unit event)) (st_sequence s)"
  show ?thesis
  proof (cases "st_haveSequence s")
    case True
    show ?thesis
    proof (cases ?p)
      case p: (Inr hdr)
      show ?thesis
      proof (cases "fh_ShowExistingFrame hdr")
        case new: False
        let ?f = "frame_stages (un_Payload (ev_Unit event)) s hdr (ev_TemporalID event) (ev_SpatialID event)"
        show ?thesis
        proof (cases ?f)
          case f: (Inr f)
          let ?t = "ParseTileGroupHeader (un_Payload (ev_Unit event)) (fst_TileInfo f) (int (unat (fg_BitsRead (fst_FilmGrain f)))) 0 True"
          show ?thesis
          proof (cases ?t)
            case t: (Inr tg)
            show ?thesis
              using assms frame [OF _ True p new f t] True p new f t by (cases "tg_Final tg") (simp_all add: push_frame_def s)
          qed (use assms error True p new f in \<open>auto simp: push_frame_def\<close>)
        qed (use assms error True p new in \<open>auto simp: push_frame_def\<close>)
      qed (use assms error True p in \<open>auto simp: push_frame_def\<close>)
    qed (use assms error True in \<open>auto simp: push_frame_def\<close>)
  qed (use assms error in \<open>auto simp: push_frame_def\<close>)
qed

lemma push_tile_group_cases:
  assumes "push_tile_group event s = (err, ev, s')"
  obtains (error) e where "err = Some e" "s' = s"
  | (group) tg where "err = None" "st_haveFrameHeader s"
      "ParseTileGroupHeader (un_Payload (ev_Unit event)) (st_tileInfo s) 0 (st_nextTile s) False = Inr tg"
      "ev = event\<lparr>ev_Kind := EventTileGroup, ev_frame := st_frame s, ev_TileGroup := tg\<rparr>"
      "s' = (if tg_Final tg then clearPendingFrame s else s\<lparr>st_tileGroups := st_tileGroups s + 1, st_nextTile := tg_NextTile tg\<rparr>)"
proof -
  have "clearPendingFrame (s\<lparr>st_tileGroups := a, st_nextTile := b\<rparr>) = clearPendingFrame s" for a b by (simp add: clearPendingFrame_def)
  then show ?thesis
    using assms error group unfolding push_tile_group_def Let_def applyFrameState_def
    by (auto split: if_splits sum.splits)
qed

lemma push_tile_list_cases:
  assumes "push_tile_list event s = (err, ev, s')"
  shows "err = None \<and> (\<exists>es. s' = s\<lparr>st_tileListScratch := es\<rparr>)"
proof -
  have "\<exists>es. s = s\<lparr>st_tileListScratch := es\<rparr>" by (rule exI [of _ "st_tileListScratch s"]) simp
  then show ?thesis
    using assms unfolding push_tile_list_def Let_def by (auto split: prod.splits option.splits if_splits)
qed

section \<open>Every operation keeps the invariant\<close>

lemma sameSequence_refl: "sameSequenceExceptOperatingParameters a a"
  by (simp add: sameSequenceExceptOperatingParameters_def)

lemma sameSequence_trans:
  "sameSequenceExceptOperatingParameters a b \<Longrightarrow> sameSequenceExceptOperatingParameters b c \<Longrightarrow> sameSequenceExceptOperatingParameters a c"
  by (simp add: sameSequenceExceptOperatingParameters_def)

lemma ParseSequenceHeader_seq_wf: "ParseSequenceHeader payload = Inr sh \<Longrightarrow> seq_wf sh"
  unfolding ParseSequenceHeader_def by (drule parseSequenceHeader_Inr) (auto dest: rpostD [OF rpost_parseSequenceHeader_fields])

lemma ParseFrameHeaderPrefix_prefix_ok: "ParseFrameHeaderPrefix payload seq = Inr hdr \<Longrightarrow> prefix_ok seq hdr"
  unfolding ParseFrameHeaderPrefix_def by (drule fst_Inr, erule exE) (erule rpostD [OF rpost_ParseFrameHeaderPrefix_body])

lemma with_frame_fields:
  "st_references (with_frame f s) = st_references (update_references f s)" "st_sequence (with_frame f s) = st_sequence s"
  "st_haveSequence (with_frame f s) = st_haveSequence s" "st_haveFrameHeader (with_frame f s)" "st_frame (with_frame f s) = f"
  "st_tileInfo (with_frame f s) = fst_TileInfo f" "st_nextTile (with_frame f s) = 0" "st_tileGroups (with_frame f s) = 0"
  by (simp_all add: with_frame_def update_references_def)

lemma stream_frame_ok:
  assumes "stream_ok s" "st_haveSequence s" "ParseFrameHeaderPrefix payload (st_sequence s) = Inr hdr" "\<not> fh_ShowExistingFrame hdr"
    "frame_stages payload s hdr t sp = Inr f"
  shows "frame_ok f \<and> refs_wf (st_references (update_references f s)) \<and> 0 < tile_count (fst_TileInfo f) \<and> fst_SequenceHeader f = st_sequence s"
proof -
  have "frame_ok f \<and> fst_SequenceHeader f = st_sequence s"
    using frame_stages_ok [OF assms(5) ParseFrameHeaderPrefix_prefix_ok [OF assms(3)] assms(4)] assms(1,2) by (simp add: stream_ok_def)
  then show ?thesis using assms(1) update_references_wf tile_count_pos by (auto simp: stream_ok_def frame_ok_def)
qed

lemma stream_ok_with_frame:
  assumes "stream_ok s" "st_haveSequence s" "frame_ok f" "refs_wf (st_references (update_references f s))"
    "fst_SequenceHeader f = st_sequence s" "unat n < tile_count (fst_TileInfo f)" "unat k \<le> unat n"
  shows "stream_ok ((with_frame f s)\<lparr>st_tileGroups := k, st_nextTile := n\<rparr>)"
  using assms by (simp add: stream_ok_def pending_ok_def with_frame_fields sameSequence_refl)

lemma group_next:
  assumes "ParseTileGroupHeader payload ti b start f = Inr tg" "\<not> tg_Final tg"
  shows "unat start < unat (tg_NextTile tg) \<and> unat (tg_NextTile tg) = unat (tg_EndTile tg) + 1 \<and> unat (tg_NextTile tg) < tile_count ti"
  using ParseTileGroupHeader_ok [OF assms(1)] assms(2) unfolding group_ok_def tile_count_def by auto

lemma acceptExistingFrame_stream_ok:
  assumes "stream_ok s" "acceptExistingFrame event s = (err, ev, s')" "unat (fh_ExistingFrameIdx (fst_FrameHeader (ev_frame event))) < 8"
  shows "stream_ok s'"
  using assms(2)
proof (cases rule: acceptExistingFrame_cases)
  case (shown ref)
  have "ref_ok ref" using assms(1,3) shown(2) by (auto simp: stream_ok_def refs_wf_def frame_consts)
  then have "refs_wf ((st_references s)\<lparr>rst_Frames := replicate RefFrames (ref\<lparr>rf_ShowableFrame := False\<rparr>)\<rparr>)"
    by (simp add: refs_wf_def ref_ok_def)
  then show ?thesis
    using stream_ok_clear [OF assms(1)] unfolding shown(6) by (simp add: stream_ok_def idle_ok_def clearPendingFrame_def)
qed (use assms in simp)

lemma acceptFrameHeader_stream_ok:
  assumes "stream_ok s" "acceptFrameHeader event s = (err, ev, s')"
  shows "stream_ok s'"
  using assms(2)
proof (cases rule: acceptFrameHeader_cases)
  case (existing hdr)
  then show ?thesis
    using acceptExistingFrame_stream_ok [OF assms(1) existing(4)] ParseFrameHeaderPrefix_prefix_ok [OF existing(2)] by (simp add: prefix_ok_def)
next
  case (frame hdr f)
  have "(with_frame f s)\<lparr>st_tileGroups := 0, st_nextTile := 0\<rparr> = with_frame f s" by (simp add: with_frame_def)
  then show ?thesis
    using stream_ok_with_frame [OF assms(1) frame(2), of f 0 0] stream_frame_ok [OF assms(1) frame(2-5)] unfolding frame(7) by simp
qed (use assms in simp)

lemma push_sequence_header_stream_ok:
  assumes "stream_ok s" "push_sequence_header event s = (err, ev, s')"
  shows "stream_ok s'"
  using assms(2)
proof (cases rule: push_sequence_header_cases)
  case (fresh seq)
  then show ?thesis
    using ParseSequenceHeader_seq_wf [OF fresh(2)] by (simp add: stream_ok_def idle_ok_def clearPendingFrame_def ReferenceState_Reset_def refs_wf_zero)
next
  case (same seq)
  then show ?thesis
    using ParseSequenceHeader_seq_wf [OF same(2)] assms(1) sameSequence_trans [OF _ same(4)] by (auto simp: stream_ok_def pending_ok_def idle_ok_def)
qed (use assms in simp)

lemma push_frame_stream_ok:
  assumes "stream_ok s" "push_frame event s = (err, ev, s')"
  shows "stream_ok s'"
  using assms(2)
proof (cases rule: push_frame_cases)
  case (frame hdr f tg)
  note f = stream_frame_ok [OF assms(1) frame(2-5)]
  show ?thesis
  proof (cases "tg_Final tg")
    case True
    then show ?thesis
      using f assms(1) unfolding frame(8) by (simp add: stream_ok_def idle_ok_def clearPendingFrame_def update_references_def)
  next
    case False
    note n = group_next [OF frame(6) False]
    show ?thesis
      using stream_ok_with_frame [OF assms(1) frame(2), of f "tg_NextTile tg" 1] f n False unfolding frame(8) by auto
  qed
qed (use assms in simp)

lemma push_tile_group_stream_ok:
  assumes "stream_ok s" "push_tile_group event s = (err, ev, s')"
  shows "stream_ok s'"
  using assms(2)
proof (cases rule: push_tile_group_cases)
  case (group tg)
  show ?thesis
  proof (cases "tg_Final tg")
    case True
    then show ?thesis using stream_ok_clear [OF assms(1)] unfolding group(5) by simp
  next
    case False
    note n = group_next [OF group(3) False]
    have "unat (st_tileGroups s + 1) \<le> unat (st_tileGroups s) + 1" by (simp add: unat_word_ariths)
    moreover have "unat (st_tileGroups s) \<le> unat (st_nextTile s)" using assms(1) group(2) by (simp add: stream_ok_def pending_ok_def)
    ultimately have "unat (st_tileGroups s + 1) \<le> unat (tg_NextTile tg)" using n by linarith
    then show ?thesis using assms(1) group(2) n False unfolding group(5) by (simp add: stream_ok_def pending_ok_def)
  qed
qed (use assms in simp)

lemma PushUnitInto_stream_ok:
  assumes "stream_ok s" "PushUnitInto unit b s = (err, ev, s')"
  shows "stream_ok s'"
proof -
  have "\<exists>es. s = s\<lparr>st_tileListScratch := es\<rparr>" by (rule exI [of _ "st_tileListScratch s"]) simp
  then show ?thesis
    using assms push_sequence_header_stream_ok [OF assms(1)] acceptFrameHeader_stream_ok [OF assms(1)] push_frame_stream_ok [OF assms(1)]
      push_tile_group_stream_ok [OF assms(1)] push_tile_list_cases [of "zero_event unit b" s] stream_ok_clear [OF assms(1)]
    unfolding PushUnitInto_def Let_def by (fastforce split: if_splits prod.splits)
qed

section \<open>Rejected units\<close>

lemma PushUnitInto_rejected:
  assumes "PushUnitInto unit b s = (Some e, ev, s')"
  shows "s' = s"
proof -
  have "acceptFrameHeader event s = (Some e, ev, s') \<Longrightarrow> s' = s" for event
    by (erule acceptFrameHeader_cases) (auto elim: acceptExistingFrame_cases)
  moreover have "push_sequence_header event s = (Some e, ev, s') \<Longrightarrow> s' = s" for event by (erule push_sequence_header_cases) auto
  moreover have "push_frame event s = (Some e, ev, s') \<Longrightarrow> s' = s" for event by (erule push_frame_cases) auto
  moreover have "push_tile_group event s = (Some e, ev, s') \<Longrightarrow> s' = s" for event by (erule push_tile_group_cases) auto
  moreover have "push_tile_list event s \<noteq> (Some e, ev, s')" for event using push_tile_list_cases [of event s "Some e"] by auto
  ultimately show ?thesis using assms unfolding PushUnitInto_def Let_def by (simp split: if_splits prod.splits)
qed

section \<open>Sequences of units\<close>

text \<open>Pushing units one by one up to the first that is rejected: the error, the events of the accepted units, and the stream.\<close>

fun push_units :: "(Unit \<times> bool) list \<Rightarrow> Stream \<Rightarrow> go_err option \<times> Event list \<times> Stream" where
  "push_units [] s = (None, [], s)"
| "push_units ((unit, b) # us) s =
     (case PushUnitInto unit b s of
        (Some e, ev, s') \<Rightarrow> (Some e, [], s')
      | (None, ev, s') \<Rightarrow> (case push_units us s' of (err, evs, t) \<Rightarrow> (err, ev # evs, t)))"

lemma push_units_stream_ok: "stream_ok s \<Longrightarrow> push_units us s = (err, evs, s') \<Longrightarrow> stream_ok s'"
proof (induction us s arbitrary: err evs s' rule: push_units.induct)
  case (2 unit b us s)
  then show ?case by (auto split: prod.splits option.splits dest: PushUnitInto_stream_ok)
qed simp

lemma push_units_append:
  "push_units (us @ vs) s =
     (case push_units us s of
        (Some e, evs, t) \<Rightarrow> (Some e, evs, t)
      | (None, evs, t) \<Rightarrow> (case push_units vs t of (err, fvs, t') \<Rightarrow> (err, evs @ fvs, t')))"
  by (induction us s rule: push_units.induct) (auto split: prod.splits option.splits)

lemma push_units_length: "push_units us s = (err, evs, t) \<Longrightarrow> length evs \<le> length us \<and> (err = None \<longleftrightarrow> length evs = length us)"
  by (induction us s arbitrary: err evs t rule: push_units.induct) (fastforce split: prod.splits option.splits)+

section \<open>Tile groups of a frame\<close>

definition tiles_left :: "Stream \<Rightarrow> nat" where
  "tiles_left s = (if st_haveFrameHeader s then tile_count (st_tileInfo s) - unat (st_nextTile s) else 0)"

definition group_tiles :: "TileGroup \<Rightarrow> nat list" where
  "group_tiles tg = [unat (tg_StartTile tg)..<unat (tg_EndTile tg) + 1]"

lemma PushUnitInto_tile_group: "hd_Type (un_Header unit) = TypeTileGroup \<Longrightarrow> PushUnitInto unit b s = push_tile_group (zero_event unit b) s"
  by (simp add: PushUnitInto_def Let_def obu_type_defs)

lemma push_tile_group_step:
  assumes "push_tile_group event s = (None, ev, s')"
  shows "st_haveFrameHeader s \<and> ev_Kind ev = EventTileGroup \<and> ev_frame ev = st_frame s \<and> group_tiles (ev_TileGroup ev) \<noteq> [] \<and>
    (if st_haveFrameHeader s' then st_frame s' = st_frame s \<and> st_tileInfo s' = st_tileInfo s \<and>
       group_tiles (ev_TileGroup ev) = [unat (st_nextTile s)..<unat (st_nextTile s')]
     else group_tiles (ev_TileGroup ev) = [unat (st_nextTile s)..<tile_count (st_tileInfo s)])"
  using assms
proof (cases rule: push_tile_group_cases)
  case (group tg)
  note g = ParseTileGroupHeader_ok [OF group(3), folded tile_count_def]
  have start: "unat (tg_StartTile tg) = unat (st_nextTile s)" using g by simp
  show ?thesis
  proof (cases "tg_Final tg")
    case True
    then have "unat (tg_EndTile tg) + 1 = tile_count (st_tileInfo s)" using g unfolding group_ok_def by auto
    then show ?thesis using g group True start by (auto simp: group_tiles_def clearPendingFrame_def group_ok_def)
  next
    case False
    note n = group_next [OF group(3) False]
    show ?thesis using g group False start n by (auto simp: group_tiles_def group_ok_def)
  qed
qed auto

lemma length_concat_nonempty: "\<forall>x \<in> set xs. f x \<noteq> [] \<Longrightarrow> length xs \<le> length (concat (map f xs))"
proof (induction xs)
  case (Cons x xs)
  then have "1 \<le> length (f x)" by (cases "f x") auto
  moreover have "length xs \<le> length (concat (map f xs))" using Cons by simp
  ultimately show ?case by simp
qed simp

lemma push_tile_groups:
  assumes "push_units us s = (None, evs, s')" "us \<noteq> []" "\<forall>(u, b) \<in> set us. hd_Type (un_Header u) = TypeTileGroup"
  shows "st_haveFrameHeader s \<and> (\<forall>ev \<in> set evs. ev_Kind ev = EventTileGroup \<and> ev_frame ev = st_frame s \<and> group_tiles (ev_TileGroup ev) \<noteq> []) \<and>
    concat (map (group_tiles \<circ> ev_TileGroup) evs) =
      [unat (st_nextTile s)..<(if st_haveFrameHeader s' then unat (st_nextTile s') else tile_count (st_tileInfo s))] \<and>
    (st_haveFrameHeader s' \<longrightarrow> st_tileInfo s' = st_tileInfo s)"
  using assms
proof (induction us s arbitrary: evs s' rule: push_units.induct)
  case (2 unit b us s)
  have u: "PushUnitInto unit b s = push_tile_group (zero_event unit b) s" using "2.prems"(3) by (simp add: PushUnitInto_tile_group)
  obtain ev s1 evs1 where p: "push_tile_group (zero_event unit b) s = (None, ev, s1)" "push_units us s1 = (None, evs1, s')" "evs = ev # evs1"
    using "2.prems"(1) unfolding push_units.simps u by (auto split: prod.splits option.splits)
  note st = push_tile_group_step [OF p(1)]
  show ?case
  proof (cases "us = []")
    case True
    then have "s1 = s'" "evs = [ev]" using p(2,3) by simp_all
    then show ?thesis using st by (cases "st_haveFrameHeader s'") auto
  next
    case False
    have IH: "st_haveFrameHeader s1 \<and> (\<forall>ev \<in> set evs1. ev_Kind ev = EventTileGroup \<and> ev_frame ev = st_frame s1 \<and> group_tiles (ev_TileGroup ev) \<noteq> []) \<and>
        concat (map (group_tiles \<circ> ev_TileGroup) evs1) =
          [unat (st_nextTile s1)..<(if st_haveFrameHeader s' then unat (st_nextTile s') else tile_count (st_tileInfo s1))] \<and>
        (st_haveFrameHeader s' \<longrightarrow> st_tileInfo s' = st_tileInfo s1)"
      by (rule "2.IH" [OF trans [OF u p(1), symmetric] refl refl p(2) False]) (use "2.prems"(3) in simp)
    let ?e = "if st_haveFrameHeader s' then unat (st_nextTile s') else tile_count (st_tileInfo s1)"
    have g: "group_tiles (ev_TileGroup ev) = [unat (st_nextTile s)..<unat (st_nextTile s1)]" "st_tileInfo s1 = st_tileInfo s" "st_frame s1 = st_frame s"
      using st IH by auto
    have c: "concat (map (group_tiles \<circ> ev_TileGroup) evs1) = [unat (st_nextTile s1)..<?e]" using IH by blast
    have "length evs1 \<le> length (concat (map (group_tiles \<circ> ev_TileGroup) evs1))" using IH by (intro length_concat_nonempty) simp
    moreover have "0 < length evs1" using False push_units_length [OF p(2)] by (cases us) auto
    ultimately have "unat (st_nextTile s1) \<le> ?e" unfolding c length_upt by linarith
    moreover have "unat (st_nextTile s) \<le> unat (st_nextTile s1)" using g(1) st by (cases "unat (st_nextTile s) \<le> unat (st_nextTile s1)") auto
    ultimately have "[unat (st_nextTile s)..<?e] = [unat (st_nextTile s)..<unat (st_nextTile s1)] @ [unat (st_nextTile s1)..<?e]"
      by (metis le_add_diff_inverse upt_add_eq_append)
    then have "concat (map (group_tiles \<circ> ev_TileGroup) evs) = [unat (st_nextTile s)..<?e]"
      unfolding p(3) by (simp only: list.map concat.simps o_apply g(1) c)
    moreover have "\<forall>ev \<in> set evs. ev_Kind ev = EventTileGroup \<and> ev_frame ev = st_frame s \<and> group_tiles (ev_TileGroup ev) \<noteq> []"
      unfolding p(3) list.set ball_simps using IH g(3) st by (metis insert_iff)
    ultimately show ?thesis using IH g(2) st by metis
  qed
qed simp

lemma tile_groups_bounded:
  assumes "stream_ok s" "push_units us s = (None, evs, s')" "\<forall>(u, b) \<in> set us. hd_Type (un_Header u) = TypeTileGroup"
  shows "length us + tiles_left s' \<le> tiles_left s"
proof (cases "us = []")
  case False
  note p = push_tile_groups [OF assms(2) False assms(3)]
  have "length evs \<le> length (concat (map (group_tiles \<circ> ev_TileGroup) evs))" using p by (intro length_concat_nonempty) auto
  moreover have "stream_ok s'" using push_units_stream_ok [OF assms(1,2)] .
  moreover have "1 \<le> length us" using False by (cases us) auto
  moreover have "st_haveFrameHeader s' \<longrightarrow> unat (st_nextTile s') < tile_count (st_tileInfo s')"
    using \<open>stream_ok s'\<close> by (auto simp: stream_ok_def pending_ok_def)
  ultimately show ?thesis
    using p push_units_length [OF assms(2)] unfolding tiles_left_def by (cases "st_haveFrameHeader s'") auto
qed (use assms in simp)

section \<open>Properties\<close>

inductive reachable :: "Stream \<Rightarrow> bool" where
  reset: "reachable Stream_Reset"
| reset_rtp: "reachable s \<Longrightarrow> reachable (ResetRTP s)"
| push_unit: "reachable s \<Longrightarrow> PushUnitInto unit b s = (err, ev, s') \<Longrightarrow> reachable s'"
| push_obu: "reachable s \<Longrightarrow> PushOBUInto event raw b s = (err, ev, s') \<Longrightarrow> reachable s'"
| push_low_overhead: "reachable s \<Longrightarrow> PushLowOverhead src events s = (n, err, events', s') \<Longrightarrow> reachable s'"
| push_rtp: "reachable s \<Longrightarrow> PushRTPPayload dst used spans events payload s = (r, dst', spans', events', s') \<Longrightarrow> reachable s'"

lemma PushLowOverhead_loop_stream_ok:
  "stream_ok s \<Longrightarrow> PushLowOverhead_loop it cnt events s = (n, err, events', s') \<Longrightarrow> stream_ok s'"
proof (induction it cnt events s rule: PushLowOverhead_loop.induct)
  case (1 it cnt events s)
  from "1.prems"(2) show ?case
    by (subst (asm) PushLowOverhead_loop.simps)
      (use "1.IH" "1.prems"(1) PushUnitInto_stream_ok in \<open>fastforce split: prod.splits sum.splits option.splits if_splits\<close>)
qed

lemma push_spans_stream_ok:
  "stream_ok s \<Longrightarrow> push_spans dst newUsed spans i events s = (n, err, events', s') \<Longrightarrow> stream_ok s'"
proof (induction dst newUsed spans i events s rule: push_spans.induct)
  case (2 dst newUsed span spans i events s)
  from "2.prems"(2) show ?case
    using "2.IH" "2.prems"(1) PushUnitInto_stream_ok by (fastforce split: prod.splits sum.splits option.splits if_splits)
qed simp

lemma reachable_ok: "reachable s \<Longrightarrow> stream_ok s"
proof (induction rule: reachable.induct)
  case (push_rtp s dst used spans events payload r dst' spans' events' s')
  then show ?case
    unfolding PushRTPPayload_def Let_def by (auto split: if_splits prod.splits intro: push_spans_stream_ok [rotated])
qed (auto simp: stream_ok_Reset ResetRTP_def PushOBUInto_def PushLowOverhead_def
    split: sum.splits dest: PushUnitInto_stream_ok PushLowOverhead_loop_stream_ok)

text \<open>
  C3: every state that the operations of the stream can reach is well formed, whatever bytes are pushed: the sequence header and all
  valid reference slots are in range; a pending frame has a header that was read completely and whose parts are in range, and tiles still to come,
  and counts its tile groups without wrap-around; without a pending frame all its fields are zero.
\<close>

theorem reachable_stream_ok:
  assumes "reachable s"
  shows "refs_wf (st_references s) \<and> (st_haveSequence s \<longrightarrow> seq_wf (st_sequence s)) \<and> (if st_haveFrameHeader s then pending_ok s else idle_ok s)"
  using reachable_ok [OF assms] by (simp add: stream_ok_def)

text \<open>A unit of the given type, with neither an extension nor a size field.\<close>

definition unit_of :: "u8 \<Rightarrow> bytes \<Rightarrow> Unit" where
  "unit_of typ payload = \<lparr>un_Header = \<lparr>hd_Type = typ, hd_Extension = False, hd_HasSizeField = False, hd_TemporalID = 0, hd_SpatialID = 0\<rparr>,
     un_HeaderLen = 1, un_SizeLen = 0, un_Size = word_of_nat (length payload), un_Payload = payload, un_Raw = push_bit 3 typ # payload\<rparr>"

text \<open>A sequence header for frames of 128 by 64 samples, and a frame header with two tiles.\<close>

definition two_tile_sequence :: Unit where
  "two_tile_sequence = unit_of TypeSequenceHeader [0x18, 0x19, 0x7f, 0xfe, 0x00, 0x04]"

definition two_tile_header :: Unit where
  "two_tile_header = unit_of TypeFrameHeader [0x18, 0x00, 0x02]"

definition two_tile_stream :: Stream where
  "two_tile_stream = snd (snd (push_units [(two_tile_sequence, False), (two_tile_header, False)] Stream_Reset))"

lemma reachable_push_units: "reachable s \<Longrightarrow> push_units us s = (err, evs, s') \<Longrightarrow> reachable s'"
proof (induction us s arbitrary: err evs s' rule: push_units.induct)
  case (2 unit b us s)
  then show ?case by (auto split: prod.splits option.splits dest: reachable.push_unit)
qed simp

lemma reachable_two_tile_stream: "reachable two_tile_stream"
proof -
  obtain err evs s' where "push_units [(two_tile_sequence, False), (two_tile_header, False)] Stream_Reset = (err, evs, s')" by (metis prod_cases3)
  then show ?thesis using reachable_push_units [OF reachable.reset] by (simp add: two_tile_stream_def del: push_units.simps)
qed

theorem reachable_stream_ok_witness:
  "pending_ok two_tile_stream \<and> st_haveFrameHeader two_tile_stream \<and> ti_Cols (st_tileInfo two_tile_stream) = 2"
proof -
  have "st_haveFrameHeader two_tile_stream \<and> ti_Cols (st_tileInfo two_tile_stream) = 2" by code_simp
  then show ?thesis using reachable_stream_ok [OF reachable_two_tile_stream] by simp
qed

lemma PushUnitInto_frame_header:
  assumes "PushUnitInto u b s = (None, ev, s')" "hd_Type (un_Header u) = TypeFrameHeader" "ev_Kind ev = EventFrameHeader"
  shows "s' = with_frame (ev_frame ev) s"
proof -
  have "acceptFrameHeader ((zero_event u b)\<lparr>ev_Kind := EventFrameHeader\<rparr>) s = (None, ev, s')"
    using assms(1,2) by (simp add: PushUnitInto_def Let_def obu_type_defs)
  then show ?thesis
  proof (cases rule: acceptFrameHeader_cases)
    case (existing hdr)
    from existing(4) show ?thesis by (cases rule: acceptExistingFrame_cases) (use assms(3) in auto)
  qed auto
qed

text \<open>
  C17: the tile groups of a frame cover its tiles in order and without gaps: after an accepted frame header, tile group OBUs that are
  accepted one after the other carry the tiles from 0 on, each exactly once, up to the next tile expected, or up to the last tile of the frame when it is
  complete; and each of their events carries the parameters of that frame header.
\<close>

theorem frame_tiles_in_order:
  assumes "PushUnitInto u b s = (None, ev, s0)" "hd_Type (un_Header u) = TypeFrameHeader" "ev_Kind ev = EventFrameHeader"
    "push_units us s0 = (None, evs, s')" "us \<noteq> []" "\<forall>(u, b) \<in> set us. hd_Type (un_Header u) = TypeTileGroup"
  shows "concat (map (group_tiles \<circ> ev_TileGroup) evs) =
      [0..<(if st_haveFrameHeader s' then unat (st_nextTile s') else tile_count (fst_TileInfo (ev_frame ev)))] \<and>
    (\<forall>e \<in> set evs. ev_Kind e = EventTileGroup \<and> ev_frame e = ev_frame ev)"
proof -
  have "s0 = with_frame (ev_frame ev) s" using PushUnitInto_frame_header [OF assms(1-3)] .
  then have "st_nextTile s0 = 0" "st_tileInfo s0 = fst_TileInfo (ev_frame ev)" "st_frame s0 = ev_frame ev" by (simp_all add: with_frame_fields)
  then show ?thesis using push_tile_groups [OF assms(4-6)] by simp
qed

theorem frame_tiles_in_order_witness:
  "\<exists>evs. push_units [(two_tile_sequence, False), (two_tile_header, False), (unit_of TypeTileGroup [0x80, 0xaa], False), (unit_of TypeTileGroup [0xe0, 0xbb], False)]
      Stream_Reset = (None, evs, snd (snd (push_units [(unit_of TypeTileGroup [0x80, 0xaa], False), (unit_of TypeTileGroup [0xe0, 0xbb], False)] two_tile_stream))) \<and>
     concat (map (group_tiles \<circ> ev_TileGroup) (drop 2 evs)) = [0, 1]"
proof -
  let ?g = "[(unit_of TypeTileGroup [0x80, 0xaa], False), (unit_of TypeTileGroup [0xe0, 0xbb], False)]"
  obtain e1 ev1 s1 where a: "PushUnitInto two_tile_sequence False Stream_Reset = (e1, ev1, s1)" by (metis prod_cases3)
  obtain e2 ev2 s2 where b: "PushUnitInto two_tile_header False s1 = (e2, ev2, s2)" by (metis prod_cases3)
  obtain e3 evs s3 where c: "push_units ?g s2 = (e3, evs, s3)" by (metis prod_cases3)
  have run: "case PushUnitInto two_tile_sequence False Stream_Reset of (e1, ev1, s1) \<Rightarrow> e1 = None \<and>
      (case PushUnitInto two_tile_header False s1 of (e2, ev2, s2) \<Rightarrow> e2 = None \<and> ev_Kind ev2 = EventFrameHeader \<and>
         tile_count (fst_TileInfo (ev_frame ev2)) = 2 \<and>
         (case push_units ?g s2 of (e3, evs, s3) \<Rightarrow> e3 = None \<and> \<not> st_haveFrameHeader s3))" by code_simp
  then have r: "e1 = None" "e2 = None" "ev_Kind ev2 = EventFrameHeader" "e3 = None" "\<not> st_haveFrameHeader s3"
      "tile_count (fst_TileInfo (ev_frame ev2)) = 2" unfolding a b c prod.case by blast+
  have s2: "two_tile_stream = s2" unfolding two_tile_stream_def by (simp add: a b r)
  have "concat (map (group_tiles \<circ> ev_TileGroup) evs) = [0, 1]"
    using frame_tiles_in_order [OF b [unfolded r(2)] _ r(3) c [unfolded r(4)]] r by (simp add: two_tile_header_def unit_of_def upt_rec)
  then show ?thesis using a b c r s2 by (intro exI [of _ "ev1 # ev2 # evs"]) simp
qed

text \<open>
  C18: a frame never stays pending for ever: in every reachable state with a pending frame, a sequence of tile group OBUs, however they are chosen,
  comes to the end of the frame or to a group that is rejected after at most as many groups as tiles are left.
\<close>

theorem pending_frame_ends:
  assumes "reachable s" "\<And>i :: nat. hd_Type (un_Header (f i)) = TypeTileGroup"
  shows "\<exists>k \<le> tiles_left s. case push_units (map (\<lambda>i. (f i, False)) [0..<k]) s of (err, evs, s') \<Rightarrow> err \<noteq> None \<or> \<not> st_haveFrameHeader s'"
proof (rule exI [of _ "tiles_left s"], intro conjI le_refl)
  let ?us = "map (\<lambda>i. (f i, False)) [0..<tiles_left s]"
  obtain err evs s' where p: "push_units ?us s = (err, evs, s')" by (metis prod_cases3)
  have "\<not> st_haveFrameHeader s'" if "err = None"
  proof
    assume h: "st_haveFrameHeader s'"
    have ok: "stream_ok s" using reachable_ok [OF assms(1)] .
    have "length ?us + tiles_left s' \<le> tiles_left s"
      using tile_groups_bounded [OF ok p [unfolded that]] assms(2) by auto
    moreover have "0 < tiles_left s'" using h push_units_stream_ok [OF ok p] by (auto simp: tiles_left_def stream_ok_def pending_ok_def)
    ultimately show False by simp
  qed
  then show "case push_units ?us s of (err, evs, s') \<Rightarrow> err \<noteq> None \<or> \<not> st_haveFrameHeader s'" using p by auto
qed

theorem pending_frame_ends_witness:
  "\<exists>k \<le> 2. case push_units (map (\<lambda>i. (unit_of TypeTileGroup [0x80, 0xaa], False)) [0..<k]) two_tile_stream of
     (err, evs, s') \<Rightarrow> err \<noteq> None \<or> \<not> st_haveFrameHeader s'"
proof -
  have "tiles_left two_tile_stream = 2" by code_simp
  then show ?thesis
    using pending_frame_ends [OF reachable_two_tile_stream, of "\<lambda>_. unit_of TypeTileGroup [0x80, 0xaa]"] by (simp add: unit_of_def)
qed

end
