(* ===== verification/Rtp_Packetizer.thy ===== *)
theory Rtp_Packetizer
  imports Rtp_Payload
begin

text \<open>
  The RTP packetizer (\<open>rtp/packetizer.go\<close>): it scans the OBUs of a frame, plans the packets within the payload
  limits, spreads the bytes over the packets, and writes them one by one. Sizes are Go \<open>int\<close> values; they are
  integers here, since the sizes of a frame are far from the bounds of the type. An index out of range is \<open>GoPanic\<close>.
\<close>

section \<open>Data\<close>

definition maxObusWithOmittedLastSize :: nat where "maxObusWithOmittedLastSize = 3"

record PayloadSizeLimits =
  pl_MaxPayloadLen :: int
  pl_FirstPacketReductionLen :: int
  pl_LastPacketReductionLen :: int
  pl_SinglePacketReductionLen :: int

record PacketizerOBU =
  po_Type :: u8
  po_Header :: Header
  po_HeaderSize :: nat
  po_PayloadSize :: nat
  po_headerByte :: u8
  po_extensionByte :: u8
  po_hasExtension :: bool
  po_payload :: bytes
  po_Size :: nat

record PacketPlan =
  pp_FirstOBU :: nat
  pp_NumOBUElements :: nat
  pp_FirstOBUOffset :: int
  pp_LastOBUSize :: int
  pp_PacketSize :: int

record PacketDependencyDescriptorFlags =
  pf_FirstPacketInFrame :: bool
  pf_LastPacketInFrame :: bool

record PacketizerScratchSize =
  sc_OBUs :: nat
  sc_Packets :: nat
  sc_Work :: nat

record Packetizer =
  pk_obus :: "PacketizerOBU list"
  pk_packets :: "PacketPlan list"
  pk_packetIndex :: nat
  pk_keyFrame :: bool
  pk_lastFrameInPicture :: bool

section \<open>The OBUs of a frame\<close>

definition packetizerHeaderBytes :: "Header \<Rightarrow> u8 \<times> u8" where
  "packetizerHeaderBytes header =
     (let b = push_bit 3 (hd_Type header);
          b = (if hd_Extension header then b OR 0x04 else b)
      in (b, push_bit 5 (hd_TemporalID header) OR push_bit 3 (hd_SpatialID header)))"

definition packetizer_obu :: "Unit \<Rightarrow> PacketizerOBU" where
  "packetizer_obu unit =
     (let header = (un_Header unit)\<lparr>hd_HasSizeField := False\<rparr>;
          (headerByte, extensionByte) = packetizerHeaderBytes header
      in \<lparr>po_Type = hd_Type (un_Header unit), po_Header = header, po_HeaderSize = HeaderLen header, po_PayloadSize = length (un_Payload unit),
          po_headerByte = headerByte, po_extensionByte = extensionByte, po_hasExtension = hd_Extension header,
          po_payload = un_Payload unit, po_Size = HeaderLen header + length (un_Payload unit)\<rparr>)"

text \<open>
  The scan: the OBUs that are written to \<open>out\<close>, of which \<open>cap\<close> fit (\<open>None\<close> when they are only counted), and the count and error.
\<close>

function scan_loop :: "bytes \<Rightarrow> nat option \<Rightarrow> PacketizerOBU list \<Rightarrow> nat \<Rightarrow> (nat \<times> go_err option) \<times> PacketizerOBU list" where
  "scan_loop rest cap out cnt =
     (if rest = [] then ((cnt, None), out)
      else case ParseElement rest of
        Inl e \<Rightarrow> ((cnt, Some e), out)
      | Inr unit \<Rightarrow>
          if un_Raw unit = [] then ((cnt, Some RtpErrShortPayload), out)
          else
            let rest = drop (length (un_Raw unit)) rest;
                typ = hd_Type (un_Header unit)
            in if typ = TypeTemporalDelimiter \<or> typ = TypeTileList \<or> typ = TypePadding then scan_loop rest cap out cnt
               else case cap of
                 None \<Rightarrow> scan_loop rest cap out (cnt + 1)
               | Some n \<Rightarrow> if cnt \<ge> n then ((cnt, Some RtpErrOBUBufferTooSmall), out)
                           else scan_loop rest cap (out @ [packetizer_obu unit]) (cnt + 1))"
  by pat_completeness auto
termination
  by (relation "measure (\<lambda>(rest, cap, out, cnt). length rest)") auto

declare scan_loop.simps [simp del]

definition ParsePacketizerOBUs :: "bytes \<Rightarrow> nat \<Rightarrow> (nat \<times> go_err option) \<times> PacketizerOBU list" where
  "ParsePacketizerOBUs payload outLen = scan_loop payload (Some outLen) [] 0"

definition CountPacketizerOBUs :: "bytes \<Rightarrow> nat \<times> go_err option" where
  "CountPacketizerOBUs payload = fst (scan_loop payload None [] 0)"

section \<open>Planning\<close>

definition packetizerOBULayer :: "PacketizerOBU \<Rightarrow> bool \<times> u8 \<times> u8" where
  "packetizerOBULayer current =
     (if po_hasExtension current then (True, hd_TemporalID (po_Header current), hd_SpatialID (po_Header current))
      else if po_Type current \<in> {TypeFrameHeader, TypeFrame, TypeTileGroup, TypeRedundantFrameHeader} then (True, 0, 0)
      else (False, 0, 0))"

definition additionalBytesForPreviousOBUElement :: "PacketPlan \<Rightarrow> int" where
  "additionalBytesForPreviousOBUElement packet =
     (if pp_PacketSize packet = 0 \<or> pp_NumOBUElements packet > maxObusWithOmittedLastSize then 0
      else int (LEB128Len (word_of_int (pp_LastOBUSize packet))))"

text \<open>The loop of \<open>maxFragmentSize\<close> over the lengths of a size field, and the result after the loop.\<close>

definition maxFragmentSize :: "int \<Rightarrow> int" where
  "maxFragmentSize remainingBytes =
     (if remainingBytes \<le> 1 then 0
      else case find (\<lambda>i. remainingBytes < 2 ^ (7 * i) + int i) [1..<MaxLEB128Bytes + 1] of
             Some i \<Rightarrow> remainingBytes - int i
           | None \<Rightarrow> remainingBytes - int MaxLEB128Bytes)"

record PlanState =
  pt_packets :: "PacketPlan list option"
  pt_count :: nat
  pt_packet :: PacketPlan
  pt_remaining :: int
  pt_hasLayer :: bool
  pt_temporalID :: u8
  pt_spatialID :: u8

definition storePacketPlan :: "PacketPlan list option \<Rightarrow> nat \<Rightarrow> PacketPlan \<Rightarrow> go_err + PacketPlan list option" where
  "storePacketPlan packets index packet =
     (case packets of
        None \<Rightarrow> Inr None
      | Some ps \<Rightarrow> if index \<ge> length ps then Inl RtpErrPacketPlanTooSmall else Inr (Some (ps[index := packet])))"

text \<open>The packet is stored and the next one is begun: the three statements that the planner repeats at each break.\<close>

definition plan_break :: "PacketPlan \<Rightarrow> PlanState \<Rightarrow> nat \<times> go_err + PlanState" where
  "plan_break packet s =
     (case storePacketPlan (pt_packets s) (pt_count s - 1) (pt_packet s) of
        Inl e \<Rightarrow> Inl (pt_count s, e)
      | Inr packets \<Rightarrow>
          if (case packets of None \<Rightarrow> False | Some ps \<Rightarrow> pt_count s \<ge> length ps) then Inl (pt_count s, RtpErrPacketPlanTooSmall)
          else Inr (s\<lparr>pt_packets := packets, pt_packet := packet, pt_count := pt_count s + 1\<rparr>))"

abbreviation empty_plan :: "nat \<Rightarrow> PacketPlan" where
  "empty_plan i \<equiv> \<lparr>pp_FirstOBU = i, pp_NumOBUElements = 0, pp_FirstOBUOffset = 0, pp_LastOBUSize = 0, pp_PacketSize = 0\<rparr>"

abbreviation fragment_plan :: "nat \<Rightarrow> int \<Rightarrow> int \<Rightarrow> PacketPlan" where
  "fragment_plan i off n \<equiv> \<lparr>pp_FirstOBU = i, pp_NumOBUElements = 1, pp_FirstOBUOffset = off, pp_LastOBUSize = n, pp_PacketSize = n\<rparr>"

definition set_layer :: "PacketizerOBU \<Rightarrow> PlanState \<Rightarrow> PlanState" where
  "set_layer current s =
     (case packetizerOBULayer current of (has, tid, sid) \<Rightarrow>
        if has then s\<lparr>pt_hasLayer := True, pt_temporalID := tid, pt_spatialID := sid\<rparr> else s\<lparr>pt_hasLayer := False\<rparr>)"

text \<open>A packet does not mix layers, and OBUs without a layer only come first.\<close>

definition plan_layer :: "int \<Rightarrow> nat \<Rightarrow> PacketizerOBU \<Rightarrow> PlanState \<Rightarrow> nat \<times> go_err + PlanState" where
  "plan_layer maxPayload i current s =
     (case packetizerOBULayer current of (has, tid, sid) \<Rightarrow>
        if pp_NumOBUElements (pt_packet s) > 0 \<and> pt_hasLayer s \<and> (\<not> has \<or> tid \<noteq> pt_temporalID s \<or> sid \<noteq> pt_spatialID s)
        then (case plan_break (empty_plan i) s of
                Inl e \<Rightarrow> Inl e
              | Inr s \<Rightarrow> Inr (s\<lparr>pt_remaining := maxPayload, pt_hasLayer := False\<rparr>))
        else Inr s)"

text \<open>Room for one byte of the OBU, after the length of the element before it.\<close>

definition plan_room :: "int \<Rightarrow> nat \<Rightarrow> PlanState \<Rightarrow> nat \<times> go_err + int \<times> PlanState" where
  "plan_room maxPayload i s =
     (let previousExtra = additionalBytesForPreviousOBUElement (pt_packet s);
          minRequired = (if pp_NumOBUElements (pt_packet s) \<ge> maxObusWithOmittedLastSize then 2 else 1)
      in if pt_remaining s < previousExtra + minRequired
         then (case plan_break (empty_plan i) s of
                 Inl e \<Rightarrow> Inl e
               | Inr s \<Rightarrow> Inr (0, s\<lparr>pt_remaining := maxPayload, pt_hasLayer := False\<rparr>))
         else Inr (previousExtra, s))"

text \<open>The packets that hold nothing but a middle part of the OBU. The loop ends when \<open>maxPayload\<close> is positive.\<close>

partial_function (option) plan_middle ::
    "int \<Rightarrow> nat \<Rightarrow> PacketizerOBU \<Rightarrow> int \<Rightarrow> PlanState \<Rightarrow> (nat \<times> go_err + int \<times> PlanState) option" where
  [code]: "plan_middle maxPayload i current obuOffset s =
     (if obuOffset + maxPayload < int (po_Size current)
      then (case plan_break (fragment_plan i obuOffset maxPayload) s of
              Inl e \<Rightarrow> Some (Inl e)
            | Inr s \<Rightarrow> plan_middle maxPayload i current (obuOffset + maxPayload) (set_layer current s))
      else Some (Inr (obuOffset, s)))"

text \<open>Division of Go integers by two, towards zero.\<close>

definition go_half :: "int \<Rightarrow> int" where
  "go_half a = (if a < 0 then - (- a div 2) else a div 2)"

text \<open>The tail of a fragmented OBU: of the last OBU it is split once more when it does not fit into the last packet.\<close>

definition plan_tail :: "PayloadSizeLimits \<Rightarrow> int \<Rightarrow> nat \<Rightarrow> bool \<Rightarrow> PacketizerOBU \<Rightarrow> int \<Rightarrow> PlanState \<Rightarrow> nat \<times> go_err + PlanState" where
  "plan_tail limits maxPayload i isLastOBU current obuOffset s =
     (let lastFragmentSize = int (po_Size current) - obuOffset;
          r = (if isLastOBU \<and> lastFragmentSize > maxPayload - pl_LastPacketReductionLen limits then
                 let secondLast = go_half (lastFragmentSize + pl_LastPacketReductionLen limits);
                     secondLast = (if secondLast \<ge> lastFragmentSize then lastFragmentSize - 1 else secondLast)
                 in case plan_break (fragment_plan i obuOffset secondLast) s of
                      Inl e \<Rightarrow> Inl e
                    | Inr s \<Rightarrow> Inr (obuOffset + secondLast, lastFragmentSize - secondLast, set_layer current s)
               else Inr (obuOffset, lastFragmentSize, s))
      in case r of
           Inl e \<Rightarrow> Inl e
         | Inr (obuOffset, lastFragmentSize, s) \<Rightarrow>
             (case plan_break (fragment_plan i obuOffset lastFragmentSize) s of
                Inl e \<Rightarrow> Inl e
              | Inr s \<Rightarrow> Inr (set_layer current (s\<lparr>pt_remaining := maxPayload - lastFragmentSize\<rparr>))))"

text \<open>
  The OBU in the current packet: whole, when it fits, or its first fragment. A first fragment of no bytes takes the
  element back out of the packet.
\<close>

definition plan_first :: "PacketizerOBU \<Rightarrow> int \<Rightarrow> PlanState \<Rightarrow> PlanState \<Rightarrow> int \<times> PlanState" where
  "plan_first current previousExtra old s =
     (let mustWriteSize = pp_NumOBUElements (pt_packet s) > maxObusWithOmittedLastSize;
          maxFirstFragment = (if mustWriteSize then maxFragmentSize (pt_remaining s) else pt_remaining s);
          firstFragmentSize = min (int (po_Size current) - 1) maxFirstFragment;
          packet = pt_packet s
      in (firstFragmentSize,
          if firstFragmentSize = 0 then
            s\<lparr>pt_packet := packet\<lparr>pp_NumOBUElements := pp_NumOBUElements packet - 1, pp_PacketSize := pp_PacketSize packet - previousExtra\<rparr>,
              pt_hasLayer := pt_hasLayer old, pt_temporalID := pt_temporalID old, pt_spatialID := pt_spatialID old\<rparr>
          else
            s\<lparr>pt_packet := packet\<lparr>pp_PacketSize := pp_PacketSize packet + firstFragmentSize +
                  (if mustWriteSize then int (LEB128Len (word_of_int firstFragmentSize)) else 0),
                pp_LastOBUSize := firstFragmentSize\<rparr>\<rparr>))"

definition plan_place ::
    "PayloadSizeLimits \<Rightarrow> int \<Rightarrow> nat \<Rightarrow> bool \<Rightarrow> PacketizerOBU \<Rightarrow> int \<Rightarrow> PlanState \<Rightarrow> (nat \<times> go_err + PlanState) option" where
  "plan_place limits maxPayload i isLastOBU current previousExtra old =
     (let packet = pt_packet old;
          packet = packet\<lparr>pp_PacketSize := pp_PacketSize packet + previousExtra, pp_NumOBUElements := pp_NumOBUElements packet + 1\<rparr>;
          s = old\<lparr>pt_packet := packet, pt_remaining := pt_remaining old - previousExtra\<rparr>;
          s = (case packetizerOBULayer current of (has, tid, sid) \<Rightarrow>
                 if has then s\<lparr>pt_hasLayer := True, pt_temporalID := tid, pt_spatialID := sid\<rparr> else s);
          mustWriteSize = pp_NumOBUElements packet > maxObusWithOmittedLastSize;
          required = int (po_Size current) + (if mustWriteSize then int (LEB128Len (word_of_nat (po_Size current))) else 0);
          available = pt_remaining s +
            (if isLastOBU then
               if pt_count s = 1 then pl_FirstPacketReductionLen limits - pl_SinglePacketReductionLen limits
               else - pl_LastPacketReductionLen limits
             else 0)
      in if required \<le> available
         then Some (Inr (s\<lparr>pt_packet := packet\<lparr>pp_LastOBUSize := int (po_Size current), pp_PacketSize := pp_PacketSize packet + required\<rparr>,
                           pt_remaining := pt_remaining s - required\<rparr>))
         else
           let (firstFragmentSize, s) = plan_first current previousExtra old s in
           case plan_middle maxPayload i current firstFragmentSize s of
             None \<Rightarrow> None
           | Some (Inl e) \<Rightarrow> Some (Inl e)
           | Some (Inr (obuOffset, s)) \<Rightarrow> Some (plan_tail limits maxPayload i isLastOBU current obuOffset s))"

definition plan_obu ::
    "PayloadSizeLimits \<Rightarrow> int \<Rightarrow> nat \<Rightarrow> bool \<Rightarrow> PacketizerOBU \<Rightarrow> PlanState \<Rightarrow> (nat \<times> go_err + PlanState) option" where
  "plan_obu limits maxPayload i isLastOBU current s =
     (case plan_layer maxPayload i current s of
        Inl e \<Rightarrow> Some (Inl e)
      | Inr s \<Rightarrow>
          (case plan_room maxPayload i s of
             Inl e \<Rightarrow> Some (Inl e)
           | Inr (previousExtra, s) \<Rightarrow> plan_place limits maxPayload i isLastOBU current previousExtra s))"

fun plan_loop ::
    "PayloadSizeLimits \<Rightarrow> int \<Rightarrow> nat \<Rightarrow> PacketizerOBU list \<Rightarrow> PlanState \<Rightarrow> (nat \<times> go_err + PlanState) option" where
  "plan_loop limits maxPayload i [] s = Some (Inr s)"
| "plan_loop limits maxPayload i (current # obus) s =
     (case plan_obu limits maxPayload i (obus = []) current s of
        None \<Rightarrow> None
      | Some (Inl e) \<Rightarrow> Some (Inl e)
      | Some (Inr s) \<Rightarrow> plan_loop limits maxPayload (i + 1) obus s)"

text \<open>The count of packets with the plans, or the count so far with the error; \<open>None\<close> when the planner does not return.\<close>

definition packetizeInternal ::
    "PacketizerOBU list \<Rightarrow> PayloadSizeLimits \<Rightarrow> PacketPlan list option \<Rightarrow> (nat \<times> go_err + nat \<times> PacketPlan list option) option" where
  "packetizeInternal obus limits packets =
     (if obus = [] then Some (Inr (0, packets))
      else if pl_MaxPayloadLen limits - pl_LastPacketReductionLen limits < 3 \<or>
        pl_MaxPayloadLen limits - pl_FirstPacketReductionLen limits < 3 then Some (Inl (0, RtpErrInvalidPayloadLimits))
      else if packets = Some [] then Some (Inl (0, RtpErrPacketPlanTooSmall))
      else
        let maxPayload = pl_MaxPayloadLen limits - 1 in
        case plan_loop limits maxPayload 0 obus
            \<lparr>pt_packets = packets, pt_count = 1, pt_packet = empty_plan 0,
             pt_remaining = maxPayload - pl_FirstPacketReductionLen limits, pt_hasLayer = False, pt_temporalID = 0, pt_spatialID = 0\<rparr> of
          None \<Rightarrow> None
        | Some (Inl e) \<Rightarrow> Some (Inl e)
        | Some (Inr s) \<Rightarrow>
            (case storePacketPlan (pt_packets s) (pt_count s - 1) (pt_packet s) of
               Inl e \<Rightarrow> Some (Inl (pt_count s, e))
             | Inr packets \<Rightarrow> Some (Inr (pt_count s, packets))))"

definition PacketizeOBUCount :: "PacketizerOBU list \<Rightarrow> PayloadSizeLimits \<Rightarrow> (nat \<times> go_err option) option" where
  "PacketizeOBUCount obus limits =
     (case packetizeInternal obus limits None of
        None \<Rightarrow> None | Some (Inl (n, e)) \<Rightarrow> Some (n, Some e) | Some (Inr (n, _)) \<Rightarrow> Some (n, None))"

text \<open>The bytes of the packets that the plan leaves unused.\<close>

definition plan_unused :: "PayloadSizeLimits \<Rightarrow> nat \<Rightarrow> PacketPlan list \<Rightarrow> int" where
  "plan_unused limits cnt packets = foldl (\<lambda>unused i.
     let available = pl_MaxPayloadLen limits - 1 -
           (if i = 0 then pl_FirstPacketReductionLen limits else if i = cnt - 1 then pl_LastPacketReductionLen limits else 0)
     in if available \<ge> pp_PacketSize (packets ! i) then unused + (available - pp_PacketSize (packets ! i)) else unused) 0 [0..<cnt]"

text \<open>The plans of a frame, and a second planning with smaller packets that evens out the sizes when it needs no more of them.\<close>

definition PacketizeOBUs ::
    "PacketizerOBU list \<Rightarrow> PayloadSizeLimits \<Rightarrow> PacketPlan list \<Rightarrow> PacketPlan list \<Rightarrow> (nat \<times> go_err + nat \<times> PacketPlan list) option" where
  "PacketizeOBUs obus limits packets work =
     (if obus \<noteq> [] \<and> packets = [] then Some (Inl (0, RtpErrPacketPlanTooSmall))
      else case packetizeInternal obus limits (Some packets) of
        None \<Rightarrow> None
      | Some (Inl e) \<Rightarrow> Some (Inl e)
      | Some (Inr (cnt, packets')) \<Rightarrow>
          let packets = the packets' in
          if cnt \<le> 1 then Some (Inr (cnt, packets))
          else
            let unused = plan_unused limits cnt packets in
            if unused \<le> int cnt * 10 then Some (Inr (cnt, packets))
            else if length work < cnt then Some (Inl (cnt, RtpErrPacketPlanTooSmall))
            else
              let reduction = unused div int cnt in
              if reduction \<le> 1 \<or> pl_MaxPayloadLen limits \<le> reduction then Some (Inr (cnt, packets))
              else
                let evenLimits = limits\<lparr>pl_MaxPayloadLen := pl_MaxPayloadLen limits - (reduction - 1)\<rparr> in
                if pl_MaxPayloadLen evenLimits - pl_LastPacketReductionLen evenLimits < 3 \<or>
                  pl_MaxPayloadLen evenLimits - pl_FirstPacketReductionLen evenLimits < 3 then Some (Inr (cnt, packets))
                else case packetizeInternal obus evenLimits (Some work) of
                  None \<Rightarrow> None
                | Some (Inl e) \<Rightarrow> Some (Inr (cnt, packets))
                | Some (Inr (evenCount, work')) \<Rightarrow>
                    if evenCount \<noteq> cnt then Some (Inr (cnt, packets))
                    else Some (Inr (cnt, take cnt (the work') @ drop cnt packets)))"

definition NewPacketizer ::
    "bytes \<Rightarrow> PayloadSizeLimits \<Rightarrow> bool \<Rightarrow> bool \<Rightarrow> nat \<Rightarrow> PacketPlan list \<Rightarrow> PacketPlan list \<Rightarrow> (go_err + Packetizer) option" where
  "NewPacketizer payload limits keyFrame lastFrameInPicture obuScratch packetScratch workScratch =
     (case ParsePacketizerOBUs payload obuScratch of
        ((n, Some e), obus) \<Rightarrow> Some (Inl e)
      | ((n, None), obus) \<Rightarrow>
          if n = 0 then Some (Inr \<lparr>pk_obus = [], pk_packets = [], pk_packetIndex = 0, pk_keyFrame = keyFrame,
                                   pk_lastFrameInPicture = lastFrameInPicture\<rparr>)
          else case PacketizeOBUs obus limits packetScratch workScratch of
            None \<Rightarrow> None
          | Some (Inl (n, e)) \<Rightarrow> Some (Inl e)
          | Some (Inr (cnt, packets)) \<Rightarrow>
              Some (Inr \<lparr>pk_obus = obus, pk_packets = take cnt packets, pk_packetIndex = 0, pk_keyFrame = keyFrame,
                         pk_lastFrameInPicture = lastFrameInPicture\<rparr>))"

definition PacketizerScratchLen :: "bytes \<Rightarrow> PayloadSizeLimits \<Rightarrow> nat \<Rightarrow> (PacketizerScratchSize \<times> go_err option) option" where
  "PacketizerScratchLen payload limits obuScratch =
     (case CountPacketizerOBUs payload of
        (obuCount, err) \<Rightarrow>
          let sz = \<lparr>sc_OBUs = obuCount, sc_Packets = 0, sc_Work = 0\<rparr> in
          if err \<noteq> None then Some (sz, err)
          else if obuCount = 0 \<or> obuScratch < obuCount then Some (sz, None)
          else case ParsePacketizerOBUs payload obuCount of
            ((parsed, Some e), obus) \<Rightarrow> Some (sz, Some e)
          | ((parsed, None), obus) \<Rightarrow>
              (case PacketizeOBUCount obus limits of
                 None \<Rightarrow> None
               | Some (n, Some e) \<Rightarrow> Some (sz, Some e)
               | Some (n, None) \<Rightarrow> Some (sz\<lparr>sc_Packets := n, sc_Work := if n > 1 then n else 0\<rparr>, None)))"

section \<open>Writing\<close>

definition NumPackets :: "Packetizer \<Rightarrow> nat" where
  "NumPackets p = length (pk_packets p) - pk_packetIndex p"

definition RemainingPacketPayloadSize :: "Packetizer \<Rightarrow> int" where
  "RemainingPacketPayloadSize p = foldl (\<lambda>n packet. n + (1 + pp_PacketSize packet)) 0 (drop (pk_packetIndex p) (pk_packets p))"

definition NextPacketSize :: "Packetizer \<Rightarrow> int option" where
  "NextPacketSize p =
     (if pk_packetIndex p \<ge> length (pk_packets p) then None else Some (1 + pp_PacketSize (pk_packets p ! pk_packetIndex p)))"

definition NextPacketPlan :: "Packetizer \<Rightarrow> PacketPlan option" where
  "NextPacketPlan p = (if pk_packetIndex p \<ge> length (pk_packets p) then None else Some (pk_packets p ! pk_packetIndex p))"

definition NextPacketDependencyDescriptorFlags :: "Packetizer \<Rightarrow> PacketDependencyDescriptorFlags option" where
  "NextPacketDependencyDescriptorFlags p =
     (if pk_packetIndex p \<ge> length (pk_packets p) then None
      else Some \<lparr>pf_FirstPacketInFrame = (pk_packetIndex p = 0), pf_LastPacketInFrame = (pk_packetIndex p = length (pk_packets p) - 1)\<rparr>)"

text \<open>The header of a packet; \<open>None\<close> when the index of its last OBU is out of range.\<close>

definition aggregationHeader :: "Packetizer \<Rightarrow> PacketPlan \<Rightarrow> AggregationHeader option" where
  "aggregationHeader p packet =
     (let lst = pp_FirstOBU packet + pp_NumOBUElements packet in
      if lst = 0 \<or> lst > length (pk_obus p) then None
      else
        let lastOBU = pk_obus p ! (lst - 1);
            lastOBUOffset = (if pp_NumOBUElements packet = 1 then pp_FirstOBUOffset packet else 0)
        in Some \<lparr>ah_ContinuesPrevious = pp_FirstOBUOffset packet > 0,
                 ah_ContinuesNext = lastOBUOffset + pp_LastOBUSize packet < int (po_Size lastOBU),
                 ah_ElementCount = (if pp_NumOBUElements packet \<le> maxObusWithOmittedLastSize then word_of_nat (pp_NumOBUElements packet) else 0),
                 ah_StartsNewCodedVideoSequence = (pk_keyFrame p \<and> pk_packetIndex p = 0 \<and> pk_obus p \<noteq> [] \<and>
                   po_Type (pk_obus p ! 0) = TypeSequenceHeader)\<rparr>)"

text \<open>The bytes \<open>offset\<close> to \<open>offset + size\<close> of an OBU: its header byte, its extension byte and its payload.\<close>

definition writeOBUFragment :: "bytes \<Rightarrow> PacketizerOBU \<Rightarrow> int \<Rightarrow> int \<Rightarrow> (go_err + nat) \<times> bytes" where
  "writeOBUFragment dst current offset sz =
     (if offset < 0 \<or> sz < 0 \<or> offset + sz > int (po_Size current) then (Inl RtpErrShortPayload, dst)
      else if int (length dst) < sz then (Inl RtpErrShortBuffer, dst)
      else
        let (dst, off, pos, remaining) = (dst, 0, nat offset, nat sz);
            (dst, off, pos, remaining) =
              (if pos = 0 \<and> remaining > 0 then (dst[off := po_headerByte current], off + 1, pos + 1, remaining - 1)
               else (dst, off, pos, remaining));
            (dst, off, pos, remaining) =
              (if po_hasExtension current \<and> pos = 1 \<and> remaining > 0
               then (dst[off := po_extensionByte current], off + 1, pos + 1, remaining - 1) else (dst, off, pos, remaining))
        in if remaining > 0 then
             let payloadOffset = pos - 1 - (if po_hasExtension current then 1 else 0)
             in (Inr (off + remaining), put_at dst off (take remaining (drop payloadOffset (po_payload current))))
           else (Inr off, dst))"

text \<open>One element: its length, where it is written, and its bytes, at offset \<open>off\<close> of the packet.\<close>

definition write_element :: "bytes \<Rightarrow> nat \<Rightarrow> bool \<Rightarrow> PacketizerOBU \<Rightarrow> int \<Rightarrow> int \<Rightarrow> (go_err + nat) \<times> bytes" where
  "write_element dst off sized current obuOffset fragmentSize =
     (let (r, dst) = (if sized then let (r, tail) = PutLEB128 (drop off dst) (word_of_int fragmentSize) in (r, take off dst @ tail)
                      else (Inr 0, dst))
      in case r of
           Inl e \<Rightarrow> (Inl e, dst)
         | Inr n \<Rightarrow>
             let off = off + n; (w, tail) = writeOBUFragment (drop off dst) current obuOffset fragmentSize; dst = take off dst @ tail
             in case w of Inl e \<Rightarrow> (Inl e, dst) | Inr wrote \<Rightarrow> (Inr (off + wrote), dst))"

text \<open>The loop of \<open>NextPacket\<close> over the elements, the last one included; \<open>obus\<close> are the OBUs that the packet touches.\<close>

fun write_elements :: "bytes \<Rightarrow> nat \<Rightarrow> bool \<Rightarrow> int \<Rightarrow> int \<Rightarrow> PacketizerOBU list \<Rightarrow> (go_err + nat) \<times> bytes" where
  "write_elements dst off sized obuOffset lastSize [] = (Inl GoPanic, dst)"
| "write_elements dst off sized obuOffset lastSize [lst] = write_element dst off sized lst obuOffset lastSize"
| "write_elements dst off sized obuOffset lastSize (current # o1 # obus) =
     (case write_element dst off True current obuOffset (int (po_Size current) - obuOffset) of
        (Inl e, dst) \<Rightarrow> (Inl e, dst)
      | (Inr off, dst) \<Rightarrow> write_elements dst off sized 0 lastSize (o1 # obus))"

definition NextPacket :: "Packetizer \<Rightarrow> bytes \<Rightarrow> (go_err + (nat \<times> bool) option) \<times> Packetizer \<times> bytes" where
  "NextPacket p dst =
     (if pk_packetIndex p \<ge> length (pk_packets p) then (Inr None, p, dst)
      else
        let packet = pk_packets p ! pk_packetIndex p in
        if int (length dst) < 1 + pp_PacketSize packet then (Inl RtpErrShortBuffer, p, dst)
        else case aggregationHeader p packet of
          None \<Rightarrow> (Inl GoPanic, p, dst)
        | Some header \<Rightarrow>
            (case AggregationHeader_Byte header of
               Inl e \<Rightarrow> (Inl e, p, dst)
             | Inr b \<Rightarrow>
                 if dst = [] then (Inl GoPanic, p, dst)
                 else
                   (case write_elements (dst[0 := b]) 1 (pp_NumOBUElements packet > maxObusWithOmittedLastSize)
                       (pp_FirstOBUOffset packet) (pp_LastOBUSize packet)
                       (take (pp_NumOBUElements packet) (drop (pp_FirstOBU packet) (pk_obus p))) of
                      (Inl e, dst) \<Rightarrow> (Inl e, p, dst)
                    | (Inr off, dst) \<Rightarrow>
                        if int off \<noteq> 1 + pp_PacketSize packet then (Inl RtpErrShortBuffer, p, dst)
                        else
                          let p = p\<lparr>pk_packetIndex := pk_packetIndex p + 1\<rparr>
                          in (Inr (Some (off, pk_packetIndex p = length (pk_packets p) \<and> pk_lastFrameInPicture p)), p, dst))))"

end
