(* ===== verification/Rtp_Plan.thy ===== *)
theory Rtp_Plan
  imports Rtp_Packetizer
begin

text \<open>
  What the packetizer's plans mean: the fragments of the OBUs that a packet carries, the bytes that they take, and that the
  planner covers the frame, in order and within the limits of the packets.
\<close>

section \<open>The fragments of a plan\<close>

text \<open>The bytes of an OBU as RTP carries it, without its size field.\<close>

definition po_raw :: "PacketizerOBU \<Rightarrow> bytes" where
  "po_raw o1 = po_headerByte o1 # (if po_hasExtension o1 then [po_extensionByte o1] else []) @ po_payload o1"

definition obu_fits :: "PacketizerOBU \<Rightarrow> bool" where
  "obu_fits o1 \<longleftrightarrow> po_Size o1 = length (po_raw o1) \<and> po_Size o1 < 2 ^ 32"

text \<open>
  The fragments of a packet: \<open>n\<close> elements of the OBUs \<open>rs\<close>, from offset \<open>off\<close> of the first to \<open>ls\<close> bytes of the last. A fragment
  comes with whether it continues the one before it and whether it is continued.
\<close>

type_synonym fragment = "bytes \<times> bool \<times> bool"

fun frags :: "bytes list \<Rightarrow> nat \<Rightarrow> nat \<Rightarrow> nat \<Rightarrow> fragment list" where
  "frags (r # rs) off (Suc 0) ls = [(take ls (drop off r), off > 0, off + ls < length r)]"
| "frags (r # rs) off (Suc (Suc n)) ls = (drop off r, off > 0, False) # frags rs 0 (Suc n) ls"
| "frags _ _ _ _ = []"

definition plan_frags :: "bytes list \<Rightarrow> PacketPlan \<Rightarrow> fragment list" where
  "plan_frags rs p = frags (drop (pp_FirstOBU p) rs) (nat (pp_FirstOBUOffset p)) (pp_NumOBUElements p) (nat (pp_LastOBUSize p))"

definition plan_size :: "fragment list \<Rightarrow> nat" where
  "plan_size fs = length (element_bytes (length fs > 3) (map fst fs))"

text \<open>Joining fragments: the OBUs that are complete and the part of the one that is not; \<open>None\<close> when a fragment does not fit.\<close>

fun join_frags :: "bytes option \<Rightarrow> fragment list \<Rightarrow> (bytes list \<times> bytes option) option" where
  "join_frags p [] = Some ([], p)"
| "join_frags p ((d, cp, cn) # fs) =
     (if cp \<longleftrightarrow> p = None then None
      else if cn then join_frags (Some ((case p of None \<Rightarrow> [] | Some b \<Rightarrow> b) @ d)) fs
      else map_option (\<lambda>(us, q). (((case p of None \<Rightarrow> [] | Some b \<Rightarrow> b) @ d) # us, q)) (join_frags None fs))"

lemma join_frags_append:
  "join_frags p fs = Some (us, q) \<Longrightarrow> join_frags p (fs @ gs) = map_option (\<lambda>(vs, r). (us @ vs, r)) (join_frags q gs)"
proof (induction p fs arbitrary: us rule: join_frags.induct)
  case (1 p)
  then show ?case by (cases "join_frags p gs") auto
next
  case (2 p d cp cn fs)
  then show ?case by (cases "join_frags q gs") (auto split: if_splits)
qed

text \<open>
  The parts of the OBUs that a plan may name, from the first one on, and the plans whose last OBU is whole.
\<close>

definition plan_wf :: "bytes list \<Rightarrow> nat \<Rightarrow> nat \<Rightarrow> nat \<Rightarrow> bool" where
  "plan_wf rs off n ls \<longleftrightarrow> 0 < n \<and> n \<le> length rs \<and> off < length (hd rs) \<and> 0 < ls \<and>
     (if n = 1 then off + ls \<le> length (hd rs) else ls \<le> length (rs ! (n - 1)))"

definition plan_whole :: "bytes list \<Rightarrow> nat \<Rightarrow> nat \<Rightarrow> nat \<Rightarrow> bool" where
  "plan_whole rs off n ls \<longleftrightarrow> plan_wf rs off n ls \<and> (if n = 1 then off + ls = length (hd rs) else ls = length (rs ! (n - 1)))"

lemma frags_add:
  assumes "plan_whole rs off n ls" "n < length rs" "\<forall>r \<in> set rs. r \<noteq> []"
  shows "frags rs off (Suc n) k = frags rs off n ls @ [(take k (rs ! n), False, k < length (rs ! n))]"
  using assms
proof (induction rs off n ls rule: frags.induct)
  case (1 r rs off ls)
  then show ?case by (cases rs) (auto simp: plan_whole_def plan_wf_def)
next
  case (2 r rs off n ls)
  have "plan_whole rs 0 (Suc n) ls" using 2 by (cases rs; cases n) (auto simp: plan_whole_def plan_wf_def)
  then show ?case using 2 by simp
qed (auto simp: plan_whole_def plan_wf_def)

lemma length_frags: "n \<le> length rs \<Longrightarrow> length (frags rs off n ls) = n"
  by (induction rs off n ls rule: frags.induct) auto

lemma last_frags_whole:
  assumes "plan_whole rs off n ls" "\<forall>r \<in> set rs. r \<noteq> []"
  shows "frags rs off n ls \<noteq> [] \<and> length (fst (last (frags rs off n ls))) = ls"
  using assms
proof (induction rs off n ls rule: frags.induct)
  case (2 r rs off n ls)
  then show ?case by (cases rs; cases n) (auto simp: plan_whole_def plan_wf_def)
qed (auto simp: plan_whole_def plan_wf_def)

section \<open>The size of a packet\<close>

abbreviation leb_len :: "nat \<Rightarrow> nat" where
  "leb_len k \<equiv> length (leb128 (word_of_nat k))"

text \<open>The bytes of elements that all have their length before them.\<close>

definition sized_bytes :: "fragment list \<Rightarrow> nat" where
  "sized_bytes fs = sum_list (map (\<lambda>f. leb_len (length (fst f)) + length (fst f)) fs)"

lemma length_element_bytes_snoc:
  "length (element_bytes sized (map fst fs @ [d])) = sized_bytes fs + length d + (if sized then leb_len (length d) else 0)"
  by (induction fs) (auto simp: sized_bytes_def)

lemma plan_size_snoc:
  "plan_size (fs @ [f]) = sized_bytes fs + length (fst f) + (if length fs \<ge> 3 then leb_len (length (fst f)) else 0)"
  by (simp add: plan_size_def length_element_bytes_snoc)

lemma plan_size_sized:
  assumes "fs \<noteq> []"
  shows "plan_size fs + (if length fs > 3 then 0 else leb_len (length (fst (last fs)))) = sized_bytes fs"
  using plan_size_snoc [of "butlast fs" "last fs"] assms
  by (cases fs rule: rev_cases) (auto simp: sized_bytes_def)

definition mk_plan :: "bytes list \<Rightarrow> nat \<Rightarrow> nat \<Rightarrow> nat \<Rightarrow> nat \<Rightarrow> PacketPlan" where
  "mk_plan rs f n off ls = \<lparr>pp_FirstOBU = f, pp_NumOBUElements = n, pp_FirstOBUOffset = int off, pp_LastOBUSize = int ls,
     pp_PacketSize = int (plan_size (frags (drop f rs) off n ls))\<rparr>"

lemma mk_plan_simps [simp]:
  "pp_FirstOBU (mk_plan rs f n off ls) = f" "pp_NumOBUElements (mk_plan rs f n off ls) = n"
  "pp_FirstOBUOffset (mk_plan rs f n off ls) = int off" "pp_LastOBUSize (mk_plan rs f n off ls) = int ls"
  "pp_PacketSize (mk_plan rs f n off ls) = int (plan_size (frags (drop f rs) off n ls))"
  "plan_frags rs (mk_plan rs f n off ls) = frags (drop f rs) off n ls"
  by (simp_all add: mk_plan_def plan_frags_def)

lemma frags_0 [simp]: "frags rs off 0 ls = []"
  by (cases "(rs, off, 0 :: nat, ls)" rule: frags.cases) auto

lemma plan_size_Nil [simp]: "plan_size [] = 0" by (simp add: plan_size_def)

definition plan_pre :: "bytes list \<Rightarrow> nat \<Rightarrow> nat \<Rightarrow> nat \<Rightarrow> nat \<Rightarrow> bool" where
  "plan_pre rs f n off ls \<longleftrightarrow> n = 0 \<and> off = 0 \<and> ls = 0 \<or> plan_whole (drop f rs) off n ls"

lemma additional_bytes:
  assumes "plan_pre rs f n off ls" "\<forall>r \<in> set rs. r \<noteq> [] \<and> length r < 2 ^ 32"
  shows "int (plan_size (frags (drop f rs) off n ls)) + additionalBytesForPreviousOBUElement (mk_plan rs f n off ls) =
    int (sized_bytes (frags (drop f rs) off n ls))"
proof (cases "n = 0")
  case True
  then show ?thesis using assms(1) by (simp add: additionalBytesForPreviousOBUElement_def sized_bytes_def)
next
  case False
  then have w: "plan_whole (drop f rs) off n ls" using assms(1) by (simp add: plan_pre_def)
  have ne: "\<forall>r \<in> set (drop f rs). r \<noteq> []" using assms(2) by (auto dest: in_set_dropD)
  let ?fs = "frags (drop f rs) off n ls"
  have l: "?fs \<noteq> []" "length (fst (last ?fs)) = ls" "length ?fs = n" "0 < ls"
    using last_frags_whole [OF w ne] w by (auto simp: length_frags plan_whole_def plan_wf_def)
  have "ls \<le> plan_size ?fs" using plan_size_snoc [of "butlast ?fs" "last ?fs"] l by simp
  then show ?thesis
    using plan_size_sized [OF l(1)] l
    by (auto simp: additionalBytesForPreviousOBUElement_def maxObusWithOmittedLastSize_def LEB128Len_length)
qed

text \<open>Another element of \<open>k\<close> bytes in the packet.\<close>

lemma add_element:
  assumes "plan_pre rs f n off ls" "\<forall>r \<in> set rs. r \<noteq> [] \<and> length r < 2 ^ 32" "f + n < length rs" "0 < k" "k \<le> length (rs ! (f + n))"
  shows "frags (drop f rs) off (Suc n) k = frags (drop f rs) off n ls @ [(take k (rs ! (f + n)), False, k < length (rs ! (f + n)))]"
    "plan_wf (drop f rs) off (Suc n) k"
    "int (plan_size (frags (drop f rs) off (Suc n) k)) = int (plan_size (frags (drop f rs) off n ls)) +
       additionalBytesForPreviousOBUElement (mk_plan rs f n off ls) + int k + (if n \<ge> 3 then int (leb_len k) else 0)"
    "k = length (rs ! (f + n)) \<Longrightarrow> plan_whole (drop f rs) off (Suc n) k"
proof -
  have ne: "\<forall>r \<in> set (drop f rs). r \<noteq> []" using assms(2) by (auto dest: in_set_dropD)
  have nth: "drop f rs ! n = rs ! (f + n)" "n < length (drop f rs)" using assms(3) by auto
  show f: "frags (drop f rs) off (Suc n) k = frags (drop f rs) off n ls @ [(take k (rs ! (f + n)), False, k < length (rs ! (f + n)))]"
  proof (cases "n = 0")
    case True
    then have "off = 0" using assms(1) by (auto simp: plan_pre_def plan_whole_def plan_wf_def)
    moreover have "drop f rs = rs ! f # drop (Suc f) rs" using assms(3) True by (simp add: Cons_nth_drop_Suc)
    ultimately show ?thesis using True by simp
  next
    case False
    then show ?thesis using frags_add [OF _ nth(2) ne] assms(1) nth(1) by (simp add: plan_pre_def)
  qed
  have h: "hd (drop f rs) = rs ! f" using assms(3) by (simp add: hd_drop_conv_nth)
  show wf: "plan_wf (drop f rs) off (Suc n) k"
    using assms(1,3,4,5) nth h by (auto simp: plan_pre_def plan_wf_def plan_whole_def)
  show "k = length (rs ! (f + n)) \<Longrightarrow> plan_whole (drop f rs) off (Suc n) k"
    using wf nth h assms(1) by (auto simp: plan_whole_def plan_pre_def plan_wf_def)
  have "length (frags (drop f rs) off n ls) = n" using assms(3) by (intro length_frags) simp
  then show "int (plan_size (frags (drop f rs) off (Suc n) k)) = int (plan_size (frags (drop f rs) off n ls)) +
       additionalBytesForPreviousOBUElement (mk_plan rs f n off ls) + int k + (if n \<ge> 3 then int (leb_len k) else 0)"
    using additional_bytes [OF assms(1,2)] assms(5) unfolding f plan_size_snoc by (simp add: min_def)
qed

section \<open>Plans that cover a part of the frame\<close>

definition limits_ok :: "PayloadSizeLimits \<Rightarrow> bool" where
  "limits_ok lm \<longleftrightarrow> 0 \<le> pl_FirstPacketReductionLen lm \<and> 0 \<le> pl_LastPacketReductionLen lm \<and>
     pl_MaxPayloadLen lm - pl_LastPacketReductionLen lm \<ge> 3 \<and> pl_MaxPayloadLen lm - pl_FirstPacketReductionLen lm \<ge> 3"

text \<open>A frame of one byte has to fit into a single packet: the planner cannot split it.\<close>

definition single_ok :: "PayloadSizeLimits \<Rightarrow> bytes list \<Rightarrow> bool" where
  "single_ok lm rs \<longleftrightarrow> pl_SinglePacketReductionLen lm \<le> pl_MaxPayloadLen lm - 2 \<or> map length rs \<noteq> [1]"

abbreviation room :: "PayloadSizeLimits \<Rightarrow> int" where
  "room lm \<equiv> pl_MaxPayloadLen lm - 1"

text \<open>The room in the packet of index \<open>j\<close>, when it is not the last.\<close>

definition room_of :: "PayloadSizeLimits \<Rightarrow> nat \<Rightarrow> int" where
  "room_of lm j = room lm - (if j = 0 then pl_FirstPacketReductionLen lm else 0)"

definition good_plan :: "bytes list \<Rightarrow> PacketPlan \<Rightarrow> bool" where
  "good_plan rs p \<longleftrightarrow> (\<exists>f n off ls. p = mk_plan rs f n off ls \<and> plan_wf (drop f rs) off n ls)"

abbreviation all_frags :: "bytes list \<Rightarrow> PacketPlan list \<Rightarrow> fragment list" where
  "all_frags rs ps \<equiv> concat (map (plan_frags rs) ps)"

text \<open>The plans carry the first \<open>i\<close> OBUs and the part \<open>q\<close> of the next one.\<close>

definition covers :: "bytes list \<Rightarrow> nat \<Rightarrow> bytes option \<Rightarrow> PacketPlan list \<Rightarrow> bool" where
  "covers rs i q ps \<longleftrightarrow> (\<forall>p \<in> set ps. good_plan rs p) \<and> join_frags None (all_frags rs ps) = Some (take i rs, q)"

definition sizes_ok :: "PayloadSizeLimits \<Rightarrow> PacketPlan list \<Rightarrow> bool" where
  "sizes_ok lm ps \<longleftrightarrow> (\<forall>j < length ps. pp_PacketSize (ps ! j) \<le> room_of lm j)"

lemma sizes_ok_snoc: "sizes_ok lm (ps @ [p]) \<longleftrightarrow> sizes_ok lm ps \<and> pp_PacketSize p \<le> room_of lm (length ps)"
  unfolding sizes_ok_def by (auto simp: nth_append less_Suc_eq)

lemma covers_snoc:
  assumes "covers rs i q ps" "good_plan rs p" "join_frags q (plan_frags rs p) = Some (us, q')" "take i rs @ us = take i' rs"
  shows "covers rs i' q' (ps @ [p])"
  using assms join_frags_append [of None "all_frags rs ps" "take i rs" q "plan_frags rs p"] by (auto simp: covers_def)

definition part_of :: "bytes \<Rightarrow> nat \<Rightarrow> bytes option" where
  "part_of r off = (if off = 0 then None else Some (take off r))"

lemma fragment_good:
  assumes "i < length rs" "off < length (rs ! i)" "0 < k" "off + k \<le> length (rs ! i)"
  shows "fragment_plan i (int off) (int k) = mk_plan rs i 1 off k" "good_plan rs (fragment_plan i (int off) (int k))"
    "plan_frags rs (fragment_plan i (int off) (int k)) = [(take k (drop off (rs ! i)), off > 0, off + k < length (rs ! i))]"
proof -
  obtain xs where d: "drop i rs = rs ! i # xs" using assms(1) Cons_nth_drop_Suc [of i rs, symmetric] by blast
  have z: "plan_size [(take k (drop off (rs ! i)), c, e)] = k" for c e using assms by (simp add: plan_size_def)
  show m: "fragment_plan i (int off) (int k) = mk_plan rs i 1 off k" using z by (simp add: mk_plan_def d)
  show "plan_frags rs (fragment_plan i (int off) (int k)) = [(take k (drop off (rs ! i)), off > 0, off + k < length (rs ! i))]"
    by (simp add: plan_frags_def d)
  show "good_plan rs (fragment_plan i (int off) (int k))"
  proof -
    have "plan_wf (drop i rs) off 1 k" using assms by (simp add: plan_wf_def d)
    then show ?thesis unfolding good_plan_def m by blast
  qed
qed

lemma covers_fragment:
  assumes "covers rs i (part_of (rs ! i) off) ps" "i < length rs" "off < length (rs ! i)" "0 < k" "off + k \<le> length (rs ! i)"
  shows "off + k < length (rs ! i) \<Longrightarrow> covers rs i (part_of (rs ! i) (off + k)) (ps @ [fragment_plan i (int off) (int k)])"
    "off + k = length (rs ! i) \<Longrightarrow> covers rs (Suc i) None (ps @ [fragment_plan i (int off) (int k)])"
proof -
  note g = fragment_good [OF assms(2-5)]
  have t: "take off (rs ! i) @ take k (drop off (rs ! i)) = take (off + k) (rs ! i)" by (simp add: take_add)
  have q: "part_of (rs ! i) (off + k) = Some (take (off + k) (rs ! i))" using assms(4) by (simp add: part_of_def)
  have "join_frags (part_of (rs ! i) off) [(take k (drop off (rs ! i)), off > 0, c)] =
      (if c then Some ([], Some (take (off + k) (rs ! i))) else Some ([take (off + k) (rs ! i)], None))" for c
    using t by (auto simp: part_of_def)
  note j = this [of "off + k < length (rs ! i)", folded g(3)]
  show "covers rs i (part_of (rs ! i) (off + k)) (ps @ [fragment_plan i (int off) (int k)])" if "off + k < length (rs ! i)"
    using covers_snoc [OF assms(1) g(2)] j that unfolding q by simp
  show "covers rs (Suc i) None (ps @ [fragment_plan i (int off) (int k)])" if "off + k = length (rs ! i)"
    using covers_snoc [OF assms(1) g(2), of "[rs ! i]"] j that assms(2) by (simp add: take_Suc_conv_app_nth)
qed

section \<open>The storage of the plans\<close>

text \<open>
  The planner runs with or without storage for its plans. The plans \<open>ps\<close> before the current one are in the storage; it
  reports an error when the current one does not fit.
\<close>

definition stored :: "PacketPlan list option \<Rightarrow> PacketPlan list \<Rightarrow> PacketPlan list option" where
  "stored xs ps = map_option (\<lambda>ys. ps @ drop (length ps) ys) xs"

definition fits :: "PacketPlan list option \<Rightarrow> PacketPlan list \<Rightarrow> bool" where
  "fits xs ps \<longleftrightarrow> (case xs of None \<Rightarrow> True | Some ys \<Rightarrow> length ps < length ys)"

abbreviation too_small :: "PacketPlan list option \<Rightarrow> nat \<times> go_err" where
  "too_small xs \<equiv> (length (the xs), RtpErrPacketPlanTooSmall)"

lemma fits_mono: "fits xs qs \<Longrightarrow> length ps \<le> length qs \<Longrightarrow> fits xs ps"
  by (auto simp: fits_def split: option.splits)

lemma storePacketPlan_stored:
  "fits xs ps \<Longrightarrow> storePacketPlan (stored xs ps) (length ps) p = Inr (stored xs (ps @ [p]))"
  by (cases xs) (auto simp: storePacketPlan_def stored_def fits_def list_update_append upd_conv_take_nth_drop Cons_nth_drop_Suc [symmetric])

lemma plan_break_stored:
  assumes "fits xs ps" "pt_count s = Suc (length ps)"
  shows "plan_break p (s\<lparr>pt_packets := stored xs ps\<rparr>) =
    (if fits xs (ps @ [pt_packet s])
     then Inr ((s\<lparr>pt_packet := p, pt_count := Suc (pt_count s)\<rparr>)\<lparr>pt_packets := stored xs (ps @ [pt_packet s])\<rparr>)
     else Inl (too_small xs))"
  using assms storePacketPlan_stored [OF assms(1)]
  by (cases xs) (auto simp: plan_break_def fits_def stored_def)

lemma set_layer_simps [simp]:
  "set_layer c (s\<lparr>pt_packets := x\<rparr>) = (set_layer c s)\<lparr>pt_packets := x\<rparr>"
  "pt_packet (set_layer c s) = pt_packet s" "pt_count (set_layer c s) = pt_count s" "pt_remaining (set_layer c s) = pt_remaining s"
  by (auto simp: set_layer_def split: prod.splits)

text \<open>A step of the planner: the plans before the current one and the state, before and after.\<close>

definition runs :: "(PlanState \<Rightarrow> nat \<times> go_err + PlanState) \<Rightarrow> PacketPlan list \<Rightarrow> PlanState \<Rightarrow> PacketPlan list \<Rightarrow> PlanState \<Rightarrow> bool" where
  "runs op ps s ps' s' \<longleftrightarrow> length ps \<le> length ps' \<and> pt_count s' = Suc (length ps') \<and>
     (\<forall>xs. fits xs ps \<longrightarrow> op (s\<lparr>pt_packets := stored xs ps\<rparr>) =
        (if fits xs ps' then Inr (s'\<lparr>pt_packets := stored xs ps'\<rparr>) else Inl (too_small xs)))"

lemma runsD:
  assumes "runs op ps s ps' s'"
  shows "length ps \<le> length ps'" "pt_count s' = Suc (length ps')"
    "fits xs ps \<Longrightarrow> op (s\<lparr>pt_packets := stored xs ps\<rparr>) = (if fits xs ps' then Inr (s'\<lparr>pt_packets := stored xs ps'\<rparr>) else Inl (too_small xs))"
  using assms by (auto simp: runs_def)

lemma runs_break:
  "pt_count s = Suc (length ps) \<Longrightarrow>
     runs (plan_break p) ps s (ps @ [pt_packet s]) (s\<lparr>pt_packet := p, pt_count := Suc (pt_count s)\<rparr>)"
  by (simp add: runs_def plan_break_stored)

lemma runs_id: "pt_count s = Suc (length ps) \<Longrightarrow> runs Inr ps s ps s"
  by (simp add: runs_def)

text \<open>The storage is handed on from one step to the next.\<close>

lemma runs_bind:
  assumes "runs op ps s ps1 s1" "runs op2 ps1 s1 ps2 s2"
  shows "runs (\<lambda>s. case op s of Inl e \<Rightarrow> Inl e | Inr s \<Rightarrow> op2 s) ps s ps2 s2"
  unfolding runs_def
proof (intro conjI allI impI)
  fix xs assume f: "fits xs ps"
  show "(case op (s\<lparr>pt_packets := stored xs ps\<rparr>) of Inl e \<Rightarrow> Inl e | Inr s \<Rightarrow> op2 s) =
      (if fits xs ps2 then Inr (s2\<lparr>pt_packets := stored xs ps2\<rparr>) else Inl (too_small xs))"
    using runsD(3) [OF assms(1) f] runsD(3) [OF assms(2), of xs] fits_mono [OF _ runsD(1) [OF assms(2)], of xs] by auto
qed (use runsD(1,2) [OF assms(1)] runsD(1,2) [OF assms(2)] in auto)

section \<open>The parts of an OBU\<close>

definition mid :: "PayloadSizeLimits \<Rightarrow> bytes list \<Rightarrow> nat \<Rightarrow> nat \<Rightarrow> PacketPlan list \<Rightarrow> PlanState \<Rightarrow> bool" where
  "mid lm rs i off ps s \<longleftrightarrow> pt_count s = Suc (length ps) \<and> off < length (rs ! i) \<and>
     covers rs i (part_of (rs ! i) off) (ps @ [pt_packet s]) \<and> sizes_ok lm (ps @ [pt_packet s])"

lemma room_of_snoc: "room_of lm (length (ps @ [p])) = room lm"
  by (simp add: room_of_def)

text \<open>A packet with nothing but a part of the OBU that does not end it.\<close>

lemma mid_fragment:
  assumes "mid lm rs i off ps s" "i < length rs" "0 < k" "off + k < length (rs ! i)" "int k \<le> room lm"
    "pt_packet s' = fragment_plan i (int off) (int k)" "pt_count s' = Suc (pt_count s)"
  shows "mid lm rs i (off + k) (ps @ [pt_packet s]) s'"
  using assms covers_fragment(1) [of rs i off "ps @ [pt_packet s]" k]
  unfolding mid_def by (simp only: sizes_ok_snoc [of lm "ps @ [pt_packet s]"] room_of_snoc) simp

lemma plan_middle_runs:
  assumes "mid lm rs i off ps s" "i < length rs" "po_Size current = length (rs ! i)" "0 < room lm"
  shows "\<exists>off' ps' s'. mid lm rs i off' ps' s' \<and> length (rs ! i) \<le> off' + nat (room lm) \<and> length ps \<le> length ps' \<and>
    (\<forall>xs. fits xs ps \<longrightarrow> plan_middle (room lm) i current (int off) (s\<lparr>pt_packets := stored xs ps\<rparr>) =
       Some (if fits xs ps' then Inr (int off', s'\<lparr>pt_packets := stored xs ps'\<rparr>) else Inl (too_small xs)))"
  using assms
proof (induction "length (rs ! i) - off" arbitrary: off ps s rule: less_induct)
  case less
  let ?k = "nat (room lm)"
  show ?case
  proof (cases "int off + room lm < int (po_Size current)")
    case False
    then show ?thesis
      using less.prems by (intro exI [of _ off] exI [of _ ps] exI [of _ s]) (auto simp: plan_middle.simps)
  next
    case True
    let ?p = "fragment_plan i (int off) (room lm)"
    let ?s = "set_layer current (s\<lparr>pt_packet := ?p, pt_count := Suc (pt_count s)\<rparr>)"
    let ?ps = "ps @ [pt_packet s]"
    have cnt: "pt_count s = Suc (length ps)" using less.prems(1) by (simp add: mid_def)
    have k: "0 < ?k" "off + ?k < length (rs ! i)" using True less.prems(3,4) by linarith+
    have m: "mid lm rs i (off + ?k) ?ps ?s"
      using less.prems(4) by (intro mid_fragment [OF less.prems(1,2) k]) simp_all
    have "length (rs ! i) - (off + ?k) < length (rs ! i) - off" using k by linarith
    from less.hyps [OF this m less.prems(2-4)] obtain off' ps' s' where IH: "mid lm rs i off' ps' s'"
      "length (rs ! i) \<le> off' + ?k" "length ?ps \<le> length ps'"
      "\<And>xs. fits xs ?ps \<Longrightarrow> plan_middle (room lm) i current (int (off + ?k)) (?s\<lparr>pt_packets := stored xs ?ps\<rparr>) =
         Some (if fits xs ps' then Inr (int off', s'\<lparr>pt_packets := stored xs ps'\<rparr>) else Inl (too_small xs))"
      by blast
    have "plan_middle (room lm) i current (int off) (s\<lparr>pt_packets := stored xs ps\<rparr>) =
         Some (if fits xs ps' then Inr (int off', s'\<lparr>pt_packets := stored xs ps'\<rparr>) else Inl (too_small xs))" if "fits xs ps" for xs
      using that True plan_break_stored [OF that cnt, of ?p] IH(4) [of xs] fits_mono [OF _ IH(3), of xs] less.prems(4)
      by (subst plan_middle.simps) auto
    then show ?thesis using IH(1-3) by (intro exI [of _ off'] exI [of _ ps'] exI [of _ s']) auto
  qed
qed

lemma runs_map:
  assumes "pt_count s = Suc (length ps)" "\<And>x. f (s\<lparr>pt_packets := x\<rparr>) = (f s)\<lparr>pt_packets := x\<rparr>" "pt_count (f s) = pt_count s"
  shows "runs (\<lambda>s. Inr (f s)) ps s ps (f s)"
  using assms by (simp add: runs_def)

text \<open>The packet that a part of the OBU begins, and the layer of the OBU.\<close>

definition begin_fragment :: "nat \<Rightarrow> PacketizerOBU \<Rightarrow> int \<Rightarrow> int \<Rightarrow> (PlanState \<Rightarrow> PlanState) \<Rightarrow> PlanState \<Rightarrow> nat \<times> go_err + PlanState" where
  "begin_fragment i current off k upd s =
     (case plan_break (fragment_plan i off k) s of Inl e \<Rightarrow> Inl e | Inr s \<Rightarrow> Inr (set_layer current (upd s)))"

lemma begin_fragment_runs:
  assumes "pt_count s = Suc (length ps)" "\<And>s x. upd (s\<lparr>pt_packets := x\<rparr>) = (upd s)\<lparr>pt_packets := x\<rparr>" "\<And>s. pt_count (upd s) = pt_count s"
    "\<And>s. pt_packet (upd s) = pt_packet s"
  shows "\<exists>s'. runs (begin_fragment i current off k upd) ps s (ps @ [pt_packet s]) s' \<and> pt_packet s' = fragment_plan i off k \<and>
    pt_count s' = Suc (pt_count s) \<and> pt_remaining s' = pt_remaining (upd (s\<lparr>pt_packet := fragment_plan i off k, pt_count := Suc (pt_count s)\<rparr>))"
proof -
  let ?s = "s\<lparr>pt_packet := fragment_plan i off k, pt_count := Suc (pt_count s)\<rparr>"
  have "runs (\<lambda>s. Inr (set_layer current (upd s))) (ps @ [pt_packet s]) ?s (ps @ [pt_packet s]) (set_layer current (upd ?s))"
    using assms by (intro runs_map) simp_all
  from runs_bind [OF runs_break [OF assms(1)] this] show ?thesis
    unfolding begin_fragment_def [abs_def] using assms(3,4) by (intro exI [of _ "set_layer current (upd ?s)"]) simp
qed

lemma plan_tail_eq:
  "plan_tail lm M i isLast current off =
     (let lf = int (po_Size current) - off;
          k = go_half (lf + pl_LastPacketReductionLen lm);
          k = (if k \<ge> lf then lf - 1 else k)
      in if isLast \<and> lf > M - pl_LastPacketReductionLen lm
         then (\<lambda>s. case begin_fragment i current off k id s of Inl e \<Rightarrow> Inl e
                   | Inr s \<Rightarrow> begin_fragment i current (off + k) (lf - k) (\<lambda>s. s\<lparr>pt_remaining := M - (lf - k)\<rparr>) s)
         else begin_fragment i current off lf (\<lambda>s. s\<lparr>pt_remaining := M - lf\<rparr>))"
  by (rule ext) (auto simp: plan_tail_def begin_fragment_def Let_def split: sum.splits)

definition ended :: "PayloadSizeLimits \<Rightarrow> bytes list \<Rightarrow> nat \<Rightarrow> PacketPlan list \<Rightarrow> PlanState \<Rightarrow> bool" where
  "ended lm rs i ps s \<longleftrightarrow> pt_count s = Suc (length ps) \<and> covers rs (Suc i) None (ps @ [pt_packet s]) \<and> sizes_ok lm (ps @ [pt_packet s]) \<and>
     pt_remaining s = room_of lm (length ps) - pp_PacketSize (pt_packet s) \<and>
     (\<exists>f n off ls. pt_packet s = mk_plan rs f n off ls \<and> plan_whole (drop f rs) off n ls \<and> f + n = Suc i)"

text \<open>The last part of the OBU.\<close>

lemma plan_end_runs:
  assumes "mid lm rs i off ps s" "i < length rs" "int (length (rs ! i)) - int off \<le> room lm"
  shows "\<exists>s'. runs (begin_fragment i current (int off) (int (length (rs ! i)) - int off) (\<lambda>s. s\<lparr>pt_remaining := room lm - (int (length (rs ! i)) - int off)\<rparr>))
      ps s (ps @ [pt_packet s]) s' \<and> ended lm rs i (ps @ [pt_packet s]) s' \<and> pp_PacketSize (pt_packet s') = int (length (rs ! i)) - int off"
proof -
  let ?k = "length (rs ! i) - off"
  have off: "off < length (rs ! i)" "pt_count s = Suc (length ps)" using assms(1) by (auto simp: mid_def)
  have k: "int (length (rs ! i)) - int off = int ?k" "0 < ?k" "off + ?k = length (rs ! i)" using off by auto
  obtain s' where s': "runs (begin_fragment i current (int off) (int ?k) (\<lambda>s. s\<lparr>pt_remaining := room lm - int ?k\<rparr>)) ps s (ps @ [pt_packet s]) s'"
      "pt_packet s' = fragment_plan i (int off) (int ?k)" "pt_count s' = Suc (pt_count s)" "pt_remaining s' = room lm - int ?k"
    using begin_fragment_runs [OF off(2), of "\<lambda>s. s\<lparr>pt_remaining := room lm - int ?k\<rparr>" i current "int off" "int ?k"] by auto
  have p: "pt_packet s' = mk_plan rs i 1 off ?k" using fragment_good(1) [OF assms(2) off(1) k(2)] s'(2) k(3) by simp
  have h: "hd (drop i rs) = rs ! i" "drop i rs \<noteq> []" using assms(2) by (simp_all add: hd_drop_conv_nth)
  have "plan_whole (drop i rs) off 1 ?k" unfolding plan_whole_def plan_wf_def h(1) using off(1) h(2) assms(2) by simp
  then have "\<exists>f n off ls. pt_packet s' = mk_plan rs f n off ls \<and> plan_whole (drop f rs) off n ls \<and> f + n = Suc i"
    using p by (metis Suc_eq_plus1)
  moreover have "sizes_ok lm ((ps @ [pt_packet s]) @ [pt_packet s'])"
    using assms(1,3) s'(2) unfolding sizes_ok_snoc [of lm "ps @ [pt_packet s]"] room_of_snoc k(1) by (simp add: mid_def)
  moreover have "covers rs (Suc i) None ((ps @ [pt_packet s]) @ [pt_packet s'])"
    unfolding s'(2) using assms(1,2) off(1) k by (intro covers_fragment(2)) (auto simp: mid_def)
  ultimately have "ended lm rs i (ps @ [pt_packet s]) s'" using s' off(2) unfolding ended_def room_of_snoc by simp
  then show ?thesis using s'(1,2) unfolding k(1) by (intro exI [of _ s']) simp
qed

lemma plan_tail_runs:
  assumes "mid lm rs i off ps s" "i < length rs" "int (length (rs ! i)) - int off \<le> room lm" "limits_ok lm" "po_Size current = length (rs ! i)"
  shows "\<exists>ps' s'. runs (plan_tail lm (room lm) i isLast current (int off)) ps s ps' s' \<and> ended lm rs i ps' s' \<and> ps' \<noteq> [] \<and>
    (isLast \<longrightarrow> pp_PacketSize (pt_packet s') \<le> room lm - pl_LastPacketReductionLen lm)"
proof -
  let ?L = "pl_LastPacketReductionLen lm" and ?lf = "int (length (rs ! i)) - int off"
  have off: "off < length (rs ! i)" "pt_count s = Suc (length ps)" using assms(1) by (auto simp: mid_def)
  have lm: "0 \<le> ?L" "2 \<le> room lm - ?L" using assms(4) by (auto simp: limits_ok_def)
  show ?thesis
  proof (cases "isLast \<and> ?lf > room lm - ?L")
    case False
    obtain s' where "runs (begin_fragment i current (int off) ?lf (\<lambda>s. s\<lparr>pt_remaining := room lm - ?lf\<rparr>)) ps s (ps @ [pt_packet s]) s'"
        "ended lm rs i (ps @ [pt_packet s]) s'" "pp_PacketSize (pt_packet s') = ?lf"
      using plan_end_runs [OF assms(1-3)] by blast
    then show ?thesis using False
      by (intro exI [of _ "ps @ [pt_packet s]"] exI [of _ s']) (auto simp: plan_tail_eq assms(5) Let_def)
  next
    case True
    define k where "k = (let k = go_half (?lf + ?L) in if k \<ge> ?lf then ?lf - 1 else k)"
    have "go_half (?lf + ?L) = (?lf + ?L) div 2" using off lm by (simp add: go_half_def)
    then have k: "0 < k" "k < ?lf" "?lf - k \<le> room lm - ?L"
      unfolding k_def Let_def using True lm assms(3) by (auto split: if_splits)
    have kn: "int (nat k) = k" "0 < nat k" "off + nat k < length (rs ! i)" "int (nat k) \<le> room lm" using k assms(3) by linarith+
    have nx: "int (off + nat k) = int off + k" "int (length (rs ! i)) - int (off + nat k) = ?lf - k" using kn by linarith+
    obtain s1 where s1: "runs (begin_fragment i current (int off) k id) ps s (ps @ [pt_packet s]) s1"
        "pt_packet s1 = fragment_plan i (int off) (int (nat k))" "pt_count s1 = Suc (pt_count s)"
      using begin_fragment_runs [OF off(2), of id i current "int off" k] kn(1) by auto
    have m: "mid lm rs i (off + nat k) (ps @ [pt_packet s]) s1" by (rule mid_fragment [OF assms(1,2) kn(2-4) s1(2,3)])
    have "int (length (rs ! i)) - int (off + nat k) \<le> room lm" using nx k assms(3) by linarith
    from plan_end_runs [OF m assms(2) this] obtain s2 where s2:
      "runs (begin_fragment i current (int off + k) (?lf - k) (\<lambda>s. s\<lparr>pt_remaining := room lm - (?lf - k)\<rparr>))
         (ps @ [pt_packet s]) s1 ((ps @ [pt_packet s]) @ [pt_packet s1]) s2"
      "ended lm rs i ((ps @ [pt_packet s]) @ [pt_packet s1]) s2" "pp_PacketSize (pt_packet s2) = ?lf - k"
      unfolding nx(2) unfolding nx(1) by blast
    have "plan_tail lm (room lm) i isLast current (int off) = (\<lambda>s. case begin_fragment i current (int off) k id s of Inl e \<Rightarrow> Inl e
        | Inr s \<Rightarrow> begin_fragment i current (int off + k) (?lf - k) (\<lambda>s. s\<lparr>pt_remaining := room lm - (?lf - k)\<rparr>) s)"
      using True unfolding plan_tail_eq assms(5) k_def Let_def by (simp only: if_True simp_thms)
    then show ?thesis using runs_bind [OF s1(1) s2(1)] s2(2,3) k(3) by (intro exI [of _ "(ps @ [pt_packet s]) @ [pt_packet s1]"] exI [of _ s2]) auto
  qed
qed

section \<open>One OBU\<close>

lemma maxFragmentSize_bounds:
  assumes "2 \<le> r"
  shows "1 \<le> maxFragmentSize r" "int k \<le> maxFragmentSize r \<Longrightarrow> k < 2 ^ 32 \<Longrightarrow> int k + int (leb_len k) \<le> r"
proof -
  have u: "[1..<MaxLEB128Bytes + 1] = [1, 2, 3, 4, 5, 6, 7, 8]" by code_simp
  have m: "maxFragmentSize r = (if r < 129 then r - 1 else if r < 16386 then r - 2 else if r < 2097155 then r - 3
      else if r < 268435460 then r - 4 else if r < 34359738373 then r - 5 else if r < 4398046511110 then r - 6
      else if r < 562949953421319 then r - 7 else r - 8)"
    using assms unfolding maxFragmentSize_def u by (simp add: MaxLEB128Bytes_def)
  show "1 \<le> maxFragmentSize r" using assms unfolding m by simp
  assume k: "int k \<le> maxFragmentSize r" "k < 2 ^ 32"
  have u: "unat (word_of_nat k :: u32) = k" using k(2) by (rule unat_of_nat_u32)
  have "k < 2 ^ (7 * n) \<Longrightarrow> 0 < n \<Longrightarrow> leb_len k \<le> n" for n using length_leb128_bound [of "word_of_nat k" n] u by simp
  from this [of 1] this [of 2] this [of 3] this [of 4] length_leb128_le_5 [of "word_of_nat k"] k(1)
  show "int k + int (leb_len k) \<le> r" unfolding m by (auto split: if_splits)
qed

definition ready :: "PayloadSizeLimits \<Rightarrow> bytes list \<Rightarrow> nat \<Rightarrow> PacketPlan list \<Rightarrow> PlanState \<Rightarrow> nat \<Rightarrow> nat \<Rightarrow> nat \<Rightarrow> nat \<Rightarrow> bool" where
  "ready lm rs i ps s f n off ls \<longleftrightarrow> pt_count s = Suc (length ps) \<and> pt_packet s = mk_plan rs f n off ls \<and> plan_pre rs f n off ls \<and> f + n = i \<and>
     covers rs i None (if n = 0 then ps else ps @ [pt_packet s]) \<and> sizes_ok lm (ps @ [pt_packet s]) \<and>
     pt_remaining s = room_of lm (length ps) - pp_PacketSize (pt_packet s)"

lemma covers_add:
  assumes "ready lm rs i ps s f n off ls" "\<forall>r \<in> set rs. r \<noteq> [] \<and> length r < 2 ^ 32" "i < length rs" "0 < k" "k \<le> length (rs ! i)"
  shows "k < length (rs ! i) \<Longrightarrow> covers rs i (part_of (rs ! i) k) (ps @ [mk_plan rs f (Suc n) off k])"
    "k = length (rs ! i) \<Longrightarrow> covers rs (Suc i) None (ps @ [mk_plan rs f (Suc n) off k])"
proof -
  have r: "plan_pre rs f n off ls" "f + n = i" "pt_packet s = mk_plan rs f n off ls"
    "covers rs i None (if n = 0 then ps else ps @ [pt_packet s])" using assms(1) by (auto simp: ready_def)
  note a = add_element [OF r(1) assms(2), unfolded r(2), OF assms(3-5)]
  have good: "good_plan rs (mk_plan rs f (Suc n) off k)" using a(2) unfolding good_plan_def by blast
  have ps: "\<forall>p \<in> set ps. good_plan rs p" using r(4) by (auto simp: covers_def split: if_splits)
  have j: "join_frags None (all_frags rs ps @ frags (drop f rs) off n ls) = Some (take i rs, None)"
    using r(4) by (auto simp: covers_def r(3) split: if_splits)
  have "all_frags rs (ps @ [mk_plan rs f (Suc n) off k]) =
      (all_frags rs ps @ frags (drop f rs) off n ls) @ [(take k (rs ! i), False, k < length (rs ! i))]" by (simp add: a(1))
  note j2 = join_frags_append [OF j, of "[(take k (rs ! i), False, k < length (rs ! i))]", folded this]
  show "covers rs i (part_of (rs ! i) k) (ps @ [mk_plan rs f (Suc n) off k])" if "k < length (rs ! i)"
    unfolding covers_def j2 using that good ps assms(4) by (auto simp: part_of_def)
  show "covers rs (Suc i) None (ps @ [mk_plan rs f (Suc n) off k])" if "k = length (rs ! i)"
    unfolding covers_def j2 using that good ps assms(3) by (auto simp: take_Suc_conv_app_nth)
qed

definition oruns :: "(PlanState \<Rightarrow> (nat \<times> go_err + PlanState) option) \<Rightarrow> PacketPlan list \<Rightarrow> PlanState \<Rightarrow> PacketPlan list \<Rightarrow> PlanState \<Rightarrow> bool" where
  "oruns op ps s ps' s' \<longleftrightarrow> length ps \<le> length ps' \<and> pt_count s' = Suc (length ps') \<and>
     (\<forall>xs. fits xs ps \<longrightarrow> op (s\<lparr>pt_packets := stored xs ps\<rparr>) =
        Some (if fits xs ps' then Inr (s'\<lparr>pt_packets := stored xs ps'\<rparr>) else Inl (too_small xs)))"

text \<open>The element in the current packet, before its bytes.\<close>

definition placed :: "PacketizerOBU \<Rightarrow> int \<Rightarrow> PlanState \<Rightarrow> PlanState" where
  "placed current previousExtra old =
     (let s = old\<lparr>pt_packet := (pt_packet old)\<lparr>pp_PacketSize := pp_PacketSize (pt_packet old) + previousExtra,
                      pp_NumOBUElements := pp_NumOBUElements (pt_packet old) + 1\<rparr>, pt_remaining := pt_remaining old - previousExtra\<rparr>
      in case packetizerOBULayer current of (has, tid, sid) \<Rightarrow>
           if has then s\<lparr>pt_hasLayer := True, pt_temporalID := tid, pt_spatialID := sid\<rparr> else s)"

lemma placed_simps [simp]:
  "placed c e (s\<lparr>pt_packets := x\<rparr>) = (placed c e s)\<lparr>pt_packets := x\<rparr>"
  "pt_packet (placed c e s) = (pt_packet s)\<lparr>pp_PacketSize := pp_PacketSize (pt_packet s) + e, pp_NumOBUElements := pp_NumOBUElements (pt_packet s) + 1\<rparr>"
  "pt_count (placed c e s) = pt_count s" "pt_remaining (placed c e s) = pt_remaining s - e"
  by (auto simp: placed_def Let_def split: prod.splits)

definition required_of :: "PacketizerOBU \<Rightarrow> nat \<Rightarrow> int" where
  "required_of current n = int (po_Size current) + (if n \<ge> 3 then int (leb_len (po_Size current)) else 0)"

definition available_of :: "PayloadSizeLimits \<Rightarrow> bool \<Rightarrow> nat \<Rightarrow> int \<Rightarrow> int" where
  "available_of lm isLast cnt remaining = remaining + (if isLast then
     if cnt = 1 then pl_FirstPacketReductionLen lm - pl_SinglePacketReductionLen lm else - pl_LastPacketReductionLen lm else 0)"

lemma plan_place_eq:
  "plan_place lm M i isLast current e old =
     (let s = placed current e old; n = pp_NumOBUElements (pt_packet old) in
      if required_of current n \<le> available_of lm isLast (pt_count old) (pt_remaining s)
      then Some (Inr (s\<lparr>pt_packet := (pt_packet s)\<lparr>pp_LastOBUSize := int (po_Size current), pp_PacketSize := pp_PacketSize (pt_packet s) + required_of current n\<rparr>,
                        pt_remaining := pt_remaining s - required_of current n\<rparr>))
      else case plan_middle M i current (fst (plan_first current e old s)) (snd (plan_first current e old s)) of
             None \<Rightarrow> None
           | Some (Inl e) \<Rightarrow> Some (Inl e)
           | Some (Inr (off, s)) \<Rightarrow> Some (plan_tail lm M i isLast current off s))"
proof -
  have "maxObusWithOmittedLastSize < Suc k \<longleftrightarrow> 3 \<le> k" for k by (auto simp: maxObusWithOmittedLastSize_def)
  then show ?thesis
    by (simp add: plan_place_def placed_def Let_def required_of_def available_of_def LEB128Len_length case_prod_unfold cong: if_cong)
qed

lemma plan_first_stored:
  "plan_first c e (old\<lparr>pt_packets := x\<rparr>) (s\<lparr>pt_packets := y\<rparr>) = (fst (plan_first c e old s), (snd (plan_first c e old s))\<lparr>pt_packets := y\<rparr>)"
  by (simp add: plan_first_def Let_def)

definition finished :: "PayloadSizeLimits \<Rightarrow> bytes list \<Rightarrow> nat \<Rightarrow> PacketPlan list \<Rightarrow> PlanState \<Rightarrow> bool" where
  "finished lm rs i ps s \<longleftrightarrow> pt_count s = Suc (length ps) \<and> covers rs (Suc i) None (ps @ [pt_packet s]) \<and> sizes_ok lm ps \<and>
     pp_PacketSize (pt_packet s) \<le> room lm - (if ps = [] then pl_SinglePacketReductionLen lm else pl_LastPacketReductionLen lm)"

text \<open>An OBU that does not fit leaves a part in the packet, or nothing when it has only one byte.\<close>

lemma plan_first_mid:
  assumes "ready lm rs i ps s f n off ls" "\<forall>r \<in> set rs. r \<noteq> [] \<and> length r < 2 ^ 32" "i < length rs" "po_Size current = length (rs ! i)"
    "e = additionalBytesForPreviousOBUElement (pt_packet s)" "e + (if n \<ge> 3 then 2 else 1) \<le> pt_remaining s" "length (rs ! i) = 1 \<Longrightarrow> n \<noteq> 0"
  shows "\<exists>k. fst (plan_first current e s (placed current e s)) = int k \<and> mid lm rs i k ps (snd (plan_first current e s (placed current e s)))"
proof -
  have r: "pt_count s = Suc (length ps)" "pt_packet s = mk_plan rs f n off ls" "plan_pre rs f n off ls" "f + n = i"
    "covers rs i None (if n = 0 then ps else ps @ [pt_packet s])" "sizes_ok lm (ps @ [pt_packet s])"
    "pt_remaining s = room_of lm (length ps) - pp_PacketSize (pt_packet s)" using assms(1) by (auto simp: ready_def)
  have len: "rs ! i \<noteq> []" "length (rs ! i) < 2 ^ 32" using assms(2,3) by auto
  let ?rem = "pt_remaining s - e"
  define mf where "mf = (if n \<ge> 3 then maxFragmentSize ?rem else ?rem)"
  have mf: "1 \<le> mf" using assms(6) maxFragmentSize_bounds(1) [of ?rem] by (auto simp: mf_def split: if_splits)
  define k where "k = nat (min (int (length (rs ! i)) - 1) mf)"
  have pos: "0 < length (rs ! i)" using len by simp
  have k: "int k = min (int (length (rs ! i)) - 1) mf" "k < length (rs ! i)" using pos mf unfolding k_def by linarith+
  have n3: "maxObusWithOmittedLastSize < Suc n \<longleftrightarrow> 3 \<le> n" by (auto simp: maxObusWithOmittedLastSize_def)
  let ?t = "placed current e s"
  have fk: "min (int (po_Size current) - 1) (if pp_NumOBUElements (pt_packet ?t) > maxObusWithOmittedLastSize
      then maxFragmentSize (pt_remaining ?t) else pt_remaining ?t) = int k"
    unfolding k(1) mf_def by (simp add: r(2) n3 assms(4))
  have fst: "fst (plan_first current e s (placed current e s)) = int k" unfolding plan_first_def Let_def fk by simp
  show ?thesis
  proof (cases "k = 0")
    case True
    then have "length (rs ! i) = 1" using k mf pos by linarith
    then have n0: "n \<noteq> 0" by (rule assms(7))
    have "pt_packet (snd (plan_first current e s (placed current e s))) = pt_packet s" "pt_count (snd (plan_first current e s (placed current e s))) = pt_count s"
      using True unfolding plan_first_def Let_def fk by (simp_all add: r(2) mk_plan_def)
    then have "mid lm rs i k ps (snd (plan_first current e s (placed current e s)))"
      using r n0 True pos by (simp add: mid_def part_of_def)
    then show ?thesis using fst by blast
  next
    case False
    have kpos: "0 < k" "k \<le> length (rs ! i)" "k < 2 ^ 32" using False k(2) len(2) by linarith+
    note a = add_element [OF r(3) assms(2), unfolded r(4), OF assms(3) kpos(1,2)]
    let ?s = "snd (plan_first current e s (placed current e s))"
    have p: "pt_packet ?s = mk_plan rs f (Suc n) off k" "pt_count ?s = pt_count s"
      using False a(3) n3 unfolding plan_first_def Let_def fk by (auto simp: r(2) assms(5) LEB128Len_length mk_plan_def)
    have "int k + (if n \<ge> 3 then int (leb_len k) else 0) \<le> ?rem"
      using k(1) maxFragmentSize_bounds(2) [of ?rem k] assms(6) kpos(3) by (auto simp: mf_def split: if_splits)
    then have "pp_PacketSize (mk_plan rs f (Suc n) off k) \<le> room_of lm (length ps)"
      using a(3) r(2,7) assms(5) by simp
    then have "mid lm rs i k ps ?s"
      using covers_add(1) [OF assms(1-3) kpos(1,2) k(2)] r(1,6) k(2) p unfolding mid_def sizes_ok_snoc by simp
    then show ?thesis using fst by blast
  qed
qed

lemma ended_finished:
  "ended lm rs i ps s \<Longrightarrow> ps \<noteq> [] \<Longrightarrow> pp_PacketSize (pt_packet s) \<le> room lm - pl_LastPacketReductionLen lm \<Longrightarrow> finished lm rs i ps s"
  by (simp add: ended_def finished_def sizes_ok_snoc)

lemma plan_place_runs:
  assumes "ready lm rs i ps s f n off ls" "\<forall>r \<in> set rs. r \<noteq> [] \<and> length r < 2 ^ 32" "i < length rs" "po_Size current = length (rs ! i)"
    "e = additionalBytesForPreviousOBUElement (pt_packet s)" "e + (if n \<ge> 3 then 2 else 1) \<le> pt_remaining s" "limits_ok lm"
    "single_ok lm rs" "isLast \<longrightarrow> Suc i = length rs"
  shows "\<exists>ps' s'. oruns (plan_place lm (room lm) i isLast current e) ps s ps' s' \<and>
    (if isLast then finished lm rs i ps' s' else ended lm rs i ps' s')"
proof -
  have r: "pt_count s = Suc (length ps)" "pt_packet s = mk_plan rs f n off ls" "plan_pre rs f n off ls" "f + n = i" "sizes_ok lm (ps @ [pt_packet s])"
    "pt_remaining s = room_of lm (length ps) - pp_PacketSize (pt_packet s)" using assms(1) by (auto simp: ready_def)
  have len: "rs ! i \<noteq> []" using assms(2,3) by auto
  let ?req = "required_of current n" and ?av = "available_of lm isLast (pt_count s) (pt_remaining s - e)"
  show ?thesis
  proof (cases "?req \<le> ?av")
    case True
    let ?p = "mk_plan rs f (Suc n) off (length (rs ! i))"
    let ?s = "(placed current e s)\<lparr>pt_packet := ?p, pt_remaining := pt_remaining s - e - ?req\<rparr>"
    have pos: "0 < length (rs ! i)" using len by simp
    note a = add_element [OF r(3) assms(2), unfolded r(4), OF assms(3) pos order_refl]
    have sz: "pp_PacketSize ?p = pp_PacketSize (pt_packet s) + e + ?req"
      using a(3) by (simp add: r(2) assms(4,5) required_of_def)
    have p: "(pt_packet (placed current e s))\<lparr>pp_LastOBUSize := int (po_Size current), pp_PacketSize := pp_PacketSize (pt_packet (placed current e s)) + ?req\<rparr> = ?p"
      using sz unfolding placed_simps by (simp add: r(2) mk_plan_def assms(4))
    have cov: "covers rs (Suc i) None (ps @ [?p])" using covers_add(2) [OF assms(1-3) pos order_refl] by simp
    have run: "oruns (plan_place lm (room lm) i isLast current e) ps s ps ?s"
      unfolding oruns_def using True p r(1) by (simp add: plan_place_eq Let_def r(2))
    have "finished lm rs i ps ?s" if isLast
      using cov r(1,5,6) sz True that unfolding finished_def sizes_ok_snoc by (auto simp: available_of_def room_of_def)
    moreover have "\<exists>f n off ls. ?p = mk_plan rs f n off ls \<and> plan_whole (drop f rs) off n ls \<and> f + n = Suc i"
      using a(4) r(4) by (metis add_Suc_right)
    then have "ended lm rs i ps ?s" if "\<not> isLast"
      using cov r(1,5,6) sz True that unfolding ended_def sizes_ok_snoc by (simp add: available_of_def)
    ultimately show ?thesis using run by (intro exI [of _ ps] exI [of _ ?s]) auto
  next
    case False
    have "n \<noteq> 0" if one: "length (rs ! i) = 1"
    proof
      assume n: "n = 0"
      have "e = 0" "pp_PacketSize (pt_packet s) = 0" by (simp_all add: assms(5) r(2) n additionalBytesForPreviousOBUElement_def)
      moreover have "map length rs = [1]" if "isLast" "ps = []"
      proof -
        have "take i rs = []" using assms(1) n that(2) by (simp add: ready_def covers_def)
        then have "i = 0" using assms(3) by auto
        then show ?thesis using assms(3,9) that(1) one by (cases rs) auto
      qed
      ultimately show False using False one n assms(4,7,8) r(1,6)
        by (auto simp: required_of_def available_of_def limits_ok_def room_of_def single_ok_def split: if_splits)
    qed
    then obtain k where k: "fst (plan_first current e s (placed current e s)) = int k" "mid lm rs i k ps (snd (plan_first current e s (placed current e s)))"
      using plan_first_mid [OF assms(1-6)] by blast
    have room: "0 < room lm" using assms(7) by (simp add: limits_ok_def)
    obtain off' ps1 s1 where m: "mid lm rs i off' ps1 s1" "length (rs ! i) \<le> off' + nat (room lm)" "length ps \<le> length ps1"
      "\<And>xs. fits xs ps \<Longrightarrow> plan_middle (room lm) i current (int k) ((snd (plan_first current e s (placed current e s)))\<lparr>pt_packets := stored xs ps\<rparr>) =
        Some (if fits xs ps1 then Inr (int off', s1\<lparr>pt_packets := stored xs ps1\<rparr>) else Inl (too_small xs))"
      using plan_middle_runs [OF k(2) assms(3,4) room] by blast
    have "int (length (rs ! i)) - int off' \<le> room lm" using m(2) room by linarith
    then obtain ps' s' where t: "runs (plan_tail lm (room lm) i isLast current (int off')) ps1 s1 ps' s'" "ended lm rs i ps' s'" "ps' \<noteq> []"
        "isLast \<longrightarrow> pp_PacketSize (pt_packet s') \<le> room lm - pl_LastPacketReductionLen lm"
      using plan_tail_runs [OF m(1) assms(3) _ assms(7,4)] by blast
    have "oruns (plan_place lm (room lm) i isLast current e) ps s ps' s'"
      unfolding oruns_def
    proof (intro conjI allI impI)
      fix xs assume f: "fits xs ps"
      show "plan_place lm (room lm) i isLast current e (s\<lparr>pt_packets := stored xs ps\<rparr>) =
          Some (if fits xs ps' then Inr (s'\<lparr>pt_packets := stored xs ps'\<rparr>) else Inl (too_small xs))"
        using False m(4) [OF f] runsD(3) [OF t(1), of xs] fits_mono [OF _ runsD(1) [OF t(1)], of xs]
        by (simp add: plan_place_eq Let_def r(2) plan_first_stored k(1))
    qed (use m(3) runsD(1,2) [OF t(1)] in auto)
    then show ?thesis using t(2-4) ended_finished [OF t(2,3)] by (intro exI [of _ ps'] exI [of _ s']) auto
  qed
qed

text \<open>A packet that is closed before the OBU.\<close>

abbreviation close_packet :: "PayloadSizeLimits \<Rightarrow> nat \<Rightarrow> PlanState \<Rightarrow> nat \<times> go_err + PlanState" where
  "close_packet lm i s \<equiv>
     (case plan_break (empty_plan i) s of Inl e \<Rightarrow> Inl e | Inr s \<Rightarrow> Inr (s\<lparr>pt_remaining := room lm, pt_hasLayer := False\<rparr>))"

lemma close_packet_runs:
  assumes "ready lm rs i ps s f n off ls" "n \<noteq> 0" "0 < room lm"
  shows "\<exists>s'. runs (close_packet lm i) ps s (ps @ [pt_packet s]) s' \<and> ready lm rs i (ps @ [pt_packet s]) s' i 0 0 0"
proof -
  let ?s = "s\<lparr>pt_packet := empty_plan i, pt_count := Suc (pt_count s)\<rparr>"
  let ?u = "\<lambda>s. s\<lparr>pt_remaining := room lm, pt_hasLayer := False\<rparr>"
  have cnt: "pt_count s = Suc (length ps)" using assms(1) by (simp add: ready_def)
  have e: "empty_plan i = mk_plan rs i 0 0 0" by (simp add: mk_plan_def)
  have "runs (\<lambda>s. Inr (?u s)) (ps @ [pt_packet s]) ?s (ps @ [pt_packet s]) (?u ?s)" using cnt by (intro runs_map) simp_all
  from runs_bind [OF runs_break [OF cnt] this]
  have "runs (close_packet lm i) ps s (ps @ [pt_packet s]) (?u ?s)" .
  moreover have "ready lm rs i (ps @ [pt_packet s]) (?u ?s) i 0 0 0"
    unfolding ready_def sizes_ok_snoc [of lm "ps @ [pt_packet s]"] room_of_snoc e using assms by (auto simp: ready_def plan_pre_def)
  ultimately show ?thesis by blast
qed

lemma plan_layer_runs:
  assumes "ready lm rs i ps s f n off ls" "0 < room lm"
  shows "\<exists>ps' s' f n off ls. runs (plan_layer (room lm) i current) ps s ps' s' \<and> ready lm rs i ps' s' f n off ls"
proof -
  obtain has tid sid where l: "packetizerOBULayer current = (has, tid, sid)" by (cases "packetizerOBULayer current")
  let ?c = "pp_NumOBUElements (pt_packet s) > 0 \<and> pt_hasLayer s \<and> (\<not> has \<or> tid \<noteq> pt_temporalID s \<or> sid \<noteq> pt_spatialID s)"
  have cnt: "pt_count s = Suc (length ps)" and n: "pp_NumOBUElements (pt_packet s) = n" using assms(1) by (auto simp: ready_def)
  have eq: "plan_layer (room lm) i current (s\<lparr>pt_packets := x\<rparr>) = (if ?c then close_packet lm i (s\<lparr>pt_packets := x\<rparr>) else Inr (s\<lparr>pt_packets := x\<rparr>))" for x
    by (simp add: plan_layer_def l)
  show ?thesis
  proof (cases ?c)
    case True
    then have "n \<noteq> 0" using n by simp
    from close_packet_runs [OF assms(1) this assms(2)] obtain s' where
      s': "runs (close_packet lm i) ps s (ps @ [pt_packet s]) s'" "ready lm rs i (ps @ [pt_packet s]) s' i 0 0 0" by blast
    have "runs (plan_layer (room lm) i current) ps s (ps @ [pt_packet s]) s'" using s'(1) True unfolding runs_def eq by simp
    then show ?thesis using s'(2) by blast
  next
    case False
    then have "runs (plan_layer (room lm) i current) ps s ps s" using runs_id [OF cnt] unfolding runs_def eq by auto
    then show ?thesis using assms(1) by blast
  qed
qed

lemma plan_room_runs:
  assumes "ready lm rs i ps s f n off ls" "limits_ok lm"
  shows "\<exists>ps' s' f n off ls. ready lm rs i ps' s' f n off ls \<and> length ps \<le> length ps' \<and>
    additionalBytesForPreviousOBUElement (pt_packet s') + (if n \<ge> 3 then 2 else 1) \<le> pt_remaining s' \<and>
    (\<forall>xs. fits xs ps \<longrightarrow> plan_room (room lm) i (s\<lparr>pt_packets := stored xs ps\<rparr>) =
      (if fits xs ps' then Inr (additionalBytesForPreviousOBUElement (pt_packet s'), s'\<lparr>pt_packets := stored xs ps'\<rparr>) else Inl (too_small xs)))"
proof -
  let ?e = "additionalBytesForPreviousOBUElement (pt_packet s)"
  have r: "pt_packet s = mk_plan rs f n off ls" "pt_remaining s = room_of lm (length ps) - pp_PacketSize (pt_packet s)"
    using assms(1) by (auto simp: ready_def)
  have lm: "2 \<le> room lm" "2 \<le> room_of lm j" for j using assms(2) by (auto simp: limits_ok_def room_of_def)
  have eq: "plan_room (room lm) i (s\<lparr>pt_packets := x\<rparr>) = (if pt_remaining s < ?e + (if n \<ge> 3 then 2 else 1)
      then (case close_packet lm i (s\<lparr>pt_packets := x\<rparr>) of Inl e \<Rightarrow> Inl e | Inr s \<Rightarrow> Inr (0, s)) else Inr (?e, s\<lparr>pt_packets := x\<rparr>))" for x
    by (simp add: plan_room_def Let_def r(1) maxObusWithOmittedLastSize_def split: sum.splits)
  show ?thesis
  proof (cases "pt_remaining s < ?e + (if n \<ge> 3 then 2 else 1)")
    case True
    have n: "n \<noteq> 0"
    proof
      assume "n = 0"
      then have "?e = 0" "pt_remaining s = room_of lm (length ps)" by (simp_all add: r additionalBytesForPreviousOBUElement_def)
      then show False using True \<open>n = 0\<close> lm(2) [of "length ps"] by simp
    qed
    have "0 < room lm" using lm(1) by simp
    from close_packet_runs [OF assms(1) n this] obtain s' where
      s': "runs (close_packet lm i) ps s (ps @ [pt_packet s]) s'" "ready lm rs i (ps @ [pt_packet s]) s' i 0 0 0" by blast
    have e: "additionalBytesForPreviousOBUElement (pt_packet s') = 0" "pt_remaining s' = room lm"
      using s'(2) unfolding ready_def room_of_snoc by (auto simp: additionalBytesForPreviousOBUElement_def)
    have "plan_room (room lm) i (s\<lparr>pt_packets := stored xs ps\<rparr>) =
      (if fits xs (ps @ [pt_packet s]) then Inr (0, s'\<lparr>pt_packets := stored xs (ps @ [pt_packet s])\<rparr>) else Inl (too_small xs))" if "fits xs ps" for xs
      unfolding eq runsD(3) [OF s'(1) that] using True by simp
    then show ?thesis using s'(2) e lm(1)
      by (intro exI [of _ "ps @ [pt_packet s]"] exI [of _ s'] exI [of _ i] exI [of _ 0]) auto
  next
    case False
    then show ?thesis using assms(1) unfolding eq
      by (intro exI [of _ ps] exI [of _ s] exI [of _ f] exI [of _ n] exI [of _ off] exI [of _ ls]) auto
  qed
qed

lemma plan_obu_runs:
  assumes "ready lm rs i ps s f n off ls" "\<forall>r \<in> set rs. r \<noteq> [] \<and> length r < 2 ^ 32" "i < length rs" "po_Size current = length (rs ! i)" "limits_ok lm"
    "single_ok lm rs" "isLast \<longrightarrow> Suc i = length rs"
  shows "\<exists>ps' s'. oruns (plan_obu lm (room lm) i isLast current) ps s ps' s' \<and>
    (if isLast then finished lm rs i ps' s' else ended lm rs i ps' s')"
proof -
  have "0 < room lm" using assms(5) by (simp add: limits_ok_def)
  from plan_layer_runs [OF assms(1) this] obtain ps1 s1 f1 n1 off1 ls1 where
    l: "runs (plan_layer (room lm) i current) ps s ps1 s1" "ready lm rs i ps1 s1 f1 n1 off1 ls1" by blast
  from plan_room_runs [OF l(2) assms(5)] obtain ps2 s2 f2 n2 off2 ls2 where
    r: "ready lm rs i ps2 s2 f2 n2 off2 ls2" "length ps1 \<le> length ps2"
      "additionalBytesForPreviousOBUElement (pt_packet s2) + (if n2 \<ge> 3 then 2 else 1) \<le> pt_remaining s2"
      "\<And>xs. fits xs ps1 \<Longrightarrow> plan_room (room lm) i (s1\<lparr>pt_packets := stored xs ps1\<rparr>) =
        (if fits xs ps2 then Inr (additionalBytesForPreviousOBUElement (pt_packet s2), s2\<lparr>pt_packets := stored xs ps2\<rparr>) else Inl (too_small xs))" by blast
  from plan_place_runs [OF r(1) assms(2-4) refl r(3) assms(5-7)] obtain ps' s' where
    p: "oruns (plan_place lm (room lm) i isLast current (additionalBytesForPreviousOBUElement (pt_packet s2))) ps2 s2 ps' s'"
      "if isLast then finished lm rs i ps' s' else ended lm rs i ps' s'" by blast
  have len: "length ps \<le> length ps1" "length ps2 \<le> length ps'" using runsD(1) [OF l(1)] p(1) by (auto simp: oruns_def)
  have "oruns (plan_obu lm (room lm) i isLast current) ps s ps' s'"
    unfolding oruns_def
  proof (intro conjI allI impI)
    fix xs assume f: "fits xs ps"
    show "plan_obu lm (room lm) i isLast current (s\<lparr>pt_packets := stored xs ps\<rparr>) =
        Some (if fits xs ps' then Inr (s'\<lparr>pt_packets := stored xs ps'\<rparr>) else Inl (too_small xs))"
      using runsD(3) [OF l(1) f] r(4) [of xs] p(1) fits_mono [of xs ps' ps2] fits_mono [of xs ps2 ps1] r(2) len
      by (auto simp: plan_obu_def oruns_def)
  qed (use len r(2) p(1) in \<open>auto simp: oruns_def\<close>)
  then show ?thesis using p(2) by blast
qed

lemma ended_ready: "ended lm rs i ps s \<Longrightarrow> \<exists>f n off ls. ready lm rs (Suc i) ps s f n off ls"
proof -
  assume e: "ended lm rs i ps s"
  then obtain f n off ls where p: "pt_packet s = mk_plan rs f n off ls" "plan_whole (drop f rs) off n ls" "f + n = Suc i"
    by (auto simp: ended_def)
  have "n \<noteq> 0" using p(2) by (simp add: plan_whole_def plan_wf_def)
  then have "ready lm rs (Suc i) ps s f n off ls" using e p by (simp add: ended_def ready_def plan_pre_def)
  then show ?thesis by blast
qed

lemma plan_loop_runs:
  assumes "ready lm rs i ps s f n off ls" "\<forall>r \<in> set rs. r \<noteq> [] \<and> length r < 2 ^ 32" "limits_ok lm" "single_ok lm rs"
    "obus \<noteq> []" "i + length obus = length rs" "\<forall>j < length obus. po_Size (obus ! j) = length (rs ! (i + j))"
  shows "\<exists>ps' s'. oruns (plan_loop lm (room lm) i obus) ps s ps' s' \<and> finished lm rs (length rs - 1) ps' s'"
  using assms
proof (induction obus arbitrary: i ps s f n off ls)
  case (Cons current obus)
  have i: "i < length rs" "po_Size current = length (rs ! i)" "obus = [] \<longrightarrow> Suc i = length rs" using Cons.prems(6,7) by auto
  from plan_obu_runs [OF Cons.prems(1,2) i(1,2) Cons.prems(3,4) i(3)] obtain ps1 s1 where
    o: "oruns (plan_obu lm (room lm) i (obus = []) current) ps s ps1 s1"
      "if obus = [] then finished lm rs i ps1 s1 else ended lm rs i ps1 s1" by blast
  show ?case
  proof (cases "obus = []")
    case True
    then have "i = length rs - 1" using Cons.prems(6) by simp
    then show ?thesis using o True by (intro exI [of _ ps1] exI [of _ s1]) (auto simp: oruns_def)
  next
    case False
    have sz: "\<forall>j < length obus. po_Size (obus ! j) = length (rs ! (Suc i + j))" using Cons.prems(7) by fastforce
    have len: "Suc i + length obus = length rs" using Cons.prems(6) by simp
    from o(2) False ended_ready obtain f1 n1 off1 ls1 where "ready lm rs (Suc i) ps1 s1 f1 n1 off1 ls1" by metis
    from Cons.IH [OF this Cons.prems(2-4) False len sz] obtain ps' s' where
      l: "oruns (plan_loop lm (room lm) (Suc i) obus) ps1 s1 ps' s'" "finished lm rs (length rs - 1) ps' s'" by blast
    have mono: "length ps \<le> length ps1" "length ps1 \<le> length ps'" using o(1) l(1) by (auto simp: oruns_def)
    have "oruns (plan_loop lm (room lm) i (current # obus)) ps s ps' s'"
      unfolding oruns_def
    proof (intro conjI allI impI)
      fix xs assume f: "fits xs ps"
      show "plan_loop lm (room lm) i (current # obus) (s\<lparr>pt_packets := stored xs ps\<rparr>) =
          Some (if fits xs ps' then Inr (s'\<lparr>pt_packets := stored xs ps'\<rparr>) else Inl (too_small xs))"
        using o(1) l(1) f fits_mono [OF _ mono(2), of xs] by (auto simp: oruns_def)
    qed (use mono l(1) in \<open>auto simp: oruns_def\<close>)
    then show ?thesis using l(2) by blast
  qed
qed simp

section \<open>The frame\<close>

text \<open>The bytes that the limits keep free in the packet of index \<open>j\<close> of \<open>n\<close>.\<close>

definition reduction :: "PayloadSizeLimits \<Rightarrow> nat \<Rightarrow> nat \<Rightarrow> int" where
  "reduction lm n j =
     (if n = 1 then pl_SinglePacketReductionLen lm else if j = 0 then pl_FirstPacketReductionLen lm
      else if j = n - 1 then pl_LastPacketReductionLen lm else 0)"

definition frame_plans :: "PayloadSizeLimits \<Rightarrow> bytes list \<Rightarrow> PacketPlan list \<Rightarrow> bool" where
  "frame_plans lm rs ps \<longleftrightarrow> ps \<noteq> [] \<and> (\<forall>p \<in> set ps. good_plan rs p) \<and> join_frags None (all_frags rs ps) = Some (rs, None) \<and>
     (\<forall>j < length ps. 1 + pp_PacketSize (ps ! j) + reduction lm (length ps) j \<le> pl_MaxPayloadLen lm)"

lemma finished_frame_plans:
  assumes "finished lm rs (length rs - 1) ps s" "rs \<noteq> []"
  shows "frame_plans lm rs (ps @ [pt_packet s])"
proof -
  have f: "covers rs (length rs) None (ps @ [pt_packet s])" "sizes_ok lm ps"
    "pp_PacketSize (pt_packet s) \<le> room lm - (if ps = [] then pl_SinglePacketReductionLen lm else pl_LastPacketReductionLen lm)"
    using assms by (auto simp: finished_def)
  have "1 + pp_PacketSize ((ps @ [pt_packet s]) ! j) + reduction lm (length (ps @ [pt_packet s])) j \<le> pl_MaxPayloadLen lm"
    if "j < length (ps @ [pt_packet s])" for j
  proof (cases "j < length ps")
    case True
    then have "pp_PacketSize (ps ! j) \<le> room_of lm j" using f(2) by (simp add: sizes_ok_def)
    then show ?thesis using True by (auto simp: nth_append reduction_def room_of_def split: if_splits)
  next
    case False
    then show ?thesis using that f(3) by (simp add: nth_append reduction_def less_Suc_eq split: if_splits)
  qed
  then show ?thesis using f(1) by (auto simp: frame_plans_def covers_def)
qed

lemma packetizeInternal_plans:
  assumes "obus \<noteq> []" "\<forall>o1 \<in> set obus. obu_fits o1" "limits_ok lm" "single_ok lm (map po_raw obus)"
  shows "\<exists>ps. frame_plans lm (map po_raw obus) ps \<and> packetizeInternal obus lm None = Some (Inr (length ps, None)) \<and>
    (\<forall>xs. packetizeInternal obus lm (Some xs) =
       Some (if length ps \<le> length xs then Inr (length ps, Some (ps @ drop (length ps) xs)) else Inl (length xs, RtpErrPacketPlanTooSmall)))"
proof -
  let ?rs = "map po_raw obus"
  let ?s = "\<lparr>pt_packets = None, pt_count = 1, pt_packet = empty_plan 0, pt_remaining = room lm - pl_FirstPacketReductionLen lm,
     pt_hasLayer = False, pt_temporalID = 0, pt_spatialID = 0\<rparr>"
  have rs: "\<forall>r \<in> set ?rs. r \<noteq> [] \<and> length r < 2 ^ 32" using assms(2) by (auto simp: obu_fits_def po_raw_def)
  have sz: "\<forall>j < length obus. po_Size (obus ! j) = length (?rs ! (0 + j))" using assms(2) by (auto simp: obu_fits_def)
  have "ready lm ?rs 0 [] ?s 0 0 0 0"
    using assms(3) by (auto simp: ready_def mk_plan_def plan_pre_def covers_def sizes_ok_def room_of_def limits_ok_def)
  from plan_loop_runs [OF this rs assms(3,4,1) _ sz] obtain ps s where
    l: "oruns (plan_loop lm (room lm) 0 obus) [] ?s ps s" "finished lm ?rs (length ?rs - 1) ps s" by auto
  let ?ps = "ps @ [pt_packet s]"
  have cnt: "pt_count s = Suc (length ps)" using l(1) by (simp add: oruns_def)
  have run: "plan_loop lm (room lm) 0 obus (?s\<lparr>pt_packets := xs\<rparr>) =
      Some (if fits xs ps then Inr (s\<lparr>pt_packets := stored xs ps\<rparr>) else Inl (too_small xs))" if "xs \<noteq> Some []" for xs
  proof -
    have "fits xs []" "stored xs [] = xs" using that by (cases xs; auto simp: fits_def stored_def)+
    then show ?thesis using l(1) unfolding oruns_def by metis
  qed
  have g: "\<not> (pl_MaxPayloadLen lm - pl_LastPacketReductionLen lm < 3 \<or> pl_MaxPayloadLen lm - pl_FirstPacketReductionLen lm < 3)"
    using assms(3) by (auto simp: limits_ok_def)
  have "packetizeInternal obus lm xs = (if xs = Some [] then Some (Inl (0, RtpErrPacketPlanTooSmall))
      else Some (if fits xs ps then Inr (length ?ps, stored xs ?ps) else Inl (too_small xs)))" for xs
    using run [of xs] g assms(1) storePacketPlan_stored [of xs ps "pt_packet s"] cnt
    by (auto simp: packetizeInternal_def Let_def)
  then have "packetizeInternal obus lm None = Some (Inr (length ?ps, None))"
    "packetizeInternal obus lm (Some xs) =
       Some (if length ?ps \<le> length xs then Inr (length ?ps, Some (?ps @ drop (length ?ps) xs)) else Inl (length xs, RtpErrPacketPlanTooSmall))" for xs
    by (auto simp: fits_def stored_def)
  then show ?thesis using finished_frame_plans [OF l(2)] assms(1) by (intro exI [of _ ?ps]) simp
qed

end
