(* ===== verification/Rtp_Send.thy ===== *)
theory Rtp_Send
  imports Rtp_Plan
begin

text \<open>
  Sending and receiving a frame: the packetizer writes for each plan the payload with the plan's fragments, and the
  depacketizer joins them to the OBUs of the frame.
\<close>

section \<open>Writing a packet\<close>

lemma length_po_raw: "length (po_raw o1) = 1 + (if po_hasExtension o1 then 1 else 0) + length (po_payload o1)"
  by (simp add: po_raw_def)

lemma writeOBUFragment_eq:
  assumes "obu_fits o1" "off + k \<le> length (po_raw o1)" "k \<le> length dst"
  shows "writeOBUFragment dst o1 (int off) (int k) = (Inr k, take k (drop off (po_raw o1)) @ drop k dst)"
proof -
  have sz: "po_Size o1 = length (po_raw o1)" using assms(1) by (simp add: obu_fits_def)
  note len = length_po_raw [of o1]
  consider "k = 0" | "0 < k" "off = 0" | "0 < k" "off = 1" | "0 < k" "2 \<le> off" by linarith
  then show ?thesis
  proof cases
    case 1
    then show ?thesis using assms sz by (simp add: writeOBUFragment_def)
  next
    case 2
    then obtain x ys where "dst = x # ys" using assms(3) by (cases dst) auto
    then show ?thesis
      using 2 assms sz len
      by (cases ys; cases "k = 1"; cases "k = 2") (auto simp: writeOBUFragment_def put_at_def po_raw_def Let_def take_Cons' drop_Cons' numeral_2_eq_2 split: if_splits)
  next
    case 3
    then obtain x ys where "dst = x # ys" using assms(3) by (cases dst) auto
    then show ?thesis
      using 3 assms sz len
      by (cases "po_payload o1") (auto simp: writeOBUFragment_def put_at_def po_raw_def Let_def take_Cons' drop_Cons' split: if_splits)
  next
    case 4
    then show ?thesis
      using assms sz len
      by (auto simp: writeOBUFragment_def put_at_def po_raw_def Let_def drop_Cons' numeral_2_eq_2)
  qed
qed

text \<open>The bytes of an element, after its length where it has one.\<close>

lemma write_element_eq:
  assumes "obu_fits o1" "oo + k \<le> length (po_raw o1)"
    "bs = (if sized then leb128 (word_of_nat k) else []) @ take k (drop oo (po_raw o1))" "off + length bs \<le> length dst"
  shows "write_element dst off sized o1 (int oo) (int k) = (Inr (off + length bs), put_at dst off bs)"
proof -
  let ?l = "if sized then leb128 (word_of_nat k) else []"
  have l: "length (take k (drop oo (po_raw o1))) = k" using assms(2) by simp
  have room: "off + length ?l + k \<le> length dst" using assms(3,4) l by simp
  have w: "writeOBUFragment (drop (off + length ?l) d) o1 (int oo) (int k) =
      (Inr k, take k (drop oo (po_raw o1)) @ drop k (drop (off + length ?l) d))" if "length d = length dst" for d
    using room that by (intro writeOBUFragment_eq [OF assms(1,2)]) simp
  have "write_element dst off sized o1 (int oo) (int k) = (Inr (off + length ?l + k),
      take (off + length ?l) (put_at dst off ?l) @ take k (drop oo (po_raw o1)) @ drop k (drop (off + length ?l) (put_at dst off ?l)))"
    using room w [of "put_at dst off ?l"] w [of dst]
    by (auto simp: write_element_def Let_def PutLEB128_eq put_at_def ac_simps)
  moreover have "take (off + length ?l) (put_at dst off ?l) @ take k (drop oo (po_raw o1)) @ drop k (drop (off + length ?l) (put_at dst off ?l)) =
      put_at dst off bs"
    using room l unfolding assms(3) by (simp add: put_at_def ac_simps)
  moreover have "length bs = length ?l + k" using l assms(3) by simp
  ultimately show ?thesis by (simp add: add.assoc)
qed

text \<open>All elements of a packet.\<close>

lemma write_elements_eq:
  assumes "\<forall>o1 \<in> set obus. obu_fits o1" "plan_wf (map po_raw obus) oo n ls"
    "bs = element_bytes sized (map fst (frags (map po_raw obus) oo n ls))" "off + length bs \<le> length dst"
  shows "write_elements dst off sized (int oo) (int ls) (take n obus) = (Inr (off + length bs), put_at dst off bs)"
  using assms
proof (induction "map po_raw obus" oo n ls arbitrary: obus off dst bs rule: frags.induct)
  case (1 r rs oo ls)
  then obtain o1 os where o: "obus = o1 # os" "r = po_raw o1" "rs = map po_raw os" by (cases obus) auto
  have le: "oo + ls \<le> length (po_raw o1)" using 1(3) o by (simp add: plan_wf_def)
  then have "length (take ls (drop oo (po_raw o1))) = ls" by simp
  then have bs: "bs = (if sized then leb128 (word_of_nat ls) else []) @ take ls (drop oo (po_raw o1))"
    unfolding 1(4) 1(1) [symmetric] o(2) by (simp only: frags.simps list.map element_bytes.simps fst_conv) simp
  have "obu_fits o1" using 1(2) o by simp
  from write_element_eq [OF this le bs 1(5)] show ?case by (simp add: o)
next
  case (2 r rs oo n ls)
  then obtain o1 o2 os where o: "obus = o1 # o2 # os" "r = po_raw o1" "rs = map po_raw (o2 # os)"
    by (cases obus; cases "tl obus") (auto simp: plan_wf_def)
  let ?k = "length r - oo"
  let ?b1 = "leb128 (word_of_nat ?k) @ drop oo r"
  let ?b2 = "element_bytes sized (map fst (frags rs 0 (Suc n) ls))"
  have oo: "oo < length r" using 2(4) o by (simp add: plan_wf_def)
  have nl: "Suc n \<le> length rs" using 2(4) o by (simp add: plan_wf_def)
  have bs: "bs = ?b1 @ ?b2"
    using 2(5) o nl length_frags [of "Suc n" rs 0 ls] by (cases "frags rs 0 (Suc n) ls") (auto simp: 2(2) [symmetric])
  have fit: "obu_fits o1" using 2(3) o by simp
  have sz: "int (po_Size o1) - int oo = int ?k" using fit oo o by (simp add: obu_fits_def)
  have b1: "(if True then leb128 (word_of_nat ?k) else []) @ take ?k (drop oo (po_raw o1)) = ?b1" using o by simp
  have room: "off + length ?b1 \<le> length dst" "off + length ?b1 + length ?b2 \<le> length dst" using 2(6) unfolding bs by simp_all
  have w: "write_element dst off True o1 (int oo) (int ?k) = (Inr (off + length ?b1), put_at dst off ?b1)"
    using oo o room(1) by (intro write_element_eq [OF fit]) simp_all
  have wf: "plan_wf (map po_raw (o2 # os)) 0 (Suc n) ls"
    using 2(4) o by (cases n) (auto simp: plan_wf_def po_raw_def)
  have rest: "write_elements (put_at dst off ?b1) (off + length ?b1) sized (int 0) (int ls) (take (Suc n) (o2 # os)) =
      (Inr (off + length ?b1 + length ?b2), put_at (put_at dst off ?b1) (off + length ?b1) ?b2)"
    using 2(3) o room by (intro 2(1) wf) simp_all
  have "put_at (put_at dst off ?b1) (off + length ?b1) ?b2 = put_at dst off bs"
    using room unfolding bs by (simp add: put_at_def ac_simps)
  then show ?case using w rest sz unfolding bs o(1) by (simp add: add.assoc)
qed (auto simp: plan_wf_def)

lemma frags_last_next:
  assumes "0 < n" "n \<le> length rs"
  shows "frags rs off n ls \<noteq> [] \<and> snd (snd (last (frags rs off n ls))) = ((if n = 1 then off else 0) + ls < length (rs ! (n - 1)))"
  using assms by (induction rs off n ls rule: frags.induct) auto

text \<open>What the iterator returns for a packet that holds these fragments.\<close>

abbreviation el_frag :: "Element \<Rightarrow> fragment" where
  "el_frag e \<equiv> (el_Data e, el_ContinuesPrevious e, el_ContinuesNext e)"

lemma elements_from_frags:
  assumes "(ah_ContinuesPrevious h \<and> i = 0) \<longleftrightarrow> 0 < off" "frags rs off n ls \<noteq> []" "ah_ContinuesNext h = snd (snd (last (frags rs off n ls)))"
    "n \<le> length rs"
  shows "map el_frag (elements_from h i (map fst (frags rs off n ls))) = frags rs off n ls"
  using assms
proof (induction rs off n ls arbitrary: i rule: frags.induct)
  case (2 r rs off n ls)
  have ne: "frags rs 0 (Suc n) ls \<noteq> []" using 2(5) length_frags [of "Suc n" rs 0 ls] by auto
  have "map el_frag (elements_from h (i + 1) (map fst (frags rs 0 (Suc n) ls))) = frags rs 0 (Suc n) ls"
    using 2 ne by (intro 2(1)) auto
  then show ?case using 2(2) ne by simp
qed auto

lemma join_elements_frags:
  "join_frags q (map el_frag es) = Some r \<Longrightarrow> join_elements q es = Inr r"
proof (induction q es arbitrary: r rule: join_elements.induct)
  case (2 p e es)
  then show ?case by (auto simp: Let_def split: if_splits option.splits)
qed simp

text \<open>The next packet: its payload is the aggregation header and the elements of the plan.\<close>

definition next_payload :: "Packetizer \<Rightarrow> AggregationHeader \<Rightarrow> u8 \<Rightarrow> fragment list \<Rightarrow> bytes" where
  "next_payload p h b fs = b # element_bytes (ah_ElementCount h = 0) (map fst fs)"

lemma unat_element_count: "0 < n \<Longrightarrow> n \<le> 3 \<Longrightarrow> unat (word_of_nat n :: u8) = n \<and> (word_of_nat n :: u8) \<noteq> 0 \<and> \<not> (word_of_nat n :: u8) > 3"
  by (simp add: unat_of_nat word_less_nat_alt word_unat_eq_iff)

lemma NextPacket_eq:
  assumes "\<forall>o1 \<in> set (pk_obus p). obu_fits o1" "pk_packetIndex p < length (pk_packets p)"
    "pk_packets p ! pk_packetIndex p = mk_plan rs f n off ls" "rs = map po_raw (pk_obus p)" "plan_wf (drop f rs) off n ls"
    "pk_packetIndex p = 0 \<Longrightarrow> off = 0" "fs = frags (drop f rs) off n ls" "1 + plan_size fs \<le> length dst"
  shows "\<exists>h b marker. AggregationHeader_Byte h = Inr b \<and> map el_frag (elements_from h 0 (map fst fs)) = fs \<and>
    (ah_ElementCount h = 0 \<longleftrightarrow> 3 < n) \<and> (ah_ElementCount h = 0 \<or> unat (ah_ElementCount h) = length fs) \<and>
    (ah_StartsNewCodedVideoSequence h \<longrightarrow> pk_keyFrame p \<and> pk_packetIndex p = 0) \<and>
    NextPacket p dst = (Inr (Some (1 + plan_size fs, marker)), p\<lparr>pk_packetIndex := pk_packetIndex p + 1\<rparr>,
      next_payload p h b fs @ drop (1 + plan_size fs) dst)"
proof -
  have n: "0 < n" "f + n \<le> length rs" and off: "off < length (hd (drop f rs))" using assms(5) by (auto simp: plan_wf_def)
  have lf: "length fs = n" using n(2) unfolding assms(7) by (intro length_frags) simp
  define h where "h = \<lparr>ah_ContinuesPrevious = (int off > 0),
     ah_ContinuesNext = ((if n = 1 then int off else 0) + int ls < int (po_Size (pk_obus p ! (f + n - 1)))),
     ah_ElementCount = (if n \<le> maxObusWithOmittedLastSize then word_of_nat n else 0),
     ah_StartsNewCodedVideoSequence = (pk_keyFrame p \<and> pk_packetIndex p = 0 \<and> pk_obus p \<noteq> [] \<and> po_Type (pk_obus p ! 0) = TypeSequenceHeader)\<rparr>"
  have agg: "aggregationHeader p (mk_plan rs f n off ls) = Some h"
    using n assms(4) by (simp add: aggregationHeader_def Let_def h_def)
  have cnt: "ah_ElementCount h = 0 \<longleftrightarrow> 3 < n" "ah_ElementCount h = 0 \<or> unat (ah_ElementCount h) = n" "\<not> ah_ElementCount h > 3"
    using unat_element_count [OF n(1)] by (auto simp: h_def maxObusWithOmittedLastSize_def)
  have "\<not> (ah_StartsNewCodedVideoSequence h \<and> ah_ContinuesPrevious h)" using assms(6) by (auto simp: h_def)
  then obtain b where b: "AggregationHeader_Byte h = Inr b" using cnt(3) by (auto simp: AggregationHeader_Byte_def Let_def)
  have "po_Size (pk_obus p ! (f + n - 1)) = length (drop f rs ! (n - 1))"
    using assms(1,4) n by (auto simp: obu_fits_def)
  then have "ah_ContinuesNext h = snd (snd (last fs))" "fs \<noteq> []"
    using frags_last_next [OF n(1), of "drop f rs" off ls] n(2) unfolding assms(7) by (auto simp: h_def)
  then have el: "map el_frag (elements_from h 0 (map fst fs)) = fs"
    unfolding assms(7) using n(2) by (intro elements_from_frags) (auto simp: h_def)
  let ?bs = "element_bytes (n > maxObusWithOmittedLastSize) (map fst fs)"
  have sz: "length ?bs = plan_size fs" by (simp add: plan_size_def lf maxObusWithOmittedLastSize_def)
  have dst: "dst \<noteq> []" using assms(8) by auto
  have drp: "drop f rs = map po_raw (drop f (pk_obus p))" using assms(4) by (simp add: drop_map)
  have "write_elements (dst[0 := b]) 1 (n > maxObusWithOmittedLastSize) (int off) (int ls) (take n (drop f (pk_obus p))) =
      (Inr (1 + length ?bs), put_at (dst[0 := b]) 1 ?bs)"
    using assms(1,5,8) sz unfolding assms(7) drp by (intro write_elements_eq) (auto dest: in_set_dropD)
  moreover have "put_at (dst[0 := b]) 1 ?bs = next_payload p h b fs @ drop (1 + plan_size fs) dst"
    using dst cnt(1) sz by (cases dst) (simp_all add: put_at_def next_payload_def maxObusWithOmittedLastSize_def)
  ultimately obtain marker where "NextPacket p dst = (Inr (Some (1 + plan_size fs, marker)), p\<lparr>pk_packetIndex := pk_packetIndex p + 1\<rparr>,
      next_payload p h b fs @ drop (1 + plan_size fs) dst)"
    using assms(2,3,8) agg b dst sz unfolding assms(7) by (simp add: NextPacket_def Let_def)
  then show ?thesis using b el cnt by (intro exI [of _ h] exI [of _ b] exI [of _ marker]) (simp add: lf h_def)
qed

lemma join_frags_prefix:
  "join_frags p (fs @ gs) = Some r \<Longrightarrow> \<exists>us q. join_frags p fs = Some (us, q)"
  by (induction p fs arbitrary: r rule: join_frags.induct) (fastforce split: if_splits)+

section \<open>The plans of a frame\<close>

lemma frame_plans_limits:
  assumes "frame_plans (lm\<lparr>pl_MaxPayloadLen := m\<rparr>) rs ps" "m \<le> pl_MaxPayloadLen lm"
  shows "frame_plans lm rs ps"
proof -
  have r: "reduction (lm\<lparr>pl_MaxPayloadLen := m\<rparr>) k j = reduction lm k j" for k j by (simp add: reduction_def)
  show ?thesis using assms unfolding frame_plans_def r by (auto intro: order_trans)
qed

lemma frags_data:
  assumes "plan_wf rs off n ls" "\<forall>r \<in> set rs. r \<noteq> [] \<and> length r < 2 ^ 32"
  shows "\<forall>f \<in> set (frags rs off n ls). fst f \<noteq> [] \<and> length (fst f) < 2 ^ 32"
  using assms
proof (induction rs off n ls rule: frags.induct)
  case (2 r rs off n ls)
  then have "plan_wf rs 0 (Suc n) ls" by (cases rs; cases n) (auto simp: plan_wf_def)
  then show ?case using 2 by (auto simp: plan_wf_def)
qed (auto simp: plan_wf_def)

text \<open>Every packet carries a byte of the frame.\<close>

lemma join_frags_size:
  "join_frags q fs = Some (us, r) \<Longrightarrow> (case q of None \<Rightarrow> 0 | Some b \<Rightarrow> length b) + sum_list (map (length \<circ> fst) fs) =
     sum_list (map length us) + (case r of None \<Rightarrow> 0 | Some b \<Rightarrow> length b)"
  by (induction q fs arbitrary: us rule: join_frags.induct) (auto split: if_splits option.splits)

lemma good_plan_data:
  assumes "good_plan rs p" "\<forall>r \<in> set rs. r \<noteq> [] \<and> length r < 2 ^ 32"
  shows "1 \<le> sum_list (map (length \<circ> fst) (plan_frags rs p))"
proof -
  obtain f n off ls where p: "p = mk_plan rs f n off ls" "plan_wf (drop f rs) off n ls" using assms(1) by (auto simp: good_plan_def)
  have "\<forall>x \<in> set (frags (drop f rs) off n ls). fst x \<noteq> []" using frags_data [OF p(2)] assms(2) by (auto dest: in_set_dropD)
  moreover have "frags (drop f rs) off n ls \<noteq> []" using frags_last_next [of n "drop f rs" off ls] p(2) by (simp add: plan_wf_def)
  ultimately show ?thesis unfolding p(1) by (cases "frags (drop f rs) off n ls") (auto simp: Suc_le_eq)
qed

lemma frame_plans_count:
  assumes "frame_plans lm rs ps" "\<forall>r \<in> set rs. r \<noteq> [] \<and> length r < 2 ^ 32"
  shows "length ps \<le> sum_list (map length rs)"
proof -
  have "length qs \<le> sum_list (map (length \<circ> fst) (all_frags rs qs))" if "\<forall>p \<in> set qs. good_plan rs p" for qs
    using that by (induction qs) (auto dest: good_plan_data [OF _ assms(2)])
  from this [of ps] show ?thesis using assms(1) join_frags_size [of None "all_frags rs ps" rs None] by (simp add: frame_plans_def)
qed

lemma PacketizeOBUs_eq:
  assumes "packetizeInternal obus lm (Some packets) = Some (Inr (n, Some out))" "packets \<noteq> []"
  shows "PacketizeOBUs obus lm packets work =
    (let unused = plan_unused lm n out; r = unused div int n; m = pl_MaxPayloadLen lm - (r - 1) in
     if n \<le> 1 \<or> unused \<le> int n * 10 then Some (Inr (n, out))
     else if length work < n then Some (Inl (n, RtpErrPacketPlanTooSmall))
     else if r \<le> 1 \<or> pl_MaxPayloadLen lm \<le> r \<or> m - pl_LastPacketReductionLen lm < 3 \<or> m - pl_FirstPacketReductionLen lm < 3 then Some (Inr (n, out))
     else case packetizeInternal obus (lm\<lparr>pl_MaxPayloadLen := m\<rparr>) (Some work) of
       None \<Rightarrow> None
     | Some (Inl e) \<Rightarrow> Some (Inr (n, out))
     | Some (Inr (evenCount, work')) \<Rightarrow> if evenCount \<noteq> n then Some (Inr (n, out)) else Some (Inr (n, take n (the work') @ drop n out)))"
  using assms by (simp add: PacketizeOBUs_def Let_def cong: option.case_cong sum.case_cong prod.case_cong if_cong)

lemma PacketizeOBUs_plans:
  assumes "obus \<noteq> []" "\<forall>o1 \<in> set obus. obu_fits o1" "limits_ok lm" "single_ok lm (map po_raw obus)"
    "PacketizeOBUCount obus lm = Some (n, None)" "n \<le> length packets" "1 < n \<longrightarrow> n \<le> length work"
  shows "\<exists>ps. PacketizeOBUs obus lm packets work = Some (Inr (n, ps @ drop n packets)) \<and> length ps = n \<and> frame_plans lm (map po_raw obus) ps"
proof -
  let ?rs = "map po_raw obus"
  have rs: "\<forall>r \<in> set ?rs. r \<noteq> [] \<and> length r < 2 ^ 32" using assms(2) by (auto simp: obu_fits_def po_raw_def)
  obtain ps where ps: "frame_plans lm ?rs ps" "packetizeInternal obus lm None = Some (Inr (length ps, None))"
    "packetizeInternal obus lm (Some packets) =
       Some (if length ps \<le> length packets then Inr (length ps, Some (ps @ drop (length ps) packets)) else Inl (length packets, RtpErrPacketPlanTooSmall))"
    using packetizeInternal_plans [OF assms(1-4)] by blast
  have n: "length ps = n" using assms(5) ps(2) by (simp add: PacketizeOBUCount_def)
  have pk: "packets \<noteq> []" using assms(6) n ps(1) by (auto simp: frame_plans_def)
  let ?out = "ps @ drop n packets"
  have int: "packetizeInternal obus lm (Some packets) = Some (Inr (n, Some ?out))" using ps(3) n assms(6) by simp
  define r where "r = plan_unused lm n ?out div int n"
  define m where "m = pl_MaxPayloadLen lm - (r - 1)"
  note eq = PacketizeOBUs_eq [OF int pk, of work, unfolded Let_def, folded r_def, folded m_def]
  show ?thesis
  proof (cases "n \<le> 1 \<or> plan_unused lm n ?out \<le> int n * 10 \<or> r \<le> 1 \<or> pl_MaxPayloadLen lm \<le> r \<or>
      m - pl_LastPacketReductionLen lm < 3 \<or> m - pl_FirstPacketReductionLen lm < 3")
    case True
    then have "PacketizeOBUs obus lm packets work = Some (Inr (n, ?out))" using assms(7) unfolding eq by auto
    then show ?thesis using ps(1) n by blast
  next
    case False
    then have "limits_ok (lm\<lparr>pl_MaxPayloadLen := m\<rparr>)" using assms(3) by (simp add: limits_ok_def)
    moreover have "map length ?rs \<noteq> [1]" using frame_plans_count [OF ps(1) rs] n False by auto
    then have "single_ok (lm\<lparr>pl_MaxPayloadLen := m\<rparr>) ?rs" unfolding single_ok_def by blast
    ultimately obtain qs where qs: "frame_plans (lm\<lparr>pl_MaxPayloadLen := m\<rparr>) ?rs qs" "packetizeInternal obus (lm\<lparr>pl_MaxPayloadLen := m\<rparr>) (Some work) =
       Some (if length qs \<le> length work then Inr (length qs, Some (qs @ drop (length qs) work)) else Inl (length work, RtpErrPacketPlanTooSmall))"
      using packetizeInternal_plans [OF assms(1,2)] by blast
    have "frame_plans lm ?rs qs" using False by (intro frame_plans_limits [OF qs(1)]) (simp add: m_def)
    moreover have "PacketizeOBUs obus lm packets work = Some (Inr (n, (if length qs = n then qs else ps) @ drop n packets))"
      using False assms(7) qs(2) n unfolding eq by auto
    ultimately show ?thesis using ps(1) n by (intro exI [of _ "if length qs = n then qs else ps"]) simp
  qed
qed

section \<open>Sending\<close>

text \<open>The sender: it asks for the size of the next packet, and for the packet.\<close>

primrec send_packets :: "nat \<Rightarrow> Packetizer \<Rightarrow> go_err + bytes list" where
  "send_packets 0 p = Inr []"
| "send_packets (Suc k) p =
     (case NextPacketSize p of
        None \<Rightarrow> Inr []
      | Some n \<Rightarrow>
          (case NextPacket p (replicate (nat n) 0) of
             (Inr (Some (m, marker)), p, out) \<Rightarrow>
               (case send_packets k p of Inl e \<Rightarrow> Inl e | Inr payloads \<Rightarrow> Inr (take m out # payloads))
           | (Inr None, p, out) \<Rightarrow> Inr []
           | (Inl e, p, out) \<Rightarrow> Inl e))"

definition send_frame :: "Packetizer \<Rightarrow> go_err + bytes list" where
  "send_frame p = send_packets (NumPackets p) p"

text \<open>The payload holds the fragments of the plan.\<close>

definition carries :: "bytes list \<Rightarrow> bytes \<Rightarrow> PacketPlan \<Rightarrow> bool" where
  "carries rs payload plan \<longleftrightarrow> int (length payload) = 1 + pp_PacketSize plan \<and>
     (\<exists>es. payload_elements payload = Inr (es, None) \<and> map el_frag es = plan_frags rs plan)"

lemma obu_fits_raw: "obu_fits o1 \<Longrightarrow> po_raw o1 \<noteq> [] \<and> length (po_raw o1) < 2 ^ 32"
  by (simp add: obu_fits_def) (simp add: po_raw_def)

lemma NextPacket_carries:
  assumes "\<forall>o1 \<in> set (pk_obus p). obu_fits o1" "pk_packetIndex p < length (pk_packets p)" "good_plan (map po_raw (pk_obus p)) (pk_packets p ! pk_packetIndex p)"
    "pk_packetIndex p = 0 \<Longrightarrow> pp_FirstOBUOffset (pk_packets p ! 0) = 0" "NextPacketSize p = Some m"
  shows "\<exists>n marker out. NextPacket p (replicate (nat m) 0) = (Inr (Some (n, marker)), p\<lparr>pk_packetIndex := pk_packetIndex p + 1\<rparr>, out) \<and>
    carries (map po_raw (pk_obus p)) (take n out) (pk_packets p ! pk_packetIndex p) \<and>
    (starts_new (take n out) \<longrightarrow> pk_keyFrame p \<and> pk_packetIndex p = 0)"
proof -
  let ?rs = "map po_raw (pk_obus p)"
  obtain f n off ls where p: "pk_packets p ! pk_packetIndex p = mk_plan ?rs f n off ls" "plan_wf (drop f ?rs) off n ls"
    using assms(3) by (auto simp: good_plan_def)
  let ?fs = "frags (drop f ?rs) off n ls"
  have m: "m = 1 + int (plan_size ?fs)" using assms(2,5) p(1) by (auto simp: NextPacketSize_def)
  have off: "off = 0" if "pk_packetIndex p = 0" using assms(4) that p(1) by simp
  have room: "1 + plan_size ?fs \<le> length (replicate (nat m) (0 :: u8))" using m by simp
  obtain h b marker where h: "AggregationHeader_Byte h = Inr b" "map el_frag (elements_from h 0 (map fst ?fs)) = ?fs"
      "ah_ElementCount h = 0 \<longleftrightarrow> 3 < n" "ah_ElementCount h = 0 \<or> unat (ah_ElementCount h) = length ?fs"
      "ah_StartsNewCodedVideoSequence h \<longrightarrow> pk_keyFrame p \<and> pk_packetIndex p = 0"
      "NextPacket p (replicate (nat m) 0) = (Inr (Some (1 + plan_size ?fs, marker)), p\<lparr>pk_packetIndex := pk_packetIndex p + 1\<rparr>,
         next_payload p h b ?fs @ drop (1 + plan_size ?fs) (replicate (nat m) 0))"
    using NextPacket_eq [OF assms(1,2) p(1) refl p(2) off refl room] by blast
  have n: "0 < n" "n \<le> length (drop f ?rs)" using p(2) by (auto simp: plan_wf_def)
  have len: "length (next_payload p h b ?fs) = 1 + plan_size ?fs"
    using h(3) length_frags [OF n(2)] by (simp add: next_payload_def plan_size_def)
  have rs: "\<forall>r \<in> set (drop f ?rs). r \<noteq> [] \<and> length r < 2 ^ 32" 
    using assms(1) obu_fits_raw by (metis (no_types, lifting) in_set_dropD image_iff list.set_map)
  have "payload_elements (b # element_bytes (ah_ElementCount h = 0) (map fst ?fs)) = Inr (elements_from h 0 (map fst ?fs), None)"
    using frags_data [OF p(2) rs] frags_last_next [OF n] h(4) by (intro payload_elements_bytes h(1)) auto
  then have "carries ?rs (next_payload p h b ?fs) (mk_plan ?rs f n off ls)"
    unfolding carries_def using h(2) len by (simp add: next_payload_def)
  moreover have "starts_new (next_payload p h b ?fs) = ah_StartsNewCodedVideoSequence h"
    using AggregationHeader_Byte_parse [OF h(1)] by (simp add: starts_new_def next_payload_def)
  ultimately show ?thesis unfolding p(1) using h(5,6) len by simp
qed

lemma send_packets_carries:
  assumes "\<forall>o1 \<in> set (pk_obus p). obu_fits o1" "\<forall>plan \<in> set (pk_packets p). good_plan (map po_raw (pk_obus p)) plan"
    "pk_packets p \<noteq> [] \<Longrightarrow> pp_FirstOBUOffset (pk_packets p ! 0) = 0" "pk_packetIndex p + k = length (pk_packets p)"
  shows "\<exists>payloads. send_packets k p = Inr payloads \<and> list_all2 (carries (map po_raw (pk_obus p))) payloads (drop (pk_packetIndex p) (pk_packets p)) \<and>
    (\<forall>j < length payloads. starts_new (payloads ! j) \<longrightarrow> pk_keyFrame p \<and> pk_packetIndex p + j = 0)"
  using assms
proof (induction k arbitrary: p)
  case (Suc k)
  have idx: "pk_packetIndex p < length (pk_packets p)" using Suc.prems(4) by simp
  then obtain m where m: "NextPacketSize p = Some m" by (simp add: NextPacketSize_def)
  have good: "good_plan (map po_raw (pk_obus p)) (pk_packets p ! pk_packetIndex p)" using Suc.prems(2) idx by simp
  have "pk_packets p \<noteq> []" using idx by auto
  then have first: "pp_FirstOBUOffset (pk_packets p ! 0) = 0" by (rule Suc.prems(3))
  let ?p = "p\<lparr>pk_packetIndex := pk_packetIndex p + 1\<rparr>"
  obtain n marker out where n: "NextPacket p (replicate (nat m) 0) = (Inr (Some (n, marker)), ?p, out)"
      "carries (map po_raw (pk_obus p)) (take n out) (pk_packets p ! pk_packetIndex p)"
      "starts_new (take n out) \<longrightarrow> pk_keyFrame p \<and> pk_packetIndex p = 0"
    using NextPacket_carries [OF Suc.prems(1) idx good first m] by blast
  obtain payloads where IH: "send_packets k ?p = Inr payloads"
      "list_all2 (carries (map po_raw (pk_obus p))) payloads (drop (pk_packetIndex ?p) (pk_packets p))"
      "\<forall>j < length payloads. \<not> starts_new (payloads ! j)"
    using Suc.IH [of ?p] Suc.prems by auto
  then show ?case using n m Cons_nth_drop_Suc [OF idx, symmetric] by (simp add: nth_Cons split: nat.split)
qed simp

section \<open>Receiving\<close>

text \<open>The receiver: it pushes the payloads one after the other and takes the OBUs that each completes.\<close>

fun receive :: "Depacketizer \<Rightarrow> bytes \<Rightarrow> int \<Rightarrow> OBUSpan list \<Rightarrow> bytes list \<Rightarrow> go_err + bytes list" where
  "receive d dst used spans [] = Inr []"
| "receive d dst used spans (payload # payloads) =
     (let r = Depacketizer_Push d dst used spans payload in
      case pr_err r of
        Some e \<Rightarrow> Inl e
      | None \<Rightarrow>
          (case receive (pr_d r) (pr_dst r) (pr_newUsed r) (pr_spans r) payloads of
             Inl e \<Rightarrow> Inl e
           | Inr obus \<Rightarrow> Inr (map (span_data (pr_dst r)) (take (pr_spanCount r) (pr_spans r)) @ obus)))"

lemma receive_joins:
  assumes "list_all2 (carries rs) payloads plans" "join_frags (dp_pending d dst (nat used)) (all_frags rs plans) = Some (obus, q)"
    "0 \<le> used" "used + int (sum_list (map length payloads)) \<le> int (length dst)" "\<forall>x \<in> set payloads. length x \<le> length spans"
    "dp_inFragment d \<longrightarrow> dp_fragmentStart d \<le> nat used"
  shows "receive d dst used spans payloads = Inr obus"
  using assms
proof (induction payloads plans arbitrary: d dst used spans obus rule: list_all2_induct)
  case (Cons payload payloads plan plans)
  obtain es where es: "payload_elements payload = Inr (es, None)" "map el_frag es = plan_frags rs plan"
    using Cons.hyps(1) by (auto simp: carries_def)
  obtain us q1 where j1: "join_frags (dp_pending d dst (nat used)) (plan_frags rs plan) = Some (us, q1)"
    using Cons.prems(1) join_frags_prefix by fastforce
  obtain vs where vs: "join_frags q1 (all_frags rs plans) = Some (vs, q)" "obus = us @ vs"
    using Cons.prems(1) join_frags_append [OF j1, of "all_frags rs plans"] by auto
  let ?r = "Depacketizer_Push d dst used spans payload"
  have room: "used + int (length payload) \<le> int (length dst)" using Cons.prems(3) by simp
  have len: "length payload \<le> length spans" using Cons.prems(4) by simp
  have J: "join_elements (dp_pending d dst (nat used)) es = Inr (us, q1)" by (rule join_elements_frags) (simp only: es(2) j1)
  have r: "pr_err ?r = None" "map (span_data (pr_dst ?r)) (take (pr_spanCount ?r) (pr_spans ?r)) = us"
      "dp_pending (pr_d ?r) (pr_dst ?r) (nat (pr_newUsed ?r)) = q1" "pr_newUsed ?r = used + int (data_size es)"
      "length (pr_dst ?r) = length dst" "length (pr_spans ?r) = length spans"
      "dp_inFragment (pr_d ?r) \<longrightarrow> dp_fragmentStart (pr_d ?r) \<le> nat (pr_newUsed ?r)"
    using Depacketizer_Push_step [OF es(1) Cons.prems(2) room len Cons.prems(5)] unfolding J Let_def sum.case prod.case by blast+
  obtain it where it: "rtp_NewIterator payload = Inr it" using es(1) by (auto simp: payload_elements_def split: sum.splits)
  have sz: "data_size es \<le> length payload" by (rule payload_elements_drain(2) [OF it es(1)])
  have "receive (pr_d ?r) (pr_dst ?r) (pr_newUsed ?r) (pr_spans ?r) payloads = Inr vs"
  proof (rule Cons.IH)
    show "join_frags (dp_pending (pr_d ?r) (pr_dst ?r) (nat (pr_newUsed ?r))) (all_frags rs plans) = Some (vs, q)" unfolding r(3) by (rule vs(1))
    show "dp_inFragment (pr_d ?r) \<longrightarrow> dp_fragmentStart (pr_d ?r) \<le> nat (pr_newUsed ?r)" by (rule r(7))
  qed (use Cons.prems(2-4) r(4-6) sz in auto)
  then show ?case using r(1,2) vs(2) by (simp add: Let_def)
qed simp

section \<open>A frame\<close>

text \<open>The OBUs of a frame, one after the other, and those that RTP carries.\<close>

function frame_units :: "bytes \<Rightarrow> Unit list" where
  "frame_units src =
     (if src = [] then []
      else case ParseElement src of
        Inl e \<Rightarrow> []
      | Inr unit \<Rightarrow> if un_Raw unit = [] then [] else unit # frame_units (drop (length (un_Raw unit)) src))"
  by pat_completeness auto
termination
  by (relation "measure length") auto

declare frame_units.simps [simp del]

definition rtp_eligible :: "Unit \<Rightarrow> bool" where
  "rtp_eligible unit \<longleftrightarrow> hd_Type (un_Header unit) \<notin> {TypeTemporalDelimiter, TypeTileList, TypePadding}"

definition rtp_units :: "bytes \<Rightarrow> Unit list" where
  "rtp_units src = filter rtp_eligible (frame_units src)"

lemma scan_loop_units:
  assumes "scan_loop rest None out cnt = ((n, None), out')"
  shows "n = cnt + length (rtp_units rest)"
    "n \<le> m \<Longrightarrow> scan_loop rest (Some m) out cnt = ((n, None), out @ map packetizer_obu (rtp_units rest))"
proof -
  have "n = cnt + length (rtp_units rest) \<and>
    (n \<le> m \<longrightarrow> scan_loop rest (Some m) out' cnt = ((n, None), out' @ map packetizer_obu (rtp_units rest)))"
    if "fst (scan_loop rest None out cnt) = (n, None)" for n out out' using that
  proof (induction rest arbitrary: cnt out out' rule: frame_units.induct)
    case (1 src)
    show ?case
    proof (cases "src = []")
      case True
      then show ?thesis using 1(2) by (simp add: scan_loop.simps frame_units.simps rtp_units_def)
    next
      case False
      then obtain u where u: "ParseElement src = Inr u" "un_Raw u \<noteq> []"
        using 1(2) by (subst (asm) scan_loop.simps) (auto split: sum.splits if_splits)
      note IH = 1(1) [OF False u(1) u(2)]
      have f: "rtp_units src = (if rtp_eligible u then [u] else []) @ rtp_units (drop (length (un_Raw u)) src)"
        using False u unfolding rtp_units_def by (subst frame_units.simps) simp
      have s: "scan_loop src c o1 k = (if \<not> rtp_eligible u then scan_loop (drop (length (un_Raw u)) src) c o1 k
          else case c of None \<Rightarrow> scan_loop (drop (length (un_Raw u)) src) c o1 (k + 1)
            | Some m \<Rightarrow> if k \<ge> m then ((k, Some RtpErrOBUBufferTooSmall), o1)
                        else scan_loop (drop (length (un_Raw u)) src) c (o1 @ [packetizer_obu u]) (k + 1))" for c o1 k
        using False u by (subst scan_loop.simps) (auto simp: rtp_eligible_def Let_def split: option.splits)
      show ?thesis
      proof (cases "rtp_eligible u")
        case True
        have "fst (scan_loop (drop (length (un_Raw u)) src) None out (cnt + 1)) = (n, None)" using 1(2) True unfolding s by simp
        from IH [OF this, of "out' @ [packetizer_obu u]"] show ?thesis using True unfolding s f by auto
      next
        case False
        have "fst (scan_loop (drop (length (un_Raw u)) src) None out cnt) = (n, None)" using 1(2) False unfolding s by simp
        from IH [OF this, of out'] show ?thesis using False unfolding s f by auto
      qed
    qed
  qed
  from this [of out n out] show "n = cnt + length (rtp_units rest)"
    "n \<le> m \<Longrightarrow> scan_loop rest (Some m) out cnt = ((n, None), out @ map packetizer_obu (rtp_units rest))" using assms by auto
qed

text \<open>The unit that RTP carries: the header without the size field, and the payload.\<close>

definition bare_unit :: "Unit \<Rightarrow> Unit" where
  "bare_unit u = (let h = (un_Header u)\<lparr>hd_HasSizeField := False\<rparr> in
     \<lparr>un_Header = h, un_HeaderLen = word_of_nat (HeaderLen h), un_SizeLen = 0, un_Size = word_of_nat (length (un_Payload u)),
      un_Payload = un_Payload u, un_Raw = header_bytes h @ un_Payload u\<rparr>)"

lemma po_raw_packetizer_obu: "po_raw (packetizer_obu u) = un_Raw (bare_unit u)"
  by (simp add: po_raw_def packetizer_obu_def packetizerHeaderBytes_def bare_unit_def header_bytes_def Let_def)

lemma ParseElement_bare_unit: "header_ok (un_Header u) \<Longrightarrow> ParseElement (un_Raw (bare_unit u)) = Inr (bare_unit u)"
  using ParseHeader_header_bytes [of "(un_Header u)\<lparr>hd_HasSizeField := False\<rparr>" "un_Payload u"]
  by (simp add: bare_unit_def ParseElement_def Let_def)

lemma ParseElement_size:
  assumes "ParseElement src = Inr u"
  shows "HeaderLen (un_Header u) + length (un_Payload u) \<le> length src"
proof -
  obtain h n where h: "ParseHeader src = Inr (h, n)" using assms by (auto simp: ParseElement_def split: sum.splits)
  show ?thesis
    using assms ParseHeader_ok [OF h] ParseHeader_len_le [OF h] h
    by (auto simp: ParseElement_def Let_def split: sum.splits prod.splits if_splits)
qed

lemma frame_units_ok: "u \<in> set (frame_units src) \<Longrightarrow> header_ok (un_Header u) \<and> HeaderLen (un_Header u) + length (un_Payload u) \<le> length src"
proof (induction src rule: frame_units.induct)
  case (1 src)
  show ?case using 1(2)
    by (subst (asm) frame_units.simps)
      (auto split: sum.splits if_splits dest: ParseElement_ok ParseElement_size intro: le_trans [OF conjunct2 [OF 1(1)]] conjunct1 [OF 1(1)])
qed

lemma rtp_units_fit:
  assumes "length src < 2 ^ 32" "u \<in> set (rtp_units src)"
  shows "obu_fits (packetizer_obu u)" "header_ok (un_Header u)"
proof -
  have u: "header_ok (un_Header u)" "HeaderLen (un_Header u) + length (un_Payload u) \<le> length src"
    using frame_units_ok assms(2) by (auto simp: rtp_units_def)
  then show "header_ok (un_Header u)" by simp
  have "HeaderLen ((un_Header u)\<lparr>hd_HasSizeField := False\<rparr>) = HeaderLen (un_Header u)" by (simp add: HeaderLen_def)
  then show "obu_fits (packetizer_obu u)"
    using u(2) assms(1) unfolding obu_fits_def po_raw_packetizer_obu by (simp add: packetizer_obu_def packetizerHeaderBytes_def bare_unit_def Let_def)
qed

lemma PacketizerScratchLen_units:
  assumes "PacketizerScratchLen frame lm obuScratch = Some (sz, None)" "sc_OBUs sz \<le> obuScratch"
  shows "sc_OBUs sz = length (rtp_units frame)"
    "ParsePacketizerOBUs frame obuScratch = ((length (rtp_units frame), None), map packetizer_obu (rtp_units frame))"
    "rtp_units frame \<noteq> [] \<Longrightarrow> PacketizeOBUCount (map packetizer_obu (rtp_units frame)) lm = Some (sc_Packets sz, None) \<and>
       (1 < sc_Packets sz \<longrightarrow> sc_Work sz = sc_Packets sz)"
proof -
  obtain n where n: "CountPacketizerOBUs frame = (n, None)" "n = sc_OBUs sz"
    using assms(1) by (auto simp: PacketizerScratchLen_def Let_def split: prod.splits if_splits option.splits)
  then obtain out where sc: "scan_loop frame None [] 0 = ((n, None), out)"
    by (cases "scan_loop frame None [] 0") (auto simp: CountPacketizerOBUs_def)
  note u = scan_loop_units [OF sc]
  show len: "sc_OBUs sz = length (rtp_units frame)" using u(1) n(2) by simp
  have parse: "ParsePacketizerOBUs frame m = ((length (rtp_units frame), None), map packetizer_obu (rtp_units frame))" if "n \<le> m" for m
    using u(2) [OF that] len n(2) by (simp add: ParsePacketizerOBUs_def)
  then show "ParsePacketizerOBUs frame obuScratch = ((length (rtp_units frame), None), map packetizer_obu (rtp_units frame))"
    using assms(2) n(2) by simp
  show "PacketizeOBUCount (map packetizer_obu (rtp_units frame)) lm = Some (sc_Packets sz, None) \<and>
       (1 < sc_Packets sz \<longrightarrow> sc_Work sz = sc_Packets sz)" if "rtp_units frame \<noteq> []"
    using assms n that parse [of n] len
    by (auto simp: PacketizerScratchLen_def Let_def split: option.splits prod.splits if_splits)
qed

lemma join_frags_first: "join_frags None (f # fs) = Some r \<Longrightarrow> \<not> fst (snd f)"
  by (cases f) (auto split: if_splits)

lemma frame_plans_first:
  assumes "frame_plans lm rs ps"
  shows "pp_FirstOBUOffset (ps ! 0) = 0"
proof -
  obtain p qs where ps: "ps = p # qs" using assms by (cases ps) (auto simp: frame_plans_def)
  obtain f n off ls where p: "p = mk_plan rs f n off ls" "plan_wf (drop f rs) off n ls"
    using assms ps by (auto simp: frame_plans_def good_plan_def)
  have "frags (drop f rs) off n ls \<noteq> [] \<and> fst (snd (hd (frags (drop f rs) off n ls))) = (0 < off)"
    using p(2) by (cases "(drop f rs, off, n, ls)" rule: frags.cases) (auto simp: plan_wf_def)
  moreover have "\<not> fst (snd (hd (plan_frags rs p @ all_frags rs qs)))" if "plan_frags rs p \<noteq> []"
    using assms that ps join_frags_first [of "hd (plan_frags rs p)" "tl (plan_frags rs p) @ all_frags rs qs"]
    by (cases "plan_frags rs p") (auto simp: frame_plans_def)
  ultimately show ?thesis using ps p(1) by auto
qed
 
lemma send_receive:
  assumes "frame_plans lm (map po_raw obus) ps" "\<forall>o1 \<in> set obus. obu_fits o1" "pk_obus p = obus" "pk_packets p = ps" "pk_packetIndex p = 0"
  shows "\<exists>payloads. send_frame p = Inr payloads \<and> length payloads = length ps \<and>
    (\<forall>j < length payloads. int (length (payloads ! j)) + reduction lm (length payloads) j \<le> pl_MaxPayloadLen lm) \<and>
    (\<forall>dst spans. sum_list (map length payloads) \<le> length dst \<and> (\<forall>x \<in> set payloads. length x \<le> length spans) \<longrightarrow>
       receive Depacketizer_Reset dst 0 spans payloads = Inr (map po_raw obus)) \<and>
    (\<forall>j < length payloads. starts_new (payloads ! j) \<longrightarrow> pk_keyFrame p \<and> j = 0)"
proof -
  note f = assms(1) [unfolded frame_plans_def]
  obtain payloads where s: "send_packets (NumPackets p) p = Inr payloads" "list_all2 (carries (map po_raw obus)) payloads ps"
      "\<forall>j < length payloads. starts_new (payloads ! j) \<longrightarrow> pk_keyFrame p \<and> j = 0"
    using send_packets_carries [of p "NumPackets p"] f assms(2-5) frame_plans_first [OF assms(1)] by (auto simp: NumPackets_def)
  have len: "length payloads = length ps" using s(2) by (rule list_all2_lengthD)
  have "int (length (payloads ! j)) + reduction lm (length payloads) j \<le> pl_MaxPayloadLen lm" if "j < length payloads" for j
    using list_all2_nthD [OF s(2) that] f that len by (auto simp: carries_def)
  moreover have "receive Depacketizer_Reset dst 0 spans payloads = Inr (map po_raw obus)"
    if "sum_list (map length payloads) \<le> length dst" "\<forall>x \<in> set payloads. length x \<le> length spans" for dst spans
    using that f by (intro receive_joins [OF s(2)]) (auto simp: Depacketizer_Reset_def dp_pending_def)
  ultimately show ?thesis using s(1,3) len by (auto simp: send_frame_def)
qed

lemma frame_sent:
  assumes "PacketizerScratchLen frame lm obuScratch = Some (sz, None)" "sc_OBUs sz \<le> obuScratch" "sc_Packets sz \<le> length packetScratch"
    "sc_Work sz \<le> length workScratch" "length frame < 2 ^ 32" "limits_ok lm" "pl_SinglePacketReductionLen lm \<le> pl_MaxPayloadLen lm - 2"
  shows "\<exists>p payloads. NewPacketizer frame lm keyFrame lastFrame obuScratch packetScratch workScratch = Some (Inr p) \<and>
    send_frame p = Inr payloads \<and>
    (\<forall>j < length payloads. int (length (payloads ! j)) + reduction lm (length payloads) j \<le> pl_MaxPayloadLen lm) \<and>
    (\<forall>dst spans. sum_list (map length payloads) \<le> length dst \<and> (\<forall>x \<in> set payloads. length x \<le> length spans) \<longrightarrow>
       (\<exists>obus. receive Depacketizer_Reset dst 0 spans payloads = Inr obus \<and> map ParseElement obus = map (Inr \<circ> bare_unit) (rtp_units frame))) \<and>
    (\<forall>j < length payloads. starts_new (payloads ! j) \<longrightarrow> keyFrame \<and> j = 0)"
proof -
  let ?us = "rtp_units frame" and ?obus = "map packetizer_obu (rtp_units frame)"
  note sz = PacketizerScratchLen_units [OF assms(1,2)]
  note fit = rtp_units_fit [OF assms(5)]
  have fits: "\<forall>o1 \<in> set ?obus. obu_fits o1" using fit(1) by auto
  have parse: "map ParseElement (map po_raw ?obus) = map (Inr \<circ> bare_unit) ?us"
    using fit(2) by (auto simp: po_raw_packetizer_obu ParseElement_bare_unit)
  show ?thesis
  proof (cases "?us = []")
    case True
    let ?p = "\<lparr>pk_obus = [], pk_packets = [], pk_packetIndex = 0, pk_keyFrame = keyFrame, pk_lastFrameInPicture = lastFrame\<rparr>"
    have "NewPacketizer frame lm keyFrame lastFrame obuScratch packetScratch workScratch = Some (Inr ?p)"
      using sz(2) True by (simp add: NewPacketizer_def)
    then show ?thesis using True by (intro exI [of _ ?p] exI [of _ "[]"]) (simp add: send_frame_def NumPackets_def)
  next
    case False
    then have ne: "?obus \<noteq> []" by simp
    have single: "single_ok lm (map po_raw ?obus)" using assms(7) by (simp add: single_ok_def)
    have w: "1 < sc_Packets sz \<longrightarrow> sc_Packets sz \<le> length workScratch" using sz(3) [OF False] assms(4) by auto
    obtain ps where ps: "PacketizeOBUs ?obus lm packetScratch workScratch = Some (Inr (sc_Packets sz, ps @ drop (sc_Packets sz) packetScratch))"
        "length ps = sc_Packets sz" "frame_plans lm (map po_raw ?obus) ps"
      using PacketizeOBUs_plans [OF ne fits assms(6) single conjunct1 [OF sz(3) [OF False]] assms(3) w] by blast
    let ?p = "\<lparr>pk_obus = ?obus, pk_packets = ps, pk_packetIndex = 0, pk_keyFrame = keyFrame, pk_lastFrameInPicture = lastFrame\<rparr>"
    have new: "NewPacketizer frame lm keyFrame lastFrame obuScratch packetScratch workScratch = Some (Inr ?p)"
      using sz(2) False ps(1,2) by (simp add: NewPacketizer_def)
    from send_receive [OF ps(3) fits, of ?p] obtain payloads where "send_frame ?p = Inr payloads"
      "\<forall>j < length payloads. int (length (payloads ! j)) + reduction lm (length payloads) j \<le> pl_MaxPayloadLen lm"
      "\<forall>dst spans. sum_list (map length payloads) \<le> length dst \<and> (\<forall>x \<in> set payloads. length x \<le> length spans) \<longrightarrow>
         receive Depacketizer_Reset dst 0 spans payloads = Inr (map po_raw ?obus)"
      "\<forall>j < length payloads. starts_new (payloads ! j) \<longrightarrow> keyFrame \<and> j = 0" by auto
    then show ?thesis using new parse by blast
  qed
qed

text \<open>
  C2: what goes out comes in: with scratch of the sizes that \<open>PacketizerScratchLen\<close> reports, \<open>NewPacketizer\<close> succeeds on a frame,
  \<open>NextPacket\<close> writes all packets with buffers of the sizes that \<open>NextPacketSize\<close> reports, no payload exceeds its limit,
  and a depacketizer with large enough buffers that is pushed these payloads gives the OBUs of the frame that RTP carries, in
  order, each with its header (without the size field) and its payload.
\<close>

theorem rtp_frame_roundtrip:
  assumes "PacketizerScratchLen frame lm obuScratch = Some (sz, None)" "sc_OBUs sz \<le> obuScratch" "sc_Packets sz \<le> length packetScratch"
    "sc_Work sz \<le> length workScratch" "length frame < 2 ^ 32" "limits_ok lm" "pl_SinglePacketReductionLen lm \<le> pl_MaxPayloadLen lm - 2"
  shows "\<exists>p payloads. NewPacketizer frame lm keyFrame lastFrame obuScratch packetScratch workScratch = Some (Inr p) \<and>
    send_frame p = Inr payloads \<and>
    (\<forall>j < length payloads. int (length (payloads ! j)) + reduction lm (length payloads) j \<le> pl_MaxPayloadLen lm) \<and>
    (\<forall>dst spans. sum_list (map length payloads) \<le> length dst \<and> (\<forall>x \<in> set payloads. length x \<le> length spans) \<longrightarrow>
       (\<exists>obus. receive Depacketizer_Reset dst 0 spans payloads = Inr obus \<and> map ParseElement obus = map (Inr \<circ> bare_unit) (rtp_units frame)))"
  using frame_sent [OF assms] by blast

definition small_packets :: PayloadSizeLimits where
  "small_packets = \<lparr>pl_MaxPayloadLen = 5, pl_FirstPacketReductionLen = 1, pl_LastPacketReductionLen = 1, pl_SinglePacketReductionLen = 2\<rparr>"

theorem rtp_frame_roundtrip_witness:
  "\<exists>p payloads. NewPacketizer [0x0a, 1, 9, 0x32, 5, 1, 2, 3, 4, 5] small_packets True True 2 (replicate 3 (empty_plan 0)) (replicate 3 (empty_plan 0)) = Some (Inr p) \<and>
    send_frame p = Inr payloads \<and>
    (\<forall>j < length payloads. int (length (payloads ! j)) + reduction small_packets (length payloads) j \<le> 5) \<and>
    (\<forall>dst spans. sum_list (map length payloads) \<le> length dst \<and> (\<forall>x \<in> set payloads. length x \<le> length spans) \<longrightarrow>
       (\<exists>obus. receive Depacketizer_Reset dst 0 spans payloads = Inr obus \<and>
          map ParseElement obus = map (Inr \<circ> bare_unit) (rtp_units [0x0a, 1, 9, 0x32, 5, 1, 2, 3, 4, 5])))"
proof -
  have s: "PacketizerScratchLen [0x0a, 1, 9, 0x32, 5, 1, 2, 3, 4, 5] small_packets 2 = Some (\<lparr>sc_OBUs = 2, sc_Packets = 3, sc_Work = 3\<rparr>, None)"
    by code_simp
  have "limits_ok small_packets" by code_simp
  then show ?thesis
    using rtp_frame_roundtrip [OF s, of "replicate 3 (empty_plan 0)" "replicate 3 (empty_plan 0)" True True] by (simp add: small_packets_def)
qed

text \<open>
  C12: the planner returns for every frame and all valid limits, and its count is exact: \<open>PacketizeOBUCount\<close> gives a positive number
  of packets, planning into storage of at least that many entries gives as many plans, and into less storage it is the error
  \<open>ErrPacketPlanTooSmall\<close>.
\<close>

theorem packetizeInternal_returns:
  assumes "obus \<noteq> []" "\<forall>o1 \<in> set obus. obu_fits o1" "limits_ok lm" "single_ok lm (map po_raw obus)"
  shows "\<exists>n. 0 < n \<and> PacketizeOBUCount obus lm = Some (n, None) \<and>
    (\<forall>packets. packetizeInternal obus lm (Some packets) = Some (Inl (length packets, RtpErrPacketPlanTooSmall)) \<and> length packets < n \<or>
       (\<exists>plans. packetizeInternal obus lm (Some packets) = Some (Inr (n, Some (plans @ drop n packets))) \<and> length plans = n \<and> n \<le> length packets))"
proof -
  obtain ps where ps: "frame_plans lm (map po_raw obus) ps" "packetizeInternal obus lm None = Some (Inr (length ps, None))"
    "\<forall>xs. packetizeInternal obus lm (Some xs) =
       Some (if length ps \<le> length xs then Inr (length ps, Some (ps @ drop (length ps) xs)) else Inl (length xs, RtpErrPacketPlanTooSmall))"
    using packetizeInternal_plans [OF assms] by blast
  then show ?thesis
    by (intro exI [of _ "length ps"]) (auto simp: PacketizeOBUCount_def frame_plans_def not_le intro!: exI [of _ ps])
qed

theorem packetizeInternal_returns_witness:
  "\<exists>n. 0 < n \<and> PacketizeOBUCount (map packetizer_obu (rtp_units [0x0a, 1, 9, 0x32, 5, 1, 2, 3, 4, 5])) small_packets = Some (n, None)"
proof -
  let ?os = "map packetizer_obu (rtp_units [0x0a, 1, 9, 0x32, 5, 1, 2, 3, 4, 5])"
  have f: "\<forall>o1 \<in> set ?os. obu_fits o1" using rtp_units_fit(1) [of "[0x0a, 1, 9, 0x32, 5, 1, 2, 3, 4, 5]"] by auto
  have "?os \<noteq> []" "limits_ok small_packets" "single_ok small_packets (map po_raw ?os)" by code_simp+
  from packetizeInternal_returns [OF this(1) f this(2,3)] show ?thesis by blast
qed

text \<open>
  C11: the plans of a frame respect the limits: with enough storage, \<open>PacketizeOBUs\<close> plans as many packets as were counted, also when it evens out
  their sizes; each packet carries at least a byte, the packets together carry every OBU exactly once and in order, and with its
  aggregation header a packet leaves the bytes free that the limits reserve in the first, the last or the only packet.
\<close>

theorem PacketizeOBUs_within_limits:
  assumes "obus \<noteq> []" "\<forall>o1 \<in> set obus. obu_fits o1" "limits_ok lm" "single_ok lm (map po_raw obus)"
    "PacketizeOBUCount obus lm = Some (n, None)" "n \<le> length packets" "n \<le> length work"
  shows "\<exists>plans. PacketizeOBUs obus lm packets work = Some (Inr (n, plans @ drop n packets)) \<and> length plans = n \<and>
    (\<forall>j < n. 1 + pp_PacketSize (plans ! j) + reduction lm n j \<le> pl_MaxPayloadLen lm \<and> 0 < pp_NumOBUElements (plans ! j)) \<and>
    join_frags None (concat (map (plan_frags (map po_raw obus)) plans)) = Some (map po_raw obus, None)"
proof -
  obtain ps where ps: "PacketizeOBUs obus lm packets work = Some (Inr (n, ps @ drop n packets))" "length ps = n" "frame_plans lm (map po_raw obus) ps"
    using PacketizeOBUs_plans [OF assms(1-6)] assms(7) by blast
  have "0 < pp_NumOBUElements (ps ! j)" if "j < n" for j
  proof -
    have "good_plan (map po_raw obus) (ps ! j)" using ps(2,3) that by (auto simp: frame_plans_def)
    then show ?thesis by (auto simp: good_plan_def plan_wf_def)
  qed
  then show ?thesis using ps by (intro exI [of _ ps]) (auto simp: frame_plans_def)
qed

theorem PacketizeOBUs_within_limits_witness:
  "\<exists>plans. PacketizeOBUs (map packetizer_obu (rtp_units [0x0a, 1, 9, 0x32, 5, 1, 2, 3, 4, 5])) small_packets (replicate 3 (empty_plan 0)) (replicate 3 (empty_plan 0)) =
     Some (Inr (3, plans)) \<and> (\<forall>j < 3. 1 + pp_PacketSize (plans ! j) + reduction small_packets 3 j \<le> 5)"
proof -
  let ?os = "map packetizer_obu (rtp_units [0x0a, 1, 9, 0x32, 5, 1, 2, 3, 4, 5])"
  have f: "\<forall>o1 \<in> set ?os. obu_fits o1" using rtp_units_fit(1) [of "[0x0a, 1, 9, 0x32, 5, 1, 2, 3, 4, 5]"] by auto
  have o: "?os \<noteq> []" "limits_ok small_packets" "single_ok small_packets (map po_raw ?os)"
    "PacketizeOBUCount ?os small_packets = Some (3, None)" by code_simp+
  show ?thesis
    using PacketizeOBUs_within_limits [OF o(1) f o(2-4), of "replicate 3 (empty_plan 0)" "replicate 3 (empty_plan 0)"] by (auto simp: small_packets_def)
qed

text \<open>
  Limits that leave no room in a single packet are accepted, and on a frame that is one OBU of one byte they make the packetizer fail: the
  planner takes the byte back out of the first packet and stores an empty plan, for which \<open>NextPacket\<close> reads the OBU of index -1.
\<close>

theorem packetizer_empty_plan:
  "\<exists>p. NewPacketizer [0x30] \<lparr>pl_MaxPayloadLen = 10, pl_FirstPacketReductionLen = 0, pl_LastPacketReductionLen = 0, pl_SinglePacketReductionLen = 9\<rparr>
       False True 1 (replicate 2 (empty_plan 0)) (replicate 2 (empty_plan 0)) = Some (Inr p) \<and>
     map pp_NumOBUElements (pk_packets p) = [0, 1] \<and> fst (NextPacket p (replicate 10 0)) = Inl GoPanic"
proof -
  let ?lm = "\<lparr>pl_MaxPayloadLen = 10, pl_FirstPacketReductionLen = 0, pl_LastPacketReductionLen = 0, pl_SinglePacketReductionLen = 9\<rparr>"
  have "case NewPacketizer [0x30] ?lm False True 1 (replicate 2 (empty_plan 0)) (replicate 2 (empty_plan 0)) of
      Some (Inr p) \<Rightarrow> map pp_NumOBUElements (pk_packets p) = [0, 1] \<and> fst (NextPacket p (replicate 10 0)) = Inl GoPanic | _ \<Rightarrow> False" by code_simp
  then show ?thesis by (auto split: option.splits sum.splits)
qed

end
