(* ===== verification/Stream_Paths.thy ===== *)
theory Stream_Paths
  imports Stream_Invariant Rtp_Send
begin

text \<open>
  The ways into the decoder's stream: \<open>PushLowOverhead\<close> and \<open>PushRTPPayload\<close> both come down to pushing units one by one. A rejected
  unit leaves no trace; a low-overhead stream is the sequence of its units; and the packets that the packetizer makes of a frame give the
  events of the units of the frame.
\<close>

section \<open>Low-overhead streams\<close>

abbreviation plain :: "Unit list \<Rightarrow> (Unit \<times> bool) list" where
  "plain us \<equiv> map (\<lambda>u. (u, False)) us"

lemma PushLowOverhead_loop_units:
  assumes "drain LowOverheadIterator_Next fuel it = Some (us, e)" "cnt \<le> length events"
    "push_units (plain (take (length events - cnt) us)) s = (err, evs, t)"
  shows "\<exists>events'. PushLowOverhead_loop it cnt events s =
      (cnt + length evs, if err \<noteq> None then err else if length events - cnt < length us then Some ErrEventBufferTooSmall else e, events', t) \<and>
    take (cnt + length evs) events' = take cnt events @ evs \<and> length events' = length events"
  using assms
proof (induction fuel arbitrary: it us cnt events s err evs t)
  case (Suc fuel)
  obtain x it' where n: "LowOverheadIterator_Next it = (x, it')" by (cases "LowOverheadIterator_Next it")
  show ?case
  proof (cases "\<exists>u. x = Inr (Some u)")
    case False
    then show ?thesis
      using Suc.prems n by (subst PushLowOverhead_loop.simps) (auto split: sum.splits option.splits)
  next
    case True
    then obtain u us1 where u: "x = Inr (Some u)" "drain LowOverheadIterator_Next fuel it' = Some (us1, e)" "us = u # us1"
      using Suc.prems(1) n by (auto split: option.splits)
    show ?thesis
    proof (cases "cnt < length events")
      case False
      then show ?thesis using Suc.prems n u by (subst PushLowOverhead_loop.simps) auto
    next
      case room: True
      then have tk: "take (length events - cnt) us = u # take (length events - (cnt + 1)) us1" unfolding u(3) by (simp add: take_Cons')
      obtain e1 ev s1 where p: "PushUnitInto u False s = (e1, ev, s1)" by (metis prod_cases3)
      have step: "PushLowOverhead_loop it cnt events s = (case e1 of Some e \<Rightarrow> (cnt, Some e, events[cnt := ev], s1)
          | None \<Rightarrow> PushLowOverhead_loop it' (cnt + 1) (events[cnt := ev]) s1)"
        using room n u(1) p by (subst PushLowOverhead_loop.simps) (auto split: option.splits)
      show ?thesis
      proof (cases e1)
        case (Some e1)
        then show ?thesis using Suc.prems(3) p step room unfolding tk by auto
      next
        case None
        obtain err1 evs1 t1 where q: "push_units (plain (take (length (events[cnt := ev]) - (cnt + 1)) us1)) s1 = (err1, evs1, t1)" by (metis prod_cases3)
        then have r: "err = err1" "evs = ev # evs1" "t = t1" using Suc.prems(3) p None unfolding tk by auto
        obtain events' where "PushLowOverhead_loop it' (cnt + 1) (events[cnt := ev]) s1 =
            (cnt + 1 + length evs1, if err1 \<noteq> None then err1 else if length events - (cnt + 1) < length us1 then Some ErrEventBufferTooSmall else e, events', t1)"
            "take (cnt + 1 + length evs1) events' = take (cnt + 1) (events[cnt := ev]) @ evs1" "length events' = length events"
          using Suc.IH [OF u(2) _ q] room by auto
        then show ?thesis using room step None unfolding r u(3) by (auto simp: take_Suc_update)
      qed
    qed
  qed
qed simp

section \<open>RTP\<close>

text \<open>The depacketizer's state takes no part in the handling of units.\<close>

lemma frame_stages_rtp: "frame_stages payload (s\<lparr>st_rtp := d\<rparr>) = frame_stages payload s"
  by (intro ext) (simp add: frame_stages_def previousSegmentationData_def previousLoopFilterDeltas_def)

lemma clearPendingFrame_rtp: "clearPendingFrame (s\<lparr>st_rtp := d\<rparr>) = (clearPendingFrame s)\<lparr>st_rtp := d\<rparr>"
  by (simp add: clearPendingFrame_def)

lemma update_references_rtp: "update_references f (s\<lparr>st_rtp := d\<rparr>) = (update_references f s)\<lparr>st_rtp := d\<rparr>"
  by (simp add: update_references_def)

definition with_rtp :: "Depacketizer \<Rightarrow> go_err option \<times> 'e \<times> Stream \<Rightarrow> go_err option \<times> 'e \<times> Stream" where
  "with_rtp d r = (case r of (err, ev, s) \<Rightarrow> (err, ev, s\<lparr>st_rtp := d\<rparr>))"

lemma acceptExistingFrame_rtp: "acceptExistingFrame event (s\<lparr>st_rtp := d\<rparr>) = with_rtp d (acceptExistingFrame event s)"
  by (simp add: acceptExistingFrame_def with_rtp_def Let_def clearPendingFrame_def)

lemma acceptFrameHeader_rtp: "acceptFrameHeader event (s\<lparr>st_rtp := d\<rparr>) = with_rtp d (acceptFrameHeader event s)"
  unfolding acceptFrameHeader_def Let_def frame_stages_rtp update_references_rtp acceptExistingFrame_rtp
  by (simp add: with_rtp_def storeFrameState_def split: sum.split)

lemma push_sequence_header_rtp: "push_sequence_header event (s\<lparr>st_rtp := d\<rparr>) = with_rtp d (push_sequence_header event s)"
  unfolding push_sequence_header_def Let_def clearPendingFrame_rtp
  by (simp add: with_rtp_def split: sum.split)

lemma push_frame_rtp: "push_frame event (s\<lparr>st_rtp := d\<rparr>) = with_rtp d (push_frame event s)"
  unfolding push_frame_def Let_def frame_stages_rtp update_references_rtp
  by (simp add: with_rtp_def storeFrameState_def clearPendingFrame_def split: sum.split)

lemma push_tile_group_rtp: "push_tile_group event (s\<lparr>st_rtp := d\<rparr>) = with_rtp d (push_tile_group event s)"
  unfolding push_tile_group_def Let_def
  by (simp add: with_rtp_def applyFrameState_def clearPendingFrame_def split: sum.split)

lemma push_tile_list_rtp: "push_tile_list event (s\<lparr>st_rtp := d\<rparr>) = with_rtp d (push_tile_list event s)"
proof -
  obtain list e where p: "ParseTileListOBU (un_Payload (ev_Unit event)) = (list, e)" by (cases "ParseTileListOBU (un_Payload (ev_Unit event))")
  show ?thesis
    by (cases e; cases "ValidateTileListDecodeLayout list (fst_TileInfo (st_frame s))")
      (simp_all add: push_tile_list_def Let_def p with_rtp_def applyFrameState_def)
qed

lemma PushUnitInto_rtp: "PushUnitInto u b (s\<lparr>st_rtp := d\<rparr>) = with_rtp d (PushUnitInto u b s)"
  unfolding PushUnitInto_def Let_def acceptFrameHeader_rtp push_sequence_header_rtp push_frame_rtp push_tile_group_rtp push_tile_list_rtp clearPendingFrame_rtp
  by (simp add: with_rtp_def split: prod.split)

lemma push_units_rtp: "push_units us (s\<lparr>st_rtp := d\<rparr>) = with_rtp d (push_units us s)"
proof (induction us s rule: push_units.induct)
  case (2 unit b us s)
  obtain e ev s1 where p: "PushUnitInto unit b s = (e, ev, s1)" by (metis prod_cases3)
  show ?case
    using "2.IH" [OF p [symmetric]] p by (cases e) (simp_all add: PushUnitInto_rtp with_rtp_def split: prod.split)
qed (simp add: with_rtp_def)

lemma push_spans_units:
  assumes "map (ParseElement \<circ> span_data dst) spans = map Inr us" "\<forall>sp \<in> set spans. int (os_Offset sp + os_Length sp) \<le> newUsed"
    "i + length spans \<le> length events" "push_units (zip us (map os_NewSequence spans)) s = (err, evs, t)"
  shows "\<exists>events'. push_spans dst newUsed spans i events s = (i + length evs, err, events', t) \<and>
    take (i + length evs) events' = take i events @ evs \<and> length events' = length events"
  using assms
proof (induction spans arbitrary: us i events s err evs t)
  case (Cons sp spans)
  obtain u us1 where us: "us = u # us1" using Cons.prems(1) by (cases us) auto
  then have "ParseElement (span_data dst sp) = Inr u" "map (ParseElement \<circ> span_data dst) spans = map Inr us1"
    using Cons.prems(1) [unfolded us list.map list.inject] by (simp, blast)
  with us have u: "us = u # us1" "ParseElement (take (os_Length sp) (drop (os_Offset sp) dst)) = Inr u"
      "map (ParseElement \<circ> span_data dst) spans = map Inr us1" by (simp_all only: span_data_def)
  obtain e1 ev s1 where p: "PushUnitInto u (os_NewSequence sp) s = (e1, ev, s1)" by (metis prod_cases3)
  have step: "push_spans dst newUsed (sp # spans) i events s = (case e1 of Some e \<Rightarrow> (i, Some e, events[i := ev], s1)
      | None \<Rightarrow> push_spans dst newUsed spans (i + 1) (events[i := ev]) s1)"
    using u(2) Cons.prems(2) p by (auto split: option.splits)
  show ?case
  proof (cases e1)
    case (Some e)
    then show ?thesis using Cons.prems(3,4) p step u(1) by auto
  next
    case None
    obtain err1 evs1 t1 where q: "push_units (zip us1 (map os_NewSequence spans)) s1 = (err1, evs1, t1)" by (metis prod_cases3)
    then have r: "err = err1" "evs = ev # evs1" "t = t1" using Cons.prems(4) p None u(1) by auto
    obtain events' where "push_spans dst newUsed spans (i + 1) (events[i := ev]) s1 = (i + 1 + length evs1, err1, events', t1)"
        "take (i + 1 + length evs1) events' = take (i + 1) (events[i := ev]) @ evs1" "length events' = length events"
      using Cons.IH [OF u(3) _ _ q, of "i + 1" "events[i := ev]"] Cons.prems(2,3) by auto
    then show ?thesis using step None Cons.prems(3) unfolding r by (auto simp: take_Suc_update)
  qed
qed (auto simp: zip_Nil)

text \<open>The receiver's loop: the packets go into the stream one after the other, up to the first error; the events are those of the units accepted.\<close>

fun decode_payloads :: "bytes \<Rightarrow> int \<Rightarrow> OBUSpan list \<Rightarrow> Event list \<Rightarrow> bytes list \<Rightarrow> Stream \<Rightarrow> go_err option \<times> Event list \<times> Stream" where
  "decode_payloads dst used spans events [] s = (None, [], s)"
| "decode_payloads dst used spans events (payload # payloads) s =
     (case PushRTPPayload dst used spans events payload s of
        ((newUsed, n, Some e), dst, spans, events, s) \<Rightarrow> (Some e, take n events, s)
      | ((newUsed, n, None), dst, spans, events, s) \<Rightarrow>
          (case decode_payloads dst newUsed spans events payloads s of (err, evs, t) \<Rightarrow> (err, take n events @ evs, t)))"

lemma PushUnitInto_keeps_rtp: "PushUnitInto u b s = (err, ev, t) \<Longrightarrow> t\<lparr>st_rtp := st_rtp s\<rparr> = t"
  using PushUnitInto_rtp [where s = s and d = "st_rtp s" and u = u and b = b] by (simp add: with_rtp_def)

lemma push_units_keeps_rtp: "push_units us s = (err, evs, t) \<Longrightarrow> t\<lparr>st_rtp := st_rtp s\<rparr> = t"
  using push_units_rtp [where s = s and d = "st_rtp s" and us = us] by (simp add: with_rtp_def)

text \<open>One packet.\<close>

lemma PushRTPPayload_units:
  fixes s dst used spans payload
  defines "r \<equiv> Depacketizer_Push (st_rtp s) dst used spans payload"
  assumes "pr_err r = None" "map (ParseElement \<circ> span_data (pr_dst r)) (take (pr_spanCount r) (pr_spans r)) = map Inr us"
    "dp_inFragment (st_rtp s) \<longrightarrow> dp_fragmentStart (st_rtp s) \<le> nat used" "length us \<le> length events" "starts_new payload \<longrightarrow> k"
  shows "\<exists>flags. length flags = length us \<and> (\<forall>i < length us. flags ! i \<longrightarrow> i = 0 \<and> k) \<and>
    (case push_units (zip us flags) s of (err, evs, t) \<Rightarrow>
       \<exists>events'. PushRTPPayload dst used spans events payload s =
         ((pr_newUsed r, length evs, err), pr_dst r, pr_spans r, events', t\<lparr>st_rtp := pr_d r\<rparr>) \<and>
       take (length evs) events' = evs \<and> length events' = length events)"
proof -
  let ?sps = "take (pr_spanCount r) (pr_spans r)"
  note sp = Depacketizer_Push_spans [OF assms(2) [unfolded r_def] assms(4), folded r_def]
  have len: "length ?sps = length us" using arg_cong [OF assms(3), of length] by simp
  then have cnt: "pr_spanCount r = length us" using sp by simp
  define flags where "flags = map os_NewSequence ?sps"
  have f: "length flags = length us" "\<forall>i < length us. flags ! i \<longrightarrow> i = 0 \<and> k"
    using len sp cnt assms(6) by (auto simp: flags_def)
  obtain err evs t where p: "push_units (zip us flags) s = (err, evs, t)" by (metis prod_cases3)
  have q: "push_units (zip us flags) (s\<lparr>st_rtp := pr_d r\<rparr>) = (err, evs, t\<lparr>st_rtp := pr_d r\<rparr>)"
    using push_units_rtp [where s = s and d = "pr_d r" and us = "zip us flags"] p by (simp add: with_rtp_def)
  have ends: "\<forall>x \<in> set ?sps. int (os_Offset x + os_Length x) \<le> pr_newUsed r" using sp by (auto simp: in_set_conv_nth)
  obtain events' where "push_spans (pr_dst r) (pr_newUsed r) ?sps 0 events (s\<lparr>st_rtp := pr_d r\<rparr>) = (length evs, err, events', t\<lparr>st_rtp := pr_d r\<rparr>)"
      "take (length evs) events' = evs" "length events' = length events"
    using push_spans_units [OF assms(3) ends _ q [unfolded flags_def], of 0 events] len assms(5) by auto
  then show ?thesis
    using f p cnt assms(2,5) unfolding PushRTPPayload_def r_def [symmetric] Let_def by (intro exI [of _ flags]) auto
qed

lemma zip_append_flags: "length fs = length us \<Longrightarrow> zip (us @ vs) (fs @ gs) = zip us fs @ zip vs gs"
  by simp

lemma decode_receive:
  assumes "receive (st_rtp s) dst used spans payloads = Inr obus" "map ParseElement obus = map Inr us" "length us \<le> length events"
    "dp_inFragment (st_rtp s) \<longrightarrow> dp_fragmentStart (st_rtp s) \<le> nat used" "\<forall>j < length payloads. starts_new (payloads ! j) \<longrightarrow> k \<and> j = 0"
  shows "\<exists>flags d. length flags = length us \<and> (\<forall>i < length us. flags ! i \<longrightarrow> i = 0 \<and> k) \<and>
    decode_payloads dst used spans events payloads s = with_rtp d (push_units (zip us flags) s)"
  using assms
proof (induction payloads arbitrary: s dst used spans obus us events k)
  case Nil
  then show ?case by (intro exI [of _ "[]"] exI [of _ "st_rtp s"]) (simp add: with_rtp_def)
next
  case (Cons payload payloads)
  define r where "r = Depacketizer_Push (st_rtp s) dst used spans payload"
  obtain obus2 where r: "pr_err r = None" "receive (pr_d r) (pr_dst r) (pr_newUsed r) (pr_spans r) payloads = Inr obus2"
      "obus = map (span_data (pr_dst r)) (take (pr_spanCount r) (pr_spans r)) @ obus2"
    using Cons.prems(1) by (auto simp: Let_def r_def split: option.splits sum.splits)
  obtain us1 us2 where us: "us = us1 @ us2" "map (ParseElement \<circ> span_data (pr_dst r)) (take (pr_spanCount r) (pr_spans r)) = map Inr us1"
      "map ParseElement obus2 = map Inr us2"
    using Cons.prems(2) unfolding r(3) by (auto simp: map_eq_append_conv append_eq_map_conv)
  note sp = Depacketizer_Push_spans [OF r(1) [unfolded r_def] Cons.prems(4), folded r_def]
  have k: "starts_new payload \<longrightarrow> k" using Cons.prems(5) by (force dest: spec [of _ 0])
  obtain f1 where f1: "length f1 = length us1" "\<forall>i < length us1. f1 ! i \<longrightarrow> i = 0 \<and> k"
    and one: "case push_units (zip us1 f1) s of (err, evs, t) \<Rightarrow>
       \<exists>events'. PushRTPPayload dst used spans events payload s =
         ((pr_newUsed r, length evs, err), pr_dst r, pr_spans r, events', t\<lparr>st_rtp := pr_d r\<rparr>) \<and>
       take (length evs) events' = evs \<and> length events' = length events"
    using PushRTPPayload_units [OF r(1) [unfolded r_def] us(2) [unfolded r_def] Cons.prems(4) _ k, of events, folded r_def] Cons.prems(3) us(1) by auto
  obtain err evs t where p: "push_units (zip us1 f1) s = (err, evs, t)" by (metis prod_cases3)
  obtain events' where push: "PushRTPPayload dst used spans events payload s =
         ((pr_newUsed r, length evs, err), pr_dst r, pr_spans r, events', t\<lparr>st_rtp := pr_d r\<rparr>)"
      "take (length evs) events' = evs" "length events' = length events"
    using one p by auto
  have no: "\<forall>j < length payloads. starts_new (payloads ! j) \<longrightarrow> False \<and> j = 0" using Cons.prems(5) by (auto dest: spec [of _ "Suc _"])
  obtain f2 d where f2: "length f2 = length us2" "\<forall>i < length us2. \<not> f2 ! i"
      "decode_payloads (pr_dst r) (pr_newUsed r) (pr_spans r) events' payloads (t\<lparr>st_rtp := pr_d r\<rparr>) = with_rtp d (push_units (zip us2 f2) (t\<lparr>st_rtp := pr_d r\<rparr>))"
    using Cons.IH [of "t\<lparr>st_rtp := pr_d r\<rparr>" "pr_dst r" "pr_newUsed r" "pr_spans r" obus2 us2 events' False] r(2) us sp no Cons.prems(3) push(3) by auto
  let ?f = "f1 @ f2"
  have f: "length ?f = length us \<and> (\<forall>i < length us. ?f ! i \<longrightarrow> i = 0 \<and> k)"
    using f1 f2 us(1) by (auto simp: nth_append)
  show ?case
  proof (cases err)
    case (Some e)
    then have "decode_payloads dst used spans events (payload # payloads) s = with_rtp (pr_d r) (push_units (zip us ?f) s)"
      using push p f1(1) unfolding us(1) by (simp add: push_units_append with_rtp_def)
    then show ?thesis using f by blast
  next
    case None
    have "decode_payloads dst used spans events (payload # payloads) s = with_rtp d (push_units (zip us ?f) s)"
      using push p f1(1) f2(3) None unfolding us(1) by (simp add: push_units_append push_units_rtp with_rtp_def split: prod.split)
    then show ?thesis using f by blast
  qed
qed

section \<open>Properties\<close>

text \<open>
  C19: a rejected unit leaves no trace: when pushing units stops with an error, the stream is exactly what the accepted units before it made of it, so
  the caller can drop the unit and go on.
\<close>

theorem rejected_unit_no_trace:
  assumes "push_units us s = (Some e, evs, t)"
  shows "push_units (take (length evs) us) s = (None, evs, t) \<and> length evs < length us \<and>
    (\<exists>ev. PushUnitInto (fst (us ! length evs)) (snd (us ! length evs)) t = (Some e, ev, t))"
  using assms
proof (induction us s arbitrary: evs t rule: push_units.induct)
  case (2 unit b us s)
  obtain e1 ev s1 where p: "PushUnitInto unit b s = (e1, ev, s1)" by (metis prod_cases3)
  show ?case
  proof (cases e1)
    case (Some x)
    then show ?thesis using "2.prems" p PushUnitInto_rejected [OF p [unfolded Some]] by auto
  next
    case None
    then obtain evs1 where "push_units us s1 = (Some e, evs1, t)" "evs = ev # evs1"
      using "2.prems" p by (auto split: prod.splits)
    then show ?thesis using "2.IH" [OF p [symmetric] None refl] p None by auto
  qed
qed simp

theorem rejected_unit_no_trace_witness:
  "push_units (take 1 [(two_tile_sequence, False), (unit_of TypeTileGroup [0x80], False)]) Stream_Reset =
     (None, fst (snd (push_units [(two_tile_sequence, False), (unit_of TypeTileGroup [0x80], False)] Stream_Reset)),
        snd (snd (push_units [(two_tile_sequence, False), (unit_of TypeTileGroup [0x80], False)] Stream_Reset)))"
proof -
  let ?us = "[(two_tile_sequence, False), (unit_of TypeTileGroup [0x80], False)]"
  obtain err evs t where p: "push_units ?us Stream_Reset = (err, evs, t)" by (metis prod_cases3)
  have "case push_units ?us Stream_Reset of (err, evs, t) \<Rightarrow> err = Some ErrMissingFrameHeader \<and> length evs = 1" by code_simp
  then have "err = Some ErrMissingFrameHeader" "length evs = 1" unfolding p by simp_all
  then show ?thesis using rejected_unit_no_trace [OF p [unfolded \<open>err = Some ErrMissingFrameHeader\<close>]] p by simp
qed

text \<open>
  C20: pushing a low-overhead stream is pushing its units: \<open>PushLowOverhead\<close> returns for every input, writes the events of the units in order from slot 0 on,
  reports how many it wrote, and stops at the first unit that is rejected, at the first unit for which there is no slot, or where the bytes are not an OBU; the
  stream is the one after the units accepted.
\<close>

theorem PushLowOverhead_units:
  assumes "length src < 2 ^ 32"
  shows "\<exists>us e. drain LowOverheadIterator_Next (length src + 1) (NewLowOverheadIterator src) = Some (us, e) \<and>
    (case push_units (plain (take (length events) us)) s of (err, evs, t) \<Rightarrow>
       \<exists>events'. PushLowOverhead src events s =
         (length evs, if err \<noteq> None then err else if length events < length us then Some ErrEventBufferTooSmall else e, events', t) \<and>
       take (length evs) events' = evs \<and> length events' = length events)"
proof -
  have "lo_ok (NewLowOverheadIterator src)" "length (lo_left (NewLowOverheadIterator src)) < length src + 1"
    using assms by (simp_all add: NewLowOverheadIterator_def lo_ok_def lo_left_def)
  from low_overhead.drain_returns [OF this] obtain us e where
    d: "drain LowOverheadIterator_Next (length src + 1) (NewLowOverheadIterator src) = Some (us, e)" by blast
  obtain err evs t where p: "push_units (plain (take (length events - 0) us)) s = (err, evs, t)" by (metis prod_cases3)
  have "\<exists>events'. PushLowOverhead src events s =
         (length evs, if err \<noteq> None then err else if length events < length us then Some ErrEventBufferTooSmall else e, events', t) \<and>
       take (length evs) events' = evs \<and> length events' = length events"
    using PushLowOverhead_loop_units [OF d le0 p] unfolding PushLowOverhead_def diff_zero add_0 take_0 append_Nil .
  then show ?thesis using d p by (intro exI [of _ us] exI [of _ e]) simp
qed

theorem PushLowOverhead_units_witness:
  "\<exists>us e. drain LowOverheadIterator_Next 3 (NewLowOverheadIterator [0x12, 0]) = Some (us, e) \<and>
    (case push_units (plain (take 0 us)) Stream_Reset of (err, evs, t) \<Rightarrow>
       \<exists>events'. PushLowOverhead [0x12, 0] [] Stream_Reset =
         (length evs, if err \<noteq> None then err else if 0 < length us then Some ErrEventBufferTooSmall else e, events', t) \<and>
       take (length evs) events' = evs \<and> length events' = 0)"
proof -
  have l: "length [0x12, 0 :: u8] + 1 = 3" "length [0x12, 0 :: u8] < 2 ^ 32" by simp_all
  show ?thesis using PushLowOverhead_units [OF l(2), of "[]" Stream_Reset] unfolding l(1) list.size(3) .
qed

text \<open>
  C4: from frame to events over RTP: a packetizer with the scratch it asks for splits a frame into payloads, and a stream whose depacketizer is in
  its initial state and that is pushed these payloads, with large enough buffers, does what it does when it is pushed the OBUs of the frame that RTP
  carries one by one: the same events, the same error if one is rejected, and the same stream but for the depacketizer. Only the first OBU can be marked as the
  beginning of a coded video sequence, and only for a key frame.
\<close>

theorem rtp_frame_decoded:
  assumes "PacketizerScratchLen frame lm obuScratch = Some (sz, None)" "sc_OBUs sz \<le> obuScratch" "sc_Packets sz \<le> length packetScratch"
    "sc_Work sz \<le> length workScratch" "length frame < 2 ^ 32" "limits_ok lm" "pl_SinglePacketReductionLen lm \<le> pl_MaxPayloadLen lm - 2"
    "st_rtp s = Depacketizer_Reset"
  shows "\<exists>p payloads. NewPacketizer frame lm keyFrame lastFrame obuScratch packetScratch workScratch = Some (Inr p) \<and>
    send_frame p = Inr payloads \<and>
    (\<forall>dst spans events. sum_list (map length payloads) \<le> length dst \<and> (\<forall>x \<in> set payloads. length x \<le> length spans) \<and>
         length (rtp_units frame) \<le> length events \<longrightarrow>
       (\<exists>flags d. length flags = length (rtp_units frame) \<and> (\<forall>i < length flags. flags ! i \<longrightarrow> i = 0 \<and> keyFrame) \<and>
          decode_payloads dst 0 spans events payloads s = with_rtp d (push_units (zip (map bare_unit (rtp_units frame)) flags) s)))"
proof -
  obtain p payloads where p: "NewPacketizer frame lm keyFrame lastFrame obuScratch packetScratch workScratch = Some (Inr p)"
      "send_frame p = Inr payloads"
      "\<forall>dst spans. sum_list (map length payloads) \<le> length dst \<and> (\<forall>x \<in> set payloads. length x \<le> length spans) \<longrightarrow>
         (\<exists>obus. receive Depacketizer_Reset dst 0 spans payloads = Inr obus \<and> map ParseElement obus = map (Inr \<circ> bare_unit) (rtp_units frame))"
      "\<forall>j < length payloads. starts_new (payloads ! j) \<longrightarrow> keyFrame \<and> j = 0"
    using frame_sent [OF assms(1-7)] by blast
  have "\<exists>flags d. length flags = length (rtp_units frame) \<and> (\<forall>i < length flags. flags ! i \<longrightarrow> i = 0 \<and> keyFrame) \<and>
          decode_payloads dst 0 spans events payloads s = with_rtp d (push_units (zip (map bare_unit (rtp_units frame)) flags) s)"
    if room: "sum_list (map length payloads) \<le> length dst" "\<forall>x \<in> set payloads. length x \<le> length spans" "length (rtp_units frame) \<le> length events" for dst spans events
  proof -
    obtain obus where "receive Depacketizer_Reset dst 0 spans payloads = Inr obus" "map ParseElement obus = map (Inr \<circ> bare_unit) (rtp_units frame)"
      using p(3) room(1,2) by blast
    then have o: "receive (st_rtp s) dst 0 spans payloads = Inr obus" "map ParseElement obus = map Inr (map bare_unit (rtp_units frame))"
      unfolding assms(8) map_map by blast+
    show ?thesis
      using decode_receive [OF o, of events keyFrame] room(3) p(4) assms(8) by (auto simp: Depacketizer_Reset_def)
  qed
  then show ?thesis using p(1,2) by (intro exI [of _ p] exI [of _ payloads]) blast
qed

theorem rtp_frame_decoded_witness:
  "\<exists>p payloads. NewPacketizer [0x0a, 1, 9, 0x32, 5, 1, 2, 3, 4, 5] small_packets True True 2 (replicate 3 (empty_plan 0)) (replicate 3 (empty_plan 0)) = Some (Inr p) \<and>
    send_frame p = Inr payloads \<and>
    (\<forall>dst spans events. sum_list (map length payloads) \<le> length dst \<and> (\<forall>x \<in> set payloads. length x \<le> length spans) \<and> 2 \<le> length events \<longrightarrow>
       (\<exists>flags d. length flags = 2 \<and> (\<forall>i < length flags. flags ! i \<longrightarrow> i = 0) \<and>
          decode_payloads dst 0 spans events payloads two_tile_stream =
            with_rtp d (push_units (zip (map bare_unit (rtp_units [0x0a, 1, 9, 0x32, 5, 1, 2, 3, 4, 5])) flags) two_tile_stream)))"
proof -
  have s: "PacketizerScratchLen [0x0a, 1, 9, 0x32, 5, 1, 2, 3, 4, 5] small_packets 2 = Some (\<lparr>sc_OBUs = 2, sc_Packets = 3, sc_Work = 3\<rparr>, None)"
    by code_simp
  have u: "length (rtp_units [0x0a, 1, 9, 0x32, 5, 1, 2, 3, 4, 5]) = 2" by code_simp
  have "limits_ok small_packets" "st_rtp two_tile_stream = Depacketizer_Reset" by code_simp+
  then show ?thesis
    using rtp_frame_decoded [OF s, of "replicate 3 (empty_plan 0)" "replicate 3 (empty_plan 0)" two_tile_stream True True]
    unfolding u by (simp add: small_packets_def)
qed

end
