(* ===== verification/Entropy_Cdf.thy ===== *)
theory Entropy_Cdf
  imports Prelude
begin

text \<open>
  Adaptive probability tables (\<open>internal/av1/entropy/cdf.go\<close>, \<open>symbol_select.go\<close>). A table of \<open>n\<close> symbols is stored
  inverted: entry \<open>i\<close> is 32768 minus the cumulative probability of the symbols up to \<open>i\<close>, so the entries fall to 0 at \<open>n - 1\<close>;
  the entry behind them counts the adaptations, up to 32. A Go slice or array of \<open>uint16\<close> is the list of its elements, and a
  function that writes through it returns the new list; the methods of \<open>*CDF\<close> take a table that is not nil.
  The lengths and symbol numbers that a function takes as \<open>int\<close> and checks are \<open>int\<close> here, the ones its callers guarantee
  to be in range are \<open>nat\<close>.

  The properties: the constructors make well-formed tables, adaptation keeps them so, and the four ways in which the package
  writes the adaptation are the same function.
\<close>

section \<open>Tables\<close>

definition CDFProbTop :: nat where "CDFProbTop = 32768"
definition MaxSymbols :: nat where "MaxSymbols = 16"
definition MaxCDFCount :: u16 where "MaxCDFCount = 32"

lemmas cdf_consts = CDFProbTop_def MaxSymbols_def MaxCDFCount_def

record CDF =
  cdf_symbols :: u8
  cdf_values :: "u16 list"

definition zero_CDF :: CDF where
  "zero_CDF = \<lparr>cdf_symbols = 0, cdf_values = replicate 17 0\<rparr>"

fun InitCDF_loop :: "nat \<Rightarrow> u16 \<Rightarrow> u16 list \<Rightarrow> u16 list \<Rightarrow> go_err option \<times> u16 list" where
  "InitCDF_loop i previous [] dst = (None, dst)"
| "InitCDF_loop i previous (v # cumulative) dst =
     (if v \<le> previous \<or> v > 0x8000 then (Some EntropyErrInvalidCDF, dst)
      else InitCDF_loop (i + 1) v cumulative (dst[i := 0x8000 - v]))"

definition InitCDF :: "u16 list \<Rightarrow> u16 list \<Rightarrow> go_err option \<times> u16 list" where
  "InitCDF dst cumulative =
     (let symbols = length cumulative + 1
      in if symbols < 2 \<or> symbols > MaxSymbols \<or> length dst < symbols + 1 then (Some EntropyErrInvalidCDF, dst)
         else (case InitCDF_loop 0 0 cumulative dst of
             (Some err, dst) \<Rightarrow> (Some err, dst)
           | (None, dst) \<Rightarrow> (None, dst[symbols - 1 := 0, symbols := 0])))"

definition InitUniformCDF :: "u16 list \<Rightarrow> int \<Rightarrow> go_err option \<times> u16 list" where
  "InitUniformCDF dst symbols =
     (if symbols < 2 \<or> symbols > int MaxSymbols \<or> int (length dst) < symbols + 1 then (Some EntropyErrInvalidCDF, dst)
      else let n = nat symbols;
               dst = fold (\<lambda>i dst. dst[i := of_nat (CDFProbTop - (i + 1) * CDFProbTop div n)]) [0..<n - 1] dst
           in (None, dst[n - 1 := 0, n := 0]))"

definition ValidateCDF :: "u16 list \<Rightarrow> int \<Rightarrow> go_err option" where
  "ValidateCDF cdf symbols =
     (if symbols < 2 \<or> symbols > int MaxSymbols \<or> int (length cdf) < symbols + 1 then Some EntropyErrInvalidCDF
      else let n = nat symbols
           in if cdf ! n > MaxCDFCount \<or> cdf ! (n - 1) \<noteq> 0 then Some EntropyErrInvalidCDF
              else if list_ex (\<lambda>i. cdf ! i \<ge> 0x8000 \<or> cdf ! i < cdf ! (i + 1)) [0..<n - 1] then Some EntropyErrInvalidCDF
              else None)"

section \<open>Adaptation\<close>

definition cdf_rate :: "u16 \<Rightarrow> nat \<Rightarrow> nat" where
  "cdf_rate count symbols = (let rate = unat (4 + (drop_bit 4 count AND 3)) in if symbols > 3 then rate + 1 else rate)"

definition updateCDF :: "u16 list \<Rightarrow> nat \<Rightarrow> nat \<Rightarrow> u16 list" where
  "updateCDF cdf symbols symbol =
     (let count = cdf ! symbols;
          rate = cdf_rate count symbols;
          cdf = fold (\<lambda>i cdf. if i < symbol then cdf[i := cdf ! i + drop_bit rate (0x8000 - cdf ! i)]
                              else cdf[i := cdf ! i - drop_bit rate (cdf ! i)]) [0..<symbols - 1] cdf
      in if count < MaxCDFCount then cdf[symbols := count + 1] else cdf)"

definition UpdateCDF :: "u16 list \<Rightarrow> int \<Rightarrow> int \<Rightarrow> go_err option \<times> u16 list" where
  "UpdateCDF cdf symbols symbol =
     (if symbol < 0 \<or> symbol \<ge> symbols then (Some EntropyErrInvalidSymbol, cdf)
      else case ValidateCDF cdf symbols of Some err \<Rightarrow> (Some err, cdf)
         | None \<Rightarrow> (None, updateCDF cdf (nat symbols) (nat symbol)))"

definition updateCDFWindow :: "u16 list \<Rightarrow> nat \<Rightarrow> u16 list" where
  "updateCDFWindow cdf symbol =
     (let symbols = length cdf - 1;
          count = cdf ! symbols;
          rate = cdf_rate count symbols;
          last = symbols - 1;
          cdf = fold (\<lambda>i cdf. let v = cdf ! i in cdf[i := v + drop_bit rate (0x8000 - v)]) [0..<symbol] cdf;
          cdf = fold (\<lambda>i cdf. let v = cdf ! i in cdf[i := v - drop_bit rate v]) [symbol..<last] cdf
      in if count < MaxCDFCount then cdf[symbols := count + 1] else cdf)"

definition updateCDFValues :: "u16 list \<Rightarrow> nat \<Rightarrow> nat \<Rightarrow> u16 list" where
  "updateCDFValues values symbols symbol =
     (let count = values ! symbols;
          rate = cdf_rate count symbols;
          up = (\<lambda>v. v + drop_bit rate (0x8000 - v));
          down = (\<lambda>v. v - drop_bit rate v);
          values =
            (if symbols = 2 then
               if symbol = 0 then values[0 := down (values ! 0)]
               else values[0 := up (values ! 0)]
             else if symbols = 3 then
               if symbol = 0 then values[0 := down (values ! 0), 1 := down (values ! 1)]
               else if symbol = 1 then values[0 := up (values ! 0), 1 := down (values ! 1)]
               else values[0 := up (values ! 0), 1 := up (values ! 1)]
             else if symbols = 4 then
               if symbol = 0 then values[0 := down (values ! 0), 1 := down (values ! 1), 2 := down (values ! 2)]
               else if symbol = 1 then values[0 := up (values ! 0), 1 := down (values ! 1), 2 := down (values ! 2)]
               else if symbol = 2 then values[0 := up (values ! 0), 1 := up (values ! 1), 2 := down (values ! 2)]
               else values[0 := up (values ! 0), 1 := up (values ! 1), 2 := up (values ! 2)]
             else
               let last = symbols - 1;
                   values = fold (\<lambda>i values. values[i := up (values ! i)]) [0..<symbol] values
               in fold (\<lambda>i values. values[i := down (values ! i)]) [symbol..<last] values)
      in if count < MaxCDFCount then values[symbols := count + 1] else values)"

definition adaptCDFEntry :: "u32 \<Rightarrow> nat \<Rightarrow> bool \<Rightarrow> u32" where
  "adaptCDFEntry v rate up =
     (let next = v - drop_bit rate v;
          raised = v + drop_bit rate (0x8000 - v)
      in if up then raised else next)"

definition nextCDFCount :: "u16 \<Rightarrow> u16" where
  "nextCDFCount count = (if count < MaxCDFCount then count + 1 else count)"

definition updateCDF2 :: "u16 list \<Rightarrow> nat \<Rightarrow> u16 list" where
  "updateCDF2 cdf symbol =
     (let count = cdf ! 2;
          rate = unat (4 + (drop_bit 4 count AND 3));
          c0 = ucast (cdf ! 0) :: u32;
          next = c0 - drop_bit rate c0;
          up = c0 + drop_bit rate (0x8000 - c0);
          next = (if symbol > 0 then up else next);
          cdf = cdf[0 := ucast next];
          count = (if count < MaxCDFCount then count + 1 else count)
      in cdf[2 := count])"

section \<open>The methods of a table\<close>

definition CDF_Init :: "u16 list \<Rightarrow> CDF \<Rightarrow> go_err option \<times> CDF" where
  "CDF_Init cumulative c =
     (case InitCDF (cdf_values zero_CDF) cumulative of
        (Some err, _) \<Rightarrow> (Some err, c)
      | (None, values) \<Rightarrow> (None, \<lparr>cdf_symbols = of_nat (length cumulative + 1), cdf_values = values\<rparr>))"

definition CDF_InitUniform :: "int \<Rightarrow> CDF \<Rightarrow> go_err option \<times> CDF" where
  "CDF_InitUniform symbols c =
     (case InitUniformCDF (cdf_values zero_CDF) symbols of
        (Some err, _) \<Rightarrow> (Some err, c)
      | (None, values) \<Rightarrow> (None, \<lparr>cdf_symbols = of_int symbols, cdf_values = values\<rparr>))"

definition CDF_InitDefaultDelta :: "CDF \<Rightarrow> go_err option \<times> CDF" where
  "CDF_InitDefaultDelta c = CDF_Init [28160, 32120, 32677] c"

definition CDF_Reset :: "CDF \<Rightarrow> CDF" where
  "CDF_Reset c = zero_CDF"

definition CDF_Symbols :: "CDF \<Rightarrow> int" where
  "CDF_Symbols c = uint (cdf_symbols c)"

definition CDF_Values :: "CDF \<Rightarrow> u16 list" where
  "CDF_Values c =
     (let symbols = unat (cdf_symbols c)
      in if symbols < 2 \<or> symbols > MaxSymbols then [] else take (symbols + 1) (cdf_values c))"

definition CDF_Validate :: "CDF \<Rightarrow> go_err option" where
  "CDF_Validate c = ValidateCDF (CDF_Values c) (CDF_Symbols c)"

definition CDF_ResetCount :: "CDF \<Rightarrow> go_err option \<times> CDF" where
  "CDF_ResetCount c =
     (case CDF_Validate c of Some err \<Rightarrow> (Some err, c)
      | None \<Rightarrow> (None, c\<lparr>cdf_values := (cdf_values c)[unat (cdf_symbols c) := 0]\<rparr>))"

definition ResetCDFCountTrusted :: "CDF \<Rightarrow> CDF" where
  "ResetCDFCountTrusted c =
     (if cdf_symbols c \<noteq> 0 then c\<lparr>cdf_values := (cdf_values c)[unat (cdf_symbols c) := 0]\<rparr> else c)"

text \<open>\<open>Update\<close> adapts the window that \<open>Values\<close> returns, which shares the table's array.\<close>

definition CDF_Update :: "int \<Rightarrow> CDF \<Rightarrow> go_err option \<times> CDF" where
  "CDF_Update symbol c =
     (if CDF_Symbols c < 2 \<or> CDF_Symbols c > int MaxSymbols then (Some EntropyErrInvalidCDF, c)
      else case UpdateCDF (CDF_Values c) (CDF_Symbols c) symbol of (err, window) \<Rightarrow>
        (err, c\<lparr>cdf_values := window @ drop (length window) (cdf_values c)\<rparr>))"

definition CDF_CopyFrom :: "CDF \<Rightarrow> CDF \<Rightarrow> go_err option \<times> CDF" where
  "CDF_CopyFrom src c = (case CDF_Validate src of Some err \<Rightarrow> (Some err, c) | None \<Rightarrow> (None, src))"

section \<open>Loops over a table\<close>

definition update_each :: "(nat \<Rightarrow> u16 \<Rightarrow> u16) \<Rightarrow> nat list \<Rightarrow> u16 list \<Rightarrow> u16 list" where
  "update_each f is xs = fold (\<lambda>i xs. xs[i := f i (xs ! i)]) is xs"

lemma length_update_each [simp]: "length (update_each f is xs) = length xs"
  unfolding update_each_def by (induction "is" arbitrary: xs) simp_all

lemma update_each_nth:
  "distinct is \<Longrightarrow> j < length xs \<Longrightarrow> update_each f is xs ! j = (if j \<in> set is then f j (xs ! j) else xs ! j)"
proof (induction "is" arbitrary: xs)
  case (Cons i "is")
  then show ?case by (cases "i = j") (simp_all add: update_each_def)
qed (simp add: update_each_def)

text \<open>The reference: one entry, and the whole table.\<close>

definition adapt_entry :: "nat \<Rightarrow> bool \<Rightarrow> u16 \<Rightarrow> u16" where
  "adapt_entry rate up v = (if up then v + drop_bit rate (0x8000 - v) else v - drop_bit rate v)"

definition adapted :: "u16 list \<Rightarrow> nat \<Rightarrow> nat \<Rightarrow> u16 list" where
  "adapted cdf symbols symbol =
     map (\<lambda>i. if i < symbols - 1 then adapt_entry (cdf_rate (cdf ! symbols) symbols) (i < symbol) (cdf ! i)
              else if i = symbols then nextCDFCount (cdf ! i) else cdf ! i) [0..<length cdf]"

lemma length_adapted [simp]: "length (adapted cdf symbols symbol) = length cdf"
  by (simp add: adapted_def)

lemma adapted_nth:
  "i < length cdf \<Longrightarrow> adapted cdf symbols symbol ! i =
     (if i < symbols - 1 then adapt_entry (cdf_rate (cdf ! symbols) symbols) (i < symbol) (cdf ! i)
      else if i = symbols then nextCDFCount (cdf ! i) else cdf ! i)"
  by (simp add: adapted_def)

lemma adaptedI:
  assumes "length xs = length cdf"
    "\<And>i. i < length cdf \<Longrightarrow> xs ! i =
       (if i < symbols - 1 then adapt_entry (cdf_rate (cdf ! symbols) symbols) (i < symbol) (cdf ! i)
        else if i = symbols then nextCDFCount (cdf ! i) else cdf ! i)"
  shows "xs = adapted cdf symbols symbol"
  using assms by (intro nth_equalityI) (simp_all add: adapted_nth)

lemma fold_adapt:
  "fold (\<lambda>i cdf. if i < symbol then cdf[i := cdf ! i + drop_bit rate (0x8000 - cdf ! i)] else cdf[i := cdf ! i - drop_bit rate (cdf ! i)]) =
     update_each (\<lambda>i. adapt_entry rate (i < symbol))"
  "fold (\<lambda>i cdf. let v = cdf ! i in cdf[i := v + drop_bit rate (0x8000 - v)]) = update_each (\<lambda>_. adapt_entry rate True)"
  "fold (\<lambda>i cdf. let v = cdf ! i in cdf[i := v - drop_bit rate v]) = update_each (\<lambda>_. adapt_entry rate False)"
  "fold (\<lambda>i values. values[i := values ! i + drop_bit rate (0x8000 - values ! i)]) = update_each (\<lambda>_. adapt_entry rate True)"
  "fold (\<lambda>i values. values[i := values ! i - drop_bit rate (values ! i)]) = update_each (\<lambda>_. adapt_entry rate False)"
  by (intro ext; unfold update_each_def; intro fold_cong; simp add: adapt_entry_def Let_def fun_eq_iff)+

lemma updateCDF_adapted:
  assumes "symbols < length cdf"
  shows "updateCDF cdf symbols symbol = adapted cdf symbols symbol"
  using assms unfolding updateCDF_def Let_def fold_adapt
  by (intro adaptedI) (auto simp: update_each_nth nth_list_update nextCDFCount_def)

lemma two_loops_adapted:
  assumes "symbols < length cdf" "symbol < symbols" "rate = cdf_rate (cdf ! symbols) symbols"
  shows "(if cdf ! symbols < MaxCDFCount
      then (update_each (\<lambda>_. adapt_entry rate False) [symbol..<symbols - 1] (update_each (\<lambda>_. adapt_entry rate True) [0..<symbol] cdf))[symbols := cdf ! symbols + 1]
      else update_each (\<lambda>_. adapt_entry rate False) [symbol..<symbols - 1] (update_each (\<lambda>_. adapt_entry rate True) [0..<symbol] cdf)) =
    adapted cdf symbols symbol"
  using assms by (intro adaptedI) (auto simp: update_each_nth nth_list_update nextCDFCount_def)

lemma updateCDFWindow_adapted:
  assumes "length cdf = symbols + 1" "symbol < symbols"
  shows "updateCDFWindow cdf symbol = adapted cdf symbols symbol"
proof -
  have s: "length cdf - 1 = symbols" "symbols < length cdf" using assms(1) by simp_all
  show ?thesis unfolding updateCDFWindow_def Let_def fold_adapt s(1) by (rule two_loops_adapted [OF s(2) assms(2) refl])
qed

lemma updateCDFValues_adapted:
  assumes "symbols < length cdf" "symbol < symbols" "2 \<le> symbols"
  shows "updateCDFValues cdf symbols symbol = adapted cdf symbols symbol"
proof -
  consider "symbols = 2" | "symbols = 3" | "symbols = 4" | "4 < symbols" using assms(3) by linarith
  then show ?thesis
  proof cases
    case 4
    then have ne: "(symbols = 2) = False" "(symbols = 3) = False" "(symbols = 4) = False" by simp_all
    show ?thesis
      unfolding updateCDFValues_def Let_def fold_adapt ne if_False by (rule two_loops_adapted [OF assms(1,2) refl])
  qed (use assms in \<open>intro adaptedI; auto simp: updateCDFValues_def Let_def adapt_entry_def nth_list_update nextCDFCount_def less_Suc_eq numeral_3_eq_3 numeral_2_eq_2\<close>)+
qed

section \<open>Well-formed tables\<close>

definition cdf_valid :: "u16 list \<Rightarrow> nat \<Rightarrow> bool" where
  "cdf_valid cdf n \<longleftrightarrow> 2 \<le> n \<and> n \<le> 16 \<and> n < length cdf \<and> cdf ! n \<le> 32 \<and> cdf ! (n - 1) = 0 \<and>
     (\<forall>i < n - 1. cdf ! i < 0x8000 \<and> cdf ! (i + 1) \<le> cdf ! i)"

lemma ValidateCDF_valid: "ValidateCDF cdf (int n) = None \<longleftrightarrow> cdf_valid cdf n"
  unfolding ValidateCDF_def cdf_valid_def cdf_consts Let_def list_ex_iff
  by (auto simp: not_less not_le linorder_not_less)

lemma cdf_rate_bounds: "4 \<le> cdf_rate count symbols \<and> cdf_rate count symbols \<le> 8"
proof -
  have "unat (drop_bit 4 count AND 3) \<le> 3" using word_and_le1 [of "drop_bit 4 count" 3] by (simp add: word_le_nat_alt)
  then show ?thesis by (auto simp: cdf_rate_def Let_def unat_word_ariths)
qed

lemma unat_adapt_entry:
  assumes "unat v \<le> 32768"
  shows "unat (adapt_entry rate up v) = (if up then unat v + (32768 - unat v) div 2 ^ rate else unat v - unat v div 2 ^ rate)"
proof -
  have d: "unat (0x8000 - v) = 32768 - unat v" using assms by (simp add: unat_sub word_le_nat_alt)
  have le: "unat v + (32768 - unat v) div 2 ^ rate \<le> 32768" using assms div_le_dividend [of "32768 - unat v" "2 ^ rate"] by linarith
  have "unat (v + drop_bit rate (0x8000 - v)) = unat v + (32768 - unat v) div 2 ^ rate"
    using le unfolding unat_word_ariths unat_drop_bit_eq d by (simp add: drop_bit_eq_div del: unat_div)
  moreover have "unat (v - drop_bit rate v) = unat v - unat v div 2 ^ rate"
    by (subst unat_sub; simp only: word_le_nat_alt unat_drop_bit_eq) (simp_all only: drop_bit_eq_div div_le_dividend)
  ultimately show ?thesis by (simp add: adapt_entry_def)
qed

lemma shrink_mono: "(x :: nat) \<le> y \<Longrightarrow> x - x div 2 ^ r \<le> y - y div 2 ^ r"
proof (induction rule: dec_induct)
  case (step n)
  have "Suc n div 2 ^ r \<le> n div 2 ^ r + 1" using div_Suc [of n "2 ^ r"] by simp
  then show ?case using step div_le_dividend [of n "2 ^ r"] by linarith
qed simp

text \<open>The entries move monotonically, and away from each other at the symbol.\<close>

lemma adapt_entry_mono:
  assumes "v \<le> w" "unat w \<le> 32768" "up2 \<or> \<not> up1"
  shows "adapt_entry rate up1 v \<le> adapt_entry rate up2 w"
proof -
  have vw: "unat v \<le> unat w" using assms(1) by (simp add: word_le_nat_alt)
  have "unat v + (32768 - unat v) div 2 ^ rate \<le> unat w + (32768 - unat w) div 2 ^ rate"
    using shrink_mono [of "32768 - unat w" "32768 - unat v" rate] vw assms(2) div_le_dividend [of "32768 - unat v" "2 ^ rate"]
      div_le_dividend [of "32768 - unat w" "2 ^ rate"] by linarith
  then show ?thesis
    using shrink_mono [OF vw, of rate] vw assms(2,3) unfolding word_le_nat_alt by (auto simp: unat_adapt_entry)
qed

lemma adapt_entry_less:
  assumes "v < 0x8000" "1 \<le> rate"
  shows "adapt_entry rate up v < 0x8000"
proof -
  have v: "unat v < 32768" using assms(1) by (simp add: word_less_nat_alt)
  then have "(32768 - unat v) div 2 ^ rate < 32768 - unat v"
    using assms(2) one_less_power [of "2 :: nat" rate] by (intro div_less_dividend) simp_all
  then have "unat v + (32768 - unat v) div 2 ^ rate < 32768" "unat v - unat v div 2 ^ rate < 32768" using v by linarith+
  then show ?thesis using v unfolding word_less_nat_alt by (simp add: unat_adapt_entry)
qed

lemma adapted_valid:
  assumes "cdf_valid cdf n" "s < n"
  shows "cdf_valid (adapted cdf n s) n"
proof -
  note v = assms(1) [unfolded cdf_valid_def]
  let ?r = "cdf_rate (cdf ! n) n"
  have r: "1 \<le> ?r" using cdf_rate_bounds [of "cdf ! n" n] by linarith
  have "nextCDFCount (cdf ! n) \<le> 32"
    using v by (auto simp: nextCDFCount_def MaxCDFCount_def word_le_nat_alt word_less_nat_alt unat_word_ariths)
  moreover have "n - 1 < length cdf" "\<not> n - 1 < n - 1" "n - 1 \<noteq> n" "\<not> n < n - 1" using v by linarith+
  then have ends: "adapted cdf n s ! (n - 1) = 0" "adapted cdf n s ! n = nextCDFCount (cdf ! n)" using v by (simp_all only: adapted_nth if_False if_True refl)
  moreover have "adapted cdf n s ! i < 0x8000 \<and> adapted cdf n s ! (i + 1) \<le> adapted cdf n s ! i" if i: "i < n - 1" for i
  proof
    have vi: "cdf ! i < 0x8000" "cdf ! (i + 1) \<le> cdf ! i" using v i by blast+
    then have le: "unat (cdf ! i) \<le> 32768" by (simp add: word_less_nat_alt)
    show "adapted cdf n s ! i < 0x8000" using adapt_entry_less [OF vi(1) r, of "i < s"] i v by (subst adapted_nth) auto
    show "adapted cdf n s ! (i + 1) \<le> adapted cdf n s ! i"
    proof (cases "i + 1 < n - 1")
      case True
      moreover have "adapt_entry ?r (i + 1 < s) (cdf ! (i + 1)) \<le> adapt_entry ?r (i < s) (cdf ! i)"
        by (intro adapt_entry_mono vi(2) le) linarith
      moreover have "i < length cdf" "i + 1 < length cdf" using v i by linarith+
      ultimately show ?thesis using i by (simp add: adapted_nth)
    next
      case False
      then have "i + 1 = n - 1" using i by linarith
      then show ?thesis using ends(1) by simp
    qed
  qed
  ultimately show ?thesis using v unfolding cdf_valid_def by simp
qed

lemma adapted_prefix:
  assumes "n < length cdf"
  shows "adapted (take (n + 1) cdf) n s @ drop (n + 1) cdf = adapted cdf n s"
  using assms by (intro nth_equalityI) (auto simp: nth_append adapted_nth)

lemma cdf_valid_take: "cdf_valid (take (n + 1) cdf) n \<longleftrightarrow> cdf_valid cdf n"
  by (auto simp: cdf_valid_def)

lemma cdf_valid_le: "cdf_valid cdf n \<Longrightarrow> i < n \<Longrightarrow> unat (cdf ! i) < 32768"
  by (cases "i = n - 1") (auto simp: cdf_valid_def word_less_nat_alt)

lemma unat_u16_u32 [simp]: "unat (ucast (v :: u16) :: u32) = unat v"
  using unsigned_less [of v, where 'a = nat] by (simp add: unsigned_ucast_eq take_bit_nat_eq_self)

lemma ucast_u32_u16: "unat (w :: u32) = unat (v :: u16) \<Longrightarrow> ucast w = v"
  using unsigned_less [of v, where 'a = nat] by (intro word_unat_eq_iff [THEN iffD2]) (simp add: unsigned_ucast_eq take_bit_nat_eq_self)

lemma unat_adaptCDFEntry:
  fixes v :: u16
  assumes "unat v \<le> 32768"
  shows "unat (adaptCDFEntry (ucast v) rate up) = (if up then unat v + (32768 - unat v) div 2 ^ rate else unat v - unat v div 2 ^ rate)"
proof -
  let ?v = "ucast v :: u32"
  have u: "unat ?v = unat v" by (rule unat_u16_u32)
  have d: "unat (0x8000 - ?v) = 32768 - unat v" using assms u by (simp add: unat_sub word_le_nat_alt)
  have le: "unat v + (32768 - unat v) div 2 ^ rate \<le> 32768" using assms div_le_dividend [of "32768 - unat v" "2 ^ rate"] by linarith
  have "unat (?v + drop_bit rate (0x8000 - ?v)) = unat v + (32768 - unat v) div 2 ^ rate"
    using le unfolding unat_word_ariths unat_drop_bit_eq d u by (simp add: drop_bit_eq_div del: unat_div)
  moreover have "unat (?v - drop_bit rate ?v) = unat v - unat v div 2 ^ rate"
    by (subst unat_sub; simp only: word_le_nat_alt unat_drop_bit_eq u) (simp_all only: drop_bit_eq_div div_le_dividend)
  ultimately show ?thesis by (simp add: adaptCDFEntry_def Let_def)
qed

text \<open>The 32-bit entry of the fast paths is the 16-bit one.\<close>

lemma adaptCDFEntry_16:
  assumes "unat v \<le> 32768"
  shows "ucast (adaptCDFEntry (ucast v) rate up) = adapt_entry rate up v"
proof -
  let ?w = "adaptCDFEntry (ucast v) rate up"
  have "unat ?w = unat (adapt_entry rate up v)" using assms by (simp add: unat_adaptCDFEntry unat_adapt_entry)
  then show ?thesis by (rule ucast_u32_u16)
qed

lemma adaptCDFEntry_32:
  assumes "unat v \<le> 32768"
  shows "adaptCDFEntry (ucast v) rate up = ucast (adapt_entry rate up v)"
  using assms by (intro word_unat_eq_iff [THEN iffD2]) (simp add: unat_adaptCDFEntry unat_adapt_entry unat_u16_u32)

lemma updateCDF2_adapted:
  assumes "cdf_valid cdf 2" "s < 2"
  shows "updateCDF2 cdf s = adapted cdf 2 s"
proof -
  have v: "unat (cdf ! 0) \<le> 32768" "2 < length cdf" using assms(1) cdf_valid_le [OF assms(1), of 0] by (simp_all add: cdf_valid_def)
  have "updateCDF2 cdf s = cdf[0 := ucast (adaptCDFEntry (ucast (cdf ! 0)) (cdf_rate (cdf ! 2) 2) (0 < s)), 2 := nextCDFCount (cdf ! 2)]"
    by (simp add: updateCDF2_def Let_def adaptCDFEntry_def cdf_rate_def nextCDFCount_def)
  then show ?thesis
    using v assms(2) unfolding adaptCDFEntry_16 [OF v(1)] by (intro adaptedI) (auto simp: nth_list_update)
qed

section \<open>Constructors\<close>

lemma InitCDF_loop_ok:
  assumes "InitCDF_loop i previous cumulative dst = (None, dst')" "i + length cumulative \<le> length dst"
  shows "length dst' = length dst \<and> sorted_wrt (<) (previous # cumulative) \<and> (\<forall>v \<in> set cumulative. v \<le> 0x8000) \<and>
    (\<forall>j < length cumulative. dst' ! (i + j) = 0x8000 - cumulative ! j) \<and> (\<forall>j < i. dst' ! j = dst ! j)"
  using assms
proof (induction cumulative arbitrary: i previous dst)
  case (Cons v cumulative)
  have h: "previous < v" "v \<le> 0x8000" "InitCDF_loop (i + 1) v cumulative (dst[i := 0x8000 - v]) = (None, dst')"
    using Cons.prems(1) by (auto split: if_splits)
  from Cons.IH [OF h(3)] Cons.prems(2)
  have r: "length dst' = length dst" "sorted_wrt (<) (v # cumulative)" "\<forall>v \<in> set cumulative. v \<le> 0x8000"
      "\<forall>j < length cumulative. dst' ! (i + 1 + j) = 0x8000 - cumulative ! j" "\<forall>j < i + 1. dst' ! j = dst[i := 0x8000 - v] ! j"
    by simp_all
  have "dst' ! i = 0x8000 - v" using r(5) Cons.prems(2) by simp
  then have "\<forall>j < length (v # cumulative). dst' ! (i + j) = 0x8000 - (v # cumulative) ! j"
    using r(4) by (auto simp: less_Suc_eq_0_disj)
  moreover have "sorted_wrt (<) (previous # v # cumulative)" using r(2) h(1) by auto
  ultimately show ?case using r h(2) by simp
qed simp

lemma InitCDF_loop_accepts:
  "sorted_wrt (<) (previous # cumulative) \<Longrightarrow> \<forall>v \<in> set cumulative. v \<le> 0x8000 \<Longrightarrow> \<exists>dst'. InitCDF_loop i previous cumulative dst = (None, dst')"
  by (induction cumulative arbitrary: i previous dst) (auto simp: not_le not_less)

lemma init_valid:
  assumes "length xs = length dst" "n = length cs + 1" "2 \<le> n" "n \<le> 16" "n < length dst" "\<forall>j < length cs. xs ! j = cs ! j"
    "\<forall>v \<in> set cs. v < 0x8000" "sorted_wrt (\<ge>) cs"
  shows "cdf_valid (xs[n - 1 := 0, n := 0]) n"
proof -
  let ?ys = "xs[n - 1 := 0, n := 0]"
  have y: "?ys ! i = cs ! i" if "i < length cs" for i using that assms(1,2,5,6) by simp
  have z: "?ys ! length cs = 0" "?ys ! n = 0" using assms(1,2,5) by simp_all
  have "?ys ! i < 0x8000 \<and> ?ys ! (i + 1) \<le> ?ys ! i" if i: "i < n - 1" for i
  proof (cases "i + 1 < length cs")
    case True
    then show ?thesis using assms(7,8) i y [of i] y [of "i + 1"] by (auto simp: sorted_wrt_iff_nth_less)
  next
    case False
    then have "i + 1 = length cs" using i assms(2) by simp
    then show ?thesis using assms(7) i y [of i] z by auto
  qed
  then show ?thesis using assms z unfolding cdf_valid_def by simp
qed

lemma InitCDF_valid:
  assumes "InitCDF dst cumulative = (None, dst')"
  shows "cdf_valid dst' (length cumulative + 1) \<and> (\<forall>j < length cumulative. dst' ! j = 0x8000 - cumulative ! j) \<and> dst' ! (length cumulative + 1) = 0 \<and>
    length dst' = length dst \<and> sorted_wrt (<) (0 # cumulative) \<and> (\<forall>v \<in> set cumulative. v \<le> 0x8000)"
proof -
  let ?n = "length cumulative + 1"
  obtain xs where x: "InitCDF_loop 0 0 cumulative dst = (None, xs)" "dst' = xs[?n - 1 := 0, ?n := 0]" and n: "2 \<le> ?n" "?n \<le> 16" "?n < length dst"
    using assms unfolding InitCDF_def Let_def cdf_consts by (cases cumulative) (auto split: if_splits prod.splits option.splits simp: not_less)
  from InitCDF_loop_ok [OF x(1)] n
  have r: "length xs = length dst" "sorted_wrt (<) (0 # cumulative)" "\<forall>v \<in> set cumulative. v \<le> 0x8000"
    "\<forall>j < length cumulative. xs ! j = 0x8000 - cumulative ! j" by simp_all
  have flip: "0x8000 - v < 0x8000" if "v \<in> set cumulative" for v
  proof -
    have "0 < v" "v \<le> 0x8000" using r(2,3) that by simp_all
    then show ?thesis unfolding word_less_nat_alt word_le_nat_alt by (simp add: unat_sub word_le_nat_alt)
  qed
  have "sorted_wrt (\<ge>) (map (\<lambda>v. 0x8000 - v) cumulative)"
    unfolding sorted_wrt_map
  proof (rule sorted_wrt_mono_rel)
    show "sorted_wrt (<) cumulative" using r(2) by simp
    show "0x8000 - w \<le> 0x8000 - v" if "v \<in> set cumulative" "w \<in> set cumulative" "v < w" for v w
    proof -
      have "v \<le> 0x8000" "w \<le> 0x8000" using r(3) that by blast+
      then show ?thesis using \<open>v < w\<close> unfolding word_less_nat_alt word_le_nat_alt by (simp add: unat_sub word_le_nat_alt)
    qed
  qed
  then have "cdf_valid dst' ?n"
    unfolding x(2) using r n flip by (intro init_valid [where cs = "map (\<lambda>v. 0x8000 - v) cumulative"]) auto
  then show ?thesis using r n unfolding x(2) by simp
qed

lemma InitUniformCDF_valid:
  assumes "InitUniformCDF dst symbols = (None, dst')"
  shows "cdf_valid dst' (nat symbols) \<and> dst' ! nat symbols = 0 \<and> length dst' = length dst \<and> 2 \<le> symbols \<and> symbols \<le> 16"
proof -
  let ?n = "nat symbols"
  let ?f = "\<lambda>i. of_nat (CDFProbTop - (i + 1) * CDFProbTop div ?n) :: u16"
  have n: "2 \<le> symbols" "symbols \<le> 16" "?n < length dst"
    and d: "dst' = (update_each (\<lambda>i _. ?f i) [0..<?n - 1] dst)[?n - 1 := 0, ?n := 0]"
    using assms unfolding InitUniformCDF_def Let_def update_each_def MaxSymbols_def by (auto split: if_splits)
  have u: "unat (?f i) = 32768 - (i + 1) * 32768 div ?n" for i
    by (simp add: CDFProbTop_def unat_of_nat mod_less)
  have pos: "1 \<le> (i + 1) * 32768 div ?n" for i
    using n(1,2) div_le_mono [of ?n "(i + 1) * 32768" ?n] by simp
  have mono: "?f j \<le> ?f i" if "i < j" for i j
    unfolding word_le_nat_alt u using that by (intro diff_le_mono2 div_le_mono mult_le_mono1) simp
  have "sorted_wrt (\<ge>) (map ?f [0..<?n - 1])"
    unfolding sorted_wrt_map by (rule sorted_wrt_mono_rel [OF _ sorted_wrt_upt]) (rule mono)
  moreover have "?f i < 0x8000" for i
    unfolding word_less_nat_alt u using pos [of i] by simp
  then have "\<forall>v \<in> set (map ?f [0..<?n - 1]). v < 0x8000" by simp
  ultimately have "cdf_valid dst' ?n"
    unfolding d using n by (intro init_valid [where cs = "map ?f [0..<?n - 1]"]) (auto simp: update_each_nth)
  then show ?thesis using n unfolding d by simp
qed

section \<open>Tables valid by construction\<close>

definition cdf_ok :: "CDF \<Rightarrow> bool" where
  "cdf_ok c \<longleftrightarrow> length (cdf_values c) = 17 \<and> cdf_valid (cdf_values c) (unat (cdf_symbols c))"

lemma CDF_Symbols_int: "CDF_Symbols c = int (unat (cdf_symbols c))"
  by (simp add: CDF_Symbols_def)

lemma CDF_Validate_ok:
  assumes "length (cdf_values c) = 17"
  shows "CDF_Validate c = None \<longleftrightarrow> cdf_ok c"
proof -
  have "cdf_valid (CDF_Values c) (unat (cdf_symbols c)) \<longleftrightarrow> cdf_valid (cdf_values c) (unat (cdf_symbols c))"
  proof (cases "2 \<le> unat (cdf_symbols c) \<and> unat (cdf_symbols c) \<le> 16")
    case True
    then show ?thesis unfolding CDF_Values_def Let_def MaxSymbols_def using cdf_valid_take by auto
  qed (auto simp: cdf_valid_def)
  then show ?thesis using assms unfolding CDF_Validate_def CDF_Symbols_int ValidateCDF_valid cdf_ok_def by blast
qed

lemma CDF_Init_ok: "CDF_Init cumulative c = (None, c') \<Longrightarrow> cdf_ok c'"
proof -
  assume a: "CDF_Init cumulative c = (None, c')"
  then obtain vs where v: "InitCDF (cdf_values zero_CDF) cumulative = (None, vs)"
      "c' = \<lparr>cdf_symbols = of_nat (length cumulative + 1), cdf_values = vs\<rparr>"
    by (auto simp: CDF_Init_def split: prod.splits option.splits)
  have ok: "cdf_valid vs (length cumulative + 1)" "length vs = 17" using InitCDF_valid [OF v(1)] by (simp_all add: zero_CDF_def)
  then have "unat (of_nat (length cumulative + 1) :: u8) = length cumulative + 1" unfolding unat_of_nat by (simp add: cdf_valid_def)
  then show ?thesis using ok unfolding v(2) cdf_ok_def by simp
qed

lemma CDF_InitUniform_ok: "CDF_InitUniform symbols c = (None, c') \<Longrightarrow> cdf_ok c'"
proof -
  assume a: "CDF_InitUniform symbols c = (None, c')"
  then obtain vs where v: "InitUniformCDF (cdf_values zero_CDF) symbols = (None, vs)"
      "c' = \<lparr>cdf_symbols = of_int symbols, cdf_values = vs\<rparr>"
    by (auto simp: CDF_InitUniform_def split: prod.splits option.splits)
  note ok = InitUniformCDF_valid [OF v(1)]
  then have "uint (of_int symbols :: u8) = symbols" by (simp add: uint_word_of_int)
  then have "unat (of_int symbols :: u8) = nat symbols" by (simp only: unat_eq_nat_uint)
  then show ?thesis using ok unfolding v(2) cdf_ok_def by (simp add: zero_CDF_def)
qed

lemma CDF_window:
  assumes "cdf_ok c"
  shows "CDF_Values c = take (unat (cdf_symbols c) + 1) (cdf_values c)"
  using assms by (simp add: cdf_ok_def cdf_valid_def CDF_Values_def MaxSymbols_def)

lemma CDF_Update_adapted:
  assumes "cdf_ok c"
  shows "CDF_Update symbol c =
    (if 0 \<le> symbol \<and> symbol < CDF_Symbols c then (None, c\<lparr>cdf_values := adapted (cdf_values c) (unat (cdf_symbols c)) (nat symbol)\<rparr>)
     else (Some EntropyErrInvalidSymbol, c))"
proof -
  let ?n = "unat (cdf_symbols c)" and ?w = "take (unat (cdf_symbols c) + 1) (cdf_values c)"
  have n: "2 \<le> ?n" "?n \<le> 16" "length (cdf_values c) = 17" "cdf_valid (cdf_values c) ?n" using assms by (simp_all add: cdf_ok_def cdf_valid_def)
  have v: "ValidateCDF ?w (int ?n) = None" using n(4) unfolding ValidateCDF_valid cdf_valid_take .
  have u: "updateCDF ?w ?n s @ drop (?n + 1) (cdf_values c) = adapted (cdf_values c) ?n s" for s
  proof -
    have "updateCDF ?w ?n s = adapted ?w ?n s" using n by (intro updateCDF_adapted) simp
    then show ?thesis using adapted_prefix [of ?n "cdf_values c" s] n by simp
  qed
  have l: "length (updateCDF ?w ?n s) = ?n + 1" for s using n by (subst updateCDF_adapted) simp_all
  have keep: "c\<lparr>cdf_values := ?w @ drop (length ?w) (cdf_values c)\<rparr> = c" using n by simp
  have "\<not> (int ?n < 2 \<or> int 16 < int ?n)" using n(1,2) by linarith
  then have guard: "(int ?n < 2 \<or> int 16 < int ?n) = False" by blast
  show ?thesis
  proof (cases "0 \<le> symbol \<and> symbol < int ?n")
    case True
    then have "\<not> (symbol < 0 \<or> int ?n \<le> symbol)" by linarith
    then have "(symbol < 0 \<or> int ?n \<le> symbol) = False" by blast
    then show ?thesis
      using True unfolding CDF_Update_def UpdateCDF_def CDF_window [OF assms] CDF_Symbols_int MaxSymbols_def guard v
      by (simp only: if_True if_False option.case prod.case nat_int l u simp_thms)
  next
    case False
    then have "(symbol < 0 \<or> int ?n \<le> symbol)" by linarith
    then have "(symbol < 0 \<or> int ?n \<le> symbol) = True" by blast
    then show ?thesis
      using False unfolding CDF_Update_def UpdateCDF_def CDF_window [OF assms] CDF_Symbols_int MaxSymbols_def guard
      by (simp only: if_True if_False prod.case keep simp_thms)
  qed
qed

inductive cdf_state :: "CDF \<Rightarrow> bool" where
  zero: "cdf_state zero_CDF"
| init: "CDF_Init cumulative c = (err, c') \<Longrightarrow> cdf_state c \<Longrightarrow> cdf_state c'"
| uniform: "CDF_InitUniform symbols c = (err, c') \<Longrightarrow> cdf_state c \<Longrightarrow> cdf_state c'"
| default_delta: "CDF_InitDefaultDelta c = (err, c') \<Longrightarrow> cdf_state c \<Longrightarrow> cdf_state c'"
| reset: "cdf_state c \<Longrightarrow> cdf_state (CDF_Reset c)"
| reset_count: "CDF_ResetCount c = (err, c') \<Longrightarrow> cdf_state c \<Longrightarrow> cdf_state c'"
| reset_trusted: "cdf_state c \<Longrightarrow> cdf_state (ResetCDFCountTrusted c)"
| update: "CDF_Update symbol c = (err, c') \<Longrightarrow> cdf_state c \<Longrightarrow> cdf_state c'"
| copy: "CDF_CopyFrom src c = (err, c') \<Longrightarrow> cdf_state src \<Longrightarrow> cdf_state c \<Longrightarrow> cdf_state c'"

lemma reset_count_valid: "cdf_valid cdf n \<Longrightarrow> cdf_valid (cdf[n := 0]) n"
  by (auto simp: cdf_valid_def nth_list_update)

lemma cdf_state_ok: "cdf_state c \<Longrightarrow> c = zero_CDF \<or> cdf_ok c"
proof (induction rule: cdf_state.induct)
  case (init cumulative c err c')
  then show ?case using CDF_Init_ok [of cumulative c c'] by (cases err) (auto simp: CDF_Init_def split: prod.splits option.splits)
next
  case (uniform symbols c err c')
  then show ?case using CDF_InitUniform_ok [of symbols c c'] by (cases err) (auto simp: CDF_InitUniform_def split: prod.splits option.splits)
next
  case (default_delta c err c')
  then show ?case using CDF_Init_ok [of _ c c'] by (cases err) (auto simp: CDF_InitDefaultDelta_def CDF_Init_def split: prod.splits option.splits)
next
  case (reset_count c err c')
  then show ?case
    using CDF_Validate_ok [of zero_CDF]
    by (auto simp: CDF_ResetCount_def cdf_ok_def zero_CDF_def cdf_valid_def reset_count_valid split: option.splits)
next
  case (reset_trusted c)
  then show ?case by (auto simp: ResetCDFCountTrusted_def cdf_ok_def zero_CDF_def reset_count_valid)
next
  case (update symbol c err c')
  show ?case
  proof (cases "cdf_ok c")
    case True
    then have "cdf_ok (c\<lparr>cdf_values := adapted (cdf_values c) (unat (cdf_symbols c)) (nat symbol)\<rparr>)" if "0 \<le> symbol" "symbol < CDF_Symbols c"
    proof -
      have "nat symbol < unat (cdf_symbols c)" using that unfolding CDF_Symbols_int by linarith
      then show ?thesis using True adapted_valid [of "cdf_values c" "unat (cdf_symbols c)" "nat symbol"] by (simp add: cdf_ok_def)
    qed
    then show ?thesis using update.hyps(1) True unfolding CDF_Update_adapted [OF True]
      by (cases "0 \<le> symbol \<and> symbol < CDF_Symbols c") auto
  next
    case False
    then show ?thesis using update by (auto simp: CDF_Update_def CDF_Symbols_def zero_CDF_def)
  qed
qed (auto simp: CDF_Reset_def CDF_CopyFrom_def split: option.splits)

section \<open>Properties\<close>

text \<open>
  C16: tables are valid by construction: whatever sequence of \<open>Init\<close>, \<open>InitUniform\<close>, \<open>InitDefaultDelta\<close>, \<open>Reset\<close>, \<open>ResetCount\<close>, \<open>ResetCDFCountTrusted\<close>,
  \<open>Update\<close> and \<open>CopyFrom\<close> a caller makes, failed calls included, the table is the unused zero table or passes \<open>Validate\<close>; this is what
  the readers that skip the validation rely on.
\<close>

theorem cdf_valid_by_construction:
  assumes "cdf_state c"
  shows "c = zero_CDF \<or> CDF_Validate c = None"
  using cdf_state_ok [OF assms] CDF_Validate_ok [of c] by (auto simp: cdf_ok_def)

theorem cdf_valid_by_construction_witness:
  "snd (CDF_Update 2 (snd (CDF_InitDefaultDelta zero_CDF))) = zero_CDF \<or> CDF_Validate (snd (CDF_Update 2 (snd (CDF_InitDefaultDelta zero_CDF)))) = None"
proof (rule cdf_valid_by_construction)
  show "cdf_state (snd (CDF_Update 2 (snd (CDF_InitDefaultDelta zero_CDF))))"
    by (rule cdf_state.update [OF prod.collapse [symmetric]]) (rule cdf_state.default_delta [OF prod.collapse [symmetric] cdf_state.zero])
qed

text \<open>
  C22: the four adaptations are one: on a valid table and a symbol of it, the loop of \<open>updateCDF\<close>, the split loops of \<open>updateCDFWindow\<close> on the exact window, the
  unrolled cases of \<open>updateCDFValues\<close> and, for two symbols, the 32-bit select of \<open>updateCDF2\<close> give the same table; it is valid again, and the probability
  of the symbol has not fallen.
\<close>

theorem cdf_updates_agree:
  assumes "ValidateCDF cdf (int n) = None" "s < n"
  shows "updateCDFValues cdf n s = updateCDF cdf n s \<and>
    updateCDFWindow (take (n + 1) cdf) s @ drop (n + 1) cdf = updateCDF cdf n s \<and>
    (n = 2 \<longrightarrow> updateCDF2 cdf s = updateCDF cdf n s) \<and>
    ValidateCDF (updateCDF cdf n s) (int n) = None \<and>
    updateCDF cdf n s ! s \<le> cdf ! s \<and> (0 < s \<longrightarrow> cdf ! (s - 1) \<le> updateCDF cdf n s ! (s - 1))"
proof -
  have v: "cdf_valid cdf n" using assms(1) unfolding ValidateCDF_valid .
  then have n: "n < length cdf" "2 \<le> n" by (simp_all add: cdf_valid_def)
  have u: "updateCDF cdf n s = adapted cdf n s" by (rule updateCDF_adapted [OF n(1)])
  have "updateCDFWindow (take (n + 1) cdf) s = adapted (take (n + 1) cdf) n s" using n assms(2) by (intro updateCDFWindow_adapted) simp_all
  then have w: "updateCDFWindow (take (n + 1) cdf) s @ drop (n + 1) cdf = adapted cdf n s" using adapted_prefix [OF n(1)] by simp
  have valid: "ValidateCDF (adapted cdf n s) (int n) = None" unfolding ValidateCDF_valid by (rule adapted_valid [OF v assms(2)])
  have "adapted cdf n s ! s \<le> cdf ! s"
    using n assms(2) cdf_valid_le [OF v, of s] by (auto simp: adapted_nth unat_adapt_entry word_le_nat_alt)
  moreover have "cdf ! (s - 1) \<le> adapted cdf n s ! (s - 1)" if "0 < s"
  proof -
    have "unat (cdf ! (s - 1)) \<le> 32768" "s - 1 < length cdf" "s - 1 < n - 1" "s - 1 < s"
      using that n assms(2) cdf_valid_le [OF v, of "s - 1"] by linarith+
    then show ?thesis by (simp only: adapted_nth unat_adapt_entry word_le_nat_alt if_True le_add1)
  qed
  ultimately show ?thesis
    using updateCDFValues_adapted [OF n(1) assms(2) n(2)] updateCDF2_adapted [of cdf s] v assms(2) w valid unfolding u by blast
qed

theorem cdf_updates_agree_witness:
  "updateCDFValues [20000, 9000, 500, 0, 7] 4 2 = updateCDF [20000, 9000, 500, 0, 7] 4 2 \<and>
    updateCDFWindow (take 5 [20000, 9000, 500, 0, 7]) 2 @ drop 5 [20000, 9000, 500, 0, 7] = updateCDF [20000, 9000, 500, 0, 7] 4 2"
proof -
  have v: "ValidateCDF [20000, 9000, 500, 0, 7] (int 4) = None" by code_simp
  show ?thesis using cdf_updates_agree [OF v, of 2] by simp
qed

end
