(* ===== verification/Entropy_Reader.thy ===== *)
theory Entropy_Reader
  imports Entropy_Cdf Bit_Codec
begin

text \<open>
  The range decoder (\<open>internal/av1/entropy/reader.go\<close>): its window and the byte refill, booleans, literal bits, and the
  uniform, subexponential and Golomb codes built from them.

  The \<open>int16\<close> fields of a reader are 16-bit words that \<open>sint\<close> reads; the locals a function widens them to are \<open>int\<close>,
  since \<open>int32\<close> never overflows there. A position is below the length of the source, so it is a \<open>nat\<close> where the code has
  an \<open>int\<close>. The code inlines the same renormalisation into every decoding function; here it is
  \<open>Reader_normalize\<close> for the functions that work on the fields and \<open>window_normalize\<close> for the ones that first load
  the fields into locals (the record \<open>Window\<close>) and store them at the end. Those that load and store the position only
  when a refill needs it store the value that is already there otherwise. Readers and cursors are not nil, and the tracing build tag is off.
\<close>

type_synonym s16 = "16 word"

definition ecMinProb :: u32 where "ecMinProb = 4"
definition ecLotsBits :: int where "ecLotsBits = 0x4000"
definition readerInitTellOffs :: int where "readerInitTellOffs = 10 - (32 - 8)"

record Reader =
  er_src :: bytes
  er_dif :: u64
  er_pos :: u32
  er_rng :: u16
  er_cnt :: s16
  er_tellOffs :: s16
  er_allowCDFUpdate :: bool

record Cursor =
  cu_src :: bytes
  cu_dif :: u64
  cu_pos :: u32
  cu_rng :: u16
  cu_cnt :: s16
  cu_tellOffs :: s16
  cu_allowCDFUpdate :: bool

section \<open>The window\<close>

definition LeadingZeros16 :: "u16 \<Rightarrow> nat" where
  "LeadingZeros16 w = 16 - bit_len w"

definition normShift16 :: "u32 \<Rightarrow> nat" where
  "normShift16 rng = LeadingZeros16 (ucast rng)"

definition readerTell :: "nat \<Rightarrow> int \<Rightarrow> int \<Rightarrow> int" where
  "readerTell pos cnt tellOffs = int pos * 8 - cnt + tellOffs"

function refill_loop :: "bytes \<Rightarrow> nat \<Rightarrow> u64 \<Rightarrow> int \<Rightarrow> int \<Rightarrow> nat \<times> u64 \<times> int" where
  "refill_loop src pos dif cnt shift =
     (if shift \<ge> 0 \<and> pos < length src
      then refill_loop src (pos + 1) (dif XOR push_bit (nat shift) (ucast (src ! pos))) (cnt + 8) (shift - 8)
      else (pos, dif, cnt))"
  by pat_completeness auto
termination by (relation "measure (\<lambda>(src, pos, dif, cnt, shift). length src - pos)") auto

declare refill_loop.simps [simp del]

definition refillStateSlow :: "bytes \<Rightarrow> nat \<Rightarrow> u64 \<Rightarrow> int \<Rightarrow> int \<Rightarrow> nat \<times> u64 \<times> int \<times> int" where
  "refillStateSlow src pos dif cnt tellOffs =
     (let shift = 64 - 9 - (cnt + 15);
          (pos, dif, cnt) = refill_loop src pos dif cnt shift
      in if pos \<ge> length src then (pos, dif, ecLotsBits, tellOffs + (ecLotsBits - cnt)) else (pos, dif, cnt, tellOffs))"

definition refillState :: "bytes \<Rightarrow> nat \<Rightarrow> u64 \<Rightarrow> int \<Rightarrow> int \<Rightarrow> nat \<times> u64 \<times> int \<times> int" where
  "refillState src pos dif cnt tellOffs =
     (let shift = 64 - 9 - (cnt + 15)
      in if (word_of_int shift :: u32) \<le> 64 - 9 \<and> int (length src) - int pos \<ge> 8
         then let u = be64 src pos;
                  dif = dif XOR (drop_bit (nat (56 - shift)) u AND NOT (push_bit (nat (shift AND 7)) 1 - 1));
                  n = drop_bit 3 shift + 1
              in (pos + nat n, dif, cnt + 8 * n, tellOffs)
         else refillStateSlow src pos dif cnt tellOffs)"

section \<open>Reader and cursor\<close>

definition Reader_refill :: "Reader \<Rightarrow> Reader" where
  "Reader_refill r =
     (let (pos, dif, cnt, tellOffs) = refillState (er_src r) (unat (er_pos r)) (er_dif r) (sint (er_cnt r)) (sint (er_tellOffs r))
      in r\<lparr>er_pos := of_nat pos, er_dif := dif, er_cnt := word_of_int cnt, er_tellOffs := word_of_int tellOffs\<rparr>)"

definition Reader_Cursor :: "Reader \<Rightarrow> Cursor" where
  "Reader_Cursor r = \<lparr>cu_src = er_src r, cu_dif = er_dif r, cu_pos = er_pos r, cu_rng = er_rng r, cu_cnt = er_cnt r,
     cu_tellOffs = er_tellOffs r, cu_allowCDFUpdate = er_allowCDFUpdate r\<rparr>"

definition Cursor_CommitTo :: "Cursor \<Rightarrow> Reader \<Rightarrow> Reader" where
  "Cursor_CommitTo c r = r\<lparr>er_src := cu_src c, er_pos := cu_pos c, er_dif := cu_dif c, er_rng := cu_rng c, er_cnt := cu_cnt c,
     er_tellOffs := cu_tellOffs c, er_allowCDFUpdate := cu_allowCDFUpdate c\<rparr>"

definition Cursor_CommitStateTo :: "Cursor \<Rightarrow> Reader \<Rightarrow> Reader" where
  "Cursor_CommitStateTo c r = r\<lparr>er_pos := cu_pos c, er_dif := cu_dif c, er_rng := cu_rng c, er_cnt := cu_cnt c, er_tellOffs := cu_tellOffs c\<rparr>"

definition NewReaderWithCDFUpdate :: "bytes \<Rightarrow> bool \<Rightarrow> Reader" where
  "NewReaderWithCDFUpdate src allowCDFUpdate =
     Reader_refill \<lparr>er_src = src, er_dif = push_bit 63 1 - 1, er_pos = 0, er_rng = 0x8000, er_cnt = word_of_int (- 15),
       er_tellOffs = word_of_int readerInitTellOffs, er_allowCDFUpdate = allowCDFUpdate\<rparr>"

definition NewReader :: "bytes \<Rightarrow> Reader" where
  "NewReader src = NewReaderWithCDFUpdate src True"

definition SetCDFUpdate :: "bool \<Rightarrow> Reader \<Rightarrow> Reader" where
  "SetCDFUpdate allow r = r\<lparr>er_allowCDFUpdate := allow\<rparr>"

definition BitsRead :: "Reader \<Rightarrow> int" where
  "BitsRead r = readerTell (unat (er_pos r)) (sint (er_cnt r)) (sint (er_tellOffs r))"

definition Reader_normalize :: "u64 \<Rightarrow> u32 \<Rightarrow> Reader \<Rightarrow> Reader" where
  "Reader_normalize dif rng r =
     (let shift = normShift16 rng;
          cnt = sint (er_cnt r) - int shift;
          r = r\<lparr>er_cnt := word_of_int cnt, er_dif := push_bit shift (dif + 1) - 1, er_rng := ucast (push_bit shift rng)\<rparr>
      in if cnt < 0 then Reader_refill r else r)"

record Window =
  w_pos :: nat
  w_dif :: u64
  w_rng :: u32
  w_cnt :: int
  w_tellOffs :: int

definition Reader_load :: "Reader \<Rightarrow> Window" where
  "Reader_load r = \<lparr>w_pos = unat (er_pos r), w_dif = er_dif r, w_rng = ucast (er_rng r), w_cnt = sint (er_cnt r), w_tellOffs = sint (er_tellOffs r)\<rparr>"

definition Reader_store :: "Window \<Rightarrow> Reader \<Rightarrow> Reader" where
  "Reader_store w r = r\<lparr>er_pos := of_nat (w_pos w), er_dif := w_dif w, er_rng := ucast (w_rng w), er_cnt := word_of_int (w_cnt w),
     er_tellOffs := word_of_int (w_tellOffs w)\<rparr>"

definition Cursor_load :: "Cursor \<Rightarrow> Window" where
  "Cursor_load c = \<lparr>w_pos = unat (cu_pos c), w_dif = cu_dif c, w_rng = ucast (cu_rng c), w_cnt = sint (cu_cnt c), w_tellOffs = sint (cu_tellOffs c)\<rparr>"

definition Cursor_store :: "Window \<Rightarrow> Cursor \<Rightarrow> Cursor" where
  "Cursor_store w c = c\<lparr>cu_pos := of_nat (w_pos w), cu_dif := w_dif w, cu_rng := ucast (w_rng w), cu_cnt := word_of_int (w_cnt w),
     cu_tellOffs := word_of_int (w_tellOffs w)\<rparr>"

definition window_normalize :: "bytes \<Rightarrow> u64 \<Rightarrow> u32 \<Rightarrow> Window \<Rightarrow> Window" where
  "window_normalize src dif rng w =
     (let shift = normShift16 rng;
          cnt = w_cnt w - int shift;
          dif = push_bit shift (dif + 1) - 1;
          rng = push_bit shift rng
      in if cnt < 0
         then let (pos, dif, cnt, tellOffs) = refillState src (w_pos w) dif cnt (w_tellOffs w)
              in \<lparr>w_pos = pos, w_dif = dif, w_rng = rng, w_cnt = cnt, w_tellOffs = tellOffs\<rparr>
         else w\<lparr>w_dif := dif, w_rng := rng, w_cnt := cnt\<rparr>)"

section \<open>Bits\<close>

text \<open>The choice between the two halves of the range: the bit, and the window and range of its half.\<close>

definition take_split :: "u32 \<Rightarrow> u64 \<Rightarrow> u32 \<Rightarrow> u8 \<times> u64 \<times> u32" where
  "take_split split dif rangeValue =
     (let window = push_bit 48 (ucast split) :: u64
      in if dif \<ge> window then (0, dif - window, rangeValue - split) else (1, dif, split))"

definition half_split :: "u32 \<Rightarrow> u32" where
  "half_split rangeValue = push_bit 7 (drop_bit 8 rangeValue) + ecMinProb"

definition ReadBitTrusted :: "Reader \<Rightarrow> u8 \<times> Reader" where
  "ReadBitTrusted r =
     (let rangeValue = ucast (er_rng r);
          (bit, dif, nextRange) = take_split (half_split rangeValue) (er_dif r) rangeValue
      in (bit, Reader_normalize dif nextRange r))"

definition Reader_ReadBit :: "Reader \<Rightarrow> (go_err + u8) \<times> Reader" where
  "Reader_ReadBit r = (let (bit, r) = ReadBitTrusted r in (Inr bit, r))"

definition ReadBoolQ15 :: "u16 \<Rightarrow> Reader \<Rightarrow> (go_err + u8) \<times> Reader" where
  "ReadBoolQ15 prob r =
     (if prob = 0 \<or> prob \<ge> 0x8000 then (Inl EntropyErrInvalidProbability, r)
      else let rangeValue = ucast (er_rng r) :: u32;
               split = drop_bit 1 (drop_bit 8 rangeValue * ucast (drop_bit 6 prob)) + ecMinProb;
               (bit, dif, nextRange) = take_split split (er_dif r) rangeValue
           in (Inr bit, Reader_normalize dif nextRange r))"

definition Reader_ReadBool :: "u8 \<Rightarrow> Reader \<Rightarrow> (go_err + u8) \<times> Reader" where
  "Reader_ReadBool prob r =
     (let p = drop_bit 8 (0x7fffff - push_bit 15 (ucast prob) + ucast prob) :: u32
      in ReadBoolQ15 (ucast p) r)"

definition window_bit :: "bytes \<Rightarrow> Window \<Rightarrow> u8 \<times> Window" where
  "window_bit src w =
     (let rangeValue = w_rng w;
          (bit, dif, nextRange) = take_split (half_split rangeValue) (w_dif w) rangeValue
      in (bit, window_normalize src dif nextRange w))"

fun window_bits :: "bytes \<Rightarrow> nat \<Rightarrow> u32 \<Rightarrow> Window \<Rightarrow> u32 \<times> Window" where
  "window_bits src 0 v w = (v, w)"
| "window_bits src (Suc n) v w = (let (bit, w) = window_bit src w in window_bits src n (push_bit 1 v OR ucast bit) w)"

definition ReadBitsTrusted :: "u8 \<Rightarrow> Reader \<Rightarrow> u32 \<times> Reader" where
  "ReadBitsTrusted n r =
     (if n = 0 then (0, r)
      else let (v, w) = window_bits (er_src r) (unat n) 0 (Reader_load r) in (v, Reader_store w r))"

definition Reader_ReadBits :: "u8 \<Rightarrow> Reader \<Rightarrow> (go_err + u32) \<times> Reader" where
  "Reader_ReadBits n r =
     (if n > 32 then (Inl EntropyErrInvalidBitCount, r)
      else if n = 0 then (Inr 0, r)
      else let (v, r) = ReadBitsTrusted n r in (Inr v, r))"

definition Cursor_ReadBitTrusted :: "Cursor \<Rightarrow> u8 \<times> Cursor" where
  "Cursor_ReadBitTrusted c = (let (bit, w) = window_bit (cu_src c) (Cursor_load c) in (bit, Cursor_store w c))"

definition ReadBitTrustedInline :: "Cursor \<Rightarrow> u8 \<times> Cursor" where
  "ReadBitTrustedInline c = (let (bit, w) = window_bit (cu_src c) (Cursor_load c) in (bit, Cursor_store w c))"

text \<open>\<open>16 - bits.Len16(split)\<close> is the number of leading zeros.\<close>

definition ReadBitNoRefillTrusted :: "Cursor \<Rightarrow> (u8 \<times> bool) \<times> Cursor" where
  "ReadBitNoRefillTrusted c =
     (let split = push_bit 7 (drop_bit 8 (cu_rng c)) + 4;
          (bit, dif, split) =
            (if cu_dif c \<ge> push_bit 48 (ucast split) then (0, cu_dif c - push_bit 48 (ucast split), cu_rng c - split)
             else (1, cu_dif c, split));
          shift = unat (of_nat (LeadingZeros16 split) AND 3 :: u64);
          cnt = cu_cnt c - of_nat shift
      in ((bit, sint cnt < 0), c\<lparr>cu_rng := push_bit shift split, cu_cnt := cnt, cu_dif := push_bit shift (dif + 1) - 1\<rparr>))"

definition RefillTrusted :: "Cursor \<Rightarrow> Cursor" where
  "RefillTrusted c =
     (let (pos, dif, cnt, tellOffs) = refillState (cu_src c) (unat (cu_pos c)) (cu_dif c) (sint (cu_cnt c)) (sint (cu_tellOffs c))
      in c\<lparr>cu_pos := of_nat pos, cu_dif := dif, cu_cnt := word_of_int cnt, cu_tellOffs := word_of_int tellOffs\<rparr>)"

definition Cursor_ReadBitsTrusted :: "u8 \<Rightarrow> Cursor \<Rightarrow> u32 \<times> Cursor" where
  "Cursor_ReadBitsTrusted n c =
     (if n = 0 then (0, c)
      else let (v, w) = window_bits (cu_src c) (unat n) 0 (Cursor_load c) in (v, Cursor_store w c))"

section \<open>Codes made of bits\<close>

text \<open>The unary prefix: \<open>None\<close> is a loop that does not end, which only \<open>maxLength = 255\<close> allows, as the length wraps there.\<close>

partial_function (option) golomb_prefix :: "bytes \<Rightarrow> u8 \<Rightarrow> u8 \<Rightarrow> Window \<Rightarrow> (bool \<times> u8 \<times> Window) option" where
  "golomb_prefix src maxLength len w =
     (let (bit, w) = window_bit src w;
          len = len + 1
      in if len > maxLength then Some (False, len, w)
         else if bit \<noteq> 0 then Some (True, len, w)
         else golomb_prefix src maxLength len w)"

declare golomb_prefix.simps [code]

definition ReadUnsignedGolombTrusted :: "u8 \<Rightarrow> Cursor \<Rightarrow> ((u32 \<times> bool) \<times> Cursor) option" where
  "ReadUnsignedGolombTrusted maxLength c =
     (case golomb_prefix (cu_src c) maxLength 0 (Cursor_load c) of None \<Rightarrow> None
      | Some (False, _, w) \<Rightarrow> Some ((0, False), Cursor_store w c)
      | Some (True, len, w) \<Rightarrow>
          let (suffix, w) = window_bits (cu_src c) (unat len - 1) 0 w;
              val = push_bit (unat (len - 1)) (1 :: u32) OR suffix
          in Some ((val - 1, True), Cursor_store w c))"

definition ReadUniform :: "u32 \<Rightarrow> Reader \<Rightarrow> (go_err + u32) \<times> Reader" where
  "ReadUniform n r =
     (if n = 0 then (Inl EntropyErrInvalidRange, r)
      else if n = 1 then (Inr 0, r)
      else let width = of_nat (bit_len n) :: u8;
               m = push_bit (unat width) 1 - ucast n :: u64
           in case Reader_ReadBits (width - 1) r of
                (Inl err, r) \<Rightarrow> (Inl err, r)
              | (Inr v, r) \<Rightarrow>
                  if ucast v < m then (Inr v, r)
                  else (case Reader_ReadBit r of
                      (Inl err, r) \<Rightarrow> (Inl err, r)
                    | (Inr b, r) \<Rightarrow> (Inr (ucast (push_bit 1 (ucast v) - m + ucast b)), r)))"

function ReadSubexp_loop :: "u32 \<Rightarrow> u8 \<Rightarrow> nat \<Rightarrow> u32 \<Rightarrow> Reader \<Rightarrow> (go_err + u32) \<times> Reader" where
  "ReadSubexp_loop n k i mk r =
     (if i > 0 \<and> unat k + i - 1 > 31 then (Inl EntropyErrInvalidRange, r)
      else let b = (if i > 0 then of_nat (unat k + i - 1) else k);
               a = push_bit (unat b) 1 :: u32
           in if (ucast n :: u64) \<le> ucast mk + 3 * ucast a
              then (case ReadUniform (n - mk) r of
                  (Inl err, r) \<Rightarrow> (Inl err, r)
                | (Inr v, r) \<Rightarrow> (Inr (v + mk), r))
              else (case Reader_ReadBit r of
                  (Inl err, r) \<Rightarrow> (Inl err, r)
                | (Inr again, r) \<Rightarrow>
                    if again = 0
                    then (case Reader_ReadBits b r of
                        (Inl err, r) \<Rightarrow> (Inl err, r)
                      | (Inr v, r) \<Rightarrow> (Inr (v + mk), r))
                    else ReadSubexp_loop n k (i + 1) (mk + a) r))"
  by pat_completeness auto
termination by (relation "measure (\<lambda>(n, k, i, mk, r). 33 - i)") auto

declare ReadSubexp_loop.simps [simp del]

definition ReadSubexp :: "u32 \<Rightarrow> u8 \<Rightarrow> Reader \<Rightarrow> (go_err + u32) \<times> Reader" where
  "ReadSubexp n k r = (if n = 0 \<or> k > 31 then (Inl EntropyErrInvalidRange, r) else ReadSubexp_loop n k 0 0 r)"

definition invRecenterNonNeg :: "u32 \<Rightarrow> u32 \<Rightarrow> u32" where
  "invRecenterNonNeg ref v =
     (if (ucast v :: u64) > ucast ref * 2 then v
      else if v AND 1 = 0 then drop_bit 1 v + ref
      else ref - drop_bit 1 (v + 1))"

definition invRecenterFiniteNonNeg :: "u32 \<Rightarrow> u32 \<Rightarrow> u32 \<Rightarrow> u32" where
  "invRecenterFiniteNonNeg n ref v =
     (if (ucast ref :: u64) * 2 \<le> ucast n then invRecenterNonNeg ref v
      else n - 1 - invRecenterNonNeg (n - 1 - ref) v)"

definition ReadRefSubexp :: "u32 \<Rightarrow> u8 \<Rightarrow> u32 \<Rightarrow> Reader \<Rightarrow> (go_err + u32) \<times> Reader" where
  "ReadRefSubexp n k ref r =
     (if n = 0 \<or> ref \<ge> n then (Inl EntropyErrInvalidRange, r)
      else case ReadSubexp n k r of
          (Inl err, r) \<Rightarrow> (Inl err, r)
        | (Inr v, r) \<Rightarrow> (Inr (invRecenterFiniteNonNeg n ref v), r))"

text \<open>\<open>int32\<close> values are \<open>int\<close>; the 64-bit sums do not overflow.\<close>

definition ReadSignedRefSubexp :: "u32 \<Rightarrow> u8 \<Rightarrow> int \<Rightarrow> Reader \<Rightarrow> (go_err + int) \<times> Reader" where
  "ReadSignedRefSubexp n k ref r =
     (if n = 0 \<or> n > 0x80000000 then (Inl EntropyErrInvalidRange, r)
      else let scaledN = push_bit 1 n - 1;
               scaledRef = ref + uint n - 1
           in if scaledRef < 0 \<or> scaledRef \<ge> uint scaledN then (Inl EntropyErrInvalidRange, r)
              else case ReadRefSubexp scaledN k (word_of_int scaledRef) r of
                  (Inl err, r) \<Rightarrow> (Inl err, r)
                | (Inr v, r) \<Rightarrow> (Inr (signed_take_bit 31 (uint v - uint n + 1)), r))"

section \<open>The two refills agree\<close>

text \<open>Bit \<open>k\<close> of the source after byte \<open>pos\<close>, and the whole bytes that a refill adds from bit \<open>s + 7\<close> of the window down.\<close>

definition src_bit :: "bytes \<Rightarrow> nat \<Rightarrow> nat \<Rightarrow> bool" where
  "src_bit src pos k = bit (src ! (pos + k div 8)) (7 - k mod 8)"

primrec chunk :: "bytes \<Rightarrow> nat \<Rightarrow> nat \<Rightarrow> nat \<Rightarrow> u64" where
  "chunk src pos s 0 = 0"
| "chunk src pos s (Suc m) = chunk src pos s m XOR push_bit (s - 8 * m) (ucast (src ! (pos + m)))"

lemma bit_byte_in_window:
  assumes "8 * m \<le> s" "s \<le> 56" "j < 64"
  shows "bit (push_bit (s - 8 * m) (ucast (src ! (pos + m))) :: u64) j \<longleftrightarrow> j \<le> s + 7 \<and> 8 * m \<le> s + 7 - j \<and> s + 7 - j < 8 * m + 8 \<and> src_bit src pos (s + 7 - j)"
proof -
  have b: "bit (push_bit (s - 8 * m) (ucast (src ! (pos + m))) :: u64) j \<longleftrightarrow> s - 8 * m \<le> j \<and> j - (s - 8 * m) < 8 \<and> bit (src ! (pos + m)) (j - (s - 8 * m))"
    using assms(3) by (auto simp: bit_simps dest: bit_imp_le_length)
  show ?thesis
  proof (cases "s - 8 * m \<le> j \<and> j - (s - 8 * m) < 8")
    case True
    define t where "t = j - (s - 8 * m)"
    have t: "t < 8" "s + 7 - j = 8 * m + (7 - t)" "j \<le> s + 7" using True assms(1) by (auto simp: t_def)
    have "(8 * m + k) div 8 = m" "(8 * m + k) mod 8 = k" if "k < 8" for k using that by simp_all
    from this [of "7 - t"] have "(s + 7 - j) div 8 = m" "7 - (s + 7 - j) mod 8 = t" using t(1) unfolding t(2) by simp_all
    moreover have "8 * m \<le> s + 7 - j" "s + 7 - j < 8 * m + 8" using t by linarith+
    ultimately show ?thesis using True t(1,3) unfolding b src_bit_def t_def [symmetric] by simp
  next
    case False
    then show ?thesis using assms(1) unfolding b by auto
  qed
qed

lemma bit_chunk:
  "8 * m \<le> s + 8 \<Longrightarrow> s \<le> 56 \<Longrightarrow> j < 64 \<Longrightarrow> bit (chunk src pos s m) j \<longleftrightarrow> j \<le> s + 7 \<and> s + 7 - j < 8 * m \<and> src_bit src pos (s + 7 - j)"
proof (induction m)
  case (Suc m)
  then have m: "8 * m \<le> s" by simp
  show ?case using Suc.IH Suc.prems m unfolding chunk.simps bit_xor_iff bit_byte_in_window [OF m Suc.prems(2,3)] by auto
qed simp

lemma refill_loop_chunk:
  "8 * m \<le> s + 8 \<Longrightarrow> pos + m \<le> length src \<Longrightarrow>
     refill_loop src pos dif cnt (int s) = refill_loop src (pos + m) (dif XOR chunk src pos s m) (cnt + 8 * int m) (int s - 8 * int m)"
proof (induction m)
  case (Suc m)
  then have m: "8 * m \<le> s" "pos + m < length src" by simp_all
  have "refill_loop src (pos + m) d k (int s - 8 * int m) =
      refill_loop src (pos + Suc m) (d XOR push_bit (s - 8 * m) (ucast (src ! (pos + m)))) (k + 8) (int s - 8 * int (Suc m))" for d k
    using m by (subst refill_loop.simps) (simp add: nat_diff_distrib' nat_mult_distrib diff_diff_eq add.commute)
  then show ?case using Suc.IH m by (simp add: xor.assoc add.assoc add.commute [of 8])
qed simp

lemma bit_be64: "pos + 8 \<le> length src \<Longrightarrow> j < 64 \<Longrightarrow> bit (be64 src pos) j = src_bit src pos (63 - j)"
proof -
  assume a: "pos + 8 \<le> length src" "j < 64"
  then have "bit (be64 src pos) j \<longleftrightarrow> stream_bits src ! (8 * pos + (63 - j))" by (simp add: be64_bits bit_bits_word)
  moreover have "8 * pos + (63 - j) < 8 * length src" using a by linarith
  moreover have "(8 * pos + k) div 8 = pos + k div 8" "(8 * pos + k) mod 8 = k mod 8" for k by simp_all
  ultimately show ?thesis by (simp only: nth_stream_bits src_bit_def)
qed

text \<open>The eight-byte load adds the same bytes as the loop.\<close>

lemma load_chunk:
  assumes "s \<le> 55" "pos + 8 \<le> length src"
  shows "drop_bit (56 - s) (be64 src pos) AND NOT (push_bit (s mod 8) 1 - 1) = chunk src pos s (s div 8 + 1)"
proof (rule bit_word_eqI)
  fix j assume "j < LENGTH(64)"
  then have j: "j < 64" by simp
  have "bit (NOT (push_bit (s mod 8) 1 - 1) :: u64) j \<longleftrightarrow> s mod 8 \<le> j" using j by (simp add: push_bit_eq_mult bit_simps mask_eq_exp_minus_1 [symmetric] not_less)
  moreover have "bit (drop_bit (56 - s) (be64 src pos)) j \<longleftrightarrow> j \<le> s + 7 \<and> src_bit src pos (s + 7 - j)"
  proof (cases "j \<le> s + 7")
    case True
    then show ?thesis using assms bit_be64 [OF assms(2), of "56 - s + j"] by (simp add: bit_drop_bit_eq add.commute)
  next
    case False
    then show ?thesis using assms by (auto simp: bit_drop_bit_eq dest: bit_imp_le_length)
  qed
  moreover have "s mod 8 \<le> j \<longleftrightarrow> s + 7 - j < 8 * (s div 8 + 1)" if "j \<le> s + 7" using that by presburger
  ultimately show "bit (drop_bit (56 - s) (be64 src pos) AND NOT (push_bit (s mod 8) 1 - 1)) j = bit (chunk src pos s (s div 8 + 1)) j"
    using assms(1) j bit_chunk [of "s div 8 + 1" s j src pos] by (auto simp: bit_and_iff)
qed

lemma u32_shift:
  assumes "\<bar>cnt\<bar> < 2 ^ 31" "(word_of_int (40 - cnt) :: u32) \<le> 55"
  shows "0 \<le> 40 - cnt \<and> 40 - cnt \<le> 55"
proof -
  have le: "(40 - cnt) mod 2 ^ 32 \<le> 55" using assms(2) unfolding word_le_def uint_word_of_int by simp
  show ?thesis
  proof (cases "0 \<le> 40 - cnt")
    case True
    then show ?thesis using le assms(1) by (simp add: mod_pos_pos_trivial)
  next
    case False
    have "(40 - cnt) mod 2 ^ 32 = (40 - cnt + 2 ^ 32) mod 2 ^ 32" by (rule mod_add_self2 [symmetric])
    also have "\<dots> = 40 - cnt + 2 ^ 32" using False assms(1) by (intro mod_pos_pos_trivial) simp_all
    finally show ?thesis using le assms(1) by simp
  qed
qed

lemma refillState_slow:
  assumes "\<bar>cnt\<bar> < 2 ^ 31"
  shows "refillState src pos dif cnt tellOffs = refillStateSlow src pos dif cnt tellOffs"
proof (cases "(word_of_int (40 - cnt) :: u32) \<le> 55 \<and> int (length src) - int pos \<ge> 8")
  case True
  define s where "s = nat (40 - cnt)"
  have s: "int s = 40 - cnt" "s \<le> 55" "pos + 8 \<le> length src" using u32_shift [OF assms] True by (auto simp: s_def)
  let ?m = "s div 8 + 1"
  have m: "8 * ?m \<le> s + 8" "pos + ?m \<le> length src" "pos + ?m < length src" "int s - 8 * int ?m < 0" using s(2,3) by presburger+
  have n: "nat (40 - cnt AND 7) = s mod 8" "nat (drop_bit 3 (40 - cnt) + 1) = ?m" "drop_bit 3 (40 - cnt) + 1 = int ?m" "nat (56 - (40 - cnt)) = 56 - s"
  proof -
    have "40 - cnt AND 7 = int (s mod 8)" unfolding s(1) [symmetric] using take_bit_eq_mask [of 3 "int s"]
      by (simp add: mask_eq_exp_minus_1 take_bit_eq_mod zmod_int)
    then show "nat (40 - cnt AND 7) = s mod 8" by simp
    show *: "drop_bit 3 (40 - cnt) + 1 = int ?m" unfolding s(1) [symmetric] by (simp add: drop_bit_eq_div zdiv_int)
    show "nat (drop_bit 3 (40 - cnt) + 1) = ?m" unfolding * by simp
    show "nat (56 - (40 - cnt)) = 56 - s" unfolding s(1) [symmetric] by linarith
  qed
  have "refill_loop src pos dif cnt (40 - cnt) = (pos + ?m, dif XOR chunk src pos s ?m, cnt + 8 * int ?m)"
    using refill_loop_chunk [OF m(1,2), of dif cnt] m(4) unfolding s(1) [symmetric] by (subst (asm) (2) refill_loop.simps) simp
  then have slow: "refillStateSlow src pos dif cnt tellOffs = (pos + ?m, dif XOR chunk src pos s ?m, cnt + 8 * int ?m, tellOffs)"
    using m(3) unfolding refillStateSlow_def Let_def by (simp del: chunk.simps)
  have g: "((word_of_int (40 - cnt) :: u32) \<le> 64 - 9 \<and> int (length src) - int pos \<ge> 8) = True" using True by simp
  have sh: "64 - 9 - (cnt + 15) = 40 - cnt" by simp
  show ?thesis
    unfolding slow unfolding refillState_def Let_def sh g if_True n(1,4) load_chunk [OF s(2,3)] n(2) unfolding n(3) ..
next
  case False
  then have g: "((word_of_int (64 - 9 - (cnt + 15)) :: u32) \<le> 64 - 9 \<and> int (length src) - int pos \<ge> 8) = False" by simp
  show ?thesis unfolding refillState_def Let_def g if_False ..
qed

section \<open>What the window holds\<close>

text \<open>
  After \<open>T\<close> bits of renormalisation the decoder holds, in units of \<open>2\<^sup>-\<^sup>4\<^sup>8\<close> of its range, the distance \<open>dif + 1\<close> from the code to the high end \<open>H\<close> of the
  current interval, where the code is the part of the source read so far with the bytes still unread as zeros; \<open>cnt\<close> counts the bits read ahead, and
  \<open>tellOffs\<close> makes the bits consumed come out as \<open>T + 1\<close>, modulo the 16 bits that the field has.
\<close>

definition be_val :: "bytes \<Rightarrow> nat" where
  "be_val bs = foldl (\<lambda>v b. v * 256 + unat b) 0 bs"

lemma be_val_Nil [simp]: "be_val [] = 0"
  by (simp add: be_val_def)

lemma be_val_snoc: "be_val (bs @ [b]) = be_val bs * 256 + unat b"
  by (simp add: be_val_def)

lemma be_val_take_Suc: "pos < length src \<Longrightarrow> be_val (take (Suc pos) src) = be_val (take pos src) * 256 + unat (src ! pos)"
  by (simp add: take_Suc_conv_app_nth be_val_snoc)

definition held :: "bytes \<Rightarrow> nat \<Rightarrow> nat \<Rightarrow> nat \<Rightarrow> u64 \<Rightarrow> bool" where
  "held src T H pos dif \<longleftrightarrow> pos \<le> length src \<and> 8 * pos \<le> T + 63 \<and> unat dif + 1 + be_val (take pos src) * 2 ^ (T + 63 - 8 * pos) = H * 2 ^ 48"

definition counts :: "bytes \<Rightarrow> nat \<Rightarrow> nat \<Rightarrow> int \<Rightarrow> int \<Rightarrow> bool" where
  "counts src T pos cnt tellOffs \<longleftrightarrow> (pos < length src \<longrightarrow> cnt = 8 * int pos - int T - 15) \<and> cnt \<le> ecLotsBits \<and>
     (8 * int pos - cnt + tellOffs - int T - 1) mod 65536 = 0"

definition window_ok :: "bytes \<Rightarrow> nat \<Rightarrow> nat \<Rightarrow> Window \<Rightarrow> bool" where
  "window_ok src T H w \<longleftrightarrow> held src T H (w_pos w) (w_dif w) \<and> counts src T (w_pos w) (w_cnt w) (w_tellOffs w) \<and> 0 \<le> w_cnt w \<and>
     2 ^ 15 \<le> unat (w_rng w) \<and> unat (w_rng w) < 2 ^ 16 \<and> unat (w_dif w) + 1 \<le> unat (w_rng w) * 2 ^ 48"

lemma unat_drop: "unat (drop_bit n w) = unat w div 2 ^ n"
  unfolding unat_drop_bit_eq by (simp only: drop_bit_eq_div)

lemma push_bit_or_bit:
  assumes "b = 0 \<or> b = (1 :: u8)"
  shows "push_bit 1 v OR ucast b = (push_bit 1 v + ucast b :: u32)"
proof (rule disjunctive_add_eq_or [symmetric])
  show "push_bit 1 v AND (ucast b :: u32) = 0" using assms by (intro bit_word_eqI) (auto simp: bit_simps bit_1_iff bit_0)
qed

lemma unat_push_bit:
  fixes w :: "'a::len word"
  assumes "unat w * 2 ^ n < 2 ^ LENGTH('a)"
  shows "unat (push_bit n w) = unat w * 2 ^ n"
proof -
  have "unat (push_bit n w) = take_bit LENGTH('a) (push_bit n (unat w))" by (rule unsigned_push_bit_eq)
  also have "\<dots> = unat w * 2 ^ n" using assms by (simp only: push_bit_eq_mult take_bit_nat_eq_self)
  finally show ?thesis .
qed

lemma xor_into_ones:
  fixes dif x :: "'a::len word"
  assumes "2 ^ k dvd unat dif + 1" "unat x < 2 ^ k"
  shows "unat (dif XOR x) = unat dif - unat x"
proof -
  have m: "(unat dif) mod 2 ^ k = 2 ^ k - 1"
  proof -
    obtain q where q: "unat dif + 1 = 2 ^ k * q" using assms(1) by blast
    then have "0 < q" by (cases q) simp_all
    then have "unat dif = (2 ^ k - 1) + (q - 1) * 2 ^ k" using q by (cases q) (auto simp: mult.commute)
    then show ?thesis by (simp only: mod_mult_self1) simp
  qed
  have ones: "bit dif i" if "i < k" for i
  proof -
    have "bit (take_bit k (unat dif)) i" unfolding take_bit_eq_mod m using that mask_eq_exp_minus_1 [of k, where 'a = nat] bit_mask_iff [of k i, where 'a = nat] by simp
    then show ?thesis by (simp add: bit_take_bit_iff bit_unsigned_iff)
  qed
  have sub: "bit dif i" if "bit x i" for i
  proof (rule ones)
    show "i < k"
    proof (rule ccontr)
      assume "\<not> i < k"
      moreover have "take_bit k x = x" using assms(2) by (rule take_bit_word_unat)
      ultimately show False using that bit_take_bit_iff [of k x i] by simp
    qed
  qed
  have "(dif XOR x) AND x = 0" "(dif XOR x) OR x = dif"
    by (rule bit_word_eqI; use sub in \<open>auto simp: bit_simps\<close>)+
  then have "dif - x = dif XOR x" using disjunctive_add_eq_or [of "dif XOR x" x] by (metis add_diff_cancel_right')
  moreover have "x \<le> dif"
  proof -
    have "2 ^ k - 1 \<le> unat dif" using m mod_less_eq_dividend [of "unat dif" "2 ^ k"] by simp
    then show ?thesis using assms(2) unfolding word_le_nat_alt by linarith
  qed
  ultimately show ?thesis by (metis unat_sub)
qed

lemma refill_loop_held:
  assumes "refill_loop src pos dif cnt shift = (pos', dif', cnt')" "held src T H pos dif" "shift = 40 - cnt" "cnt = 8 * int pos - int T - 15"
    "2 ^ (T + 63 - 8 * pos) dvd unat dif + 1"
  shows "held src T H pos' dif' \<and> cnt' = 8 * int pos' - int T - 15 \<and> (pos' < length src \<longrightarrow> 41 \<le> cnt') \<and> unat dif' \<le> unat dif"
  using assms
proof (induction src pos dif cnt shift rule: refill_loop.induct)
  case (1 src pos dif cnt shift)
  show ?case
  proof (cases "shift \<ge> 0 \<and> pos < length src")
    case False
    then show ?thesis using "1.prems" by (auto simp: refill_loop.simps [of src pos])
  next
    case True
    define s where "s = T + 55 - 8 * pos"
    have s: "8 * (pos + 1) \<le> T + 63" "nat shift = s" "T + 63 - 8 * pos = s + 8" "T + 63 - 8 * (pos + 1) = s"
      using True "1.prems"(3,4) by (auto simp: s_def)
    let ?x = "push_bit s (ucast (src ! pos)) :: u64" and ?b = "unat (src ! pos)"
    have dvd: "2 ^ (s + 8) dvd unat dif + 1" using "1.prems"(5) s(3) by simp
    then have small: "(2 :: nat) ^ (s + 8) \<le> 2 ^ 64" using dvd_imp_le [OF dvd] unsigned_less [of dif, where 'a = nat] by simp
    have b: "?b < 2 ^ 8" using unsigned_less [of "src ! pos", where 'a = nat] by simp
    have x: "unat ?x = ?b * 2 ^ s"
    proof -
      have "?b * 2 ^ s < 2 ^ 8 * 2 ^ s" using b by (intro mult_strict_right_mono) simp_all
      also have "\<dots> \<le> 2 ^ 64" using small by (simp only: power_add mult.commute)
      finally have "?b * 2 ^ s < 2 ^ 64" .
      then show ?thesis using unat_push_bit [of "ucast (src ! pos) :: u64" s] by (simp add: unat_ucast_up)
    qed
    have lt: "unat ?x < 2 ^ (s + 8)" using b unfolding x by (simp add: power_add)
    have d: "unat (dif XOR ?x) = unat dif - ?b * 2 ^ s" "?b * 2 ^ s \<le> unat dif"
      using xor_into_ones [OF dvd lt] dvd_imp_le [OF dvd] lt unfolding x by auto
    have h: "held src T H (pos + 1) (dif XOR ?x)"
      using "1.prems"(2) True s d unfolding held_def by (simp add: be_val_take_Suc power_add algebra_simps)
    have dv: "2 ^ (T + 63 - 8 * (pos + 1)) dvd unat (dif XOR ?x) + 1"
    proof -
      have "2 ^ s dvd unat dif + 1" using dvd by (metis dvd_mult_left power_add)
      moreover have "unat (dif XOR ?x) + 1 = (unat dif + 1) - ?b * 2 ^ s" using d by simp
      ultimately show ?thesis by (simp only: s(4) dvd_diff_nat dvd_triv_right)
    qed
    have step: "refill_loop src (pos + 1) (dif XOR ?x) (cnt + 8) (shift - 8) = (pos', dif', cnt')"
      using "1.prems"(1) True s(2) by (simp add: refill_loop.simps [of src pos])
    have c: "shift - 8 = 40 - (cnt + 8)" "cnt + 8 = 8 * int (pos + 1) - int T - 15" using "1.prems"(3,4) by simp_all
    have "held src T H pos' dif' \<and> cnt' = 8 * int pos' - int T - 15 \<and> (pos' < length src \<longrightarrow> 41 \<le> cnt') \<and> unat dif' \<le> unat (dif XOR ?x)"
      by (rule "1.IH" [OF True, unfolded s(2), OF step h c dv])
    then show ?thesis using d(1) by linarith
  qed
qed

lemma refill_held:
  assumes "refillState src pos dif cnt tellOffs = (pos', dif', cnt', tellOffs')" "held src T H pos dif" "counts src T pos cnt tellOffs"
    "- 32768 \<le> cnt" "cnt < 0" "pos < length src \<longrightarrow> 2 ^ (T + 63 - 8 * pos) dvd unat dif + 1"
  shows "held src T H pos' dif' \<and> counts src T pos' cnt' tellOffs' \<and> 0 \<le> cnt' \<and> unat dif' \<le> unat dif"
proof -
  have slow: "refillStateSlow src pos dif cnt tellOffs = (pos', dif', cnt', tellOffs')"
    using assms(1,4,5) refillState_slow [of cnt src pos dif tellOffs] by simp
  obtain p d k where l: "refill_loop src pos dif cnt (40 - cnt) = (p, d, k)" by (metis prod_cases3)
  have r: "held src T H p d \<and> unat d \<le> unat dif \<and> (p < length src \<longrightarrow> k = 8 * int p - int T - 15 \<and> 41 \<le> k) \<and>
      8 * int p - k = 8 * int pos - cnt"
  proof (cases "pos < length src")
    case True
    then have "cnt = 8 * int pos - int T - 15" using assms(3) by (simp add: counts_def)
    then show ?thesis using refill_loop_held [OF l assms(2) refl _ mp [OF assms(6) True]] by linarith
  next
    case False
    then show ?thesis using l assms(2) by (simp add: refill_loop.simps [of src pos])
  qed
  have res: "(pos', dif', cnt', tellOffs') = (if p \<ge> length src then (p, d, ecLotsBits, tellOffs + (ecLotsBits - k)) else (p, d, k, tellOffs))"
    using slow l by (simp add: refillStateSlow_def)
  show ?thesis
  proof (cases "p \<ge> length src")
    case True
    then have "8 * int pos' - cnt' + tellOffs' = 8 * int pos - cnt + tellOffs" using res r by simp
    then have "(8 * int pos' - cnt' + tellOffs' - int T - 1) mod 65536 = 0" using assms(3) unfolding counts_def by simp
    then show ?thesis using res r True by (simp add: counts_def ecLotsBits_def)
  next
    case False
    have "8 * p \<le> T + 63" using r by (simp add: held_def)
    then have "k \<le> 48" using r False by simp
    moreover have "8 * int pos' - cnt' + tellOffs' = 8 * int pos - cnt + tellOffs" using res r False by simp
    then have "(8 * int pos' - cnt' + tellOffs' - int T - 1) mod 65536 = 0" using assms(3) unfolding counts_def by simp
    ultimately show ?thesis using res r False assms(3) by (simp add: counts_def ecLotsBits_def)
  qed
qed

section \<open>Renormalisation\<close>

lemma LeadingZeros16_range:
  assumes "0 < unat w"
  shows "LeadingZeros16 w \<le> 15" "2 ^ 15 \<le> unat w * 2 ^ LeadingZeros16 w" "unat w * 2 ^ LeadingZeros16 w < 2 ^ 16"
proof -
  have "w \<noteq> 0" using assms by (simp add: unat_gt_0)
  note b = bit_len_props [OF this]
  define n where "n = bit_len w"
  have n: "0 < n" "n \<le> 16" using b(1,2) by (simp_all add: n_def)
  have lo: "2 ^ (n - 1) \<le> unat w"
  proof -
    have "bit (unat w) (n - 1)" using b(3) unfolding n_def [symmetric] by (simp add: bit_unsigned_iff bit_imp_le_length)
    then have "0 < unat w div 2 ^ (n - 1)" unfolding bit_iff_odd by (rule odd_pos)
    then show ?thesis by (simp add: div_greater_zero_iff)
  qed
  have hi: "unat w < 2 ^ n" using b(4) unfolding n_def [symmetric] by (metis take_bit_nat_less_exp unsigned_take_bit_eq)
  have z: "LeadingZeros16 w = 16 - n" by (simp add: LeadingZeros16_def n_def)
  have e: "(2 :: nat) ^ (n - 1) * 2 ^ (16 - n) = 2 ^ 15" "(2 :: nat) ^ n * 2 ^ (16 - n) = 2 ^ 16"
    using n by (simp_all only: power_add [symmetric]) (simp_all del: power_numeral)
  show "LeadingZeros16 w \<le> 15" using n z by simp
  show "2 ^ 15 \<le> unat w * 2 ^ LeadingZeros16 w" unfolding z e(1) [symmetric] using lo by (rule mult_le_mono1)
  show "unat w * 2 ^ LeadingZeros16 w < 2 ^ 16" unfolding z e(2) [symmetric] using hi by simp
qed

lemma normShift16_range:
  assumes "0 < unat rng" "unat rng < 2 ^ 16"
  shows "normShift16 rng \<le> 15" "2 ^ 15 \<le> unat rng * 2 ^ normShift16 rng" "unat rng * 2 ^ normShift16 rng < 2 ^ 16"
    "unat (push_bit (normShift16 rng) rng) = unat rng * 2 ^ normShift16 rng"
proof -
  have u: "unat (ucast rng :: u16) = unat rng" using assms(2) by (simp add: unsigned_ucast_eq take_bit_nat_eq_self)
  note r = LeadingZeros16_range [of "ucast rng", unfolded u, OF assms(1)]
  show "normShift16 rng \<le> 15" "2 ^ 15 \<le> unat rng * 2 ^ normShift16 rng" and lt: "unat rng * 2 ^ normShift16 rng < 2 ^ 16"
    unfolding normShift16_def by (rule r)+
  show "unat (push_bit (normShift16 rng) rng) = unat rng * 2 ^ normShift16 rng" using lt by (intro unat_push_bit) simp
qed

text \<open>Renormalisation of a window whose interval has been replaced: it shifts the interval and reads bytes, nothing else.\<close>

lemma window_normalize_ok:
  assumes "window_ok src T H w" "0 < unat rng" "unat rng < 2 ^ 16" "unat dif + 1 \<le> unat rng * 2 ^ 48"
    "unat dif + 1 + be_val (take (w_pos w) src) * 2 ^ (T + 63 - 8 * w_pos w) = H' * 2 ^ 48"
  defines "s \<equiv> normShift16 rng"
  shows "window_ok src (T + s) (H' * 2 ^ s) (window_normalize src dif rng w) \<and>
    unat (w_rng (window_normalize src dif rng w)) = unat rng * 2 ^ s"
proof -
  note w = assms(1) [unfolded window_ok_def held_def counts_def]
  note r = normShift16_range [OF assms(2,3), folded s_def]
  define d where "d = push_bit s (dif + 1) - 1"
  have le: "(unat dif + 1) * 2 ^ s \<le> unat rng * 2 ^ s * 2 ^ 48" using mult_le_mono1 [OF assms(4), of "2 ^ s"] by (simp only: mult_ac)
  also have "\<dots> < 2 ^ 16 * 2 ^ 48" using r(3) by (intro mult_strict_right_mono) simp_all
  finally have lt: "(unat dif + 1) * 2 ^ s < 2 ^ 64" by simp
  have small: "unat dif + 1 < 2 ^ 64" using lt mult_le_mono2 [of 1 "2 ^ s" "unat dif + 1"] by simp
  have d1: "unat (dif + 1) = unat dif + 1" using small by (simp add: unat_word_ariths)
  have ps: "unat (push_bit s (dif + 1)) = (unat dif + 1) * 2 ^ s" using lt unat_push_bit [of "dif + 1" s] unfolding d1 by simp
  have d: "unat d + 1 = (unat dif + 1) * 2 ^ s"
  proof -
    have "0 < (unat dif + 1) * 2 ^ s" by (rule mult_pos_pos) simp_all
    then have "1 \<le> push_bit s (dif + 1)" unfolding word_le_nat_alt ps by (simp only: unat_1 One_nat_def Suc_le_eq)
    from unat_pred [OF this] show ?thesis using \<open>0 < (unat dif + 1) * 2 ^ s\<close> unfolding d_def ps by linarith
  qed
  have dle: "unat d + 1 \<le> unat rng * 2 ^ s * 2 ^ 48" unfolding d by (rule le)
  have h: "held src (T + s) (H' * 2 ^ s) (w_pos w) d"
  proof -
    have "T + s + 63 - 8 * w_pos w = (T + 63 - 8 * w_pos w) + s" using w by simp
    then have "unat d + 1 + be_val (take (w_pos w) src) * 2 ^ (T + s + 63 - 8 * w_pos w) =
        (unat dif + 1 + be_val (take (w_pos w) src) * 2 ^ (T + 63 - 8 * w_pos w)) * 2 ^ s"
      unfolding d by (simp add: power_add algebra_simps)
    then show ?thesis using w unfolding held_def assms(5) by (simp add: mult_ac)
  qed
  have c: "counts src (T + s) (w_pos w) (w_cnt w - int s) (w_tellOffs w)"
    using w unfolding counts_def by (auto simp: algebra_simps)
  have rng: "unat (push_bit s rng) = unat rng * 2 ^ s" by (rule r(4))
  show ?thesis
  proof (cases "w_cnt w - int s < 0")
    case False
    then show ?thesis
      using h c r(2,3) dle rng unfolding window_normalize_def Let_def s_def [symmetric] d_def [symmetric] by (simp add: window_ok_def)
  next
    case True
    obtain pos' dif' cnt' tellOffs' where f: "refillState src (w_pos w) d (w_cnt w - int s) (w_tellOffs w) = (pos', dif', cnt', tellOffs')"
      by (metis prod_cases4)
    have dv: "w_pos w < length src \<longrightarrow> 2 ^ (T + s + 63 - 8 * w_pos w) dvd unat d + 1"
    proof
      assume "w_pos w < length src"
      then have e: "T + s + 63 - 8 * w_pos w \<le> 48 + s" using w by linarith
      have "2 ^ (48 + s) dvd H' * 2 ^ s * 2 ^ 48" by (simp add: power_add mult_ac)
      then have "2 ^ (T + s + 63 - 8 * w_pos w) dvd H' * 2 ^ s * 2 ^ 48" using e by (meson dvd_trans le_imp_power_dvd)
      then show "2 ^ (T + s + 63 - 8 * w_pos w) dvd unat d + 1"
        using h unfolding held_def by (metis dvd_add_left_iff dvd_triv_right)
    qed
    have "- 32768 \<le> w_cnt w - int s" using w r(1) by linarith
    from refill_held [OF f h c this True dv]
    have "held src (T + s) (H' * 2 ^ s) pos' dif'" "counts src (T + s) pos' cnt' tellOffs'" "0 \<le> cnt'" "unat dif' + 1 \<le> unat rng * 2 ^ s * 2 ^ 48"
      using dle by simp_all
    then show ?thesis
      using True f r(2,3) rng unfolding window_normalize_def Let_def s_def [symmetric] d_def [symmetric] by (simp add: window_ok_def)
  qed
qed

section \<open>Readers\<close>

definition reader_at :: "nat \<Rightarrow> nat \<Rightarrow> Reader \<Rightarrow> bool" where
  "reader_at T H r \<longleftrightarrow> length (er_src r) < 2 ^ 32 \<and> window_ok (er_src r) T H (Reader_load r)"

definition reader_ok :: "Reader \<Rightarrow> bool" where
  "reader_ok r \<longleftrightarrow> (\<exists>T H. reader_at T H r)"

lemma sint_s16: "- 32768 \<le> k \<Longrightarrow> k < 32768 \<Longrightarrow> sint (word_of_int k :: s16) = k"
  by (simp add: sint_sbintrunc' signed_take_bit_int_eq_self)

lemma sint_s16_mod: "(sint (word_of_int k :: s16) - k) mod 65536 = 0"
proof -
  have "sint (word_of_int k :: s16) mod 2 ^ 16 = k mod 2 ^ 16"
    using take_bit_signed_take_bit [of 16 15 k] by (simp add: sint_sbintrunc' take_bit_eq_mod)
  then show ?thesis by (simp add: mod_eq_dvd_iff dvd_imp_mod_0)
qed

lemma load_store:
  assumes "window_ok src T H w" "length src < 2 ^ 32"
  shows "window_ok src T H (Reader_load (Reader_store w r)) \<and> w_rng (Reader_load (Reader_store w r)) = w_rng w \<and> w_dif (Reader_load (Reader_store w r)) = w_dif w"
proof -
  note w = assms(1) [unfolded window_ok_def held_def counts_def ecLotsBits_def]
  have pos: "unat (of_nat (w_pos w) :: u32) = w_pos w" using w assms(2) by (simp add: unat_of_nat)
  have rng: "(ucast (ucast (w_rng w) :: u16) :: u32) = w_rng w"
  proof -
    have "(ucast (ucast (w_rng w) :: u16) :: u32) = take_bit 16 (w_rng w)" by (rule bit_word_eqI) (auto simp: bit_simps)
    then show ?thesis using w take_bit_word_unat [of "w_rng w" 16] by simp
  qed
  have cnt: "sint (word_of_int (w_cnt w) :: s16) = w_cnt w" using w by (intro sint_s16) linarith+
  have "(8 * int (w_pos w) - w_cnt w + sint (word_of_int (w_tellOffs w) :: s16) - int T - 1) mod 65536 = 0"
  proof -
    have "65536 dvd (sint (word_of_int (w_tellOffs w) :: s16) - w_tellOffs w) + (8 * int (w_pos w) - w_cnt w + w_tellOffs w - int T - 1)"
      using w sint_s16_mod [of "w_tellOffs w"] by (intro dvd_add) (auto simp: mod_eq_0_iff_dvd)
    then show ?thesis by (simp add: mod_eq_0_iff_dvd algebra_simps)
  qed
  moreover have "Reader_load (Reader_store w r) = w\<lparr>w_tellOffs := sint (word_of_int (w_tellOffs w) :: s16)\<rparr>"
    unfolding Reader_load_def Reader_store_def by (simp add: pos rng cnt)
  ultimately show ?thesis using w unfolding window_ok_def held_def counts_def ecLotsBits_def by auto
qed

lemma Reader_normalize_window:
  assumes "0 \<le> sint (er_cnt r)"
  shows "Reader_normalize dif rng r = Reader_store (window_normalize (er_src r) dif rng (Reader_load r)) r"
proof -
  define s where "s = normShift16 rng"
  have "s \<le> 16" by (simp add: s_def normShift16_def LeadingZeros16_def)
  moreover have "sint (er_cnt r) < 2 ^ 15" using sint_lt [of "er_cnt r"] by simp
  ultimately have c: "sint (word_of_int (sint (er_cnt r) - int s) :: s16) = sint (er_cnt r) - int s" using assms by (intro sint_s16) simp_all
  then have c': "sint (er_cnt r - word_of_nat s) = sint (er_cnt r) - int s" by simp
  obtain p d k t where f: "refillState (er_src r) (unat (er_pos r)) (push_bit s (dif + 1) - 1) (sint (er_cnt r) - int s) (sint (er_tellOffs r)) = (p, d, k, t)"
    by (metis prod_cases4)
  show ?thesis
  proof (cases "sint (er_cnt r) - int s < 0")
    case True
    then show ?thesis
      using f c' unfolding Reader_normalize_def Reader_refill_def window_normalize_def Let_def s_def [symmetric]
      by (cases r) (simp add: Reader_load_def Reader_store_def)
  next
    case False
    then show ?thesis
      unfolding Reader_normalize_def window_normalize_def Let_def s_def [symmetric]
      by (cases r) (simp add: Reader_load_def Reader_store_def)
  qed
qed

lemma reader_at_cnt: "reader_at T H r \<Longrightarrow> 0 \<le> sint (er_cnt r)"
  by (simp add: reader_at_def window_ok_def Reader_load_def)

lemma reader_store_at:
  assumes "window_ok (er_src r) T H w" "length (er_src r) < 2 ^ 32"
  shows "reader_at T H (Reader_store w r)"
  using load_store [OF assms] assms(2) unfolding reader_at_def by (simp add: Reader_store_def)

lemma NewReader_at:
  assumes "length src < 2 ^ 32"
  shows "reader_at 0 0x8000 (NewReaderWithCDFUpdate src b)"
proof -
  define r0 where "r0 = \<lparr>er_src = src, er_dif = push_bit 63 1 - 1, er_pos = 0, er_rng = 0x8000, er_cnt = word_of_int (- 15),
       er_tellOffs = word_of_int readerInitTellOffs, er_allowCDFUpdate = b\<rparr>"
  obtain pos dif cnt tellOffs where f: "refillState src 0 (push_bit 63 1 - 1) (- 15) (- 14) = (pos, dif, cnt, tellOffs)" by (metis prod_cases4)
  have s: "sint (word_of_int (- 15) :: s16) = - 15" "sint (word_of_int (- 14) :: s16) = - 14" by (rule sint_s16; simp)+
  have d: "unat (push_bit 63 1 - 1 :: u64) + 1 = 2 ^ 63" by (simp add: push_bit_eq_mult)
  have "held src 0 0x8000 0 (push_bit 63 1 - 1)" "counts src 0 0 (- 15) (- 14)"
    using d unfolding held_def counts_def ecLotsBits_def by simp_all
  from refill_held [OF f this] d have "held src 0 0x8000 pos dif" "counts src 0 pos cnt tellOffs" "0 \<le> cnt" "unat dif + 1 \<le> 2 ^ 63" by auto
  then have "window_ok src 0 0x8000 \<lparr>w_pos = pos, w_dif = dif, w_rng = 0x8000, w_cnt = cnt, w_tellOffs = tellOffs\<rparr>"
    by (simp add: window_ok_def)
  from reader_store_at [of r0, OF _ ] this assms
  have "reader_at 0 0x8000 (Reader_store \<lparr>w_pos = pos, w_dif = dif, w_rng = 0x8000, w_cnt = cnt, w_tellOffs = tellOffs\<rparr> r0)" by (simp add: r0_def)
  moreover have "NewReaderWithCDFUpdate src b = Reader_store \<lparr>w_pos = pos, w_dif = dif, w_rng = 0x8000, w_cnt = cnt, w_tellOffs = tellOffs\<rparr> r0"
    using f s unfolding NewReaderWithCDFUpdate_def Reader_refill_def r0_def Reader_store_def readerInitTellOffs_def by simp
  ultimately show ?thesis by simp
qed

section \<open>Two halves\<close>

lemma take_split_ok:
  assumes "window_ok src T H w" "0 < unat split" "unat split < unat (w_rng w)" "take_split split (w_dif w) (w_rng w) = (b, dif, rng)"
  shows "(b = 0 \<or> b = 1) \<and> 0 < unat rng \<and> unat rng < 2 ^ 16 \<and> unat dif + 1 \<le> unat rng * 2 ^ 48 \<and>
    unat rng = (if b = 0 then unat (w_rng w) - unat split else unat split) \<and>
    unat dif + 1 + be_val (take (w_pos w) src) * 2 ^ (T + 63 - 8 * w_pos w) = (if b = 0 then H - unat split else H) * 2 ^ 48 \<and>
    (b = 0 \<longleftrightarrow> unat split * 2 ^ 48 \<le> unat (w_dif w))"
proof -
  note w = assms(1) [unfolded window_ok_def held_def]
  have lt: "unat split * 2 ^ 48 < 2 ^ 64" using w assms(3) by simp
  have u: "unat (push_bit 48 (ucast split) :: u64) = unat split * 2 ^ 48"
    using lt unat_push_bit [of "ucast split :: u64" 48] by (simp add: unat_ucast_up)
  show ?thesis
  proof (cases "push_bit 48 (ucast split) \<le> w_dif w")
    case True
    then have ge: "unat split * 2 ^ 48 \<le> unat (w_dif w)" unfolding word_le_nat_alt u .
    have r: "b = 0" "dif = w_dif w - push_bit 48 (ucast split)" "rng = w_rng w - split" using assms(4) True by (simp_all add: take_split_def)
    have d: "unat dif = unat (w_dif w) - unat split * 2 ^ 48" unfolding r(2) using True by (simp only: unat_sub u)
    have rg: "unat rng = unat (w_rng w) - unat split" unfolding r(3) using assms(3) by (intro unat_sub) (simp add: word_le_nat_alt)
    have "H * 2 ^ 48 - unat split * 2 ^ 48 = (H - unat split) * 2 ^ 48" by (rule diff_mult_distrib [symmetric])
    then show ?thesis using w ge assms(2,3) unfolding r(1) d rg by (auto simp: diff_mult_distrib)
  next
    case False
    then have less: "unat (w_dif w) < unat split * 2 ^ 48" unfolding word_le_nat_alt u by simp
    have r: "b = 1" "dif = w_dif w" "rng = split" using assms(4) False by (simp_all add: take_split_def)
    then show ?thesis using w less assms(2,3) by simp
  qed
qed

lemma half_split_range:
  assumes "2 ^ 15 \<le> unat rng" "unat rng < 2 ^ 16"
  shows "unat (half_split rng) = unat rng div 256 * 128 + 4" "0 < unat (half_split rng)" "unat (half_split rng) < unat rng"
proof -
  have d: "unat (drop_bit 8 rng) = unat rng div 256" unfolding unat_drop_bit_eq by (simp add: drop_bit_eq_div)
  have "unat rng div 256 * 2 ^ 7 < 2 ^ LENGTH(32)" using assms(2) by simp
  then have p: "unat (push_bit 7 (drop_bit 8 rng)) = unat rng div 256 * 128" using unat_push_bit [of "drop_bit 8 rng" 7] unfolding d by simp
  have le: "unat rng div 256 * 256 \<le> unat rng" by (rule div_times_less_eq_dividend)
  then show e: "unat (half_split rng) = unat rng div 256 * 128 + 4"
    unfolding half_split_def ecMinProb_def using p assms(2) by (subst unat_word_ariths) simp
  show "0 < unat (half_split rng)" "unat (half_split rng) < unat rng" unfolding e using le assms(1) by simp_all
qed

section \<open>Bits keep the window\<close>

lemma window_bit_ok:
  assumes "window_ok src T H w" "window_bit src w = (b, w')"
  defines "split \<equiv> unat (w_rng w) div 256 * 128 + 4"
  shows "(b = 0 \<or> b = 1) \<and> (b = 0 \<longleftrightarrow> split * 2 ^ 48 \<le> unat (w_dif w)) \<and>
    (\<exists>s. unat (w_rng w') = (if b = 0 then unat (w_rng w) - split else split) * 2 ^ s \<and>
       window_ok src (T + s) ((if b = 0 then H - split else H) * 2 ^ s) w')"
proof -
  have r: "2 ^ 15 \<le> unat (w_rng w)" "unat (w_rng w) < 2 ^ 16" using assms(1) by (simp_all add: window_ok_def)
  note h = half_split_range [OF r, folded split_def]
  obtain dif rng where t: "take_split (half_split (w_rng w)) (w_dif w) (w_rng w) = (b, dif, rng)" "w' = window_normalize src dif rng w"
    using assms(2) by (auto simp: window_bit_def Let_def split: prod.splits)
  note k = take_split_ok [OF assms(1) h(2,3) t(1), unfolded h(1)]
  from k have n: "0 < unat rng" "unat rng < 2 ^ 16" "unat dif + 1 \<le> unat rng * 2 ^ 48"
    "unat dif + 1 + be_val (take (w_pos w) src) * 2 ^ (T + 63 - 8 * w_pos w) = (if b = 0 then H - split else H) * 2 ^ 48" by blast+
  from k have rng: "unat rng = (if b = 0 then unat (w_rng w) - split else split)" "b = 0 \<or> b = 1" "b = 0 \<longleftrightarrow> split * 2 ^ 48 \<le> unat (w_dif w)" by blast+
  show ?thesis
    using rng(2,3) window_normalize_ok [OF assms(1) n] unfolding t(2) rng(1) [symmetric] by (intro conjI exI [of _ "normShift16 rng"]) simp_all
qed

lemma window_bits_ok:
  assumes "window_ok src T H w" "window_bits src n v w = (v', w')" "unat v < 2 ^ k" "k + n \<le> 32"
  shows "(\<exists>T H. window_ok src T H w') \<and> unat v' < 2 ^ (k + n)"
  using assms
proof (induction n arbitrary: T H w v k)
  case (Suc n)
  obtain b w1 where b: "window_bit src w = (b, w1)" by (cases "window_bit src w")
  note ok = window_bit_ok [OF Suc.prems(1) b]
  then obtain T1 H1 where w1: "window_ok src T1 H1 w1" by blast
  have v: "unat (push_bit 1 v OR ucast b) < 2 ^ Suc k"
  proof -
    have "push_bit 1 v OR ucast b = (push_bit 1 v + ucast b :: u32)" using ok by (intro push_bit_or_bit) blast
    moreover have "unat (push_bit 1 v) = unat v * 2"
    proof -
      have "unat v * 2 < 2 ^ Suc k" using Suc.prems(3) by simp
      also have "\<dots> \<le> 2 ^ 32" using Suc.prems(4) by (intro power_increasing) simp_all
      finally show ?thesis using unat_push_bit [of v 1] by simp
    qed
    moreover have "unat (ucast b :: u32) \<le> 1" using ok by auto
    ultimately have "unat (push_bit 1 v OR ucast b) \<le> unat v * 2 + 1" using unat_plus_if' [of "push_bit 1 v" "ucast b"] by (auto split: if_splits)
    then show ?thesis using Suc.prems(3) by simp
  qed
  have "window_bits src n (push_bit 1 v OR ucast b) w1 = (v', w')" using Suc.prems(2) b by simp
  from Suc.IH [OF w1 this v] Suc.prems(4) show ?case by simp
qed auto

lemma ReadBitTrusted_window:
  assumes "reader_at T H r"
  shows "ReadBitTrusted r = (case window_bit (er_src r) (Reader_load r) of (b, w) \<Rightarrow> (b, Reader_store w r))"
  using Reader_normalize_window [OF reader_at_cnt [OF assms]]
  by (simp add: ReadBitTrusted_def window_bit_def Let_def Reader_load_def split: prod.split)

lemma reader_step:
  assumes "reader_ok r" "\<And>T H. reader_at T H r \<Longrightarrow> \<exists>T' H'. window_ok (er_src r) T' H' w"
  shows "reader_ok (Reader_store w r)"
  using assms reader_store_at unfolding reader_ok_def reader_at_def by blast

lemma ReadBitTrusted_ok:
  assumes "reader_ok r" "ReadBitTrusted r = (b, r')"
  shows "reader_ok r' \<and> (b = 0 \<or> b = 1)"
proof -
  obtain T H where a: "reader_at T H r" using assms(1) by (auto simp: reader_ok_def)
  obtain b1 w where w: "window_bit (er_src r) (Reader_load r) = (b1, w)" by (cases "window_bit (er_src r) (Reader_load r)")
  have r: "b = b1" "r' = Reader_store w r" using assms(2) ReadBitTrusted_window [OF a] w by simp_all
  have "window_ok (er_src r) T H (Reader_load r)" using a by (simp add: reader_at_def)
  from window_bit_ok [OF this w] show ?thesis unfolding r by (intro conjI reader_step [OF assms(1)]) blast+
qed

lemma ReadBit_ok:
  assumes "reader_ok r"
  shows "\<exists>b r'. Reader_ReadBit r = (Inr b, r') \<and> reader_ok r' \<and> (b = 0 \<or> b = 1)"
  using ReadBitTrusted_ok [OF assms] by (cases "ReadBitTrusted r") (simp add: Reader_ReadBit_def)

lemma ReadBoolQ15_ok:
  assumes "reader_ok r" "0 < unat prob" "unat prob < 32768"
  shows "\<exists>b r'. ReadBoolQ15 prob r = (Inr b, r') \<and> reader_ok r' \<and> (b = 0 \<or> b = 1)"
proof -
  obtain T H where a: "reader_at T H r" using assms(1) by (auto simp: reader_ok_def)
  let ?w = "Reader_load r"
  have w: "window_ok (er_src r) T H ?w" using a by (simp add: reader_at_def)
  then have r: "2 ^ 15 \<le> unat (w_rng ?w)" "unat (w_rng ?w) < 2 ^ 16" by (simp_all add: window_ok_def)
  define split where "split = drop_bit 1 (drop_bit 8 (w_rng ?w) * ucast (drop_bit 6 prob)) + ecMinProb"
  have p: "unat (ucast (drop_bit 6 prob) :: u32) = unat prob div 64" by (simp add: unat_drop)
  have d: "unat (drop_bit 8 (w_rng ?w)) = unat (w_rng ?w) div 256" unfolding unat_drop_bit_eq by (simp add: drop_bit_eq_div)
  have le: "unat (w_rng ?w) div 256 * (unat prob div 64) \<le> unat (w_rng ?w) div 256 * 511" using assms(3) by (intro mult_le_mono2) linarith
  moreover have "unat (w_rng ?w) div 256 * 511 < 2 ^ 30" using r(2) by simp
  ultimately have small: "unat (w_rng ?w) div 256 * (unat prob div 64) < 2 ^ 30" by linarith
  then have m: "unat (drop_bit 8 (w_rng ?w) * ucast (drop_bit 6 prob)) = unat (w_rng ?w) div 256 * (unat prob div 64)"
    unfolding unat_word_ariths p d by (intro mod_less) simp
  have s: "unat split = unat (w_rng ?w) div 256 * (unat prob div 64) div 2 + 4"
  proof -
    have "unat (drop_bit 1 (drop_bit 8 (w_rng ?w) * ucast (drop_bit 6 prob))) = unat (w_rng ?w) div 256 * (unat prob div 64) div 2"
      unfolding unat_drop m by simp
    then show ?thesis using small unfolding split_def ecMinProb_def by (subst unat_word_ariths) simp
  qed
  have sl: "0 < unat split" "unat split < unat (w_rng ?w)"
  proof -
    show "0 < unat split" unfolding s by simp
    have "unat (w_rng ?w) div 256 * (unat prob div 64) div 2 \<le> unat (w_rng ?w) div 256 * 511 div 2" by (rule div_le_mono [OF le])
    moreover have "128 \<le> unat (w_rng ?w) div 256" using div_le_mono [OF r(1), of 256] by simp
    then have "unat (w_rng ?w) div 256 * 511 div 2 + 4 < unat (w_rng ?w)"
      using div_times_less_eq_dividend [of "unat (w_rng ?w)" 256] div_times_less_eq_dividend [of "unat (w_rng ?w) div 256 * 511" 2] by linarith
    ultimately show "unat split < unat (w_rng ?w)" unfolding s by linarith
  qed
  obtain b dif rng where t: "take_split split (w_dif ?w) (w_rng ?w) = (b, dif, rng)" by (metis prod_cases3)
  note k = take_split_ok [OF w sl t]
  from k have n: "0 < unat rng" "unat rng < 2 ^ 16" "unat dif + 1 \<le> unat rng * 2 ^ 48"
    "unat dif + 1 + be_val (take (w_pos ?w) (er_src r)) * 2 ^ (T + 63 - 8 * w_pos ?w) = (if b = 0 then H - unat split else H) * 2 ^ 48" by blast+
  have "prob \<noteq> 0" "\<not> 0x8000 \<le> prob" using assms(2,3) by (auto simp: word_le_nat_alt)
  then have "ReadBoolQ15 prob r = (Inr b, Reader_store (window_normalize (er_src r) dif rng ?w) r)"
    using t unfolding ReadBoolQ15_def split_def Reader_normalize_window [OF reader_at_cnt [OF a], symmetric]
    by (simp add: Let_def Reader_load_def)
  then show ?thesis using window_normalize_ok [OF w n] k reader_step [OF assms(1)] by blast
qed

lemma ReadBits_ok:
  assumes "reader_ok r" "n \<le> 32"
  shows "\<exists>v r'. Reader_ReadBits n r = (Inr v, r') \<and> reader_ok r' \<and> unat v < 2 ^ unat n"
proof (cases "n = 0")
  case True
  then show ?thesis using assms(1) by (simp add: Reader_ReadBits_def)
next
  case False
  obtain T H where a: "reader_at T H r" using assms(1) by (auto simp: reader_ok_def)
  obtain v w where w: "window_bits (er_src r) (unat n) 0 (Reader_load r) = (v, w)" by (cases "window_bits (er_src r) (unat n) 0 (Reader_load r)")
  have "window_ok (er_src r) T H (Reader_load r)" using a by (simp add: reader_at_def)
  from window_bits_ok [OF this w, of 0] assms(2) have k: "\<exists>T H. window_ok (er_src r) T H w" "unat v < 2 ^ unat n" by (simp_all add: word_le_nat_alt)
  have "Reader_ReadBits n r = (Inr v, Reader_store w r)" using assms(2) False w by (simp add: Reader_ReadBits_def ReadBitsTrusted_def not_less)
  then show ?thesis using k reader_step [OF assms(1)] by blast
qed

section \<open>Codes made of bits\<close>

lemma bit_len_range:
  fixes n :: "'a::len word"
  assumes "n \<noteq> 0"
  shows "2 ^ (bit_len n - 1) \<le> unat n" "unat n < 2 ^ bit_len n"
proof -
  note b = bit_len_props [OF assms]
  have "bit (unat n) (bit_len n - 1)" using b(3) by (simp add: bit_unsigned_iff bit_imp_le_length)
  then have "0 < unat n div 2 ^ (bit_len n - 1)" unfolding bit_iff_odd by (rule odd_pos)
  then show "2 ^ (bit_len n - 1) \<le> unat n" by (simp add: div_greater_zero_iff)
  show "unat n < 2 ^ bit_len n" using b(4) by (metis take_bit_nat_less_exp unsigned_take_bit_eq)
qed

lemma ReadUniform_ok:
  assumes "reader_ok r" "n \<noteq> 0"
  shows "\<exists>v r'. ReadUniform n r = (Inr v, r') \<and> reader_ok r' \<and> unat v < unat n"
proof (cases "n = 1")
  case True
  then show ?thesis using assms by (simp add: ReadUniform_def)
next
  case False
  define W where "W = bit_len n"
  have len: "0 < W" "W \<le> 32" using bit_len_props(1,2) [OF assms(2)] by (simp_all add: W_def)
  have n: "2 ^ (W - 1) \<le> unat n" "unat n < 2 ^ W" using bit_len_range [OF assms(2)] by (simp_all add: W_def)
  have two: "(2 :: nat) ^ W = 2 * 2 ^ (W - 1) \<and> (2 :: nat) ^ W \<le> 2 ^ 32" using len by (simp add: power_eq_if power_increasing)
  have wd: "unat (of_nat W :: u8) = W" "unat (of_nat W - 1 :: u8) = W - 1"
    using len unat_pred [of "of_nat W :: u8"] by (simp_all add: unat_of_nat word_le_nat_alt)
  define m where "m = (push_bit W 1 - ucast n :: u64)"
  have m: "unat m = 2 ^ W - unat n"
  proof -
    have p: "unat (push_bit W 1 :: u64) = 2 ^ W" using two unat_push_bit [of "1 :: u64" W] by (simp del: push_bit_of_1)
    have "ucast n \<le> (push_bit W 1 :: u64)" unfolding word_le_nat_alt p using n(2) by (simp add: unat_ucast_up)
    from unat_sub [OF this] show ?thesis unfolding m_def p by (simp add: unat_ucast_up)
  qed
  obtain v r1 where v: "Reader_ReadBits (of_nat W - 1) r = (Inr v, r1)" "reader_ok r1" "unat v < 2 ^ (W - 1)"
  proof -
    have "(of_nat W - 1 :: u8) \<le> 32" unfolding word_le_nat_alt wd(2) using len by simp
    from ReadBits_ok [OF assms(1) this] show ?thesis using that unfolding wd(2) by blast
  qed
  obtain b r2 where b: "Reader_ReadBit r1 = (Inr b, r2)" "reader_ok r2" "b = 0 \<or> b = 1" using ReadBit_ok [OF v(2)] by blast
  have u: "ReadUniform n r = (if ucast v < m then (Inr v, r1) else (Inr (ucast (push_bit 1 (ucast v) - m + ucast b)), r2))"
    using assms(2) False v(1) b(1) wd(1) unfolding ReadUniform_def W_def [symmetric] m_def by (simp add: Let_def)
  show ?thesis
  proof (cases "ucast v < m")
    case True
    then have "unat v < unat m" by (simp add: word_less_nat_alt unat_ucast_up)
    then show ?thesis using True u v(2) m n two by auto
  next
    case False
    then have ge: "unat m \<le> unat v" by (simp add: word_less_nat_alt unat_ucast_up not_less)
    have v64: "unat v < 2 ^ 31" using v(3) two by simp
    have p: "unat (push_bit 1 (ucast v) :: u64) = 2 * unat v" using v64 unat_push_bit [of "ucast v :: u64" 1] by (simp add: unat_ucast_up)
    have "m \<le> push_bit 1 (ucast v)" using ge unfolding word_le_nat_alt p by simp
    from unat_sub [OF this] have s: "unat (push_bit 1 (ucast v) - m) = 2 * unat v - unat m" unfolding p .
    have b1: "unat (ucast b :: u64) \<le> 1" "unat b \<le> 1" using b(3) by auto
    have sum: "unat (push_bit 1 (ucast v) - m + ucast b :: u64) = 2 * unat v - unat m + unat b"
      using s v64 b(3) by (subst unat_word_ariths) auto
    have lt: "2 * unat v - unat m + unat b < unat n" using v(3) two ge m n b1(2) by linarith
    have "unat (ucast (push_bit 1 (ucast v) - m + ucast b :: u64) :: u32) = 2 * unat v - unat m + unat b"
      using sum lt n two by (simp add: unsigned_ucast_eq take_bit_nat_eq_self)
    then show ?thesis using False u b(2) lt by simp
  qed
qed

lemma ReadSubexp_loop_ok:
  assumes "reader_ok r" "unat mk < unat n" "i = 0 \<or> unat k + i - 1 \<le> 31" "unat k \<le> 31"
  shows "\<exists>v r'. ReadSubexp_loop n k i mk r = (Inr v, r') \<and> reader_ok r' \<and> unat v < unat n"
  using assms
proof (induction n k i mk r rule: ReadSubexp_loop.induct)
  case (1 n k i mk r)
  define b where "b = (if i > 0 then of_nat (unat k + i - 1) else k :: u8)"
  define a where "a = (push_bit (unat b) 1 :: u32)"
  have b: "unat b = (if i > 0 then unat k + i - 1 else unat k)" "unat b \<le> 31" 
    using "1.prems"(3,4) unat_of_nat [of "unat k + i - 1", where 'a = 8] by (auto simp: b_def simp del: of_nat_diff of_nat_add)
  have a: "unat a = 2 ^ unat b" unfolding a_def using b(2) power_strict_increasing [of "unat b" 32 "2 :: nat"] unat_push_bit [of "1 :: u32" "unat b"] by simp
  have a31: "unat a \<le> 2 ^ 31" unfolding a using b(2) by (intro power_increasing) simp_all
  have n32: "unat n < 2 ^ 32" using unsigned_less [of n, where 'a = nat] by simp
  have ng: "\<not> (i > 0 \<and> unat k + i - 1 > 31)" using "1.prems"(3) by auto
  have cond: "(ucast n :: u64) \<le> ucast mk + 3 * ucast a \<longleftrightarrow> unat n \<le> unat mk + 3 * unat a"
  proof -
    have "unat (ucast mk + 3 * ucast a :: u64) = unat mk + 3 * unat a"
      using a31 n32 "1.prems"(2) by (simp add: unat_word_ariths unat_ucast_up)
    then show ?thesis by (simp add: word_le_nat_alt unat_ucast_up)
  qed
  have step: "ReadSubexp_loop n k i mk r =
      (if unat n \<le> unat mk + 3 * unat a
       then (case ReadUniform (n - mk) r of (Inl err, r) \<Rightarrow> (Inl err, r) | (Inr v, r) \<Rightarrow> (Inr (v + mk), r))
       else (case Reader_ReadBit r of (Inl err, r) \<Rightarrow> (Inl err, r)
          | (Inr again, r) \<Rightarrow> if again = 0
              then (case Reader_ReadBits b r of (Inl err, r) \<Rightarrow> (Inl err, r) | (Inr v, r) \<Rightarrow> (Inr (v + mk), r))
              else ReadSubexp_loop n k (i + 1) (mk + a) r))"
    using ng by (subst ReadSubexp_loop.simps) (simp only: Let_def b_def [symmetric] a_def [symmetric] cond if_False)
  have add: "unat (x + y) = unat x + unat y" if "unat x + unat y < unat n" for x y :: u32 using that n32 by (simp add: unat_word_ariths)
  show ?case
  proof (cases "unat n \<le> unat mk + 3 * unat a")
    case True
    have d: "unat (n - mk) = unat n - unat mk" using "1.prems"(2) by (intro unat_sub) (simp add: word_le_nat_alt)
    then have "n - mk \<noteq> 0" using "1.prems"(2) by (metis unat_0 zero_less_diff less_irrefl)
    from ReadUniform_ok [OF "1.prems"(1) this] obtain v r1 where v: "ReadUniform (n - mk) r = (Inr v, r1)" "reader_ok r1" "unat v < unat n - unat mk"
      using d by auto
    then show ?thesis using True step add [of v mk] by simp
  next
    case False
    obtain c r1 where c: "Reader_ReadBit r = (Inr c, r1)" "reader_ok r1" using ReadBit_ok [OF "1.prems"(1)] by blast
    show ?thesis
    proof (cases "c = 0")
      case True
      obtain v r2 where v: "Reader_ReadBits b r1 = (Inr v, r2)" "reader_ok r2" "unat v < 2 ^ unat b"
        using ReadBits_ok [OF c(2), of b] b(2) by (auto simp: word_le_nat_alt)
      then show ?thesis using False True step c(1) add [of v mk] a by simp
    next
      case again: False
      have mk: "unat (mk + a) = unat mk + unat a" using False by (intro add) simp
      have "unat b < 31"
      proof (rule ccontr)
        assume "\<not> unat b < 31"
        then have "unat a = 2 ^ 31" using a b(2) by (metis le_neq_implies_less)
        then show False using False n32 by simp
      qed
      then have "i + 1 = 0 \<or> unat k + (i + 1) - 1 \<le> 31" using b(1) by (cases "i = 0") simp_all
      moreover have "\<not> (ucast n :: u64) \<le> ucast mk + 3 * ucast a" using False cond by blast
      ultimately have "\<exists>v r'. ReadSubexp_loop n k (i + 1) (mk + a) r1 = (Inr v, r') \<and> reader_ok r' \<and> unat v < unat n"
        using "1.IH" [OF ng b_def a_def _ c(1) [symmetric] refl again c(2)] mk False "1.prems"(4) by simp
      then show ?thesis using False again step c(1) by simp
    qed
  qed
qed

lemma ReadSubexp_ok:
  assumes "reader_ok r" "n \<noteq> 0" "k \<le> 31"
  shows "\<exists>v r'. ReadSubexp n k r = (Inr v, r') \<and> reader_ok r' \<and> unat v < unat n"
  using ReadSubexp_loop_ok [OF assms(1), of 0 n 0 k] assms by (simp add: ReadSubexp_def word_le_nat_alt not_less unat_gt_0)

lemma invRecenterNonNeg_val:
  assumes "unat ref < 2 ^ 31"
  shows "unat (invRecenterNonNeg ref v) =
    (if unat v > 2 * unat ref then unat v else if even (unat v) then unat v div 2 + unat ref else unat ref - (unat v + 1) div 2)"
proof -
  have c: "(ucast v :: u64) > ucast ref * 2 \<longleftrightarrow> unat v > 2 * unat ref"
    using assms by (simp add: word_less_nat_alt unat_word_ariths unat_ucast_up mult.commute)
  have "odd (unat v) = odd v" using bit_unsigned_iff [of v 0, where 'a = nat] by (simp add: bit_0)
  then have e: "v AND 1 = 0 \<longleftrightarrow> even (unat v)" by (simp add: and_one_eq mod_2_eq_odd)
  show ?thesis
  proof (cases "unat v > 2 * unat ref")
    case True
    then show ?thesis using c by (simp add: invRecenterNonNeg_def)
  next
    case False
    have a: "unat (drop_bit 1 v + ref) = unat v div 2 + unat ref" using False assms by (simp add: unat_word_ariths unat_drop)
    have v1: "unat (v + 1) = unat v + 1" using False assms by (simp add: unat_word_ariths)
    have "unat (ref - drop_bit 1 (v + 1)) = unat ref - (unat v + 1) div 2" if "odd (unat v)"
    proof -
      have "(unat v + 1) div 2 \<le> unat ref" using False that by presburger
      then have "drop_bit 1 (v + 1) \<le> ref" unfolding word_le_nat_alt unat_drop v1 by simp
      from unat_sub [OF this] show ?thesis unfolding unat_drop v1 by simp
    qed
    then show ?thesis using False a c e by (simp add: invRecenterNonNeg_def)
  qed
qed

lemma recenter_finite_less:
  assumes "unat ref < unat n" "unat v < unat n"
  shows "unat (invRecenterFiniteNonNeg n ref v) < unat n"
proof -
  have n32: "unat n < 2 ^ 32" using unsigned_less [of n, where 'a = nat] by simp
  have c: "(ucast ref :: u64) * 2 \<le> ucast n \<longleftrightarrow> 2 * unat ref \<le> unat n"
    using assms(1) n32 by (simp add: word_le_nat_alt unat_word_ariths unat_ucast_up mult.commute)
  show ?thesis
  proof (cases "2 * unat ref \<le> unat n")
    case True
    have "unat ref < 2 ^ 31" using True n32 by simp
    from invRecenterNonNeg_val [OF this] show ?thesis using True c assms by (auto simp: invRecenterFiniteNonNeg_def)
  next
    case False
    have one: "1 \<le> n" using assms(1) by (simp add: word_le_nat_alt)
    have n1: "unat (n - 1) = unat n - 1" by (rule unat_pred [OF one])
    have "ref \<le> n - 1" using assms(1) unfolding word_le_nat_alt n1 by simp
    from unat_sub [OF this] have r: "unat (n - 1 - ref) = unat n - 1 - unat ref" unfolding n1 .
    then have small: "unat (n - 1 - ref) < 2 ^ 31" "2 * unat (n - 1 - ref) \<le> unat n - 1" using False n32 by simp_all
    have le: "unat (invRecenterNonNeg (n - 1 - ref) v) \<le> unat n - 1"
      using invRecenterNonNeg_val [OF small(1), of v] small(2) assms(2) by (auto split: if_splits)
    then have "unat (n - 1 - invRecenterNonNeg (n - 1 - ref) v) = unat n - 1 - unat (invRecenterNonNeg (n - 1 - ref) v)"
      using unat_sub [of "invRecenterNonNeg (n - 1 - ref) v" "n - 1"] unfolding word_le_nat_alt n1 by simp
    then show ?thesis using False c assms(1) by (simp add: invRecenterFiniteNonNeg_def)
  qed
qed

lemma ReadRefSubexp_ok:
  assumes "reader_ok r" "ref < n" "k \<le> 31"
  shows "\<exists>v r'. ReadRefSubexp n k ref r = (Inr v, r') \<and> reader_ok r' \<and> unat v < unat n"
proof -
  have "n \<noteq> 0" using assms(2) by auto
  from ReadSubexp_ok [OF assms(1) this assms(3)] obtain v r1 where v: "ReadSubexp n k r = (Inr v, r1)" "reader_ok r1" "unat v < unat n" by blast
  then show ?thesis
    using assms(2) \<open>n \<noteq> 0\<close> recenter_finite_less [of ref n v] by (simp add: ReadRefSubexp_def not_le word_less_nat_alt)
qed

lemma ReadSignedRefSubexp_ok:
  assumes "reader_ok r" "n \<noteq> 0" "n \<le> 0x80000000" "\<bar>ref\<bar> < uint n" "k \<le> 31"
  shows "\<exists>v r'. ReadSignedRefSubexp n k ref r = (Inr v, r') \<and> reader_ok r' \<and> \<bar>v\<bar> < uint n"
proof -
  define N where "N = push_bit 1 n - 1"
  have un: "0 < unat n" "unat n \<le> 2147483648" using assms(2,3) by (simp_all add: word_le_nat_alt unat_gt_0)
  have e: "uint n = int (unat n)" by simp
  have ui: "0 < uint n" "uint n \<le> 2147483648" using un unfolding e by linarith+
  have N: "uint N = 2 * uint n - 1"
  proof (cases "unat n = 2147483648")
    case True
    then have "n = 0x80000000" by (simp add: word_unat_eq_iff)
    then show ?thesis by (simp add: N_def)
  next
    case False
    then have "unat (push_bit 1 n) = 2 * unat n" using un(2) unat_push_bit [of n 1] by simp
    moreover from this have "1 \<le> push_bit 1 n" using un(1) by (simp add: word_le_nat_alt)
    ultimately have "unat N = 2 * unat n - 1" unfolding N_def by (simp add: unat_pred)
    then have "int (unat N) = 2 * int (unat n) - 1" using un(1) by linarith
    then show ?thesis by simp
  qed
  let ?s = "ref + uint n - 1"
  have s: "0 \<le> ?s" "?s < uint N" using assms(4) N by auto
  have w: "uint (word_of_int ?s :: u32) = ?s"
    using s unsigned_less [of N, where 'a = int] by (simp add: uint_word_of_int mod_pos_pos_trivial del: of_int_add of_int_diff)
  then have "word_of_int ?s < N" using s by (simp add: word_less_def del: of_int_add of_int_diff)
  from ReadRefSubexp_ok [OF assms(1) this assms(5)]
  obtain v r1 where v: "ReadRefSubexp N k (word_of_int ?s) r = (Inr v, r1)" "reader_ok r1" "unat v < unat N" by blast
  have "uint v < uint N" using v(3) by (simp add: word_less_def [symmetric] word_less_nat_alt)
  then have b: "\<bar>uint v - uint n + 1\<bar> < uint n" using N unsigned_greater_eq [of v, where 'a = int] ui(1) by linarith
  then have i: "signed_take_bit 31 (uint v - uint n + 1) = uint v - uint n + 1" using ui(2) by (intro signed_take_bit_int_eq_self) auto
  have g: "\<not> (n = 0 \<or> n > 0x80000000)" using assms(2,3) by auto
  show ?thesis
    using v(1,2) b s g unfolding ReadSignedRefSubexp_def Let_def N_def [symmetric]
    by (simp add: i del: of_int_add of_int_diff)
qed

section \<open>Cursors\<close>

text \<open>A cursor is a reader in another record, so a step on its window is the step of the reader.\<close>

lemma Cursor_load_Reader: "Cursor_load (Reader_Cursor r) = Reader_load r"
  by (simp add: Cursor_load_def Reader_load_def Reader_Cursor_def)

lemma Cursor_store_Reader: "Cursor_store w (Reader_Cursor r) = Reader_Cursor (Reader_store w r)"
  by (simp add: Cursor_store_def Reader_store_def Reader_Cursor_def)

lemma Cursor_CommitTo_Reader [simp]: "Cursor_CommitTo (Reader_Cursor r') r = r'"
  by (cases r') (simp add: Cursor_CommitTo_def Reader_Cursor_def)

lemma Reader_Cursor_src [simp]: "cu_src (Reader_Cursor r) = er_src r" "cu_allowCDFUpdate (Reader_Cursor r) = er_allowCDFUpdate r"
  by (simp_all add: Reader_Cursor_def)

lemma Cursor_ReadBitTrusted_Reader:
  assumes "reader_ok r"
  shows "Cursor_ReadBitTrusted (Reader_Cursor r) = (case ReadBitTrusted r of (b, r') \<Rightarrow> (b, Reader_Cursor r'))"
  using assms ReadBitTrusted_window
  by (auto simp: reader_ok_def Cursor_ReadBitTrusted_def Let_def Cursor_load_Reader Cursor_store_Reader split: prod.split)

lemma Cursor_ReadBitsTrusted_Reader:
  "Cursor_ReadBitsTrusted n (Reader_Cursor r) = (case ReadBitsTrusted n r of (v, r') \<Rightarrow> (v, Reader_Cursor r'))"
  by (auto simp: Cursor_ReadBitsTrusted_def ReadBitsTrusted_def Let_def Cursor_load_Reader Cursor_store_Reader split: prod.split)

lemma golomb_prefix_ok:
  assumes "window_ok src T H w" "unat len < unat maxLength" "unat maxLength < 255"
  shows "\<exists>ok len' w'. golomb_prefix src maxLength len w = Some (ok, len', w') \<and> (\<exists>T H. window_ok src T H w') \<and>
    (ok \<longrightarrow> 0 < unat len' \<and> unat len' \<le> unat maxLength)"
  using assms
proof (induction "unat maxLength - unat len" arbitrary: len w T H rule: less_induct)
  case less
  obtain b w1 where b: "window_bit src w = (b, w1)" by (cases "window_bit src w")
  obtain T1 H1 where w1: "window_ok src T1 H1 w1" using window_bit_ok [OF less.prems(1) b] by blast
  have l: "unat (len + 1) = unat len + 1" using less.prems(2,3) by (simp add: unat_word_ariths)
  then have le: "\<not> len + 1 > maxLength" using less.prems(2) by (simp add: word_less_nat_alt)
  have step: "golomb_prefix src maxLength len w = (if b \<noteq> 0 then Some (True, len + 1, w1) else golomb_prefix src maxLength (len + 1) w1)"
    using b le by (subst golomb_prefix.simps) (simp add: Let_def)
  show ?case
  proof (cases "b \<noteq> 0")
    case True
    then show ?thesis using step w1 l less.prems(2) by auto
  next
    case b0: False
    show ?thesis
    proof (cases "unat (len + 1) < unat maxLength")
      case True
      then show ?thesis using step b0 less.hyps [OF _ w1 True less.prems(3)] l less.prems(2) by simp
    next
      case False
      obtain b2 w2 where b2: "window_bit src w1 = (b2, w2)" by (cases "window_bit src w1")
      obtain T2 H2 where w2: "window_ok src T2 H2 w2" using window_bit_ok [OF w1 b2] by blast
      have "unat (len + 1 + 1) = unat len + 2" using l less.prems by (simp add: unat_word_ariths)
      then have "len + 1 + 1 > maxLength" using False l by (simp add: word_less_nat_alt)
      then have "golomb_prefix src maxLength (len + 1) w1 = Some (False, len + 1 + 1, w2)"
        using b2 by (subst golomb_prefix.simps) (simp add: Let_def)
      then show ?thesis using step b0 w2 by auto
    qed
  qed
qed

lemma golomb_prefix_zero:
  assumes "window_ok src T H w"
  shows "\<exists>len' w'. golomb_prefix src 0 0 w = Some (False, len', w') \<and> (\<exists>T H. window_ok src T H w')"
proof -
  obtain b w1 where b: "window_bit src w = (b, w1)" by (cases "window_bit src w")
  show ?thesis using window_bit_ok [OF assms b] b by (subst golomb_prefix.simps) auto
qed

lemma or_top_bit:
  assumes "unat v < 2 ^ k" "k < 32"
  shows "unat (push_bit k (1 :: u32) OR v) = 2 ^ k + unat v"
proof -
  have p: "unat (push_bit k (1 :: u32)) = 2 ^ k" using assms(2) power_strict_increasing [of k 32 "2 :: nat"] unat_push_bit [of "1 :: u32" k] by simp
  have t: "take_bit k v = v" using assms(1) by (rule take_bit_word_unat)
  have nb: "\<not> bit v k" using t bit_take_bit_iff [of k v k] by simp
  have "push_bit k (1 :: u32) AND v = 0" using nb by (intro bit_word_eqI) (auto simp: bit_simps bit_1_iff)
  from disjunctive_add_eq_or [OF this] have "push_bit k (1 :: u32) OR v = push_bit k 1 + v" by simp
  moreover have "2 ^ k + unat v < 2 ^ 32"
    using assms power_increasing [of "Suc k" 32 "2 :: nat"] by simp
  ultimately show ?thesis by (simp only: unat_word_ariths p) simp
qed

section \<open>Properties\<close>

text \<open>
  C23: the fast refill is the byte loop: with eight bytes left, one big-endian load gives the same position, window, count and tell offset as
  adding the bytes one by one, for every count an \<open>int32\<close> can hold.
\<close>

theorem refill_fast_path:
  assumes "\<bar>cnt\<bar> < 2 ^ 31"
  shows "refillState src pos dif cnt tellOffs = refillStateSlow src pos dif cnt tellOffs"
  using refillState_slow [OF assms] .

theorem refill_fast_path_witness:
  "refillState [1, 2, 3, 4, 5, 6, 7, 8, 9] 0 0xffffffffffffff (- 3) (- 14) = refillStateSlow [1, 2, 3, 4, 5, 6, 7, 8, 9] 0 0xffffffffffffff (- 3) (- 14) \<and>
    fst (refillState [1, 2, 3, 4, 5, 6, 7, 8, 9] 0 0xffffffffffffff (- 3) (- 14)) = 6"
proof -
  have "fst (refillState [1, 2, 3, 4, 5, 6, 7, 8, 9] 0 0xffffffffffffff (- 3) (- 14)) = 6" by code_simp
  then show ?thesis using refill_fast_path [of "- 3" "[1, 2, 3, 4, 5, 6, 7, 8, 9]" 0 "0xffffffffffffff" "- 14"] by simp
qed

end
