(* ===== verification/Entropy_Symbols.thy ===== *)
theory Entropy_Symbols
  imports Entropy_Reader
begin

text \<open>
  Symbols (\<open>internal/av1/entropy/reader.go\<close>, \<open>symbol_select.go\<close>): the generic search over a probability table, and the forms of it
  that the code specialises by the number of symbols and by reader or cursor. A table that is read through a pointer to its array is the list
  of 17 entries, and the functions return it adapted; \<open>symbol16SIMD\<close> is false, as in every build but the arm64 one with the
  SIMD experiment.
\<close>

section \<open>Search\<close>

definition Reader_take :: "u32 \<Rightarrow> u32 \<Rightarrow> Reader \<Rightarrow> Reader" where
  "Reader_take lower upper r = Reader_normalize (er_dif r - push_bit 48 (ucast lower)) (upper - lower) r"

definition window_take :: "bytes \<Rightarrow> u32 \<Rightarrow> u32 \<Rightarrow> Window \<Rightarrow> Window" where
  "window_take src lower upper w = window_normalize src (w_dif w - push_bit 48 (ucast lower)) (upper - lower) w"

definition cdfBound :: "u32 \<Rightarrow> u32 \<Rightarrow> u32 \<Rightarrow> u32" where
  "cdfBound rngHi c minProb = drop_bit 1 (rngHi * drop_bit 6 c) + minProb"

function symbol_search :: "u16 list \<Rightarrow> u32 \<Rightarrow> u32 \<Rightarrow> nat \<Rightarrow> nat \<Rightarrow> u32 \<Rightarrow> u32 \<Rightarrow> u32 \<Rightarrow> nat \<times> u32 \<times> u32" where
  "symbol_search cdf rngHi coded final symbol lower upper minTerm =
     (if symbol < final
      then let lower = drop_bit 1 (rngHi * ucast (drop_bit 6 (cdf ! symbol))) + minTerm
           in if coded \<ge> lower then (symbol, lower, upper)
              else symbol_search cdf rngHi coded final (symbol + 1) lower lower (minTerm - ecMinProb)
      else (symbol, lower, upper))"
  by pat_completeness auto
termination by (relation "measure (\<lambda>(cdf, rngHi, coded, final, symbol, lower, upper, minTerm). final - symbol)") auto

declare symbol_search.simps [simp del]

text \<open>The search with what surrounds it in each reader: the symbol and its interval.\<close>

definition find_symbol :: "u16 list \<Rightarrow> nat \<Rightarrow> u32 \<Rightarrow> u64 \<Rightarrow> nat \<times> u32 \<times> u32" where
  "find_symbol cdf final rangeValue dif =
     (let rngHi = drop_bit 8 rangeValue;
          coded = ucast (drop_bit 48 dif) :: u32;
          (symbol, lower, upper) = symbol_search cdf rngHi coded final 0 0 rangeValue (ecMinProb * of_nat final)
      in (symbol, if symbol = final then 0 else lower, upper))"

definition readSymbolTrusted :: "u16 list \<Rightarrow> nat \<Rightarrow> Reader \<Rightarrow> (go_err + nat) \<times> u16 list \<times> Reader" where
  "readSymbolTrusted cdf symbols r =
     (let window = take (symbols + 1) cdf;
          last = length window - 2;
          (symbol, lower, upper) = find_symbol window last (ucast (er_rng r)) (er_dif r)
      in if lower \<ge> upper then (Inl EntropyErrInvalidCDF, cdf, r)
         else let r = Reader_take lower upper r
              in (Inr symbol, (if er_allowCDFUpdate r then updateCDFWindow window symbol @ drop (symbols + 1) cdf else cdf), r))"

definition ReadSymbol :: "u16 list \<Rightarrow> int \<Rightarrow> Reader \<Rightarrow> (go_err + nat) \<times> u16 list \<times> Reader" where
  "ReadSymbol cdf symbols r =
     (case ValidateCDF cdf symbols of Some err \<Rightarrow> (Inl err, cdf, r)
      | None \<Rightarrow>
          let window = take (nat symbols + 1) cdf;
              last = length window - 2;
              (symbol, lower, upper) = find_symbol window last (ucast (er_rng r)) (er_dif r)
          in if lower \<ge> upper then (Inl EntropyErrInvalidCDF, cdf, r)
             else let r = Reader_take lower upper r
                  in (Inr symbol, (if er_allowCDFUpdate r then updateCDFWindow window symbol @ drop (nat symbols + 1) cdf else cdf), r))"

definition ReadSymbolTrusted :: "u16 list \<Rightarrow> int \<Rightarrow> Reader \<Rightarrow> (go_err + nat) \<times> u16 list \<times> Reader" where
  "ReadSymbolTrusted cdf symbols r =
     (if symbols < 2 \<or> symbols > int MaxSymbols \<or> int (length cdf) < symbols + 1 then (Inl EntropyErrInvalidCDF, cdf, r)
      else readSymbolTrusted cdf (nat symbols) r)"

section \<open>Readers of a known number of symbols\<close>

definition readSymbolKnown :: "u16 list \<Rightarrow> nat \<Rightarrow> Reader \<Rightarrow> (go_err + nat) \<times> u16 list \<times> Reader" where
  "readSymbolKnown values symbols r =
     (let last = symbols - 1;
          (symbol, lower, upper) = find_symbol values last (ucast (er_rng r)) (er_dif r)
      in if lower \<ge> upper then (Inl EntropyErrInvalidCDF, values, r)
         else let r = Reader_take lower upper r
              in (Inr symbol,
                  (if er_allowCDFUpdate r then
                     let count = values ! symbols;
                         rate = unat (5 + (drop_bit 4 count AND 3));
                         values = fold (\<lambda>i values. values[i := ucast (adaptCDFEntry (ucast (values ! i)) rate (i < symbol))]) [0..<last] values
                     in if count < MaxCDFCount then values[symbols := count + 1] else values
                   else values), r))"

definition readBinaryCDFKnown :: "u16 list \<Rightarrow> Reader \<Rightarrow> nat \<times> u16 list \<times> Reader" where
  "readBinaryCDFKnown values r =
     (let rangeValue = ucast (er_rng r) :: u32;
          rngHi = drop_bit 8 rangeValue;
          coded = ucast (drop_bit 48 (er_dif r)) :: u32;
          lower = drop_bit 1 (rngHi * ucast (drop_bit 6 (values ! 0))) + ecMinProb;
          (symbol, lower, upper) = (if coded < lower then (1, 0, lower) else (0, lower, rangeValue));
          r = Reader_take lower upper r
      in (symbol, (if er_allowCDFUpdate r then updateCDF2 values symbol else values), r))"

definition select3 :: "u16 list \<Rightarrow> u32 \<Rightarrow> u64 \<Rightarrow> nat \<times> u32 \<times> u32" where
  "select3 values rangeValue dif =
     (let rngHi = drop_bit 8 rangeValue;
          coded = ucast (drop_bit 48 dif) :: u32;
          lower = drop_bit 1 (rngHi * ucast (drop_bit 6 (values ! 0))) + 2 * ecMinProb
      in if coded < lower
         then let upper = lower;
                  lower = drop_bit 1 (rngHi * ucast (drop_bit 6 (values ! 1))) + ecMinProb
              in if coded < lower then (2, 0, lower) else (1, lower, upper)
         else (0, lower, rangeValue))"

definition adapt3 :: "u16 list \<Rightarrow> nat \<Rightarrow> u16 list" where
  "adapt3 values symbol =
     (let count = values ! 3;
          rate = unat (4 + (drop_bit 4 count AND 3));
          c0 = ucast (values ! 0) :: u32;
          c1 = ucast (values ! 1) :: u32;
          values = values[0 := ucast (adaptCDFEntry c0 rate (symbol > 0))];
          values = values[1 := ucast (adaptCDFEntry c1 rate (symbol > 1))]
      in if count < MaxCDFCount then values[3 := count + 1] else values)"

definition readCDF3Known :: "u16 list \<Rightarrow> Reader \<Rightarrow> nat \<times> u16 list \<times> Reader" where
  "readCDF3Known values r =
     (let (symbol, lower, upper) = select3 values (ucast (er_rng r)) (er_dif r);
          r = Reader_take lower upper r
      in (symbol, (if er_allowCDFUpdate r then adapt3 values symbol else values), r))"

definition selectSymbol4 :: "u32 \<Rightarrow> u32 \<Rightarrow> u32 \<Rightarrow> u32 \<Rightarrow> u32 \<Rightarrow> nat \<times> u32 \<times> u32" where
  "selectSymbol4 rng coded l0 l1 l2 =
     (let found = (0, l0, rng);
          found = (if coded < l0 then (1, l1, l0) else found);
          found = (if coded < l1 then (2, l2, l1) else found);
          found = (if coded < l2 then (3, 0, l2) else found)
      in found)"

definition select4 :: "u32 \<Rightarrow> u32 \<Rightarrow> u32 \<Rightarrow> u32 \<Rightarrow> u64 \<Rightarrow> nat \<times> u32 \<times> u32" where
  "select4 c0 c1 c2 rangeValue dif =
     (let rngHi = drop_bit 8 rangeValue;
          coded = ucast (drop_bit 48 dif) :: u32
      in selectSymbol4 rangeValue coded (cdfBound rngHi c0 (3 * ecMinProb)) (cdfBound rngHi c1 (2 * ecMinProb)) (cdfBound rngHi c2 ecMinProb))"

definition readCDF4Known :: "u16 list \<Rightarrow> Reader \<Rightarrow> nat \<times> u16 list \<times> Reader" where
  "readCDF4Known values r =
     (let (symbol, lower, upper) = select4 (ucast (values ! 0)) (ucast (values ! 1)) (ucast (values ! 2)) (ucast (er_rng r)) (er_dif r);
          r = Reader_take lower upper r
      in (symbol,
          (if er_allowCDFUpdate r then
             let count = values ! 4;
                 rate = unat (5 + (drop_bit 4 count AND 3));
                 c0 = ucast (values ! 0) :: u32;
                 c1 = ucast (values ! 1) :: u32;
                 c2 = ucast (values ! 2) :: u32;
                 values =
                   (if symbol = 0 then
                      values[0 := ucast (c0 - drop_bit rate c0), 1 := ucast (c1 - drop_bit rate c1), 2 := ucast (c2 - drop_bit rate c2)]
                    else if symbol = 1 then
                      values[0 := ucast (c0 + drop_bit rate (0x8000 - c0)), 1 := ucast (c1 - drop_bit rate c1), 2 := ucast (c2 - drop_bit rate c2)]
                    else if symbol = 2 then
                      values[0 := ucast (c0 + drop_bit rate (0x8000 - c0)), 1 := ucast (c1 + drop_bit rate (0x8000 - c1)), 2 := ucast (c2 - drop_bit rate c2)]
                    else
                      values[0 := ucast (c0 + drop_bit rate (0x8000 - c0)), 1 := ucast (c1 + drop_bit rate (0x8000 - c1)), 2 := ucast (c2 + drop_bit rate (0x8000 - c2))])
             in if count < MaxCDFCount then values[4 := count + 1] else values
           else values), r))"

text \<open>\<open>ReadCDF\<close> and \<open>ReadCDFTrusted\<close> adapt the table in place.\<close>

definition with_values :: "CDF \<Rightarrow> 'a \<times> u16 list \<times> 'b \<Rightarrow> 'a \<times> CDF \<times> 'b" where
  "with_values cdf res = (case res of (x, values, r) \<Rightarrow> (x, cdf\<lparr>cdf_values := values\<rparr>, r))"

definition ReadCDF :: "CDF \<Rightarrow> Reader \<Rightarrow> (go_err + nat) \<times> CDF \<times> Reader" where
  "ReadCDF cdf r =
     (let symbols = unat (cdf_symbols cdf);
          no_error = (\<lambda>(symbol, values, r). (Inr symbol, values, r))
      in if symbols < 2 \<or> symbols > MaxSymbols then (Inl EntropyErrInvalidCDF, cdf, r)
         else with_values cdf
           (if symbols = 2 then no_error (readBinaryCDFKnown (cdf_values cdf) r)
            else if symbols = 3 then no_error (readCDF3Known (cdf_values cdf) r)
            else if symbols = 4 then no_error (readCDF4Known (cdf_values cdf) r)
            else readSymbolKnown (cdf_values cdf) symbols r))"

definition ReadCDFTrusted :: "CDF \<Rightarrow> Reader \<Rightarrow> (go_err + nat) \<times> CDF \<times> Reader" where
  "ReadCDFTrusted cdf r =
     (let symbols = unat (cdf_symbols cdf);
          no_error = (\<lambda>(symbol, values, r). (Inr symbol, values, r))
      in if symbols < 2 \<or> symbols > MaxSymbols then (Inl EntropyErrInvalidCDF, cdf, r)
         else with_values cdf
           (if symbols = 2 then no_error (readBinaryCDFKnown (cdf_values cdf) r)
            else if symbols = 3 then no_error (readCDF3Known (cdf_values cdf) r)
            else if symbols = 4 then no_error (readCDF4Known (cdf_values cdf) r)
            else readSymbolKnown (cdf_values cdf) symbols r))"

definition ReadSignedDelta :: "CDF \<Rightarrow> u8 \<Rightarrow> Reader \<Rightarrow> (go_err + int) \<times> CDF \<times> Reader" where
  "ReadSignedDelta cdf small r =
     (if small = 0 \<or> unat small \<ge> MaxSymbols then (Inl EntropyErrInvalidRange, cdf, r)
      else if CDF_Symbols cdf \<noteq> uint small + 1 then (Inl EntropyErrInvalidCDF, cdf, r)
      else case ReadCDF cdf r of
          (Inl err, cdf, r) \<Rightarrow> (Inl err, cdf, r)
        | (Inr symbol, cdf, r) \<Rightarrow>
            let (magnitude, r) =
              (if symbol \<ge> unat small
               then case Reader_ReadBits 3 r of
                   (Inl err, r) \<Rightarrow> (Inl err, r)
                 | (Inr remBits, r) \<Rightarrow>
                     let remBits = remBits + 1
                     in case Reader_ReadBits (ucast remBits) r of
                         (Inl err, r) \<Rightarrow> (Inl err, r)
                       | (Inr tail_bits, r) \<Rightarrow> (Inr (uint (tail_bits + push_bit (unat remBits) 1 + 1)), r)
               else (Inr (int symbol), r))
            in case magnitude of Inl err \<Rightarrow> (Inl err, cdf, r)
               | Inr m \<Rightarrow>
                   if m = 0 then (Inr 0, cdf, r)
                   else case Reader_ReadBit r of
                       (Inl err, r) \<Rightarrow> (Inl err, cdf, r)
                     | (Inr sign, r) \<Rightarrow> (Inr (if sign \<noteq> 0 then - m else m), cdf, r))"

section \<open>Cursors\<close>

definition Cursor_readSymbolKnown :: "u16 list \<Rightarrow> nat \<Rightarrow> Cursor \<Rightarrow> nat \<times> u16 list \<times> Cursor" where
  "Cursor_readSymbolKnown values symbols c =
     (let w = Cursor_load c;
          last = symbols - 1;
          (symbol, lower, upper) = find_symbol values last (w_rng w) (w_dif w);
          w = window_take (cu_src c) lower upper w
      in (symbol,
          (if cu_allowCDFUpdate c then
             let count = values ! symbols;
                 rate = unat (4 + (drop_bit 4 count AND 3));
                 rate = (if symbols > 3 then rate + 1 else rate);
                 values = fold (\<lambda>i values. values[i := ucast (adaptCDFEntry (ucast (values ! i)) rate (i < symbol))]) [0..<last] values
             in if count < MaxCDFCount then values[symbols := count + 1] else values
           else values),
          Cursor_store w c))"

definition Cursor_readBinaryCDFKnown :: "u16 list \<Rightarrow> Cursor \<Rightarrow> nat \<times> u16 list \<times> Cursor" where
  "Cursor_readBinaryCDFKnown values c =
     (let w = Cursor_load c;
          rngHi = drop_bit 8 (w_rng w);
          coded = ucast (drop_bit 48 (w_dif w)) :: u32;
          lower = drop_bit 1 (rngHi * ucast (drop_bit 6 (values ! 0))) + ecMinProb;
          (symbol, lower, upper) = (if coded < lower then (1, 0, lower) else (0, lower, w_rng w));
          w = window_take (cu_src c) lower upper w
      in (symbol, (if cu_allowCDFUpdate c then updateCDF2 values symbol else values), Cursor_store w c))"

definition Cursor_readCDF3Known :: "u16 list \<Rightarrow> Cursor \<Rightarrow> nat \<times> u16 list \<times> Cursor" where
  "Cursor_readCDF3Known values c =
     (let w = Cursor_load c;
          (symbol, lower, upper) = select3 values (w_rng w) (w_dif w);
          w = window_take (cu_src c) lower upper w
      in (symbol, (if cu_allowCDFUpdate c then adapt3 values symbol else values), Cursor_store w c))"

definition Cursor_readCDF4Known :: "u16 list \<Rightarrow> Cursor \<Rightarrow> nat \<times> u16 list \<times> Cursor" where
  "Cursor_readCDF4Known values c =
     (let w = Cursor_load c;
          (symbol, lower, upper) = select4 (ucast (values ! 0)) (ucast (values ! 1)) (ucast (values ! 2)) (w_rng w) (w_dif w);
          w = window_take (cu_src c) lower upper w
      in (symbol, values, Cursor_store w c))"

definition Cursor_readCDF4UpdateKnown :: "u16 list \<Rightarrow> Cursor \<Rightarrow> nat \<times> u16 list \<times> Cursor" where
  "Cursor_readCDF4UpdateKnown values c =
     (let w = Cursor_load c;
          c0 = ucast (values ! 0) :: u32;
          c1 = ucast (values ! 1) :: u32;
          c2 = ucast (values ! 2) :: u32;
          (symbol, lower, upper) = select4 c0 c1 c2 (w_rng w) (w_dif w);
          w = window_take (cu_src c) lower upper w;
          count = values ! 4;
          rate = unat (5 + (drop_bit 4 count AND 3));
          c0 = adaptCDFEntry c0 rate (symbol > 0);
          c1 = adaptCDFEntry c1 rate (symbol > 1);
          c2 = adaptCDFEntry c2 rate (symbol > 2);
          values = values[0 := ucast c0, 1 := ucast c1, 2 := ucast c2];
          values = (if count < MaxCDFCount then values[4 := count + 1] else values)
      in (symbol, values, Cursor_store w c))"

definition Cursor_readCDF5Known :: "u16 list \<Rightarrow> Cursor \<Rightarrow> nat \<times> u16 list \<times> Cursor" where
  "Cursor_readCDF5Known values c =
     (let w = Cursor_load c;
          rngHi = drop_bit 8 (w_rng w);
          coded = ucast (drop_bit 48 (w_dif w)) :: u32;
          c0 = ucast (values ! 0) :: u32;
          c1 = ucast (values ! 1) :: u32;
          c2 = ucast (values ! 2) :: u32;
          c3 = ucast (values ! 3) :: u32;
          l0 = cdfBound rngHi c0 (4 * ecMinProb);
          l1 = cdfBound rngHi c1 (3 * ecMinProb);
          l2 = cdfBound rngHi c2 (2 * ecMinProb);
          l3 = cdfBound rngHi c3 ecMinProb;
          found = (0, l0, w_rng w);
          found = (if coded < l0 then (1, l1, l0) else found);
          found = (if coded < l1 then (2, l2, l1) else found);
          found = (if coded < l2 then (3, l3, l2) else found);
          found = (if coded < l3 then (4, 0, l3) else found);
          (symbol, lower, upper) = found;
          w = window_take (cu_src c) lower upper w
      in (symbol,
          (if cu_allowCDFUpdate c then
             let count = values ! 5;
                 rate = unat (5 + (drop_bit 4 count AND 3));
                 values = values[0 := ucast (adaptCDFEntry c0 rate (symbol > 0))];
                 values = values[1 := ucast (adaptCDFEntry c1 rate (symbol > 1))];
                 values = values[2 := ucast (adaptCDFEntry c2 rate (symbol > 2))];
                 values = values[3 := ucast (adaptCDFEntry c3 rate (symbol > 3))]
             in if count < MaxCDFCount then values[5 := count + 1] else values
           else values),
          Cursor_store w c))"

definition Cursor_readCDF6Known :: "u16 list \<Rightarrow> Cursor \<Rightarrow> nat \<times> u16 list \<times> Cursor" where
  "Cursor_readCDF6Known values c =
     (let w = Cursor_load c;
          rngHi = drop_bit 8 (w_rng w);
          coded = ucast (drop_bit 48 (w_dif w)) :: u32;
          c0 = ucast (values ! 0) :: u32;
          c1 = ucast (values ! 1) :: u32;
          c2 = ucast (values ! 2) :: u32;
          c3 = ucast (values ! 3) :: u32;
          c4 = ucast (values ! 4) :: u32;
          l0 = cdfBound rngHi c0 (5 * ecMinProb);
          l1 = cdfBound rngHi c1 (4 * ecMinProb);
          l2 = cdfBound rngHi c2 (3 * ecMinProb);
          l3 = cdfBound rngHi c3 (2 * ecMinProb);
          l4 = cdfBound rngHi c4 ecMinProb;
          found = (0, l0, w_rng w);
          found = (if coded < l0 then (1, l1, l0) else found);
          found = (if coded < l1 then (2, l2, l1) else found);
          found = (if coded < l2 then (3, l3, l2) else found);
          found = (if coded < l3 then (4, l4, l3) else found);
          found = (if coded < l4 then (5, 0, l4) else found);
          (symbol, lower, upper) = found;
          w = window_take (cu_src c) lower upper w
      in (symbol,
          (if cu_allowCDFUpdate c then
             let count = values ! 6;
                 rate = unat (5 + (drop_bit 4 count AND 3));
                 values = values[0 := ucast (adaptCDFEntry c0 rate (symbol > 0))];
                 values = values[1 := ucast (adaptCDFEntry c1 rate (symbol > 1))];
                 values = values[2 := ucast (adaptCDFEntry c2 rate (symbol > 2))];
                 values = values[3 := ucast (adaptCDFEntry c3 rate (symbol > 3))];
                 values = values[4 := ucast (adaptCDFEntry c4 rate (symbol > 4))]
             in if count < MaxCDFCount then values[6 := count + 1] else values
           else values),
          Cursor_store w c))"

definition Cursor_readCDF7Known :: "u16 list \<Rightarrow> Cursor \<Rightarrow> nat \<times> u16 list \<times> Cursor" where
  "Cursor_readCDF7Known values c =
     (let w = Cursor_load c;
          rngHi = drop_bit 8 (w_rng w);
          coded = ucast (drop_bit 48 (w_dif w)) :: u32;
          c0 = ucast (values ! 0) :: u32;
          c1 = ucast (values ! 1) :: u32;
          c2 = ucast (values ! 2) :: u32;
          c3 = ucast (values ! 3) :: u32;
          c4 = ucast (values ! 4) :: u32;
          c5 = ucast (values ! 5) :: u32;
          l0 = cdfBound rngHi c0 (6 * ecMinProb);
          l1 = cdfBound rngHi c1 (5 * ecMinProb);
          l2 = cdfBound rngHi c2 (4 * ecMinProb);
          l3 = cdfBound rngHi c3 (3 * ecMinProb);
          l4 = cdfBound rngHi c4 (2 * ecMinProb);
          l5 = cdfBound rngHi c5 ecMinProb;
          found = (0, l0, w_rng w);
          found = (if coded < l0 then (1, l1, l0) else found);
          found = (if coded < l1 then (2, l2, l1) else found);
          found = (if coded < l2 then (3, l3, l2) else found);
          found = (if coded < l3 then (4, l4, l3) else found);
          found = (if coded < l4 then (5, l5, l4) else found);
          found = (if coded < l5 then (6, 0, l5) else found);
          (symbol, lower, upper) = found;
          w = window_take (cu_src c) lower upper w
      in (symbol,
          (if cu_allowCDFUpdate c then
             let count = values ! 7;
                 rate = unat (5 + (drop_bit 4 count AND 3));
                 values = values[0 := ucast (adaptCDFEntry c0 rate (symbol > 0))];
                 values = values[1 := ucast (adaptCDFEntry c1 rate (symbol > 1))];
                 values = values[2 := ucast (adaptCDFEntry c2 rate (symbol > 2))];
                 values = values[3 := ucast (adaptCDFEntry c3 rate (symbol > 3))];
                 values = values[4 := ucast (adaptCDFEntry c4 rate (symbol > 4))];
                 values = values[5 := ucast (adaptCDFEntry c5 rate (symbol > 5))]
             in if count < MaxCDFCount then values[7 := count + 1] else values
           else values),
          Cursor_store w c))"

definition Cursor_readCDF8Known :: "u16 list \<Rightarrow> Cursor \<Rightarrow> nat \<times> u16 list \<times> Cursor" where
  "Cursor_readCDF8Known values c =
     (let w = Cursor_load c;
          rngHi = drop_bit 8 (w_rng w);
          coded = ucast (drop_bit 48 (w_dif w)) :: u32;
          c0 = ucast (values ! 0) :: u32;
          c1 = ucast (values ! 1) :: u32;
          c2 = ucast (values ! 2) :: u32;
          c3 = ucast (values ! 3) :: u32;
          c4 = ucast (values ! 4) :: u32;
          c5 = ucast (values ! 5) :: u32;
          c6 = ucast (values ! 6) :: u32;
          l0 = cdfBound rngHi c0 (7 * ecMinProb);
          l1 = cdfBound rngHi c1 (6 * ecMinProb);
          l2 = cdfBound rngHi c2 (5 * ecMinProb);
          l3 = cdfBound rngHi c3 (4 * ecMinProb);
          l4 = cdfBound rngHi c4 (3 * ecMinProb);
          l5 = cdfBound rngHi c5 (2 * ecMinProb);
          l6 = cdfBound rngHi c6 ecMinProb;
          found = (0, l0, w_rng w);
          found = (if coded < l0 then (1, l1, l0) else found);
          found = (if coded < l1 then (2, l2, l1) else found);
          found = (if coded < l2 then (3, l3, l2) else found);
          found = (if coded < l3 then (4, l4, l3) else found);
          found = (if coded < l4 then (5, l5, l4) else found);
          found = (if coded < l5 then (6, l6, l5) else found);
          found = (if coded < l6 then (7, 0, l6) else found);
          (symbol, lower, upper) = found;
          w = window_take (cu_src c) lower upper w
      in (symbol,
          (if cu_allowCDFUpdate c then
             let count = values ! 8;
                 rate = unat (5 + (drop_bit 4 count AND 3));
                 values = values[0 := ucast (adaptCDFEntry c0 rate (symbol > 0))];
                 values = values[1 := ucast (adaptCDFEntry c1 rate (symbol > 1))];
                 values = values[2 := ucast (adaptCDFEntry c2 rate (symbol > 2))];
                 values = values[3 := ucast (adaptCDFEntry c3 rate (symbol > 3))];
                 values = values[4 := ucast (adaptCDFEntry c4 rate (symbol > 4))];
                 values = values[5 := ucast (adaptCDFEntry c5 rate (symbol > 5))];
                 values = values[6 := ucast (adaptCDFEntry c6 rate (symbol > 6))]
             in if count < MaxCDFCount then values[8 := count + 1] else values
           else values),
          Cursor_store w c))"

definition Cursor_readCDF9Known :: "u16 list \<Rightarrow> Cursor \<Rightarrow> nat \<times> u16 list \<times> Cursor" where
  "Cursor_readCDF9Known values c =
     (let w = Cursor_load c;
          rngHi = drop_bit 8 (w_rng w);
          coded = ucast (drop_bit 48 (w_dif w)) :: u32;
          c0 = ucast (values ! 0) :: u32;
          c1 = ucast (values ! 1) :: u32;
          c2 = ucast (values ! 2) :: u32;
          c3 = ucast (values ! 3) :: u32;
          c4 = ucast (values ! 4) :: u32;
          c5 = ucast (values ! 5) :: u32;
          c6 = ucast (values ! 6) :: u32;
          c7 = ucast (values ! 7) :: u32;
          l0 = cdfBound rngHi c0 (8 * ecMinProb);
          l1 = cdfBound rngHi c1 (7 * ecMinProb);
          l2 = cdfBound rngHi c2 (6 * ecMinProb);
          l3 = cdfBound rngHi c3 (5 * ecMinProb);
          l4 = cdfBound rngHi c4 (4 * ecMinProb);
          l5 = cdfBound rngHi c5 (3 * ecMinProb);
          l6 = cdfBound rngHi c6 (2 * ecMinProb);
          l7 = cdfBound rngHi c7 ecMinProb;
          found = (0, l0, w_rng w);
          found = (if coded < l0 then (1, l1, l0) else found);
          found = (if coded < l1 then (2, l2, l1) else found);
          found = (if coded < l2 then (3, l3, l2) else found);
          found = (if coded < l3 then (4, l4, l3) else found);
          found = (if coded < l4 then (5, l5, l4) else found);
          found = (if coded < l5 then (6, l6, l5) else found);
          found = (if coded < l6 then (7, l7, l6) else found);
          found = (if coded < l7 then (8, 0, l7) else found);
          (symbol, lower, upper) = found;
          w = window_take (cu_src c) lower upper w
      in (symbol,
          (if cu_allowCDFUpdate c then
             let count = values ! 9;
                 rate = unat (5 + (drop_bit 4 count AND 3));
                 values = values[0 := ucast (adaptCDFEntry c0 rate (symbol > 0))];
                 values = values[1 := ucast (adaptCDFEntry c1 rate (symbol > 1))];
                 values = values[2 := ucast (adaptCDFEntry c2 rate (symbol > 2))];
                 values = values[3 := ucast (adaptCDFEntry c3 rate (symbol > 3))];
                 values = values[4 := ucast (adaptCDFEntry c4 rate (symbol > 4))];
                 values = values[5 := ucast (adaptCDFEntry c5 rate (symbol > 5))];
                 values = values[6 := ucast (adaptCDFEntry c6 rate (symbol > 6))];
                 values = values[7 := ucast (adaptCDFEntry c7 rate (symbol > 7))]
             in if count < MaxCDFCount then values[9 := count + 1] else values
           else values),
          Cursor_store w c))"

definition Cursor_readCDF10Known :: "u16 list \<Rightarrow> Cursor \<Rightarrow> nat \<times> u16 list \<times> Cursor" where
  "Cursor_readCDF10Known values c =
     (let w = Cursor_load c;
          rngHi = drop_bit 8 (w_rng w);
          coded = ucast (drop_bit 48 (w_dif w)) :: u32;
          c0 = ucast (values ! 0) :: u32;
          c1 = ucast (values ! 1) :: u32;
          c2 = ucast (values ! 2) :: u32;
          c3 = ucast (values ! 3) :: u32;
          c4 = ucast (values ! 4) :: u32;
          c5 = ucast (values ! 5) :: u32;
          c6 = ucast (values ! 6) :: u32;
          c7 = ucast (values ! 7) :: u32;
          c8 = ucast (values ! 8) :: u32;
          l0 = cdfBound rngHi c0 (9 * ecMinProb);
          l1 = cdfBound rngHi c1 (8 * ecMinProb);
          l2 = cdfBound rngHi c2 (7 * ecMinProb);
          l3 = cdfBound rngHi c3 (6 * ecMinProb);
          l4 = cdfBound rngHi c4 (5 * ecMinProb);
          l5 = cdfBound rngHi c5 (4 * ecMinProb);
          l6 = cdfBound rngHi c6 (3 * ecMinProb);
          l7 = cdfBound rngHi c7 (2 * ecMinProb);
          l8 = cdfBound rngHi c8 ecMinProb;
          found = (0, l0, w_rng w);
          found = (if coded < l0 then (1, l1, l0) else found);
          found = (if coded < l1 then (2, l2, l1) else found);
          found = (if coded < l2 then (3, l3, l2) else found);
          found = (if coded < l3 then (4, l4, l3) else found);
          found = (if coded < l4 then (5, l5, l4) else found);
          found = (if coded < l5 then (6, l6, l5) else found);
          found = (if coded < l6 then (7, l7, l6) else found);
          found = (if coded < l7 then (8, l8, l7) else found);
          found = (if coded < l8 then (9, 0, l8) else found);
          (symbol, lower, upper) = found;
          w = window_take (cu_src c) lower upper w
      in (symbol,
          (if cu_allowCDFUpdate c then
             let count = values ! 10;
                 rate = unat (5 + (drop_bit 4 count AND 3));
                 values = values[0 := ucast (adaptCDFEntry c0 rate (symbol > 0))];
                 values = values[1 := ucast (adaptCDFEntry c1 rate (symbol > 1))];
                 values = values[2 := ucast (adaptCDFEntry c2 rate (symbol > 2))];
                 values = values[3 := ucast (adaptCDFEntry c3 rate (symbol > 3))];
                 values = values[4 := ucast (adaptCDFEntry c4 rate (symbol > 4))];
                 values = values[5 := ucast (adaptCDFEntry c5 rate (symbol > 5))];
                 values = values[6 := ucast (adaptCDFEntry c6 rate (symbol > 6))];
                 values = values[7 := ucast (adaptCDFEntry c7 rate (symbol > 7))];
                 values = values[8 := ucast (adaptCDFEntry c8 rate (symbol > 8))]
             in if count < MaxCDFCount then values[10 := count + 1] else values
           else values),
          Cursor_store w c))"

definition Cursor_readCDF11Known :: "u16 list \<Rightarrow> Cursor \<Rightarrow> nat \<times> u16 list \<times> Cursor" where
  "Cursor_readCDF11Known values c =
     (let w = Cursor_load c;
          rngHi = drop_bit 8 (w_rng w);
          coded = ucast (drop_bit 48 (w_dif w)) :: u32;
          c0 = ucast (values ! 0) :: u32;
          c1 = ucast (values ! 1) :: u32;
          c2 = ucast (values ! 2) :: u32;
          c3 = ucast (values ! 3) :: u32;
          c4 = ucast (values ! 4) :: u32;
          c5 = ucast (values ! 5) :: u32;
          c6 = ucast (values ! 6) :: u32;
          c7 = ucast (values ! 7) :: u32;
          c8 = ucast (values ! 8) :: u32;
          c9 = ucast (values ! 9) :: u32;
          l0 = cdfBound rngHi c0 (10 * ecMinProb);
          l1 = cdfBound rngHi c1 (9 * ecMinProb);
          l2 = cdfBound rngHi c2 (8 * ecMinProb);
          l3 = cdfBound rngHi c3 (7 * ecMinProb);
          l4 = cdfBound rngHi c4 (6 * ecMinProb);
          l5 = cdfBound rngHi c5 (5 * ecMinProb);
          l6 = cdfBound rngHi c6 (4 * ecMinProb);
          l7 = cdfBound rngHi c7 (3 * ecMinProb);
          l8 = cdfBound rngHi c8 (2 * ecMinProb);
          l9 = cdfBound rngHi c9 ecMinProb;
          found = (0, l0, w_rng w);
          found = (if coded < l0 then (1, l1, l0) else found);
          found = (if coded < l1 then (2, l2, l1) else found);
          found = (if coded < l2 then (3, l3, l2) else found);
          found = (if coded < l3 then (4, l4, l3) else found);
          found = (if coded < l4 then (5, l5, l4) else found);
          found = (if coded < l5 then (6, l6, l5) else found);
          found = (if coded < l6 then (7, l7, l6) else found);
          found = (if coded < l7 then (8, l8, l7) else found);
          found = (if coded < l8 then (9, l9, l8) else found);
          found = (if coded < l9 then (10, 0, l9) else found);
          (symbol, lower, upper) = found;
          w = window_take (cu_src c) lower upper w
      in (symbol,
          (if cu_allowCDFUpdate c then
             let count = values ! 11;
                 rate = unat (5 + (drop_bit 4 count AND 3));
                 values = values[0 := ucast (adaptCDFEntry c0 rate (symbol > 0))];
                 values = values[1 := ucast (adaptCDFEntry c1 rate (symbol > 1))];
                 values = values[2 := ucast (adaptCDFEntry c2 rate (symbol > 2))];
                 values = values[3 := ucast (adaptCDFEntry c3 rate (symbol > 3))];
                 values = values[4 := ucast (adaptCDFEntry c4 rate (symbol > 4))];
                 values = values[5 := ucast (adaptCDFEntry c5 rate (symbol > 5))];
                 values = values[6 := ucast (adaptCDFEntry c6 rate (symbol > 6))];
                 values = values[7 := ucast (adaptCDFEntry c7 rate (symbol > 7))];
                 values = values[8 := ucast (adaptCDFEntry c8 rate (symbol > 8))];
                 values = values[9 := ucast (adaptCDFEntry c9 rate (symbol > 9))]
             in if count < MaxCDFCount then values[11 := count + 1] else values
           else values),
          Cursor_store w c))"

definition Cursor_readCDF9To11Known :: "u16 list \<Rightarrow> nat \<Rightarrow> Cursor \<Rightarrow> nat \<times> u16 list \<times> Cursor" where
  "Cursor_readCDF9To11Known values symbols c =
     (if symbols = 9 then Cursor_readCDF9Known values c
      else if symbols = 10 then Cursor_readCDF10Known values c
      else Cursor_readCDF11Known values c)"

definition Cursor_ReadCDF4Unchecked :: "CDF \<Rightarrow> Cursor \<Rightarrow> nat \<times> CDF \<times> Cursor" where
  "Cursor_ReadCDF4Unchecked cdf c =
     with_values cdf (if cu_allowCDFUpdate c then Cursor_readCDF4UpdateKnown (cdf_values cdf) c else Cursor_readCDF4Known (cdf_values cdf) c)"

definition ReadCDFSymbolsUnchecked :: "CDF \<Rightarrow> nat \<Rightarrow> Cursor \<Rightarrow> nat \<times> CDF \<times> Cursor" where
  "ReadCDFSymbolsUnchecked cdf symbols c =
     (if symbols = 2 then with_values cdf (Cursor_readBinaryCDFKnown (cdf_values cdf) c)
      else if symbols = 3 then with_values cdf (Cursor_readCDF3Known (cdf_values cdf) c)
      else if symbols = 4 then Cursor_ReadCDF4Unchecked cdf c
      else if symbols = 5 then with_values cdf (Cursor_readCDF5Known (cdf_values cdf) c)
      else if symbols = 6 then with_values cdf (Cursor_readCDF6Known (cdf_values cdf) c)
      else if symbols = 7 then with_values cdf (Cursor_readCDF7Known (cdf_values cdf) c)
      else if symbols = 8 then with_values cdf (Cursor_readCDF8Known (cdf_values cdf) c)
      else if symbols = 9 \<or> symbols = 10 \<or> symbols = 11 then with_values cdf (Cursor_readCDF9To11Known (cdf_values cdf) symbols c)
      else with_values cdf (Cursor_readSymbolKnown (cdf_values cdf) symbols c))"

definition ReadCDFUnchecked :: "CDF \<Rightarrow> Cursor \<Rightarrow> nat \<times> CDF \<times> Cursor" where
  "ReadCDFUnchecked cdf c =
     (let symbols = unat (cdf_symbols cdf)
      in if symbols = 2 then with_values cdf (Cursor_readBinaryCDFKnown (cdf_values cdf) c)
         else if symbols = 3 then with_values cdf (Cursor_readCDF3Known (cdf_values cdf) c)
         else if symbols = 4 then Cursor_ReadCDF4Unchecked cdf c
         else if symbols = 5 then with_values cdf (Cursor_readCDF5Known (cdf_values cdf) c)
         else if symbols = 6 then with_values cdf (Cursor_readCDF6Known (cdf_values cdf) c)
         else if symbols = 7 then with_values cdf (Cursor_readCDF7Known (cdf_values cdf) c)
         else if symbols = 8 then with_values cdf (Cursor_readCDF8Known (cdf_values cdf) c)
         else if symbols = 9 \<or> symbols = 10 \<or> symbols = 11 then with_values cdf (Cursor_readCDF9To11Known (cdf_values cdf) symbols c)
         else with_values cdf (Cursor_readSymbolKnown (cdf_values cdf) symbols c))"

section \<open>High tokens\<close>

text \<open>One of the four steps that \<open>readCDF4HighTokenUpdateLoop\<close> writes out: the entries and the count are locals.\<close>

definition high_token_update :: "bytes \<Rightarrow> u32 \<times> u32 \<times> u32 \<times> u16 \<Rightarrow> Window \<Rightarrow> u8 \<times> (u32 \<times> u32 \<times> u32 \<times> u16) \<times> Window" where
  "high_token_update src entries w =
     (let (c0, c1, c2, count) = entries;
          (symbol, lower, upper) = select4 c0 c1 c2 (w_rng w) (w_dif w);
          w = window_take src lower upper w;
          rate = unat (5 + (drop_bit 4 count AND 3))
      in (of_nat symbol,
          (adaptCDFEntry c0 rate (symbol > 0), adaptCDFEntry c1 rate (symbol > 1), adaptCDFEntry c2 rate (symbol > 2),
           if count < MaxCDFCount then count + 1 else count), w))"

definition readCDF4HighTokenUpdateLoop :: "u16 list \<Rightarrow> Cursor \<Rightarrow> u8 \<times> u16 list \<times> Cursor" where
  "readCDF4HighTokenUpdateLoop values c =
     (let entries = (ucast (values ! 0), ucast (values ! 1), ucast (values ! 2), values ! 4);
          (symbol, entries, w) = high_token_update (cu_src c) entries (Cursor_load c);
          level = symbol;
          (level, entries, w) =
            (if symbol = 3 then
               let (symbol, entries, w) = high_token_update (cu_src c) entries w;
                   level = level + symbol
               in if symbol = 3 then
                    let (symbol, entries, w) = high_token_update (cu_src c) entries w;
                        level = level + symbol
                    in if symbol = 3 then
                         let (symbol, entries, w) = high_token_update (cu_src c) entries w;
                             level = level + symbol
                         in (level, entries, w)
                       else (level, entries, w)
                  else (level, entries, w)
             else (level, entries, w));
          (c0, c1, c2, count) = entries
      in (level, values[0 := ucast c0, 1 := ucast c1, 2 := ucast c2, 4 := count], Cursor_store w c))"

definition high_token_plain :: "bytes \<Rightarrow> u32 \<times> u32 \<times> u32 \<Rightarrow> Window \<Rightarrow> u8 \<times> Window" where
  "high_token_plain src entries w =
     (let (c0, c1, c2) = entries;
          (symbol, lower, upper) = select4 c0 c1 c2 (w_rng w) (w_dif w)
      in (of_nat symbol, window_take src lower upper w))"

definition readCDF4HighTokenKnown :: "u16 list \<Rightarrow> Cursor \<Rightarrow> u8 \<times> Cursor" where
  "readCDF4HighTokenKnown values c =
     (let entries = (ucast (values ! 0), ucast (values ! 1), ucast (values ! 2));
          level = 0;
          (symbol, w) = high_token_plain (cu_src c) entries (Cursor_load c);
          level = level + symbol;
          (level, w) =
            (if symbol = 3 then
               let (symbol, w) = high_token_plain (cu_src c) entries w;
                   level = level + symbol
               in if symbol = 3 then
                    let (symbol, w) = high_token_plain (cu_src c) entries w;
                        level = level + symbol
                    in if symbol = 3 then
                         let (symbol, w) = high_token_plain (cu_src c) entries w;
                             level = level + symbol
                         in (level, w)
                       else (level, w)
                  else (level, w)
             else (level, w))
      in (level, Cursor_store w c))"

definition ReadCDF4HighTokenUnchecked :: "CDF \<Rightarrow> Cursor \<Rightarrow> u8 \<times> CDF \<times> Cursor" where
  "ReadCDF4HighTokenUnchecked cdf c =
     (if cu_allowCDFUpdate c then with_values cdf (readCDF4HighTokenUpdateLoop (cdf_values cdf) c)
      else let (level, c) = readCDF4HighTokenKnown (cdf_values cdf) c in (level, cdf, c))"

section \<open>The interval of a symbol\<close>

text \<open>The reference: the bounds of a table, and the first one that does not exceed the coded value.\<close>

definition cdf_bounds :: "u16 list \<Rightarrow> nat \<Rightarrow> u32 \<Rightarrow> u32 list" where
  "cdf_bounds cdf final rng = map (\<lambda>k. drop_bit 1 (drop_bit 8 rng * ucast (drop_bit 6 (cdf ! k))) + ecMinProb * of_nat (final - k)) [0..<final]"

definition pick :: "u32 list \<Rightarrow> u32 \<Rightarrow> u32 \<Rightarrow> nat \<times> u32 \<times> u32" where
  "pick bs coded rng = (let k = length (takeWhile (\<lambda>l. coded < l) bs) in (k, (bs @ [0]) ! k, (rng # bs) ! k))"

definition coded :: "u64 \<Rightarrow> u32" where
  "coded dif = ucast (drop_bit 48 dif)"

lemma length_cdf_bounds [simp]: "length (cdf_bounds cdf final rng) = final"
  by (simp add: cdf_bounds_def)

lemma takeWhile_nth_split:
  assumes "\<forall>j < k. P (xs ! j)" "k \<le> length xs" "k < length xs \<longrightarrow> \<not> P (xs ! k)"
  shows "length (takeWhile P xs) = k"
proof -
  have "takeWhile P xs = take k xs" using assms by (intro takeWhile_eq_take_P_nth) auto
  then show ?thesis using assms(2) by simp
qed

lemma symbol_search_bounds:
  assumes "k \<le> final" "\<forall>j < k. c < cdf_bounds cdf final rng ! j" "m = ecMinProb * of_nat (final - k)" "upper = (rng # cdf_bounds cdf final rng) ! k"
  shows "\<exists>lower'. symbol_search cdf (drop_bit 8 rng) c final k lower upper m =
      (let i = length (takeWhile (\<lambda>l. c < l) (cdf_bounds cdf final rng)) in (i, lower', (rng # cdf_bounds cdf final rng) ! i)) \<and>
    (length (takeWhile (\<lambda>l. c < l) (cdf_bounds cdf final rng)) < final \<longrightarrow>
       lower' = cdf_bounds cdf final rng ! length (takeWhile (\<lambda>l. c < l) (cdf_bounds cdf final rng)))"
  using assms
proof (induction "final - k" arbitrary: k lower upper m)
  case 0
  then have "length (takeWhile (\<lambda>l. c < l) (cdf_bounds cdf final rng)) = final" by (intro takeWhile_nth_split) simp_all
  then show ?case using 0 by (subst symbol_search.simps) simp
next
  case (Suc d)
  let ?b = "cdf_bounds cdf final rng ! k"
  have k: "k < final" using Suc.hyps(2) by simp
  have b: "drop_bit 1 (drop_bit 8 rng * ucast (drop_bit 6 (cdf ! k))) + m = ?b" using k Suc.prems(3) by (simp add: cdf_bounds_def)
  show ?case
  proof (cases "?b \<le> c")
    case True
    then have "length (takeWhile (\<lambda>l. c < l) (cdf_bounds cdf final rng)) = k" using Suc.prems(2) k by (intro takeWhile_nth_split) auto
    then show ?thesis using k True Suc.prems(4) by (subst symbol_search.simps) (simp add: Let_def b [unfolded One_nat_def])
  next
    case False
    have m: "m - ecMinProb = ecMinProb * of_nat (final - (k + 1))"
    proof -
      have "final - k = Suc (final - (k + 1))" using k by simp
      then show ?thesis unfolding Suc.prems(3) by (simp add: algebra_simps)
    qed
    have "\<forall>j < k + 1. c < cdf_bounds cdf final rng ! j" using Suc.prems(2) False by (auto simp: less_Suc_eq not_le)
    moreover have "symbol_search cdf (drop_bit 8 rng) c final k lower upper m = symbol_search cdf (drop_bit 8 rng) c final (k + 1) ?b ?b (m - ecMinProb)"
      using k False by (subst symbol_search.simps) (simp add: Let_def b [unfolded One_nat_def])
    ultimately show ?thesis using Suc.hyps(1) [of "k + 1" "m - ecMinProb" ?b ?b] Suc.hyps(2) k m by simp
  qed
qed

lemma find_symbol_pick: "find_symbol cdf final rng dif = pick (cdf_bounds cdf final rng) (coded dif) rng"
proof -
  let ?bs = "cdf_bounds cdf final rng"
  let ?i = "length (takeWhile (\<lambda>l. coded dif < l) ?bs)"
  obtain lower' where s: "symbol_search cdf (drop_bit 8 rng) (coded dif) final 0 0 rng (ecMinProb * of_nat final) = (?i, lower', (rng # ?bs) ! ?i)"
      "?i < final \<longrightarrow> lower' = ?bs ! ?i"
    using symbol_search_bounds [of 0 final "coded dif" cdf rng "ecMinProb * of_nat final" rng 0] by (auto simp: Let_def)
  have "?i \<le> final" using length_takeWhile_le [of "\<lambda>l. coded dif < l" ?bs] by simp
  then show ?thesis using s unfolding find_symbol_def pick_def coded_def [symmetric] Let_def by (auto simp: nth_append)
qed

text \<open>The unrolled searches test every bound and keep the last hit.\<close>

primrec chain :: "u32 \<Rightarrow> nat \<Rightarrow> u32 list \<Rightarrow> nat \<times> u32 \<times> u32 \<Rightarrow> nat \<times> u32 \<times> u32" where
  "chain c i [] found = found"
| "chain c i (l # ls) found = chain c (i + 1) ls (if c < l then (i + 1, (case ls of [] \<Rightarrow> 0 | l' # _ \<Rightarrow> l'), l) else found)"

lemma chain_takeWhile:
  assumes "sorted_wrt (\<ge>) ls"
  shows "chain c i ls found = (let k = length (takeWhile (\<lambda>l. c < l) ls) in if k = 0 then found else (i + k, (ls @ [0]) ! k, ls ! (k - 1)))"
  using assms
proof (induction ls arbitrary: i found)
  case (Cons l ls)
  show ?case
  proof (cases "c < l")
    case True
    then show ?thesis using Cons by (cases ls) (auto simp: Let_def)
  next
    case False
    then have "takeWhile (\<lambda>l. c < l) ls = []" using Cons.prems by (cases ls) auto
    then show ?thesis using Cons False by (simp add: Let_def)
  qed
qed simp

lemma chain_pick:
  assumes "sorted_wrt (\<ge>) bs" "bs \<noteq> []"
  shows "chain c 0 bs (0, hd bs, rng) = pick bs c rng"
  using assms by (auto simp: chain_takeWhile pick_def Let_def nth_append hd_conv_nth nth_Cons')

lemma bound_val:
  fixes c :: u16 and rng :: u32
  assumes "unat c < 32768" "unat rng < 2 ^ 16" "m \<le> 15"
  shows "unat (drop_bit 1 (drop_bit 8 rng * ucast (drop_bit 6 c)) + ecMinProb * of_nat m) = unat rng div 256 * (unat c div 64) div 2 + 4 * m"
    "unat rng div 256 * (unat c div 64) \<le> unat rng div 256 * 511"
proof -
  have p: "unat (ucast (drop_bit 6 c) :: u32) = unat c div 64" by (simp add: unat_drop)
  have d: "unat (drop_bit 8 rng) = unat rng div 256" by (simp add: unat_drop)
  show le: "unat rng div 256 * (unat c div 64) \<le> unat rng div 256 * 511" using assms(1) by (intro mult_le_mono2) linarith
  moreover have "unat rng div 256 * 511 < 2 ^ 30" using assms(2) by simp
  ultimately have small: "unat rng div 256 * (unat c div 64) < 2 ^ 30" by linarith
  then have prod: "unat (drop_bit 8 rng * ucast (drop_bit 6 c)) = unat rng div 256 * (unat c div 64)"
    unfolding unat_word_ariths p d by (intro mod_less) simp
  have m: "unat (ecMinProb * of_nat m) = 4 * m" using assms(3) by (simp add: ecMinProb_def unat_word_ariths unat_of_nat)
  have "unat (drop_bit 1 (drop_bit 8 rng * ucast (drop_bit 6 c))) = unat rng div 256 * (unat c div 64) div 2" unfolding unat_drop prod by simp
  then show "unat (drop_bit 1 (drop_bit 8 rng * ucast (drop_bit 6 c)) + ecMinProb * of_nat m) = unat rng div 256 * (unat c div 64) div 2 + 4 * m"
    using small assms(3) m by (subst unat_word_ariths) simp
qed

lemma cdf_bounds_val:
  assumes "cdf_valid cdf n" "unat rng < 2 ^ 16" "k < n - 1"
  shows "unat (cdf_bounds cdf (n - 1) rng ! k) = unat rng div 256 * (unat (cdf ! k) div 64) div 2 + 4 * (n - 1 - k)"
proof -
  have "n \<le> 16" using assms(1) by (simp add: cdf_valid_def)
  then show ?thesis
    using bound_val(1) [of "cdf ! k" rng "n - 1 - k"] cdf_valid_le [OF assms(1), of k] assms(2,3) by (simp add: cdf_bounds_def)
qed

text \<open>On a valid table the bounds fall strictly from the range to 0: every symbol has a non-empty interval.\<close>

lemma cdf_bounds_fall:
  assumes "cdf_valid cdf n" "2 ^ 15 \<le> unat rng" "unat rng < 2 ^ 16" "i < j" "j < n - 1"
  shows "cdf_bounds cdf (n - 1) rng ! j < cdf_bounds cdf (n - 1) rng ! i"
proof -
  have mono: "unat (cdf ! j) \<le> unat (cdf ! i)"
    using assms(4,5)
  proof (induction rule: less_Suc_induct)
    case (1 i)
    then show ?case using assms(1) by (auto simp: cdf_valid_def word_le_nat_alt)
  qed auto
  have "unat rng div 256 * (unat (cdf ! j) div 64) div 2 \<le> unat rng div 256 * (unat (cdf ! i) div 64) div 2"
    using mono by (intro div_le_mono mult_le_mono2)
  then show ?thesis
    unfolding word_less_nat_alt cdf_bounds_val [OF assms(1,3,5)] cdf_bounds_val [OF assms(1,3) less_trans [OF assms(4,5)]] using assms(4,5) by linarith
qed

lemma cdf_bounds_sorted:
  assumes "cdf_valid cdf n" "2 ^ 15 \<le> unat rng" "unat rng < 2 ^ 16"
  shows "sorted_wrt (\<ge>) (cdf_bounds cdf (n - 1) rng)"
  unfolding sorted_wrt_iff_nth_less using cdf_bounds_fall [OF assms] by (simp add: less_imp_le)

lemma cdf_bounds_less:
  assumes "cdf_valid cdf n" "2 ^ 15 \<le> unat rng" "unat rng < 2 ^ 16" "k < n - 1"
  shows "unat (cdf_bounds cdf (n - 1) rng ! k) < unat rng" "0 < unat (cdf_bounds cdf (n - 1) rng ! k)"
proof -
  have n: "n \<le> 16" using assms(1) by (simp add: cdf_valid_def)
  show "0 < unat (cdf_bounds cdf (n - 1) rng ! k)" using assms(4) unfolding cdf_bounds_val [OF assms(1,3,4)] by linarith
  have "unat rng div 256 * (unat (cdf ! k) div 64) div 2 \<le> unat rng div 256 * 511 div 2"
    using bound_val(2) [of "cdf ! k" rng 0] cdf_valid_le [OF assms(1), of k] assms(3,4) by (intro div_le_mono) simp
  moreover have "128 \<le> unat rng div 256" using div_le_mono [OF assms(2), of 256] by simp
  ultimately show "unat (cdf_bounds cdf (n - 1) rng ! k) < unat rng"
    using n assms(4) div_times_less_eq_dividend [of "unat rng" 256] div_times_less_eq_dividend [of "unat rng div 256 * 511" 2]
    unfolding cdf_bounds_val [OF assms(1,3,4)] by linarith
qed

lemma pick_interval:
  assumes "cdf_valid cdf n" "2 ^ 15 \<le> unat rng" "unat rng < 2 ^ 16" "pick (cdf_bounds cdf (n - 1) rng) c rng = (s, lower, upper)" "c < rng"
  shows "s < n \<and> lower \<le> c \<and> c < upper \<and> upper \<le> rng"
proof -
  let ?bs = "cdf_bounds cdf (n - 1) rng"
  have n: "2 \<le> n" using assms(1) by (simp add: cdf_valid_def)
  have s: "s = length (takeWhile (\<lambda>l. c < l) ?bs)" "lower = (?bs @ [0]) ! s" "upper = (rng # ?bs) ! s"
    using assms(4) unfolding pick_def Let_def by blast+
  have le: "s \<le> n - 1" using length_takeWhile_le [of "\<lambda>l. c < l" ?bs] s(1) by simp
  have lo: "lower \<le> c" using nth_length_takeWhile [of "\<lambda>l. c < l" ?bs] s(1,2) le by (auto simp: nth_append not_less)
  have up: "c < upper \<and> upper \<le> rng"
  proof (cases s)
    case 0
    then show ?thesis using s(3) assms(5) by simp
  next
    case (Suc k)
    have "takeWhile (\<lambda>l. c < l) ?bs ! k = ?bs ! k" "k < length (takeWhile (\<lambda>l. c < l) ?bs)" using Suc s(1) by (simp_all add: takeWhile_nth)
    then have "c < ?bs ! k" using set_takeWhileD [of "?bs ! k" "\<lambda>l. c < l" ?bs] by (metis nth_mem)
    then show ?thesis using Suc s(3) le cdf_bounds_less(1) [OF assms(1-3), of k] by (simp add: word_le_nat_alt)
  qed
  show ?thesis using le n lo up by simp
qed

section \<open>Reading a symbol\<close>

lemma coded_less:
  assumes "window_ok src T H w"
  shows "coded (w_dif w) < w_rng w" "unat (coded (w_dif w)) = unat (w_dif w) div 2 ^ 48"
proof -
  have d: "unat (drop_bit 48 (w_dif w)) = unat (w_dif w) div 2 ^ 48" by (rule unat_drop)
  have "unat (w_dif w) < unat (w_rng w) * 2 ^ 48" "unat (w_rng w) < 2 ^ 16" using assms by (simp_all add: window_ok_def)
  then have lt: "unat (w_dif w) div 2 ^ 48 < unat (w_rng w)" by (simp add: less_mult_imp_div_less)
  show e: "unat (coded (w_dif w)) = unat (w_dif w) div 2 ^ 48"
    using lt \<open>unat (w_rng w) < 2 ^ 16\<close> unfolding coded_def by (simp add: unsigned_ucast_eq d take_bit_nat_eq_self)
  show "coded (w_dif w) < w_rng w" unfolding word_less_nat_alt e by (rule lt)
qed

lemma window_take_ok:
  assumes "window_ok src T H w" "lower \<le> coded (w_dif w)" "coded (w_dif w) < upper" "upper \<le> w_rng w"
  shows "\<exists>s. unat (w_rng (window_take src lower upper w)) = (unat upper - unat lower) * 2 ^ s \<and>
    window_ok src (T + s) ((H - unat lower) * 2 ^ s) (window_take src lower upper w)"
proof -
  note w = assms(1) [unfolded window_ok_def held_def]
  note c = coded_less [OF assms(1)]
  have lu: "unat lower < unat upper" "unat upper \<le> unat (w_rng w)" using assms(2-4) by (simp_all add: word_le_nat_alt word_less_nat_alt)
  have lc: "unat lower \<le> unat (w_dif w) div 2 ^ 48" "unat (w_dif w) div 2 ^ 48 < unat upper"
    using assms(2,3) c(2) by (simp_all add: word_le_nat_alt word_less_nat_alt)
  have ge: "unat lower * 2 ^ 48 \<le> unat (w_dif w)" using lc(1) by (simp add: less_eq_div_iff_mult_less_eq)
  have le: "unat (w_dif w) < unat upper * 2 ^ 48" using lc(2) by (simp add: div_less_iff_less_mult)
  have p: "unat (push_bit 48 (ucast lower) :: u64) = unat lower * 2 ^ 48"
    using ge unsigned_less [of "w_dif w", where 'a = nat] unat_push_bit [of "ucast lower :: u64" 48] by (simp add: unat_ucast_up)
  let ?dif = "w_dif w - push_bit 48 (ucast lower)" and ?rng = "upper - lower"
  have d: "unat ?dif = unat (w_dif w) - unat lower * 2 ^ 48" using ge by (subst unat_sub) (simp_all only: word_le_nat_alt p)
  have r: "unat ?rng = unat upper - unat lower" using lu by (intro unat_sub) (simp add: word_le_nat_alt)
  have "unat upper < 2 ^ 16" using lu w by linarith
  then have n: "0 < unat ?rng" "unat ?rng < 2 ^ 16" "unat ?dif + 1 \<le> unat ?rng * 2 ^ 48"
    using lu ge le unfolding d r by (simp_all add: diff_mult_distrib)
  have n4: "unat ?dif + 1 + be_val (take (w_pos w) src) * 2 ^ (T + 63 - 8 * w_pos w) = (H - unat lower) * 2 ^ 48"
    using w ge unfolding d diff_mult_distrib by linarith
  show ?thesis using window_normalize_ok [OF assms(1) n n4] unfolding window_take_def r by blast
qed

lemma Reader_take_window:
  assumes "reader_at T H r"
  shows "Reader_take lower upper r = Reader_store (window_take (er_src r) lower upper (Reader_load r)) r"
  unfolding Reader_take_def window_take_def Reader_normalize_window [OF reader_at_cnt [OF assms]] by (simp add: Reader_load_def)

text \<open>What every reader of a symbol does with a valid table.\<close>

definition read_ref :: "u16 list \<Rightarrow> nat \<Rightarrow> Reader \<Rightarrow> nat \<times> u16 list \<times> Reader" where
  "read_ref values n r =
     (let w = Reader_load r;
          (s, lower, upper) = pick (cdf_bounds values (n - 1) (w_rng w)) (coded (w_dif w)) (w_rng w)
      in (s, (if er_allowCDFUpdate r then adapted values n s else values), Reader_store (window_take (er_src r) lower upper w) r))"

lemma read_ref_cases:
  assumes "reader_at T H r" "cdf_valid values n"
  obtains s lower upper where
    "pick (cdf_bounds values (n - 1) (ucast (er_rng r))) (coded (er_dif r)) (ucast (er_rng r)) = (s, lower, upper)"
    "s < n" "lower < upper" "reader_ok (Reader_take lower upper r)"
    "read_ref values n r = (s, (if er_allowCDFUpdate r then adapted values n s else values), Reader_take lower upper r)"
proof -
  let ?w = "Reader_load r"
  have w: "window_ok (er_src r) T H ?w" "length (er_src r) < 2 ^ 32" using assms(1) by (simp_all add: reader_at_def)
  have f: "w_rng ?w = ucast (er_rng r)" "w_dif ?w = er_dif r" by (simp_all add: Reader_load_def)
  obtain s lower upper where p: "pick (cdf_bounds values (n - 1) (w_rng ?w)) (coded (w_dif ?w)) (w_rng ?w) = (s, lower, upper)" by (metis prod_cases3)
  have "2 ^ 15 \<le> unat (w_rng ?w)" "unat (w_rng ?w) < 2 ^ 16" using w(1) by (simp_all add: window_ok_def)
  from pick_interval [OF assms(2) this p coded_less(1) [OF w(1)]]
  have i: "s < n" "lower \<le> coded (w_dif ?w)" "coded (w_dif ?w) < upper" "upper \<le> w_rng ?w" by simp_all
  have "reader_ok (Reader_take lower upper r)"
    using window_take_ok [OF w(1) i(2-4)] reader_store_at [OF _ w(2)] unfolding reader_ok_def Reader_take_window [OF assms(1)] by blast
  moreover have "read_ref values n r = (s, (if er_allowCDFUpdate r then adapted values n s else values), Reader_take lower upper r)"
    using p unfolding read_ref_def Reader_take_window [OF assms(1)] by (simp add: Let_def)
  ultimately show thesis using that [OF p [unfolded f] i(1)] i(2,3) by simp
qed

lemma ucast_drop_bit_32: "(ucast (drop_bit k (v :: u16)) :: u32) = drop_bit k (ucast v)"
  by (rule bit_word_eqI) (auto simp: bit_simps dest: bit_imp_le_length)

lemma cdf_bounds_alt: "cdf_bounds values k rng = map (\<lambda>i. cdfBound (drop_bit 8 rng) (ucast (values ! i)) (of_nat (k - i) * ecMinProb)) [0..<k]"
  by (simp add: cdf_bounds_def cdfBound_def ucast_drop_bit_32 mult.commute)

text \<open>The adaptation of the specialised readers, in 32 bits.\<close>

definition adapt_unrolled :: "u16 list \<Rightarrow> nat \<Rightarrow> nat \<Rightarrow> nat \<Rightarrow> u16 list" where
  "adapt_unrolled values n rate s =
     (let xs = update_each (\<lambda>i v. ucast (adaptCDFEntry (ucast v) rate (i < s))) [0..<n - 1] values
      in if values ! n < MaxCDFCount then xs[n := values ! n + 1] else xs)"

lemma adapt_unrolled_adapted:
  assumes "cdf_valid values n" "rate = cdf_rate (values ! n) n"
  shows "adapt_unrolled values n rate s = adapted values n s"
proof -
  have n: "n < length values" "2 \<le> n" using assms(1) by (simp_all add: cdf_valid_def)
  have e: "ucast (adaptCDFEntry (ucast (values ! i)) rate u) = adapt_entry rate u (values ! i)" if "i < n - 1" for i u
    using cdf_valid_le [OF assms(1), of i] that by (intro adaptCDFEntry_16) linarith
  show ?thesis
    using n unfolding adapt_unrolled_def Let_def assms(2) [symmetric]
    by (intro adaptedI) (auto simp: update_each_nth e nth_list_update nextCDFCount_def assms(2) [symmetric])
qed

lemma cdf_rate_5: "3 < n \<Longrightarrow> unat (5 + (drop_bit 4 count AND 3)) = cdf_rate count n"
proof -
  assume n: "3 < n"
  have "unat (drop_bit 4 count AND 3) \<le> 3" using word_and_le1 [of "drop_bit 4 count" 3] by (simp add: word_le_nat_alt)
  then show ?thesis using n by (simp add: cdf_rate_def Let_def unat_word_ariths)
qed

lemma cdf_rate_4: "n \<le> 3 \<Longrightarrow> unat (4 + (drop_bit 4 count AND 3)) = cdf_rate count n"
  by (simp add: cdf_rate_def)

definition read_unrolled :: "nat \<Rightarrow> u16 list \<Rightarrow> Cursor \<Rightarrow> nat \<times> u16 list \<times> Cursor" where
  "read_unrolled n values c =
     (let w = Cursor_load c;
          bs = cdf_bounds values (n - 1) (w_rng w);
          (s, lower, upper) = chain (coded (w_dif w)) 0 bs (0, hd bs, w_rng w)
      in (s, (if cu_allowCDFUpdate c then adapt_unrolled values n (unat (5 + (drop_bit 4 (values ! n) AND 3))) s else values),
          Cursor_store (window_take (cu_src c) lower upper w) c))"

lemma upt_numerals:
  "[0..<2] = [0, 1 :: nat]" "[0..<3] = [0, 1, 2 :: nat]" "[0..<4] = [0, 1, 2, 3 :: nat]" "[0..<5] = [0, 1, 2, 3, 4 :: nat]" "[0..<6] = [0, 1, 2, 3, 4, 5 :: nat]"
  "[0..<7] = [0, 1, 2, 3, 4, 5, 6 :: nat]" "[0..<8] = [0, 1, 2, 3, 4, 5, 6, 7 :: nat]" "[0..<9] = [0, 1, 2, 3, 4, 5, 6, 7, 8 :: nat]"
  "[0..<10] = [0, 1, 2, 3, 4, 5, 6, 7, 8, 9 :: nat]"
  by (simp_all add: eval_nat_numeral upt_rec)

lemmas unroll = upt_numerals cdf_bounds_alt coded_def read_unrolled_def adapt_unrolled_def update_each_def

lemma Cursor_readCDF5Known_unrolled: "Cursor_readCDF5Known = read_unrolled 5"
  unfolding Cursor_readCDF5Known_def read_unrolled_def adapt_unrolled_def Let_def
  by (intro ext) (simp add: unroll del: One_nat_def split del: if_split cong: prod.case_cong if_cong)

lemma Cursor_readCDF6Known_unrolled: "Cursor_readCDF6Known = read_unrolled 6"
  unfolding Cursor_readCDF6Known_def read_unrolled_def adapt_unrolled_def Let_def
  by (intro ext) (simp add: unroll del: One_nat_def split del: if_split cong: prod.case_cong if_cong)

lemma Cursor_readCDF7Known_unrolled: "Cursor_readCDF7Known = read_unrolled 7"
  unfolding Cursor_readCDF7Known_def read_unrolled_def adapt_unrolled_def Let_def
  by (intro ext) (simp add: unroll del: One_nat_def split del: if_split cong: prod.case_cong if_cong)

lemma Cursor_readCDF8Known_unrolled: "Cursor_readCDF8Known = read_unrolled 8"
  unfolding Cursor_readCDF8Known_def read_unrolled_def adapt_unrolled_def Let_def
  by (intro ext) (simp add: unroll del: One_nat_def split del: if_split cong: prod.case_cong if_cong)

lemma Cursor_readCDF9Known_unrolled: "Cursor_readCDF9Known = read_unrolled 9"
  unfolding Cursor_readCDF9Known_def read_unrolled_def adapt_unrolled_def Let_def
  by (intro ext) (simp add: unroll del: One_nat_def split del: if_split cong: prod.case_cong if_cong)

lemma Cursor_readCDF10Known_unrolled: "Cursor_readCDF10Known = read_unrolled 10"
  unfolding Cursor_readCDF10Known_def read_unrolled_def adapt_unrolled_def Let_def
  by (intro ext) (simp add: unroll del: One_nat_def split del: if_split cong: prod.case_cong if_cong)

lemma Cursor_readCDF11Known_unrolled: "Cursor_readCDF11Known = read_unrolled 11"
  unfolding Cursor_readCDF11Known_def read_unrolled_def adapt_unrolled_def Let_def
  by (intro ext) (simp add: unroll del: One_nat_def split del: if_split cong: prod.case_cong if_cong)

definition on_cursor :: "nat \<times> u16 list \<times> Reader \<Rightarrow> nat \<times> u16 list \<times> Cursor" where
  "on_cursor res = (case res of (s, vs, r) \<Rightarrow> (s, vs, Reader_Cursor r))"

lemma read_unrolled_ref:
  assumes "reader_ok r" "cdf_valid values n" "3 < n"
  shows "read_unrolled n values (Reader_Cursor r) = on_cursor (read_ref values n r)"
proof -
  obtain T H where a: "reader_at T H r" using assms(1) by (auto simp: reader_ok_def)
  then have w: "2 ^ 15 \<le> unat (w_rng (Reader_load r))" "unat (w_rng (Reader_load r)) < 2 ^ 16" by (simp_all add: reader_at_def window_ok_def)
  have "cdf_bounds values (n - 1) (w_rng (Reader_load r)) \<noteq> []" using assms(3) unfolding length_0_conv [symmetric] length_cdf_bounds by linarith
  note c = chain_pick [OF cdf_bounds_sorted [OF assms(2) w] this]
  show ?thesis
    unfolding read_unrolled_def read_ref_def on_cursor_def Let_def Cursor_load_Reader Cursor_store_Reader Reader_Cursor_src c
      adapt_unrolled_adapted [OF assms(2) cdf_rate_5 [OF assms(3)]] by (simp split: prod.split)
qed

lemma fold_adapt_unrolled:
  "fold (\<lambda>i values. values[i := ucast (adaptCDFEntry (ucast (values ! i)) rate (i < s))]) [0..<n - 1] values =
     update_each (\<lambda>i v. ucast (adaptCDFEntry (ucast v) rate (i < s))) [0..<n - 1] values"
  by (simp add: update_each_def)

lemma Cursor_readSymbolKnown_ref:
  assumes "cdf_valid values n"
  shows "Cursor_readSymbolKnown values n (Reader_Cursor r) = on_cursor (read_ref values n r)"
proof -
  have rate: "(if n > 3 then unat (4 + (drop_bit 4 (values ! n) AND 3)) + 1 else unat (4 + (drop_bit 4 (values ! n) AND 3))) = cdf_rate (values ! n) n"
    by (simp add: cdf_rate_def)
  obtain s lower upper where p: "pick (cdf_bounds values (n - 1) (w_rng (Reader_load r))) (coded (w_dif (Reader_load r))) (w_rng (Reader_load r)) = (s, lower, upper)"
    by (metis prod_cases3)
  show ?thesis
    unfolding Cursor_readSymbolKnown_def read_ref_def on_cursor_def Let_def Cursor_load_Reader find_symbol_pick p prod.case rate
      adapt_unrolled_adapted [OF assms refl, symmetric] adapt_unrolled_def fold_adapt_unrolled Cursor_store_Reader Reader_Cursor_src ..
qed

lemma Reader_take_allow [simp]: "er_allowCDFUpdate (Reader_take lower upper r) = er_allowCDFUpdate r"
  by (simp add: Reader_take_def Reader_normalize_def Reader_refill_def Let_def split: prod.split)

lemma readSymbolKnown_ref:
  assumes "reader_ok r" "cdf_valid values n" "3 < n"
  shows "readSymbolKnown values n r = (case read_ref values n r of (s, vs, r') \<Rightarrow> (Inr s, vs, r'))"
proof -
  obtain T H where a: "reader_at T H r" using assms(1) by (auto simp: reader_ok_def)
  from read_ref_cases [OF a assms(2)] obtain s lower upper where
    p: "pick (cdf_bounds values (n - 1) (ucast (er_rng r))) (coded (er_dif r)) (ucast (er_rng r)) = (s, lower, upper)" "lower < upper"
    "read_ref values n r = (s, (if er_allowCDFUpdate r then adapted values n s else values), Reader_take lower upper r)" .
  have g: "(lower \<ge> upper) = False" using p(2) by simp
  show ?thesis
    unfolding readSymbolKnown_def find_symbol_pick Let_def p(1,3) prod.case g if_False Reader_take_allow
      adapt_unrolled_adapted [OF assms(2) cdf_rate_5 [OF assms(3)], symmetric] adapt_unrolled_def fold_adapt_unrolled ..
qed

lemma cdf_bounds_take: "n < length cdf \<Longrightarrow> cdf_bounds (take (n + 1) cdf) (n - 1) rng = cdf_bounds cdf (n - 1) rng"
  by (simp add: cdf_bounds_def)

lemma updateCDFWindow_take:
  assumes "n < length cdf" "s < n"
  shows "updateCDFWindow (take (n + 1) cdf) s @ drop (n + 1) cdf = adapted cdf n s"
proof -
  have "updateCDFWindow (take (n + 1) cdf) s = adapted (take (n + 1) cdf) n s" using assms by (intro updateCDFWindow_adapted) simp_all
  then show ?thesis using adapted_prefix [OF assms(1)] by simp
qed

lemma readSymbolTrusted_ref:
  assumes "reader_ok r" "cdf_valid cdf n"
  shows "readSymbolTrusted cdf n r = (case read_ref cdf n r of (s, vs, r') \<Rightarrow> (Inr s, vs, r'))"
proof -
  obtain T H where a: "reader_at T H r" using assms(1) by (auto simp: reader_ok_def)
  from read_ref_cases [OF a assms(2)] obtain s lower upper where
    p: "pick (cdf_bounds cdf (n - 1) (ucast (er_rng r))) (coded (er_dif r)) (ucast (er_rng r)) = (s, lower, upper)" "s < n" "lower < upper"
    "read_ref cdf n r = (s, (if er_allowCDFUpdate r then adapted cdf n s else cdf), Reader_take lower upper r)" .
  have n: "n < length cdf" "2 \<le> n" using assms(2) by (simp_all add: cdf_valid_def)
  have l: "length (take (n + 1) cdf) - 2 = n - 1" using n by simp
  show ?thesis
    using p(3) unfolding readSymbolTrusted_def Let_def l find_symbol_pick cdf_bounds_take [OF n(1)] p(1,4)
    by (simp add: updateCDFWindow_take [OF n(1) p(2), simplified])
qed

lemma ReadSymbol_ref:
  assumes "reader_ok r" "cdf_valid cdf n"
  shows "ReadSymbol cdf (int n) r = (case read_ref cdf n r of (s, vs, r') \<Rightarrow> (Inr s, vs, r'))"
proof -
  have "ReadSymbol cdf (int n) r = readSymbolTrusted cdf n r"
    using assms(2) unfolding ValidateCDF_valid [symmetric] by (simp only: ReadSymbol_def readSymbolTrusted_def option.case nat_int)
  then show ?thesis using readSymbolTrusted_ref [OF assms] by simp
qed

lemma binary_pick:
  "(let lower = drop_bit 1 (drop_bit 8 rng * ucast (drop_bit 6 (values ! 0))) + ecMinProb
    in if coded dif < lower then (1, 0, lower) else (0, lower, rng)) = pick (cdf_bounds values (2 - 1) rng) (coded dif) rng"
  by (simp add: cdf_bounds_def pick_def Let_def)

lemma select3_pick: "select3 values rng dif = pick (cdf_bounds values (3 - 1) rng) (coded dif) rng"
  by (simp add: select3_def coded_def [symmetric] cdf_bounds_def pick_def Let_def upt_numerals mult.commute)

lemma adapt3_adapted: "cdf_valid values 3 \<Longrightarrow> adapt3 values s = adapted values 3 s"
  using adapt_unrolled_adapted [OF _ cdf_rate_4 [of 3], of "values" s]
  by (simp add: adapt3_def adapt_unrolled_def update_each_def upt_numerals Let_def del: One_nat_def)

lemma select4_pick:
  assumes "cdf_valid values 4" "2 ^ 15 \<le> unat rng" "unat rng < 2 ^ 16"
  shows "select4 (ucast (values ! 0)) (ucast (values ! 1)) (ucast (values ! 2)) rng dif = pick (cdf_bounds values (4 - 1) rng) (coded dif) rng"
proof -
  have "cdf_bounds values (4 - 1) rng \<noteq> []" unfolding length_0_conv [symmetric] length_cdf_bounds by simp
  from chain_pick [OF cdf_bounds_sorted [OF assms] this]
  show ?thesis
    by (simp add: select4_def selectSymbol4_def coded_def [symmetric] cdf_bounds_alt upt_numerals Let_def del: One_nat_def split del: if_split cong: if_cong)
qed

lemma adapt4_adapted:
  assumes "cdf_valid values 4"
  shows "(let count = values ! 4; rate = unat (5 + (drop_bit 4 count AND 3));
      values = values[0 := ucast (adaptCDFEntry (ucast (values ! 0)) rate (s > 0)), 1 := ucast (adaptCDFEntry (ucast (values ! 1)) rate (s > 1)),
        2 := ucast (adaptCDFEntry (ucast (values ! 2)) rate (s > 2))]
    in if count < MaxCDFCount then values[4 := count + 1] else values) = adapted values 4 s"
  using adapt_unrolled_adapted [OF assms cdf_rate_5 [of 4], of s]
  by (simp add: adapt_unrolled_def update_each_def upt_numerals Let_def del: One_nat_def)

lemma readBinaryCDFKnown_ref:
  assumes "reader_ok r" "cdf_valid values 2"
  shows "readBinaryCDFKnown values r = read_ref values 2 r"
    "Cursor_readBinaryCDFKnown values (Reader_Cursor r) = on_cursor (read_ref values 2 r)"
proof -
  obtain T H where a: "reader_at T H r" using assms(1) by (auto simp: reader_ok_def)
  from read_ref_cases [OF a assms(2)] obtain s lower upper where
    p: "pick (cdf_bounds values (2 - 1) (ucast (er_rng r))) (coded (er_dif r)) (ucast (er_rng r)) = (s, lower, upper)" "s < 2"
    "read_ref values 2 r = (s, (if er_allowCDFUpdate r then adapted values 2 s else values), Reader_take lower upper r)" .
  show "readBinaryCDFKnown values r = read_ref values 2 r"
    using p(1) [folded binary_pick] unfolding p(3) readBinaryCDFKnown_def coded_def [symmetric] Let_def
    by (simp only: prod.case Reader_take_allow updateCDF2_adapted [OF assms(2) p(2)])
  have l: "w_rng (Reader_load r) = ucast (er_rng r)" "w_dif (Reader_load r) = er_dif r" by (simp_all add: Reader_load_def)
  show "Cursor_readBinaryCDFKnown values (Reader_Cursor r) = on_cursor (read_ref values 2 r)"
    using p(1) [folded binary_pick]
    unfolding p(3) on_cursor_def prod.case Cursor_readBinaryCDFKnown_def coded_def [symmetric] Let_def Cursor_load_Reader l Cursor_store_Reader Reader_Cursor_src
      Reader_take_window [OF a]
    by (simp only: prod.case updateCDF2_adapted [OF assms(2) p(2)])
qed

lemma readCDF3Known_ref:
  assumes "reader_ok r" "cdf_valid values 3"
  shows "readCDF3Known values r = read_ref values 3 r"
    "Cursor_readCDF3Known values (Reader_Cursor r) = on_cursor (read_ref values 3 r)"
proof -
  obtain T H where a: "reader_at T H r" using assms(1) by (auto simp: reader_ok_def)
  from read_ref_cases [OF a assms(2)] obtain s lower upper where
    p: "pick (cdf_bounds values (3 - 1) (ucast (er_rng r))) (coded (er_dif r)) (ucast (er_rng r)) = (s, lower, upper)"
    "read_ref values 3 r = (s, (if er_allowCDFUpdate r then adapted values 3 s else values), Reader_take lower upper r)" .
  show "readCDF3Known values r = read_ref values 3 r"
    unfolding p(2) readCDF3Known_def select3_pick p(1) Let_def prod.case Reader_take_allow adapt3_adapted [OF assms(2)] ..
  have l: "w_rng (Reader_load r) = ucast (er_rng r)" "w_dif (Reader_load r) = er_dif r" by (simp_all add: Reader_load_def)
  show "Cursor_readCDF3Known values (Reader_Cursor r) = on_cursor (read_ref values 3 r)"
    unfolding p(2) on_cursor_def prod.case Cursor_readCDF3Known_def Let_def Cursor_load_Reader l select3_pick p(1) Cursor_store_Reader Reader_Cursor_src
      Reader_take_window [OF a] adapt3_adapted [OF assms(2)] ..
qed

lemma readCDF4Known_ref:
  assumes "reader_ok r" "cdf_valid values 4"
  shows "readCDF4Known values r = read_ref values 4 r"
    "with_values cdf (if er_allowCDFUpdate r then Cursor_readCDF4UpdateKnown values (Reader_Cursor r) else Cursor_readCDF4Known values (Reader_Cursor r)) =
       with_values cdf (on_cursor (read_ref values 4 r))"
proof -
  obtain T H where a: "reader_at T H r" using assms(1) by (auto simp: reader_ok_def)
  have w: "2 ^ 15 \<le> unat (w_rng (Reader_load r))" "unat (w_rng (Reader_load r)) < 2 ^ 16" using a by (simp_all add: reader_at_def window_ok_def)
  have l: "w_rng (Reader_load r) = ucast (er_rng r)" "w_dif (Reader_load r) = er_dif r" by (simp_all add: Reader_load_def)
  from read_ref_cases [OF a assms(2)] obtain s lower upper where
    p: "pick (cdf_bounds values (4 - 1) (ucast (er_rng r))) (coded (er_dif r)) (ucast (er_rng r)) = (s, lower, upper)" "s < 4"
    "read_ref values 4 r = (s, (if er_allowCDFUpdate r then adapted values 4 s else values), Reader_take lower upper r)" .
  note sel = select4_pick [OF assms(2) w, unfolded l]
  have "s = 0 \<or> s = 1 \<or> s = 2 \<or> s = 3" using p(2) by linarith
  then show "readCDF4Known values r = read_ref values 4 r"
    unfolding p(3) readCDF4Known_def sel p(1) adapt4_adapted [OF assms(2), symmetric] prod.case Let_def Reader_take_allow
    by (auto simp: adaptCDFEntry_def Let_def)
  show "with_values cdf (if er_allowCDFUpdate r then Cursor_readCDF4UpdateKnown values (Reader_Cursor r) else Cursor_readCDF4Known values (Reader_Cursor r)) =
       with_values cdf (on_cursor (read_ref values 4 r))"
    unfolding p(3) on_cursor_def prod.case Cursor_readCDF4UpdateKnown_def Cursor_readCDF4Known_def Let_def Cursor_load_Reader l sel p(1) Cursor_store_Reader
      Reader_Cursor_src Reader_take_window [OF a] adapt4_adapted [OF assms(2), symmetric] by simp
qed

section \<open>Reachable readers\<close>

lemma read_ref_ok:
  assumes "reader_ok r" "cdf_valid values n" "read_ref values n r = (s, vs, r')"
  shows "reader_ok r' \<and> s < n \<and> cdf_valid vs n \<and> length vs = length values"
proof -
  obtain T H where a: "reader_at T H r" using assms(1) by (auto simp: reader_ok_def)
  from read_ref_cases [OF a assms(2)] obtain s1 lower upper where
    p: "s1 < n" "reader_ok (Reader_take lower upper r)"
    "read_ref values n r = (s1, (if er_allowCDFUpdate r then adapted values n s1 else values), Reader_take lower upper r)" .
  then show ?thesis using assms(2,3) adapted_valid [OF assms(2) p(1)] by auto
qed

lemma ReadCDF_ref:
  assumes "reader_ok r" "cdf_ok c"
  shows "ReadCDF c r = (case read_ref (cdf_values c) (unat (cdf_symbols c)) r of (s, vs, r') \<Rightarrow> (Inr s, c\<lparr>cdf_values := vs\<rparr>, r'))"
proof -
  let ?n = "unat (cdf_symbols c)"
  have v: "cdf_valid (cdf_values c) ?n" using assms(2) by (simp add: cdf_ok_def)
  then have n: "2 \<le> ?n" "?n \<le> 16" by (simp_all add: cdf_valid_def)
  then consider "?n = 2" | "?n = 3" | "?n = 4" | "4 < ?n" by linarith
  then show ?thesis
  proof cases
    case 1
    then show ?thesis using readBinaryCDFKnown_ref(1) [OF assms(1), of "cdf_values c"] v
      by (simp add: ReadCDF_def with_values_def MaxSymbols_def split: prod.split)
  next
    case 2
    then show ?thesis using readCDF3Known_ref(1) [OF assms(1), of "cdf_values c"] v
      by (simp add: ReadCDF_def with_values_def MaxSymbols_def split: prod.split)
  next
    case 3
    then show ?thesis using readCDF4Known_ref(1) [OF assms(1), of "cdf_values c"] v
      by (simp add: ReadCDF_def with_values_def MaxSymbols_def split: prod.split)
  next
    case 4
    then show ?thesis using readSymbolKnown_ref [OF assms(1) v] n
      by (simp add: ReadCDF_def with_values_def MaxSymbols_def split: prod.split)
  qed
qed

lemma ReadCDF_ok:
  assumes "reader_ok r" "c = zero_CDF \<or> cdf_ok c" "ReadCDF c r = (res, c', r')"
  shows "reader_ok r' \<and> (c' = zero_CDF \<or> cdf_ok c') \<and> (cdf_ok c \<longrightarrow> (\<exists>s. res = Inr s \<and> s < unat (cdf_symbols c)))"
proof (cases "cdf_ok c")
  case True
  obtain s vs r1 where r: "read_ref (cdf_values c) (unat (cdf_symbols c)) r = (s, vs, r1)" by (metis prod_cases3)
  have "cdf_valid (cdf_values c) (unat (cdf_symbols c))" using True by (simp add: cdf_ok_def)
  from read_ref_ok [OF assms(1) this r] show ?thesis
    using assms(3) True unfolding ReadCDF_ref [OF assms(1) True] r by (auto simp: cdf_ok_def)
next
  case False
  then show ?thesis using assms by (auto simp: ReadCDF_def zero_CDF_def)
qed

lemma ReadBool_ok:
  assumes "reader_ok r"
  shows "\<exists>b r'. Reader_ReadBool prob r = (Inr b, r') \<and> reader_ok r' \<and> (b = 0 \<or> b = 1)"
proof -
  define p where "p = (drop_bit 8 (0x7fffff - push_bit 15 (ucast prob) + ucast prob) :: u32)"
  have p8: "unat prob < 256" using unsigned_less [of prob, where 'a = nat] by simp
  have sh: "unat (push_bit 15 (ucast prob) :: u32) = unat prob * 32768" using p8 unat_push_bit [of "ucast prob :: u32" 15] by (simp add: unat_ucast_up)
  have sub: "unat (0x7fffff - push_bit 15 (ucast prob) :: u32) = 8388607 - unat prob * 32768"
  proof -
    have "push_bit 15 (ucast prob) \<le> (0x7fffff :: u32)" unfolding word_le_nat_alt sh using p8 by simp
    from unat_sub [OF this] show ?thesis unfolding sh by simp
  qed
  have "unat p = (8388607 - unat prob * 32768 + unat prob) div 256"
    unfolding p_def unat_drop unat_word_ariths sub using p8 by (simp add: unat_ucast_up)
  then have b: "0 < unat p" "unat p < 32768" using p8 by linarith+
  then have "unat (ucast p :: u16) = unat p" by (simp add: unsigned_ucast_eq take_bit_nat_eq_self)
  then show ?thesis using ReadBoolQ15_ok [OF assms, of "ucast p"] b unfolding Reader_ReadBool_def p_def [symmetric] Let_def by simp
qed

text \<open>
  A reader as its callers can make it: fresh over some source, then any of the operations with any arguments, failed calls included; tables are those of
  \<open>cdf_state\<close>, or slices for \<open>ReadSymbol\<close>, which validates them itself.
\<close>

inductive reader_state :: "Reader \<Rightarrow> bool" where
  new: "length src < 2 ^ 32 \<Longrightarrow> reader_state (NewReaderWithCDFUpdate src b)"
| set_update: "reader_state r \<Longrightarrow> reader_state (SetCDFUpdate b r)"
| bit: "reader_state r \<Longrightarrow> Reader_ReadBit r = (x, r') \<Longrightarrow> reader_state r'"
| bool: "reader_state r \<Longrightarrow> Reader_ReadBool p r = (x, r') \<Longrightarrow> reader_state r'"
| bool_q15: "reader_state r \<Longrightarrow> ReadBoolQ15 q r = (x, r') \<Longrightarrow> reader_state r'"
| bits: "reader_state r \<Longrightarrow> Reader_ReadBits k r = (y, r') \<Longrightarrow> reader_state r'"
| uniform: "reader_state r \<Longrightarrow> ReadUniform n r = (y, r') \<Longrightarrow> reader_state r'"
| subexp: "reader_state r \<Longrightarrow> ReadSubexp n k r = (y, r') \<Longrightarrow> reader_state r'"
| ref_subexp: "reader_state r \<Longrightarrow> ReadRefSubexp n k ref r = (y, r') \<Longrightarrow> reader_state r'"
| signed_ref_subexp: "reader_state r \<Longrightarrow> ReadSignedRefSubexp n k i r = (z, r') \<Longrightarrow> reader_state r'"
| symbol: "reader_state r \<Longrightarrow> ReadSymbol cdf m r = (s, cdf', r') \<Longrightarrow> reader_state r'"
| table: "reader_state r \<Longrightarrow> cdf_state c \<Longrightarrow> ReadCDF c r = (s, c', r') \<Longrightarrow> reader_state r'"
| signed_delta: "reader_state r \<Longrightarrow> cdf_state c \<Longrightarrow> ReadSignedDelta c small r = (z, c', r') \<Longrightarrow> reader_state r'"

lemma ReadSymbol_ok:
  assumes "reader_ok r" "ReadSymbol cdf m r = (s, cdf', r')"
  shows "reader_ok r'"
proof (cases "ValidateCDF cdf m = None")
  case True
  then have m: "m = int (nat m)" by (auto simp: ValidateCDF_def split: if_splits)
  then have v: "cdf_valid cdf (nat m)" using True ValidateCDF_valid [of cdf "nat m"] by simp
  have "ReadSymbol cdf m r = (case read_ref cdf (nat m) r of (s, vs, r') \<Rightarrow> (Inr s, vs, r'))" using ReadSymbol_ref [OF assms(1) v] m by simp
  moreover obtain s1 vs r1 where "read_ref cdf (nat m) r = (s1, vs, r1)" by (metis prod_cases3)
  ultimately show ?thesis using assms read_ref_ok [OF assms(1) v] by auto
next
  case False
  then show ?thesis using assms by (auto simp: ReadSymbol_def)
qed

lemma ReadSignedDelta_ok:
  assumes "reader_ok r" "c = zero_CDF \<or> cdf_ok c" "ReadSignedDelta c small r = (z, c', r')"
  shows "reader_ok r'"
proof (cases "small = 0 \<or> unat small \<ge> MaxSymbols \<or> CDF_Symbols c \<noteq> uint small + 1")
  case True
  then show ?thesis using assms(1,3) by (auto simp: ReadSignedDelta_def split: if_splits)
next
  case False
  obtain res c1 r1 where rc: "ReadCDF c r = (res, c1, r1)" by (metis prod_cases3)
  note ok = ReadCDF_ok [OF assms(1,2) rc]
  then have r1: "reader_ok r1" by blast
  show ?thesis
  proof (cases res)
    case (Inl e)
    then show ?thesis using assms(3) False rc r1 by (simp add: ReadSignedDelta_def)
  next
    case (Inr s)
    obtain v r2 where b3: "Reader_ReadBits 3 r1 = (Inr v, r2)" "reader_ok r2" "unat v < 2 ^ unat (3 :: u8)" using ReadBits_ok [OF r1, of 3] by auto
    have "(ucast (v + 1) :: u8) \<le> 32"
    proof -
      have "unat (v + 1) \<le> 8" using b3(3) by (simp add: unat_word_ariths)
      then show ?thesis by (simp add: word_le_nat_alt unsigned_ucast_eq take_bit_nat_eq_self)
    qed
    from ReadBits_ok [OF b3(2) this] obtain t r3 where bt: "Reader_ReadBits (ucast (v + 1)) r2 = (Inr t, r3)" "reader_ok r3" by blast
    show ?thesis
    proof (cases "unat small \<le> s")
      case True
      obtain b r4 where b: "Reader_ReadBit r3 = (Inr b, r4)" "reader_ok r4" using ReadBit_ok [OF bt(2)] by blast
      show ?thesis using assms(3) False rc Inr True b3(1) bt b by (auto simp: ReadSignedDelta_def Let_def split: if_splits)
    next
      case small: False
      obtain b r4 where b: "Reader_ReadBit r1 = (Inr b, r4)" "reader_ok r4" using ReadBit_ok [OF r1] by blast
      show ?thesis using assms(3) False rc Inr small r1 b by (auto simp: ReadSignedDelta_def Let_def split: if_splits)
    qed
  qed
qed

lemma reader_state_ok: "reader_state r \<Longrightarrow> reader_ok r"
proof (induction rule: reader_state.induct)
  case (new src b)
  then show ?case using NewReader_at by (auto simp: reader_ok_def)
next
  case (set_update r b)
  then show ?case by (simp add: reader_ok_def reader_at_def SetCDFUpdate_def Reader_load_def)
next
  case (bit r x r')
  then show ?case using ReadBit_ok [of r] by auto
next
  case (bool r p x r')
  then show ?case using ReadBool_ok [of r p] by auto
next
  case (bool_q15 r q x r')
  then show ?case using ReadBoolQ15_ok [of r q]
    by (cases "q = 0 \<or> 0x8000 \<le> q") (auto simp: ReadBoolQ15_def word_le_nat_alt unat_gt_0)
next
  case (bits r k y r')
  then show ?case using ReadBits_ok [of r k] by (cases "k \<le> 32") (auto simp: Reader_ReadBits_def not_le)
next
  case (uniform r n y r')
  then show ?case using ReadUniform_ok [of r n] by (cases "n = 0") (auto simp: ReadUniform_def)
next
  case (subexp r n k y r')
  then show ?case using ReadSubexp_ok [of r n k] by (cases "n = 0 \<or> k > 31") (auto simp: ReadSubexp_def [of n k] not_less split: if_splits)
next
  case (ref_subexp r n k ref y r')
  show ?case
  proof (cases "n = 0 \<or> n \<le> ref \<or> k > 31")
    case True
    then show ?thesis using ref_subexp by (auto simp: ReadRefSubexp_def ReadSubexp_def split: if_splits)
  next
    case False
    then show ?thesis using ref_subexp ReadRefSubexp_ok [of r ref n k] by (auto simp: not_le not_less)
  qed
next
  case (signed_ref_subexp r n k i z r')
  show ?case
  proof (cases "n = 0 \<or> n > 0x80000000 \<or> i + uint n - 1 < 0 \<or> i + uint n - 1 \<ge> uint (push_bit 1 n - 1) \<or> k > 31")
    case True
    then show ?thesis using signed_ref_subexp
      by (auto simp: ReadSignedRefSubexp_def ReadRefSubexp_def ReadSubexp_def Let_def split: if_splits)
  next
    case False
    let ?N = "push_bit 1 n - 1" and ?s = "i + uint n - 1"
    have "uint (word_of_int ?s :: u32) = ?s"
      using False unsigned_less [of ?N, where 'a = int] by (simp add: uint_word_of_int mod_pos_pos_trivial del: of_int_add of_int_diff push_bit_eq_mult)
    then have "word_of_int ?s < ?N" using False by (simp add: word_less_def del: of_int_add of_int_diff)
    then obtain v r1 where "ReadRefSubexp ?N k (word_of_int ?s) r = (Inr v, r1)" "reader_ok r1"
      using ReadRefSubexp_ok [OF signed_ref_subexp.IH, of "word_of_int ?s" ?N k] False by (auto simp: not_less)
    then show ?thesis using False signed_ref_subexp.hyps(2) by (auto simp: ReadSignedRefSubexp_def Let_def simp del: of_int_add of_int_diff)
  qed
next
  case (symbol r cdf m s cdf' r')
  then show ?case using ReadSymbol_ok by blast
next
  case (table r c s c' r')
  then show ?case using ReadCDF_ok [OF table.IH cdf_state_ok [OF table.hyps(2)] table.hyps(3)] by blast
next
  case (signed_delta r c small z c' r')
  then show ?case using ReadSignedDelta_ok [OF signed_delta.IH cdf_state_ok [OF signed_delta.hyps(2)] signed_delta.hyps(3)] by blast
qed

lemma ReadCDFSymbolsUnchecked_ref:
  assumes "reader_ok r" "cdf_ok c"
  shows "ReadCDFSymbolsUnchecked c (unat (cdf_symbols c)) (Reader_Cursor r) = with_values c (on_cursor (read_ref (cdf_values c) (unat (cdf_symbols c)) r))"
proof -
  let ?n = "unat (cdf_symbols c)" and ?vs = "cdf_values c"
  have v: "cdf_valid ?vs ?n" using assms(2) by (simp add: cdf_ok_def)
  then have n: "2 \<le> ?n" "?n \<le> 16" by (simp_all add: cdf_valid_def)
  consider "?n = 2" | "?n = 3" | "?n = 4" | "5 \<le> ?n \<and> ?n \<le> 11" | "11 < ?n" using n by linarith
  then show ?thesis
  proof cases
    case 1
    then show ?thesis using readBinaryCDFKnown_ref(2) [OF assms(1), of ?vs] v by (simp add: ReadCDFSymbolsUnchecked_def)
  next
    case 2
    then show ?thesis using readCDF3Known_ref(2) [OF assms(1), of ?vs] v by (simp add: ReadCDFSymbolsUnchecked_def)
  next
    case 3
    then show ?thesis using readCDF4Known_ref(2) [OF assms(1), of ?vs c] v by (simp add: ReadCDFSymbolsUnchecked_def Cursor_ReadCDF4Unchecked_def)
  next
    case 4
    then have "?n = 5 \<or> ?n = 6 \<or> ?n = 7 \<or> ?n = 8 \<or> ?n = 9 \<or> ?n = 10 \<or> ?n = 11" by linarith
    moreover have "ReadCDFSymbolsUnchecked c ?n (Reader_Cursor r) = with_values c (read_unrolled ?n ?vs (Reader_Cursor r))"
      using calculation unfolding ReadCDFSymbolsUnchecked_def Cursor_readCDF9To11Known_def Cursor_readCDF5Known_unrolled Cursor_readCDF6Known_unrolled
        Cursor_readCDF7Known_unrolled Cursor_readCDF8Known_unrolled Cursor_readCDF9Known_unrolled Cursor_readCDF10Known_unrolled Cursor_readCDF11Known_unrolled
      by (elim disjE) simp_all
    ultimately show ?thesis using read_unrolled_ref [OF assms(1) v] 4 by simp
  next
    case 5
    then show ?thesis using Cursor_readSymbolKnown_ref [OF v, of r] by (simp add: ReadCDFSymbolsUnchecked_def)
  qed
qed

lemma ReadCDFUnchecked_Symbols: "ReadCDFUnchecked c cu = ReadCDFSymbolsUnchecked c (unat (cdf_symbols c)) cu"
  by (simp add: ReadCDFUnchecked_def ReadCDFSymbolsUnchecked_def Let_def)

lemma ReadCDFTrusted_eq: "ReadCDFTrusted = ReadCDF"
  by (intro ext) (simp add: ReadCDFTrusted_def ReadCDF_def)

lemma ReadSymbolTrusted_ref:
  assumes "reader_ok r" "cdf_valid cdf n"
  shows "ReadSymbolTrusted cdf (int n) r = (case read_ref cdf n r of (s, vs, r') \<Rightarrow> (Inr s, vs, r'))"
  using assms readSymbolTrusted_ref [OF assms] by (simp add: ReadSymbolTrusted_def cdf_valid_def MaxSymbols_def)

section \<open>Properties\<close>

text \<open>
  C14: what every reachable reader satisfies: the range is normalised, the window holds a value below it, so that every search finds an interval, the position
  stays in the source and the count of bits ahead is not negative.
\<close>

theorem reader_normalised:
  assumes "reader_state r"
  shows "0x8000 \<le> er_rng r \<and> unat (er_dif r) < unat (er_rng r) * 2 ^ 48 \<and> unat (er_pos r) \<le> length (er_src r) \<and> 0 \<le> sint (er_cnt r)"
proof -
  obtain T H where "reader_at T H r" using reader_state_ok [OF assms] by (auto simp: reader_ok_def)
  then show ?thesis by (simp add: reader_at_def window_ok_def held_def Reader_load_def word_le_nat_alt Suc_le_eq)
qed

theorem reader_normalised_witness:
  "0x8000 \<le> er_rng (snd (Reader_ReadBit (NewReader [0x5a, 3]))) \<and>
    unat (er_dif (snd (Reader_ReadBit (NewReader [0x5a, 3])))) < unat (er_rng (snd (Reader_ReadBit (NewReader [0x5a, 3])))) * 2 ^ 48"
proof -
  have "reader_state (NewReader [0x5a, 3])" unfolding NewReader_def by (rule reader_state.new) simp
  from reader_normalised [OF reader_state.bit [OF this prod.collapse [symmetric]]] show ?thesis by blast
qed

text \<open>
  C15: the ten readers of a symbol are one: for a reachable reader and a table made by the table's own methods, the validating \<open>ReadSymbol\<close> does not fail, returns a symbol of
  the table and leaves a valid table; \<open>ReadSymbolTrusted\<close>, \<open>ReadCDF\<close>, \<open>ReadCDFTrusted\<close> and, on the reader's cursor, \<open>ReadCDFUnchecked\<close> and
  \<open>ReadCDFSymbolsUnchecked\<close>, with their branchless searches for 2 to 11 symbols, give the same symbol, the same table and the same state.
\<close>

theorem symbol_readers_agree:
  assumes "reader_state r" "cdf_state c" "c \<noteq> zero_CDF"
  shows "\<exists>s vs r'. ReadSymbol (cdf_values c) (CDF_Symbols c) r = (Inr s, vs, r') \<and> int s < CDF_Symbols c \<and> CDF_Validate (c\<lparr>cdf_values := vs\<rparr>) = None \<and>
    ReadSymbolTrusted (cdf_values c) (CDF_Symbols c) r = (Inr s, vs, r') \<and>
    ReadCDF c r = (Inr s, c\<lparr>cdf_values := vs\<rparr>, r') \<and>
    ReadCDFTrusted c r = (Inr s, c\<lparr>cdf_values := vs\<rparr>, r') \<and>
    ReadCDFUnchecked c (Reader_Cursor r) = (s, c\<lparr>cdf_values := vs\<rparr>, Reader_Cursor r') \<and>
    ReadCDFSymbolsUnchecked c (unat (cdf_symbols c)) (Reader_Cursor r) = (s, c\<lparr>cdf_values := vs\<rparr>, Reader_Cursor r')"
proof -
  have r: "reader_ok r" and c: "cdf_ok c" using reader_state_ok [OF assms(1)] cdf_state_ok [OF assms(2)] assms(3) by blast+
  then have v: "cdf_valid (cdf_values c) (unat (cdf_symbols c))" by (simp add: cdf_ok_def)
  obtain s vs r' where ref: "read_ref (cdf_values c) (unat (cdf_symbols c)) r = (s, vs, r')" by (metis prod_cases3)
  note ok = read_ref_ok [OF r v ref]
  have "CDF_Validate (c\<lparr>cdf_values := vs\<rparr>) = None" using ok c CDF_Validate_ok [of "c\<lparr>cdf_values := vs\<rparr>"] by (simp add: cdf_ok_def)
  moreover have "int s < int (unat (cdf_symbols c))" using ok by linarith
  ultimately show ?thesis
    using ok unfolding CDF_Symbols_int ReadSymbol_ref [OF r v] ReadSymbolTrusted_ref [OF r v] ReadCDFTrusted_eq ReadCDF_ref [OF r c] ReadCDFUnchecked_Symbols
      ReadCDFSymbolsUnchecked_ref [OF r c] ref on_cursor_def with_values_def prod.case by blast
qed

theorem symbol_readers_agree_witness:
  "\<exists>s c' r'. ReadCDF (snd (CDF_InitUniform 7 zero_CDF)) (NewReader [0x5a, 3]) = (Inr s, c', r') \<and>
    ReadCDFUnchecked (snd (CDF_InitUniform 7 zero_CDF)) (Reader_Cursor (NewReader [0x5a, 3])) = (s, c', Reader_Cursor r')"
proof -
  let ?c = "snd (CDF_InitUniform 7 zero_CDF)" and ?r = "NewReader [0x5a, 3]"
  have c: "cdf_state ?c" by (rule cdf_state.uniform [OF prod.collapse [symmetric] cdf_state.zero])
  have r: "reader_state ?r" unfolding NewReader_def by (rule reader_state.new) simp
  have "cdf_symbols ?c \<noteq> cdf_symbols zero_CDF"
    by (simp add: CDF_InitUniform_def InitUniformCDF_def zero_CDF_def MaxSymbols_def Let_def)
  then have z: "?c \<noteq> zero_CDF" by metis
  show ?thesis using symbol_readers_agree [OF r c z] by blast
qed

text \<open>
  C21: values in range: a reachable reader decodes \<open>ReadUniform(n)\<close> and \<open>ReadSubexp(n, k)\<close> to a value below \<open>n\<close>, \<open>ReadRefSubexp(n, k, ref)\<close> to one below \<open>n\<close>
  for every reference below \<open>n\<close>, and \<open>ReadSignedRefSubexp(n, k, ref)\<close> to one strictly between \<open>-n\<close> and \<open>n\<close>; none of them fails on arguments in the documented
  range, so the search for the subexponential class always ends inside 32 bits.
\<close>

theorem codes_in_range:
  assumes "reader_state r" "n \<noteq> 0" "k \<le> 31"
  shows "(\<exists>v r'. ReadUniform n r = (Inr v, r') \<and> v < n) \<and> (\<exists>v r'. ReadSubexp n k r = (Inr v, r') \<and> v < n) \<and>
    (ref < n \<longrightarrow> (\<exists>v r'. ReadRefSubexp n k ref r = (Inr v, r') \<and> v < n)) \<and>
    (n \<le> 0x80000000 \<and> \<bar>i\<bar> < uint n \<longrightarrow> (\<exists>v r'. ReadSignedRefSubexp n k i r = (Inr v, r') \<and> \<bar>v\<bar> < uint n))"
  using ReadUniform_ok [OF reader_state_ok [OF assms(1)] assms(2)] ReadSubexp_ok [OF reader_state_ok [OF assms(1)] assms(2,3)]
    ReadRefSubexp_ok [OF reader_state_ok [OF assms(1)] _ assms(3)] ReadSignedRefSubexp_ok [OF reader_state_ok [OF assms(1)] assms(2) _ _ assms(3)]
  unfolding word_less_nat_alt by (intro conjI impI) (blast | meson)+

theorem codes_in_range_witness:
  "(\<exists>v r'. ReadUniform 5 (NewReader [0x5a, 3]) = (Inr v, r') \<and> v < 5) \<and>
   (\<exists>v r'. ReadSignedRefSubexp 5 2 (- 3) (NewReader [0x5a, 3]) = (Inr v, r') \<and> \<bar>v\<bar> < 5)"
proof -
  have r: "reader_state (NewReader [0x5a, 3])" unfolding NewReader_def by (rule reader_state.new) simp
  have k: "(2 :: u8) \<le> 31" "(5 :: u32) \<noteq> 0" "(5 :: u32) \<le> 0x80000000" "\<bar>- 3 :: int\<bar> < uint (5 :: u32)" "uint (5 :: u32) = 5" by simp_all
  show ?thesis using codes_in_range [OF r k(2,1), of 0 "- 3"] k(3-5) by auto
qed

end
