(* ===== verification/Spec2Isabelle.thy ===== *)
theory Spec2Isabelle
  imports Annexb Ivf Seq_Writer Film_Grain Tile_List Metadata Stream_Paths Entropy_Symbols
begin

text \<open>
  Verification of goav1, an AV1 decoder and encoder in Go, at the level of its bit streams: the containers and framings that carry
  OBUs, the headers inside them, the state machine of the decoder over them, RTP packets in both directions, and the entropy
  coder that the tiles are written with. Paths below are relative to \<open>src/internal/av1\<close>.

  \<^bold>\<open>How the program fits together.\<close> A stream arrives as an IVF file (\<open>ivf\<close>), as a low-overhead or Annex B byte stream (\<open>obu\<close>) or in
  RTP payloads (\<open>rtp\<close>); each yields OBUs. \<open>decoder/stream.go\<close> takes them one by one: it parses sequence headers, frame headers and tile
  groups with the functions of \<open>parser\<close>, keeps the reference slots, and reports events. The parsers read bits with
  \<open>bitstream\<close>. The tiles are then decoded with the range decoder of \<open>entropy\<close>. The encoder writes the same syntax with
  \<open>encoder/bitwriter.go\<close>, \<open>encoder/sequence.go\<close> and \<open>encoder/bitstream.go\<close>, and \<open>rtp/packetizer.go\<close> splits its frames into payloads.

  \<^bold>\<open>Conventions.\<close> A Go slice is the list of its bytes; where a function writes through a slice or appends to it, the model carries
  its length and its backing (\<open>slice\<close> of \<open>Obu_Writer\<close>). Integers of a fixed width are words of that width; \<open>int\<close> of the code is \<open>int\<close> where
  it is checked for its sign and \<open>nat\<close> where it counts, with the places where it could wrap noted in the theories. An error is a value of
  \<open>go_err\<close>, returned in a sum or an option. A method with a pointer receiver takes the old state and returns the new one; a
  struct is a record with its zero value as a constant. Loops are recursive functions with termination proofs. Two loops whose end depends
  on their arguments (\<open>plan_middle\<close> of the packetizer, \<open>golomb_prefix\<close> of the range decoder) are partial functions into options. The loops over
  an iterator in the two conversions of \<open>Annexb\<close> take the length of the source plus one as fuel: each round consumes a byte, and
  \<open>LowOverheadToAnnexB_total\<close> and the round trip of the conversions show that it is enough.

  \<^bold>\<open>Theories and what they model.\<close>
  \<^item> \<open>Prelude\<close>: types, errors, slices, bytes and words.
  \<^item> \<open>Bit_Reader\<close>, \<open>Leb128\<close> (\<open>bitstream/reader.go\<close>, \<open>leb128.go\<close>): \<open>ReadBits\<close> with its fast paths returns the next bits of the source;
    \<open>ReadUVLC\<close> refines the uvlc syntax of the AV1 specification; LEB128 values read back.
  \<^item> \<open>Bit_Writer\<close>, \<open>Bit_Codec\<close> (\<open>encoder/bitwriter.go\<close>): the writer, and the locale \<open>syntax_codec\<close> of a writer and a reader of the same
    syntax, closed under sequencing (\<open>codec_pair\<close>) and interpreted for bits, flags, uvlc and, in \<open>Seq_Writer\<close>, a whole sequence header.
  \<^item> \<open>Stream_Iterator\<close>: the locales \<open>stream_iterator\<close> and \<open>contiguous_iterator\<close> of the iterators over bytes: they end, and their pieces
    are the input in order. Interpreted for IVF frames, low-overhead OBUs, temporal units, Annex B units and RTP elements.
  \<^item> \<open>Obu\<close>, \<open>Obu_Writer\<close>, \<open>Annexb\<close>, \<open>Ivf\<close>, \<open>Metadata\<close> (\<open>obu\<close>, \<open>ivf\<close>, \<open>encoder/bitstream.go\<close>): headers, units, iterators, writers,
    normalisation, both conversions between the framings, container files and metadata payloads.
  \<^item> \<open>Seq_Parser\<close>, \<open>Header_Codec\<close>, \<open>Seq_Writer\<close> (\<open>parser/sequence.go\<close>, \<open>operating_point.go\<close>, \<open>encoder/sequence.go\<close>): what the parser accepts is
    well formed, and what the encoder validates and writes is parsed back to the same header.
  \<^item> \<open>Frame_Types\<close>, \<open>Frame_Prefix\<close>, \<open>Frame_Size\<close>, \<open>Tile_Info\<close>, \<open>Frame_Params\<close>, \<open>Global_Motion\<close>, \<open>Film_Grain\<close> (the stages of
    \<open>uncompressed_header()\<close> in \<open>parser\<close>): the record of each stage, its parser, and what every accepted header satisfies. The locale
    \<open>header_stage\<close> states what the stages share (a stage starts where the one before ended and stays in the payload); it is interpreted for each.
  \<^item> \<open>Tile_Group\<close>, \<open>Tile_List\<close> (\<open>parser/tile_group.go\<close>, \<open>tile_list.go\<close>): tile groups split into disjoint spans of the payload; tile lists
    parse exactly what is written, and their regions do not overlap.
  \<^item> \<open>Decoder_Stream\<close>, \<open>Stream_Invariant\<close>, \<open>Stream_Paths\<close> (\<open>decoder/stream.go\<close>): every operation of \<open>Stream\<close>. Reachable states
    satisfy \<open>stream_ok\<close>, by induction over the operations; the tile groups of a frame are its tiles in order and a pending frame can always be
    completed; a rejected unit leaves no trace; pushing a byte stream, or the payloads that the packetizer makes of a frame, is pushing
    the units one by one.
  \<^item> \<open>Rtp_Payload\<close>, \<open>Rtp_Packetizer\<close>, \<open>Rtp_Plan\<close>, \<open>Rtp_Send\<close> (\<open>rtp\<close>): aggregation headers, elements, fragments, the depacketizer, the
    planner and the writer of packets. Plans end and respect the size limits; a frame that is packetized comes back from the depacketizer.
  \<^item> \<open>Entropy_Cdf\<close> (\<open>entropy/cdf.go\<close>, \<open>symbol_select.go\<close>): adaptive tables are valid by construction and their adaptations agree.
  \<^item> \<open>Entropy_Reader\<close>, \<open>Entropy_Symbols\<close> (\<open>entropy/reader.go\<close>): the range decoder. The invariant \<open>window_ok\<close> relates the 64-bit window to
    the bits of the source, so that refilling early or late makes no difference; the fast refill, and the readers that are unrolled for each number of
    symbols, on the reader or on its cursor, are one function; the values read are in range.

  \<^bold>\<open>Bounds.\<close> Lengths of slices are unbounded, so an \<open>int\<close> that is a sum of lengths does not wrap; a 64-bit \<open>int\<close> cannot hold
  more than the address space. Everything that the code keeps in 8, 16 or 32 bits keeps its width here.

  \<^bold>\<open>Not modelled.\<close> The syntax of blocks (\<open>tile\<close>) with its default tables, reconstruction and post filters (\<open>decoder\<close> other than \<open>stream.go\<close>, and the
  packages of sample arithmetic with SIMD variants), frame buffers, threading, the search and rate control of the encoder, the assembler of
  RTP frames and the dependency descriptor, and the public wrappers, commands and tests.
\<close>

end
